(* ===== verification/JS_Prelude.thy ===== *)
theory JS_Prelude
  imports Main "HOL-Library.Word"
begin

text \<open>
  The part of JavaScript that the components share: thrown errors and the results of code that may
  throw, the 32-bit integer operators, the string methods, and objects used as dictionaries.
  A JavaScript number is modelled as an \<open>int\<close> (the code modelled here computes with integral
  numbers only; doubles are exact on them up to \<open>2 ^ 53\<close>), with \<open>jsnum\<close> adding \<open>undefined\<close> and
  \<open>NaN\<close> where the code can produce them. A string is a list of code units: \<open>string\<close> for the
  texts of the client (code units below 256), \<open>16 word list\<close> where the code works on arbitrary
  UTF-16. The string methods are therefore defined over an arbitrary element type.
\<close>

unbundle bit_operations_syntax

named_theorems js_int_simps \<open>evaluation of the 32-bit integer operators\<close>
named_theorems js_string_simps \<open>evaluation of the string methods\<close>
named_theorems js_object_simps \<open>lookup after update and delete on objects\<close>

section \<open>Errors and results\<close>

text \<open>What \<open>throw\<close> raises, with its message; \<open>Inl\<close> is a thrown error, \<open>Inr\<close> a normal return.\<close>

datatype js_error = TypeError string | RangeError string | JsError string

text \<open>What reading a property of \<open>null\<close> or \<open>undefined\<close> raises; the message depends on the engine.\<close>

definition null_error :: js_error where
  "null_error = TypeError ''property of null or undefined''"

type_synonym 'a result = "js_error + 'a"

fun bindR :: "'a result \<Rightarrow> ('a \<Rightarrow> 'b result) \<Rightarrow> 'b result" where
  "bindR (Inl e) f = Inl e"
| "bindR (Inr a) f = f a"

lemma bindR_Inr_iff: "bindR m f = Inr b \<longleftrightarrow> (\<exists>a. m = Inr a \<and> f a = Inr b)"
  by (cases m) auto

lemma bindR_Inl_iff: "bindR m f = Inl e \<longleftrightarrow> m = Inl e \<or> (\<exists>a. m = Inr a \<and> f a = Inl e)"
  by (cases m) auto

lemma bindR_Inr [simp]: "bindR m Inr = m"
  by (cases m) auto

lemma bindR_assoc: "bindR (bindR m f) g = bindR m (\<lambda>a. bindR (f a) g)"
  by (cases m) auto

text \<open>A loop over a list whose body may throw.\<close>

fun foldR :: "('a \<Rightarrow> 's \<Rightarrow> 's result) \<Rightarrow> 'a list \<Rightarrow> 's \<Rightarrow> 's result" where
  "foldR f [] s = Inr s"
| "foldR f (x # xs) s = bindR (f x s) (foldR f xs)"

lemma foldR_append: "foldR f (xs @ ys) s = bindR (foldR f xs s) (foldR f ys)"
proof (induction xs arbitrary: s)
  case (Cons x xs)
  then show ?case by (cases "f x s") auto
qed simp

fun mapR :: "('a \<Rightarrow> 'b result) \<Rightarrow> 'a list \<Rightarrow> 'b list result" where
  "mapR f [] = Inr []"
| "mapR f (x # xs) = bindR (f x) (\<lambda>y. bindR (mapR f xs) (\<lambda>ys. Inr (y # ys)))"

lemma mapR_cong [fundef_cong]: "xs = ys \<Longrightarrow> (\<And>x. x \<in> set ys \<Longrightarrow> f x = g x) \<Longrightarrow> mapR f xs = mapR g ys"
  by (induction ys arbitrary: xs) auto

lemma foldR_cong [fundef_cong]: "xs = ys \<Longrightarrow> s = t \<Longrightarrow> (\<And>x s. x \<in> set ys \<Longrightarrow> f x s = g x s) \<Longrightarrow> foldR f xs s = foldR g ys t"
proof (induction ys arbitrary: xs s t)
  case (Cons y ys)
  then show ?case by (cases "g y t") auto
qed simp

lemma mapR_Inr_iff: "mapR f xs = Inr ys \<longleftrightarrow> list_all2 (\<lambda>x y. f x = Inr y) xs ys"
  by (induction xs arbitrary: ys) (auto simp: bindR_Inr_iff list_all2_Cons1)

lemma foldR_invariant:
  assumes "foldR f xs s = Inr t" and "I s"
    and "\<And>x s s'. x \<in> set xs \<Longrightarrow> I s \<Longrightarrow> f x s = Inr s' \<Longrightarrow> I s'"
  shows "I t"
  using assms
proof (induction xs arbitrary: s)
  case Nil
  then show ?case by simp
next
  case (Cons x xs)
  from Cons.prems(1) obtain s' where "f x s = Inr s'" and "foldR f xs s' = Inr t"
    by (auto simp: bindR_Inr_iff)
  then show ?case using Cons by (metis list.set_intros(1,2))
qed

section \<open>Integer operators\<close>

definition to_int32 :: "int \<Rightarrow> int" where
  "to_int32 x = (x + 2 ^ 31) mod 2 ^ 32 - 2 ^ 31"

definition to_uint32 :: "int \<Rightarrow> int" where
  "to_uint32 x = x mod 2 ^ 32"

definition and32 :: "int \<Rightarrow> int \<Rightarrow> int" where
  "and32 a b = to_int32 a AND to_int32 b"

definition or32 :: "int \<Rightarrow> int \<Rightarrow> int" where
  "or32 a b = to_int32 a OR to_int32 b"

text \<open>\<open><<\<close>, \<open>>>\<close> and \<open>>>>\<close>.\<close>

definition shl32 :: "int \<Rightarrow> nat \<Rightarrow> int" where
  "shl32 a n = to_int32 (push_bit (n mod 32) (to_int32 a))"

definition shr32 :: "int \<Rightarrow> nat \<Rightarrow> int" where
  "shr32 a n = drop_bit (n mod 32) (to_int32 a)"

definition ushr32 :: "int \<Rightarrow> nat \<Rightarrow> int" where
  "ushr32 a n = drop_bit (n mod 32) (to_uint32 a)"

lemma to_int32_id: "- (2 ^ 31) \<le> x \<Longrightarrow> x < 2 ^ 31 \<Longrightarrow> to_int32 x = x"
  by (simp add: to_int32_def)

lemma to_int32_small [js_int_simps]: "0 \<le> x \<Longrightarrow> x < 2147483648 \<Longrightarrow> to_int32 x = x"
  by (simp add: to_int32_def)

lemma to_int32_mod: "to_int32 x mod 2 ^ 32 = x mod 2 ^ 32"
  by (simp only: to_int32_def mod_diff_left_eq) simp

lemma to_int32_bounds: "- (2 ^ 31) \<le> to_int32 x" "to_int32 x < 2 ^ 31"
  by (simp_all add: to_int32_def)

lemma and_low_mask: "(x::int) AND (2 ^ n - 1) = x mod 2 ^ n"
  by (metis mask_eq_exp_minus_1 take_bit_eq_mask take_bit_eq_mod)

lemma to_int32_mod_pow: "n \<le> 32 \<Longrightarrow> to_int32 x mod 2 ^ n = x mod 2 ^ n"
proof -
  assume "n \<le> 32"
  then have "(2::int) ^ n dvd 2 ^ 32" by (rule le_imp_power_dvd)
  then show ?thesis using to_int32_mod [of x] by (metis mod_mod_cancel)
qed

lemma and32_low_mask: "n \<le> 30 \<Longrightarrow> and32 x (2 ^ n - 1) = x mod 2 ^ n"
proof -
  assume n: "n \<le> 30"
  then have "(2::int) ^ n \<le> 2 ^ 30" by (rule power_increasing) simp
  then have "to_int32 (2 ^ n - 1) = 2 ^ n - 1" by (intro to_int32_small) auto
  with n show ?thesis by (simp add: and32_def and_low_mask to_int32_mod_pow)
qed

lemma and32_255 [js_int_simps]: "and32 x 255 = x mod 256"
  using and32_low_mask [of 8 x] by simp

lemma and32_127 [js_int_simps]: "and32 x 127 = x mod 128"
  using and32_low_mask [of 7 x] by simp

lemma and32_63 [js_int_simps]: "and32 x 63 = x mod 64"
  using and32_low_mask [of 6 x] by simp

lemma and32_31 [js_int_simps]: "and32 x 31 = x mod 32"
  using and32_low_mask [of 5 x] by simp

lemma and32_15 [js_int_simps]: "and32 x 15 = x mod 16"
  using and32_low_mask [of 4 x] by simp

lemma and32_1023 [js_int_simps]: "and32 x 1023 = x mod 1024"
  using and32_low_mask [of 10 x] by simp

text \<open>On values that fit, a shift is a multiplication or a division by a power of two, and joining
  two disjoint bit fields is an addition.\<close>

lemma shl32_mult: "0 \<le> x \<Longrightarrow> n < 32 \<Longrightarrow> x * 2 ^ n < 2 ^ 31 \<Longrightarrow> shl32 x n = x * 2 ^ n"
proof -
  assume a: "0 \<le> x" "n < 32" "x * 2 ^ n < 2 ^ 31"
  have "x * 1 \<le> x * 2 ^ n" by (rule mult_left_mono) (use a in auto)
  then have "x < 2 ^ 31" using a by simp
  with a show ?thesis by (simp add: shl32_def to_int32_small push_bit_eq_mult)
qed

lemma shr32_div: "0 \<le> x \<Longrightarrow> x < 2 ^ 31 \<Longrightarrow> n < 32 \<Longrightarrow> shr32 x n = x div 2 ^ n"
  by (simp add: shr32_def to_int32_small drop_bit_eq_div)

lemma ushr32_div: "0 \<le> x \<Longrightarrow> x < 2 ^ 32 \<Longrightarrow> n < 32 \<Longrightarrow> ushr32 x n = x div 2 ^ n"
  by (simp add: ushr32_def to_uint32_def drop_bit_eq_div)

lemma or_disjoint: "0 \<le> b \<Longrightarrow> b < 2 ^ n \<Longrightarrow> ((a::int) * 2 ^ n) OR b = a * 2 ^ n + b"
proof -
  assume b: "0 \<le> b" "b < 2 ^ n"
  have "(a * 2 ^ n) AND b = 0"
  proof (rule bit_eqI)
    fix k
    have "take_bit n b = b" using b by (simp add: take_bit_int_eq_self)
    then have "bit b k \<Longrightarrow> k < n" by (metis bit_take_bit_iff)
    then show "bit ((a * 2 ^ n) AND b) k \<longleftrightarrow> bit 0 k"
      by (auto simp: bit_and_iff push_bit_eq_mult [symmetric] bit_push_bit_iff)
  qed
  then show ?thesis by (simp add: disjunctive_add_eq_or)
qed

lemma or32_disjoint:
  "0 \<le> a \<Longrightarrow> 0 \<le> b \<Longrightarrow> b < 2 ^ n \<Longrightarrow> a * 2 ^ n + b < 2 ^ 31 \<Longrightarrow> or32 (a * 2 ^ n) b = a * 2 ^ n + b"
proof -
  assume h: "0 \<le> a" "0 \<le> b" "b < 2 ^ n" "a * 2 ^ n + b < 2 ^ 31"
  have "0 \<le> a * 2 ^ n" using h by simp
  moreover have "a * 2 ^ n < 2 ^ 31" "b < 2 ^ 31" using h calculation by linarith+
  ultimately have "to_int32 (a * 2 ^ n) = a * 2 ^ n" "to_int32 b = b"
    using h by (simp_all add: to_int32_small)
  then show ?thesis using h by (simp add: or32_def or_disjoint)
qed

lemma div_pow_range:
  assumes "- m \<le> (y::int)" "y < m"
  shows "- m \<le> y div 2 ^ n" "y div 2 ^ n < m"
proof -
  have "0 \<le> y \<Longrightarrow> y div 2 ^ n \<le> y div 1" by (rule zdiv_mono2) auto
  moreover have "y < 0 \<Longrightarrow> y div 1 \<le> y div 2 ^ n" by (rule zdiv_mono2_neg) auto
  moreover have "0 \<le> y \<Longrightarrow> 0 \<le> y div 2 ^ n" "y < 0 \<Longrightarrow> y div 2 ^ n < 0"
    by (simp_all add: pos_imp_zdiv_nonneg_iff pos_imp_zdiv_neg_iff)
  ultimately show "- m \<le> y div 2 ^ n" "y div 2 ^ n < m" using assms by (simp; linarith)+
qed

lemma shr32_and32:
  assumes "0 \<le> m" "m < 2 ^ 31" "n < 32"
  shows "shr32 (and32 x m) n = and32 (shr32 x n) (m div 2 ^ n)"
proof -
  have m: "to_int32 m = m" using assms by (simp add: to_int32_small)
  have r: "0 \<le> to_int32 x AND m" "to_int32 x AND m \<le> m"
    using assms by (simp_all add: AND_upper2')
  have "0 \<le> m div 2 ^ n" "m div 2 ^ n < 2 ^ 31"
    using assms div_pow_range [of "2 ^ 31" m n] by (simp_all add: pos_imp_zdiv_nonneg_iff)
  then have md: "to_int32 (m div 2 ^ n) = m div 2 ^ n" by (simp add: to_int32_small)
  have "to_int32 (drop_bit n (to_int32 x)) = drop_bit n (to_int32 x)"
    using div_pow_range [of "2 ^ 31" "to_int32 x" n] to_int32_bounds [of x]
    by (simp add: to_int32_id drop_bit_eq_div)
  moreover have "to_int32 (to_int32 x AND m) = to_int32 x AND m"
    using r assms(2) by (intro to_int32_id) linarith+
  ultimately show ?thesis
    unfolding shr32_def and32_def m md using assms(3) by (simp add: drop_bit_and drop_bit_eq_div [of n m])
qed

text \<open>Numbers where the code can produce \<open>undefined\<close> or \<open>NaN\<close>: \<open>ToInt32\<close> sends both to \<open>0\<close>,
  addition and multiplication to \<open>NaN\<close>.\<close>

datatype jsnum = Undefined | NaN | Num int

fun num_int32 :: "jsnum \<Rightarrow> int" where
  "num_int32 (Num x) = to_int32 x"
| "num_int32 _ = 0"

fun num_add :: "jsnum \<Rightarrow> jsnum \<Rightarrow> jsnum" where
  "num_add (Num a) (Num b) = Num (a + b)"
| "num_add _ _ = NaN"

fun num_mul :: "jsnum \<Rightarrow> jsnum \<Rightarrow> jsnum" where
  "num_mul (Num a) (Num b) = Num (a * b)"
| "num_mul _ _ = NaN"

text \<open>Division by a positive number rounded towards zero, which is what \<open>(a / m) & mask\<close> sees of
  \<open>a / m\<close>.\<close>

definition trunc_div :: "int \<Rightarrow> int \<Rightarrow> int" where
  "trunc_div a m = (if a < 0 then - ((- a) div m) else a div m)"

lemma trunc_div_nonneg: "0 \<le> a \<Longrightarrow> trunc_div a m = a div m"
  by (simp add: trunc_div_def)

end
