(* ===== verification/Process_Queue.thy ===== *)
theory Process_Queue
  imports JS_Prelude
begin

text \<open>
  The process shim (module 12 of \<open>swagger-ui.js\<close>): the queue of \<open>process.nextTick\<close> and \<open>drainQueue\<close>. What a
  task does is a parameter \<open>run\<close>: from the state of the rest of the program it gives the tasks it passes to
  \<open>nextTick\<close>, in order, the new state, and whether it throws. \<open>timers\<close> counts the calls of \<open>drainQueue\<close> that
  \<open>setTimeout\<close> has scheduled; \<open>started\<close> records the tasks that were started. The loop need not end, so it is a
  partial function.
\<close>

section \<open>The queue\<close>

type_synonym ('t, 's) runner = "'t \<Rightarrow> 's \<Rightarrow> 't list \<times> 's \<times> bool"

record ('t, 's) process =
  queue :: "'t list"
  draining :: bool
  timers :: nat
  world :: 's
  started :: "'t list"

definition nextTick :: "'t \<Rightarrow> ('t, 's) process \<Rightarrow> ('t, 's) process" where
  "nextTick f p =
     (let p1 = p\<lparr>queue := queue p @ [f]\<rparr>
      in if draining p then p1 else p1\<lparr>timers := timers p + 1\<rparr>)"

text \<open>\<open>currentQueue[i]()\<close>.\<close>

definition run_task :: "('t, 's) runner \<Rightarrow> 't \<Rightarrow> ('t, 's) process \<Rightarrow> ('t, 's) process \<times> bool" where
  "run_task run f p =
     (case run f (world p) of (nexts, w, threw) \<Rightarrow> (fold nextTick nexts (p\<lparr>world := w, started := started p @ [f]\<rparr>), threw))"

text \<open>The inner loop; a task that throws ends it.\<close>

fun run_current :: "('t, 's) runner \<Rightarrow> 't list \<Rightarrow> ('t, 's) process \<Rightarrow> ('t, 's) process \<times> bool" where
  "run_current run [] p = (p, False)"
| "run_current run (f # fs) p =
     (case run_task run f p of (p', threw) \<Rightarrow> if threw then (p', True) else run_current run fs p')"

partial_function (option) drain_loop :: "('t, 's) runner \<Rightarrow> ('t, 's) process \<Rightarrow> (('t, 's) process \<times> bool) option" where
  "drain_loop run p =
     (if queue p = [] then Some (p, False)
      else case run_current run (queue p) (p\<lparr>queue := []\<rparr>) of
             (p', threw) \<Rightarrow> if threw then Some (p', True) else drain_loop run p')"

definition drainQueue :: "('t, 's) runner \<Rightarrow> ('t, 's) process \<Rightarrow> ('t, 's) process option" where
  "drainQueue run p =
     (if draining p then Some p
      else case drain_loop run (p\<lparr>draining := True\<rparr>) of
             None \<Rightarrow> None
           | Some (p', threw) \<Rightarrow> Some (if threw then p' else p'\<lparr>draining := False\<rparr>))"

text \<open>The events of the program: some code calls \<open>nextTick\<close>, or a timer fires.\<close>

inductive event :: "('t, 's) runner \<Rightarrow> ('t, 's) process \<Rightarrow> ('t, 's) process \<Rightarrow> bool" for run where
  tick: "event run p (nextTick f p)"
| timer: "timers p > 0 \<Longrightarrow> drainQueue run (p\<lparr>timers := timers p - 1\<rparr>) = Some p' \<Longrightarrow> event run p p'"

inductive_cases event_cases: "event run p p'"

section \<open>The specification: first in, first out\<close>

inductive fifo_step :: "('t, 's) runner \<Rightarrow> 't list \<times> 's \<times> 't list \<Rightarrow> 't list \<times> 's \<times> 't list \<Rightarrow> bool" for run where
  "run f w = (nexts, w', False) \<Longrightarrow> fifo_step run (f # q, w, tr) (q @ nexts, w', tr @ [f])"

abbreviation fifo_steps :: "('t, 's) runner \<Rightarrow> 't list \<times> 's \<times> 't list \<Rightarrow> 't list \<times> 's \<times> 't list \<Rightarrow> bool" where
  "fifo_steps run \<equiv> (fifo_step run)\<^sup>*\<^sup>*"

lemma fold_nextTick_draining:
  "draining p \<Longrightarrow> fold nextTick fs p = p\<lparr>queue := queue p @ fs\<rparr>"
  by (induction fs arbitrary: p) (simp_all add: nextTick_def)

lemma run_task_draining:
  assumes "draining p"
  shows "run_task run f p = (case run f (world p) of (nexts, w, threw) \<Rightarrow>
      (p\<lparr>queue := queue p @ nexts, world := w, started := started p @ [f]\<rparr>, threw))"
  using assms by (simp add: run_task_def fold_nextTick_draining split: prod.splits)

text \<open>The inner loop on the batch \<open>fs\<close> with the new tasks collected in the queue simulates the specification on
  the one queue \<open>fs @ queue p\<close>.\<close>

lemma run_current_fifo:
  "draining p \<Longrightarrow> run_current run fs p = (p', False) \<Longrightarrow>
     fifo_steps run (fs @ queue p, world p, started p) (queue p', world p', started p') \<and> draining p' \<and> timers p' = timers p
     \<and> started p' = started p @ fs"
proof (induction fs arbitrary: p)
  case (Cons f fs)
  obtain nexts w threw where r: "run f (world p) = (nexts, w, threw)" by (cases "run f (world p)") auto
  let ?p = "p\<lparr>queue := queue p @ nexts, world := w, started := started p @ [f]\<rparr>"
  from Cons.prems r have "\<not> threw" and rest: "run_current run fs ?p = (p', False)"
    by (auto simp: run_task_draining split: if_splits)
  with r have "fifo_step run (f # fs @ queue p, world p, started p) ((fs @ queue p) @ nexts, w, started p @ [f])"
    by (intro fifo_step.intros) simp
  with Cons.IH [of ?p] Cons.prems(1) rest show ?case
    by (auto intro: converse_rtranclp_into_rtranclp)
qed simp

lemma run_current_draining: "draining p \<Longrightarrow> draining (fst (run_current run fs p))"
  by (induction fs arbitrary: p) (auto simp: run_task_draining split: prod.splits)

lemma drain_loop_draining:
  assumes "drain_loop run p = Some r" "draining p"
  shows "draining (fst r)"
  using assms
proof (induction rule: drain_loop.raw_induct [rotated, consumes 1, case_names 1])
  case (1 dl run p r)
  show ?case
  proof (cases "queue p = []")
    case False
    obtain p1 threw where rc: "run_current run (queue p) (p\<lparr>queue := []\<rparr>) = (p1, threw)"
      by (cases "run_current run (queue p) (p\<lparr>queue := []\<rparr>)")
    then have "draining p1" using run_current_draining [of "p\<lparr>queue := []\<rparr>" run "queue p"] "1.prems" by simp
    then show ?thesis using 1(1) [of run p1 r] 1(2) False rc by (cases threw) auto
  qed (use 1 in auto)
qed

lemma drain_loop_fifo:
  assumes "drain_loop run p = Some r" "draining p" "\<not> snd r"
  shows "fifo_steps run (queue p, world p, started p) ([], world (fst r), started (fst r))
    \<and> queue (fst r) = [] \<and> draining (fst r) \<and> timers (fst r) = timers p"
  using assms
proof (induction rule: drain_loop.raw_induct [rotated, consumes 1, case_names 1])
  case (1 dl run p r)
  show ?case
  proof (cases "queue p = []")
    case True
    with 1 show ?thesis by auto
  next
    case False
    obtain p1 threw where rc: "run_current run (queue p) (p\<lparr>queue := []\<rparr>) = (p1, threw)"
      by (cases "run_current run (queue p) (p\<lparr>queue := []\<rparr>)")
    have nt: "\<not> threw"
    proof
      assume threw
      then have "r = (p1, True)" using 1(2) False rc by simp
      then show False using "1.prems" by simp
    qed
    then have step: "dl run p1 = Some r" using 1(2) False rc by simp
    have d: "draining (p\<lparr>queue := []\<rparr>)" using "1.prems" by simp
    have "run_current run (queue p) (p\<lparr>queue := []\<rparr>) = (p1, False)" using rc nt by simp
    from run_current_fifo [OF d this]
    have f: "fifo_steps run (queue p, world p, started p) (queue p1, world p1, started p1)" and "draining p1" "timers p1 = timers p"
      by (simp only: process.simps append_Nil2, simp_all)
    moreover have "\<not> snd r" using "1.prems" by simp
    ultimately show ?thesis using 1(1) [OF step] rtranclp_trans [OF f] by simp
  qed
qed

section \<open>Termination\<close>

text \<open>Tasks whose follow-up tasks are smaller cannot keep the loop going.\<close>

definition quiet :: "('t, 's) runner \<Rightarrow> bool" where
  "quiet run \<longleftrightarrow> (\<forall>f w. \<not> snd (snd (run f w)))"

definition shrinking :: "('t, 's) runner \<Rightarrow> ('t \<Rightarrow> nat) \<Rightarrow> bool" where
  "shrinking run m \<longleftrightarrow> (\<forall>f w. \<forall>g \<in> set (fst (run f w)). m g < m f)"

lemma run_current_quiet:
  assumes "quiet run" "shrinking run m" "draining p"
  shows "\<exists>p'. run_current run fs p = (p', False) \<and> draining p' \<and> started p' = started p @ fs
    \<and> (\<forall>g \<in> set (queue p'). g \<in> set (queue p) \<or> (\<exists>f \<in> set fs. m g < m f))"
  using assms(3)
proof (induction fs arbitrary: p)
  case (Cons f fs)
  obtain nexts w threw where r: "run f (world p) = (nexts, w, threw)" by (cases "run f (world p)") auto
  have "\<not> threw" "\<forall>g \<in> set nexts. m g < m f" using assms(1,2) r by (auto simp: quiet_def shrinking_def dest: spec [of _ f] spec [of _ "world p"]) (metis fst_conv snd_conv)+
  then show ?case using Cons.IH [of "p\<lparr>queue := queue p @ nexts, world := w, started := started p @ [f]\<rparr>"] Cons.prems r
    by (fastforce simp: run_task_draining)
qed simp

lemma drain_loop_total:
  assumes "quiet run" "shrinking run m"
  shows "draining p \<Longrightarrow> \<forall>f \<in> set (queue p). m f < n \<Longrightarrow>
    \<exists>p' fs. drain_loop run p = Some (p', False) \<and> started p' = started p @ fs \<and> set (queue p) \<subseteq> set fs"
proof (induction n arbitrary: p)
  case 0
  then show ?case by (subst drain_loop.simps) auto
next
  case (Suc n)
  show ?case
  proof (cases "queue p = []")
    case True
    then show ?thesis by (subst drain_loop.simps) auto
  next
    case False
    obtain p1 where p1: "run_current run (queue p) (p\<lparr>queue := []\<rparr>) = (p1, False)" "draining p1" "started p1 = started p @ queue p"
      "\<forall>g \<in> set (queue p1). \<exists>f \<in> set (queue p). m g < m f"
      using run_current_quiet [OF assms, of "p\<lparr>queue := []\<rparr>" "queue p"] Suc.prems(1) by auto
    have "\<forall>g \<in> set (queue p1). m g < n" using p1(4) Suc.prems(2) by fastforce
    with Suc.IH [OF p1(2)] obtain p' fs where "drain_loop run p1 = Some (p', False)" "started p' = started p1 @ fs" by blast
    then show ?thesis using False p1(1,3) by (subst drain_loop.simps) auto
  qed
qed

lemma drainQueue_total:
  assumes "quiet run" "shrinking run m" "\<not> draining p"
  shows "\<exists>p' fs. drainQueue run p = Some p' \<and> queue p' = [] \<and> \<not> draining p' \<and> timers p' = timers p
    \<and> started p' = started p @ fs \<and> set (queue p) \<subseteq> set fs"
proof -
  obtain n where "\<forall>f \<in> set (queue p). m f < n" using finite_nat_set_iff_bounded [of "m ` set (queue p)"] by auto
  with drain_loop_total [OF assms(1,2), of "p\<lparr>draining := True\<rparr>" n] obtain p' fs where
    d: "drain_loop run (p\<lparr>draining := True\<rparr>) = Some (p', False)" "started p' = started p @ fs" "set (queue p) \<subseteq> set fs" by auto
  from drain_loop_fifo [OF d(1)] have "queue p' = []" "timers p' = timers p" by auto
  with d assms(3) show ?thesis by (auto simp: drainQueue_def)
qed

section \<open>The event loop\<close>

text \<open>Between events nothing is being drained, and tasks that wait have a timer that will run them.\<close>

definition idle_ok :: "('t, 's) process \<Rightarrow> bool" where
  "idle_ok p \<longleftrightarrow> \<not> draining p \<and> (queue p \<noteq> [] \<longrightarrow> timers p > 0)"

lemma nextTick_idle: "idle_ok p \<Longrightarrow> idle_ok (nextTick f p)"
  by (auto simp: idle_ok_def nextTick_def)

lemma event_idle:
  assumes "quiet run" "shrinking run m" "event run p p'" "idle_ok p"
  shows "idle_ok p'"
  using assms(3)
proof (cases rule: event.cases)
  case (tick f)
  then show ?thesis using nextTick_idle assms(4) by simp
next
  case timer
  then show ?thesis using drainQueue_total [OF assms(1,2), of "p\<lparr>timers := timers p - 1\<rparr>"] assms(4)
    by (auto simp: idle_ok_def)
qed

definition empty_process :: "'s \<Rightarrow> ('t, 's) process" where
  "empty_process w = \<lparr>queue = [], draining = False, timers = 0, world = w, started = []\<rparr>"

text \<open>A process whose task has thrown: it counts as draining for ever.\<close>

lemma event_stuck:
  assumes "event run p p'" "draining p"
  shows "draining p' \<and> started p' = started p \<and> length (queue p) \<le> length (queue p')"
  using assms by (auto elim!: event_cases simp: nextTick_def drainQueue_def Let_def)

section \<open>Properties\<close>

text \<open>C2: Draining in batches refines one first-in-first-out queue: when \<open>drainQueue\<close> finishes without a task
  throwing, the tasks were started in exactly the order in which the queue of the specification runs them,
  with the same effect on the rest of the program, and the queue is empty.\<close>

theorem process_fifo:
  assumes "drainQueue run p = Some p'" "\<not> draining p" "\<not> draining p'"
  shows "fifo_steps run (queue p, world p, started p) ([], world p', started p') \<and> queue p' = []"
proof -
  obtain r where r: "drain_loop run (p\<lparr>draining := True\<rparr>) = Some r" "p' = (if snd r then fst r else (fst r)\<lparr>draining := False\<rparr>)"
    using assms(1,2) by (auto simp: drainQueue_def split: option.splits)
  have "\<not> snd r"
  proof
    assume "snd r"
    then have "draining (fst r)" using drain_loop_draining [OF r(1)] by simp
    then show False using \<open>snd r\<close> r(2) assms(3) by simp
  qed
  with drain_loop_fifo [OF r(1)] r(2) show ?thesis by simp
qed

text \<open>A runner of the examples: task \<open>n\<close> schedules the tasks below \<open>n\<close> and appends \<open>n\<close> to a log.\<close>

definition count_down :: "(nat, nat list) runner" where
  "count_down n w = (if n = 0 then [] else [n - 1], w @ [n], False)"

lemma count_down_runner: "quiet count_down" "shrinking count_down id"
  by (auto simp: quiet_def shrinking_def count_down_def)

theorem process_fifo_witness:
  "fifo_steps count_down ([2, 1], [], []) ([], [2, 1, 1, 0, 0], [2, 1, 1, 0, 0])"
proof -
  let ?p = "\<lparr>queue = [2, 1], draining = False, timers = 1, world = [], started = []\<rparr> :: (nat, nat list) process"
  let ?q = "\<lparr>queue = [], draining = False, timers = 1, world = [2, 1, 1, 0, 0], started = [2, 1, 1, 0, 0]\<rparr> :: (nat, nat list) process"
  have "drainQueue count_down ?p = Some ?q"
    by (simp add: drainQueue_def drain_loop.simps run_task_def count_down_def nextTick_def)
  from process_fifo [OF this] show ?thesis by simp
qed

text \<open>C21: Draining ends and runs everything that was queued: if no task throws and the tasks a task schedules are
  smaller in some measure, \<open>drainQueue\<close> returns with an empty queue, and every queued task was started.\<close>

theorem process_drains:
  assumes "quiet run" "shrinking run m" "\<not> draining p"
  shows "\<exists>p' fs. drainQueue run p = Some p' \<and> queue p' = [] \<and> \<not> draining p' \<and> started p' = started p @ fs \<and> set (queue p) \<subseteq> set fs"
  using drainQueue_total [OF assms] by blast

theorem process_drains_witness:
  "\<exists>p' fs. drainQueue count_down \<lparr>queue = [5], draining = False, timers = 0, world = [], started = []\<rparr> = Some p' \<and> queue p' = []
     \<and> started p' = fs \<and> 5 \<in> set fs"
  using process_drains [OF count_down_runner, of "\<lparr>queue = [5], draining = False, timers = 0, world = [], started = []\<rparr>"]
  by auto



text \<open>A task that throws stops the queue for ever: \<open>draining\<close> stays set, the tasks behind it in the batch are
  lost, and whatever happens later, no task is started again.\<close>

theorem process_stuck_after_throw:
  assumes "run_current run (queue p) (p\<lparr>draining := True, queue := []\<rparr>) = (p1, True)" "\<not> draining p" "queue p \<noteq> []"
    and "(event run)\<^sup>*\<^sup>* p1 p2"
  shows "drainQueue run p = Some p1 \<and> started p2 = started p1 \<and> draining p2"
proof -
  have "drain_loop run (p\<lparr>draining := True\<rparr>) = Some (p1, True)"
    using assms(1,3) by (subst drain_loop.simps) simp
  moreover have "draining p1" using run_current_draining [of "p\<lparr>draining := True, queue := []\<rparr>" run "queue p"] assms(1) by simp
  moreover have "started p2 = started p1 \<and> draining p2" using assms(4)
  proof (induction rule: rtranclp_induct)
    case base
    then show ?case using calculation by simp
  next
    case (step y z)
    then show ?case using event_stuck [of run y z] by simp
  qed
  ultimately show ?thesis using assms(2) by (simp add: drainQueue_def)
qed

definition throwing :: "(nat, nat list) runner" where
  "throwing n w = ([], w, n = 0)"

theorem process_stuck_after_throw_witness:
  "drainQueue throwing \<lparr>queue = [0, 1], draining = False, timers = 0, world = [], started = []\<rparr>
     = Some \<lparr>queue = [], draining = True, timers = 0, world = [], started = [0]\<rparr>"
  using process_stuck_after_throw [of throwing "\<lparr>queue = [0, 1], draining = False, timers = 0, world = [], started = []\<rparr>"
      "\<lparr>queue = [], draining = True, timers = 0, world = [], started = [0]\<rparr>"
      "\<lparr>queue = [], draining = True, timers = 0, world = [], started = [0]\<rparr>"]
  by (simp add: run_task_def throwing_def)

end
