(* ===== verification/JS_String.thy ===== *)
theory JS_String
  imports JS_Prelude
begin

text \<open>
  The string methods the code calls, over lists of code units, and the facts about searching,
  splitting and joining that the components use. Indices are \<open>int\<close>, because \<open>indexOf\<close> returns
  \<open>-1\<close> and the code compares with it.
\<close>

section \<open>Searching\<close>

definition starts_with :: "'a list \<Rightarrow> 'a list \<Rightarrow> bool" where
  "starts_with p s \<longleftrightarrow> take (length p) s = p"

text \<open>\<open>s.indexOf(pat)\<close>.\<close>

fun index_of :: "'a list \<Rightarrow> 'a list \<Rightarrow> int" where
  "index_of pat [] = (if pat = [] then 0 else -1)"
| "index_of pat (c # s) =
     (if starts_with pat (c # s) then 0
      else let r = index_of pat s in if r < 0 then -1 else r + 1)"

text \<open>\<open>s.endsWith(p)\<close> and \<open>s.lastIndexOf(c)\<close> for a one-character string.\<close>

definition ends_with :: "'a list \<Rightarrow> 'a list \<Rightarrow> bool" where
  "ends_with p s \<longleftrightarrow> starts_with (rev p) (rev s)"

fun last_index_of :: "'a \<Rightarrow> 'a list \<Rightarrow> int" where
  "last_index_of c [] = -1"
| "last_index_of c (x # xs) =
     (let r = last_index_of c xs in if r \<ge> 0 then r + 1 else if x = c then 0 else -1)"

lemma starts_with_append [js_string_simps]: "starts_with p (p @ s)"
  by (simp add: starts_with_def)

lemma starts_with_iff: "starts_with p s \<longleftrightarrow> (\<exists>t. s = p @ t)"
  by (metis append_take_drop_id append_eq_conv_conj starts_with_def)

lemma starts_with_Cons [simp]: "starts_with (x # p) (y # s) \<longleftrightarrow> x = y \<and> starts_with p s"
  by (auto simp: starts_with_def)

lemma starts_with_Nil [simp]: "starts_with [] s" "starts_with (x # p) [] = False"
  by (simp_all add: starts_with_def)

lemma index_of_ge: "index_of pat s \<ge> -1"
  by (induction s) (auto simp: Let_def)

lemma index_of_zero_iff: "index_of pat s = 0 \<longleftrightarrow> starts_with pat s"
proof (cases s)
  case Nil
  then show ?thesis by (cases pat) auto
next
  case (Cons c t)
  then show ?thesis by (auto simp: Let_def)
qed

lemma index_of_char [js_string_simps]: "c \<notin> set a \<Longrightarrow> index_of [c] (a @ c # b) = int (length a)"
  by (induction a) (auto simp: Let_def)

lemma index_of_char_absent [js_string_simps]: "c \<notin> set s \<Longrightarrow> index_of [c] s = -1"
  by (induction s) (auto simp: Let_def)

lemma index_of_char_neg_iff: "index_of [c] s < 0 \<longleftrightarrow> c \<notin> set s"
proof
  assume "index_of [c] s < 0"
  then show "c \<notin> set s"
    by (metis index_of_char of_nat_0_le_iff split_list_first not_less)
qed (simp add: index_of_char_absent)

lemma index_of_char_append:
  "c \<in> set a \<Longrightarrow> index_of [c] (a @ b) = index_of [c] a"
  by (induction a) (auto simp: Let_def index_of_char_neg_iff)

section \<open>Substrings\<close>

text \<open>\<open>s.substring(a, b)\<close> clamps both ends to the string and swaps them if needed; \<open>s.slice\<close>
  counts negative indices from the end.\<close>

definition clamp_index :: "'a list \<Rightarrow> int \<Rightarrow> nat" where
  "clamp_index s i = nat (min i (int (length s)))"

definition substring :: "'a list \<Rightarrow> int \<Rightarrow> int \<Rightarrow> 'a list" where
  "substring s a b =
     (let i = clamp_index s a; j = clamp_index s b
      in take (max i j - min i j) (drop (min i j) s))"

definition substring_from :: "'a list \<Rightarrow> int \<Rightarrow> 'a list" where
  "substring_from s a = drop (clamp_index s a) s"

definition slice_index :: "'a list \<Rightarrow> int \<Rightarrow> nat" where
  "slice_index s i = (if i < 0 then nat (int (length s) + i) else nat (min i (int (length s))))"

definition js_slice :: "'a list \<Rightarrow> int \<Rightarrow> int \<Rightarrow> 'a list" where
  "js_slice s a b = take (slice_index s b - slice_index s a) (drop (slice_index s a) s)"

definition js_slice_from :: "'a list \<Rightarrow> int \<Rightarrow> 'a list" where
  "js_slice_from s a = drop (slice_index s a) s"

lemma substring_from_append [js_string_simps]: "substring_from (a @ b) (int (length a)) = b"
  by (simp add: substring_from_def clamp_index_def min_def)

lemma substring_prefix [js_string_simps]: "substring (a @ b) 0 (int (length a)) = a"
  by (simp add: substring_def clamp_index_def min_def Let_def)

section \<open>Splitting and joining\<close>

text \<open>\<open>s.split(c)\<close> for a one-character separator, \<open>ws.join(sep)\<close>.\<close>

fun split_char :: "'a \<Rightarrow> 'a list \<Rightarrow> 'a list list" where
  "split_char c [] = [[]]"
| "split_char c (x # xs) =
     (if x = c then [] # split_char c xs
      else case split_char c xs of [] \<Rightarrow> [[x]] | w # ws \<Rightarrow> (x # w) # ws)"

fun js_join :: "'a list \<Rightarrow> 'a list list \<Rightarrow> 'a list" where
  "js_join sep [] = []"
| "js_join sep [w] = w"
| "js_join sep (w # ws) = w @ sep @ js_join sep ws"

lemma takeWhile_sep [js_string_simps]: "c \<notin> set a \<Longrightarrow> takeWhile (\<lambda>x. x \<noteq> c) (a @ c # b) = a"
  by (induction a) auto

lemma dropWhile_sep [js_string_simps]: "c \<notin> set a \<Longrightarrow> dropWhile (\<lambda>x. x \<noteq> c) (a @ c # b) = c # b"
  by (induction a) auto

lemma split_char_ne [simp]: "split_char c s \<noteq> []"
  by (cases s) (auto split: list.splits)

lemma js_join_Cons: "ws \<noteq> [] \<Longrightarrow> js_join sep (w # ws) = w @ sep @ js_join sep ws"
  by (cases ws) auto

lemma set_js_join: "set (js_join sep ws) \<subseteq> set sep \<union> \<Union> (set ` set ws)"
  by (induction sep ws rule: js_join.induct) auto

lemma set_js_join_elem: "w \<in> set ws \<Longrightarrow> set w \<subseteq> set (js_join sep ws)"
  by (induction sep ws rule: js_join.induct) auto

lemma js_join_Cons_Cons: "js_join sep ((x # w) # ws) = x # js_join sep (w # ws)"
  by (cases ws) auto

lemma join_split_char: "js_join [c] (split_char c s) = s"
proof (induction s)
  case (Cons x s)
  then show ?case
    by (cases "split_char c s") (auto simp: js_join_Cons js_join_Cons_Cons)
qed simp

lemma split_char_absent [js_string_simps]: "c \<notin> set s \<Longrightarrow> split_char c s = [s]"
  by (induction s) auto

lemma split_char_append_sep:
  "split_char c (a @ c # b) = split_char c a @ split_char c b"
proof (induction a)
  case (Cons x a)
  then show ?case by (cases "split_char c a") auto
qed simp

lemma split_char_first [js_string_simps]:
  "c \<notin> set a \<Longrightarrow> split_char c (a @ c # b) = a # split_char c b"
  by (simp add: split_char_append_sep split_char_absent)

lemma split_char_no_sep: "w \<in> set (split_char c s) \<Longrightarrow> c \<notin> set w"
proof (induction s arbitrary: w)
  case (Cons x s)
  then show ?case by (cases "split_char c s") (auto split: if_splits)
qed simp

lemma set_split_char: "w \<in> set (split_char c s) \<Longrightarrow> set w \<subseteq> set s"
proof (induction s arbitrary: w)
  case (Cons x s)
  then show ?case by (cases "split_char c s") (fastforce split: if_splits)+
qed simp

lemma hd_split_char: "hd (split_char c s) = takeWhile (\<lambda>x. x \<noteq> c) s"
proof (induction s)
  case (Cons x s)
  then show ?case by (cases "split_char c s") auto
qed simp

lemma split_join_char:
  "ws \<noteq> [] \<Longrightarrow> (\<And>w. w \<in> set ws \<Longrightarrow> c \<notin> set w) \<Longrightarrow> split_char c (js_join [c] ws) = ws"
proof (induction ws)
  case (Cons w ws)
  then show ?case
    by (cases ws) (auto simp: split_char_absent split_char_first)
qed simp

text \<open>\<open>s.split(sep)\<close> for a longer separator: the text before the first occurrence, then the rest.\<close>

fun cut_at :: "'a list \<Rightarrow> 'a list \<Rightarrow> ('a list \<times> 'a list) option" where
  "cut_at sep [] = None"
| "cut_at sep (x # xs) =
     (if starts_with sep (x # xs) then Some ([], drop (length sep) (x # xs))
      else map_option (\<lambda>(a, b). (x # a, b)) (cut_at sep xs))"

lemma cut_at_first: "c \<notin> set a \<Longrightarrow> cut_at [c] (a @ c # b) = Some (a, b)"
  by (induction a) (auto simp: starts_with_def)

lemma cut_at_absent: "c \<notin> set a \<Longrightarrow> cut_at [c] a = None"
  by (induction a) (auto simp: starts_with_def)

lemma cut_at_Some:
  "cut_at sep s = Some (a, b) \<Longrightarrow> s = a @ sep @ b \<and> (sep \<noteq> [] \<longrightarrow> length b < length s)"
proof (induction s arbitrary: a b)
  case (Cons x s)
  show ?case
  proof (cases "starts_with sep (x # s)")
    case True
    then obtain t where t: "x # s = sep @ t" by (auto simp: starts_with_iff)
    from True have "cut_at sep (x # s) = Some ([], drop (length sep) (x # s))" by simp
    also have "drop (length sep) (x # s) = t" by (simp only: t) simp
    finally have "a = []" "b = t" using Cons.prems by simp_all
    with t show ?thesis by (metis append_Nil length_append less_add_same_cancel2 length_greater_0_conv)
  next
    case False
    with Cons show ?thesis by (fastforce split: option.splits)
  qed
qed simp

function split_str :: "'a list \<Rightarrow> 'a list \<Rightarrow> 'a list list" where
  "split_str sep s =
     (if sep = [] then map (\<lambda>c. [c]) s
      else case cut_at sep s of None \<Rightarrow> [s] | Some (a, b) \<Rightarrow> a # split_str sep b)"
  by pat_completeness auto
termination
  by (relation "measure (\<lambda>(sep, s). length s)") (auto dest: cut_at_Some)

declare split_str.simps [simp del]

lemma split_str_ne: "sep \<noteq> [] \<Longrightarrow> split_str sep s \<noteq> []"
  by (subst split_str.simps) (auto split: option.splits)

lemma join_split_str: "sep \<noteq> [] \<Longrightarrow> js_join sep (split_str sep s) = s"
proof (induction sep s rule: split_str.induct)
  case (1 sep s)
  show ?case
  proof (cases "cut_at sep s")
    case None
    with 1 show ?thesis by (simp add: split_str.simps [of sep s])
  next
    case (Some ab)
    obtain a b where ab: "ab = (a, b)" by (cases ab)
    have "js_join sep (split_str sep b) = b" using 1 Some ab by simp
    moreover have "s = a @ sep @ b" using cut_at_Some Some ab by blast
    moreover have "split_str sep s = a # split_str sep b"
      using 1 Some ab by (simp add: split_str.simps [of sep s])
    ultimately show ?thesis
      using 1(2) by (simp add: js_join_Cons split_str_ne)
  qed
qed

section \<open>Replacing\<close>

text \<open>\<open>s.replace(pat, rep)\<close> for a string pattern replaces the first occurrence;
  \<open>replace_all_chars\<close> is \<open>s.replace(/[...]/g, rep)\<close> for a character class.\<close>

definition js_replace :: "'a list \<Rightarrow> 'a list \<Rightarrow> 'a list \<Rightarrow> 'a list" where
  "js_replace pat rep s =
     (if pat = [] then rep @ s
      else case cut_at pat s of None \<Rightarrow> s | Some (a, b) \<Rightarrow> a @ rep @ b)"

definition replace_all_chars :: "('a \<Rightarrow> bool) \<Rightarrow> 'a list \<Rightarrow> 'a list \<Rightarrow> 'a list" where
  "replace_all_chars p rep s = concat (map (\<lambda>c. if p c then rep else [c]) s)"

lemma cut_at_None_iff: "cut_at sep s = None \<longleftrightarrow> s = [] \<or> index_of sep s < 0"
proof (induction s)
  case (Cons x s)
  then show ?case by (cases s) (auto simp: Let_def)
qed simp

lemma js_replace_absent: "pat \<noteq> [] \<Longrightarrow> index_of pat s < 0 \<Longrightarrow> js_replace pat rep s = s"
  using cut_at_None_iff [of pat s] by (simp add: js_replace_def)

section \<open>Character classes and case\<close>

abbreviation code :: "char \<Rightarrow> nat" where
  "code c \<equiv> of_char c"

text \<open>\<open>\s\<close> and the characters \<open>trim\<close> removes, among code units below 256.\<close>

definition is_space :: "char \<Rightarrow> bool" where
  "is_space c \<longleftrightarrow> code c \<in> {9, 10, 11, 12, 13, 32, 160}"

definition js_trim :: "string \<Rightarrow> string" where
  "js_trim s = rev (dropWhile is_space (rev (dropWhile is_space s)))"

definition is_digit :: "char \<Rightarrow> bool" where
  "is_digit c \<longleftrightarrow> 48 \<le> code c \<and> code c \<le> 57"

definition lower_char :: "char \<Rightarrow> char" where
  "lower_char c =
     (if 65 \<le> code c \<and> code c \<le> 90 \<or> 192 \<le> code c \<and> code c \<le> 222 \<and> code c \<noteq> 215
      then char_of (code c + 32) else c)"

text \<open>\<open>toUpperCase\<close> is used on HTTP method names only; the model covers ASCII letters.\<close>

definition upper_char :: "char \<Rightarrow> char" where
  "upper_char c = (if 97 \<le> code c \<and> code c \<le> 122 then char_of (code c - 32) else c)"

definition to_lower :: "string \<Rightarrow> string" where
  "to_lower s = map lower_char s"

definition to_upper :: "string \<Rightarrow> string" where
  "to_upper s = map upper_char s"

lemma lower_char_idem [simp]: "lower_char (lower_char c) = lower_char c"
  unfolding lower_char_def by auto

lemma to_lower_idem [simp]: "to_lower (to_lower s) = to_lower s"
  by (simp add: to_lower_def)

lemma js_trim_idem: "js_trim (js_trim s) = js_trim s"
proof -
  have *: "dropWhile P (rev (dropWhile P (rev (dropWhile P s)))) = rev (dropWhile P (rev (dropWhile P s)))"
    for P :: "char \<Rightarrow> bool"
  proof (cases "dropWhile P s")
    case (Cons x xs)
    then have "\<not> P x" by (metis hd_dropWhile list.distinct(1) list.sel(1))
    then have "dropWhile P (rev xs @ [x]) = dropWhile P (rev xs) @ [x]"
      by (simp add: dropWhile_append)
    with Cons \<open>\<not> P x\<close> show ?thesis by simp
  next
    case Nil
    show ?thesis unfolding Nil by simp
  qed
  show ?thesis by (simp add: js_trim_def *)
qed

text \<open>The decimal digits of a natural number and of an integer, as \<open>'' + n\<close> gives them.\<close>

fun show_nat :: "nat \<Rightarrow> string" where
  "show_nat n = (if n < 10 then [char_of (48 + n)] else show_nat (n div 10) @ [char_of (48 + n mod 10)])"

definition show_int :: "int \<Rightarrow> string" where
  "show_int i = (if i < 0 then CHR ''-'' # show_nat (nat (- i)) else show_nat (nat i))"

declare show_nat.simps [simp del]

fun digits_val :: "nat \<Rightarrow> string \<Rightarrow> nat" where
  "digits_val acc [] = acc"
| "digits_val acc (c # cs) = digits_val (acc * 10 + (code c - 48)) cs"

lemma digits_val_append: "digits_val acc (a @ b) = digits_val (digits_val acc a) b"
  by (induction a arbitrary: acc) auto

lemma digits_val_show_nat: "digits_val 0 (show_nat n) = n"
proof (induction n rule: show_nat.induct)
  case (1 n)
  show ?case
  proof (cases "n < 10")
    case True
    then show ?thesis by (simp add: show_nat.simps [of n])
  next
    case False
    with 1 show ?thesis by (simp add: show_nat.simps [of n] digits_val_append)
  qed
qed

lemma show_nat_inj: "show_nat m = show_nat n \<Longrightarrow> m = n"
  by (metis digits_val_show_nat)

lemma show_nat_digits: "c \<in> set (show_nat n) \<Longrightarrow> is_digit c"
proof (induction n rule: show_nat.induct)
  case (1 n)
  show ?case
  proof (cases "n < 10")
    case True
    with 1(2) show ?thesis by (simp add: show_nat.simps [of n] is_digit_def)
  next
    case False
    with 1 show ?thesis by (auto simp: show_nat.simps [of n] is_digit_def)
  qed
qed

end
