(* ===== verification/JS_Object.thy ===== *)
theory JS_Object
  imports JS_String
begin

text \<open>
  JavaScript objects used as dictionaries: association lists in insertion order. Setting a property
  that exists keeps its position, a new one goes to the end, \<open>delete\<close> drops it. Only own properties
  are modelled (the prototype chain is not), and enumeration follows insertion order.
\<close>

type_synonym 'v obj = "(string \<times> 'v) list"

section \<open>The dictionary interface\<close>

text \<open>
  What the clients rely on: the three laws of get, set and delete. The lemmas below follow from them
  for any implementation; they compare dictionaries by what \<open>get\<close> returns.
\<close>

locale property_store =
  fixes get :: "'m \<Rightarrow> 'k \<Rightarrow> 'v option"
    and set_prop :: "'k \<Rightarrow> 'v \<Rightarrow> 'm \<Rightarrow> 'm"
    and del_prop :: "'k \<Rightarrow> 'm \<Rightarrow> 'm"
  assumes get_set: "get (set_prop k v m) = (get m)(k := Some v)"
    and get_del: "get (del_prop k m) = (get m)(k := None)"
begin

lemma set_get_same: "get (set_prop k v m) k = Some v"
  by (simp add: get_set)

lemma set_get_other: "k \<noteq> k' \<Longrightarrow> get (set_prop k v m) k' = get m k'"
  by (simp add: get_set)

lemma set_set_commute: "k \<noteq> k' \<Longrightarrow>
    get (set_prop k v (set_prop k' v' m)) = get (set_prop k' v' (set_prop k v m))"
  by (simp add: get_set fun_upd_twist)

lemma set_del: "get m k = None \<Longrightarrow> get (del_prop k (set_prop k v m)) = get m"
  by (auto simp: get_set get_del)

text \<open>Copying every property of a list of pairs, as \<open>for (k in src) dst[k] = src[k]\<close> does.\<close>

lemma get_copy_all:
  "get (fold (\<lambda>(k, v) m. set_prop k v m) kvs m) k =
     (case map_of (rev kvs) k of None \<Rightarrow> get m k | Some v \<Rightarrow> Some v)"
proof (induction kvs arbitrary: m)
  case (Cons kv kvs)
  obtain k' v' where "kv = (k', v')" by (cases kv)
  with Cons show ?case by (auto simp: get_set map_add_def split: option.splits)
qed simp

end

section \<open>Objects as association lists\<close>

definition obj_get :: "'v obj \<Rightarrow> string \<Rightarrow> 'v option" where
  "obj_get o1 k = map_of o1 k"

fun obj_set :: "string \<Rightarrow> 'v \<Rightarrow> 'v obj \<Rightarrow> 'v obj" where
  "obj_set k v [] = [(k, v)]"
| "obj_set k v ((k', v') # kvs) = (if k = k' then (k, v) # kvs else (k', v') # obj_set k v kvs)"

definition obj_del :: "string \<Rightarrow> 'v obj \<Rightarrow> 'v obj" where
  "obj_del k o1 = filter (\<lambda>kv. fst kv \<noteq> k) o1"

definition obj_keys :: "'v obj \<Rightarrow> string list" where
  "obj_keys o1 = map fst o1"

text \<open>\<open>for (k in src) dst[k] = src[k]\<close>.\<close>

definition obj_copy :: "'v obj \<Rightarrow> 'v obj \<Rightarrow> 'v obj" where
  "obj_copy src dst = fold (\<lambda>(k, v) m. obj_set k v m) src dst"

text \<open>The representation invariant: no property occurs twice.\<close>

definition obj_ok :: "'v obj \<Rightarrow> bool" where
  "obj_ok o1 \<longleftrightarrow> distinct (obj_keys o1)"

lemma map_of_obj_set: "map_of (obj_set k v o1) = (map_of o1)(k := Some v)"
  by (induction o1) auto

lemma map_of_obj_del: "map_of (obj_del k o1) = (map_of o1)(k := None)"
  by (induction o1) (auto simp: obj_del_def)

interpretation obj: property_store obj_get obj_set obj_del
  by unfold_locales (auto simp: obj_get_def map_of_obj_set map_of_obj_del)

declare obj.set_get_same [simp] obj.set_get_other [simp]

lemma obj_get_Nil [simp]: "obj_get [] k = None"
  by (simp add: obj_get_def)

lemma obj_get_Cons [simp]: "obj_get ((k', v) # o1) k = (if k = k' then Some v else obj_get o1 k)"
  by (simp add: obj_get_def)

lemma obj_get_del [simp]: "obj_get (obj_del k o1) k' = (if k' = k then None else obj_get o1 k')"
  by (simp add: obj.get_del)

lemma obj_keys_set: "obj_keys (obj_set k v o1) = (if k \<in> set (obj_keys o1) then obj_keys o1 else obj_keys o1 @ [k])"
  by (induction o1) (auto simp: obj_keys_def, force)

lemma obj_get_None_iff: "obj_get o1 k = None \<longleftrightarrow> k \<notin> set (obj_keys o1)"
  by (simp add: obj_get_def map_of_eq_None_iff obj_keys_def)

lemma set_obj_set: "kv \<in> set (obj_set k v o1) \<Longrightarrow> kv = (k, v) \<or> kv \<in> set o1"
  by (induction o1) (auto split: if_splits)

lemma obj_set_append: "k \<notin> set (obj_keys o1) \<Longrightarrow> obj_set k v o1 = o1 @ [(k, v)]"
  by (induction o1) (auto simp: obj_keys_def)

lemma obj_set_same [simp]: "obj_get o1 k = Some v \<Longrightarrow> obj_set k v o1 = o1"
  by (induction o1) (auto split: if_splits)

lemma obj_set_twice [simp]: "obj_set k v (obj_set k w o1) = obj_set k v o1"
  by (induction o1) auto

lemma obj_ok_Nil [simp]: "obj_ok []"
  by (simp add: obj_ok_def obj_keys_def)

lemma obj_ok_set [intro]: "obj_ok o1 \<Longrightarrow> obj_ok (obj_set k v o1)"
  by (simp add: obj_ok_def obj_keys_set)

lemma obj_ok_del [intro]: "obj_ok o1 \<Longrightarrow> obj_ok (obj_del k o1)"
  by (simp add: obj_ok_def obj_keys_def obj_del_def distinct_map_filter)

lemma obj_ok_copy [intro]: "obj_ok dst \<Longrightarrow> obj_ok (obj_copy src dst)"
  unfolding obj_copy_def by (induction src arbitrary: dst) auto

lemma obj_get_copy:
  "obj_get (obj_copy src dst) k =
     (case map_of (rev src) k of None \<Rightarrow> obj_get dst k | Some v \<Rightarrow> Some v)"
  unfolding obj_copy_def by (rule obj.get_copy_all)

lemma obj_get_in_set: "obj_get o1 k = Some v \<Longrightarrow> (k, v) \<in> set o1"
  by (simp add: obj_get_def map_of_SomeD)

lemma obj_ok_get_iff: "obj_ok o1 \<Longrightarrow> obj_get o1 k = Some v \<longleftrightarrow> (k, v) \<in> set o1"
  by (simp add: obj_ok_def obj_keys_def obj_get_def)

end
