(* ===== verification/JS_Value.thy ===== *)
theory JS_Value
  imports JS_Object
begin

text \<open>
  JavaScript values as they occur in arguments and specifications: \<open>undefined\<close>, \<open>null\<close>, booleans,
  integral numbers, strings, arrays and objects. With them truthiness, conversion to a string, and
  \<open>encodeURIComponent\<close>.
\<close>

section \<open>Values\<close>

datatype jsv =
    JUndef
  | JNull
  | JBool bool
  | JNum int
  | JStr string
  | JArr "jsv list"
  | JObj "(string \<times> jsv) list"

text \<open>\<open>o.k\<close>: \<open>undefined\<close> for a missing property and on values that have no such property. Reading a
  property of \<open>undefined\<close> or \<open>null\<close> throws; the code modelled guards against it or the model says so.\<close>

definition prop_of :: "jsv \<Rightarrow> string \<Rightarrow> jsv" where
  "prop_of v k = (case v of JObj o1 \<Rightarrow> (case obj_get o1 k of None \<Rightarrow> JUndef | Some x \<Rightarrow> x) | _ \<Rightarrow> JUndef)"

definition arg :: "jsv obj \<Rightarrow> string \<Rightarrow> jsv" where
  "arg args k = (case obj_get args k of None \<Rightarrow> JUndef | Some x \<Rightarrow> x)"

definition truthy :: "jsv \<Rightarrow> bool" where
  "truthy v = (case v of JUndef \<Rightarrow> False | JNull \<Rightarrow> False | JBool b \<Rightarrow> b | JNum n \<Rightarrow> n \<noteq> 0 | JStr s \<Rightarrow> s \<noteq> []
     | JArr _ \<Rightarrow> True | JObj _ \<Rightarrow> True)"

definition is_array :: "jsv \<Rightarrow> bool" where
  "is_array v = (case v of JArr _ \<Rightarrow> True | _ \<Rightarrow> False)"

definition is_object :: "jsv \<Rightarrow> bool" where
  "is_object v = (case v of JArr _ \<Rightarrow> True | JObj _ \<Rightarrow> True | _ \<Rightarrow> False)"

definition elements :: "jsv \<Rightarrow> jsv list" where
  "elements v = (case v of JArr xs \<Rightarrow> xs | _ \<Rightarrow> [])"

text \<open>\<open>'' + v\<close>. The elements \<open>undefined\<close> and \<open>null\<close> of an array give the empty string.\<close>

function to_str :: "jsv \<Rightarrow> string" where
  "to_str JUndef = ''undefined''"
| "to_str JNull = ''null''"
| "to_str (JBool b) = (if b then ''true'' else ''false'')"
| "to_str (JNum n) = show_int n"
| "to_str (JStr s) = s"
| "to_str (JArr xs) = js_join '','' (map (\<lambda>x. if x = JUndef \<or> x = JNull then [] else to_str x) xs)"
| "to_str (JObj o1) = ''[object Object]''"
  by pat_completeness auto
termination
proof (relation "measure size", goal_cases)
  case (2 xs x)
  then show ?case using size_list_estimation' [of x xs "size x" size] by fastforce
qed simp

lemma prop_of_JObj [simp]: "prop_of (JObj o1) k = arg o1 k"
  by (simp add: prop_of_def arg_def)

lemma arg_set [simp]: "arg (obj_set k v o1) k' = (if k' = k then v else arg o1 k')"
  by (simp add: arg_def)

lemma arg_Nil [simp]: "arg [] k = JUndef"
  by (simp add: arg_def)

lemma arg_Cons [simp]: "arg ((k', v) # o1) k = (if k = k' then v else arg o1 k)"
  by (simp add: arg_def)

lemma arg_del [simp]: "arg (obj_del k o1) k' = (if k' = k then JUndef else arg o1 k')"
  by (simp add: arg_def)

section \<open>encodeURIComponent\<close>

text \<open>On code units below 256: the unreserved characters stay, any other one is replaced by the
  percent-encoded bytes of its UTF-8 form.\<close>

definition uri_unreserved :: "char \<Rightarrow> bool" where
  "uri_unreserved c \<longleftrightarrow>
     (48 \<le> code c \<and> code c \<le> 57) \<or> (65 \<le> code c \<and> code c \<le> 90) \<or> (97 \<le> code c \<and> code c \<le> 122)
     \<or> c \<in> set ''-_.!~*()''
     \<or> code c = 39"

definition hex_upper :: "nat \<Rightarrow> char" where
  "hex_upper d = char_of (if d < 10 then 48 + d else 55 + d)"

definition percent :: "nat \<Rightarrow> string" where
  "percent b = [CHR ''%'', hex_upper (b div 16), hex_upper (b mod 16)]"

definition uri_char :: "char \<Rightarrow> string" where
  "uri_char c =
     (if uri_unreserved c then [c]
      else if code c < 128 then percent (code c)
      else percent (192 + code c div 64) @ percent (128 + code c mod 64))"

definition encodeURIComponent :: "string \<Rightarrow> string" where
  "encodeURIComponent s = concat (map uri_char s)"

text \<open>Percent-decoding, the inverse on what \<open>encodeURIComponent\<close> produces.\<close>

definition hex_val :: "char \<Rightarrow> nat" where
  "hex_val c = (if code c < 58 then code c - 48 else code c - 55)"

function uri_decode :: "string \<Rightarrow> string" where
  "uri_decode [] = []"
| "uri_decode (c # s) =
     (if c = CHR ''%'' \<and> 2 \<le> length s then
        let v = 16 * hex_val (s ! 0) + hex_val (s ! 1); rest = drop 2 s
        in if v < 128 \<or> length rest < 3 then char_of v # uri_decode rest
           else char_of ((v - 192) * 64 + (16 * hex_val (rest ! 1) + hex_val (rest ! 2) - 128)) # uri_decode (drop 3 rest)
      else c # uri_decode s)"
  by pat_completeness auto
termination
  by (relation "measure length") auto

lemma code_hex_upper: "d < 16 \<Longrightarrow> code (hex_upper d) = (if d < 10 then 48 + d else 55 + d)"
  by (simp add: hex_upper_def)

lemma hex_val_upper [simp]: "d < 16 \<Longrightarrow> hex_val (hex_upper d) = d"
  by (simp add: hex_val_def code_hex_upper)

lemma uri_unreserved_hex: "d < 16 \<Longrightarrow> uri_unreserved (hex_upper d)"
  by (auto simp: uri_unreserved_def code_hex_upper)

lemma percent_not_unreserved: "\<not> uri_unreserved CHR ''%''"
  by (simp add: uri_unreserved_def)

lemma code_less: "256 \<le> n \<Longrightarrow> code c < n"
  using nat_of_char_less_256 [of c] by linarith

lemma hex_join: "b < 256 \<Longrightarrow> 16 * hex_val (hex_upper (b div 16)) + hex_val (hex_upper (b mod 16)) = b"
  by (simp add: div_less_iff_less_mult)

lemma uri_decode_percent_1: "v < 128 \<Longrightarrow> uri_decode (percent v @ s) = char_of v # uri_decode s"
  using hex_join [of v] by (simp add: percent_def)

lemma uri_decode_percent_2:
  assumes "128 \<le> h" "h < 256" "t < 256"
  shows "uri_decode (percent h @ percent t @ s) = char_of ((h - 192) * 64 + (t - 128)) # uri_decode s"
proof -
  define a b where "a = hex_upper (h div 16)" and "b = hex_upper (h mod 16)"
  define c d where "c = hex_upper (t div 16)" and "d = hex_upper (t mod 16)"
  have v: "16 * hex_val a + hex_val b = h" "16 * hex_val c + hex_val d = t"
    unfolding a_def b_def c_def d_def by (rule hex_join, use assms in simp)+
  have "uri_decode (CHR ''%'' # a # b # CHR ''%'' # c # d # s) = char_of ((h - 192) * 64 + (t - 128)) # uri_decode s"
    by (subst uri_decode.simps) (use assms v in \<open>simp add: numeral_2_eq_2 numeral_3_eq_3 del: uri_decode.simps\<close>)
  then show ?thesis by (simp only: percent_def a_def b_def c_def d_def append_Cons append_Nil)
qed

lemma uri_decode_char: "uri_decode (uri_char c @ s) = c # uri_decode s"
proof (cases "uri_unreserved c")
  case True
  then have "c \<noteq> CHR ''%''" using percent_not_unreserved by auto
  then show ?thesis using True by (simp add: uri_char_def)
next
  case False
  show ?thesis
  proof (cases "code c < 128")
    case True
    then show ?thesis using False by (simp add: uri_char_def uri_decode_percent_1 del: uri_decode.simps)
  next
    case hi: False
    have "192 + code c div 64 < 256" "128 + code c mod 64 < 256" by (simp_all add: div_less_iff_less_mult code_less)
    then show ?thesis using False hi uri_decode_percent_2 [of "192 + code c div 64" "128 + code c mod 64" s]
      by (simp add: uri_char_def del: uri_decode.simps)
  qed
qed

lemma uri_decode_encode: "uri_decode (encodeURIComponent s) = s"
  unfolding encodeURIComponent_def
  by (induction s) (simp_all add: uri_decode_char del: uri_decode.simps(2))

lemma encodeURIComponent_inj: "encodeURIComponent s = encodeURIComponent t \<Longrightarrow> s = t"
  by (metis uri_decode_encode)

definition uri_safe :: "char \<Rightarrow> bool" where
  "uri_safe c \<longleftrightarrow> uri_unreserved c \<or> c = CHR ''%''"

lemma percent_safe: "b < 256 \<Longrightarrow> c \<in> set (percent b) \<Longrightarrow> uri_safe c"
  using uri_unreserved_hex [of "b div 16"] uri_unreserved_hex [of "b mod 16"] by (auto simp: percent_def uri_safe_def)

lemma encodeURIComponent_safe: "c \<in> set (encodeURIComponent s) \<Longrightarrow> uri_safe c"
proof -
  have "c \<in> set (uri_char x) \<Longrightarrow> uri_safe c" for x
  proof -
    assume c: "c \<in> set (uri_char x)"
    have "code x < 256" by (rule nat_of_char_less_256)
    moreover have "192 + code x div 64 < 256" "128 + code x mod 64 < 256" by (simp_all add: div_less_iff_less_mult code_less)
    ultimately show ?thesis using c percent_safe [of "code x"] percent_safe [of "192 + code x div 64"]
        percent_safe [of "128 + code x mod 64"]
      by (auto simp: uri_char_def uri_safe_def split: if_splits)
  qed
  then show "c \<in> set (encodeURIComponent s) \<Longrightarrow> uri_safe c" by (auto simp: encodeURIComponent_def)
qed

lemma uri_safe_not: "uri_safe c \<Longrightarrow> c \<notin> set ''&=?#/,| {}$[]''"
  by (auto simp: uri_safe_def uri_unreserved_def)

lemma encodeURIComponent_avoids: "c \<in> set ''&=?#/,| {}$[]'' \<Longrightarrow> c \<notin> set (encodeURIComponent s)"
  using encodeURIComponent_safe uri_safe_not by blast

end
