(* ===== verification/JS_Json.thy ===== *)
theory JS_Json
  imports JS_Value
begin

text \<open>
  Operations on JavaScript values that several components use: reading properties of values that may be
  \<open>null\<close>, \<open>a || b\<close>, \<open>indexOf\<close> on values, and \<open>JSON.stringify\<close>. A method call on a value that does not
  have the method throws a \<open>TypeError\<close>.
\<close>

section \<open>Operators and properties\<close>

definition js_or :: "jsv \<Rightarrow> jsv \<Rightarrow> jsv" where
  "js_or a b = (if truthy a then a else b)"

text \<open>\<open>v.k\<close>, which throws on \<open>undefined\<close> and \<open>null\<close>.\<close>

definition get_prop :: "jsv \<Rightarrow> string \<Rightarrow> jsv result" where
  "get_prop v k = (if v = JUndef \<or> v = JNull then Inl null_error else Inr (prop_of v k))"

definition no_method :: "string \<Rightarrow> js_error" where
  "no_method name = TypeError (name @ '' is not a function'')"

text \<open>\<open>v.indexOf(p)\<close> for a string \<open>p\<close>: a substring of a string or an element of an array.\<close>

definition js_indexOf :: "jsv \<Rightarrow> string \<Rightarrow> int result" where
  "js_indexOf v p = (case v of
      JStr s \<Rightarrow> Inr (index_of p s)
    | JArr xs \<Rightarrow> Inr (index_of [JStr p] xs)
    | JUndef \<Rightarrow> Inl null_error
    | JNull \<Rightarrow> Inl null_error
    | _ \<Rightarrow> Inl (no_method ''indexOf''))"

text \<open>What \<open>for (k in v)\<close> visits, with the values.\<close>

definition entries_of :: "jsv \<Rightarrow> jsv obj" where
  "entries_of v = (case v of
      JObj o1 \<Rightarrow> o1
    | JArr xs \<Rightarrow> zip (map show_nat [0..<length xs]) xs
    | JStr s \<Rightarrow> zip (map show_nat [0..<length s]) (map (\<lambda>c. JStr [c]) s)
    | _ \<Rightarrow> [])"

text \<open>\<open>v[k] = x\<close> in strict mode. A named property of an array is not part of its value here.\<close>

definition put_prop :: "string \<Rightarrow> jsv \<Rightarrow> jsv \<Rightarrow> jsv result" where
  "put_prop k x v = (case v of
      JObj o1 \<Rightarrow> Inr (JObj (obj_set k x o1))
    | JArr xs \<Rightarrow> Inr v
    | JUndef \<Rightarrow> Inl null_error
    | JNull \<Rightarrow> Inl null_error
    | _ \<Rightarrow> Inl (TypeError ''property of a primitive value''))"

lemma size_entry: "(k, v) \<in> set o1 \<Longrightarrow> size v < size (JObj o1)"
  using size_list_estimation' [of "(k, v)" o1 "size v" "size_prod (\<lambda>x. 0) size"] by simp

lemma size_elem: "x \<in> set xs \<Longrightarrow> size x < size (JArr xs)"
  using size_list_estimation' [of x xs "size x" size] by fastforce

lemma size_entries_of: "(k, v) \<in> set (entries_of w) \<Longrightarrow> is_object v \<Longrightarrow> size v < size w"
proof (cases w)
  case (JArr xs)
  assume "(k, v) \<in> set (entries_of w)"
  then show ?thesis using JArr size_elem [of v xs] by (auto simp: entries_of_def dest: set_zip_rightD)
next
  case (JStr s)
  assume "(k, v) \<in> set (entries_of w)" "is_object v"
  then show ?thesis using JStr by (auto simp: entries_of_def is_object_def dest!: set_zip_rightD)
qed (auto simp: entries_of_def dest: size_entry)

lemma size_prop_of: "prop_of v k \<noteq> JUndef \<Longrightarrow> size (prop_of v k) < size v"
proof (cases v)
  case (JObj o1)
  assume "prop_of v k \<noteq> JUndef"
  then have "(k, prop_of v k) \<in> set o1" using JObj by (auto simp: arg_def dest: obj_get_in_set split: option.splits)
  then show ?thesis using JObj size_entry by blast
qed (auto simp: prop_of_def)

section \<open>JSON.stringify\<close>

definition hex_lower :: "nat \<Rightarrow> char" where
  "hex_lower n = ''0123456789abcdef'' ! n"

definition json_char :: "char \<Rightarrow> string" where
  "json_char c =
     (if code c = 34 then [CHR 0x5C, CHR 0x22]
      else if code c = 92 then [CHR 0x5C, CHR 0x5C]
      else if code c = 8 then [CHR 0x5C, CHR ''b'']
      else if code c = 9 then [CHR 0x5C, CHR ''t'']
      else if code c = 10 then [CHR 0x5C, CHR ''n'']
      else if code c = 12 then [CHR 0x5C, CHR ''f'']
      else if code c = 13 then [CHR 0x5C, CHR ''r'']
      else if code c < 32 then [CHR 0x5C, CHR ''u'', CHR ''0'', CHR ''0'', hex_lower (code c div 16), hex_lower (code c mod 16)]
      else [c])"

definition json_string :: "string \<Rightarrow> string" where
  "json_string s = [CHR 0x22] @ concat (map json_char s) @ [CHR 0x22]"

text \<open>\<open>undefined\<close> is left out of objects and becomes \<open>null\<close> in arrays.\<close>

function json_text :: "jsv \<Rightarrow> string" where
  "json_text JUndef = ''null''"
| "json_text JNull = ''null''"
| "json_text (JBool b) = (if b then ''true'' else ''false'')"
| "json_text (JNum n) = show_int n"
| "json_text (JStr s) = json_string s"
| "json_text (JArr xs) = ''['' @ js_join '','' (map json_text xs) @ '']''"
| "json_text (JObj o1) =
     ''{'' @ js_join '','' (map (\<lambda>(k, v). json_string k @ '':'' @ json_text v) (filter (\<lambda>(k, v). v \<noteq> JUndef) o1)) @ ''}''"
  by pat_completeness auto
termination
  by (relation "measure size") (auto dest: size_entry size_elem)

definition json_stringify :: "jsv \<Rightarrow> string option" where
  "json_stringify v = (if v = JUndef then None else Some (json_text v))"

lemma js_or_truthy [simp]: "truthy a \<Longrightarrow> js_or a b = a" "\<not> truthy a \<Longrightarrow> js_or a b = b"
  by (simp_all add: js_or_def)

lemma truthy_simps [simp]:
  "\<not> truthy JUndef" "\<not> truthy JNull" "truthy (JBool b) \<longleftrightarrow> b" "truthy (JNum n) \<longleftrightarrow> n \<noteq> 0"
  "truthy (JStr s) \<longleftrightarrow> s \<noteq> []" "truthy (JArr xs)" "truthy (JObj o1)"
  by (simp_all add: truthy_def)

text \<open>Searches that visit every name at most once end because one name less is left.\<close>

lemma card_unvisited_less: "finite S \<Longrightarrow> x \<in> S \<Longrightarrow> x \<notin> set xs \<Longrightarrow> card (S - set (x # xs)) < card (S - set xs)"
  by (intro psubset_card_mono) auto

section \<open>Numbered names\<close>

definition numbered :: "string \<Rightarrow> nat \<Rightarrow> string" where
  "numbered base n = base @ ''_'' @ show_nat n"

lemma numbered_inj: "numbered base m = numbered base n \<Longrightarrow> m = n"
  using show_nat_inj by (simp add: numbered_def)

text \<open>The searches for a free name try \<open>base_0\<close>, \<open>base_1\<close> and so on. They end because only finitely many names are taken.\<close>

locale numbered_names =
  fixes base :: string and taken :: "string \<Rightarrow> bool"
  assumes finite_taken: "finite {x. taken x}"
begin

lemma finite_from: "finite {k. n \<le> k \<and> taken (numbered base k)}"
proof (rule finite_imageD)
  show "finite (numbered base ` {k. n \<le> k \<and> taken (numbered base k)})" by (rule finite_subset [OF _ finite_taken]) auto
  show "inj_on (numbered base) {k. n \<le> k \<and> taken (numbered base k)}" using numbered_inj by (auto simp: inj_on_def)
qed

lemma card_from_less:
  assumes "taken (numbered base n)"
  shows "card {k. n + 1 \<le> k \<and> taken (numbered base k)} < card {k. n \<le> k \<and> taken (numbered base k)}"
proof -
  have "{k. n + 1 \<le> k \<and> taken (numbered base k)} = {k. n \<le> k \<and> taken (numbered base k)} - {n}" by auto
  then show ?thesis using assms finite_from [of n] by (simp only:) (rule card_Diff1_less, simp_all)
qed

end

end
