(* ===== verification/Spec_Converter.thy ===== *)
theory Spec_Converter
  imports JS_Json
begin

text \<open>
  The converter of Swagger 1.x documents (module 8 of \<open>swagger-ui.js\<close>, \<open>SwaggerSpecConverter\<close>). Documents are
  JavaScript values; the converted document \<open>swagger\<close> is an object that the methods fill in place, so the model
  passes it along. Its fields \<open>definitions\<close>, \<open>paths\<close>, \<open>securityDefinitions\<close> and \<open>tags\<close> are created by the
  converter itself. Reading a property of \<open>null\<close> or \<open>undefined\<close> throws. The requests for the declarations of a
  resource listing are events: the answers arrive one by one in any order.
\<close>

section \<open>Objects of a document\<close>

text \<open>\<open>if (v) o[k] = v\<close> and \<open>o[k][name] = v\<close>.\<close>

definition set_if :: "string \<Rightarrow> jsv \<Rightarrow> jsv obj \<Rightarrow> jsv obj" where
  "set_if k v o1 = (if truthy v then obj_set k v o1 else o1)"

definition set_in :: "string \<Rightarrow> string \<Rightarrow> jsv \<Rightarrow> jsv obj \<Rightarrow> jsv obj" where
  "set_in k name v o1 = (case arg o1 k of JObj inner \<Rightarrow> obj_set k (JObj (obj_set name v inner)) o1 | _ \<Rightarrow> o1)"

text \<open>\<open>o[k] = o[k] || v\<close>.\<close>

definition ensure :: "string \<Rightarrow> jsv \<Rightarrow> jsv obj \<Rightarrow> jsv obj" where
  "ensure k v o1 = obj_set k (js_or (arg o1 k) v) o1"

definition lower_of :: "jsv \<Rightarrow> string result" where
  "lower_of v = (case v of JStr s \<Rightarrow> Inr (to_lower s) | JUndef \<Rightarrow> Inl null_error | JNull \<Rightarrow> Inl null_error
     | _ \<Rightarrow> Inl (no_method ''toLowerCase''))"

section \<open>Types\<close>

definition schema_type :: "string \<Rightarrow> string \<Rightarrow> jsv" where
  "schema_type t f = JObj ((''type'', JStr t) # (if f = [] then [] else [(''format'', JStr f)]))"

definition array_of :: "jsv \<Rightarrow> jsv" where
  "array_of it = JObj [(''type'', JStr ''array''), (''items'', it)]"

definition ref_to :: "string \<Rightarrow> jsv" where
  "ref_to name = JObj [(''$ref'', JStr (''#/definitions/'' @ name))]"

definition primitive_schema :: "string \<Rightarrow> string \<Rightarrow> jsv option" where
  "primitive_schema lcType format =
     (if lcType = ''int'' \<or> lcType = ''integer'' \<and> format = ''int32'' then Some (schema_type ''integer'' ''int32'')
      else if lcType = ''long'' \<or> lcType = ''integer'' \<and> format = ''int64'' then Some (schema_type ''integer'' ''int64'')
      else if lcType = ''integer'' then Some (schema_type ''integer'' ''int64'')
      else if lcType = ''float'' \<or> lcType = ''number'' \<and> format = ''float'' then Some (schema_type ''number'' ''float'')
      else if lcType = ''double'' \<or> lcType = ''number'' \<and> format = ''double'' then Some (schema_type ''number'' ''double'')
      else if lcType = ''string'' \<and> format = ''date-time'' \<or> lcType = ''date'' then Some (schema_type ''string'' ''date-time'')
      else if lcType = ''string'' then Some (schema_type ''string'' [])
      else if lcType = ''file'' then Some (schema_type ''file'' [])
      else if lcType = ''boolean'' then Some (schema_type ''boolean'' [])
      else None)"

definition model_name :: "string obj \<Rightarrow> string \<Rightarrow> string option" where
  "model_name modelMap k = (case obj_get modelMap k of Some n \<Rightarrow> if n = [] then None else Some n | None \<Rightarrow> None)"

text \<open>\<open>toJsonSchema({type: name})\<close>, which the inner type of \<open>list[...]\<close> is given to.\<close>

function named_schema :: "string obj \<Rightarrow> string \<Rightarrow> jsv" where
  "named_schema modelMap name =
     (let lcType = to_lower name
      in if starts_with ''list['' lcType then array_of (named_schema modelMap (substring name 5 (int (length name) - 1)))
         else case primitive_schema lcType [] of Some s \<Rightarrow> s
           | None \<Rightarrow>
               if lcType = ''array'' \<or> lcType = ''list'' then array_of (schema_type ''object'' [])
               else if lcType = ''void'' \<or> lcType = [] then JObj []
               else case model_name modelMap name of Some n \<Rightarrow> ref_to n | None \<Rightarrow> JObj [(''type'', JStr name)])"
  by pat_completeness auto
termination
proof (relation "measure (\<lambda>(mm, name). length name)", simp)
  fix modelMap :: "string obj" and name lcType :: string
  assume "lcType = to_lower name" "starts_with ''list['' lcType"
  then obtain r where "to_lower name = ''list['' @ r" by (auto simp: starts_with_iff)
  from arg_cong [OF this, of length] have "length name \<ge> 5" by (simp add: to_lower_def)
  then show "((modelMap, substring name 5 (int (length name) - 1)), modelMap, name) \<in> measure (\<lambda>(mm, name). length name)"
    by (simp add: substring_def clamp_index_def Let_def)
qed

declare named_schema.simps [simp del]

function toJsonSchema :: "string obj \<Rightarrow> jsv \<Rightarrow> jsv result" where
  "toJsonSchema modelMap source =
     (if \<not> truthy source then Inr (JStr ''object'')
      else
        let detectedType = js_or (prop_of source ''type'')
              (js_or (prop_of source ''dataType'') (js_or (prop_of source ''responseClass'') (JStr [])))
        in bindR (lower_of detectedType) (\<lambda>lcType.
           bindR (lower_of (js_or (prop_of source ''format'') (JStr []))) (\<lambda>format.
             if starts_with ''list['' lcType then
               Inr (array_of (named_schema modelMap
                 (substring (to_str detectedType) 5 (int (length (to_str detectedType)) - 1))))
             else case primitive_schema lcType format of Some s \<Rightarrow> Inr s
               | None \<Rightarrow>
                   if lcType = ''array'' \<or> lcType = ''list'' then
                     (if truthy (prop_of source ''items'')
                      then bindR (toJsonSchema modelMap (prop_of source ''items'')) (\<lambda>it. Inr (array_of it))
                      else Inr (array_of (schema_type ''object'' [])))
                   else if truthy (prop_of source ''$ref'') then
                     Inr (case model_name modelMap (to_str (prop_of source ''$ref'')) of
                            Some n \<Rightarrow> ref_to n | None \<Rightarrow> JObj [(''$ref'', prop_of source ''$ref'')])
                   else if lcType = ''void'' \<or> lcType = [] then Inr (JObj [])
                   else Inr (case model_name modelMap (to_str (prop_of source ''type'')) of
                          Some n \<Rightarrow> ref_to n | None \<Rightarrow> JObj [(''type'', prop_of source ''type'')]))))"
  by pat_completeness auto
termination
  by (relation "measure (\<lambda>(mm, source). size source)") (auto intro!: size_prop_of)

declare toJsonSchema.simps [simp del]

definition dataType :: "string obj \<Rightarrow> jsv \<Rightarrow> jsv obj \<Rightarrow> jsv obj result" where
  "dataType modelMap source target =
     (if \<not> is_object source then Inr target
      else
        let t1 = set_if ''format'' (prop_of source ''format'')
                   (set_if ''maximum'' (prop_of source ''maximum'') (set_if ''minimum'' (prop_of source ''minimum'') target));
            t2 = (if prop_of source ''defaultValue'' \<noteq> JUndef then obj_set ''default'' (prop_of source ''defaultValue'') t1 else t1)
        in bindR (toJsonSchema modelMap source) (\<lambda>js.
             let t3 = set_if ''format'' (prop_of js ''format'') (set_if ''type'' (prop_of js ''type'') t2);
                 t4 = (if truthy (prop_of js ''$ref'')
                       then obj_set ''schema'' (JObj [(''$ref'', prop_of js ''$ref'')]) t3 else t3)
             in Inr (set_if ''items'' (prop_of js ''items'') t4)))"

section \<open>Models\<close>

definition convert_property :: "string obj \<Rightarrow> jsv \<Rightarrow> jsv obj result" where
  "convert_property modelMap p =
     bindR (dataType modelMap p []) (\<lambda>t.
     bindR (get_prop p ''description'') (\<lambda>d. Inr (set_if ''enum'' (prop_of p ''enum'') (set_if ''description'' d t))))"

definition is_required :: "jsv \<Rightarrow> bool" where
  "is_required p \<longleftrightarrow> prop_of p ''required'' = JBool True \<or> prop_of p ''required'' = JStr ''true''"

definition convert_model :: "string obj \<Rightarrow> jsv \<Rightarrow> jsv result" where
  "convert_model modelMap m =
     bindR (get_prop m ''properties'') (\<lambda>props.
     bindR (foldR (\<lambda>(name, p) (ps, req). bindR (convert_property modelMap p) (\<lambda>t.
               Inr (obj_set name (JObj t) ps, if is_required p then req @ [JStr name] else req)))
             (entries_of props) ([], [])) (\<lambda>(ps, req).
       Inr (JObj [(''properties'', JObj ps),
                  (''required'', if req \<noteq> [] then JArr req else prop_of m ''required'')])))"

definition models :: "string obj \<Rightarrow> jsv \<Rightarrow> jsv obj \<Rightarrow> jsv obj result" where
  "models modelMap obj swagger =
     (if \<not> is_object obj then Inr swagger
      else foldR (\<lambda>(name, m) sw. bindR (convert_model modelMap m) (\<lambda>s. Inr (set_in ''definitions'' name s sw)))
             (entries_of obj) (ensure ''definitions'' (JObj []) swagger))"

section \<open>Operations\<close>

definition extractTag :: "jsv \<Rightarrow> string result" where
  "extractTag resourcePath = (case js_or resourcePath (JStr ''default'') of
      JStr s \<Rightarrow>
        (let s1 = (if starts_with ''http:'' s \<or> starts_with ''https:'' s then last (split_char CHR ''/'' s) else s);
             s2 = (if ends_with ''.json'' s1 then substring s1 0 (int (length s1) - 5) else s1)
         in Inr (js_replace ''/'' [] s2))
    | JArr xs \<Rightarrow> Inl (no_method ''endsWith'')
    | _ \<Rightarrow> Inl (no_method ''indexOf''))"

definition convert_parameter :: "string obj \<Rightarrow> jsv \<Rightarrow> jsv result" where
  "convert_parameter modelMap p =
     bindR (get_prop p ''name'') (\<lambda>name0.
       let in0 = prop_of p ''paramType'';
           name = (if in0 = JStr ''body'' then JStr ''body'' else name0);
           in1 = (if in0 = JStr ''form'' then JStr ''formData'' else in0);
           t0 = set_if ''enum'' (prop_of p ''enum'')
                  [(''name'', name), (''description'', prop_of p ''description''), (''required'', prop_of p ''required''), (''in'', in1)]
       in bindR (if prop_of p ''allowMultiple'' = JBool True \<or> prop_of p ''allowMultiple'' = JStr ''true''
                 then bindR (dataType modelMap p []) (\<lambda>innerType.
                   let t1 = obj_set ''items'' (JObj innerType) (obj_set ''type'' (JStr ''array'') t0);
                       av = prop_of p ''allowableValues''
                   in Inr (if truthy av \<and> prop_of av ''valueType'' = JStr ''LIST''
                           then obj_set ''enum'' (prop_of av ''values'') t1 else t1))
                 else dataType modelMap p t0) (\<lambda>t2.
          Inr (JObj (if prop_of p ''defaultValue'' \<noteq> JUndef then obj_set ''default'' (prop_of p ''defaultValue'') t2 else t2))))"

definition push :: "string \<Rightarrow> jsv \<Rightarrow> jsv obj \<Rightarrow> jsv obj" where
  "push k v o1 = obj_set k (JArr (elements (js_or (arg o1 k) (JArr [])) @ [v])) o1"

definition convert_parameters :: "string obj \<Rightarrow> jsv \<Rightarrow> jsv obj \<Rightarrow> jsv obj result" where
  "convert_parameters modelMap obj operation =
     (case obj of
        JArr ps \<Rightarrow> foldR (\<lambda>p op. bindR (convert_parameter modelMap p) (\<lambda>q. Inr (push ''parameters'' q op))) ps operation
      | _ \<Rightarrow> Inr operation)"

definition convert_response :: "jsv \<Rightarrow> (string \<times> jsv) result" where
  "convert_response r =
     bindR (get_prop r ''message'') (\<lambda>msg.
       Inr (to_str (prop_of r ''code''),
            JObj ((''description'', msg) #
              (if truthy (prop_of r ''responseModel'')
               then [(''schema'', ref_to (to_str (prop_of r ''responseModel'')))] else []))))"

definition default_response :: "string obj \<Rightarrow> jsv \<Rightarrow> jsv obj result" where
  "default_response modelMap op =
     bindR (dataType modelMap op []) (\<lambda>d.
       Inr (if \<not> truthy (arg d ''schema'') \<and> truthy (arg d ''type'') then [(''schema'', JObj d)] else d))"

definition responseMessages :: "string obj \<Rightarrow> jsv \<Rightarrow> jsv obj \<Rightarrow> jsv obj result" where
  "responseMessages modelMap existing operation =
     (if \<not> is_object existing then Inr operation
      else bindR (default_response modelMap existing) (\<lambda>d.
        let msgs = elements (prop_of existing ''responseMessages'');
            op1 = ensure ''responses'' (JObj []) operation;
            has200 = list_ex (\<lambda>r. prop_of r ''code'' = JNum 200) msgs
        in bindR (foldR (\<lambda>r op. bindR (convert_response r) (\<lambda>(code, resp). Inr (set_in ''responses'' code resp op))) msgs op1) (\<lambda>op2.
             Inr (set_in ''responses'' (if has200 then ''default'' else ''200'') (JObj d) op2))))"

definition security_entry :: "string \<times> jsv \<Rightarrow> jsv result" where
  "security_entry = (\<lambda>(key, scopes).
     if truthy scopes then
       bindR (foldR (\<lambda>(j, s) acc. bindR (get_prop s ''scope'') (\<lambda>x. Inr (acc @ [x]))) (entries_of scopes) []) (\<lambda>xs.
         Inr (JObj [(key, JArr xs)]))
     else Inr (JObj [(key, JArr [])]))"

definition convert_operation :: "string obj \<Rightarrow> jsv obj \<Rightarrow> string \<Rightarrow> jsv \<Rightarrow> jsv \<Rightarrow> (string \<times> jsv) result" where
  "convert_operation modelMap swagger tag resourceLevelAuth ex =
     bindR (get_prop ex ''method'') (\<lambda>m0.
     bindR (lower_of (js_or m0 (prop_of ex ''httpMethod''))) (\<lambda>method.
       let auths0 = prop_of ex ''authorizations'';
           auths = (if truthy auths0 \<and> entries_of auths0 = [] then resourceLevelAuth else auths0);
           op0 = [(''tags'', JArr [JStr tag])]
       in bindR (foldR (\<lambda>e op. bindR (security_entry e) (\<lambda>s. Inr (push ''security'' s op))) (entries_of auths) op0) (\<lambda>op1.
          let op2 = set_if ''consumes'' (js_or (prop_of ex ''consumes'') (arg swagger ''consumes'')) op1;
              op3 = set_if ''produces'' (js_or (prop_of ex ''produces'') (arg swagger ''produces'')) op2;
              op4 = set_if ''deprecated'' (prop_of ex ''deprecated'')
                      (set_if ''operationId'' (prop_of ex ''nickname'')
                        (set_if ''description'' (prop_of ex ''notes'') (set_if ''summary'' (prop_of ex ''summary'') op3)))
          in bindR (convert_parameters modelMap (prop_of ex ''parameters'') op4) (\<lambda>op5.
             bindR (responseMessages modelMap ex op5) (\<lambda>op6. Inr (method, JObj op6))))))"

text \<open>The tag is added unless a tag of that name is there.\<close>

definition add_tag :: "string \<Rightarrow> jsv obj \<Rightarrow> jsv obj" where
  "add_tag tag swagger =
     (let sw = ensure ''tags'' (JArr []) swagger
      in if list_ex (\<lambda>t. prop_of t ''name'' = JStr tag) (elements (arg sw ''tags'')) then sw
         else push ''tags'' (JObj [(''name'', JStr tag)]) sw)"

definition convert_operations :: "string obj \<Rightarrow> jsv \<Rightarrow> jsv \<Rightarrow> jsv \<Rightarrow> jsv \<Rightarrow> jsv obj \<Rightarrow> jsv obj result" where
  "convert_operations modelMap path resourcePath obj resourceLevelAuth swagger =
     (case obj of
        JArr ops \<Rightarrow>
          let sw0 = (if truthy (arg swagger ''paths'') then swagger else obj_set ''paths'' (JObj []) swagger);
              pathObj = entries_of (js_or (prop_of (arg sw0 ''paths'') (to_str path)) (JObj []))
          in bindR (extractTag resourcePath) (\<lambda>tag.
             let sw1 = add_tag tag sw0
             in bindR (foldR (\<lambda>ex po. bindR (convert_operation modelMap sw1 tag resourceLevelAuth ex) (\<lambda>(method, op).
                          Inr (obj_set method op po))) ops pathObj) (\<lambda>po.
                  Inr (set_in ''paths'' (to_str path) (JObj po) sw1)))
      | _ \<Rightarrow> Inr swagger)"

section \<open>Declarations\<close>

definition host_and_path :: "string \<Rightarrow> jsv obj \<Rightarrow> jsv obj" where
  "host_and_path p swagger =
     (let pos = index_of ''/'' p
      in if pos > 0 then obj_set ''basePath'' (JStr (drop (nat pos) p)) (obj_set ''host'' (JStr (take (nat pos) p)) swagger)
         else obj_set ''basePath'' (JStr ''/'') (obj_set ''host'' (JStr p) swagger))"

definition base_path :: "jsv \<Rightarrow> jsv obj \<Rightarrow> jsv obj result" where
  "base_path bp swagger = (case bp of
      JStr s \<Rightarrow>
        if starts_with ''http://'' s then Inr (host_and_path (drop 7 s) swagger)
        else if starts_with ''https://'' s then Inr (host_and_path (drop 8 s) swagger)
        else Inr (obj_set ''basePath'' bp swagger)
    | JArr xs \<Rightarrow>
        if xs \<noteq> [] \<and> hd xs \<in> {JStr ''http://'', JStr ''https://''} then Inl (no_method ''substring'')
        else Inr (obj_set ''basePath'' bp swagger)
    | JUndef \<Rightarrow> Inl null_error
    | JNull \<Rightarrow> Inl null_error
    | _ \<Rightarrow> Inl (no_method ''indexOf''))"

definition build_modelMap :: "jsv \<Rightarrow> string obj \<Rightarrow> string obj result" where
  "build_modelMap ms modelMap =
     foldR (\<lambda>(name, m) mm. bindR (get_prop m ''id'') (\<lambda>id1. Inr (obj_set (to_str (js_or id1 (JStr name))) name mm)))
       (entries_of ms) modelMap"

text \<open>A declaration extends the converted document and the map of model names.\<close>

definition convert_declaration :: "jsv \<Rightarrow> jsv obj \<times> string obj \<Rightarrow> (jsv obj \<times> string obj) result" where
  "convert_declaration obj = (\<lambda>(swagger, modelMap).
     bindR (get_prop obj ''apis'') (\<lambda>apis.
       if \<not> truthy apis then Inr (swagger, modelMap)
       else bindR (base_path (prop_of obj ''basePath'') swagger) (\<lambda>sw0.
         let resourceLevelAuth = (if truthy (prop_of obj ''authorizations'') then prop_of obj ''authorizations'' else JUndef);
             sw1 = set_if ''produces'' (prop_of obj ''produces'') (set_if ''consumes'' (prop_of obj ''consumes'') sw0)
         in bindR (build_modelMap (prop_of obj ''models'') modelMap) (\<lambda>mm.
            bindR (foldR (\<lambda>api sw. bindR (get_prop api ''path'') (\<lambda>path.
                     convert_operations mm path (prop_of obj ''resourcePath'') (prop_of api ''operations'') resourceLevelAuth sw))
                   (elements apis) sw1) (\<lambda>sw2.
            bindR (models mm (js_or (prop_of obj ''models'') (JObj [])) sw2) (\<lambda>sw3. Inr (sw3, mm)))))))"

section \<open>Information and security\<close>

definition apiInfo :: "jsv \<Rightarrow> jsv obj \<Rightarrow> jsv obj \<times> bool" where
  "apiInfo obj swagger =
     (let info = prop_of obj ''info''
      in if truthy info then
           (let contact = prop_of info ''contact'';
                i1 = (if truthy contact then [(''contact'', JObj [(''email'', contact)])] else []);
                i2 = set_if ''termsOfService'' (prop_of info ''termsOfServiceUrl'')
                       (set_if ''title'' (prop_of info ''title'') (set_if ''description'' (prop_of info ''description'') i1));
                lic = prop_of info ''license''; licUrl = prop_of info ''licenseUrl'';
                sw = obj_set ''info'' (JObj i2) swagger
            in (if truthy lic \<or> truthy licUrl
                then obj_set ''license'' (JObj (set_if ''url'' licUrl (set_if ''name'' lic []))) sw else sw, False))
         else (swagger, True))"

text \<open>\<open>i > 0\<close> for the key \<open>i\<close> that the last \<open>for (i in ...)\<close> visited; a key that is not a numeral is not
  greater than 0. The variable keeps its value from one definition to the next.\<close>

definition positive_key :: "string option \<Rightarrow> bool" where
  "positive_key i = (case i of None \<Rightarrow> False | Some k \<Rightarrow> k \<noteq> [] \<and> list_all is_digit k \<and> digits_val 0 k > 0)"

definition oauth_scopes :: "jsv \<Rightarrow> string option \<Rightarrow> (jsv obj \<times> string option) result" where
  "oauth_scopes existing i0 =
     foldR (\<lambda>(i, s) (scopes, _). bindR (get_prop s ''scope'') (\<lambda>k.
         Inr (obj_set (to_str k) (prop_of s ''description'') scopes, Some i))) (entries_of existing) ([], i0)"

definition oauth_flow :: "jsv \<Rightarrow> jsv obj \<Rightarrow> (jsv obj \<times> bool) result" where
  "oauth_flow grants sd =
     (if \<not> truthy grants then Inr (sd, False)
      else
        let implicit = prop_of grants ''implicit''; authCode = prop_of grants ''authorization_code'';
            sd1 = (if truthy implicit
                   then obj_set ''authorizationUrl'' (prop_of implicit ''loginEndpoint'') (obj_set ''flow'' (JStr ''implicit'') sd) else sd)
        in if truthy authCode \<and> \<not> truthy (arg sd1 ''flow'') then
             bindR (get_prop (prop_of authCode ''tokenRequestEndpoint'') ''url'') (\<lambda>a.
             bindR (get_prop (prop_of authCode ''tokenEndpoint'') ''url'') (\<lambda>t.
               Inr (obj_set ''tokenUrl'' t (obj_set ''authorizationUrl'' a (obj_set ''flow'' (JStr ''accessCode'') sd1)), True)))
           else Inr (sd1, truthy implicit))"

definition security_definition :: "string \<Rightarrow> jsv \<Rightarrow> string option \<Rightarrow> (jsv obj \<times> bool \<times> string option) result" where
  "security_definition name d i =
     bindR (get_prop d ''type'') (\<lambda>typ.
       let sd = [(''vendorExtensions'', JObj [])]
       in if typ = JStr ''apiKey'' then
            Inr (sd @ [(''type'', JStr ''apiKey''), (''in'', prop_of d ''passAs''),
                       (''name'', js_or (prop_of d ''keyname'') (JStr name))], True, i)
          else if typ = JStr ''basicAuth'' then Inr (sd @ [(''type'', JStr ''basicAuth'')], True, i)
          else if typ = JStr ''oauth2'' then
            bindR (oauth_scopes (js_or (prop_of d ''scopes'') (JArr [])) i) (\<lambda>(scopes, i').
              let sd1 = sd @ [(''type'', JStr ''oauth2'')];
                  sd2 = (if positive_key i' then obj_set ''scopes'' (JObj scopes) sd1 else sd1)
              in bindR (oauth_flow (prop_of d ''grantTypes'') sd2) (\<lambda>(sd3, ok). Inr (sd3, ok, i')))
          else Inr (sd, False, i))"

definition securityDefinitions :: "jsv \<Rightarrow> jsv obj \<Rightarrow> jsv obj result" where
  "securityDefinitions obj swagger =
     (let auths = prop_of obj ''authorizations''
      in if \<not> truthy auths then Inr swagger
         else bindR (foldR (\<lambda>(name, d) (sw, i). bindR (security_definition name d i) (\<lambda>(sd, isValid, i').
                  Inr (if isValid then set_in ''securityDefinitions'' name (JObj sd) (ensure ''securityDefinitions'' (JObj []) sw)
                       else sw, i'))) (entries_of auths) (swagger, None)) (\<lambda>(sw, _). Inr sw))"

section \<open>Resource listings\<close>

definition getAbsolutePath :: "jsv \<Rightarrow> string \<Rightarrow> string \<Rightarrow> string" where
  "getAbsolutePath version docLocation0 path =
     (let docLocation =
            (if version = JStr ''1.0'' \<and> ends_with ''.json'' docLocation0 \<and> last_index_of CHR ''/'' docLocation0 > 0
             then take (nat (last_index_of CHR ''/'' docLocation0)) docLocation0 else docLocation0);
          location = (if starts_with ''http:'' path \<or> starts_with ''https:'' path then path
                      else (if ends_with ''/'' docLocation then take (length docLocation - 1) docLocation else docLocation) @ path)
      in js_replace ''{format}'' ''json'' location)"

text \<open>The answers to the requests of a listing: the document of a declaration, an answer without one, or an error.\<close>

datatype answer = Answer jsv | Failure

record listing =
  expectedCount :: nat
  processedCount :: nat
  l_swagger :: "jsv obj"
  l_modelMap :: "string obj"
  finished :: "jsv list"

definition finish_if_done :: "listing \<Rightarrow> listing" where
  "finish_if_done l =
     (if processedCount l = expectedCount l then l\<lparr>finished := finished l @ [JObj (l_swagger l)]\<rparr> else l)"

fun on_answer :: "answer \<Rightarrow> listing \<Rightarrow> listing result" where
  "on_answer (Answer doc) l0 =
     (let l = l0\<lparr>processedCount := processedCount l0 + 1\<rparr>
      in bindR (if truthy doc then convert_declaration doc (l_swagger l, l_modelMap l) else Inr (l_swagger l, l_modelMap l)) (\<lambda>(sw, mm).
           Inr (finish_if_done (l\<lparr>l_swagger := sw, l_modelMap := mm\<rparr>))))"
| "on_answer Failure l0 = Inr (finish_if_done (l0\<lparr>processedCount := processedCount l0 + 1\<rparr>))"

text \<open>Before any answer: the urls that are requested and the tags of the listed resources. The location of the
  document is a string.\<close>

definition list_api :: "jsv \<Rightarrow> string \<Rightarrow> jsv \<Rightarrow> jsv obj \<times> string list \<Rightarrow> (jsv obj \<times> string list) result" where
  "list_api version docLocation api = (\<lambda>(sw, urls).
     bindR (get_prop api ''path'') (\<lambda>path.
     bindR (case path of JStr s \<Rightarrow> Inr (getAbsolutePath version docLocation s)
              | JUndef \<Rightarrow> Inl null_error | JNull \<Rightarrow> Inl null_error | _ \<Rightarrow> Inl (no_method ''indexOf'')) (\<lambda>absolutePath.
       let d = prop_of api ''description''
       in if truthy d then bindR (extractTag path) (\<lambda>t.
              Inr (push ''tags'' (JObj [(''name'', JStr t), (''description'', d)]) sw, urls @ [absolutePath]))
          else Inr (sw, urls @ [absolutePath]))))"

definition resourceListing :: "jsv \<Rightarrow> string \<Rightarrow> jsv list \<Rightarrow> jsv obj \<Rightarrow> string obj \<Rightarrow> (listing \<times> string list) result" where
  "resourceListing version docLocation apis swagger modelMap =
     bindR (foldR (list_api version docLocation) apis (swagger, [])) (\<lambda>(sw, urls).
       Inr (\<lparr>expectedCount = length apis, processedCount = 0, l_swagger = sw, l_modelMap = modelMap,
            finished = (if apis = [] then [JObj swagger] else [])\<rparr>, urls))"

section \<open>convert\<close>

datatype conversion = Converted jsv | Listing listing "string list"

definition convert :: "string \<Rightarrow> jsv \<Rightarrow> conversion result" where
  "convert docLocation0 obj =
     (if \<not> truthy obj \<or> \<not> is_array (prop_of obj ''apis'') then Inr (Converted JNull)
      else
        let apis = elements (prop_of obj ''apis'');
            sw0 = fst (apiInfo obj [(''swagger'', JStr ''2.0''), (''originalVersion'', prop_of obj ''swaggerVersion'')]);
            docLocation = (if truthy (prop_of obj ''basePath'') then to_str (prop_of obj ''basePath'') else docLocation0)
        in bindR (securityDefinitions obj sw0) (\<lambda>sw1.
           bindR (foldR (\<lambda>api single. bindR (get_prop api ''operations'') (\<lambda>ops. Inr (single \<or> is_array ops))) apis False) (\<lambda>isSingleFileSwagger.
             if isSingleFileSwagger then bindR (convert_declaration obj (sw1, [])) (\<lambda>(sw2, _). Inr (Converted (JObj sw2)))
             else bindR (resourceListing (prop_of obj ''swaggerVersion'') docLocation apis sw1 []) (\<lambda>(l, urls). Inr (Listing l urls)))))"

section \<open>Types of a document\<close>

lemma js_or_Nil [simp]: "js_or (JStr s) (JStr []) = JStr s"
  by (simp add: js_or_def)

text \<open>The recursion on names is the recursion of the code on \<open>{type: name}\<close>.\<close>

lemma toJsonSchema_named: "toJsonSchema modelMap (JObj [(''type'', JStr name)]) = Inr (named_schema modelMap name)"
proof -
  have d: "js_or (JStr name) (js_or JUndef (js_or JUndef (JStr []))) = JStr name" "js_or JUndef (JStr []) = JStr []"
    by (simp_all add: js_or_def)
  have l: "lower_of (JStr s) = Inr (to_lower s)" "to_lower [] = []" for s by (simp_all add: lower_of_def to_lower_def)
  define lc where "lc = to_lower name"
  show ?thesis
    unfolding toJsonSchema.simps [of modelMap "JObj _"] named_schema.simps [of modelMap name]
    by (simp add: d l Let_def lc_def [symmetric] split: option.splits)
qed

datatype ty = Named string | ListOf ty

fun show_ty :: "ty \<Rightarrow> string" where
  "show_ty (Named n) = n"
| "show_ty (ListOf t) = ''List['' @ show_ty t @ '']''"

fun ty_schema :: "string obj \<Rightarrow> ty \<Rightarrow> jsv" where
  "ty_schema modelMap (Named n) = named_schema modelMap n"
| "ty_schema modelMap (ListOf t) = array_of (ty_schema modelMap t)"

lemma named_schema_list: "named_schema modelMap (''List['' @ s @ '']'') = array_of (named_schema modelMap s)"
proof -
  have "to_lower (''List['' @ s @ '']'') = to_lower ''List['' @ to_lower (s @ '']'')" by (simp add: to_lower_def)
  moreover have "to_lower ''List['' = ''list[''" by code_simp
  ultimately have "starts_with ''list['' (to_lower (''List['' @ s @ '']''))" by (simp only: starts_with_append)
  moreover have "substring (''List['' @ s @ '']'') 5 (int (length (''List['' @ s @ '']'')) - 1) = s"
    by (simp add: substring_def clamp_index_def Let_def)
  ultimately show ?thesis by (subst named_schema.simps) (simp only: Let_def if_True)
qed

lemma named_schema_ty: "named_schema modelMap (show_ty t) = ty_schema modelMap t"
  by (induction t) (simp_all only: show_ty.simps ty_schema.simps named_schema_list)

section \<open>Parameters\<close>

lemma arg_set_if [simp]: "arg (set_if k v o1) k' = (if k' = k \<and> truthy v then v else arg o1 k')"
  by (simp add: set_if_def)

lemma dataType_other:
  assumes "dataType modelMap source t = Inr t'" "k \<notin> {''minimum'', ''maximum'', ''format'', ''default'', ''type'', ''schema'', ''items''}"
  shows "arg t' k = arg t k"
  using assms by (auto simp: dataType_def Let_def bindR_Inr_iff split: if_splits)

text \<open>What name and place a parameter has after the conversion.\<close>

definition new_name :: "jsv \<Rightarrow> jsv" where
  "new_name p = (if prop_of p ''paramType'' = JStr ''body'' then JStr ''body'' else prop_of p ''name'')"

definition new_in :: "jsv \<Rightarrow> jsv" where
  "new_in p = (if prop_of p ''paramType'' = JStr ''form'' then JStr ''formData'' else prop_of p ''paramType'')"

definition parameter_start :: "jsv \<Rightarrow> jsv obj" where
  "parameter_start p = set_if ''enum'' (prop_of p ''enum'') [(''name'', new_name p), (''description'', prop_of p ''description''),
      (''required'', prop_of p ''required''), (''in'', new_in p)]"

definition multi_parameter :: "jsv \<Rightarrow> jsv obj \<Rightarrow> jsv obj" where
  "multi_parameter p innerType =
     (let t1 = obj_set ''items'' (JObj innerType) (obj_set ''type'' (JStr ''array'') (parameter_start p));
          av = prop_of p ''allowableValues''
      in if truthy av \<and> prop_of av ''valueType'' = JStr ''LIST'' then obj_set ''enum'' (prop_of av ''values'') t1 else t1)"

lemma convert_parameter_cases:
  assumes "convert_parameter modelMap p = Inr q"
  obtains t where "q = JObj (if prop_of p ''defaultValue'' \<noteq> JUndef then obj_set ''default'' (prop_of p ''defaultValue'') t else t)"
    "(\<exists>i. t = multi_parameter p i) \<or> dataType modelMap p (parameter_start p) = Inr t"
proof -
  have "p \<noteq> JUndef" "p \<noteq> JNull" using assms by (auto simp: convert_parameter_def get_prop_def)
  then have "convert_parameter modelMap p =
      bindR (if prop_of p ''allowMultiple'' = JBool True \<or> prop_of p ''allowMultiple'' = JStr ''true''
             then bindR (dataType modelMap p []) (\<lambda>i. Inr (multi_parameter p i))
             else dataType modelMap p (parameter_start p)) (\<lambda>t.
        Inr (JObj (if prop_of p ''defaultValue'' \<noteq> JUndef then obj_set ''default'' (prop_of p ''defaultValue'') t else t)))"
    unfolding convert_parameter_def get_prop_def multi_parameter_def parameter_start_def new_name_def new_in_def Let_def by simp
  with assms obtain t where
    t: "(if prop_of p ''allowMultiple'' = JBool True \<or> prop_of p ''allowMultiple'' = JStr ''true''
         then bindR (dataType modelMap p []) (\<lambda>i. Inr (multi_parameter p i))
         else dataType modelMap p (parameter_start p)) = Inr t"
    "q = JObj (if prop_of p ''defaultValue'' \<noteq> JUndef then obj_set ''default'' (prop_of p ''defaultValue'') t else t)"
    by (auto simp only: bindR_Inr_iff sum.inject)
  then have "(\<exists>i. t = multi_parameter p i) \<or> dataType modelMap p (parameter_start p) = Inr t"
    by (auto simp only: bindR_Inr_iff sum.inject split: if_splits)
  with t(2) show thesis by (rule that)
qed

lemma convert_parameter_fields:
  assumes "convert_parameter modelMap p = Inr q"
  shows "prop_of q ''name'' = new_name p \<and> prop_of q ''in'' = new_in p \<and> prop_of q ''required'' = prop_of p ''required''"
proof -
  from assms obtain t where q: "q = JObj (if prop_of p ''defaultValue'' \<noteq> JUndef then obj_set ''default'' (prop_of p ''defaultValue'') t else t)"
    and t: "(\<exists>i. t = multi_parameter p i) \<or> dataType modelMap p (parameter_start p) = Inr t"
    by (rule convert_parameter_cases)
  have "arg t k = arg (parameter_start p) k" if "k \<in> {''name'', ''in'', ''required''}" for k
    using t
  proof
    assume "\<exists>i. t = multi_parameter p i"
    then show ?thesis using that by (auto simp: multi_parameter_def Let_def)
  next
    assume "dataType modelMap p (parameter_start p) = Inr t"
    from dataType_other [OF this, of k] that show ?thesis by auto
  qed
  then show ?thesis by (simp add: q parameter_start_def)
qed

lemma arg_push [simp]: "arg (push k v o1) k' = (if k' = k then JArr (elements (js_or (arg o1 k) (JArr [])) @ [v]) else arg o1 k')"
  by (simp add: push_def)

lemma elements_or [simp]: "elements (js_or (JArr xs) y) = xs" "elements (JArr xs) = xs"
  by (simp_all add: elements_def js_or_def)

lemma convert_parameters_list:
  assumes "foldR (\<lambda>p op. bindR (convert_parameter modelMap p) (\<lambda>q. Inr (push ''parameters'' q op))) ps op = Inr op'"
  shows "\<exists>qs. elements (arg op' ''parameters'') = elements (js_or (arg op ''parameters'') (JArr [])) @ qs
    \<and> list_all2 (\<lambda>p q. convert_parameter modelMap p = Inr q) ps qs \<or> ps = []"
  using assms
proof (induction ps arbitrary: op)
  case (Cons p ps)
  then obtain q where q: "convert_parameter modelMap p = Inr q"
    and rest: "foldR (\<lambda>p op. bindR (convert_parameter modelMap p) (\<lambda>q. Inr (push ''parameters'' q op))) ps (push ''parameters'' q op) = Inr op'"
    by (auto simp: bindR_Inr_iff)
  show ?case
  proof (cases "ps = []")
    case True
    then show ?thesis using q rest by (intro exI [of _ "[q]"]) auto
  next
    case False
    then obtain qs where "elements (arg op' ''parameters'') = elements (js_or (arg op ''parameters'') (JArr [])) @ [q] @ qs"
      "list_all2 (\<lambda>p q. convert_parameter modelMap p = Inr q) ps qs"
      using Cons.IH [OF rest] by auto
    then show ?thesis using q by (intro exI [of _ "q # qs"]) auto
  qed
qed simp

section \<open>Responses\<close>

lemma arg_set_in: "arg o1 k = JObj inner \<Longrightarrow> arg (set_in k name v o1) k = JObj (obj_set name v inner)"
  by (simp add: set_in_def)

lemma foldR_set_in:
  assumes "foldR (\<lambda>r op. bindR (g r) (\<lambda>(c, v). Inr (set_in k c v op))) rs op = Inr op'"
    and "arg op k = JObj inner" and "\<And>r c v. g r = Inr (c, v) \<Longrightarrow> c = code_of r" and "distinct (map code_of rs)"
  shows "\<exists>inner'. arg op' k = JObj inner' \<and> (\<forall>c. c \<notin> code_of ` set rs \<longrightarrow> arg inner' c = arg inner c)
    \<and> (\<forall>r \<in> set rs. \<forall>c v. g r = Inr (c, v) \<longrightarrow> arg inner' c = v)"
  using assms(1,2,4)
proof (induction rs arbitrary: op inner)
  case (Cons r rs)
  obtain c v where g: "g r = Inr (c, v)"
    and rest: "foldR (\<lambda>r op. bindR (g r) (\<lambda>(c, v). Inr (set_in k c v op))) rs (set_in k c v op) = Inr op'"
    using Cons.prems(1) by (auto simp: bindR_Inr_iff)
  have c: "c = code_of r" using assms(3) g by blast
  obtain inner' where i: "arg op' k = JObj inner'" "\<forall>c'. c' \<notin> code_of ` set rs \<longrightarrow> arg inner' c' = arg (obj_set c v inner) c'"
    "\<forall>r \<in> set rs. \<forall>c v. g r = Inr (c, v) \<longrightarrow> arg inner' c = v"
    using Cons.IH [OF rest arg_set_in [OF Cons.prems(2)]] Cons.prems(3) by auto
  have "arg inner' c = v" using i(2) c Cons.prems(3) by auto
  then show ?case using i c g by (intro exI [of _ inner']) auto
qed auto

lemma show_int_inj: "show_int m = show_int n \<Longrightarrow> m = n"
proof -
  assume eq: "show_int m = show_int n"
  have d: "\<forall>k. CHR ''-'' \<notin> set (show_nat k)" using show_nat_digits by (force simp: is_digit_def)
  show ?thesis
  proof (cases "m < 0"; cases "n < 0")
    assume "m < 0" "n < 0"
    then show ?thesis using eq show_nat_inj [of "nat (- m)" "nat (- n)"] by (simp add: show_int_def)
  next
    assume "m < 0" "\<not> n < 0"
    then have "CHR ''-'' \<in> set (show_nat (nat n))" using eq by (metis show_int_def list.set_intros(1))
    then show ?thesis using d by blast
  next
    assume "\<not> m < 0" "n < 0"
    then have "CHR ''-'' \<in> set (show_nat (nat m))" using eq by (metis show_int_def list.set_intros(1))
    then show ?thesis using d by blast
  next
    assume "\<not> m < 0" "\<not> n < 0"
    then show ?thesis using eq show_nat_inj [of "nat m" "nat n"] by (simp add: show_int_def)
  qed
qed

lemma show_int_200: "show_int n = ''200'' \<longleftrightarrow> n = 200"
proof -
  have "show_int 200 = ''200''" by code_simp
  then show ?thesis using show_int_inj [of n 200] by auto
qed

lemma show_int_not_default: "show_int n \<noteq> ''default''"
proof
  assume e: "show_int n = ''default''"
  have "CHR ''d'' \<notin> set (show_nat k)" for k using show_nat_digits [of "CHR ''d''" k] by (auto simp: is_digit_def)
  then have "CHR ''d'' \<notin> set (show_int n)" by (simp add: show_int_def)
  then show False using e by simp
qed

section \<open>Listings\<close>

lemma finish_if_done_simps:
  "processedCount (finish_if_done l) = processedCount l" "expectedCount (finish_if_done l) = expectedCount l"
  "l_swagger (finish_if_done l) = l_swagger l"
  "finished (finish_if_done l) = finished l @ (if processedCount l = expectedCount l then [JObj (l_swagger l)] else [])"
  by (simp_all add: finish_if_done_def)

lemma on_answer_step:
  assumes "on_answer a l = Inr l'"
  shows "processedCount l' = processedCount l + 1 \<and> expectedCount l' = expectedCount l
    \<and> finished l' = finished l @ (if processedCount l + 1 = expectedCount l then [JObj (l_swagger l')] else [])"
proof (cases a)
  case (Answer doc)
  then obtain sw mm where "l' = finish_if_done (l\<lparr>processedCount := processedCount l + 1, l_swagger := sw, l_modelMap := mm\<rparr>)"
    using assms by (auto simp: Let_def bindR_Inr_iff)
  then show ?thesis by (simp add: finish_if_done_simps)
next
  case Failure
  then have "l' = finish_if_done (l\<lparr>processedCount := processedCount l + 1\<rparr>)" using assms by simp
  then show ?thesis by (simp add: finish_if_done_simps)
qed

lemma foldR_on_answer:
  assumes "foldR on_answer as l = Inr l'" "processedCount l + length as \<le> expectedCount l"
  shows "processedCount l' = processedCount l + length as \<and> expectedCount l' = expectedCount l
    \<and> finished l' = finished l @ (if as \<noteq> [] \<and> processedCount l + length as = expectedCount l then [JObj (l_swagger l')] else [])"
  using assms
proof (induction as arbitrary: l)
  case (Cons a as)
  then obtain l1 where l1: "on_answer a l = Inr l1" "foldR on_answer as l1 = Inr l'" by (auto simp: bindR_Inr_iff)
  note s = on_answer_step [OF l1(1)]
  show ?case
  proof (cases "as = []")
    case True
    then show ?thesis using s l1(2) by simp
  next
    case False
    then obtain n where "length as = Suc n" by (cases as) auto
    then have "processedCount l + 1 \<noteq> expectedCount l" using Cons.prems(2) by simp
    then show ?thesis using Cons.IH [OF l1(2)] s Cons.prems(2) False by simp
  qed
qed simp

section \<open>Tags\<close>

definition tag_names :: "jsv obj \<Rightarrow> jsv list" where
  "tag_names sw = map (\<lambda>t. prop_of t ''name'') (elements (arg sw ''tags''))"

lemma add_tag_names:
  "distinct (tag_names sw) \<Longrightarrow> distinct (tag_names (add_tag tag sw)) \<and> JStr tag \<in> set (tag_names (add_tag tag sw))"
  by (cases "arg sw ''tags''") (auto simp: tag_names_def add_tag_def ensure_def js_or_def elements_def push_def Let_def list_ex_iff image_iff)

lemma tag_names_other:
  "k \<noteq> ''tags'' \<Longrightarrow> tag_names (obj_set k v sw) = tag_names sw" "k \<noteq> ''tags'' \<Longrightarrow> tag_names (set_in k n v sw) = tag_names sw"
  "k \<noteq> ''tags'' \<Longrightarrow> tag_names (set_if k v sw) = tag_names sw" "k \<noteq> ''tags'' \<Longrightarrow> tag_names (ensure k v sw) = tag_names sw"
  by (auto simp: tag_names_def set_in_def ensure_def split: jsv.splits)

lemma convert_operations_tags:
  assumes "convert_operations mm path rp obj ra sw = Inr sw'" "distinct (tag_names sw)"
  shows "distinct (tag_names sw')"
proof (cases obj)
  case (JArr ops)
  let ?sw0 = "if truthy (arg sw ''paths'') then sw else obj_set ''paths'' (JObj []) sw"
  have "distinct (tag_names ?sw0)" using assms(2) by (simp add: tag_names_other)
  moreover obtain tag po where "sw' = set_in ''paths'' (to_str path) (JObj po) (add_tag tag ?sw0)"
    using assms(1) JArr by (auto simp: convert_operations_def Let_def bindR_Inr_iff)
  ultimately show ?thesis using add_tag_names [of ?sw0 tag] by (simp add: tag_names_other)
qed (use assms in \<open>auto simp: convert_operations_def\<close>)

lemma models_tags: "models mm obj sw = Inr sw' \<Longrightarrow> distinct (tag_names sw) \<Longrightarrow> distinct (tag_names sw')"
  by (auto simp: models_def tag_names_other bindR_Inr_iff split: if_splits
      elim!: foldR_invariant [where I = "\<lambda>sw. distinct (tag_names sw)"])

lemma base_path_tags: "base_path bp sw = Inr sw' \<Longrightarrow> tag_names sw' = tag_names sw"
  by (auto simp: base_path_def host_and_path_def Let_def tag_names_other split: jsv.splits if_splits)


lemma build_declaration_tags:
  assumes "convert_declaration obj (sw, mm) = Inr (sw', mm')" "distinct (tag_names sw)"
  shows "distinct (tag_names sw')"
proof (cases "truthy (prop_of obj ''apis'')")
  case True
  let ?ra = "if truthy (prop_of obj ''authorizations'') then prop_of obj ''authorizations'' else JUndef"
  let ?f = "\<lambda>mm api sw. bindR (get_prop api ''path'') (\<lambda>path.
      convert_operations mm path (prop_of obj ''resourcePath'') (prop_of api ''operations'') ?ra sw)"
  from assms(1) True obtain sw0 sw2 where b: "base_path (prop_of obj ''basePath'') sw = Inr sw0"
    and o: "foldR (?f mm') (elements (prop_of obj ''apis''))
        (set_if ''produces'' (prop_of obj ''produces'') (set_if ''consumes'' (prop_of obj ''consumes'') sw0)) = Inr sw2"
    and m: "models mm' (js_or (prop_of obj ''models'') (JObj [])) sw2 = Inr sw'"
    by (auto simp: convert_declaration_def Let_def bindR_Inr_iff get_prop_def split: if_split_asm)
  have "distinct (tag_names sw0)" using base_path_tags [OF b] assms(2) by simp
  then have "distinct (tag_names (set_if ''produces'' (prop_of obj ''produces'') (set_if ''consumes'' (prop_of obj ''consumes'') sw0)))"
    by (simp add: tag_names_other)
  from o this have "distinct (tag_names sw2)"
  proof (rule foldR_invariant)
    fix api s s'
    assume "distinct (tag_names s)" "?f mm' api s = Inr s'"
    then show "distinct (tag_names s')" using convert_operations_tags by (fastforce simp: bindR_Inr_iff)
  qed
  then show ?thesis using models_tags [OF m] by blast
next
  case False
  then show ?thesis using assms by (auto simp: convert_declaration_def get_prop_def split: if_splits)
qed

section \<open>Properties\<close>

text \<open>Type names of Swagger 1.x are converted through every level of nesting: \<open>List[...]\<close> around a type
  becomes an array of the converted type.\<close>

theorem nested_types:
  "toJsonSchema modelMap (JObj [(''type'', JStr (show_ty t))]) = Inr (ty_schema modelMap t)"
  by (simp only: toJsonSchema_named named_schema_ty)

text \<open>Every parameter of an operation is converted to one parameter, in order: a form parameter becomes
  \<open>formData\<close>, a body parameter is named \<open>body\<close>, and the other names, places and the required flags stay.\<close>

theorem parameters_converted:
  assumes "convert_parameters modelMap (JArr ps) op = Inr op'" "ps \<noteq> []" "arg op ''parameters'' = JUndef"
  shows "map (\<lambda>q. (prop_of q ''name'', prop_of q ''in'', prop_of q ''required'')) (elements (arg op' ''parameters''))
    = map (\<lambda>p. (new_name p, new_in p, prop_of p ''required'')) ps"
proof -
  have "foldR (\<lambda>p op. bindR (convert_parameter modelMap p) (\<lambda>q. Inr (push ''parameters'' q op))) ps op = Inr op'"
    using assms(1) by (simp add: convert_parameters_def)
  from convert_parameters_list [OF this] assms(2,3) obtain qs where
    "elements (arg op' ''parameters'') = qs" "list_all2 (\<lambda>p q. convert_parameter modelMap p = Inr q) ps qs" by auto
  moreover from this(2) have "map (\<lambda>q. (prop_of q ''name'', prop_of q ''in'', prop_of q ''required'')) qs
      = map (\<lambda>p. (new_name p, new_in p, prop_of p ''required'')) ps"
    by (induction rule: list_all2_induct) (auto dest: convert_parameter_fields)
  ultimately show ?thesis by simp
qed

theorem parameters_converted_witness:
  "\<exists>op'. convert_parameters [] (JArr [JObj [(''name'', JStr ''n''), (''paramType'', JStr ''form''), (''type'', JStr ''int'')]]) [] = Inr op'
     \<and> map (\<lambda>q. prop_of q ''in'') (elements (arg op' ''parameters'')) = [JStr ''formData'']"
proof -
  let ?ps = "[JObj [(''name'', JStr ''n''), (''paramType'', JStr ''form''), (''type'', JStr ''int'')]]"
  let ?op = "[(''parameters'', JArr [JObj [(''name'', JStr ''n''), (''description'', JUndef), (''required'', JUndef),
      (''in'', JStr ''formData''), (''type'', JStr ''integer''), (''format'', JStr ''int32'')]])]"
  have e: "convert_parameters [] (JArr ?ps) [] = Inr ?op" by code_simp
  from parameters_converted [OF e] show ?thesis unfolding e by (simp add: new_in_def)
qed

text \<open>The response messages survive the conversion: with distinct numeric codes every message is filed under
  its code with its description, and the default response of the operation never replaces one of them: it is
  filed under \<open>200\<close>, or under \<open>default\<close> when there is a message for 200.\<close>

theorem responses_converted:
  assumes "responseMessages modelMap existing op = Inr op'" "is_object existing" "arg op ''responses'' = JUndef"
    and msgs: "elements (prop_of existing ''responseMessages'') = msgs"
    and codes: "\<forall>r \<in> set msgs. \<exists>n. prop_of r ''code'' = JNum n" "distinct (map (\<lambda>r. to_str (prop_of r ''code'')) msgs)"
  shows "(\<forall>r \<in> set msgs. prop_of (prop_of (arg op' ''responses'') (to_str (prop_of r ''code''))) ''description'' = prop_of r ''message'')
    \<and> (\<exists>d. default_response modelMap existing = Inr d
         \<and> prop_of (arg op' ''responses'') (if \<exists>r \<in> set msgs. prop_of r ''code'' = JNum 200 then ''default'' else ''200'') = JObj d)"
proof -
  let ?has = "\<exists>r \<in> set msgs. prop_of r ''code'' = JNum 200"
  let ?key = "if ?has then ''default'' else ''200''"
  let ?code = "\<lambda>r. to_str (prop_of r ''code'')"
  obtain d op2 where d: "default_response modelMap existing = Inr d"
    and f: "foldR (\<lambda>r op. bindR (convert_response r) (\<lambda>(code, resp). Inr (set_in ''responses'' code resp op))) msgs
        (ensure ''responses'' (JObj []) op) = Inr op2"
    and op': "op' = set_in ''responses'' ?key (JObj d) op2"
    using assms(1,2) by (auto simp: responseMessages_def Let_def bindR_Inr_iff msgs list_ex_iff)
  have "arg (ensure ''responses'' (JObj []) op) ''responses'' = JObj []" using assms(3) by (simp add: ensure_def)
  moreover have "convert_response r = Inr (c, v) \<Longrightarrow> c = ?code r" for r c v
    by (auto simp: convert_response_def bindR_Inr_iff)
  ultimately obtain inner where inner: "arg op2 ''responses'' = JObj inner"
    "\<forall>r \<in> set msgs. \<forall>c v. convert_response r = Inr (c, v) \<longrightarrow> arg inner c = v"
    using foldR_set_in [OF f, of "[]" ?code] codes(2) by blast
  have res: "arg op' ''responses'' = JObj (obj_set ?key (JObj d) inner)" unfolding op' by (rule arg_set_in [OF inner(1)])
  have "prop_of (arg inner (?code r)) ''description'' = prop_of r ''message'' \<and> ?code r \<noteq> ?key" if r: "r \<in> set msgs" for r
  proof -
    obtain n where n: "prop_of r ''code'' = JNum n" using codes(1) r by blast
    then have nn: "r \<noteq> JUndef" "r \<noteq> JNull" by (auto simp: prop_of_def)
    have "?code r \<noteq> ?key" using n r show_int_200 [of n] show_int_not_default [of n] by auto
    moreover have "prop_of (arg inner (?code r)) ''description'' = prop_of r ''message''"
      using inner(2) r nn by (auto simp: convert_response_def get_prop_def)
    ultimately show ?thesis by blast
  qed
  then show ?thesis using d unfolding res by auto
qed

theorem responses_converted_witness:
  "\<exists>op'. responseMessages [] (JObj [(''type'', JStr ''string''), (''responseMessages'',
        JArr [JObj [(''code'', JNum 200), (''message'', JStr ''ok'')]])]) [] = Inr op'
     \<and> prop_of (prop_of (arg op' ''responses'') (show_int 200)) ''description'' = JStr ''ok''"
proof -
  let ?ex = "JObj [(''type'', JStr ''string''), (''responseMessages'', JArr [JObj [(''code'', JNum 200), (''message'', JStr ''ok'')]])]"
  let ?op = "[(''responses'', JObj [(''200'', JObj [(''description'', JStr ''ok'')]),
      (''default'', JObj [(''schema'', JObj [(''type'', JStr ''string'')])])])]"
  have e: "responseMessages [] ?ex [] = Inr ?op" by code_simp
  from responses_converted [OF e _ _ refl] show ?thesis unfolding e by (simp add: is_object_def elements_def)
qed



text \<open>The tags of a converted document have distinct names, whatever declarations it is made of.\<close>

theorem tags_distinct:
  assumes "foldR convert_declaration docs (sw, mm) = Inr (sw', mm')" "distinct (tag_names sw)"
  shows "distinct (tag_names sw')"
proof -
  have "distinct (tag_names (fst (sw', mm')))"
    by (rule foldR_invariant [OF assms(1), where I = "\<lambda>s. distinct (tag_names (fst s))"])
      (use assms(2) build_declaration_tags in auto)
  then show ?thesis by simp
qed

theorem tags_distinct_witness:
  "\<exists>sw mm. foldR convert_declaration [JObj [(''apis'', JArr [JObj [(''path'', JStr ''/p''), (''operations'', JArr [])]]), (''basePath'', JStr ''/'')]]
      ([], []) = Inr (sw, mm) \<and> distinct (tag_names sw) \<and> length (tag_names sw) = 1"
proof -
  let ?doc = "JObj [(''apis'', JArr [JObj [(''path'', JStr ''/p''), (''operations'', JArr [])]]), (''basePath'', JStr ''/'')]"
  let ?sw = "[(''basePath'', JStr ''/''), (''paths'', JObj [(''/p'', JObj [])]), (''tags'', JArr [JObj [(''name'', JStr ''default'')]]),
      (''definitions'', JObj [])]"
  have e: "foldR convert_declaration [?doc] ([], []) = Inr (?sw, [])" by code_simp
  have "length (tag_names ?sw) = 1" by (simp add: tag_names_def)
  with tags_distinct [OF e] show ?thesis using e by (auto simp: tag_names_def)
qed

text \<open>An OAuth2 definition with exactly one scope loses it: the test for scopes is \<open>i > 0\<close> on the index of the
  last scope.\<close>

lemma oauth_single_scope_lost:
  "securityDefinitions (JObj [(''authorizations'', JObj [(''o'', JObj [(''type'', JStr ''oauth2''),
       (''scopes'', JArr [JObj [(''scope'', JStr ''read''), (''description'', JStr ''d'')]]),
       (''grantTypes'', JObj [(''implicit'', JObj [(''loginEndpoint'', JStr ''u'')])])])])]) []
   = Inr [(''securityDefinitions'', JObj [(''o'', JObj [(''vendorExtensions'', JObj []), (''type'', JStr ''oauth2''),
       (''flow'', JStr ''implicit''), (''authorizationUrl'', JStr ''u'')])])]"
  by code_simp

end
