(* ===== verification/Resolver.thy ===== *)
theory Resolver
  imports JS_Json
begin

text \<open>
  References between documents (module 6 of \<open>swagger-ui.js\<close>, \<open>Resolver\<close>): splitting and joining urls, making
  relative references absolute, collecting and counting references, queueing references for resolution, naming
  inline models, and composing \<open>allOf\<close> models. A document is a JavaScript value; methods that change it in place
  return the changed value. The entries of the resolution table are modelled without the reference to the object
  they came from.
\<close>

section \<open>Urls\<close>

record url_parts =
  proto :: "string option"
  domain :: "string option"
  u_path :: "string option"
  fragment :: "string option"

definition is_letter :: "char \<Rightarrow> bool" where
  "is_letter c \<longleftrightarrow> 97 \<le> code (lower_char c) \<and> code (lower_char c) \<le> 122"

text \<open>The letters of the first match of \<open>/[a-z]+:\/\//i\<close>, which may be anywhere in the text.\<close>

fun exec_proto :: "string \<Rightarrow> string option" where
  "exec_proto [] = None"
| "exec_proto (c # s) =
     (if is_letter c \<and> starts_with ''://'' (dropWhile is_letter (c # s)) then Some (takeWhile is_letter (c # s)) else exec_proto s)"

definition splitUrl :: "string \<Rightarrow> url_parts" where
  "splitUrl url0 =
     (let pr = exec_proto url0;
          url1 = (case pr of None \<Rightarrow> url0 | Some w \<Rightarrow> drop (length w + 1) url0);
          dom = (if take 2 url1 = ''//'' then Some (hd (split_char CHR ''/'' (drop 2 url1))) else None);
          url2 = (case dom of None \<Rightarrow> url1 | Some d \<Rightarrow> drop (2 + length d) url1);
          p = split_char CHR ''#'' url2
      in \<lparr>proto = pr, domain = dom, u_path = (if hd p \<noteq> [] then Some (hd p) else None),
          fragment = (if length p > 1 then Some (js_join ''#'' (tl p)) else None)\<rparr>)"

definition unsplitUrl :: "url_parts \<Rightarrow> string" where
  "unsplitUrl u =
     (let r0 = (case u_path u of None \<Rightarrow> [] | Some p \<Rightarrow> p);
          r1 = (case fragment u of None \<Rightarrow> r0 | Some f \<Rightarrow> r0 @ ''#'' @ f)
      in case domain u of
           None \<Rightarrow> r1
         | Some d \<Rightarrow>
             let r2 = ''//'' @ d @ ''/'' @ (if take 1 r1 = ''/'' then drop 1 r1 else r1)
             in case proto u of None \<Rightarrow> r2 | Some pr \<Rightarrow> pr @ '':'' @ r2)"

text \<open>The leading \<open>.\<close> and \<open>..\<close> of a relative path; \<open>path.pop()\<close> on an empty array does nothing.\<close>

fun go_up :: "string list \<Rightarrow> string list \<Rightarrow> string list" where
  "go_up path (s # relpath) =
     (if s = ''..'' then go_up (butlast path) relpath else if s = ''.'' then go_up path relpath else path @ s # relpath)"
| "go_up path [] = path"

definition joinUrl :: "string \<Rightarrow> string \<Rightarrow> string" where
  "joinUrl base rel =
     (let relsp = splitUrl rel; result = splitUrl base
      in if domain relsp \<noteq> None then rel
         else case u_path relsp of
             None \<Rightarrow> unsplitUrl (result\<lparr>fragment := fragment relsp\<rparr>)
           | Some rp \<Rightarrow>
               if take 1 rp = ''/'' then unsplitUrl (result\<lparr>u_path := Some rp, fragment := fragment relsp\<rparr>)
               else
                 let path = (case u_path result of None \<Rightarrow> [] | Some p \<Rightarrow> split_char CHR ''/'' p)
                 in unsplitUrl (result\<lparr>u_path := Some (js_join ''/'' (go_up (butlast path) (split_char CHR ''/'' rp))),
                                       fragment := fragment relsp\<rparr>))"

section \<open>References in a document\<close>

text \<open>Makes every relative \<open>$ref\<close> in the value absolute.\<close>

function retain_all :: "string \<Rightarrow> jsv \<Rightarrow> jsv" where
  "retain_all root (JObj o1) =
     JObj (map (\<lambda>(key, item). (key, case item of JStr s \<Rightarrow> if key = ''$ref'' then JStr (joinUrl root s) else item | _ \<Rightarrow> retain_all root item)) o1)"
| "retain_all root (JArr xs) = JArr (map (retain_all root) xs)"
| "retain_all root JUndef = JUndef"
| "retain_all root JNull = JNull"
| "retain_all root (JBool b) = JBool b"
| "retain_all root (JNum n) = JNum n"
| "retain_all root (JStr s) = JStr s"
  by pat_completeness auto
termination
  by (relation "measure (\<lambda>(root, v). size v)") (auto dest: size_entry size_elem)

definition retainRoot :: "string \<Rightarrow> jsv \<Rightarrow> string \<Rightarrow> jsv" where
  "retainRoot origKey obj root =
     (if is_object obj then retain_all root obj
      else case obj of JStr s \<Rightarrow> if origKey = ''$ref'' then JStr (joinUrl root s) else obj | _ \<Rightarrow> obj)"

text \<open>The references of a value, each once, in the order in which they are met.\<close>

function getRefs :: "jsv \<Rightarrow> unit obj" where
  "getRefs v = fold (\<lambda>(key, item) out.
       case item of
         JStr s \<Rightarrow> if key = ''$ref'' then obj_set s () out else out
       | _ \<Rightarrow> if is_object item then obj_copy (getRefs item) out else out) (entries_of v) []"
  by pat_completeness auto
termination
  by (relation "measure size") (auto dest!: size_entries_of)

declare getRefs.simps [simp del]

text \<open>\<open>v[k]\<close> for any value: the elements of an array and the characters of a string have their index as key.\<close>

definition js_index :: "jsv \<Rightarrow> string \<Rightarrow> jsv" where
  "js_index v k = (case v of
      JObj o1 \<Rightarrow> arg o1 k
    | JArr xs \<Rightarrow> if k = ''length'' then JNum (int (length xs)) else arg (entries_of v) k
    | JStr s \<Rightarrow> if k = ''length'' then JNum (int (length s)) else arg (entries_of v) k
    | _ \<Rightarrow> JUndef)"

text \<open>Whether the path of a local reference leads to something; reading from \<open>null\<close> throws.\<close>

fun walk :: "string list \<Rightarrow> jsv \<Rightarrow> bool result" where
  "walk [] obj = Inr True"
| "walk (key # ks) obj =
     (if key = [] then walk ks obj
      else if obj = JNull \<or> obj = JUndef then Inl null_error
      else if js_index obj key = JUndef then Inr False
      else walk ks (js_index obj key))"

definition countUnresolvedRefs :: "jsv \<Rightarrow> nat result" where
  "countUnresolvedRefs spec =
     (let refs = obj_keys (getRefs spec);
          local = filter (starts_with ''#'') refs; others = filter (\<lambda>r. \<not> starts_with ''#'' r) refs
      in foldR (\<lambda>r n. bindR (walk (split_char CHR ''/'' (drop 1 r)) spec) (\<lambda>ok. Inr (if ok then n else n + 1)))
           local (length others))"

section \<open>Names of inline models\<close>

lemma is_object_key: "is_object (arg defs k) \<Longrightarrow> k \<in> set (obj_keys defs)"
  using obj_get_None_iff [of defs k] by (auto simp: arg_def is_object_def split: option.splits)

interpretation definition_names: numbered_names base "\<lambda>k. is_object (arg defs k)" for base defs
  by unfold_locales (rule finite_subset [of _ "set (obj_keys defs)"], auto dest: is_object_key)

text \<open>The loop ends because a document has finitely many definitions.\<close>

function unique_from :: "jsv obj \<Rightarrow> string \<Rightarrow> nat \<Rightarrow> string" where
  "unique_from defs base count =
     (if is_object (arg defs (numbered base count)) then unique_from defs base (count + 1) else numbered base count)"
  by pat_completeness auto
termination
  using definition_names.card_from_less
  by (relation "measure (\<lambda>(defs, base, count). card {k. count \<le> k \<and> is_object (arg defs (numbered base k))})") auto

declare unique_from.simps [simp del]

definition uniqueName :: "jsv obj \<Rightarrow> string \<Rightarrow> string" where
  "uniqueName defs base = (if is_object (arg defs base) then unique_from defs base 0 else base)"

section \<open>The resolution table\<close>

datatype resolve_as = AsRef | AsInline

record table_entry =
  resolveAs :: resolve_as
  e_root :: string
  e_key :: string
  e_location :: jsv

definition is_http :: "string \<Rightarrow> bool" where
  "is_http s \<longleftrightarrow> starts_with ''http:'' s \<or> starts_with ''https:'' s"

text \<open>The directory of a url, with its slash.\<close>

definition dir_of :: "string \<Rightarrow> string" where
  "dir_of root = concat (map (\<lambda>s. s @ ''/'') (butlast (split_char CHR ''/'' root)))"

definition ref_entry :: "string \<Rightarrow> string \<Rightarrow> table_entry" where
  "ref_entry root ref =
     (if CHR ''#'' \<in> set ref then
        (let parts = split_char CHR ''#'' ref; p0 = hd parts; loc = JStr (parts ! 1)
         in if p0 \<noteq> [] \<and> starts_with ''/'' ref then \<lparr>resolveAs = AsRef, e_root = root, e_key = ref, e_location = loc\<rparr>
            else if p0 \<noteq> [] \<and> is_http p0 then \<lparr>resolveAs = AsRef, e_root = p0, e_key = parts ! 1, e_location = loc\<rparr>
            else if p0 \<noteq> [] then \<lparr>resolveAs = AsRef, e_root = dir_of root @ p0, e_key = ref, e_location = loc\<rparr>
            else \<lparr>resolveAs = AsRef, e_root = root, e_key = ref, e_location = loc\<rparr>)
      else if is_http ref then \<lparr>resolveAs = AsRef, e_root = ref, e_key = ref, e_location = JStr []\<rparr>
      else \<lparr>resolveAs = AsRef, e_root = dir_of root @ ref, e_key = ref, e_location = JStr []\<rparr>)"

record resolving =
  table :: "table_entry list"
  definitions :: "jsv obj"

text \<open>An object schema without a name becomes a definition, which it then refers to.\<close>

definition name_inline :: "jsv obj \<Rightarrow> resolving \<Rightarrow> jsv \<times> resolving" where
  "name_inline p st =
     (let title = arg p ''title'';
          name = (if truthy title then uniqueName (definitions st) (to_str title) else uniqueName (definitions st) ''inline_model'');
          p1 = obj_del ''title'' p
      in (JObj (obj_del ''properties'' (obj_del ''type'' (obj_set ''$ref'' (JStr (''#/definitions/'' @ name)) p1))),
          st\<lparr>definitions := obj_set name (JObj p1) (definitions st)\<rparr>))"

function resolveTo :: "string \<Rightarrow> jsv \<Rightarrow> resolving \<Rightarrow> (jsv \<times> resolving) result" where
  "resolveTo root property st =
     (case prop_of property ''$ref'' of
        JStr ref \<Rightarrow> Inr (property, st\<lparr>table := table st @ [ref_entry root ref]\<rparr>)
      | r \<Rightarrow>
          if property = JUndef \<or> property = JNull then Inl null_error
          else if r \<noteq> JUndef \<and> r \<noteq> JNull then Inl (no_method ''indexOf'')
          else if prop_of property ''type'' = JStr ''array'' then
            (if prop_of property ''items'' = JUndef then Inl null_error
             else bindR (resolveTo root (prop_of property ''items'') st) (\<lambda>(it, st').
               Inr (case property of JObj p \<Rightarrow> JObj (obj_set ''items'' it p) | v \<Rightarrow> v, st')))
          else case property of
              JObj p \<Rightarrow> if truthy (arg p ''properties'') \<or> truthy (arg p ''additionalProperties'') then Inr (name_inline p st)
                        else Inr (property, st)
            | v \<Rightarrow> Inr (v, st))"
  by pat_completeness auto
termination
  by (relation "measure (\<lambda>(root, property, st). size property)") (auto intro!: size_prop_of)

declare resolveTo.simps [simp del]

section \<open>Inline references\<close>

text \<open>\<open>../\<close> at the beginning of a reference: every empty piece between them cuts one segment off the root, and
  the last segment of what remains is dropped too.\<close>

definition trim_root :: "string \<Rightarrow> string \<Rightarrow> string \<times> string" where
  "trim_root root ref =
     (let p = split_str ''../'' ref;
          (p2, ref') = fold (\<lambda>piece (p2, r). if piece = [] then (butlast p2, r) else (p2, r @ piece)) p (split_char CHR ''/'' root, [])
      in (js_join ''/'' (butlast p2), ref'))"

text \<open>The scheme and host of \<open>/^https?:\/\/([^\/?#]+)(?:[\/?#]|$)/i\<close>, with the delimiter that follows.\<close>

definition host_match :: "string \<Rightarrow> string option" where
  "host_match root =
     (let l = to_lower root; n = (if starts_with ''http://'' l then 7 else if starts_with ''https://'' l then 8 else 0);
          h = takeWhile (\<lambda>c. c \<notin> set ''/?#'') (drop n root)
      in if n = 0 \<or> h = [] then None else Some (take (n + length h + 1) root))"

definition hash_root :: "bool \<Rightarrow> string \<Rightarrow> string \<Rightarrow> (string \<times> jsv) result" where
  "hash_root rootTrimmed root ref =
     (let rs = split_char CHR ''#'' ref; location = JStr (rs ! 1)
      in if starts_with ''/'' ref then
           (let p = split_str ''//'' root
            in if length p < 2 then Inl null_error
               else Inr (hd p @ ''//'' @ hd (split_char CHR ''/'' (p ! 1)) @ hd rs, location))
         else if hd rs \<noteq> [] then
           Inr ((if rootTrimmed then root else js_join ''/'' (butlast (split_char CHR ''/'' root))) @ ''/'' @ hd rs, location)
         else Inr (root, location))"

definition inline_entry :: "string \<Rightarrow> string \<Rightarrow> jsv \<Rightarrow> table_entry result" where
  "inline_entry root0 key location0 =
     (let rootTrimmed = starts_with ''../'' key;
          (root1, ref) = (if rootTrimmed then trim_root root0 key else (root0, key))
      in bindR (if CHR ''#'' \<in> set ref then hash_root rootTrimmed root1 ref else Inr (root1, location0)) (\<lambda>(root2, location1).
           let parts = split_char CHR ''#'' ref;
               entry = (\<lambda>r l. \<lparr>resolveAs = AsInline, e_root = r, e_key = key, e_location = l\<rparr>)
           in Inr (if is_http ref then
                     (if CHR ''#'' \<in> set ref then entry (hd parts) (JStr (parts ! 1)) else entry ref (JStr []))
                   else if starts_with ''#'' ref then entry root2 (JStr (parts ! 1))
                   else if starts_with ''/'' ref \<and> CHR ''#'' \<notin> set ref then
                     (case host_match root2 of
                        Some m \<Rightarrow> entry (m @ drop 1 ref) (JStr [])
                      | None \<Rightarrow> entry root2 (JStr ref))
                   else entry root2 location1)))"

definition resolveInline :: "string \<Rightarrow> jsv \<Rightarrow> jsv \<Rightarrow> resolving \<Rightarrow> (jsv \<times> resolving) result" where
  "resolveInline root property location st =
     bindR (get_prop property ''$ref'') (\<lambda>r.
       if truthy r then
         (case r of
            JStr key \<Rightarrow> bindR (inline_entry root key location) (\<lambda>e. Inr (property, st\<lparr>table := table st @ [e]\<rparr>))
          | _ \<Rightarrow> Inl (no_method ''indexOf''))
       else if prop_of property ''type'' = JStr ''array'' then
         bindR (resolveTo root (prop_of property ''items'') st) (\<lambda>(it, st').
           Inr (case property of JObj p \<Rightarrow> JObj (obj_set ''items'' it p) | v \<Rightarrow> v, st'))
       else Inr (property, st))"

section \<open>Looking up a reference\<close>

text \<open>A segment of a JSON pointer is unescaped only when it contains \<open>~1\<close>.\<close>

definition unescape_segment :: "string \<Rightarrow> string" where
  "unescape_segment seg =
     (if index_of ''~1'' seg \<noteq> -1
      then (let s = js_join ''/'' (split_str ''~1'' (js_join ''~'' (split_str ''~0'' seg))) in if take 1 s = ''/'' then s else ''/'' @ s)
      else seg)"

fun follow :: "bool \<Rightarrow> string list \<Rightarrow> jsv \<Rightarrow> jsv" where
  "follow several [] location = location"
| "follow several (p # ps) location =
     (let segment = unescape_segment p
      in if location = JUndef \<or> location = JNull then location
         else if segment = [] \<and> ps = [] \<and> several then JNull
         else follow several ps (if segment \<noteq> [] then js_index location segment else location))"

datatype resolution = Resolved string jsv | Unresolved

definition resolveItem :: "jsv \<Rightarrow> string \<Rightarrow> string \<Rightarrow> resolution" where
  "resolveItem spec path key =
     (let parts = split_char CHR ''/'' path;
          location = (if path \<noteq> [] then follow (length parts > 1) parts spec else spec);
          name0 = last (split_char CHR ''/'' key);
          name = (if CHR ''#'' \<in> set name0 then split_char CHR ''#'' name0 ! 1 else name0)
      in if location \<noteq> JNull \<and> location \<noteq> JUndef then Resolved name location else Unresolved)"

section \<open>Composed models\<close>

text \<open>The two loops that remove later duplicates.\<close>

definition dedup :: "'a list \<Rightarrow> 'a list" where
  "dedup xs = rev (remdups (rev xs))"

definition mark_all :: "jsv \<Rightarrow> jsv \<Rightarrow> jsv result" where
  "mark_all source props = (case props of
      JObj o1 \<Rightarrow> bindR (mapR (\<lambda>(name, p). bindR (put_prop ''x-resolved-from'' source p) (\<lambda>q. Inr (name, q))) o1) (\<lambda>o2. Inr (JObj o2))
    | v \<Rightarrow> Inr v)"

definition merge_properties :: "jsv \<Rightarrow> jsv \<Rightarrow> jsv obj \<Rightarrow> jsv obj result" where
  "merge_properties source props out =
     foldR (\<lambda>(name, p) o2.
         bindR (get_prop p ''x-resolved-from'') (\<lambda>rf.
         bindR (put_prop ''x-resolved-from'' (if rf = JUndef \<or> rf = JStr ''self'' then source else rf) p) (\<lambda>q.
         bindR (put_prop name q (arg o2 ''properties'')) (\<lambda>ps. Inr (obj_set ''properties'' ps o2)))))
       (entries_of props) out"

definition merge_part :: "jsv \<Rightarrow> string \<times> jsv \<Rightarrow> jsv obj \<Rightarrow> jsv obj result" where
  "merge_part source = (\<lambda>(part, v) out.
     if obj_get out part = None then
       bindR (if part = ''properties'' then mark_all source v else Inr v) (\<lambda>w. Inr (obj_set part w out))
     else if part = ''properties'' then merge_properties source v out
     else if part = ''required'' then
       (case arg out ''required'' of
          JArr xs \<Rightarrow> Inr (obj_set ''required'' (JArr (dedup (xs @ (case v of JArr ys \<Rightarrow> ys | y \<Rightarrow> [y])))) out)
        | _ \<Rightarrow> Inl (no_method ''concat''))
     else if part = ''x-resolved-from'' then
       (case arg out ''x-resolved-from'' of
          JArr xs \<Rightarrow> Inr (obj_set ''x-resolved-from'' (JArr (xs @ [source])) out)
        | _ \<Rightarrow> Inl (no_method ''push''))
     else Inr out)"

definition merge_component :: "jsv \<Rightarrow> jsv obj \<Rightarrow> jsv obj result" where
  "merge_component component out =
     bindR (get_prop component ''x-resolved-from'') (\<lambda>rf.
     bindR (if rf = JUndef then Inr (JStr ''self'') else if rf = JNull then Inl null_error else Inr (js_index rf ''0'')) (\<lambda>source.
       foldR (merge_part source) (entries_of component) out))"

definition compose :: "jsv \<Rightarrow> jsv result" where
  "compose item = (case item of
      JObj o1 \<Rightarrow>
        (case arg o1 ''allOf'' of
           JArr allOf \<Rightarrow> bindR (foldR merge_component allOf (obj_set ''x-composed'' (JBool True) (obj_del ''allOf'' o1))) (\<lambda>out. Inr (JObj out))
         | _ \<Rightarrow> Inr item)
    | _ \<Rightarrow> Inr item)"

definition null_type_error :: js_error where
  "null_type_error = TypeError ''Swagger 2.0 does not support null types''"

function resolveAllOf :: "jsv \<Rightarrow> jsv result" where
  "resolveAllOf (JObj o1) =
     bindR (mapR (\<lambda>(key, item). if item = JNull then Inl null_type_error
                    else bindR (resolveAllOf item) (\<lambda>i. bindR (compose i) (\<lambda>j. Inr (key, j)))) o1) (\<lambda>o2. Inr (JObj o2))"
| "resolveAllOf (JArr xs) =
     bindR (mapR (\<lambda>item. if item = JNull then Inl null_type_error else bindR (resolveAllOf item) compose) xs) (\<lambda>ys. Inr (JArr ys))"
| "resolveAllOf JUndef = Inr JUndef"
| "resolveAllOf JNull = Inr JNull"
| "resolveAllOf (JBool b) = Inr (JBool b)"
| "resolveAllOf (JNum n) = Inr (JNum n)"
| "resolveAllOf (JStr s) = Inr (JStr s)"
  by pat_completeness auto
termination
  by (relation "measure size") (auto dest: size_entry size_elem)

section \<open>Splitting and joining\<close>

text \<open>Urls with a scheme and a host: what \<open>splitUrl\<close> takes apart is what \<open>unsplitUrl\<close> puts together.\<close>

definition letters :: "string \<Rightarrow> bool" where
  "letters w \<longleftrightarrow> w \<noteq> [] \<and> list_all is_letter w"

definition abs_parts :: "url_parts \<Rightarrow> bool" where
  "abs_parts u \<longleftrightarrow> (\<exists>w d p. proto u = Some w \<and> letters w \<and> domain u = Some d \<and> CHR ''/'' \<notin> set d
     \<and> u_path u = Some (CHR ''/'' # p) \<and> CHR ''#'' \<notin> set p)"

lemma letter_colon: "\<not> is_letter CHR '':''"
  by (simp add: is_letter_def lower_char_def)

lemma exec_proto_letters: "letters w \<Longrightarrow> exec_proto (w @ ''://'' @ s) = Some w"
proof -
  assume w: "letters w"
  then obtain c v where c: "w = c # v" by (cases w) (auto simp: letters_def)
  have "dropWhile is_letter (w @ ''://'' @ s) = ''://'' @ s" "takeWhile is_letter (w @ ''://'' @ s) = w"
    using w letter_colon by (auto simp: letters_def list_all_iff dropWhile_append takeWhile_append)
  moreover have "is_letter c" using w c by (simp add: letters_def)
  ultimately show ?thesis using starts_with_append [of "''://''" s] by (simp only: c append_Cons exec_proto.simps if_True simp_thms)
qed

lemma split_url_abs:
  assumes "letters w" "CHR ''/'' \<notin> set d"
  shows "splitUrl (w @ ''://'' @ d @ CHR ''/'' # r) =
    \<lparr>proto = Some w, domain = Some d, u_path = (if hd (split_char CHR ''#'' (CHR ''/'' # r)) \<noteq> [] then Some (hd (split_char CHR ''#'' (CHR ''/'' # r))) else None),
     fragment = (if length (split_char CHR ''#'' (CHR ''/'' # r)) > 1 then Some (js_join ''#'' (tl (split_char CHR ''#'' (CHR ''/'' # r)))) else None)\<rparr>"
proof -
  have e: "exec_proto (w @ ''://'' @ d @ CHR ''/'' # r) = Some w" using exec_proto_letters [OF assms(1)] by blast
  have d1: "drop (length w + 1) (w @ ''://'' @ d @ CHR ''/'' # r) = ''//'' @ d @ CHR ''/'' # r" by simp
  have d2: "hd (split_char CHR ''/'' (d @ CHR ''/'' # r)) = d" using split_char_first [OF assms(2), of r] by simp
  show ?thesis unfolding splitUrl_def Let_def e option.case d1 by (simp add: d2)
qed

lemma split_hash_path: "CHR ''#'' \<notin> set p \<Longrightarrow> split_char CHR ''#'' (p @ CHR ''#'' # f) = p # split_char CHR ''#'' f"
  by (rule split_char_first)

lemma split_unsplit:
  assumes "abs_parts u"
  shows "splitUrl (unsplitUrl u) = u"
proof -
  from assms obtain w d p where u: "proto u = Some w" "letters w" "domain u = Some d" "CHR ''/'' \<notin> set d"
    "u_path u = Some (CHR ''/'' # p)" "CHR ''#'' \<notin> set (CHR ''/'' # p)" by (auto simp: abs_parts_def)
  show ?thesis
  proof (cases "fragment u")
    case None
    have "unsplitUrl u = w @ ''://'' @ d @ CHR ''/'' # p" using u None by (simp add: unsplitUrl_def)
    moreover have "split_char CHR ''#'' (CHR ''/'' # p) = [CHR ''/'' # p]" using u(6) by (rule split_char_absent)
    ultimately show ?thesis using split_url_abs [OF u(2,4), of p] u None by (cases u) simp
  next
    case (Some f)
    have "unsplitUrl u = w @ ''://'' @ d @ CHR ''/'' # (p @ ''#'' @ f)" using u Some by (simp add: unsplitUrl_def)
    moreover have "split_char CHR ''#'' (CHR ''/'' # (p @ ''#'' @ f)) = (CHR ''/'' # p) # split_char CHR ''#'' f"
      using split_hash_path [OF u(6), of f] by simp
    ultimately show ?thesis using split_url_abs [OF u(2,4), of "p @ ''#'' @ f"] u Some join_split_char by (cases u) simp
  qed
qed

lemma split_char_hd_tl: "split_char c s = takeWhile (\<lambda>x. x \<noteq> c) s # tl (split_char c s)"
  by (cases "split_char c s") (simp_all add: hd_split_char [symmetric])

text \<open>Resolving against a url with a scheme and a host.\<close>

definition abs_url :: "string \<Rightarrow> bool" where
  "abs_url root \<longleftrightarrow> (\<exists>w d r. root = w @ ''://'' @ d @ r \<and> letters w \<and> CHR ''/'' \<notin> set d \<and> (r = [] \<or> hd r = CHR ''/''))"

lemma abs_urlI: "letters w \<Longrightarrow> CHR ''/'' \<notin> set d \<Longrightarrow> abs_url (w @ ''://'' @ d @ CHR ''/'' # r)"
  unfolding abs_url_def by (intro exI [of _ w] exI [of _ d] exI [of _ "CHR ''/'' # r"]) simp

lemma split_abs_url:
  assumes "abs_url root"
  shows "\<exists>w d. proto (splitUrl root) = Some w \<and> letters w \<and> domain (splitUrl root) = Some d \<and> CHR ''/'' \<notin> set d"
proof -
  from assms obtain w d r where r: "root = w @ ''://'' @ d @ r" "letters w" "CHR ''/'' \<notin> set d" "r = [] \<or> hd r = CHR ''/''"
    by (auto simp: abs_url_def)
  have e: "exec_proto root = Some w" unfolding r(1) using exec_proto_letters [OF r(2)] by blast
  have d1: "drop (length w + 1) root = ''//'' @ d @ r" unfolding r(1) by simp
  have d2: "hd (split_char CHR ''/'' (d @ r)) = d"
  proof (cases r)
    case Nil
    then show ?thesis using split_char_absent [OF r(3)] by simp
  next
    case (Cons x s)
    then show ?thesis using r(4) split_char_first [OF r(3), of s] by simp
  qed
  show ?thesis using r(2,3) unfolding splitUrl_def Let_def e option.case d1 by (simp add: d2)
qed

lemma unsplit_abs:
  assumes "proto u = Some w" "domain u = Some d"
  shows "\<exists>r. unsplitUrl u = w @ ''://'' @ d @ CHR ''/'' # r"
  using assms by (auto simp: unsplitUrl_def Let_def)

lemma joinUrl_abs:
  assumes "abs_url root"
  shows "abs_url (joinUrl root rel) \<or> domain (splitUrl rel) \<noteq> None \<and> joinUrl root rel = rel"
proof (cases "domain (splitUrl rel) = None")
  case True
  obtain w d where wd: "proto (splitUrl root) = Some w" "letters w" "domain (splitUrl root) = Some d" "CHR ''/'' \<notin> set d"
    using split_abs_url [OF assms] by blast
  have "\<exists>u. joinUrl root rel = unsplitUrl u \<and> proto u = Some w \<and> domain u = Some d"
    using True wd by (auto simp: joinUrl_def Let_def split: option.splits)
  then obtain u where u: "joinUrl root rel = unsplitUrl u" "proto u = Some w" "domain u = Some d" by blast
  from unsplit_abs [OF u(2,3)] u(1) obtain r where "joinUrl root rel = w @ ''://'' @ d @ CHR ''/'' # r" by auto
  then show ?thesis using abs_urlI [OF wd(2,4)] by simp
next
  case False
  then show ?thesis by (simp add: joinUrl_def)
qed

lemma joinUrl_idem:
  assumes "abs_url root"
  shows "joinUrl root (joinUrl root rel) = joinUrl root rel"
proof -
  have "domain (splitUrl (joinUrl root rel)) \<noteq> None" using joinUrl_abs [OF assms, of rel] split_abs_url by fastforce
  then show ?thesis by (simp add: joinUrl_def [of root "joinUrl root rel"])
qed

lemma retain_all_idem:
  "abs_url root \<Longrightarrow> retain_all root (retain_all root v) = retain_all root v"
proof (induction root v rule: retain_all.induct)
  case (1 root o1)
  have "(case item' of JStr s \<Rightarrow> if key = ''$ref'' then JStr (joinUrl root s) else item' | _ \<Rightarrow> retain_all root item') = item'"
    if "(key, item) \<in> set o1" "item' = (case item of JStr s \<Rightarrow> if key = ''$ref'' then JStr (joinUrl root s) else item | _ \<Rightarrow> retain_all root item)"
    for key item item'
    using 1 that joinUrl_idem [of root] by (cases item) auto
  then show ?case by (auto simp: comp_def)
qed auto

section \<open>Relative paths\<close>

lemma butlast_pow: "(butlast ^^ n) xs = take (length xs - n) xs"
  by (induction n) (simp_all add: butlast_take butlast_conv_take)

lemma go_up_dots:
  assumes "rs \<noteq> []" "hd rs \<noteq> ''..''" "hd rs \<noteq> ''.''"
  shows "go_up path (replicate n ''..'' @ rs) = take (length path - n) path @ rs"
proof -
  have "go_up path (replicate n ''..'' @ rs) = (butlast ^^ n) path @ rs"
  proof (induction n arbitrary: path)
    case 0
    then show ?case using assms by (cases rs) auto
  next
    case (Suc n)
    then show ?case by (simp add: funpow_swap1)
  qed
  then show ?thesis by (simp only: butlast_pow)
qed

lemma exec_proto_None: "CHR '':'' \<notin> set s \<Longrightarrow> exec_proto s = None"
proof (induction s)
  case (Cons c s)
  have "\<not> starts_with ''://'' (dropWhile is_letter (c # s))"
  proof
    assume "starts_with ''://'' (dropWhile is_letter (c # s))"
    then have "CHR '':'' \<in> set (dropWhile is_letter (c # s))" by (auto simp: starts_with_iff)
    then show False using Cons.prems set_dropWhileD by metis
  qed
  then show ?case using Cons by auto
qed simp

definition plain_segment :: "string \<Rightarrow> bool" where
  "plain_segment s \<longleftrightarrow> s \<noteq> [] \<and> CHR ''/'' \<notin> set s \<and> CHR ''#'' \<notin> set s \<and> CHR '':'' \<notin> set s"

lemma split_relative:
  assumes "ws \<noteq> []" "\<forall>s \<in> set ws. plain_segment s"
  shows "splitUrl (js_join ''/'' ws) = \<lparr>proto = None, domain = None, u_path = Some (js_join ''/'' ws), fragment = None\<rparr>"
    and "split_char CHR ''/'' (js_join ''/'' ws) = ws" and "take 1 (js_join ''/'' ws) \<noteq> ''/''"
proof -
  let ?r = "js_join ''/'' ws"
  have "set ?r \<subseteq> {CHR ''/''} \<union> \<Union> (set ` set ws)" using set_js_join [of "''/''" ws] by simp
  then have no: "CHR '':'' \<notin> set ?r" "CHR ''#'' \<notin> set ?r" using assms(2) by (auto simp: plain_segment_def)
  show w: "split_char CHR ''/'' ?r = ws" using assms by (intro split_join_char) (auto simp: plain_segment_def)
  have h: "hd ws \<noteq> []" using assms by (auto simp: plain_segment_def)
  have hd: "takeWhile (\<lambda>x. x \<noteq> CHR ''/'') ?r \<noteq> []" using h hd_split_char [of "CHR ''/''" ?r] w by simp
  then obtain c s where c: "?r = c # s" "c \<noteq> CHR ''/''" by (cases ?r) (auto split: if_splits)
  then show "take 1 ?r \<noteq> ''/''" by simp
  have "take 2 ?r \<noteq> ''//''" using c by simp
  then show "splitUrl ?r = \<lparr>proto = None, domain = None, u_path = Some ?r, fragment = None\<rparr>"
    unfolding splitUrl_def Let_def exec_proto_None [OF no(1)] option.case
    using split_char_absent [OF no(2)] c(1) by (simp only: if_False option.case) simp
qed

lemma js_join_empty_head: "ws \<noteq> [] \<Longrightarrow> js_join ''/'' ([] # ws) = CHR ''/'' # js_join ''/'' ws"
  by (simp add: js_join_Cons)

lemma join_relative:
  assumes "letters w" "CHR ''/'' \<notin> set d" "segs \<noteq> []" "\<forall>s \<in> set segs. plain_segment s"
    and rs: "rs \<noteq> []" "\<forall>s \<in> set rs. plain_segment s" "hd rs \<noteq> ''..''" "hd rs \<noteq> ''.''"
  shows "joinUrl (w @ ''://'' @ d @ CHR ''/'' # js_join ''/'' segs) (js_join ''/'' (replicate n ''..'' @ rs))
    = w @ ''://'' @ d @ CHR ''/'' # js_join ''/'' (take (length segs - 1 - n) segs @ rs)"
proof -
  let ?ws = "replicate n ''..'' @ rs" and ?path = "CHR ''/'' # js_join ''/'' segs"
  have ws: "?ws \<noteq> []" "\<forall>s \<in> set ?ws. plain_segment s" using rs by (auto simp: plain_segment_def)
  note rel = split_relative [OF ws]
  have "set (js_join ''/'' segs) \<subseteq> {CHR ''/''} \<union> \<Union> (set ` set segs)" using set_js_join [of "''/''" segs] by simp
  then have "CHR ''#'' \<notin> set ?path" using assms(4) by (auto simp: plain_segment_def)
  then have base: "splitUrl (w @ ''://'' @ d @ ?path) = \<lparr>proto = Some w, domain = Some d, u_path = Some ?path, fragment = None\<rparr>"
    using split_url_abs [OF assms(1,2), of "js_join ''/'' segs"] split_char_absent [of "CHR ''#''" ?path] by simp
  have "split_char CHR ''/'' ([] @ ?path) = [] # split_char CHR ''/'' (js_join ''/'' segs)" by (rule split_char_first) simp
  then have sp: "split_char CHR ''/'' ?path = [] # segs" using split_relative(2) [OF assms(3,4)] by simp
  define k where "k = length segs - 1 - n"
  define up where "up = go_up (butlast ([] # segs)) ?ws"
  have up: "up = take (length segs - n) ([] # butlast segs) @ rs"
    unfolding up_def using assms(3) go_up_dots [OF rs(1,3,4), of "[] # butlast segs" n] by simp
  have "unsplitUrl \<lparr>proto = Some w, domain = Some d, u_path = Some (js_join ''/'' up), fragment = None\<rparr>
      = w @ ''://'' @ d @ CHR ''/'' # js_join ''/'' (take k segs @ rs)"
  proof (cases "length segs - n")
    case 0
    then have "up = rs" "k = 0" using up by (auto simp: k_def)
    then show ?thesis using split_relative(3) [OF rs(1,2)] by (simp add: unsplitUrl_def)
  next
    case (Suc j)
    then have "k = j" by (simp add: k_def)
    moreover have "j < length segs" using Suc by simp
    ultimately have "take j (butlast segs) = take k segs" using take_butlast by simp
    then have "up = [] # take k segs @ rs" using up Suc by simp
    then show ?thesis using js_join_empty_head [of "take k segs @ rs"] rs(1) by (simp add: unsplitUrl_def)
  qed
  moreover have "joinUrl (w @ ''://'' @ d @ ?path) (js_join ''/'' ?ws)
      = unsplitUrl \<lparr>proto = Some w, domain = Some d, u_path = Some (js_join ''/'' up), fragment = None\<rparr>"
    unfolding joinUrl_def Let_def base rel(1) using rel(2,3) sp by (simp add: up_def del: butlast.simps)
  ultimately show ?thesis unfolding k_def by simp
qed

section \<open>Fresh names\<close>

lemma unique_from_fresh: "\<not> is_object (arg defs (unique_from defs base count))"
  by (induction defs base count rule: unique_from.induct) (subst unique_from.simps, simp)

lemma uniqueName_fresh: "\<not> is_object (arg defs (uniqueName defs base))"
  by (simp add: uniqueName_def unique_from_fresh)

definition extends :: "resolving \<Rightarrow> resolving \<Rightarrow> bool" where
  "extends st st' \<longleftrightarrow> (\<exists>es. table st' = table st @ es)
     \<and> (\<forall>k. is_object (arg (definitions st) k) \<longrightarrow> arg (definitions st') k = arg (definitions st) k)"

lemma name_inline_extends: "extends st (snd (name_inline p st))"
  using uniqueName_fresh [of "definitions st"] by (auto simp: extends_def name_inline_def Let_def)

lemma resolveTo_extends: "resolveTo root property st = Inr (p', st') \<Longrightarrow> extends st st'"
proof (induction root property st arbitrary: p' st' rule: resolveTo.induct)
  case (1 root property st)
  let ?ref = "prop_of property ''$ref''" and ?items = "prop_of property ''items''"
  note eq = "1.prems" [unfolded resolveTo.simps [of root property st]]
  show ?case
  proof (cases "\<exists>s. ?ref = JStr s")
    case True
    then show ?thesis using eq by (auto simp: extends_def)
  next
    case False
    show ?thesis
    proof (cases "?ref \<in> {JUndef, JNull} \<and> property \<notin> {JUndef, JNull} \<and> prop_of property ''type'' = JStr ''array'' \<and> ?items \<noteq> JUndef")
      case True
      then obtain it where "resolveTo root ?items st = Inr (it, st')" using eq by (auto simp: bindR_Inr_iff)
      then show ?thesis using "1.IH" True by auto
    next
      case nested: False
      then have "st' = st \<or> (\<exists>p q. name_inline p st = (q, st'))"
        using eq False by (auto split: jsv.splits if_splits)
      then show ?thesis using name_inline_extends [of st] by (auto simp: extends_def) (metis snd_conv)+
    qed
  qed
qed

section \<open>Composition\<close>

lemma set_dedup: "set (dedup xs) = set xs"
  by (simp add: dedup_def)

definition required_of :: "jsv \<Rightarrow> jsv set" where
  "required_of v = set (elements v)"

definition names_of :: "jsv \<Rightarrow> string set" where
  "names_of v = (case v of JObj o1 \<Rightarrow> set (obj_keys o1) | _ \<Rightarrow> {})"

lemma arg_eq_get: "arg o1 k = (case obj_get o1 k of None \<Rightarrow> JUndef | Some v \<Rightarrow> v)"
  by (simp add: arg_def)

lemma set_keys_set: "set (obj_keys (obj_set k v o1)) = insert k (set (obj_keys o1))"
  by (auto simp: obj_keys_set)

lemma obj_keys_Cons: "obj_keys (kv # o1) = fst kv # obj_keys o1"
  by (simp add: obj_keys_def)

lemma mark_all_names: "mark_all source v = Inr w \<Longrightarrow> names_of w = names_of v"
proof (cases v)
  case (JObj o1)
  assume "mark_all source v = Inr w"
  then obtain o2 where o2: "mapR (\<lambda>(name, p). bindR (put_prop ''x-resolved-from'' source p) (\<lambda>q. Inr (name, q))) o1 = Inr o2" "w = JObj o2"
    using JObj by (auto simp: mark_all_def bindR_Inr_iff)
  have "map fst o2 = map fst o1" using o2(1) unfolding mapR_Inr_iff
    by (induction rule: list_all2_induct) (auto simp: bindR_Inr_iff)
  then show ?thesis using JObj o2(2) by (simp add: names_of_def obj_keys_def)
qed (auto simp: mark_all_def)

lemma merge_properties_only:
  assumes "merge_properties source props out = Inr out'"
  shows "\<forall>k. k \<noteq> ''properties'' \<longrightarrow> arg out' k = arg out k"
proof -
  have "foldR (\<lambda>(name, p) o2.
         bindR (get_prop p ''x-resolved-from'') (\<lambda>rf.
         bindR (put_prop ''x-resolved-from'' (if rf = JUndef \<or> rf = JStr ''self'' then source else rf) p) (\<lambda>q.
         bindR (put_prop name q (arg o2 ''properties'')) (\<lambda>ps. Inr (obj_set ''properties'' ps o2))))) (entries_of props) out = Inr out'"
    using assms by (simp add: merge_properties_def)
  then show ?thesis
    by (rule foldR_invariant [where I = "\<lambda>o2. \<forall>k. k \<noteq> ''properties'' \<longrightarrow> arg o2 k = arg out k"]) (auto simp: bindR_Inr_iff)
qed

lemma merge_properties_names:
  assumes "merge_properties source (JObj ps) out = Inr out'" "arg out ''properties'' = JObj qs"
  shows "\<exists>qs'. arg out' ''properties'' = JObj qs' \<and> set (obj_keys qs') = set (obj_keys qs) \<union> set (obj_keys ps)"
  using assms
proof (induction ps arbitrary: out qs)
  case Nil
  then show ?case by (simp add: merge_properties_def entries_of_def obj_keys_def)
next
  case (Cons np ps)
  obtain n p where np: "np = (n, p)" by (cases np)
  from Cons.prems(1) np obtain q ps1 where ps1: "put_prop n q (arg out ''properties'') = Inr ps1"
    and rest: "merge_properties source (JObj ps) (obj_set ''properties'' ps1 out) = Inr out'"
    by (auto simp: merge_properties_def entries_of_def bindR_Inr_iff)
  have "ps1 = JObj (obj_set n q qs)" using ps1 Cons.prems(2) by (simp add: put_prop_def)
  with Cons.IH [OF rest] obtain qs' where "arg out' ''properties'' = JObj qs'" "set (obj_keys qs') = set (obj_keys (obj_set n q qs)) \<union> set (obj_keys ps)"
    by auto
  then show ?case using np by (auto simp: set_keys_set obj_keys_Cons)
qed

text \<open>One part of a component: it adds to the required names and to the properties, and nothing is lost.\<close>

lemma merge_part_shape:
  assumes "merge_part source (part, v) out = Inr out'" "part \<noteq> ''properties''"
  shows "out' = out \<or> (\<exists>w. out' = obj_set part w out)"
proof (cases "obj_get out part = None")
  case True
  then show ?thesis using assms by (auto simp: merge_part_def)
next
  case False
  consider "part = ''required''" | "part = ''x-resolved-from''" | "part \<noteq> ''required''" "part \<noteq> ''x-resolved-from''" by blast
  then show ?thesis
  proof cases
    case 1
    then show ?thesis using assms False by (cases "arg out ''required''") (auto simp: merge_part_def)
  next
    case 2
    then show ?thesis using assms False by (cases "arg out ''x-resolved-from''") (auto simp: merge_part_def)
  next
    case 3
    then show ?thesis using assms False by (auto simp: merge_part_def)
  qed
qed

lemma merge_part_required:
  assumes "merge_part source (part, v) out = Inr out'" "part = ''required'' \<Longrightarrow> is_array v"
  shows "required_of (arg out' ''required'') = required_of (arg out ''required'') \<union> (if part = ''required'' then required_of v else {})"
proof (cases "part = ''required''")
  case True
  then show ?thesis
    using assms by (auto simp: merge_part_def required_of_def arg_eq_get set_dedup elements_def is_array_def split: option.splits if_splits jsv.splits)
next
  case False
  have "arg out' ''required'' = arg out ''required''"
  proof (cases "part = ''properties''")
    case True
    then show ?thesis using assms(1) merge_properties_only [of source v out out'] by (auto simp: merge_part_def bindR_Inr_iff split: if_splits)
  next
    case other: False
    then show ?thesis using merge_part_shape [OF assms(1)] False by auto
  qed
  then show ?thesis using False by simp
qed

definition obj_props :: "jsv obj \<Rightarrow> bool" where
  "obj_props out \<longleftrightarrow> obj_get out ''properties'' = None \<or> (\<exists>qs. arg out ''properties'' = JObj qs)"

lemma merge_part_names:
  assumes "merge_part source (part, v) out = Inr out'" "part = ''properties'' \<Longrightarrow> \<exists>ps. v = JObj ps" "obj_props out"
  shows "names_of (arg out' ''properties'') = names_of (arg out ''properties'') \<union> (if part = ''properties'' then names_of v else {})
    \<and> obj_props out'"
proof (cases "part = ''properties''")
  case True
  then obtain ps where v: "v = JObj ps" using assms(2) by blast
  show ?thesis
  proof (cases "obj_get out ''properties'' = None")
    case none: True
    then obtain w where w: "mark_all source v = Inr w" "out' = obj_set ''properties'' w out"
      using assms(1) True by (auto simp: merge_part_def bindR_Inr_iff)
    moreover obtain ws where "w = JObj ws" using w(1) v by (auto simp: mark_all_def bindR_Inr_iff)
    moreover have "arg out ''properties'' = JUndef" using none by (simp add: arg_def)
    ultimately show ?thesis using mark_all_names [OF w(1)] True by (simp add: names_of_def [of JUndef] obj_props_def)
  next
    case False
    then obtain qs where qs: "arg out ''properties'' = JObj qs" using assms(3) by (auto simp: obj_props_def)
    from assms(1) True False v have "merge_properties source (JObj ps) out = Inr out'" by (simp add: merge_part_def)
    from merge_properties_names [OF this qs] obtain qs' where
      "arg out' ''properties'' = JObj qs'" "set (obj_keys qs') = set (obj_keys qs) \<union> set (obj_keys ps)" by blast
    then show ?thesis using True v qs by (simp add: names_of_def obj_props_def)
  qed
next
  case False
  then have "arg out' ''properties'' = arg out ''properties''"
    "obj_get out' ''properties'' = obj_get out ''properties''"
    using merge_part_shape [OF assms(1) False] False by auto
  then show ?thesis using False assms(3) by (simp add: obj_props_def)
qed

definition wf_component :: "jsv obj \<Rightarrow> bool" where
  "wf_component c \<longleftrightarrow> obj_ok c \<and> (\<forall>v. (''required'', v) \<in> set c \<longrightarrow> is_array v)
     \<and> (\<forall>v. (''properties'', v) \<in> set c \<longrightarrow> (\<exists>ps. v = JObj ps))"

lemma UN_entries_Cons:
  "(\<Union>v \<in> {v. (k, v) \<in> set ((part, w) # kvs)}. F v) = (if part = k then F w else {}) \<union> (\<Union>v \<in> {v. (k, v) \<in> set kvs}. F v)"
  by auto

lemma UN_entries_get:
  assumes "obj_ok c" "F JUndef = {}"
  shows "(\<Union>v \<in> {v. (k, v) \<in> set c}. F v) = F (arg c k)"
proof (cases "obj_get c k")
  case None
  then have "{v. (k, v) \<in> set c} = {}" using obj_ok_get_iff [OF assms(1)] by (metis (mono_tags) Collect_empty_eq option.distinct(1))
  then show ?thesis using None assms(2) by (simp add: arg_def)
next
  case (Some x)
  then have "{v. (k, v) \<in> set c} = {x}" unfolding obj_ok_get_iff [OF assms(1), of k, symmetric] by auto
  then show ?thesis using Some by (simp add: arg_def)
qed

lemma merge_parts:
  assumes "foldR (merge_part source) kvs out = Inr out'" "obj_props out"
    and "\<forall>v. (''required'', v) \<in> set kvs \<longrightarrow> is_array v" "\<forall>v. (''properties'', v) \<in> set kvs \<longrightarrow> (\<exists>ps. v = JObj ps)"
  shows "required_of (arg out' ''required'') = required_of (arg out ''required'') \<union> (\<Union>v \<in> {v. (''required'', v) \<in> set kvs}. required_of v)
    \<and> names_of (arg out' ''properties'') = names_of (arg out ''properties'') \<union> (\<Union>v \<in> {v. (''properties'', v) \<in> set kvs}. names_of v)
    \<and> obj_props out'"
  using assms
proof (induction kvs arbitrary: out)
  case (Cons kv kvs)
  obtain part v where kv: "kv = (part, v)" by (cases kv)
  obtain o1 where o1: "merge_part source (part, v) out = Inr o1" "foldR (merge_part source) kvs o1 = Inr out'"
    using Cons.prems(1) kv by (auto simp: bindR_Inr_iff)
  have r: "required_of (arg o1 ''required'') = required_of (arg out ''required'') \<union> (if part = ''required'' then required_of v else {})"
    by (rule merge_part_required [OF o1(1)]) (use Cons.prems(3) kv in auto)
  have n: "names_of (arg o1 ''properties'') = names_of (arg out ''properties'') \<union> (if part = ''properties'' then names_of v else {}) \<and> obj_props o1"
    by (rule merge_part_names [OF o1(1)]) (use Cons.prems(2,4) kv in auto)
  have IH: "required_of (arg out' ''required'') = required_of (arg o1 ''required'') \<union> (\<Union>v \<in> {v. (''required'', v) \<in> set kvs}. required_of v)
    \<and> names_of (arg out' ''properties'') = names_of (arg o1 ''properties'') \<union> (\<Union>v \<in> {v. (''properties'', v) \<in> set kvs}. names_of v)
    \<and> obj_props out'"
    by (rule Cons.IH [OF o1(2)]) (use n Cons.prems(3,4) in auto)
  show ?case using IH r n unfolding kv UN_entries_Cons by (simp only: Un_assoc)
qed simp

lemma merge_component_adds:
  assumes "merge_component (JObj c) out = Inr out'" "wf_component c" "obj_props out"
  shows "required_of (arg out' ''required'') = required_of (arg out ''required'') \<union> required_of (arg c ''required'')
    \<and> names_of (arg out' ''properties'') = names_of (arg out ''properties'') \<union> names_of (arg c ''properties'') \<and> obj_props out'"
proof -
  obtain source where "foldR (merge_part source) c out = Inr out'"
    using assms(1) by (auto simp: merge_component_def bindR_Inr_iff entries_of_def)
  note m = merge_parts [OF this assms(3)]
  have e: "required_of JUndef = {}" "names_of JUndef = {}" by (simp_all add: required_of_def elements_def names_of_def)
  have "obj_ok c" using assms(2) by (simp add: wf_component_def)
  from m UN_entries_get [OF this, of required_of, OF e(1)] UN_entries_get [OF this, of names_of, OF e(2)] assms(2)
  show ?thesis by (simp add: wf_component_def)
qed

lemma compose_adds:
  assumes "foldR merge_component comps out = Inr out'" "\<forall>c \<in> set comps. \<exists>o1. c = JObj o1 \<and> wf_component o1" "obj_props out"
  shows "required_of (arg out' ''required'') = required_of (arg out ''required'') \<union> (\<Union>c \<in> set comps. required_of (prop_of c ''required''))
    \<and> names_of (arg out' ''properties'') = names_of (arg out ''properties'') \<union> (\<Union>c \<in> set comps. names_of (prop_of c ''properties''))"
  using assms
proof (induction comps arbitrary: out)
  case (Cons c comps)
  obtain o1 where c: "c = JObj o1" "wf_component o1" using Cons.prems(2) by auto
  obtain out1 where o: "merge_component (JObj o1) out = Inr out1" "foldR merge_component comps out1 = Inr out'"
    using Cons.prems(1) c(1) by (auto simp: bindR_Inr_iff)
  note m = merge_component_adds [OF o(1) c(2) Cons.prems(3)]
  then have "obj_props out1" by blast
  with Cons.IH [OF o(2)] Cons.prems(2) m show ?case by (simp add: c(1) Un_assoc)
qed simp

section \<open>Properties\<close>

text \<open>Splitting a url and putting it together again are inverse for urls with a scheme, a host and a path.\<close>

theorem url_roundtrip:
  assumes "abs_parts u"
  shows "splitUrl (unsplitUrl u) = u"
  using assms by (rule split_unsplit)

theorem url_roundtrip_witness:
  "splitUrl (unsplitUrl \<lparr>proto = Some ''http'', domain = Some ''h:80'', u_path = Some ''/a/b'', fragment = Some ''/x#y''\<rparr>)
     = \<lparr>proto = Some ''http'', domain = Some ''h:80'', u_path = Some ''/a/b'', fragment = Some ''/x#y''\<rparr>"
proof (rule url_roundtrip)
  have "letters ''http''" by code_simp
  then show "abs_parts \<lparr>proto = Some ''http'', domain = Some ''h:80'', u_path = Some ''/a/b'', fragment = Some ''/x#y''\<rparr>"
    by (simp add: abs_parts_def)
qed

text \<open>A relative reference is resolved against the directory of the document that contains it: every leading
  \<open>..\<close> removes one more segment, and going up further than the root stays at the root.\<close>

theorem joinUrl_relative:
  assumes "letters w" "CHR ''/'' \<notin> set d" "segs \<noteq> []" "\<forall>s \<in> set segs. plain_segment s"
    and "rs \<noteq> []" "\<forall>s \<in> set rs. plain_segment s" "hd rs \<noteq> ''..''" "hd rs \<noteq> ''.''"
  shows "joinUrl (w @ ''://'' @ d @ CHR ''/'' # js_join ''/'' segs) (js_join ''/'' (replicate n ''..'' @ rs))
    = w @ ''://'' @ d @ CHR ''/'' # js_join ''/'' (take (length segs - 1 - n) segs @ rs)"
  using assms by (rule join_relative)

theorem joinUrl_relative_witness:
  "joinUrl ''http://h/a/b/c.json'' ''../d.json'' = ''http://h/a/d.json''"
proof -
  have "letters ''http''" by code_simp
  then show ?thesis
    using joinUrl_relative [of "''http''" "''h''" "[''a'', ''b'', ''c.json'']" "[''d.json'']" 1] by (simp add: plain_segment_def)
qed

text \<open>Making the references of a document absolute is idempotent: references that have been made absolute once
  stay as they are.\<close>

theorem retainRoot_idempotent:
  assumes "abs_url root"
  shows "retainRoot key (retainRoot key v root) root = retainRoot key v root"
proof (cases "is_object v")
  case True
  then have "is_object (retain_all root v)" by (cases v) (auto simp: is_object_def)
  then show ?thesis using True retain_all_idem [OF assms] by (simp add: retainRoot_def)
next
  case False
  then show ?thesis using joinUrl_idem [OF assms] by (cases v) (auto simp: retainRoot_def is_object_def)
qed

theorem retainRoot_idempotent_witness:
  "retainRoot ''schema'' (retainRoot ''schema'' (JObj [(''$ref'', JStr ''x.json'')]) ''http://h/a'') ''http://h/a'' = JObj [(''$ref'', JStr ''http://h/x.json'')]"
proof -
  have "letters ''http''" by code_simp
  from abs_urlI [OF this, of "''h''" "''a''"] have "abs_url ''http://h/a''" by simp
  moreover have "retainRoot ''schema'' (JObj [(''$ref'', JStr ''x.json'')]) ''http://h/a'' = JObj [(''$ref'', JStr ''http://h/x.json'')]" by code_simp
  ultimately show ?thesis using retainRoot_idempotent [of "''http://h/a''" "''schema''" "JObj [(''$ref'', JStr ''x.json'')]"] by simp
qed

text \<open>Queueing references never loses anything: the table only grows, and naming an inline model never
  overwrites a definition, since the search for an unused name ends with one.\<close>

theorem resolveTo_keeps_definitions:
  assumes "resolveTo root property st = Inr (p', st')"
  shows "(\<exists>es. table st' = table st @ es)
    \<and> (\<forall>k. is_object (arg (definitions st) k) \<longrightarrow> arg (definitions st') k = arg (definitions st) k)
    \<and> \<not> is_object (arg (definitions st) (uniqueName (definitions st) base))"
  using resolveTo_extends [OF assms] uniqueName_fresh by (simp add: extends_def)

theorem resolveTo_keeps_definitions_witness:
  "\<exists>p' st'. resolveTo ''r'' (JObj [(''properties'', JObj [])]) \<lparr>table = [], definitions = [(''inline_model'', JObj [])]\<rparr> = Inr (p', st')
     \<and> arg (definitions st') ''inline_model'' = JObj [] \<and> arg (definitions st') ''inline_model_0'' = JObj [(''properties'', JObj [])]"
proof -
  let ?st = "\<lparr>table = [], definitions = [(''inline_model'', JObj [])]\<rparr> :: resolving"
  let ?st' = "\<lparr>table = [], definitions = [(''inline_model'', JObj []), (''inline_model_0'', JObj [(''properties'', JObj [])])]\<rparr> :: resolving"
  have e: "resolveTo ''r'' (JObj [(''properties'', JObj [])]) ?st = Inr (JObj [(''$ref'', JStr ''#/definitions/inline_model_0'')], ?st')"
    by code_simp
  from resolveTo_keeps_definitions [OF e, of "''x''"] e show ?thesis by (simp add: is_object_def)
qed

text \<open>C5: A model composed with \<open>allOf\<close> requires what it and its components require and has the properties that it
  and its components have.\<close>

theorem composed_model:
  assumes "compose (JObj o1) = Inr (JObj out)" "arg o1 ''allOf'' = JArr comps"
    and "\<forall>c \<in> set comps. \<exists>o2. c = JObj o2 \<and> wf_component o2" "obj_props o1"
  shows "required_of (arg out ''required'') = required_of (arg o1 ''required'') \<union> (\<Union>c \<in> set comps. required_of (prop_of c ''required''))
    \<and> names_of (arg out ''properties'') = names_of (arg o1 ''properties'') \<union> (\<Union>c \<in> set comps. names_of (prop_of c ''properties''))"
proof -
  let ?o = "obj_set ''x-composed'' (JBool True) (obj_del ''allOf'' o1)"
  have "foldR merge_component comps ?o = Inr out" using assms(1,2) by (auto simp: compose_def bindR_Inr_iff)
  moreover have "obj_props ?o" using assms(4) by (simp add: obj_props_def)
  ultimately show ?thesis using compose_adds [of comps ?o out] assms(3) by simp
qed

theorem composed_model_witness:
  "\<exists>out. compose (JObj [(''allOf'', JArr [JObj [(''required'', JArr [JStr ''a''])], JObj [(''required'', JArr [JStr ''b''])]])]) = Inr (JObj out)
     \<and> required_of (arg out ''required'') = {JStr ''a'', JStr ''b''}"
proof -
  let ?cs = "[JObj [(''required'', JArr [JStr ''a''])], JObj [(''required'', JArr [JStr ''b''])]]"
  have e: "compose (JObj [(''allOf'', JArr ?cs)]) = Inr (JObj [(''x-composed'', JBool True), (''required'', JArr [JStr ''a'', JStr ''b''])])"
    by code_simp
  from composed_model [OF e] e show ?thesis
    by (auto simp: wf_component_def obj_ok_def obj_keys_def is_array_def obj_props_def required_of_def elements_def)
qed

text \<open>A reference that begins with a slash is appended to the host without one when the root has no path.\<close>

lemma host_without_slash:
  "inline_entry ''http://host'' ''/m.json'' JUndef
     = Inr \<lparr>resolveAs = AsInline, e_root = ''http://hostm.json'', e_key = ''/m.json'', e_location = JStr []\<rparr>"
  by code_simp

end
