(* ===== verification/Base64.thy ===== *)
theory Base64
  imports JS_String
begin

text \<open>
  The \<open>base64-js\<close> module of \<open>swagger-ui.js\<close> (module 15): \<open>uint8ToBase64\<close> and \<open>b64ToByteArray\<close>
  with their inner functions. A \<open>Uint8Array\<close> is a list of \<open>8 word\<close>; storing a number in it keeps
  the number modulo 256 (\<open>word_of_int\<close>). The two loops step over three bytes and four characters at
  a time; the model recurses over the list the same way and treats the remainder as the code does
  after the loop.
\<close>

section \<open>The module\<close>

type_synonym bytes = "8 word list"

definition lookup :: string where
  "lookup = ''ABCDEFGHIJKLMNOPQRSTUVWXYZabcdefghijklmnopqrstuvwxyz0123456789+/''"

text \<open>\<open>lookup.charAt(num)\<close>: the empty string out of range.\<close>

definition encode :: "int \<Rightarrow> string" where
  "encode num = (if 0 \<le> num \<and> num < 64 then [lookup ! nat num] else [])"

definition tripletToBase64 :: "int \<Rightarrow> string" where
  "tripletToBase64 num =
     encode (and32 (shr32 num 18) 63) @ encode (and32 (shr32 num 12) 63)
       @ encode (and32 (shr32 num 6) 63) @ encode (and32 num 63)"

fun uint8ToBase64 :: "bytes \<Rightarrow> string" where
  "uint8ToBase64 (a # b # c # rest) =
     tripletToBase64 (shl32 (uint a) 16 + shl32 (uint b) 8 + uint c) @ uint8ToBase64 rest"
| "uint8ToBase64 [a] =
     (let temp = uint a
      in encode (shr32 temp 2) @ encode (and32 (shl32 temp 4) 63) @ ''=='')"
| "uint8ToBase64 [a, b] =
     (let temp = shl32 (uint a) 8 + uint b
      in encode (shr32 temp 10) @ encode (and32 (shr32 temp 4) 63)
           @ encode (and32 (shl32 temp 2) 63) @ ''='')"
| "uint8ToBase64 [] = []"

text \<open>\<open>decode\<close> falls off its end, returning \<open>undefined\<close>, for codes from 123 on. \<open>Undefined\<close> shifts
  and masks as \<open>0\<close>.\<close>

definition decode :: "char \<Rightarrow> jsnum" where
  "decode elt =
     (let code = int (code elt)
      in if code = 43 \<or> code = 45 then Num 62
         else if code = 47 \<or> code = 95 then Num 63
         else if code < 48 then Num (-1)
         else if code < 48 + 10 then Num (code - 48 + 26 + 26)
         else if code < 65 + 26 then Num (code - 65)
         else if code < 97 + 26 then Num (code - 97 + 26)
         else Undefined)"

definition dec :: "char \<Rightarrow> int" where
  "dec c = num_int32 (decode c)"

text \<open>\<open>b64.charAt(len - 2)\<close> and \<open>b64.charAt(len - 1)\<close> are the empty string when out of range.\<close>

definition placeHolders :: "string \<Rightarrow> nat" where
  "placeHolders b64 =
     (case rev b64 of
        x # y # _ \<Rightarrow> if y = CHR ''='' then 2 else if x = CHR ''='' then 1 else 0
      | _ \<Rightarrow> 0)"

fun decode_quads :: "string \<Rightarrow> bytes" where
  "decode_quads (c0 # c1 # c2 # c3 # rest) =
     (let tmp = or32 (or32 (or32 (shl32 (dec c0) 18) (shl32 (dec c1) 12)) (shl32 (dec c2) 6)) (dec c3)
      in word_of_int (shr32 (and32 tmp 0xFF0000) 16) # word_of_int (shr32 (and32 tmp 0xFF00) 8)
           # word_of_int (and32 tmp 0xFF) # decode_quads rest)"
| "decode_quads _ = []"

definition decode_tail :: "nat \<Rightarrow> string \<Rightarrow> bytes" where
  "decode_tail holders q =
     (case q of
        [c0, c1, c2, c3] \<Rightarrow>
          if holders = 2 then
            let tmp = or32 (shl32 (dec c0) 2) (shr32 (dec c1) 4) in [word_of_int (and32 tmp 0xFF)]
          else if holders = 1 then
            let tmp = or32 (or32 (shl32 (dec c0) 10) (shl32 (dec c1) 4)) (shr32 (dec c2) 2)
            in [word_of_int (and32 (shr32 tmp 8) 0xFF), word_of_int (and32 tmp 0xFF)]
          else []
      | _ \<Rightarrow> [])"

definition b64ToByteArray :: "string \<Rightarrow> bytes result" where
  "b64ToByteArray b64 =
     (if length b64 mod 4 > 0 then Inl (JsError ''Invalid string. Length must be a multiple of 4'')
      else
        let holders = placeHolders b64;
            l = (if holders > 0 then length b64 - 4 else length b64)
        in Inr (decode_quads (take l b64) @ decode_tail holders (drop l b64)))"

section \<open>Single characters and groups\<close>

lemma length_lookup [simp]: "length lookup = 64"
  by (simp add: lookup_def)

lemma lookup_map:
  "lookup = map char_of ([65..<91] @ [97..<123] @ [48..<58] @ [43, 47 :: nat])"
  by (simp add: lookup_def char_of_def bit_0)

lemma decode_lookup: "i < 64 \<Longrightarrow> decode (lookup ! i) = Num (int i)"
proof -
  assume i: "i < 64"
  then consider "i < 26" | "26 \<le> i" "i < 52" | "52 \<le> i" "i < 62" | "i = 62" | "i = 63" by linarith
  then consider "i < 26" | k where "i = 26 + k" "k < 26" | k where "i = 52 + k" "k < 10" | "i = 62" | "i = 63"
    by cases (auto simp: le_iff_add)
  then show ?thesis
    by cases (simp_all add: lookup_map nth_append decode_def Let_def del: upt_rec_numeral)
qed

lemma dec_lookup [simp]: "0 \<le> n \<Longrightarrow> n < 64 \<Longrightarrow> dec (lookup ! nat n) = n"
  by (simp add: dec_def decode_lookup to_int32_small nat_less_iff)

lemma lookup_not_pad: "i < 64 \<Longrightarrow> lookup ! i \<noteq> CHR ''=''"
  using decode_lookup [of i] by (auto simp: decode_def)

lemma uint8_bounds [simp]: "0 \<le> uint (w :: 8 word)" "uint (w :: 8 word) < 256" "uint (w :: 8 word) \<le> 255"
  using uint_bounded [of w] by simp_all

definition enc :: "int \<Rightarrow> char" where
  "enc n = lookup ! nat n"

lemma encode_enc: "0 \<le> n \<Longrightarrow> n < 64 \<Longrightarrow> encode n = [enc n]"
  by (simp add: encode_def enc_def)

lemma dec_enc [simp]: "0 \<le> n \<Longrightarrow> n < 64 \<Longrightarrow> dec (enc n) = n"
  by (simp add: enc_def)

lemma enc_not_pad [simp]: "0 \<le> n \<Longrightarrow> n < 64 \<Longrightarrow> enc n \<noteq> CHR ''=''"
  by (simp add: enc_def lookup_not_pad nat_less_iff)

text \<open>Three bytes as four sextets, by division.\<close>

lemma sextets:
  assumes "0 \<le> d0" "d0 < 64" "0 \<le> d1" "d1 < 64" "0 \<le> d2" "d2 < 64" "0 \<le> d3" "d3 < 64"
    and n: "(n::int) = d0 * 262144 + d1 * 4096 + d2 * 64 + d3"
  shows "n div 262144 = d0" "n div 4096 mod 64 = d1" "n div 64 mod 64 = d2" "n mod 64 = d3"
    "0 \<le> n" "n < 16777216"
proof -
  show "n div 262144 = d0"
    by (rule int_div_pos_eq [where r = "d1 * 4096 + d2 * 64 + d3"]) (use assms in auto)
  have "n div 4096 = d0 * 64 + d1"
    by (rule int_div_pos_eq [where r = "d2 * 64 + d3"]) (use assms in auto)
  then show "n div 4096 mod 64 = d1" using assms by simp
  have "n div 64 = (d0 * 64 + d1) * 64 + d2"
    by (rule int_div_pos_eq [where r = "d3"]) (use assms in auto)
  then show "n div 64 mod 64 = d2"
    by (intro int_mod_pos_eq [where q = "d0 * 64 + d1"]) (use assms in auto)
  show "n mod 64 = d3"
    by (rule int_mod_pos_eq [where q = "(d0 * 64 + d1) * 64 + d2"]) (use assms in auto)
  show "0 \<le> n" "n < 16777216" using assms by simp_all
qed

lemma regroup_bits:
  "(x::int) div 4 * 262144 + (x mod 4 * 16 + y div 16) * 4096 + (y mod 16 * 4 + z div 64) * 64 + z mod 64
     = x * 65536 + y * 256 + z"
proof -
  have "p * 262144 + (q * 16 + r) * 4096 + (s * 4 + t) * 64 + u
      = (p * 4 + q) * 65536 + (r * 16 + s) * 256 + (t * 64 + u)" for p q r s t u :: int
    by (simp add: algebra_simps)
  from this [of "x div 4" "x mod 4" "y div 16" "y mod 16" "z div 64" "z mod 64"] show ?thesis
    by (simp only: div_mult_mod_eq)
qed

lemma sextet_bounds:
  assumes "0 \<le> (x::int)" "x < 256" "0 \<le> y" "y < 256" "0 \<le> z" "z < 256"
  shows "0 \<le> x div 4" "x div 4 < 64" "0 \<le> x mod 4 * 16 + y div 16" "x mod 4 * 16 + y div 16 < 64"
    "0 \<le> y mod 16 * 4 + z div 64" "y mod 16 * 4 + z div 64 < 64" "0 \<le> z mod 64" "z mod 64 < 64"
  using assms by simp_all

lemma triplet_chars:
  "tripletToBase64 (shl32 (uint a) 16 + shl32 (uint b) 8 + uint (c :: 8 word)) =
     [enc (uint (a :: 8 word) div 4), enc (uint a mod 4 * 16 + uint (b :: 8 word) div 16),
      enc (uint b mod 16 * 4 + uint c div 64), enc (uint c mod 64)]"
proof -
  define x y z where xyz: "x = uint a" "y = uint b" "z = uint c"
  have r: "0 \<le> x" "x < 256" "0 \<le> y" "y < 256" "0 \<le> z" "z < 256" by (simp_all add: xyz)
  define n where "n = x * 65536 + y * 256 + z"
  have s: "shl32 x 16 + shl32 y 8 + z = n"
    using r shl32_mult [of x 16] shl32_mult [of y 8] by (simp add: n_def)
  have d: "n = (x div 4) * 262144 + (x mod 4 * 16 + y div 16) * 4096 + (y mod 16 * 4 + z div 64) * 64 + z mod 64"
    by (simp only: n_def regroup_bits)
  note b = sextet_bounds [OF r]
  note q = sextets [OF b d]
  have v: "n < 2 ^ 31" using q(6) by simp
  have "n div 262144 mod 64 = x div 4" unfolding q(1) by (rule mod_pos_pos_trivial [OF b(1,2)])
  moreover have "shr32 n 18 = n div 262144" "shr32 n 12 = n div 4096" "shr32 n 6 = n div 64"
    using shr32_div [OF q(5) v, of 18] shr32_div [OF q(5) v, of 12] shr32_div [OF q(5) v, of 6] by simp_all
  ultimately show ?thesis
    unfolding xyz [symmetric] s
    by (simp only: tripletToBase64_def and32_63 q(2,3,4) encode_enc [OF b(1,2)] encode_enc [OF b(3,4)]
        encode_enc [OF b(5,6)] encode_enc [OF b(7,8)] append.simps)
qed

text \<open>Four sextets back into three bytes.\<close>

lemma quad_bytes:
  assumes "0 \<le> d0" "d0 < 64" "0 \<le> d1" "d1 < 64" "0 \<le> d2" "d2 < 64" "0 \<le> d3" "d3 < 64"
  shows "or32 (or32 (or32 (shl32 d0 18) (shl32 d1 12)) (shl32 d2 6)) d3
    = d0 * 262144 + d1 * 4096 + d2 * 64 + d3"
proof -
  have "shl32 d0 18 = d0 * 2 ^ 18" "shl32 d1 12 = d1 * 2 ^ 12" "shl32 d2 6 = d2 * 2 ^ 6"
    using assms by (simp_all add: shl32_mult)
  moreover have "or32 (d0 * 2 ^ 18) (d1 * 2 ^ 12) = (d0 * 64 + d1) * 2 ^ 12"
    using assms or32_disjoint [of d0 "d1 * 2 ^ 12" 18] by simp
  moreover have "or32 ((d0 * 64 + d1) * 2 ^ 12) (d2 * 2 ^ 6) = ((d0 * 64 + d1) * 64 + d2) * 2 ^ 6"
    using assms or32_disjoint [of "d0 * 64 + d1" "d2 * 2 ^ 6" 12] by simp
  moreover have "or32 (((d0 * 64 + d1) * 64 + d2) * 2 ^ 6) d3 = ((d0 * 64 + d1) * 64 + d2) * 2 ^ 6 + d3"
    using assms or32_disjoint [of "(d0 * 64 + d1) * 64 + d2" d3 6] by simp
  ultimately show ?thesis by simp
qed

lemma byte_fields:
  assumes "0 \<le> x" "x < 256" "0 \<le> y" "y < 256" "0 \<le> z" "z < 256" and n: "n = x * 65536 + y * 256 + z"
  shows "shr32 (and32 n 0xFF0000) 16 = x" "shr32 (and32 n 0xFF00) 8 = y" "and32 n 0xFF = z"
proof -
  have nb: "0 \<le> n" "n < 2 ^ 31" using assms by simp_all
  have "n div 65536 = x"
    by (rule int_div_pos_eq [where r = "y * 256 + z"]) (use assms in auto)
  moreover have "n div 256 = x * 256 + y"
    by (rule int_div_pos_eq [where r = z]) (use assms in auto)
  moreover have "n mod 256 = z"
    by (rule int_mod_pos_eq [where q = "x * 256 + y"]) (use assms in auto)
  ultimately show "shr32 (and32 n 0xFF0000) 16 = x" "shr32 (and32 n 0xFF00) 8 = y" "and32 n 0xFF = z"
    using nb assms by (simp_all add: shr32_and32 shr32_div js_int_simps)
qed

lemma decode_quads_triplet:
  "decode_quads (tripletToBase64 (shl32 (uint a) 16 + shl32 (uint b) 8 + uint (c :: 8 word)) @ rest)
     = a # b # c # decode_quads rest"
proof -
  define x y z where xyz: "x = uint a" "y = uint b" "z = uint c"
  have r: "0 \<le> x" "x < 256" "0 \<le> y" "y < 256" "0 \<le> z" "z < 256" by (simp_all add: xyz)
  note b = sextet_bounds [OF r]
  note q = quad_bytes [OF b, unfolded regroup_bits] and f = byte_fields [OF r refl]
  have "decode_quads ([enc (x div 4), enc (x mod 4 * 16 + y div 16), enc (y mod 16 * 4 + z div 64), enc (z mod 64)] @ rest)
      = word_of_int x # word_of_int y # word_of_int z # decode_quads rest"
    by (simp only: append.simps decode_quads.simps Let_def dec_enc [OF b(1,2)] dec_enc [OF b(3,4)]
        dec_enc [OF b(5,6)] dec_enc [OF b(7,8)] q f)
  then show ?thesis unfolding triplet_chars by (simp add: xyz)
qed

text \<open>The padded groups.\<close>

lemma one_byte_chars:
  "uint8ToBase64 [a] = [enc (uint a div 4), enc (uint a mod 4 * 16), CHR ''='', CHR ''='']"
proof -
  define x where x: "x = uint a"
  have r: "0 \<le> x" "x < 256" by (simp_all add: x)
  note b = sextet_bounds [OF r, of 0 0, simplified]
  have "shl32 x 4 = x * 16" using r shl32_mult [of x 4] by simp
  moreover have "x * 16 mod 64 = x mod 4 * 16" using mult_mod_left [of x 4 16] by simp
  ultimately show ?thesis
    using r b by (simp add: x [symmetric] js_int_simps shr32_div encode_enc)
qed

lemma two_fields:
  assumes "0 \<le> p" "p < 64" "0 \<le> q" "q < 64" "0 \<le> s" "(s::int) < 16"
  shows "((p * 64 + q) * 16 + s) div 1024 = p" "((p * 64 + q) * 16 + s) div 16 mod 64 = q"
proof -
  show "((p * 64 + q) * 16 + s) div 1024 = p"
    by (rule int_div_pos_eq [where r = "q * 16 + s"]) (use assms in auto)
  have "((p * 64 + q) * 16 + s) div 16 = p * 64 + q"
    by (rule int_div_pos_eq [where r = s]) (use assms in auto)
  then show "((p * 64 + q) * 16 + s) div 16 mod 64 = q" using assms by simp
qed

lemma two_byte_split:
  fixes x y :: int
  assumes "0 \<le> x" "x < 256" "0 \<le> y" "y < 256"
  shows "(x * 256 + y) div 1024 = x div 4" "(x * 256 + y) div 16 mod 64 = x mod 4 * 16 + y div 16"
    "(x * 256 + y) * 4 mod 64 = y mod 16 * 4" "x * 256 + y = (x div 4 * 64 + (x mod 4 * 16 + y div 16)) * 16 + y mod 16"
proof -
  have b: "0 \<le> x div 4" "x div 4 < 64" "0 \<le> x mod 4 * 16 + y div 16" "x mod 4 * 16 + y div 16 < 64"
    using assms by simp_all
  show n: "x * 256 + y = (x div 4 * 64 + (x mod 4 * 16 + y div 16)) * 16 + y mod 16"
  proof -
    have "(p * 4 + q) * 256 + (r * 16 + s) = (p * 64 + (q * 16 + r)) * 16 + s" for p q r s :: int
      by (simp add: algebra_simps)
    from this [of "x div 4" "x mod 4" "y div 16" "y mod 16"] show ?thesis by (simp only: div_mult_mod_eq)
  qed
  have c: "0 \<le> y mod 16" "y mod 16 < 16" by simp_all
  show "(x * 256 + y) div 1024 = x div 4"
    unfolding n by (rule two_fields(1) [OF b(1-4) c])
  show "(x * 256 + y) div 16 mod 64 = x mod 4 * 16 + y div 16"
    unfolding n by (rule two_fields(2) [OF b(1-4) c])
  have "(x * 256 + y) mod 16 = y mod 16" using mod_mult_self2 [of y 16 "16 * x"] by (simp add: algebra_simps)
  moreover have "(x * 256 + y) mod 16 * 4 = (x * 256 + y) * 4 mod 64" unfolding mult_mod_left by simp
  ultimately show "(x * 256 + y) * 4 mod 64 = y mod 16 * 4" by (simp only:)
qed

lemma two_byte_chars:
  "uint8ToBase64 [a, b] =
     [enc (uint a div 4), enc (uint a mod 4 * 16 + uint b div 16), enc (uint b mod 16 * 4), CHR ''='']"
proof -
  define x y where xy: "x = uint a" "y = uint b"
  have r: "0 \<le> x" "x < 256" "0 \<le> y" "y < 256" by (simp_all add: xy)
  have b: "0 \<le> x div 4" "x div 4 < 64" "0 \<le> x mod 4 * 16 + y div 16" "x mod 4 * 16 + y div 16 < 64"
    "0 \<le> y mod 16 * 4" "y mod 16 * 4 < 64"
    using r by simp_all
  have s: "shl32 x 8 + y = x * 256 + y" using r shl32_mult [of x 8] by simp
  have v: "0 \<le> x * 256 + y" "x * 256 + y < 2 ^ 31" using r by simp_all
  have "shl32 (x * 256 + y) 2 = (x * 256 + y) * 4" using r shl32_mult [of "x * 256 + y" 2] by simp
  then have e3: "encode (and32 (shl32 (x * 256 + y) 2) 63) = [enc (y mod 16 * 4)]"
    unfolding and32_63 by (simp only: two_byte_split(3) [OF r] encode_enc [OF b(5,6)])
  have "shr32 (x * 256 + y) 10 = (x * 256 + y) div 1024" using shr32_div [OF v, of 10] by simp
  then have e1: "encode (shr32 (x * 256 + y) 10) = [enc (x div 4)]"
    by (simp only: two_byte_split(1) [OF r] encode_enc [OF b(1,2)])
  have "shr32 (x * 256 + y) 4 = (x * 256 + y) div 16" using shr32_div [OF v, of 4] by simp
  then have e2: "encode (and32 (shr32 (x * 256 + y) 4) 63) = [enc (x mod 4 * 16 + y div 16)]"
    unfolding and32_63 by (simp only: two_byte_split(2) [OF r] encode_enc [OF b(3,4)])
  show ?thesis
    unfolding uint8ToBase64.simps xy [symmetric] Let_def s e1 e2 e3 by simp
qed

lemma decode_tail_one:
  "decode_tail 2 (uint8ToBase64 [a]) = [a]"
proof -
  define x where x: "x = uint a"
  have r: "0 \<le> x" "x < 256" by (simp_all add: x)
  have b: "0 \<le> x div 4" "x div 4 < 64" "0 \<le> x mod 4 * 16" "x mod 4 * 16 < 64" using r by simp_all
  have "shr32 (x mod 4 * 16) 4 = x mod 4" using b by (simp add: shr32_div)
  moreover have "shl32 (x div 4) 2 = x div 4 * 2 ^ 2" by (rule shl32_mult) (use b in auto)
  moreover have "or32 (x div 4 * 2 ^ 2) (x mod 4) = x div 4 * 2 ^ 2 + x mod 4"
    by (rule or32_disjoint) (use b in auto)
  ultimately have "or32 (shl32 (x div 4) 2) (shr32 (x mod 4 * 16) 4) = x" by simp
  then show ?thesis
    using r unfolding one_byte_chars x [symmetric]
    by (simp add: decode_tail_def dec_enc [OF b(1,2)] dec_enc [OF b(3,4)] js_int_simps Let_def) (simp add: x)
qed

lemma decode_tail_two:
  "decode_tail 1 (uint8ToBase64 [a, b]) = [a, b]"
proof -
  define x y where xy: "x = uint a" "y = uint b"
  have r: "0 \<le> x" "x < 256" "0 \<le> y" "y < 256" by (simp_all add: xy)
  define d0 d1 d2 where d: "d0 = x div 4" "d1 = x mod 4 * 16 + y div 16" "d2 = y mod 16 * 4"
  have b: "0 \<le> d0" "d0 < 64" "0 \<le> d1" "d1 < 64" "0 \<le> d2" "d2 < 64" using r by (simp_all add: d)
  have n: "(d0 * 64 + d1) * 2 ^ 4 + y mod 16 = x * 256 + y"
    unfolding d using two_byte_split(4) [OF r, symmetric] by simp
  have "shl32 d0 10 = d0 * 2 ^ 10" "shl32 d1 4 = d1 * 2 ^ 4" using b by (simp_all add: shl32_mult)
  moreover have "shr32 d2 2 = y mod 16" using b by (simp add: shr32_div d)
  moreover have "or32 (d0 * 2 ^ 10) (d1 * 2 ^ 4) = (d0 * 64 + d1) * 2 ^ 4"
    using b or32_disjoint [of d0 "d1 * 2 ^ 4" 10] by simp
  moreover have "or32 ((d0 * 64 + d1) * 2 ^ 4) (y mod 16) = (d0 * 64 + d1) * 2 ^ 4 + y mod 16"
    by (rule or32_disjoint) (use b in auto)
  ultimately have "or32 (or32 (shl32 d0 10) (shl32 d1 4)) (shr32 d2 2) = x * 256 + y"
    using n by (simp only:)
  then show ?thesis
    using r unfolding two_byte_chars xy [symmetric] d [symmetric]
    by (simp add: decode_tail_def dec_enc [OF b(1,2)] dec_enc [OF b(3,4)] dec_enc [OF b(5,6)]
        js_int_simps shr32_div Let_def) (simp add: xy)
qed

section \<open>Whole strings\<close>

lemma placeHolders_append:
  assumes "length s mod 4 = 0" "CHR ''='' \<notin> set q"
  shows "placeHolders (q @ s) = placeHolders s"
proof (cases "s = []")
  case True
  then show ?thesis using assms(2)
    by (auto simp: placeHolders_def split: list.splits simp del: set_rev simp flip: set_rev [of q])
next
  case False
  then have "2 \<le> length (rev s)" using assms(1) by (cases s; cases "tl s") auto
  then obtain x y t where "rev s = x # y # t" by (cases "rev s"; cases "tl (rev s)") auto
  then show ?thesis by (simp add: placeHolders_def)
qed

text \<open>Decoding works group by group: a leading group of four characters without padding gives its
  three bytes in front of what the rest decodes to.\<close>

lemma b64ToByteArray_group:
  assumes "length q = 4" "CHR ''='' \<notin> set q" "length s mod 4 = 0"
  shows "b64ToByteArray (q @ s) = bindR (b64ToByteArray s) (\<lambda>r. Inr (decode_quads q @ r))"
proof -
  obtain c0 c1 c2 c3 where q: "q = [c0, c1, c2, c3]"
    using assms(1) by (auto simp: numeral_eq_Suc length_Suc_conv)
  have "decode_quads (q @ t) = decode_quads q @ decode_quads t" for t
    by (simp add: q Let_def)
  moreover have "placeHolders s > 0 \<Longrightarrow> 4 \<le> length s"
  proof -
    assume "placeHolders s > 0"
    then have "0 < length s" by (cases s) (auto simp: placeHolders_def)
    moreover have "4 dvd length s" using assms(3) by presburger
    ultimately show ?thesis by (simp add: dvd_imp_le)
  qed
  moreover have "length (q @ s) mod 4 = 0" using assms by simp
  ultimately show ?thesis
    using assms placeHolders_append [OF assms(3,2)]
    by (simp add: b64ToByteArray_def Let_def)
qed

lemma length_uint8ToBase64: "length (uint8ToBase64 bs) = 4 * ((length bs + 2) div 3)"
proof (induction bs rule: uint8ToBase64.induct)
  case (1 a b c rest)
  have "(5 + length rest) div 3 = Suc ((length rest + 2) div 3)"
    using div_add_self1 [of 3 "length rest + 2"] by (simp add: add.commute)
  with 1 show ?case by (simp add: triplet_chars)
next
  case (2 a)
  show ?case unfolding one_byte_chars by simp
next
  case (3 a b)
  show ?case unfolding two_byte_chars by simp
qed simp

lemma base64_roundtrip_lemma: "b64ToByteArray (uint8ToBase64 bs) = Inr bs"
proof (induction bs rule: uint8ToBase64.induct)
  case (1 a b c rest)
  let ?q = "tripletToBase64 (shl32 (uint a) 16 + shl32 (uint b) 8 + uint c)"
  have "CHR ''='' \<notin> set ?q"
    unfolding triplet_chars
    using enc_not_pad [OF sextet_bounds(1,2)] enc_not_pad [OF sextet_bounds(3,4)]
      enc_not_pad [OF sextet_bounds(5,6)] enc_not_pad [OF sextet_bounds(7,8)]
      uint8_bounds [of a] uint8_bounds [of b] uint8_bounds [of c]
    by (metis empty_iff empty_set set_ConsD)
  moreover have "length ?q = 4" by (simp add: triplet_chars)
  moreover have "decode_quads ?q = [a, b, c]" using decode_quads_triplet [of a b c "[]"] by simp
  moreover have "length (uint8ToBase64 rest) mod 4 = 0" by (simp add: length_uint8ToBase64)
  ultimately show ?case using 1 by (simp add: b64ToByteArray_group)
next
  case (2 a)
  have "placeHolders (uint8ToBase64 [a]) = 2" unfolding one_byte_chars by (simp add: placeHolders_def)
  then show ?case using decode_tail_one [of a]
    by (simp add: b64ToByteArray_def length_uint8ToBase64 Let_def del: uint8ToBase64.simps)
next
  case (3 a b)
  have "placeHolders (uint8ToBase64 [a, b]) = 1"
    unfolding two_byte_chars using enc_not_pad [of "uint b mod 16 * 4"] by (simp add: placeHolders_def)
  then show ?case using decode_tail_two [of a b]
    by (simp add: b64ToByteArray_def length_uint8ToBase64 Let_def del: uint8ToBase64.simps)
next
  case 4
  show ?case by (simp add: b64ToByteArray_def placeHolders_def decode_tail_def)
qed

lemma length_decode_quads: "length (decode_quads s) = 3 * (length s div 4)"
proof (induction s rule: decode_quads.induct)
  case (1 c0 c1 c2 c3 rest)
  have "(4 + length rest) div 4 = Suc (length rest div 4)" by simp
  with 1 show ?case by (simp add: Let_def)
qed simp_all

lemma length_4_cases: "length xs = 4 \<Longrightarrow> \<exists>a b c d. xs = [a, b, c, d]"
  by (auto simp: numeral_eq_Suc length_Suc_conv)

lemma placeHolders_le: "placeHolders s \<le> 2"
  by (auto simp: placeHolders_def split: list.splits)

lemma placeHolders_ne: "placeHolders s > 0 \<Longrightarrow> s \<noteq> []"
  by (auto simp: placeHolders_def)

section \<open>Properties\<close>

text \<open>C1: Decoding the base64 text of a byte array gives the byte array back.\<close>

theorem base64_roundtrip: "b64ToByteArray (uint8ToBase64 bs) = Inr bs"
  by (rule base64_roundtrip_lemma)

text \<open>\<open>b64ToByteArray\<close> throws exactly on the texts whose length is not a multiple of four, and on
  every other text, well-formed or not, it returns three bytes for each group of four characters less
  one byte for each place holder, the size it allocates.\<close>

theorem b64ToByteArray_size:
  "b64ToByteArray s =
     (if length s mod 4 = 0 then Inr (projr (b64ToByteArray s))
      else Inl (JsError ''Invalid string. Length must be a multiple of 4''))
   \<and> (length s mod 4 = 0 \<longrightarrow>
        length (projr (b64ToByteArray s)) + placeHolders s = length s * 3 div 4)"
proof (cases "length s mod 4 = 0")
  case True
  then obtain k where k: "length s = 4 * k" by (auto simp: mod_eq_0_iff_dvd)
  show ?thesis
  proof (cases "placeHolders s = 0")
    case True
    then show ?thesis using k by (simp add: b64ToByteArray_def length_decode_quads decode_tail_def)
  next
    case False
    then have "s \<noteq> []" using placeHolders_ne by blast
    then obtain j where j: "k = Suc j" using k by (cases k) auto
    then have l: "length (drop (length s - 4) s) = 4" using k by simp
    then obtain c0 c1 c2 c3 where q: "drop (length s - 4) s = [c0, c1, c2, c3]"
      using length_4_cases by blast
    from False placeHolders_le [of s] have "placeHolders s = 1 \<or> placeHolders s = 2" by linarith
    then show ?thesis using k j q
      by (auto simp: b64ToByteArray_def length_decode_quads decode_tail_def Let_def)
  qed
next
  case False
  then show ?thesis by (simp add: b64ToByteArray_def)
qed

theorem b64ToByteArray_size_witness:
  "length (projr (b64ToByteArray ''Zg=='')) + placeHolders ''Zg=='' = 3"
  using b64ToByteArray_size [of "''Zg==''"] by simp

end
