(* ===== verification/Buffer_Int.thy ===== *)
theory Buffer_Int
  imports Base64
begin

text \<open>
  The integer accessors of the \<open>buffer\<close> module of \<open>swagger-ui.js\<close> (module 14), in the build with
  typed arrays (\<open>Buffer.TYPED_ARRAY_SUPPORT\<close>): a buffer is a list of \<open>8 word\<close>, an index out of
  range reads \<open>undefined\<close> and ignores a store, and a store keeps the number modulo 256. Offsets,
  lengths and values are integral numbers. A reader returns a \<open>jsnum\<close>, a writer the new buffer and
  the offset after the value; both may throw. The fallback \<open>objectWriteUInt16\<close> and
  \<open>objectWriteUInt32\<close> of builds without typed arrays are modelled too, and shown to store the same
  bytes.
\<close>

section \<open>The module\<close>

text \<open>\<open>this[i]\<close> and \<open>this[i] = v\<close> on a \<open>Uint8Array\<close>.\<close>

definition at :: "bytes \<Rightarrow> int \<Rightarrow> jsnum" where
  "at buf i = (if 0 \<le> i \<and> i < int (length buf) then Num (uint (buf ! nat i)) else Undefined)"

definition store :: "int \<Rightarrow> int \<Rightarrow> bytes \<Rightarrow> bytes" where
  "store i v buf = (if 0 \<le> i then buf[nat i := word_of_int v] else buf)"

definition checkOffset :: "int \<Rightarrow> int \<Rightarrow> nat \<Rightarrow> unit result" where
  "checkOffset offset ext len =
     (if offset < 0 then Inl (RangeError ''offset is not uint'')
      else if offset + ext > int len then Inl (RangeError ''Trying to access beyond buffer length'')
      else Inr ())"

definition guarded :: "bool \<Rightarrow> unit result \<Rightarrow> 'a result \<Rightarrow> 'a result" where
  "guarded noAssert chk body = (if noAssert then body else bindR chk (\<lambda>_. body))"

text \<open>The loop \<open>while (++i < byteLength && (mul *= 0x100)) val += this[offset + i] * mul\<close>; it returns
  \<open>val\<close> and \<open>mul\<close>.\<close>

function le_loop :: "bytes \<Rightarrow> int \<Rightarrow> int \<Rightarrow> int \<Rightarrow> int \<Rightarrow> jsnum \<Rightarrow> jsnum \<times> int" where
  "le_loop buf offset byteLength i mul val =
     (if i + 1 < byteLength
      then le_loop buf offset byteLength (i + 1) (mul * 256)
             (num_add val (num_mul (at buf (offset + (i + 1))) (Num (mul * 256))))
      else (val, mul))"
  by pat_completeness auto
termination
  by (relation "measure (\<lambda>(buf, offset, byteLength, i, mul, val). nat (byteLength - i))") auto

text \<open>The loop \<open>while (n > 0 && (mul *= 0x100)) val += this[offset + --n] * mul\<close>.\<close>

function be_loop :: "bytes \<Rightarrow> int \<Rightarrow> int \<Rightarrow> int \<Rightarrow> jsnum \<Rightarrow> jsnum \<times> int" where
  "be_loop buf offset n mul val =
     (if n > 0
      then be_loop buf offset (n - 1) (mul * 256)
             (num_add val (num_mul (at buf (offset + (n - 1))) (Num (mul * 256))))
      else (val, mul))"
  by pat_completeness auto
termination
  by (relation "measure (\<lambda>(buf, offset, n, mul, val). nat n)") auto

declare le_loop.simps [simp del] be_loop.simps [simp del]

definition readUIntLE :: "bytes \<Rightarrow> int \<Rightarrow> int \<Rightarrow> bool \<Rightarrow> jsnum result" where
  "readUIntLE buf offset0 byteLength0 noAssert =
     (let offset = to_int32 offset0; byteLength = to_int32 byteLength0
      in guarded noAssert (checkOffset offset byteLength (length buf))
           (Inr (fst (le_loop buf offset byteLength 0 1 (at buf offset)))))"

definition readUIntBE :: "bytes \<Rightarrow> int \<Rightarrow> int \<Rightarrow> bool \<Rightarrow> jsnum result" where
  "readUIntBE buf offset0 byteLength0 noAssert =
     (let offset = to_int32 offset0; byteLength = to_int32 byteLength0
      in guarded noAssert (checkOffset offset byteLength (length buf))
           (Inr (fst (be_loop buf offset (byteLength - 1) 1 (at buf (offset + (byteLength - 1)))))))"

definition readUInt8 :: "bytes \<Rightarrow> int \<Rightarrow> bool \<Rightarrow> jsnum result" where
  "readUInt8 buf offset noAssert =
     guarded noAssert (checkOffset offset 1 (length buf)) (Inr (at buf offset))"

definition readUInt16LE :: "bytes \<Rightarrow> int \<Rightarrow> bool \<Rightarrow> jsnum result" where
  "readUInt16LE buf offset noAssert =
     guarded noAssert (checkOffset offset 2 (length buf))
       (Inr (Num (or32 (num_int32 (at buf offset)) (shl32 (num_int32 (at buf (offset + 1))) 8))))"

definition readUInt16BE :: "bytes \<Rightarrow> int \<Rightarrow> bool \<Rightarrow> jsnum result" where
  "readUInt16BE buf offset noAssert =
     guarded noAssert (checkOffset offset 2 (length buf))
       (Inr (Num (or32 (shl32 (num_int32 (at buf offset)) 8) (num_int32 (at buf (offset + 1))))))"

definition readUInt32LE :: "bytes \<Rightarrow> int \<Rightarrow> bool \<Rightarrow> jsnum result" where
  "readUInt32LE buf offset noAssert =
     guarded noAssert (checkOffset offset 4 (length buf))
       (Inr (num_add
          (Num (or32 (or32 (num_int32 (at buf offset)) (shl32 (num_int32 (at buf (offset + 1))) 8))
                  (shl32 (num_int32 (at buf (offset + 2))) 16)))
          (num_mul (at buf (offset + 3)) (Num 0x1000000))))"

definition readUInt32BE :: "bytes \<Rightarrow> int \<Rightarrow> bool \<Rightarrow> jsnum result" where
  "readUInt32BE buf offset noAssert =
     guarded noAssert (checkOffset offset 4 (length buf))
       (Inr (num_add (num_mul (at buf offset) (Num 0x1000000))
          (Num (or32 (or32 (shl32 (num_int32 (at buf (offset + 1))) 16)
                           (shl32 (num_int32 (at buf (offset + 2))) 8))
                  (num_int32 (at buf (offset + 3)))))))"

text \<open>The sign correction \<open>if (val >= mul) val -= Math.pow(2, 8 * byteLength)\<close>; a comparison with
  \<open>NaN\<close> or \<open>undefined\<close> is false.\<close>

fun sign_fix :: "jsnum \<times> int \<Rightarrow> int \<Rightarrow> jsnum" where
  "sign_fix (Num v, mul) byteLength =
     (if v \<ge> mul * 128 then Num (v - 2 ^ nat (8 * byteLength)) else Num v)"
| "sign_fix (v, mul) byteLength = v"

definition readIntLE :: "bytes \<Rightarrow> int \<Rightarrow> int \<Rightarrow> bool \<Rightarrow> jsnum result" where
  "readIntLE buf offset0 byteLength0 noAssert =
     (let offset = to_int32 offset0; byteLength = to_int32 byteLength0
      in guarded noAssert (checkOffset offset byteLength (length buf))
           (Inr (sign_fix (le_loop buf offset byteLength 0 1 (at buf offset)) byteLength)))"

definition readIntBE :: "bytes \<Rightarrow> int \<Rightarrow> int \<Rightarrow> bool \<Rightarrow> jsnum result" where
  "readIntBE buf offset0 byteLength0 noAssert =
     (let offset = to_int32 offset0; byteLength = to_int32 byteLength0
      in guarded noAssert (checkOffset offset byteLength (length buf))
           (Inr (sign_fix (be_loop buf offset (byteLength - 1) 1 (at buf (offset + (byteLength - 1)))) byteLength)))"

text \<open>\<open>readInt8\<close> returns \<open>this[offset]\<close> itself when bit 7 is clear, so \<open>undefined\<close> stays \<open>undefined\<close>.\<close>

definition readInt8 :: "bytes \<Rightarrow> int \<Rightarrow> bool \<Rightarrow> jsnum result" where
  "readInt8 buf offset noAssert =
     guarded noAssert (checkOffset offset 1 (length buf))
       (Inr (if and32 (num_int32 (at buf offset)) 0x80 = 0 then at buf offset
             else case at buf offset of Num v \<Rightarrow> Num ((0xff - v + 1) * -1) | _ \<Rightarrow> NaN))"

definition readInt16LE :: "bytes \<Rightarrow> int \<Rightarrow> bool \<Rightarrow> jsnum result" where
  "readInt16LE buf offset noAssert =
     guarded noAssert (checkOffset offset 2 (length buf))
       (let val = or32 (num_int32 (at buf offset)) (shl32 (num_int32 (at buf (offset + 1))) 8)
        in Inr (Num (if and32 val 0x8000 \<noteq> 0 then or32 val 0xFFFF0000 else val)))"

definition readInt16BE :: "bytes \<Rightarrow> int \<Rightarrow> bool \<Rightarrow> jsnum result" where
  "readInt16BE buf offset noAssert =
     guarded noAssert (checkOffset offset 2 (length buf))
       (let val = or32 (num_int32 (at buf (offset + 1))) (shl32 (num_int32 (at buf offset)) 8)
        in Inr (Num (if and32 val 0x8000 \<noteq> 0 then or32 val 0xFFFF0000 else val)))"

definition readInt32LE :: "bytes \<Rightarrow> int \<Rightarrow> bool \<Rightarrow> jsnum result" where
  "readInt32LE buf offset noAssert =
     guarded noAssert (checkOffset offset 4 (length buf))
       (Inr (Num (or32 (or32 (or32 (num_int32 (at buf offset)) (shl32 (num_int32 (at buf (offset + 1))) 8))
                          (shl32 (num_int32 (at buf (offset + 2))) 16))
                    (shl32 (num_int32 (at buf (offset + 3))) 24))))"

definition readInt32BE :: "bytes \<Rightarrow> int \<Rightarrow> bool \<Rightarrow> jsnum result" where
  "readInt32BE buf offset noAssert =
     guarded noAssert (checkOffset offset 4 (length buf))
       (Inr (Num (or32 (or32 (or32 (shl32 (num_int32 (at buf offset)) 24)
                                   (shl32 (num_int32 (at buf (offset + 1))) 16))
                          (shl32 (num_int32 (at buf (offset + 2))) 8))
                    (num_int32 (at buf (offset + 3))))))"

text \<open>\<open>Math.pow(2, e)\<close> rounded down, which is all a comparison with an integral value sees of it.\<close>

definition pow2 :: "int \<Rightarrow> int" where
  "pow2 e = (if e < 0 then 0 else 2 ^ nat e)"

text \<open>The writers. \<open>checkInt\<close> does not reject a negative offset.\<close>

definition checkInt :: "bytes \<Rightarrow> int \<Rightarrow> int \<Rightarrow> int \<Rightarrow> int \<Rightarrow> int \<Rightarrow> unit result" where
  "checkInt buf value offset ext mx mn =
     (if value > mx \<or> value < mn then Inl (RangeError ''value is out of bounds'')
      else if offset + ext > int (length buf) then Inl (RangeError ''index out of range'')
      else Inr ())"

text \<open>The loops \<open>while (++i < byteLength && (mul *= 0x100)) this[offset + i] = byte(value, mul)\<close>
  and \<open>while (--i >= 0 && (mul *= 0x100)) this[offset + i] = byte(value, mul)\<close>.\<close>

function le_write_loop :: "(int \<Rightarrow> int) \<Rightarrow> int \<Rightarrow> int \<Rightarrow> int \<Rightarrow> int \<Rightarrow> bytes \<Rightarrow> bytes" where
  "le_write_loop byte offset byteLength i mul buf =
     (if i + 1 < byteLength
      then le_write_loop byte offset byteLength (i + 1) (mul * 256) (store (offset + (i + 1)) (byte (mul * 256)) buf)
      else buf)"
  by pat_completeness auto
termination
  by (relation "measure (\<lambda>(byte, offset, byteLength, i, mul, buf). nat (byteLength - i))") auto

function be_write_loop :: "(int \<Rightarrow> int) \<Rightarrow> int \<Rightarrow> int \<Rightarrow> int \<Rightarrow> bytes \<Rightarrow> bytes" where
  "be_write_loop byte offset i mul buf =
     (if i - 1 \<ge> 0
      then be_write_loop byte offset (i - 1) (mul * 256) (store (offset + (i - 1)) (byte (mul * 256)) buf)
      else buf)"
  by pat_completeness auto
termination
  by (relation "measure (\<lambda>(byte, offset, i, mul, buf). nat i)") auto

declare le_write_loop.simps [simp del] be_write_loop.simps [simp del]

definition uint_byte :: "int \<Rightarrow> int \<Rightarrow> int" where
  "uint_byte value mul = and32 (trunc_div value mul) 0xFF"

definition writeUIntLE :: "bytes \<Rightarrow> int \<Rightarrow> int \<Rightarrow> int \<Rightarrow> bool \<Rightarrow> (bytes \<times> int) result" where
  "writeUIntLE buf value offset0 byteLength0 noAssert =
     (let offset = to_int32 offset0; byteLength = to_int32 byteLength0
      in guarded noAssert (checkInt buf value offset byteLength (pow2 (8 * byteLength)) 0)
           (Inr (le_write_loop (uint_byte value) offset byteLength 0 1 (store offset (and32 value 0xFF) buf),
                 offset + byteLength)))"

definition writeUIntBE :: "bytes \<Rightarrow> int \<Rightarrow> int \<Rightarrow> int \<Rightarrow> bool \<Rightarrow> (bytes \<times> int) result" where
  "writeUIntBE buf value offset0 byteLength0 noAssert =
     (let offset = to_int32 offset0; byteLength = to_int32 byteLength0
      in guarded noAssert (checkInt buf value offset byteLength (pow2 (8 * byteLength)) 0)
           (Inr (be_write_loop (uint_byte value) offset (byteLength - 1) 1
                   (store (offset + (byteLength - 1)) (and32 value 0xFF) buf),
                 offset + byteLength)))"

definition writeUInt8 :: "bytes \<Rightarrow> int \<Rightarrow> int \<Rightarrow> bool \<Rightarrow> (bytes \<times> int) result" where
  "writeUInt8 buf value offset0 noAssert =
     (let offset = to_int32 offset0
      in guarded noAssert (checkInt buf value offset 1 0xff 0) (Inr (store offset value buf, offset + 1)))"

definition objectWriteUInt16 :: "bytes \<Rightarrow> int \<Rightarrow> int \<Rightarrow> bool \<Rightarrow> bytes" where
  "objectWriteUInt16 buf value0 offset littleEndian =
     (let value = (if value0 < 0 then 0xffff + value0 + 1 else value0);
          j = min (int (length buf) - offset) 2
      in fold (\<lambda>i b. let k = (if littleEndian then i else 1 - i) * 8
                      in store (offset + int i) (ushr32 (and32 value (shl32 0xff k)) k) b)
           [0..<nat j] buf)"

definition writeUInt16LE :: "bytes \<Rightarrow> int \<Rightarrow> int \<Rightarrow> bool \<Rightarrow> (bytes \<times> int) result" where
  "writeUInt16LE buf value offset0 noAssert =
     (let offset = to_int32 offset0
      in guarded noAssert (checkInt buf value offset 2 0xffff 0)
           (Inr (store (offset + 1) (ushr32 value 8) (store offset value buf), offset + 2)))"

definition writeUInt16BE :: "bytes \<Rightarrow> int \<Rightarrow> int \<Rightarrow> bool \<Rightarrow> (bytes \<times> int) result" where
  "writeUInt16BE buf value offset0 noAssert =
     (let offset = to_int32 offset0
      in guarded noAssert (checkInt buf value offset 2 0xffff 0)
           (Inr (store (offset + 1) value (store offset (ushr32 value 8) buf), offset + 2)))"

definition objectWriteUInt32 :: "bytes \<Rightarrow> int \<Rightarrow> int \<Rightarrow> bool \<Rightarrow> bytes" where
  "objectWriteUInt32 buf value0 offset littleEndian =
     (let value = (if value0 < 0 then 0xffffffff + value0 + 1 else value0);
          j = min (int (length buf) - offset) 4
      in fold (\<lambda>i b. let k = (if littleEndian then i else 3 - i) * 8
                      in store (offset + int i) (and32 (ushr32 value k) 0xff) b)
           [0..<nat j] buf)"

text \<open>The four stores of a 32-bit value, in the order of the code.\<close>

definition put32LE :: "int \<Rightarrow> int \<Rightarrow> bytes \<Rightarrow> bytes" where
  "put32LE value offset buf =
     store offset value (store (offset + 1) (ushr32 value 8)
       (store (offset + 2) (ushr32 value 16) (store (offset + 3) (ushr32 value 24) buf)))"

definition put32BE :: "int \<Rightarrow> int \<Rightarrow> bytes \<Rightarrow> bytes" where
  "put32BE value offset buf =
     store (offset + 3) value (store (offset + 2) (ushr32 value 8)
       (store (offset + 1) (ushr32 value 16) (store offset (ushr32 value 24) buf)))"

definition writeUInt32LE :: "bytes \<Rightarrow> int \<Rightarrow> int \<Rightarrow> bool \<Rightarrow> (bytes \<times> int) result" where
  "writeUInt32LE buf value offset0 noAssert =
     (let offset = to_int32 offset0
      in guarded noAssert (checkInt buf value offset 4 0xffffffff 0)
           (Inr (put32LE value offset buf, offset + 4)))"

definition writeUInt32BE :: "bytes \<Rightarrow> int \<Rightarrow> int \<Rightarrow> bool \<Rightarrow> (bytes \<times> int) result" where
  "writeUInt32BE buf value offset0 noAssert =
     (let offset = to_int32 offset0
      in guarded noAssert (checkInt buf value offset 4 0xffffffff 0)
           (Inr (put32BE value offset buf, offset + 4)))"

text \<open>\<open>((value / mul) >> 0) - sub & 0xFF\<close>, with \<open>sub = value < 0 ? 1 : 0\<close> set once before the loop.\<close>

definition int_byte :: "int \<Rightarrow> int \<Rightarrow> int" where
  "int_byte value mul = and32 (to_int32 (trunc_div value mul) - (if value < 0 then 1 else 0)) 0xFF"

definition writeIntLE :: "bytes \<Rightarrow> int \<Rightarrow> int \<Rightarrow> int \<Rightarrow> bool \<Rightarrow> (bytes \<times> int) result" where
  "writeIntLE buf value offset0 byteLength noAssert =
     (let offset = to_int32 offset0; limit = pow2 (8 * byteLength - 1)
      in guarded noAssert (checkInt buf value offset byteLength (limit - 1) (- limit))
           (Inr (le_write_loop (int_byte value) offset byteLength 0 1 (store offset (and32 value 0xFF) buf),
                 offset + byteLength)))"

definition writeIntBE :: "bytes \<Rightarrow> int \<Rightarrow> int \<Rightarrow> int \<Rightarrow> bool \<Rightarrow> (bytes \<times> int) result" where
  "writeIntBE buf value offset0 byteLength noAssert =
     (let offset = to_int32 offset0; limit = pow2 (8 * byteLength - 1)
      in guarded noAssert (checkInt buf value offset byteLength (limit - 1) (- limit))
           (Inr (be_write_loop (int_byte value) offset (byteLength - 1) 1
                   (store (offset + (byteLength - 1)) (and32 value 0xFF) buf),
                 offset + byteLength)))"

definition writeInt8 :: "bytes \<Rightarrow> int \<Rightarrow> int \<Rightarrow> bool \<Rightarrow> (bytes \<times> int) result" where
  "writeInt8 buf value0 offset0 noAssert =
     (let offset = to_int32 offset0
      in guarded noAssert (checkInt buf value0 offset 1 0x7f (- 0x80))
           (let value = (if value0 < 0 then 0xff + value0 + 1 else value0)
            in Inr (store offset value buf, offset + 1)))"

definition writeInt16LE :: "bytes \<Rightarrow> int \<Rightarrow> int \<Rightarrow> bool \<Rightarrow> (bytes \<times> int) result" where
  "writeInt16LE buf value offset0 noAssert =
     (let offset = to_int32 offset0
      in guarded noAssert (checkInt buf value offset 2 0x7fff (- 0x8000))
           (Inr (store (offset + 1) (ushr32 value 8) (store offset value buf), offset + 2)))"

definition writeInt16BE :: "bytes \<Rightarrow> int \<Rightarrow> int \<Rightarrow> bool \<Rightarrow> (bytes \<times> int) result" where
  "writeInt16BE buf value offset0 noAssert =
     (let offset = to_int32 offset0
      in guarded noAssert (checkInt buf value offset 2 0x7fff (- 0x8000))
           (Inr (store (offset + 1) value (store offset (ushr32 value 8) buf), offset + 2)))"

text \<open>\<open>writeInt32LE\<close> stores its low byte first.\<close>

definition writeInt32LE :: "bytes \<Rightarrow> int \<Rightarrow> int \<Rightarrow> bool \<Rightarrow> (bytes \<times> int) result" where
  "writeInt32LE buf value offset0 noAssert =
     (let offset = to_int32 offset0
      in guarded noAssert (checkInt buf value offset 4 0x7fffffff (- 0x80000000))
           (Inr (store (offset + 3) (ushr32 value 24) (store (offset + 2) (ushr32 value 16)
                   (store (offset + 1) (ushr32 value 8) (store offset value buf))), offset + 4)))"

definition writeInt32BE :: "bytes \<Rightarrow> int \<Rightarrow> int \<Rightarrow> bool \<Rightarrow> (bytes \<times> int) result" where
  "writeInt32BE buf value0 offset0 noAssert =
     (let offset = to_int32 offset0
      in guarded noAssert (checkInt buf value0 offset 4 0x7fffffff (- 0x80000000))
           (let value = (if value0 < 0 then 0xffffffff + value0 + 1 else value0)
            in Inr (put32BE value offset buf, offset + 4)))"

section \<open>What the accessors compute\<close>

text \<open>The specification: the number a sequence of bytes stands for, and the bytes of a number.\<close>

fun le_val :: "bytes \<Rightarrow> int" where
  "le_val [] = 0"
| "le_val (b # bs) = uint b + 256 * le_val bs"

fun le_bytes :: "nat \<Rightarrow> int \<Rightarrow> bytes" where
  "le_bytes 0 v = []"
| "le_bytes (Suc n) v = word_of_int v # le_bytes n (v div 256)"

definition field :: "bytes \<Rightarrow> nat \<Rightarrow> nat \<Rightarrow> bytes" where
  "field buf off n = take n (drop off buf)"

definition put_field :: "bytes \<Rightarrow> nat \<Rightarrow> bytes \<Rightarrow> bytes" where
  "put_field buf off bs = take off buf @ bs @ drop (off + length bs) buf"

lemma length_le_bytes [simp]: "length (le_bytes n v) = n"
  by (induction n arbitrary: v) auto

lemma le_val_le_bytes: "le_val (le_bytes n v) = v mod 256 ^ n"
proof (induction n arbitrary: v)
  case (Suc n)
  have "v mod (256 * 256 ^ n) = 256 * (v div 256 mod 256 ^ n) + v mod 256"
    by (rule zmod_zmult2_eq) simp
  with Suc show ?case by (simp add: uint_word_of_int)
qed simp

lemma le_val_bounds: "0 \<le> le_val bs" "le_val bs < 256 ^ length bs"
proof (induction bs)
  case (Cons b bs)
  { case 1 show ?case using Cons by simp
  next
    case 2
    have "uint b + 256 * le_val bs \<le> 255 + 256 * (256 ^ length bs - 1)"
      using Cons uint8_bounds(3) [of b] by (intro add_mono) auto
    then show ?case by simp
  }
qed simp_all

lemma le_bytes_le_val: "le_bytes (length bs) (le_val bs) = bs"
proof (induction bs)
  case (Cons b bs)
  have "(uint b + 256 * le_val bs) div 256 = le_val bs"
    by (simp add: div_mult_self2)
  moreover have "word_of_int (uint b + 256 * le_val bs) = b"
    by (rule word_uint_eqI) (simp only: uint_word_of_int, simp)
  ultimately show ?case using Cons by simp
qed simp

lemma le_val_append: "le_val (a @ b) = le_val a + 256 ^ length a * le_val b"
  by (induction a) (auto simp: algebra_simps)

lemma le_bytes_map: "le_bytes n v = map (\<lambda>k. word_of_int (v div 256 ^ k)) [0..<n]"
proof (induction n arbitrary: v)
  case (Suc n)
  have "map (\<lambda>k. word_of_int (v div 256 ^ k)) [0..<Suc n] =
      (word_of_int v :: 8 word) # map (\<lambda>k. word_of_int (v div 256 ^ Suc k)) [0..<n]"
    by (simp only: map_upt_Suc) simp
  then show ?case using Suc by (simp add: zdiv_zmult2_eq)
qed simp

lemma length_put_field [simp]: "off + length bs \<le> length buf \<Longrightarrow> length (put_field buf off bs) = length buf"
  by (simp add: put_field_def)

lemma put_field_Nil [simp]: "put_field buf off [] = buf"
  by (simp add: put_field_def)

lemma field_put_field: "off + length bs \<le> length buf \<Longrightarrow> field (put_field buf off bs) off (length bs) = bs"
  by (simp add: field_def put_field_def)

lemma put_field_nth:
  "off + length bs \<le> length buf \<Longrightarrow> j < length buf \<Longrightarrow> j < off \<or> off + length bs \<le> j
     \<Longrightarrow> put_field buf off bs ! j = buf ! j"
  by (auto simp: put_field_def nth_append)

lemma length_field [simp]: "off + n \<le> length buf \<Longrightarrow> length (field buf off n) = n"
  by (simp add: field_def)

lemma field_Suc: "off + n < length buf \<Longrightarrow> field buf off (Suc n) = field buf off n @ [buf ! (off + n)]"
  by (simp add: field_def take_Suc_conv_app_nth)

lemma field_Cons: "off < length buf \<Longrightarrow> field buf off (Suc n) = buf ! off # field buf (Suc off) n"
  by (simp add: field_def Cons_nth_drop_Suc [symmetric])

lemma field_zero [simp]: "field buf off 0 = []"
  by (simp add: field_def)

lemma at_nth [simp]: "i < length buf \<Longrightarrow> at buf (int i) = Num (uint (buf ! i))"
  by (simp add: at_def)

lemma length_store [simp]: "length (store i v buf) = length buf"
  by (simp add: store_def)

lemma store_int: "store (int i) v buf = buf[i := word_of_int v]"
  by (simp add: store_def)

lemma store_snoc:
  "off + length bs < length buf \<Longrightarrow>
     store (int (off + length bs)) v (put_field buf off bs) = put_field buf off (bs @ [word_of_int v])"
  unfolding store_int
  by (simp add: put_field_def list_update_append Cons_nth_drop_Suc [symmetric])

lemma store_cons:
  "Suc off + length bs \<le> length buf \<Longrightarrow>
     store (int off) v (put_field buf (Suc off) bs) = put_field buf off (word_of_int v # bs)"
  unfolding store_int
  by (simp add: put_field_def list_update_append take_Suc_conv_app_nth)

text \<open>One turn of each loop on an index in range, then the loops by induction.\<close>

lemma at_off: "i = int off + int k \<Longrightarrow> off + k < length buf \<Longrightarrow> at buf i = Num (uint (buf ! (off + k)))"
  using at_nth [of "off + k" buf] by simp

lemma le_loop_step:
  "Suc i < n \<Longrightarrow> off + Suc i < length buf \<Longrightarrow>
     le_loop buf (int off) (int n) (int i) mul (Num v)
       = le_loop buf (int off) (int n) (int (Suc i)) (mul * 256) (Num (v + uint (buf ! (off + Suc i)) * (mul * 256)))"
  by (subst le_loop.simps) (simp add: at_off [of _ off "Suc i"] add.commute)

lemma le_loop_stop: "int n \<le> int (Suc i) \<Longrightarrow> le_loop buf off (int n) (int i) mul v = (v, mul)"
  by (subst le_loop.simps) simp

lemma le_loop_val:
  "off + n \<le> length buf \<Longrightarrow> i < n \<Longrightarrow>
     le_loop buf (int off) (int n) (int i) (256 ^ i) (Num (le_val (field buf off (Suc i))))
       = (Num (le_val (field buf off n)), 256 ^ (n - 1))"
proof (induction "n - Suc i" arbitrary: i)
  case 0
  then have "n = Suc i" by simp
  then show ?case by (simp add: le_loop_stop del: of_nat_Suc)
next
  case (Suc k)
  then have i: "Suc i < n" "off + Suc i < length buf" and k: "k = n - Suc (Suc i)" by auto
  have "le_val (field buf off (Suc (Suc i))) =
      le_val (field buf off (Suc i)) + uint (buf ! (off + Suc i)) * (256 ^ i * 256)"
    using field_Suc [of off "Suc i" buf] i by (simp add: le_val_append)
  then show ?case
    using Suc.hyps(1) [OF k] Suc.prems(1) i
    by (simp only: le_loop_step power_Suc2 simp_thms)
qed

lemma be_loop_step:
  "off + n < length buf \<Longrightarrow>
     be_loop buf (int off) (int (Suc n)) mul (Num v)
       = be_loop buf (int off) (int n) (mul * 256) (Num (v + uint (buf ! (off + n)) * (mul * 256)))"
  by (subst be_loop.simps) (simp add: at_off [of _ off n])

lemma be_loop_val:
  "off + n + Suc m \<le> length buf \<Longrightarrow>
     be_loop buf (int off) (int n) (256 ^ m) (Num (le_val (rev (field buf (off + n) (Suc m)))))
       = (Num (le_val (rev (field buf off (n + Suc m)))), 256 ^ (n + m))"
proof (induction n arbitrary: m)
  case 0
  then show ?case by (subst be_loop.simps) simp
next
  case (Suc n)
  have "le_val (rev (field buf (off + n) (Suc (Suc m)))) =
      le_val (rev (field buf (off + Suc n) (Suc m))) + uint (buf ! (off + n)) * (256 ^ m * 256)"
    using field_Cons [of "off + n" buf "Suc m"] Suc.prems by (simp add: le_val_append)
  then show ?case
    using Suc.IH [of "Suc m"] Suc.prems by (simp add: be_loop_step power_Suc2 del: of_nat_Suc power_Suc)
qed

lemma le_write_loop_step:
  "Suc i < n \<Longrightarrow> off + Suc i < length buf \<Longrightarrow> length bs = Suc i \<Longrightarrow>
     le_write_loop byte (int off) (int n) (int i) mul (put_field buf off bs)
       = le_write_loop byte (int off) (int n) (int (Suc i)) (mul * 256)
           (put_field buf off (bs @ [word_of_int (byte (mul * 256))]))"
  using store_snoc [of off bs buf "byte (mul * 256)"] by (subst le_write_loop.simps) (simp add: ac_simps)

lemma le_write_loop_put:
  "off + n \<le> length buf \<Longrightarrow> length bs = Suc i \<Longrightarrow> i < n \<Longrightarrow>
     le_write_loop byte (int off) (int n) (int i) (256 ^ i) (put_field buf off bs)
       = put_field buf off (bs @ map (\<lambda>k. word_of_int (byte (256 ^ k))) [Suc i..<n])"
proof (induction "n - Suc i" arbitrary: i bs)
  case 0
  then have "n = Suc i" by simp
  then show ?case by (subst le_write_loop.simps) simp
next
  case (Suc k)
  then have i: "Suc i < n" "off + Suc i < length buf" and k: "k = n - Suc (Suc i)" by auto
  let ?w = "word_of_int (byte (256 ^ Suc i)) :: 8 word"
  have "le_write_loop byte (int off) (int n) (int (Suc i)) (256 ^ Suc i) (put_field buf off (bs @ [?w]))
      = put_field buf off ((bs @ [?w]) @ map (\<lambda>k. word_of_int (byte (256 ^ k))) [Suc (Suc i)..<n])"
    using Suc.prems i by (intro Suc.hyps(1) k) auto
  moreover have "[Suc i..<n] = Suc i # [Suc (Suc i)..<n]" using i by (simp add: upt_conv_Cons)
  ultimately show ?case
    using Suc.prems i by (simp add: le_write_loop_step power_Suc2 del: of_nat_Suc power_Suc)
qed

lemma be_write_loop_step:
  "off + Suc n + length bs \<le> length buf \<Longrightarrow>
     be_write_loop byte (int off) (int (Suc n)) mul (put_field buf (off + Suc n) bs)
       = be_write_loop byte (int off) (int n) (mul * 256) (put_field buf (off + n) (word_of_int (byte (mul * 256)) # bs))"
  using store_cons [of "off + n" bs buf] by (subst be_write_loop.simps) simp

lemma be_write_loop_put:
  "off + n + Suc m \<le> length buf \<Longrightarrow> length bs = Suc m \<Longrightarrow>
     be_write_loop byte (int off) (int n) (256 ^ m) (put_field buf (off + n) bs)
       = put_field buf off (rev (map (\<lambda>k. word_of_int (byte (256 ^ k))) [Suc m..<n + Suc m]) @ bs)"
proof (induction n arbitrary: m bs)
  case 0
  then show ?case by (subst be_write_loop.simps) simp
next
  case (Suc n)
  let ?w = "word_of_int (byte (256 ^ Suc m)) :: 8 word"
  have "be_write_loop byte (int off) (int n) (256 ^ Suc m) (put_field buf (off + n) (?w # bs))
      = put_field buf off (rev (map (\<lambda>k. word_of_int (byte (256 ^ k))) [Suc (Suc m)..<n + Suc (Suc m)]) @ ?w # bs)"
    using Suc.prems by (intro Suc.IH) auto
  moreover have "[Suc m..<Suc n + Suc m] = Suc m # [Suc (Suc m)..<n + Suc (Suc m)]" by (simp add: upt_conv_Cons)
  ultimately show ?case
    using Suc.prems be_write_loop_step [of off n bs buf byte "256 ^ m"]
    by (simp add: power_Suc2 del: of_nat_Suc power_Suc upt_Suc)
qed

text \<open>The byte a writer stores at weight \<open>256 ^ k\<close>: always the right one for a value that is not
  negative, and for a negative one unless the value is a multiple of the weight.\<close>

lemma byte_word_eqI: "a mod 256 = b mod 256 \<Longrightarrow> word_of_int a = (word_of_int b :: 8 word)"
  by (rule word_uint_eqI) (simp add: uint_word_of_int)

lemma pow256: "256 ^ k = (2 :: int) ^ (8 * k)"
  by (simp add: power_mult)

lemma uint_byte_word: "0 \<le> v \<Longrightarrow> word_of_int (uint_byte v (256 ^ k)) = (word_of_int (v div 256 ^ k) :: 8 word)"
  by (rule byte_word_eqI) (simp add: uint_byte_def and32_255 trunc_div_nonneg)

lemma trunc_div_neg:
  assumes "v < 0" "0 < m" "\<not> m dvd v"
  shows "trunc_div v m - 1 = v div m"
proof -
  have "(- v) div m = - (v div m) - 1"
    using zdiv_zminus1_eq_if [of m v] assms by (auto simp: dvd_eq_mod_eq_0)
  then show ?thesis using assms by (simp add: trunc_div_def)
qed

lemma int_byte_word:
  assumes "0 \<le> v \<or> \<not> 256 ^ k dvd v"
  shows "word_of_int (int_byte v (256 ^ k)) = (word_of_int (v div 256 ^ k) :: 8 word)"
proof (rule byte_word_eqI)
  have m: "to_int32 x mod 256 = x mod 256" for x
    using to_int32_mod_pow [of 8 x] by simp
  show "int_byte v (256 ^ k) mod 256 = v div 256 ^ k mod 256"
  proof (cases "v < 0")
    case True
    then have "trunc_div v (256 ^ k) - 1 = v div 256 ^ k" using assms by (intro trunc_div_neg) auto
    moreover have "(to_int32 (trunc_div v (256 ^ k)) - 1) mod 256 = (trunc_div v (256 ^ k) - 1) mod 256"
      by (rule mod_diff_cong) (simp_all add: m)
    ultimately show ?thesis using True by (simp add: int_byte_def and32_255)
  next
    case False
    then show ?thesis by (simp add: int_byte_def and32_255 m trunc_div_nonneg)
  qed
qed

lemma ushr32_word:
  assumes "k \<le> 3"
  shows "word_of_int (ushr32 v (8 * k)) = (word_of_int (v div 256 ^ k) :: 8 word)"
proof (rule bit_word_eqI)
  fix n assume "n < LENGTH(8)"
  then have "n + 8 * k < 32" "8 * k < 32" using assms by auto
  then show "bit (word_of_int (ushr32 v (8 * k)) :: 8 word) n = bit (word_of_int (v div 256 ^ k) :: 8 word) n"
    unfolding ushr32_def to_uint32_def pow256 drop_bit_eq_div [symmetric] take_bit_eq_mod [symmetric]
    by (auto simp: bit_word_of_int_iff bit_drop_bit_eq bit_take_bit_iff add.commute)
qed

lemmas ushr32_bytes = ushr32_word [of 1, simplified] ushr32_word [of 2, simplified] ushr32_word [of 3, simplified]

text \<open>A field written by single stores, highest address last.\<close>

lemma put_field_stores:
  "off + length bs < length buf \<Longrightarrow> put_field buf off (b # bs) = (put_field buf (Suc off) bs)[off := b]"
  using store_cons [of off bs buf "uint b"] by (simp add: store_int)

lemma put_field_1: "off + 1 \<le> length buf \<Longrightarrow> put_field buf off [a] = buf[off := a]"
  by (simp add: put_field_stores)

lemma put_field_2: "off + 2 \<le> length buf \<Longrightarrow> put_field buf off [a, b] = buf[off := a, off + 1 := b]"
  by (simp add: put_field_stores list_update_swap)

lemma put_field_4:
  "off + 4 \<le> length buf \<Longrightarrow>
     put_field buf off [a, b, c, d] = buf[off := a, off + 1 := b, off + 2 := c, off + 3 := d]"
  by (simp add: put_field_stores list_update_swap numeral_3_eq_3 numeral_2_eq_2)

lemma store_off: "i = int off + int k \<Longrightarrow> store i v buf = buf[off + k := word_of_int v]"
  by (simp add: store_def nat_add_distrib)

section \<open>The accessors against the specification\<close>

text \<open>The two's complement reading of a field.\<close>

definition sval :: "nat \<Rightarrow> int \<Rightarrow> int" where
  "sval n v = (if 2 * v \<ge> 256 ^ n then v - 256 ^ n else v)"

lemma sval_mod: "- (256 ^ n) \<le> 2 * v \<Longrightarrow> 2 * v < 256 ^ n \<Longrightarrow> sval n (v mod 256 ^ n) = v"
proof -
  assume h: "- (256 ^ n) \<le> 2 * v" "2 * v < 256 ^ n"
  show ?thesis
  proof (cases "v < 0")
    case True
    then have "v mod 256 ^ n = v + 256 ^ n"
      using h by (intro int_mod_pos_eq [where q = "-1"]) auto
    then show ?thesis using h True by (simp add: sval_def)
  next
    case False
    then have "v mod 256 ^ n = v" using h by simp
    then show ?thesis using h by (simp add: sval_def)
  qed
qed

text \<open>An offset and a width inside a buffer that an array index can address.\<close>

definition in_range :: "bytes \<Rightarrow> nat \<Rightarrow> nat \<Rightarrow> bool" where
  "in_range buf off n \<longleftrightarrow> 0 < n \<and> off + n \<le> length buf \<and> length buf < 2 ^ 31"

lemma in_range_pos: "in_range buf off n \<Longrightarrow> 0 < n"
  by (simp add: in_range_def)

lemma in_range_int32:
  "in_range buf off n \<Longrightarrow> to_int32 (int off) = int off" "in_range buf off n \<Longrightarrow> to_int32 (int n) = int n"
  by (simp_all add: in_range_def to_int32_small)

lemma checkOffset_in_range: "in_range buf off n \<Longrightarrow> checkOffset (int off) (int n) (length buf) = Inr ()"
  by (simp add: in_range_def checkOffset_def)

lemma guarded_ok [simp]: "chk = Inr () \<Longrightarrow> guarded noAssert chk body = body"
  by (simp add: guarded_def)

lemma le_loop_field:
  "in_range buf off n \<Longrightarrow>
     le_loop buf (int off) (int n) 0 1 (at buf (int off)) = (Num (le_val (field buf off n)), 256 ^ (n - 1))"
  using le_loop_val [of off n buf 0] field_Suc [of off 0 buf] by (simp add: in_range_def)

lemma be_loop_field:
  assumes "in_range buf off n"
  shows "be_loop buf (int off) (int n - 1) 1 (at buf (int off + (int n - 1)))
           = (Num (le_val (rev (field buf off n))), 256 ^ (n - 1))"
proof -
  obtain m where n: "n = Suc m" using assms by (cases n) (auto simp: in_range_def)
  then have m: "off + m < length buf" using assms by (simp add: in_range_def)
  then have "at buf (int off + (int n - 1)) = Num (le_val (rev (field buf (off + m) (Suc 0))))"
    using n at_nth [of "off + m" buf] field_Suc [of "off + m" 0 buf] by simp
  then show ?thesis using be_loop_val [of off m 0 buf] n m by simp
qed

lemma readUIntLE_field:
  "in_range buf off n \<Longrightarrow> readUIntLE buf (int off) (int n) noAssert = Inr (Num (le_val (field buf off n)))"
  by (simp add: readUIntLE_def in_range_int32 checkOffset_in_range le_loop_field)

lemma readUIntBE_field:
  "in_range buf off n \<Longrightarrow> readUIntBE buf (int off) (int n) noAssert = Inr (Num (le_val (rev (field buf off n))))"
  by (simp add: readUIntBE_def in_range_int32 checkOffset_in_range be_loop_field)

lemma sign_fix_sval: "0 < n \<Longrightarrow> sign_fix (Num v, 256 ^ (n - 1)) (int n) = Num (sval n v)"
proof -
  assume "0 < n"
  then obtain m where "n = Suc m" by (cases n) auto
  moreover have "nat (8 * int n) = 8 * n" by simp
  ultimately show ?thesis using pow256 [of n] by (auto simp: sval_def)
qed

lemma readIntLE_field:
  "in_range buf off n \<Longrightarrow> readIntLE buf (int off) (int n) noAssert = Inr (Num (sval n (le_val (field buf off n))))"
  using sign_fix_sval [of n] in_range_pos [of buf off n]
  by (simp add: readIntLE_def in_range_int32 checkOffset_in_range le_loop_field del: sign_fix.simps)

lemma readIntBE_field:
  "in_range buf off n \<Longrightarrow> readIntBE buf (int off) (int n) noAssert = Inr (Num (sval n (le_val (rev (field buf off n)))))"
  using sign_fix_sval [of n] in_range_pos [of buf off n]
  by (simp add: readIntBE_def in_range_int32 checkOffset_in_range be_loop_field del: sign_fix.simps)

text \<open>The fixed-width readers.\<close>

lemma field_1: "off + 1 \<le> length buf \<Longrightarrow> field buf off 1 = [buf ! off]"
  by (simp add: field_Cons)

lemma field_2: "off + 2 \<le> length buf \<Longrightarrow> field buf off 2 = [buf ! off, buf ! (off + 1)]"
  by (simp add: field_Cons numeral_2_eq_2)

lemma field_4: "off + 4 \<le> length buf \<Longrightarrow>
    field buf off 4 = [buf ! off, buf ! (off + 1), buf ! (off + 2), buf ! (off + 3)]"
  by (simp add: field_Cons eval_nat_numeral)

lemma at_offs:
  "off < length buf \<Longrightarrow> at buf (int off) = Num (uint (buf ! off))"
  "off + 1 < length buf \<Longrightarrow> at buf (int off + 1) = Num (uint (buf ! (off + 1)))"
  "off + 2 < length buf \<Longrightarrow> at buf (int off + 2) = Num (uint (buf ! (off + 2)))"
  "off + 3 < length buf \<Longrightarrow> at buf (int off + 3) = Num (uint (buf ! (off + 3)))"
  using at_nth at_off [of _ off 1 buf] at_off [of _ off 2 buf] at_off [of _ off 3 buf] by auto

lemma uint8_less: "256 \<le> m \<Longrightarrow> uint (b :: 8 word) < m"
  using uint8_bounds [of b] by linarith

lemma to_int32_uint8 [simp]: "to_int32 (uint (b :: 8 word)) = uint b"
  by (intro to_int32_small) (simp_all add: uint8_less)

lemma or32_comm: "or32 a b = or32 b a"
  by (simp add: or32_def or.commute)

lemma or32_at:
  "0 \<le> a \<Longrightarrow> 0 \<le> b \<Longrightarrow> b < m \<Longrightarrow> a * m + b < 2147483648 \<Longrightarrow> m = 2 ^ n \<Longrightarrow> or32 b (a * m) = a * m + b"
  using or32_disjoint [of a b n] by (simp add: or32_comm)

lemma shl32_uint8:
  "shl32 (uint (b :: 8 word)) 8 = uint b * 256" "shl32 (uint (b :: 8 word)) 16 = uint b * 65536"
  using shl32_mult [of "uint b" 8] shl32_mult [of "uint b" 16] by (simp_all add: uint8_less)

lemma shl32_uint8_24: "shl32 (uint (b :: 8 word)) 24 = (if uint b < 128 then uint b else uint b - 256) * 16777216"
proof -
  have "(x * 16777216 + 2147483648) mod 4294967296 - 2147483648
      = (if x < 128 then x else x - 256) * 16777216" if "0 \<le> x" "x < 256" for x :: int
    using that by (auto intro!: int_mod_pos_eq [where q = 0] int_mod_pos_eq [where q = 1] simp: diff_eq_eq)
  from this [of "uint b"] show ?thesis using uint8_bounds [of b]
    by (simp add: shl32_def push_bit_eq_mult to_int32_def [of "_ * _"])
qed

lemma or_uint8_2: "or32 (uint (a :: 8 word)) (uint (b :: 8 word) * 256) = uint b * 256 + uint a"
proof (rule or32_at [where n = 8])
  show "uint b * 256 + uint a < 2147483648"
    using uint8_bounds [of a] uint8_bounds [of b] by linarith
qed simp_all

lemma or_uint8_3:
  "or32 (uint (b :: 8 word) * 256 + uint (a :: 8 word)) (uint (c :: 8 word) * 65536)
     = uint c * 65536 + (uint b * 256 + uint a)"
proof (rule or32_at [where n = 16])
  show "uint b * 256 + uint a < 65536" "uint c * 65536 + (uint b * 256 + uint a) < 2147483648"
    using uint8_bounds [of a] uint8_bounds [of b] uint8_bounds [of c] by linarith+
qed simp_all

lemma or32_hi:
  "0 \<le> a \<Longrightarrow> 0 \<le> b \<Longrightarrow> b < m \<Longrightarrow> a * m + b < 2147483648 \<Longrightarrow> m = 2 ^ n \<Longrightarrow> or32 (a * m) b = a * m + b"
  using or32_disjoint [of a b n] by simp

lemma or_uint8_mid:
  "or32 (uint (c :: 8 word) * 65536) (uint (b :: 8 word) * 256) = uint c * 65536 + uint b * 256"
proof (rule or32_hi [where n = 16])
  show "uint c * 65536 + uint b * 256 < 2147483648"
    using uint8_bounds [of b] uint8_bounds [of c] by linarith
qed (simp_all add: uint8_less)

lemma readUInt8_field:
  "in_range buf off 1 \<Longrightarrow> readUInt8 buf (int off) noAssert = Inr (Num (le_val (field buf off 1)))"
  using checkOffset_in_range [of buf off 1] by (simp add: readUInt8_def in_range_def field_Cons)

lemma readUInt16LE_field:
  "in_range buf off 2 \<Longrightarrow> readUInt16LE buf (int off) noAssert = Inr (Num (le_val (field buf off 2)))"
  using checkOffset_in_range [of buf off 2]
  by (simp add: readUInt16LE_def in_range_def field_2 at_offs shl32_uint8 or_uint8_2)

lemma readUInt16BE_field:
  "in_range buf off 2 \<Longrightarrow> readUInt16BE buf (int off) noAssert = Inr (Num (le_val (rev (field buf off 2))))"
  using checkOffset_in_range [of buf off 2]
  by (simp add: readUInt16BE_def in_range_def field_2 at_offs shl32_uint8 or32_comm [of "_ * _"] or_uint8_2)

lemma readUInt32LE_field:
  "in_range buf off 4 \<Longrightarrow> readUInt32LE buf (int off) noAssert = Inr (Num (le_val (field buf off 4)))"
  using checkOffset_in_range [of buf off 4]
  by (simp add: readUInt32LE_def in_range_def field_4 at_offs shl32_uint8 or_uint8_2 or_uint8_3)

lemma or_uint8_3_be:
  "or32 (uint (c :: 8 word) * 65536 + uint (b :: 8 word) * 256) (uint (a :: 8 word))
     = uint c * 65536 + uint b * 256 + uint a"
proof -
  have e: "uint c * 65536 + uint b * 256 = (uint c * 256 + uint b) * 256" by simp
  show ?thesis unfolding e
  proof (rule or32_hi [where n = 8])
    have "uint c * 65536 + uint b * 256 + uint a < 2147483648"
      using uint8_bounds [of a] uint8_bounds [of b] uint8_bounds [of c] by linarith
    then show "(uint c * 256 + uint b) * 256 + uint a < 2147483648" by (simp only: e)
  qed simp_all
qed

lemma readUInt32BE_field:
  "in_range buf off 4 \<Longrightarrow> readUInt32BE buf (int off) noAssert = Inr (Num (le_val (rev (field buf off 4))))"
  using checkOffset_in_range [of buf off 4]
  by (simp add: readUInt32BE_def in_range_def field_4 at_offs shl32_uint8 or_uint8_mid or_uint8_3_be)

lemma readInt8_field:
  "in_range buf off 1 \<Longrightarrow> readInt8 buf (int off) noAssert = Inr (Num (sval 1 (le_val (field buf off 1))))"
proof -
  have bit7: "and32 x 128 = 0 \<longleftrightarrow> x < 128" if "0 \<le> x" "x < 256" for x :: int
  proof -
    have "and32 x 128 = x AND 2 ^ 7" using that by (simp add: and32_def to_int32_small)
    moreover have "x div 128 = (if x < 128 then 0 else 1)" using that by auto
    moreover have "x AND 2 ^ 7 = 0 \<longleftrightarrow> even (x div 128)"
      using and_exp_eq_0_iff_not_bit [of x 7] by (simp add: bit_iff_odd)
    ultimately show ?thesis by simp
  qed
  assume "in_range buf off 1"
  then show ?thesis
    using checkOffset_in_range [of buf off 1] bit7 [of "uint (buf ! off)"]
    by (simp add: readInt8_def in_range_def field_Cons sval_def)
qed

lemma sign16: "0 \<le> x \<Longrightarrow> x < 65536 \<Longrightarrow> (if and32 x 0x8000 \<noteq> 0 then or32 x 0xFFFF0000 else x) = sval 2 x"
proof -
  assume x: "0 \<le> x" "x < 65536"
  have "and32 x 0x8000 = x AND 2 ^ 15" using x by (simp add: and32_def to_int32_small)
  moreover have "x div 32768 = (if x < 32768 then 0 else 1)" using x by auto
  moreover have "x AND 2 ^ 15 = 0 \<longleftrightarrow> even (x div 32768)"
    using and_exp_eq_0_iff_not_bit [of x 15] by (simp add: bit_iff_odd)
  ultimately have "and32 x 0x8000 \<noteq> 0 \<longleftrightarrow> 32768 \<le> x" by simp
  moreover have "or32 x 0xFFFF0000 = x - 65536"
    using or_disjoint [where a = "-1" and b = x and n = 16] x by (simp add: or32_def to_int32_small to_int32_def [of "0xFFFF0000"] or.commute)
  ultimately show ?thesis by (simp add: sval_def)
qed

lemma le_val_2: "le_val [a, b] = uint b * 256 + uint a"
  by simp

lemma readInt16LE_field:
  "in_range buf off 2 \<Longrightarrow> readInt16LE buf (int off) noAssert = Inr (Num (sval 2 (le_val (field buf off 2))))"
  using checkOffset_in_range [of buf off 2] sign16 le_val_bounds [of "[buf ! off, buf ! (off + 1)]"]
  by (simp add: readInt16LE_def in_range_def field_2 at_offs shl32_uint8 or_uint8_2 le_val_2 del: le_val.simps)

lemma readInt16BE_field:
  "in_range buf off 2 \<Longrightarrow> readInt16BE buf (int off) noAssert = Inr (Num (sval 2 (le_val (rev (field buf off 2)))))"
  using checkOffset_in_range [of buf off 2] sign16 le_val_bounds [of "[buf ! (off + 1), buf ! off]"]
  by (simp add: readInt16BE_def in_range_def field_2 at_offs shl32_uint8 or_uint8_2 le_val_2 del: le_val.simps)

lemma or_int32_top:
  assumes "0 \<le> r" "r < 16777216"
  shows "or32 r (shl32 (uint (d :: 8 word)) 24) = sval 4 (uint d * 16777216 + r)"
    and "or32 (shl32 (uint d) 24) r = sval 4 (uint d * 16777216 + r)"
proof -
  let ?s = "if uint d < 128 then uint d else uint d - 256"
  have "to_int32 (?s * 16777216) = ?s * 16777216"
    using uint8_bounds [of d] by (intro to_int32_id; cases "uint d < 128"; simp; linarith)
  then have "or32 (shl32 (uint d) 24) r = ?s * 16777216 OR r"
    using assms by (simp only: shl32_uint8_24 or32_def) (simp add: to_int32_small)
  also have "\<dots> = ?s * 16777216 + r"
    using or_disjoint [where a = ?s and b = r and n = 24] assms by simp
  also have "\<dots> = sval 4 (uint d * 16777216 + r)"
    using assms by (auto simp: sval_def)
  finally show "or32 (shl32 (uint d) 24) r = sval 4 (uint d * 16777216 + r)" .
  then show "or32 r (shl32 (uint d) 24) = sval 4 (uint d * 16777216 + r)" by (simp add: or32_comm)
qed

lemma le_val_3_bound: "uint (c :: 8 word) * 65536 + (uint (b :: 8 word) * 256 + uint (a :: 8 word)) < 16777216"
  using uint8_bounds [of a] uint8_bounds [of b] uint8_bounds [of c] by linarith

lemma le_val_4: "le_val [a, b, c, d] = uint d * 16777216 + (uint c * 65536 + (uint b * 256 + uint a))"
  by simp

lemma readInt32LE_field:
  "in_range buf off 4 \<Longrightarrow> readInt32LE buf (int off) noAssert = Inr (Num (sval 4 (le_val (field buf off 4))))"
  using checkOffset_in_range [of buf off 4]
  by (simp add: readInt32LE_def in_range_def field_4 at_offs shl32_uint8 or_uint8_2 or_uint8_3
      or_int32_top(1) le_val_3_bound le_val_4 del: le_val.simps)

lemma or32_assoc: "or32 (or32 a b) c = or32 a (or32 b c)"
proof -
  have r: "to_int32 (to_int32 x OR to_int32 y) = to_int32 x OR to_int32 y" for x y
  proof -
    have eq: "to_int32 z = signed_take_bit 31 z" for z
      by (simp add: to_int32_def signed_take_bit_eq_take_bit_shift take_bit_eq_mod)
    show ?thesis unfolding eq by (rule bit_eqI) (auto simp: bit_signed_take_bit_iff bit_or_iff)
  qed
  show ?thesis by (simp add: or32_def r or.assoc)
qed

lemma or32_assoc4: "or32 (or32 (or32 (shl32 a 24) b) c) d = or32 (shl32 a 24) (or32 (or32 b c) d)"
  by (simp add: or32_assoc)

lemma readInt32BE_field:
  "in_range buf off 4 \<Longrightarrow> readInt32BE buf (int off) noAssert = Inr (Num (sval 4 (le_val (rev (field buf off 4)))))"
  using checkOffset_in_range [of buf off 4] le_val_3_bound [of "buf ! (off + 1)" "buf ! (off + 2)" "buf ! (off + 3)"]
  by (simp add: readInt32BE_def in_range_def field_4 at_offs shl32_uint8 or32_assoc4 or_uint8_mid or_uint8_3_be
      le_val_4 add.assoc del: le_val.simps) (simp add: or_int32_top(2))

lemma pow2_bytes: "pow2 (8 * int n) = 256 ^ n"
  by (simp add: pow2_def pow256 nat_mult_distrib)

text \<open>The writers put the bytes of the value, and return the offset after them.\<close>

lemma writeUIntLE_put:
  assumes r: "in_range buf off n" and v: "0 \<le> v" "v \<le> 256 ^ n"
  shows "writeUIntLE buf v (int off) (int n) noAssert = Inr (put_field buf off (le_bytes n v), int (off + n))"
proof -
  have n: "0 < n" "off + n \<le> length buf" using r by (simp_all add: in_range_def)
  have "checkInt buf v (int off) (int n) (pow2 (8 * int n)) 0 = Inr ()"
    using v n by (simp add: checkInt_def pow2_bytes)
  moreover have "store (int off) (and32 v 0xFF) buf = put_field buf off [word_of_int v]"
    using n byte_word_eqI [of "v mod 256" v] by (simp add: store_int put_field_1 and32_255)
  moreover have "le_bytes n v = word_of_int v # map (\<lambda>k. word_of_int (v div 256 ^ k)) [1..<n]"
    unfolding le_bytes_map using n upt_conv_Cons [of 0 n] by simp
  ultimately show ?thesis
    using le_write_loop_put [of off n buf "[word_of_int v]" 0 "uint_byte v"] n v r
    by (simp add: writeUIntLE_def in_range_int32 uint_byte_word)
qed

lemma rev_put_last:
  "0 < n \<Longrightarrow> rev (le_bytes n v) = rev (map (\<lambda>k. word_of_int (v div 256 ^ k)) [1..<n]) @ [word_of_int v]"
  unfolding le_bytes_map using upt_conv_Cons [of 0 n] by simp

lemma writeUIntBE_put:
  assumes r: "in_range buf off n" and v: "0 \<le> v" "v \<le> 256 ^ n"
  shows "writeUIntBE buf v (int off) (int n) noAssert = Inr (put_field buf off (rev (le_bytes n v)), int (off + n))"
proof -
  obtain m where m: "n = Suc m" using r by (cases n) (auto simp: in_range_def)
  have n: "off + Suc m \<le> length buf" using r m by (simp add: in_range_def)
  have "checkInt buf v (int off) (int n) (pow2 (8 * int n)) 0 = Inr ()"
    using v n m by (simp add: checkInt_def pow2_bytes del: of_nat_Suc)
  moreover have "store (int off + (int n - 1)) (and32 v 0xFF) buf = put_field buf (off + m) [word_of_int v]"
    using n m byte_word_eqI [of "v mod 256" v] by (simp add: store_off [of _ off m] put_field_1 and32_255)
  ultimately show ?thesis
    using be_write_loop_put [of off m 0 buf "[word_of_int v]" "uint_byte v"] n v r m in_range_int32 [OF r]
      rev_put_last [of n v]
    by (simp add: writeUIntBE_def uint_byte_word del: upt_Suc le_bytes.simps)
qed

text \<open>\<open>writeIntLE\<close> and \<open>writeIntBE\<close> take the borrow of a negative value from its sign once, before
  the loop: they store the right bytes when the value is not a multiple of a weight it is divided by.\<close>

definition borrow_ok :: "nat \<Rightarrow> int \<Rightarrow> bool" where
  "borrow_ok n v \<longleftrightarrow> 0 \<le> v \<or> n = 1 \<or> \<not> 256 dvd v"

lemma borrow_ok_byte:
  assumes "borrow_ok n v" "k \<in> set [1..<n]"
  shows "word_of_int (int_byte v (256 ^ k)) = (word_of_int (v div 256 ^ k) :: 8 word)"
proof (rule int_byte_word)
  have "1 \<le> k" using assms(2) by (simp only: set_upt) simp
  then have "(256 :: int) dvd 256 ^ k" by (simp add: dvd_power)
  then have "256 ^ k dvd v \<Longrightarrow> 256 dvd v" by (rule dvd_trans)
  moreover have "n \<noteq> 1" using assms(2) by auto
  ultimately show "0 \<le> v \<or> \<not> 256 ^ k dvd v" using assms(1) unfolding borrow_ok_def by blast
qed

lemma int_limit: "0 < n \<Longrightarrow> 2 * pow2 (8 * int n - 1) = 256 ^ n"
proof -
  assume n: "0 < n"
  then have "nat (8 * int n - 1) = 8 * n - 1" by simp
  moreover have "2 * (2 :: int) ^ (8 * n - 1) = 2 ^ (8 * n)"
    using n by (simp add: power_Suc [symmetric] del: power_Suc)
  ultimately show ?thesis using n by (simp add: pow2_def pow256)
qed

definition fits :: "nat \<Rightarrow> int \<Rightarrow> bool" where
  "fits n v \<longleftrightarrow> - (256 ^ n) \<le> 2 * v \<and> 2 * v < 256 ^ n"

lemma checkInt_fits:
  "in_range buf off n \<Longrightarrow> fits n v \<Longrightarrow>
     checkInt buf v (int off) (int n) (pow2 (8 * int n - 1) - 1) (- pow2 (8 * int n - 1)) = Inr ()"
  using int_limit [of n] by (auto simp: checkInt_def fits_def in_range_def)

lemma writeIntLE_put:
  assumes r: "in_range buf off n" and v: "fits n v" "borrow_ok n v"
  shows "writeIntLE buf v (int off) (int n) noAssert = Inr (put_field buf off (le_bytes n v), int (off + n))"
proof -
  have n: "0 < n" "off + n \<le> length buf" using r by (simp_all add: in_range_def)
  have "store (int off) (and32 v 0xFF) buf = put_field buf off [word_of_int v]"
    using n byte_word_eqI [of "v mod 256" v] by (simp add: store_int put_field_1 and32_255)
  moreover have "le_bytes n v = word_of_int v # map (\<lambda>k. word_of_int (int_byte v (256 ^ k))) [1..<n]"
    unfolding le_bytes_map using n upt_conv_Cons [of 0 n] borrow_ok_byte [OF v(2)] by simp
  ultimately show ?thesis
    using le_write_loop_put [of off n buf "[word_of_int v]" 0 "int_byte v"] n r
    by (simp add: writeIntLE_def in_range_int32(1) checkInt_fits [OF r v(1)])
qed

lemma writeIntBE_put:
  assumes r: "in_range buf off n" and v: "fits n v" "borrow_ok n v"
  shows "writeIntBE buf v (int off) (int n) noAssert = Inr (put_field buf off (rev (le_bytes n v)), int (off + n))"
proof -
  obtain m where m: "n = Suc m" using r by (cases n) (auto simp: in_range_def)
  have n: "off + Suc m \<le> length buf" using r m by (simp add: in_range_def)
  have "store (int off + (int n - 1)) (and32 v 0xFF) buf = put_field buf (off + m) [word_of_int v]"
    using n m byte_word_eqI [of "v mod 256" v] by (simp add: store_off [of _ off m] put_field_1 and32_255)
  moreover have "rev (le_bytes n v) = rev (map (\<lambda>k. word_of_int (int_byte v (256 ^ k))) [1..<n]) @ [word_of_int v]"
    using rev_put_last [of n v] m borrow_ok_byte [OF v(2)] by (simp del: upt_Suc)
  ultimately show ?thesis
    using be_write_loop_put [of off m 0 buf "[word_of_int v]" "int_byte v"] n r m
      checkInt_fits [OF r v(1)]
    by (simp add: writeIntBE_def in_range_int32(1) del: upt_Suc)
qed

text \<open>The fixed-width writers.\<close>

lemma le_bytes_2: "le_bytes 2 v = [word_of_int v, word_of_int (v div 256)]"
  by (simp add: numeral_2_eq_2)

lemma le_bytes_4: "le_bytes 4 v =
    [word_of_int v, word_of_int (v div 256), word_of_int (v div 65536), word_of_int (v div 16777216)]"
  by (simp add: eval_nat_numeral zdiv_zmult2_eq [symmetric])

lemma store_offs:
  "store (int off) v buf = buf[off := word_of_int v]"
  "store (int off + 1) v buf = buf[off + 1 := word_of_int v]"
  "store (int off + 2) v buf = buf[off + 2 := word_of_int v]"
  "store (int off + 3) v buf = buf[off + 3 := word_of_int v]"
  using store_int store_off [of _ off 1] store_off [of _ off 2] store_off [of _ off 3] by auto

lemma word256: "(256 :: 8 word) = 0"
  by simp

lemma writeUInt8_put:
  "in_range buf off 1 \<Longrightarrow> 0 \<le> v \<Longrightarrow> v \<le> 255 \<Longrightarrow>
     writeUInt8 buf v (int off) noAssert = Inr (put_field buf off (le_bytes 1 v), int (off + 1))"
  using in_range_int32(1) [of buf off 1]
  by (simp add: writeUInt8_def checkInt_def in_range_def store_int put_field_1)

lemma writeInt8_put:
  "in_range buf off 1 \<Longrightarrow> -128 \<le> v \<Longrightarrow> v \<le> 127 \<Longrightarrow>
     writeInt8 buf v (int off) noAssert = Inr (put_field buf off (le_bytes 1 v), int (off + 1))"
  using in_range_int32(1) [of buf off 1]
  by (simp add: writeInt8_def checkInt_def in_range_def store_int put_field_1 add.commute word256)

lemmas write2_simps = in_range_int32(1) checkInt_def in_range_def store_offs put_field_2 le_bytes_2 ushr32_bytes
lemmas write4_simps = in_range_int32(1) checkInt_def in_range_def store_offs put_field_4 le_bytes_4 ushr32_bytes
  put32LE_def put32BE_def

lemma writeUInt16LE_put:
  "in_range buf off 2 \<Longrightarrow> 0 \<le> v \<Longrightarrow> v \<le> 0xffff \<Longrightarrow>
     writeUInt16LE buf v (int off) noAssert = Inr (put_field buf off (le_bytes 2 v), int (off + 2))"
  using in_range_int32(1) [of buf off 2] by (simp add: writeUInt16LE_def write2_simps)

lemma writeUInt16BE_put:
  "in_range buf off 2 \<Longrightarrow> 0 \<le> v \<Longrightarrow> v \<le> 0xffff \<Longrightarrow>
     writeUInt16BE buf v (int off) noAssert = Inr (put_field buf off (rev (le_bytes 2 v)), int (off + 2))"
  using in_range_int32(1) [of buf off 2] by (simp add: writeUInt16BE_def write2_simps)

lemma writeInt16LE_put:
  "in_range buf off 2 \<Longrightarrow> - 0x8000 \<le> v \<Longrightarrow> v \<le> 0x7fff \<Longrightarrow>
     writeInt16LE buf v (int off) noAssert = Inr (put_field buf off (le_bytes 2 v), int (off + 2))"
  using in_range_int32(1) [of buf off 2] by (simp add: writeInt16LE_def write2_simps)

lemma writeInt16BE_put:
  "in_range buf off 2 \<Longrightarrow> - 0x8000 \<le> v \<Longrightarrow> v \<le> 0x7fff \<Longrightarrow>
     writeInt16BE buf v (int off) noAssert = Inr (put_field buf off (rev (le_bytes 2 v)), int (off + 2))"
  using in_range_int32(1) [of buf off 2] by (simp add: writeInt16BE_def write2_simps)

lemma writeUInt32LE_put:
  "in_range buf off 4 \<Longrightarrow> 0 \<le> v \<Longrightarrow> v \<le> 0xffffffff \<Longrightarrow>
     writeUInt32LE buf v (int off) noAssert = Inr (put_field buf off (le_bytes 4 v), int (off + 4))"
  using in_range_int32(1) [of buf off 4]
  by (simp add: writeUInt32LE_def write4_simps list_update_swap)

lemma writeUInt32BE_put:
  "in_range buf off 4 \<Longrightarrow> 0 \<le> v \<Longrightarrow> v \<le> 0xffffffff \<Longrightarrow>
     writeUInt32BE buf v (int off) noAssert = Inr (put_field buf off (rev (le_bytes 4 v)), int (off + 4))"
  using in_range_int32(1) [of buf off 4] by (simp add: writeUInt32BE_def write4_simps)

lemma writeInt32LE_put:
  "in_range buf off 4 \<Longrightarrow> - 0x80000000 \<le> v \<Longrightarrow> v \<le> 0x7fffffff \<Longrightarrow>
     writeInt32LE buf v (int off) noAssert = Inr (put_field buf off (le_bytes 4 v), int (off + 4))"
  using in_range_int32(1) [of buf off 4] by (simp add: writeInt32LE_def write4_simps)

lemma le_bytes_4_wrap: "le_bytes 4 (v + 4294967296) = le_bytes 4 v"
proof -
  have "le_bytes 4 (le_val (le_bytes 4 w)) = le_bytes 4 w" for w
    using le_bytes_le_val [of "le_bytes 4 w"] by simp
  then have "le_bytes 4 w = le_bytes 4 (w mod 256 ^ 4)" for w by (simp only: le_val_le_bytes)
  from this [of "v + 4294967296"] this [of v] show ?thesis by simp
qed

lemma put32BE_put:
  "in_range buf off 4 \<Longrightarrow> put32BE v (int off) buf = put_field buf off (rev (le_bytes 4 v))"
  by (simp add: write4_simps)

lemma writeInt32BE_put:
  "in_range buf off 4 \<Longrightarrow> - 0x80000000 \<le> v \<Longrightarrow> v \<le> 0x7fffffff \<Longrightarrow>
     writeInt32BE buf v (int off) noAssert = Inr (put_field buf off (rev (le_bytes 4 v)), int (off + 4))"
  using in_range_int32(1) [of buf off 4] le_bytes_4_wrap [of v]
  by (auto simp: writeInt32BE_def put32BE_put checkInt_def in_range_def add.commute)

text \<open>The fallback writers store the same bytes.\<close>

lemma objectWriteUInt16_put:
  assumes "in_range buf off 2" "0 \<le> v" "v \<le> 0xffff"
  shows "objectWriteUInt16 buf v (int off) True = put_field buf off (le_bytes 2 v)"
    and "objectWriteUInt16 buf v (int off) False = put_field buf off (rev (le_bytes 2 v))"
proof -
  have m: "nat (min (int (length buf) - int off) 2) = 2" using assms by (simp add: in_range_def)
  have u: "[0..<nat (min (int (length buf) - int off) 2)] = [0, 1]" unfolding m by (simp add: upt_rec)
  have r: "off + 2 \<le> length buf" using assms by (simp add: in_range_def)
  have lo: "ushr32 (and32 v (shl32 0xff 0)) 0 = v mod 256"
    using assms and32_255 [of v] by (simp add: shl32_def ushr32_def to_int32_small to_uint32_def)
  have a: "shl32 0xff 8 = 0xff00" "ushr32 x 8 = shr32 x 8" if "0 \<le> x" "x < 2147483648" for x
    using that by (simp_all add: shl32_def ushr32_def shr32_def to_int32_small to_uint32_def)
  have "0 \<le> and32 v 0xff00" "and32 v 0xff00 < 2147483648"
    using assms AND_upper2' [of "0xff00" v] by (simp_all add: and32_def to_int32_small)
  then have "ushr32 (and32 v (shl32 0xff 8)) 8 = and32 (shr32 v 8) (0xff00 div 2 ^ 8)"
    using shr32_and32 [of "0xff00" 8 v] a by simp
  then have hi: "ushr32 (and32 v (shl32 0xff 8)) 8 = v div 256 mod 256"
    using assms by (simp add: and32_255 shr32_div)
  have w: "word_of_int (x mod 256) = (word_of_int x :: 8 word)" for x
    by (rule byte_word_eqI) simp
  show "objectWriteUInt16 buf v (int off) True = put_field buf off (le_bytes 2 v)"
    using r assms(2) lo hi unfolding objectWriteUInt16_def Let_def u le_bytes_2
    by (simp add: w store_offs put_field_2)
  show "objectWriteUInt16 buf v (int off) False = put_field buf off (rev (le_bytes 2 v))"
    using r assms(2) lo hi unfolding objectWriteUInt16_def Let_def u le_bytes_2
    by (simp add: w store_offs put_field_2)
qed

lemma objectWriteUInt32_put:
  assumes "in_range buf off 4" "0 \<le> v" "v \<le> 0xffffffff"
  shows "objectWriteUInt32 buf v (int off) True = put_field buf off (le_bytes 4 v)"
    and "objectWriteUInt32 buf v (int off) False = put_field buf off (rev (le_bytes 4 v))"
proof -
  have w: "word_of_int (x mod 256) = (word_of_int x :: 8 word)" for x
    by (rule byte_word_eqI) simp
  have z: "word_of_int (ushr32 v 0) = (word_of_int v :: 8 word)" using ushr32_word [of 0 v] by simp
  have m: "nat (min (int (length buf) - int off) 4) = 4" using assms by (simp add: in_range_def)
  have u: "[0..<nat (min (int (length buf) - int off) 4)] = [0, 1, 2, 3]" unfolding m by (simp add: upt_rec)
  have r: "off + 4 \<le> length buf" using assms by (simp add: in_range_def)
  show "objectWriteUInt32 buf v (int off) True = put_field buf off (le_bytes 4 v)"
    using r assms(2) unfolding objectWriteUInt32_def Let_def u le_bytes_4
    by (simp add: and32_255 w z ushr32_bytes store_offs put_field_4)
  show "objectWriteUInt32 buf v (int off) False = put_field buf off (rev (le_bytes 4 v))"
    using r assms(2) unfolding objectWriteUInt32_def Let_def u le_bytes_4
    by (simp add: and32_255 w z ushr32_bytes store_offs put_field_4)
qed

section \<open>Integer fields as an interface\<close>

text \<open>
  A pair of a reader and a writer for integer fields. \<open>width_ok\<close> says which widths they serve,
  \<open>legal n v\<close> which values a field of \<open>n\<close> bytes holds; the writer puts \<open>enc n v\<close> into the buffer
  and the reader decodes the bytes of the field. Reading back, independence of disjoint fields and
  overwriting follow for every such pair.
\<close>

locale int_codec =
  fixes rd :: "bytes \<Rightarrow> int \<Rightarrow> int \<Rightarrow> bool \<Rightarrow> jsnum result"
    and wr :: "bytes \<Rightarrow> int \<Rightarrow> int \<Rightarrow> int \<Rightarrow> bool \<Rightarrow> (bytes \<times> int) result"
    and width_ok :: "nat \<Rightarrow> bool"
    and legal :: "nat \<Rightarrow> int \<Rightarrow> bool"
    and enc :: "nat \<Rightarrow> int \<Rightarrow> bytes"
    and dec :: "bytes \<Rightarrow> int"
  assumes length_enc: "length (enc n v) = n"
    and dec_enc: "width_ok n \<Longrightarrow> legal n v \<Longrightarrow> dec (enc n v) = v"
    and wr_put: "width_ok n \<Longrightarrow> legal n v \<Longrightarrow> in_range buf off n \<Longrightarrow>
      wr buf v (int off) (int n) na = Inr (put_field buf off (enc n v), int (off + n))"
    and rd_field: "width_ok n \<Longrightarrow> in_range buf off n \<Longrightarrow>
      rd buf (int off) (int n) na = Inr (Num (dec (field buf off n)))"
begin

lemma write_length:
  "width_ok n \<Longrightarrow> legal n v \<Longrightarrow> in_range buf off n \<Longrightarrow> wr buf v (int off) (int n) na = Inr (buf', p)
     \<Longrightarrow> length buf' = length buf \<and> p = int (off + n)"
  by (auto simp: wr_put in_range_def length_enc)

lemma read_after_write:
  "width_ok n \<Longrightarrow> legal n v \<Longrightarrow> in_range buf off n \<Longrightarrow>
     bindR (wr buf v (int off) (int n) na) (\<lambda>(buf', p). rd buf' (int off) (int n) na') = Inr (Num v)"
  using field_put_field [of off "enc n v" buf]
  by (simp add: wr_put rd_field in_range_def length_enc dec_enc)

lemma read_elsewhere:
  assumes "width_ok n" "legal n v" "in_range buf off n" "width_ok m" "in_range buf off' m"
    and "off + n \<le> off' \<or> off' + m \<le> off"
  shows "bindR (wr buf v (int off) (int n) na) (\<lambda>(buf', p). rd buf' (int off') (int m) na')
           = rd buf (int off') (int m) na'"
proof -
  have "field (put_field buf off (enc n v)) off' m = field buf off' m"
    using assms by (intro nth_equalityI) (auto simp: in_range_def length_enc field_def put_field_nth)
  then show ?thesis using assms by (simp add: wr_put rd_field in_range_def length_enc)
qed

lemma write_twice:
  "width_ok n \<Longrightarrow> legal n v \<Longrightarrow> legal n w \<Longrightarrow> in_range buf off n \<Longrightarrow>
     bindR (wr buf v (int off) (int n) na) (\<lambda>(buf', p). wr buf' w (int off) (int n) na)
       = wr buf w (int off) (int n) na"
  by (simp add: wr_put in_range_def length_enc) (simp add: put_field_def length_enc)

end

definition ufits :: "nat \<Rightarrow> int \<Rightarrow> bool" where
  "ufits n v \<longleftrightarrow> 0 \<le> v \<and> v < 256 ^ n"

definition rev_bytes :: "nat \<Rightarrow> int \<Rightarrow> bytes" where
  "rev_bytes n v = rev (le_bytes n v)"

definition be_val :: "bytes \<Rightarrow> int" where
  "be_val bs = le_val (rev bs)"

definition le_sval :: "bytes \<Rightarrow> int" where
  "le_sval bs = sval (length bs) (le_val bs)"

definition be_sval :: "bytes \<Rightarrow> int" where
  "be_sval bs = sval (length bs) (be_val bs)"

text \<open>The widths of the variable-width accessors whose values a double holds exactly.\<close>

definition var_width :: "nat \<Rightarrow> bool" where
  "var_width n \<longleftrightarrow> 0 < n \<and> n \<le> 6"

lemma dec_enc_laws:
  "ufits n v \<Longrightarrow> le_val (le_bytes n v) = v"
  "ufits n v \<Longrightarrow> be_val (rev_bytes n v) = v"
  "fits n v \<Longrightarrow> le_sval (le_bytes n v) = v"
  "fits n v \<Longrightarrow> be_sval (rev_bytes n v) = v"
  by (simp_all add: le_sval_def be_sval_def be_val_def rev_bytes_def le_val_le_bytes ufits_def fits_def sval_mod)

lemma length_rev_bytes [simp]: "length (rev_bytes n v) = n"
  by (simp add: rev_bytes_def)

lemma sval_field:
  "in_range buf off n \<Longrightarrow> le_sval (field buf off n) = sval n (le_val (field buf off n))"
  "in_range buf off n \<Longrightarrow> be_sval (field buf off n) = sval n (le_val (rev (field buf off n)))"
  by (simp_all add: le_sval_def be_sval_def be_val_def in_range_def)

lemmas codec_simps = sval_field be_val_def [of "field _ _ _"] rev_bytes_def

interpretation uintle: int_codec "readUIntLE"
  "writeUIntLE" "var_width" "ufits" le_bytes le_val
  by (unfold_locales, simp, simp add: dec_enc_laws del: One_nat_def, auto simp: codec_simps readUIntLE_field writeUIntLE_put ufits_def)

interpretation uintbe: int_codec "readUIntBE"
  "writeUIntBE" "var_width" "ufits" rev_bytes be_val
  by (unfold_locales, simp, simp add: dec_enc_laws del: One_nat_def, auto simp: codec_simps readUIntBE_field writeUIntBE_put ufits_def)

interpretation intle: int_codec "readIntLE"
  "writeIntLE" "var_width" "\<lambda>n v. fits n v \<and> borrow_ok n v" le_bytes le_sval
  by (unfold_locales, simp, simp add: dec_enc_laws del: One_nat_def, auto simp: codec_simps readIntLE_field writeIntLE_put)

interpretation intbe: int_codec "readIntBE"
  "writeIntBE" "var_width" "\<lambda>n v. fits n v \<and> borrow_ok n v" rev_bytes be_sval
  by (unfold_locales, simp, simp add: dec_enc_laws del: One_nat_def, auto simp: codec_simps readIntBE_field writeIntBE_put)

interpretation uint8: int_codec "\<lambda>buf off n. readUInt8 buf off"
  "\<lambda>buf v off n. writeUInt8 buf v off" "\<lambda>n. n = 1" "ufits" le_bytes le_val
  by (unfold_locales, simp, simp add: dec_enc_laws del: One_nat_def, auto simp: codec_simps readUInt8_field [simplified] writeUInt8_put [simplified] ufits_def)

interpretation int8: int_codec "\<lambda>buf off n. readInt8 buf off"
  "\<lambda>buf v off n. writeInt8 buf v off" "\<lambda>n. n = 1" "fits" le_bytes le_sval
  by (unfold_locales, simp, simp add: dec_enc_laws del: One_nat_def, auto simp: codec_simps readInt8_field [simplified] writeInt8_put [simplified] fits_def)

interpretation uint16le: int_codec "\<lambda>buf off n. readUInt16LE buf off"
  "\<lambda>buf v off n. writeUInt16LE buf v off" "\<lambda>n. n = 2" "ufits" le_bytes le_val
  by (unfold_locales, simp, simp add: dec_enc_laws del: One_nat_def, auto simp: codec_simps readUInt16LE_field writeUInt16LE_put ufits_def)

interpretation int16le: int_codec "\<lambda>buf off n. readInt16LE buf off"
  "\<lambda>buf v off n. writeInt16LE buf v off" "\<lambda>n. n = 2" "fits" le_bytes le_sval
  by (unfold_locales, simp, simp add: dec_enc_laws del: One_nat_def, auto simp: codec_simps readInt16LE_field writeInt16LE_put fits_def)

interpretation uint16be: int_codec "\<lambda>buf off n. readUInt16BE buf off"
  "\<lambda>buf v off n. writeUInt16BE buf v off" "\<lambda>n. n = 2" "ufits" rev_bytes be_val
  by (unfold_locales, simp, simp add: dec_enc_laws del: One_nat_def, auto simp: codec_simps readUInt16BE_field writeUInt16BE_put ufits_def)

interpretation int16be: int_codec "\<lambda>buf off n. readInt16BE buf off"
  "\<lambda>buf v off n. writeInt16BE buf v off" "\<lambda>n. n = 2" "fits" rev_bytes be_sval
  by (unfold_locales, simp, simp add: dec_enc_laws del: One_nat_def, auto simp: codec_simps readInt16BE_field writeInt16BE_put fits_def)

interpretation uint32le: int_codec "\<lambda>buf off n. readUInt32LE buf off"
  "\<lambda>buf v off n. writeUInt32LE buf v off" "\<lambda>n. n = 4" "ufits" le_bytes le_val
  by (unfold_locales, simp, simp add: dec_enc_laws del: One_nat_def, auto simp: codec_simps readUInt32LE_field writeUInt32LE_put ufits_def)

interpretation int32le: int_codec "\<lambda>buf off n. readInt32LE buf off"
  "\<lambda>buf v off n. writeInt32LE buf v off" "\<lambda>n. n = 4" "fits" le_bytes le_sval
  by (unfold_locales, simp, simp add: dec_enc_laws del: One_nat_def, auto simp: codec_simps readInt32LE_field writeInt32LE_put fits_def)

interpretation uint32be: int_codec "\<lambda>buf off n. readUInt32BE buf off"
  "\<lambda>buf v off n. writeUInt32BE buf v off" "\<lambda>n. n = 4" "ufits" rev_bytes be_val
  by (unfold_locales, simp, simp add: dec_enc_laws del: One_nat_def, auto simp: codec_simps readUInt32BE_field writeUInt32BE_put ufits_def)

interpretation int32be: int_codec "\<lambda>buf off n. readInt32BE buf off"
  "\<lambda>buf v off n. writeInt32BE buf v off" "\<lambda>n. n = 4" "fits" rev_bytes be_sval
  by (unfold_locales, simp, simp add: dec_enc_laws del: One_nat_def, auto simp: codec_simps readInt32BE_field writeInt32BE_put fits_def)


section \<open>Properties\<close>

text \<open>Reading an unsigned field of one to six bytes after writing it returns the value written,
  in both byte orders, whenever the field lies inside the buffer and the value fits.\<close>

theorem uint_write_read:
  assumes "in_range buf off n" "n \<le> 6" "0 \<le> v" "v < 256 ^ n"
  shows "bindR (writeUIntLE buf v (int off) (int n) False) (\<lambda>(b, p). readUIntLE b (int off) (int n) False) = Inr (Num v)
    \<and> bindR (writeUIntBE buf v (int off) (int n) False) (\<lambda>(b, p). readUIntBE b (int off) (int n) False) = Inr (Num v)"
proof -
  have "var_width n" "ufits n v" using assms by (simp_all add: in_range_def var_width_def ufits_def)
  then show ?thesis using assms(1) by (intro conjI uintle.read_after_write uintbe.read_after_write)
qed

theorem uint_write_read_witness:
  "bindR (writeUIntLE [0, 1, 2, 3] 66051 1 3 False) (\<lambda>(b, p). readUIntLE b 1 3 False) = Inr (Num 66051)
   \<and> bindR (writeUIntBE [0, 1, 2, 3] 66051 1 3 False) (\<lambda>(b, p). readUIntBE b 1 3 False) = Inr (Num 66051)"
  using uint_write_read [of "[0, 1, 2, 3]" 1 3 66051] by (simp add: in_range_def)

text \<open>C38: Reading a signed field back returns the value written, in both byte orders, provided the
  value fits and, when it is negative and the field has several bytes, is not a multiple of 256.\<close>

theorem int_write_read:
  assumes "in_range buf off n" "n \<le> 6" "fits n v" "0 \<le> v \<or> n = 1 \<or> \<not> 256 dvd v"
  shows "bindR (writeIntLE buf v (int off) (int n) False) (\<lambda>(b, p). readIntLE b (int off) (int n) False) = Inr (Num v)
    \<and> bindR (writeIntBE buf v (int off) (int n) False) (\<lambda>(b, p). readIntBE b (int off) (int n) False) = Inr (Num v)"
proof -
  have "var_width n" "fits n v" "borrow_ok n v"
    using assms by (simp_all add: in_range_def var_width_def borrow_ok_def)
  then show ?thesis using assms(1) by (intro conjI intle.read_after_write intbe.read_after_write)
qed

theorem int_write_read_witness:
  "bindR (writeIntLE [0, 0, 0] (-300) 0 2 False) (\<lambda>(b, p). readIntLE b 0 2 False) = Inr (Num (-300))
   \<and> bindR (writeIntBE [0, 0, 0] (-300) 0 2 False) (\<lambda>(b, p). readIntBE b 0 2 False) = Inr (Num (-300))"
proof -
  have "\<not> (256 :: int) dvd -300" by (simp add: dvd_def) presburger
  then show ?thesis
    using int_write_read [of "[0, 0, 0]" 0 2 "-300"] by (simp add: in_range_def fits_def)
qed

text \<open>For a negative multiple of 256 the signed variable-width writer stores a wrong high byte:
  the borrow is taken from the sign although the division is exact, and \<open>-256\<close> reads back as \<open>-512\<close>.\<close>

theorem int_write_borrow_bug:
  "bindR (writeIntLE [0, 0] (-256) 0 2 False) (\<lambda>(b, p). readIntLE b 0 2 False) = Inr (Num (-512))"
  by code_simp

text \<open>The fixed-width accessors of 8, 16 and 32 bits read back what was written: unsigned values
  in \<open>[0, 256 ^ n)\<close> and signed values in \<open>[- 256 ^ n / 2, 256 ^ n / 2)\<close>, in both byte orders.\<close>

theorem fixed_write_read:
  assumes "in_range buf off 4" "ufits 1 u1" "fits 1 s1" "ufits 2 u2" "fits 2 s2" "ufits 4 u4" "fits 4 s4"
  shows "bindR (writeUInt8 buf u1 (int off) na) (\<lambda>(b, p). readUInt8 b (int off) na) = Inr (Num u1)
    \<and> bindR (writeInt8 buf s1 (int off) na) (\<lambda>(b, p). readInt8 b (int off) na) = Inr (Num s1)
    \<and> bindR (writeUInt16LE buf u2 (int off) na) (\<lambda>(b, p). readUInt16LE b (int off) na) = Inr (Num u2)
    \<and> bindR (writeUInt16BE buf u2 (int off) na) (\<lambda>(b, p). readUInt16BE b (int off) na) = Inr (Num u2)
    \<and> bindR (writeInt16LE buf s2 (int off) na) (\<lambda>(b, p). readInt16LE b (int off) na) = Inr (Num s2)
    \<and> bindR (writeInt16BE buf s2 (int off) na) (\<lambda>(b, p). readInt16BE b (int off) na) = Inr (Num s2)
    \<and> bindR (writeUInt32LE buf u4 (int off) na) (\<lambda>(b, p). readUInt32LE b (int off) na) = Inr (Num u4)
    \<and> bindR (writeUInt32BE buf u4 (int off) na) (\<lambda>(b, p). readUInt32BE b (int off) na) = Inr (Num u4)
    \<and> bindR (writeInt32LE buf s4 (int off) na) (\<lambda>(b, p). readInt32LE b (int off) na) = Inr (Num s4)
    \<and> bindR (writeInt32BE buf s4 (int off) na) (\<lambda>(b, p). readInt32BE b (int off) na) = Inr (Num s4)"
proof -
  have r: "in_range buf off 1" "in_range buf off 2" using assms(1) by (auto simp: in_range_def)
  show ?thesis
    using uint8.read_after_write [OF refl assms(2) r(1)] int8.read_after_write [OF refl assms(3) r(1)]
      uint16le.read_after_write [OF refl assms(4) r(2)] uint16be.read_after_write [OF refl assms(4) r(2)]
      int16le.read_after_write [OF refl assms(5) r(2)] int16be.read_after_write [OF refl assms(5) r(2)]
      uint32le.read_after_write [OF refl assms(6,1)] uint32be.read_after_write [OF refl assms(6,1)]
      int32le.read_after_write [OF refl assms(7,1)] int32be.read_after_write [OF refl assms(7,1)]
    by blast
qed

theorem fixed_write_read_witness:
  "bindR (writeInt32BE [0, 0, 0, 0, 7] (-2) 1 False) (\<lambda>(b, p). readInt32BE b 1 False) = Inr (Num (-2))"
  using fixed_write_read [of "[0, 0, 0, 0, 7]" 1 0 0 0 0 0 "-2" False]
  by (simp add: in_range_def fits_def ufits_def)

text \<open>Writing one field leaves every disjoint field as it was: in particular the accessors never
  touch a byte outside the field they are given.\<close>

theorem write_frame:
  assumes "in_range buf off n" "n \<le> 6" "0 \<le> v" "v < 256 ^ n" "in_range buf off' m" "m \<le> 6"
    and "off + n \<le> off' \<or> off' + m \<le> off"
  shows "bindR (writeUIntLE buf v (int off) (int n) na) (\<lambda>(b, p). readUIntLE b (int off') (int m) na)
           = readUIntLE buf (int off') (int m) na"
proof -
  have "var_width n" "ufits n v" "var_width m" using assms by (simp_all add: in_range_def var_width_def ufits_def)
  then show ?thesis using assms by (intro uintle.read_elsewhere) auto
qed

theorem write_frame_witness:
  "bindR (writeUIntLE [1, 2, 3, 4] 513 0 2 False) (\<lambda>(b, p). readUIntLE b 2 2 False) = readUIntLE [1, 2, 3, 4] 2 2 False"
  using write_frame [of "[1, 2, 3, 4]" 0 2 513 2 2 False] by (simp add: in_range_def)

text \<open>With checks on, a value outside the range of its field is refused with a \<open>RangeError\<close> by
  every fixed-width writer, whatever the offset, and so is a field that runs past the end of the buffer.\<close>

theorem fixed_write_rejects:
  "(\<not> ufits 1 v \<longrightarrow> writeUInt8 buf v off False = Inl (RangeError ''value is out of bounds''))
   \<and> (\<not> fits 1 v \<longrightarrow> writeInt8 buf v off False = Inl (RangeError ''value is out of bounds''))
   \<and> (\<not> ufits 2 v \<longrightarrow> writeUInt16LE buf v off False = Inl (RangeError ''value is out of bounds'')
        \<and> writeUInt16BE buf v off False = Inl (RangeError ''value is out of bounds''))
   \<and> (\<not> fits 2 v \<longrightarrow> writeInt16LE buf v off False = Inl (RangeError ''value is out of bounds'')
        \<and> writeInt16BE buf v off False = Inl (RangeError ''value is out of bounds''))
   \<and> (\<not> ufits 4 v \<longrightarrow> writeUInt32LE buf v off False = Inl (RangeError ''value is out of bounds'')
        \<and> writeUInt32BE buf v off False = Inl (RangeError ''value is out of bounds''))
   \<and> (\<not> fits 4 v \<longrightarrow> writeInt32LE buf v off False = Inl (RangeError ''value is out of bounds'')
        \<and> writeInt32BE buf v off False = Inl (RangeError ''value is out of bounds''))
   \<and> (ufits 1 v \<and> to_int32 off \<ge> int (length buf) \<longrightarrow>
        writeUInt8 buf v off False = Inl (RangeError ''index out of range''))"
  by (auto simp: writeUInt8_def writeInt8_def writeUInt16LE_def writeUInt16BE_def writeInt16LE_def writeInt16BE_def
      writeUInt32LE_def writeUInt32BE_def writeInt32LE_def writeInt32BE_def guarded_def checkInt_def ufits_def fits_def)

theorem fixed_write_rejects_witness:
  "writeUInt16LE [0, 0] 65536 0 False = Inl (RangeError ''value is out of bounds'')"
  using fixed_write_rejects [of 65536 "[0, 0]" 0] by (simp add: ufits_def)

text \<open>The bound of the variable-width unsigned writers is one too large: they accept \<open>256 ^ n\<close>
  itself, which they store as zero.\<close>

theorem uint_write_accepts_limit:
  assumes "in_range buf off n" "n \<le> 6"
  shows "bindR (writeUIntLE buf (256 ^ n) (int off) (int n) False) (\<lambda>(b, p). readUIntLE b (int off) (int n) False) = Inr (Num 0)"
  using assms field_put_field [of off "le_bytes n (256 ^ n)" buf]
  by (simp add: writeUIntLE_put readUIntLE_field in_range_def le_val_le_bytes)

theorem uint_write_accepts_limit_witness:
  "bindR (writeUIntLE [5] 256 0 1 False) (\<lambda>(b, p). readUIntLE b 0 1 False) = Inr (Num 0)"
  using uint_write_accepts_limit [of "[5]" 0 1] by (simp add: in_range_def)

text \<open>The fallback writers for builds without typed arrays store exactly the bytes that the
  typed-array writers store, for 16 and 32 bits and both byte orders.\<close>

theorem object_write_agrees:
  assumes "in_range buf off 4" "ufits 2 u2" "ufits 4 u4"
  shows "writeUInt16LE buf u2 (int off) na = Inr (objectWriteUInt16 buf u2 (int off) True, int off + 2)
    \<and> writeUInt16BE buf u2 (int off) na = Inr (objectWriteUInt16 buf u2 (int off) False, int off + 2)
    \<and> writeUInt32LE buf u4 (int off) na = Inr (objectWriteUInt32 buf u4 (int off) True, int off + 4)
    \<and> writeUInt32BE buf u4 (int off) na = Inr (objectWriteUInt32 buf u4 (int off) False, int off + 4)"
proof -
  have r: "in_range buf off 2" using assms(1) by (auto simp: in_range_def)
  have u: "0 \<le> u2" "u2 \<le> 0xffff" "0 \<le> u4" "u4 \<le> 0xffffffff" using assms by (simp_all add: ufits_def)
  show ?thesis
    using writeUInt16LE_put [OF r u(1,2)] writeUInt16BE_put [OF r u(1,2)]
      writeUInt32LE_put [OF assms(1) u(3,4)] writeUInt32BE_put [OF assms(1) u(3,4)]
      objectWriteUInt16_put [OF r u(1,2)] objectWriteUInt32_put [OF assms(1) u(3,4)] by simp
qed

theorem object_write_agrees_witness:
  "writeUInt32BE [0, 0, 0, 0] 305419896 0 False = Inr (objectWriteUInt32 [0, 0, 0, 0] 305419896 0 False, 4)"
  using object_write_agrees [of "[0, 0, 0, 0]" 0 0 305419896 False] by (simp add: in_range_def ufits_def)

end
