(* ===== verification/Buffer_Text.thy ===== *)
theory Buffer_Text
  imports Buffer_Int
begin

text \<open>
  Texts in buffers (module 14 of \<open>swagger-ui.js\<close>): the encodings \<open>hex\<close>, \<open>utf8\<close>, \<open>ascii\<close>,
  \<open>binary\<close>, \<open>base64\<close> and \<open>ucs2\<close>, the functions that slice a buffer into a text or blit a text into a
  buffer, \<open>write\<close> with its four forms of call, \<open>toString\<close>, \<open>byteLength\<close> and \<open>inspect\<close>. A text is a
  list of \<open>16 word\<close>, its UTF-16 code units; names of encodings are plain strings. \<open>slice\<close> is
  modelled by the bytes it denotes, not as a view that shares memory.
\<close>

type_synonym ustring = "16 word list"

definition u16 :: "string \<Rightarrow> ustring" where
  "u16 s = map (\<lambda>c. word_of_nat (code c)) s"

section \<open>Slices\<close>

definition clamp :: "int \<Rightarrow> int \<Rightarrow> int" where
  "clamp len i = (if i < 0 then (if i + len < 0 then 0 else i + len) else if i > len then len else i)"

definition slice_bytes :: "bytes \<Rightarrow> int \<Rightarrow> int \<Rightarrow> bytes" where
  "slice_bytes buf start end = take (nat (end - start)) (drop (nat start) buf)"

definition slice :: "bytes \<Rightarrow> int \<Rightarrow> int option \<Rightarrow> bytes" where
  "slice buf start0 end0 =
     (let len = int (length buf);
          start = clamp len (to_int32 start0);
          end1 = clamp len (case end0 of None \<Rightarrow> len | Some e \<Rightarrow> to_int32 e);
          end = (if end1 < start then start else end1)
      in slice_bytes buf start end)"

section \<open>Bytes to text\<close>

definition base64Slice :: "bytes \<Rightarrow> int \<Rightarrow> int \<Rightarrow> ustring" where
  "base64Slice buf start end =
     (if start = 0 \<and> end = int (length buf) then u16 (uint8ToBase64 buf)
      else u16 (uint8ToBase64 (slice buf start (Some end))))"

text \<open>The code points of one UTF-8 sequence at the head of the bytes up to \<open>end\<close>: the code units to
  push and the number of bytes to advance. A sequence that is cut off, has a wrong continuation byte,
  is longer than needed or denotes a surrogate gives U+FFFD and advances by one.\<close>

definition continuation :: "int \<Rightarrow> bool" where
  "continuation b \<longleftrightarrow> and32 b 0xC0 = 0x80"

definition bytesPerSequence :: "int \<Rightarrow> nat" where
  "bytesPerSequence b = (if b > 0xEF then 4 else if b > 0xDF then 3 else if b > 0xBF then 2 else 1)"

definition utf8_codePoint :: "bytes \<Rightarrow> int option" where
  "utf8_codePoint bs =
     (let b = (\<lambda>k. uint (bs ! k)); n = bytesPerSequence (b 0)
      in if n > length bs then None
         else if n = 1 then (if b 0 < 0x80 then Some (b 0) else None)
         else if n = 2 then
           (if continuation (b 1) then
              let t = or32 (shl32 (and32 (b 0) 0x1F) 6) (and32 (b 1) 0x3F)
              in if t > 0x7F then Some t else None
            else None)
         else if n = 3 then
           (if continuation (b 1) \<and> continuation (b 2) then
              let t = or32 (or32 (shl32 (and32 (b 0) 0xF) 12) (shl32 (and32 (b 1) 0x3F) 6)) (and32 (b 2) 0x3F)
              in if t > 0x7FF \<and> (t < 0xD800 \<or> t > 0xDFFF) then Some t else None
            else None)
         else
           (if continuation (b 1) \<and> continuation (b 2) \<and> continuation (b 3) then
              let t = or32 (or32 (or32 (shl32 (and32 (b 0) 0xF) 18) (shl32 (and32 (b 1) 0x3F) 12))
                             (shl32 (and32 (b 2) 0x3F) 6)) (and32 (b 3) 0x3F)
              in if t > 0xFFFF \<and> t < 0x110000 then Some t else None
            else None))"

function utf8_points :: "bytes \<Rightarrow> int list" where
  "utf8_points [] = []"
| "utf8_points (c # cs) =
     (case utf8_codePoint (c # cs) of
        None \<Rightarrow> 0xFFFD # utf8_points cs
      | Some cp \<Rightarrow>
          let rest = drop (bytesPerSequence (uint c)) (c # cs)
          in if cp > 0xFFFF then
               let cp1 = cp - 0x10000
               in or32 (and32 (ushr32 cp1 10) 0x3FF) 0xD800 # or32 0xDC00 (and32 cp1 0x3FF) # utf8_points rest
             else cp # utf8_points rest)"
  by pat_completeness auto
termination
  by (relation "measure length") (auto simp: bytesPerSequence_def)

definition fromCharCode :: "int list \<Rightarrow> ustring" where
  "fromCharCode cs = map word_of_int cs"

function chunked :: "nat \<Rightarrow> int list \<Rightarrow> ustring" where
  "chunked n cs = (if cs = [] \<or> n = 0 then [] else fromCharCode (take n cs) @ chunked n (drop n cs))"
  by pat_completeness auto
termination
  by (relation "measure (length \<circ> snd)") auto

declare chunked.simps [simp del]

definition decodeCodePointsArray :: "int list \<Rightarrow> ustring" where
  "decodeCodePointsArray codePoints =
     (if length codePoints \<le> 0x1000 then fromCharCode codePoints else chunked 0x1000 codePoints)"

text \<open>The callers pass a start that is not negative.\<close>

definition utf8Slice :: "bytes \<Rightarrow> int \<Rightarrow> int \<Rightarrow> ustring" where
  "utf8Slice buf start end0 =
     (let end = min (int (length buf)) end0
      in decodeCodePointsArray (utf8_points (slice_bytes buf start end)))"

definition asciiSlice :: "bytes \<Rightarrow> int \<Rightarrow> int \<Rightarrow> ustring" where
  "asciiSlice buf start end0 =
     (let end = min (int (length buf)) end0
      in map (\<lambda>b. word_of_int (and32 (uint b) 0x7F)) (slice_bytes buf start end))"

definition binarySlice :: "bytes \<Rightarrow> int \<Rightarrow> int \<Rightarrow> ustring" where
  "binarySlice buf start end0 =
     (let end = min (int (length buf)) end0
      in map (\<lambda>b. word_of_int (uint b)) (slice_bytes buf start end))"

text \<open>\<open>n.toString(16)\<close> for a byte, and \<open>toHex\<close>.\<close>

definition hex_digit :: "nat \<Rightarrow> 16 word" where
  "hex_digit d = word_of_nat (if d < 10 then 48 + d else 87 + d)"

definition toHex :: "8 word \<Rightarrow> ustring" where
  "toHex n =
     (if unat n < 16 then u16 ''0'' @ [hex_digit (unat n)]
      else [hex_digit (unat n div 16), hex_digit (unat n mod 16)])"

definition hexSlice :: "bytes \<Rightarrow> int \<Rightarrow> int \<Rightarrow> ustring" where
  "hexSlice buf start0 end0 =
     (let len = int (length buf);
          start = (if start0 = 0 \<or> start0 < 0 then 0 else start0);
          end = (if end0 = 0 \<or> end0 < 0 \<or> end0 > len then len else end0)
      in concat (map toHex (slice_bytes buf start end)))"

text \<open>For an odd number of bytes the last one is paired with \<open>undefined\<close>, and
  \<open>String.fromCharCode(NaN)\<close> is the character 0.\<close>

fun utf16_units :: "bytes \<Rightarrow> ustring" where
  "utf16_units (a # b # rest) = word_of_int (uint a + uint b * 256) # utf16_units rest"
| "utf16_units [a] = [0]"
| "utf16_units [] = []"

definition utf16leSlice :: "bytes \<Rightarrow> int \<Rightarrow> int \<Rightarrow> ustring" where
  "utf16leSlice buf start end = utf16_units (slice buf start (Some end))"

section \<open>Encodings by name\<close>

datatype encoding = Hex | Utf8 | Ascii | Binary | Base64 | Ucs2

text \<open>The cases of the \<open>switch\<close> in \<open>slowToString\<close> and \<open>write\<close>; the default case lowers the name once
  and throws the second time.\<close>

definition encoding_of :: "string \<Rightarrow> encoding option" where
  "encoding_of e =
     (if e = ''hex'' then Some Hex
      else if e = ''utf8'' \<or> e = ''utf-8'' then Some Utf8
      else if e = ''ascii'' then Some Ascii
      else if e = ''binary'' then Some Binary
      else if e = ''base64'' then Some Base64
      else if e = ''ucs2'' \<or> e = ''ucs-2'' \<or> e = ''utf16le'' \<or> e = ''utf-16le'' then Some Ucs2
      else None)"

definition dispatch :: "string \<Rightarrow> encoding result" where
  "dispatch e =
     (case encoding_of e of Some x \<Rightarrow> Inr x
      | None \<Rightarrow>
         (case encoding_of (to_lower e) of Some x \<Rightarrow> Inr x
          | None \<Rightarrow> Inl (TypeError (''Unknown encoding: '' @ to_lower e))))"

definition isEncoding :: "string \<Rightarrow> bool" where
  "isEncoding e =
     (to_lower e \<in> {''hex'', ''utf8'', ''utf-8'', ''ascii'', ''binary'', ''base64'', ''raw'', ''ucs2'', ''ucs-2'',
        ''utf16le'', ''utf-16le''})"

definition slice_as :: "encoding \<Rightarrow> bytes \<Rightarrow> int \<Rightarrow> int \<Rightarrow> ustring" where
  "slice_as charset =
     (case charset of Hex \<Rightarrow> hexSlice | Utf8 \<Rightarrow> utf8Slice | Ascii \<Rightarrow> asciiSlice | Binary \<Rightarrow> binarySlice
        | Base64 \<Rightarrow> base64Slice | Ucs2 \<Rightarrow> utf16leSlice)"

definition slowToString :: "bytes \<Rightarrow> string \<Rightarrow> int \<Rightarrow> int option \<Rightarrow> ustring result" where
  "slowToString buf encoding0 start0 end0 =
     (let len = int (length buf);
          start1 = to_int32 start0;
          end1 = (case end0 of None \<Rightarrow> len | Some e \<Rightarrow> to_int32 e);
          encoding = (if encoding0 = [] then ''utf8'' else encoding0);
          start = (if start1 < 0 then 0 else start1);
          end = (if end1 > len then len else end1)
      in if end \<le> start then Inr []
         else bindR (dispatch encoding) (\<lambda>charset. Inr (slice_as charset buf start end)))"

text \<open>\<open>toString\<close>: \<open>None\<close> when it is called with no argument.\<close>

definition toString :: "bytes \<Rightarrow> (string \<times> int \<times> int option) option \<Rightarrow> ustring result" where
  "toString buf args =
     (let len = to_int32 (int (length buf))
      in if len = 0 then Inr []
         else case args of None \<Rightarrow> Inr (utf8Slice buf 0 len)
              | Some (encoding, start, end) \<Rightarrow> slowToString buf encoding start end)"

text \<open>\<open>str.match(/.{2}/g).join(' ')\<close> on the hexadecimal text.\<close>

fun pairs_of :: "'a list \<Rightarrow> 'a list list" where
  "pairs_of (a # b # rest) = [a, b] # pairs_of rest"
| "pairs_of _ = []"

definition inspect :: "bytes \<Rightarrow> ustring result" where
  "inspect buf =
     bindR (if length buf > 0 then
              bindR (toString buf (Some (''hex'', 0, Some 50))) (\<lambda>s.
                Inr (js_join (u16 '' '') (pairs_of s) @ (if length buf > 50 then u16 '' ... '' else [])))
            else Inr [])
       (\<lambda>str. Inr (u16 ''<Buffer '' @ str @ u16 ''>''))"

section \<open>Text to bytes\<close>

text \<open>\<open>units\<close> is the room left; \<open>None\<close> is \<open>Infinity\<close>.\<close>

definition take_units :: "int option \<Rightarrow> int \<Rightarrow> int option" where
  "take_units units k = map_option (\<lambda>u. u - k) units"

definition room :: "int option \<Rightarrow> bool" where
  "room units = (case units of None \<Rightarrow> True | Some u \<Rightarrow> u > -1)"

definition replacement :: "int option \<Rightarrow> bytes" where
  "replacement units = (if room units then [0xEF, 0xBF, 0xBD] else [])"

text \<open>The bytes of a code point, after the branch that chooses their number.\<close>

definition utf8_encode :: "int \<Rightarrow> bytes result" where
  "utf8_encode cp =
     (if cp < 0x80 then Inr [word_of_int cp]
      else if cp < 0x800 then
        Inr [word_of_int (or32 (shr32 cp 6) 0xC0), word_of_int (or32 (and32 cp 0x3F) 0x80)]
      else if cp < 0x10000 then
        Inr [word_of_int (or32 (shr32 cp 12) 0xE0), word_of_int (or32 (and32 (shr32 cp 6) 0x3F) 0x80),
             word_of_int (or32 (and32 cp 0x3F) 0x80)]
      else if cp < 0x110000 then
        Inr [word_of_int (or32 (shr32 cp 18) 0xF0), word_of_int (or32 (and32 (shr32 cp 12) 0x3F) 0x80),
             word_of_int (or32 (and32 (shr32 cp 6) 0x3F) 0x80), word_of_int (or32 (and32 cp 0x3F) 0x80)]
      else Inl (JsError ''Invalid code point''))"

text \<open>\<open>string.charCodeAt(i)\<close> for each \<open>i\<close>, with the pending lead surrogate; \<open>emit\<close> is the tail of the
  loop body, which ends the loop when the bytes do not fit.\<close>

fun utf8_loop :: "int option \<Rightarrow> int option \<Rightarrow> ustring \<Rightarrow> bytes result" where
  "utf8_loop units lead [] = Inr []"
| "utf8_loop units lead (c # rest) =
     (let cp = uint c;
          units3 = take_units units 3;
          emit = (\<lambda>units cp. bindR (utf8_encode cp) (\<lambda>bs.
             let units' = take_units units (int (length bs))
             in if \<not> room units' then Inr [] else bindR (utf8_loop units' None rest) (\<lambda>r. Inr (bs @ r))))
      in if cp > 0xD7FF \<and> cp < 0xE000 then
           (case lead of
              None \<Rightarrow>
                if cp > 0xDBFF \<or> rest = [] then
                  bindR (utf8_loop units3 None rest) (\<lambda>r. Inr (replacement units3 @ r))
                else utf8_loop units (Some cp) rest
            | Some l \<Rightarrow>
                if cp < 0xDC00 then
                  bindR (utf8_loop units3 (Some cp) rest) (\<lambda>r. Inr (replacement units3 @ r))
                else emit units (or32 (or32 (shl32 (l - 0xD800) 10) (cp - 0xDC00)) 0x10000))
         else
           (case lead of
              None \<Rightarrow> emit units cp
            | Some l \<Rightarrow> bindR (emit units3 cp) (\<lambda>r. Inr (replacement units3 @ r))))"

text \<open>\<open>units = units || Infinity\<close>: \<open>0\<close> counts as no limit.\<close>

definition utf8ToBytes :: "ustring \<Rightarrow> int option \<Rightarrow> bytes result" where
  "utf8ToBytes s units = utf8_loop (if units = Some 0 then None else units) None s"

definition asciiToBytes :: "ustring \<Rightarrow> bytes" where
  "asciiToBytes str = map (\<lambda>c. word_of_int (and32 (uint c) 0xFF)) str"

fun utf16leToBytes :: "ustring \<Rightarrow> int \<Rightarrow> bytes" where
  "utf16leToBytes [] units = []"
| "utf16leToBytes (c # rest) units =
     (if units - 2 < 0 then []
      else word_of_int (uint c mod 256) # word_of_int (shr32 (uint c) 8) # utf16leToBytes rest (units - 2))"

definition is_uspace :: "16 word \<Rightarrow> bool" where
  "is_uspace c \<longleftrightarrow> unat c \<in> {9, 10, 11, 12, 13, 32, 160, 0x1680, 0x2028, 0x2029, 0x202F, 0x205F, 0x3000, 0xFEFF}
     \<or> (0x2000 \<le> unat c \<and> unat c \<le> 0x200A)"

definition stringtrim :: "ustring \<Rightarrow> ustring" where
  "stringtrim str = rev (dropWhile is_uspace (rev (dropWhile is_uspace str)))"

text \<open>The characters kept by \<open>INVALID_BASE64_RE = /[^+\/0-9A-Za-z-_]/g\<close>.\<close>

definition base64_char :: "nat \<Rightarrow> bool" where
  "base64_char c \<longleftrightarrow> c = 43 \<or> c = 47 \<or> (48 \<le> c \<and> c \<le> 57) \<or> (65 \<le> c \<and> c \<le> 90) \<or> (97 \<le> c \<and> c \<le> 122)
     \<or> c = 45 \<or> c = 95"

definition pad4 :: "string \<Rightarrow> string" where
  "pad4 str = str @ replicate ((4 - length str mod 4) mod 4) CHR ''=''"

definition base64clean :: "ustring \<Rightarrow> string" where
  "base64clean str0 =
     (let str = map (\<lambda>c. char_of (unat c)) (filter (\<lambda>c. base64_char (unat c)) (stringtrim str0))
      in if length str < 2 then [] else pad4 str)"

definition base64ToBytes :: "ustring \<Rightarrow> bytes result" where
  "base64ToBytes str = b64ToByteArray (base64clean str)"

text \<open>\<open>for (i = 0; i < length; i++)\<close> with its break; returns the buffer and \<open>i\<close>.\<close>

function blit_loop :: "bytes \<Rightarrow> int \<Rightarrow> int \<Rightarrow> int \<Rightarrow> bytes \<Rightarrow> bytes \<times> int" where
  "blit_loop src offset len i dst =
     (if i < len \<and> \<not> (i + offset \<ge> int (length dst) \<or> i \<ge> int (length src))
      then blit_loop src offset len (i + 1) (store (i + offset) (uint (src ! nat i)) dst)
      else (dst, i))"
  by pat_completeness auto
termination
  by (relation "measure (\<lambda>(src, offset, len, i, dst). nat (len - i))") auto

declare blit_loop.simps [simp del]

definition blitBuffer :: "bytes \<Rightarrow> bytes \<Rightarrow> int \<Rightarrow> int \<Rightarrow> bytes \<times> int" where
  "blitBuffer src dst offset len = blit_loop src offset len 0 dst"

text \<open>\<open>parseInt(s, 16)\<close>: leading white space, a sign, an optional \<open>0x\<close>, then the longest run of
  hexadecimal digits; \<open>None\<close> is \<open>NaN\<close>.\<close>

definition hex_value :: "16 word \<Rightarrow> int option" where
  "hex_value c =
     (let n = uint c
      in if 48 \<le> n \<and> n \<le> 57 then Some (n - 48)
         else if 97 \<le> n \<and> n \<le> 102 then Some (n - 87)
         else if 65 \<le> n \<and> n \<le> 70 then Some (n - 55) else None)"

definition parseInt16 :: "ustring \<Rightarrow> int option" where
  "parseInt16 s0 =
     (let s1 = dropWhile is_uspace s0;
          neg = (s1 \<noteq> [] \<and> hd s1 = 45);
          s2 = (if s1 \<noteq> [] \<and> (hd s1 = 43 \<or> hd s1 = 45) then tl s1 else s1);
          s3 = (if starts_with (u16 ''0x'') s2 \<or> starts_with (u16 ''0X'') s2 then drop 2 s2 else s2);
          ds = takeWhile (\<lambda>c. hex_value c \<noteq> None) s3
      in if ds = [] then None
         else let v = fold (\<lambda>c acc. acc * 16 + the (hex_value c)) ds 0
              in Some (if neg then - v else v))"

function hex_loop :: "ustring \<Rightarrow> int \<Rightarrow> int \<Rightarrow> int \<Rightarrow> bytes \<Rightarrow> (bytes \<times> int) result" where
  "hex_loop s offset len i buf =
     (if i < len
      then case parseInt16 (take 2 (drop (2 * nat i) s)) of
             None \<Rightarrow> Inl (JsError ''Invalid hex string'')
           | Some parsed \<Rightarrow> hex_loop s offset len (i + 1) (store (offset + i) parsed buf)
      else Inr (buf, i))"
  by pat_completeness auto
termination
  by (relation "measure (\<lambda>(s, offset, len, i, buf). nat (len - i))") auto

declare hex_loop.simps [simp del]

definition hexWrite :: "bytes \<Rightarrow> ustring \<Rightarrow> int \<Rightarrow> int \<Rightarrow> (bytes \<times> int) result" where
  "hexWrite buf s offset len0 =
     (let remaining = int (length buf) - offset;
          len1 = (if len0 = 0 then remaining else if len0 > remaining then remaining else len0);
          strLen = int (length s)
      in if strLen mod 2 \<noteq> 0 then Inl (JsError ''Invalid hex string'')
         else hex_loop s offset (if len1 > strLen div 2 then strLen div 2 else len1) 0 buf)"

definition utf8Write :: "bytes \<Rightarrow> ustring \<Rightarrow> int \<Rightarrow> int \<Rightarrow> (bytes \<times> int) result" where
  "utf8Write buf s offset len =
     bindR (utf8ToBytes s (Some (int (length buf) - offset))) (\<lambda>bs. Inr (blitBuffer bs buf offset len))"

definition asciiWrite :: "bytes \<Rightarrow> ustring \<Rightarrow> int \<Rightarrow> int \<Rightarrow> (bytes \<times> int) result" where
  "asciiWrite buf s offset len = Inr (blitBuffer (asciiToBytes s) buf offset len)"

definition binaryWrite :: "bytes \<Rightarrow> ustring \<Rightarrow> int \<Rightarrow> int \<Rightarrow> (bytes \<times> int) result" where
  "binaryWrite buf s offset len = asciiWrite buf s offset len"

definition base64Write :: "bytes \<Rightarrow> ustring \<Rightarrow> int \<Rightarrow> int \<Rightarrow> (bytes \<times> int) result" where
  "base64Write buf s offset len = bindR (base64ToBytes s) (\<lambda>bs. Inr (blitBuffer bs buf offset len))"

definition ucs2Write :: "bytes \<Rightarrow> ustring \<Rightarrow> int \<Rightarrow> int \<Rightarrow> (bytes \<times> int) result" where
  "ucs2Write buf s offset len =
     Inr (blitBuffer (utf16leToBytes s (int (length buf) - offset)) buf offset len)"

text \<open>The forms of call of \<open>write\<close>: \<open>write(string)\<close>, \<open>write(string, encoding)\<close>,
  \<open>write(string, offset[, length][, encoding])\<close> whose third argument may be the encoding, and the
  legacy \<open>write(string, encoding, offset, length)\<close>. Encoding names are not numerals.\<close>

datatype write_call =
    WriteAll
  | WriteEncoding string
  | WriteAt int "(int + string) option" "string option"
  | WriteLegacy string int "int option"

definition write_as :: "encoding \<Rightarrow> bytes \<Rightarrow> ustring \<Rightarrow> int \<Rightarrow> int \<Rightarrow> (bytes \<times> int) result" where
  "write_as charset =
     (case charset of Hex \<Rightarrow> hexWrite | Utf8 \<Rightarrow> utf8Write | Ascii \<Rightarrow> asciiWrite | Binary \<Rightarrow> binaryWrite
        | Base64 \<Rightarrow> base64Write | Ucs2 \<Rightarrow> ucs2Write)"

fun write_args :: "bytes \<Rightarrow> write_call \<Rightarrow> int \<times> int option \<times> string option" where
  "write_args buf WriteAll = (0, Some (int (length buf)), Some ''utf8'')"
| "write_args buf (WriteEncoding e) = (0, Some (int (length buf)), Some e)"
| "write_args buf (WriteAt offset None e) = (to_int32 offset, None, None)"
| "write_args buf (WriteAt offset (Some (Inl len)) e) =
     (to_int32 offset, Some (to_int32 len), Some (case e of None \<Rightarrow> ''utf8'' | Some x \<Rightarrow> x))"
| "write_args buf (WriteAt offset (Some (Inr name)) e) = (to_int32 offset, None, Some name)"
| "write_args buf (WriteLegacy e offset len) = (to_int32 offset, len, Some e)"

definition buffer_write :: "bytes \<Rightarrow> ustring \<Rightarrow> write_call \<Rightarrow> (bytes \<times> int) result" where
  "buffer_write buf s call =
     (case write_args buf call of (offset, len0, encoding0) \<Rightarrow>
        let remaining = int (length buf) - offset;
            len = (case len0 of None \<Rightarrow> remaining | Some l \<Rightarrow> if l > remaining then remaining else l);
            encoding = (case encoding0 of None \<Rightarrow> ''utf8'' | Some e \<Rightarrow> if e = [] then ''utf8'' else e)
        in if (length s > 0 \<and> (len < 0 \<or> offset < 0)) \<or> offset > int (length buf)
           then Inl (RangeError ''attempt to write outside buffer bounds'')
           else bindR (dispatch encoding) (\<lambda>charset. write_as charset buf s offset len))"

definition byteLength_as :: "string \<Rightarrow> ustring \<Rightarrow> int result option" where
  "byteLength_as e s =
     (if e = ''ascii'' \<or> e = ''binary'' \<or> e = ''raw'' \<or> e = ''raws'' then Some (Inr (int (length s)))
      else if e = ''utf8'' \<or> e = ''utf-8'' then
        Some (bindR (utf8ToBytes s None) (\<lambda>bs. Inr (int (length bs))))
      else if e = ''ucs2'' \<or> e = ''ucs-2'' \<or> e = ''utf16le'' \<or> e = ''utf-16le'' then
        Some (Inr (int (length s) * 2))
      else if e = ''hex'' then Some (Inr (ushr32 (int (length s)) 1))
      else if e = ''base64'' then Some (bindR (base64ToBytes s) (\<lambda>bs. Inr (int (length bs))))
      else None)"

definition byteLength :: "ustring \<Rightarrow> string \<Rightarrow> int result" where
  "byteLength s e =
     (if s = [] then Inr 0
      else case byteLength_as e s of Some r \<Rightarrow> r
           | None \<Rightarrow>
              (case byteLength_as (to_lower e) s of Some r \<Rightarrow> r
               | None \<Rightarrow> bindR (utf8ToBytes s None) (\<lambda>bs. Inr (int (length bs)))))"

section \<open>Blitting and chunking\<close>

lemma blit_loop_put:
  assumes "k \<le> length src" "off + k \<le> length dst" "k \<le> len"
    and stop: "k = len \<or> off + k = length dst \<or> k = length src"
  shows "j \<le> k \<Longrightarrow> blit_loop src (int off) (int len) (int j) (put_field dst off (take j src))
           = (put_field dst off (take k src), int k)"
proof (induction "k - j" arbitrary: j)
  case 0
  then have "j = k" by simp
  with assms show ?case by (subst blit_loop.simps) auto
next
  case (Suc m)
  then have j: "j < k" by simp
  have e: "int j + int off = int (off + length (take j src))" using j assms by simp
  have "store (int j + int off) (uint (src ! j)) (put_field dst off (take j src))
      = put_field dst off (take (Suc j) src)"
    unfolding e using j assms
    by (subst store_snoc) (simp_all add: take_Suc_conv_app_nth)
  moreover have "blit_loop src (int off) (int len) (int (Suc j)) (put_field dst off (take (Suc j) src))
      = (put_field dst off (take k src), int k)"
    using Suc j by (intro Suc.hyps(1)) auto
  ultimately show ?case using j assms by (subst blit_loop.simps) (simp add: add.commute)
qed

lemma blitBuffer_put:
  "off \<le> length dst \<Longrightarrow> k = min len (min (length dst - off) (length src)) \<Longrightarrow>
     blitBuffer src dst (int off) (int len) = (put_field dst off (take k src), int k)"
  using blit_loop_put [of k src off dst len 0] by (auto simp: blitBuffer_def min_def split: if_splits)

lemma blitBuffer_full:
  "length dst = length src \<Longrightarrow> blitBuffer src dst 0 (int (length src)) = (src, int (length src))"
  using blitBuffer_put [of 0 dst "length src" "length src" src] by (simp add: put_field_def)

lemma chunked_eq: "0 < n \<Longrightarrow> chunked n cs = fromCharCode cs"
proof (induction n cs rule: chunked.induct)
  case (1 n cs)
  show ?case
  proof (cases "cs = []")
    case False
    with 1 have "chunked n (drop n cs) = fromCharCode (drop n cs)" by simp
    with False 1(2) show ?thesis
      by (subst chunked.simps) (simp add: fromCharCode_def flip: map_append)
  qed (simp add: chunked.simps fromCharCode_def)
qed

lemma decodeCodePointsArray_eq [simp]: "decodeCodePointsArray cs = fromCharCode cs"
  by (simp add: decodeCodePointsArray_def chunked_eq)

section \<open>Slices\<close>

lemma slice_bytes_all [simp]: "slice_bytes buf 0 (int (length buf)) = buf"
  by (simp add: slice_bytes_def)

lemma slice_all [simp]: "length buf < 2 ^ 31 \<Longrightarrow> slice buf 0 (Some (int (length buf))) = buf"
  by (simp add: slice_def clamp_def to_int32_small)

section \<open>Hexadecimal\<close>

lemma unat_hex_digit: "d < 16 \<Longrightarrow> unat (hex_digit d) = (if d < 10 then 48 + d else 87 + d)"
  by (simp add: hex_digit_def unat_of_nat)

lemma hex_digit_props:
  assumes "d < 16"
  shows "hex_value (hex_digit d) = Some (int d)" "\<not> is_uspace (hex_digit d)"
    "hex_digit d \<noteq> 43" "hex_digit d \<noteq> 45" "hex_digit d \<noteq> 120" "hex_digit d \<noteq> 88"
proof -
  have u: "unat (hex_digit d) = (if d < 10 then 48 + d else 87 + d)" using assms by (rule unat_hex_digit)
  have "uint (hex_digit d) = int (unat (hex_digit d))" by simp
  then show "hex_value (hex_digit d) = Some (int d)"
    using assms unfolding u by (auto simp: hex_value_def Let_def)
  show "\<not> is_uspace (hex_digit d)" using assms unfolding is_uspace_def u by auto
  show "hex_digit d \<noteq> 43" "hex_digit d \<noteq> 45" "hex_digit d \<noteq> 120" "hex_digit d \<noteq> 88"
    using u assms by (auto dest!: arg_cong [where f = unat] split: if_splits)
qed

lemma u16_chars: "u16 ''0x'' = [48, 120]" "u16 ''0X'' = [48, 88]" "u16 ''0'' = [hex_digit 0]"
  by (simp_all add: u16_def hex_digit_def)

lemma toHex_digits: "toHex n = [hex_digit (unat n div 16), hex_digit (unat n mod 16)]"
  by (simp add: toHex_def u16_chars)

lemma parseInt16_toHex: "parseInt16 (toHex n) = Some (uint n)"
proof -
  let ?a = "unat n div 16" and ?b = "unat n mod 16"
  have "unat n < 256" using unsigned_less [of n] by simp
  then have a: "?a < 16" by simp
  have "starts_with (u16 ''0x'') (toHex n) = False" "starts_with (u16 ''0X'') (toHex n) = False"
    using hex_digit_props [of ?b] by (auto simp: toHex_digits u16_chars starts_with_def)
  moreover have "int ?a * 16 + int ?b = int (unat n)"
    by (metis div_mult_mod_eq of_nat_add of_nat_mult of_nat_numeral)
  ultimately show ?thesis
    using hex_digit_props [OF a] hex_digit_props [of ?b] by (simp add: parseInt16_def toHex_digits Let_def)
qed

lemma length_hex [simp]: "length (concat (map toHex bs)) = 2 * length bs"
  by (induction bs) (auto simp: toHex_digits)

lemma hex_pair: "k < length bs \<Longrightarrow> take 2 (drop (2 * k) (concat (map toHex bs))) = toHex (bs ! k)"
proof (induction bs arbitrary: k)
  case (Cons b bs)
  then show ?case by (cases k) (auto simp: toHex_digits)
qed simp

lemma hex_loop_put:
  assumes "length buf = length bs"
  shows "j \<le> length bs \<Longrightarrow> hex_loop (concat (map toHex bs)) 0 (int (length bs)) (int j) (put_field buf 0 (take j bs))
           = Inr (bs, int (length bs))"
proof (induction "length bs - j" arbitrary: j)
  case 0
  then have "j = length bs" by simp
  with assms show ?case by (subst hex_loop.simps) (simp add: put_field_def)
next
  case (Suc m)
  then have j: "j < length bs" by simp
  have "store (int j) (uint (bs ! j)) (put_field buf 0 (take j bs)) = put_field buf 0 (take (Suc j) bs)"
    using store_snoc [of 0 "take j bs" buf] j assms by (simp add: take_Suc_conv_app_nth)
  moreover have "hex_loop (concat (map toHex bs)) 0 (int (length bs)) (int (Suc j)) (put_field buf 0 (take (Suc j) bs))
      = Inr (bs, int (length bs))"
    using Suc j by (intro Suc.hyps(1)) auto
  ultimately show ?case
    using j by (subst hex_loop.simps) (simp add: hex_pair parseInt16_toHex add.commute)
qed

lemma hexWrite_text:
  "length buf = length bs \<Longrightarrow> hexWrite buf (concat (map toHex bs)) 0 (int (length bs)) = Inr (bs, int (length bs))"
  using hex_loop_put [of buf bs 0] by (cases "bs = []") (auto simp: hexWrite_def Let_def)

section \<open>Binary, UTF-16 and base64\<close>

lemma uint16_id: "0 \<le> x \<Longrightarrow> x < 65536 \<Longrightarrow> uint (word_of_int x :: 16 word) = x"
  by (simp only: uint_word_of_int) simp

lemma uint8_id: "0 \<le> x \<Longrightarrow> x < 256 \<Longrightarrow> uint (word_of_int x :: 8 word) = x"
  by (simp only: uint_word_of_int) simp

lemma asciiToBytes_binary: "asciiToBytes (map (\<lambda>b. word_of_int (uint b)) bs) = bs"
proof -
  have "word_of_int (and32 (uint (word_of_int (uint b) :: 16 word)) 0xFF) = b" for b :: "8 word"
    by (simp only: and32_255 uint16_id uint8_bounds(1) uint8_less) simp
  then show ?thesis by (simp add: asciiToBytes_def comp_def)
qed

lemma utf16le_units:
  "even (length bs) \<Longrightarrow> int (length bs) \<le> u \<Longrightarrow> utf16leToBytes (utf16_units bs) u = bs"
proof (induction bs arbitrary: u rule: utf16_units.induct)
  case (1 a b rest)
  have r: "uint a + uint b * 256 < 65536" using uint8_bounds [of a] uint8_bounds [of b] by linarith
  then have w: "uint (word_of_int (uint a + uint b * 256) :: 16 word) = uint a + uint b * 256"
    by (intro uint16_id) simp_all
  have "word_of_int ((uint a + uint b * 256) mod 256) = a" by simp
  moreover have "shr32 (uint a + uint b * 256) 8 = uint b" using r by (simp add: shr32_div)
  ultimately show ?case using 1 w by simp
qed simp_all

lemma utf16_units_text: "int (2 * length s) \<le> u \<Longrightarrow> utf16_units (utf16leToBytes s u) = s"
proof (induction s arbitrary: u)
  case (Cons c s)
  have c: "0 \<le> uint c" "uint c < 65536" using uint_bounded [of c] by simp_all
  have "uint (word_of_int (uint c mod 256) :: 8 word) = uint c mod 256" by (rule uint8_id) simp_all
  moreover have "shr32 (uint c) 8 = uint c div 256" using c by (simp add: shr32_div)
  moreover have "uint c div 256 < 256" using c by simp
  then have "uint (word_of_int (uint c div 256) :: 8 word) = uint c div 256"
    using c by (intro uint8_id) (simp_all add: pos_imp_zdiv_nonneg_iff)
  ultimately show ?case using Cons by simp
qed simp

text \<open>Base64 text is letters of the alphabet and then place holders up to a multiple of four.\<close>

lemma lookup_base64_char: "c \<in> set lookup \<Longrightarrow> base64_char (code c)"
proof -
  assume "c \<in> set lookup"
  then have "c \<in> char_of ` ({65..<91} \<union> ({97..<123} \<union> ({48..<58} \<union> set [43, 47 :: nat])))"
    unfolding lookup_map set_map set_append set_upt .
  then obtain n where n: "c = char_of n" "n \<in> {65..<91} \<union> ({97..<123} \<union> ({48..<58} \<union> set [43, 47 :: nat]))"
    by (rule imageE)
  then have "code c = n" by auto
  then show ?thesis using n(2) by (auto simp: base64_char_def)
qed

lemma encode_set: "c \<in> set (encode n) \<Longrightarrow> base64_char (code c)"
  using nth_mem [of "nat n" lookup] by (auto simp: encode_def nat_less_iff split: if_splits intro: lookup_base64_char)

lemma uint8ToBase64_shape:
  "\<exists>body p. uint8ToBase64 bs = body @ replicate p CHR ''='' \<and> (\<forall>c \<in> set body. base64_char (code c))
     \<and> p < 4 \<and> (bs \<noteq> [] \<longrightarrow> 2 \<le> length body)"
proof (induction bs rule: uint8ToBase64.induct)
  case (1 a b c rest)
  let ?q = "tripletToBase64 (shl32 (uint a) 16 + shl32 (uint b) 8 + uint c)"
  from 1 obtain body p where r: "uint8ToBase64 rest = body @ replicate p CHR ''=''"
    "\<forall>c \<in> set body. base64_char (code c)" "p < 4" by blast
  moreover have "\<forall>x \<in> set ?q. base64_char (code x)"
    by (auto simp: tripletToBase64_def dest: encode_set)
  moreover have "length ?q = 4" by (simp add: triplet_chars)
  ultimately show ?case by (intro exI [of _ "?q @ body"] exI [of _ p]) auto
next
  case (2 a)
  have l: "length (encode (shr32 (uint a) 2) @ encode (and32 (shl32 (uint a) 4) 63)) = 2"
    using length_uint8ToBase64 [of "[a]"] by (simp add: Let_def)
  show ?case
    by (intro exI [of _ "encode (shr32 (uint a) 2) @ encode (and32 (shl32 (uint a) 4) 63)"] exI [of _ 2])
      (use l in \<open>auto simp: Let_def numeral_2_eq_2 dest: encode_set\<close>)
next
  case (3 a b)
  let ?t = "shl32 (uint a) 8 + uint b"
  let ?b = "encode (shr32 ?t 10) @ encode (and32 (shr32 ?t 4) 63) @ encode (and32 (shl32 ?t 2) 63)"
  have l: "length ?b = 3"
    using length_uint8ToBase64 [of "[a, b]"] by (simp add: Let_def)
  show ?case
    by (intro exI [of _ ?b] exI [of _ 1]) (use l in \<open>auto simp: Let_def dest: encode_set\<close>)
qed (auto intro: exI [of _ 0])

lemma u16_unat [simp]: "unat (word_of_nat (code c) :: 16 word) = code c"
proof -
  have "code c < 65536" by (rule less_trans [OF nat_of_char_less_256]) simp
  then show ?thesis by (simp only: unat_of_nat) simp
qed

lemma base64_char_not_space: "base64_char (unat c) \<Longrightarrow> \<not> is_uspace c"
  by (auto simp: base64_char_def is_uspace_def)

lemma stringtrim_id: "(\<forall>c \<in> set s. \<not> is_uspace c) \<Longrightarrow> stringtrim s = s"
proof -
  assume s: "\<forall>c \<in> set s. \<not> is_uspace c"
  have d: "dropWhile is_uspace t = t" if "\<forall>c \<in> set t. \<not> is_uspace c" for t
    using that by (cases t) auto
  show ?thesis using d [of s] d [of "rev s"] s by (simp add: stringtrim_def)
qed

lemma pad_count: "l + p = 4 * k \<Longrightarrow> p < 4 \<Longrightarrow> (4 - l mod 4) mod 4 = (p :: nat)"
proof -
  assume h: "l + p = 4 * k" "p < 4"
  show ?thesis
  proof (cases "p = 0")
    case False
    then have "l = (4 - p) + 4 * (k - 1)" using h by (cases k) auto
    then have "l mod 4 = (4 - p) mod 4" by (simp only: mod_mult_self2)
    then show ?thesis using h(2) False by simp
  qed (use h in simp)
qed

lemma base64clean_text: "base64clean (u16 (uint8ToBase64 bs)) = uint8ToBase64 bs"
proof (cases "bs = []")
  case False
  obtain body p where s: "uint8ToBase64 bs = body @ replicate p CHR ''=''"
    "\<forall>c \<in> set body. base64_char (code c)" "p < 4" "2 \<le> length body"
    using uint8ToBase64_shape [of bs] False by blast
  have "length body + p = 4 * ((length bs + 2) div 3)"
    using length_uint8ToBase64 [of bs] unfolding s(1) by simp
  then obtain k where "length body + p = 4 * k" by blast
  then have "(4 - length body mod 4) mod 4 = p" using s(3) by (rule pad_count)
  moreover have "stringtrim (u16 (uint8ToBase64 bs)) = u16 (uint8ToBase64 bs)"
    using s(2) base64_char_not_space by (intro stringtrim_id) (auto simp: u16_def s(1) is_uspace_def base64_char_def)
  moreover have "filter (\<lambda>c. base64_char (unat c)) (u16 (uint8ToBase64 bs)) = u16 body"
    using s(2) by (auto simp: u16_def s(1) filter_map comp_def base64_char_def filter_replicate)
  moreover have "map (\<lambda>c. char_of (unat c)) (u16 body) = body" by (simp add: u16_def comp_def)
  ultimately show ?thesis using s by (simp add: base64clean_def pad4_def Let_def)
qed (simp add: base64clean_def u16_def stringtrim_def)

lemma base64ToBytes_text: "base64ToBytes (u16 (uint8ToBase64 bs)) = Inr bs"
  by (simp add: base64ToBytes_def base64clean_text base64_roundtrip_lemma)

section \<open>UTF-8\<close>

text \<open>The bytes of a code point by division, and back.\<close>

lemma or32_add_hi:
  "0 \<le> x \<Longrightarrow> x < 2 ^ n \<Longrightarrow> 0 \<le> a \<Longrightarrow> a * 2 ^ n + x < 2 ^ 31 \<Longrightarrow> or32 x (a * 2 ^ n) = a * 2 ^ n + x"
  using or32_disjoint [of a x n] by (simp add: or32_comm)

lemma or32_lead_bytes:
  "0 \<le> x \<Longrightarrow> x < 64 \<Longrightarrow> or32 x 0x80 = 128 + x"
  "0 \<le> x \<Longrightarrow> x < 32 \<Longrightarrow> or32 x 0xC0 = 192 + x"
  "0 \<le> x \<Longrightarrow> x < 16 \<Longrightarrow> or32 x 0xE0 = 224 + x"
  "0 \<le> x \<Longrightarrow> x < 8 \<Longrightarrow> or32 x 0xF0 = 240 + x"
  using or32_add_hi [of x 6 2] or32_add_hi [of x 5 6] or32_add_hi [of x 4 14] or32_add_hi [of x 3 30] by auto

lemma and_C0: "(v :: int) AND 192 = v mod 256 - v mod 64"
proof -
  have "(v AND 192) AND (v AND 63) = v AND (192 AND 63)"
    by (simp only: and.assoc and.commute and.left_commute and.left_idem)
  then have "(v AND 192) + (v AND 63) = (v AND 192) OR (v AND 63)" by (simp add: disjunctive_add_eq_or)
  also have "\<dots> = v AND (192 OR 63)" by (simp only: bit.conj_disj_distrib)
  finally show ?thesis using and_low_mask [of v 6] and_low_mask [of v 8] by simp
qed

lemma continuation_add: "0 \<le> x \<Longrightarrow> x < 64 \<Longrightarrow> continuation (128 + x)"
  using int_mod_pos_eq [of "128 + x" 64 2 x]
  by (simp add: continuation_def and32_def to_int32_small and_C0)

text \<open>What the encoder makes of a code point in each of its four ranges.\<close>

lemma utf8_encode_2:
  "0x80 \<le> cp \<Longrightarrow> cp < 0x800 \<Longrightarrow>
     utf8_encode cp = Inr [word_of_int (192 + cp div 64), word_of_int (128 + cp mod 64)]"
  by (simp add: utf8_encode_def shr32_div and32_63 or32_lead_bytes pos_imp_zdiv_nonneg_iff)

lemma utf8_encode_3:
  "0x800 \<le> cp \<Longrightarrow> cp < 0x10000 \<Longrightarrow>
     utf8_encode cp = Inr [word_of_int (224 + cp div 4096), word_of_int (128 + cp div 64 mod 64),
       word_of_int (128 + cp mod 64)]"
  by (simp add: utf8_encode_def shr32_div and32_63 or32_lead_bytes pos_imp_zdiv_nonneg_iff)

lemma utf8_encode_4:
  "0x10000 \<le> cp \<Longrightarrow> cp < 0x110000 \<Longrightarrow>
     utf8_encode cp = Inr [word_of_int (240 + cp div 262144), word_of_int (128 + cp div 4096 mod 64),
       word_of_int (128 + cp div 64 mod 64), word_of_int (128 + cp mod 64)]"
  by (simp add: utf8_encode_def shr32_div and32_63 or32_lead_bytes pos_imp_zdiv_nonneg_iff)

lemma shl32_join:
  assumes "0 \<le> a" "a * 2 ^ n + b < 2 ^ 31" "0 \<le> b" "b < 2 ^ n" "n < 32"
  shows "or32 (shl32 a n) b = a * 2 ^ n + b"
proof -
  have "a * 2 ^ n < 2 ^ 31" using assms by linarith
  then show ?thesis using assms by (simp add: shl32_mult or32_disjoint)
qed

text \<open>What the decoder makes of a lead byte followed by continuation bytes.\<close>

lemma and32_cont: "0 \<le> y \<Longrightarrow> y < 64 \<Longrightarrow> and32 (128 + y) 63 = y"
  unfolding and32_63 by (rule int_mod_pos_eq [where q = 2]) auto

lemma utf8_codePoint_2:
  assumes b: "uint b0 = 192 + x" "uint b1 = 128 + y" and r: "2 \<le> x" "x < 32" "0 \<le> y" "y < 64"
  shows "utf8_codePoint (b0 # b1 # rest) = Some (x * 64 + y)" and "bytesPerSequence (uint b0) = 2"
proof -
  show n: "bytesPerSequence (uint b0) = 2" using b r by (simp add: bytesPerSequence_def)
  have m: "and32 (192 + x) 31 = x"
    using r unfolding and32_31 by (intro int_mod_pos_eq [where q = 6]) auto
  have "or32 (shl32 x 6) y = x * 2 ^ 6 + y" using r by (intro shl32_join) auto
  then show "utf8_codePoint (b0 # b1 # rest) = Some (x * 64 + y)"
    unfolding utf8_codePoint_def Let_def using b r n
    by (simp add: m and32_cont continuation_add)
qed

lemma utf8_codePoint_3:
  assumes b: "uint b0 = 224 + x" "uint b1 = 128 + y" "uint b2 = 128 + z"
    and r: "0 \<le> x" "x < 16" "0 \<le> y" "y < 64" "0 \<le> z" "z < 64"
    and t: "0x800 \<le> x * 4096 + y * 64 + z" "x * 4096 + y * 64 + z < 0xD800 \<or> x * 4096 + y * 64 + z > 0xDFFF"
  shows "utf8_codePoint (b0 # b1 # b2 # rest) = Some (x * 4096 + y * 64 + z)" and "bytesPerSequence (uint b0) = 3"
proof -
  show n: "bytesPerSequence (uint b0) = 3" using b r by (simp add: bytesPerSequence_def)
  have m: "and32 (224 + x) 15 = x"
    using r unfolding and32_15 by (intro int_mod_pos_eq [where q = 14]) auto
  have s: "shl32 y 6 = y * 64" using shl32_mult [of y 6] r by simp
  have "or32 (shl32 x 12) (y * 64) = x * 2 ^ 12 + y * 64" using r by (intro shl32_join) auto
  moreover have "x * 2 ^ 12 + y * 64 = (x * 64 + y) * 2 ^ 6" by simp
  moreover have "or32 ((x * 64 + y) * 2 ^ 6) z = (x * 64 + y) * 2 ^ 6 + z" using r by (intro or32_disjoint) auto
  ultimately have j: "or32 (or32 (shl32 x 12) (shl32 y 6)) z = x * 4096 + y * 64 + z" unfolding s by (simp add: mult.commute)
  show "utf8_codePoint (b0 # b1 # b2 # rest) = Some (x * 4096 + y * 64 + z)"
    unfolding utf8_codePoint_def Let_def using b r n t
    by (simp add: m and32_cont continuation_add j)
qed

lemma utf8_codePoint_4:
  assumes b: "uint b0 = 240 + x" "uint b1 = 128 + y" "uint b2 = 128 + z" "uint b3 = 128 + w"
    and r: "0 \<le> x" "x < 8" "0 \<le> y" "y < 64" "0 \<le> z" "z < 64" "0 \<le> w" "w < 64"
    and t: "0xFFFF < x * 262144 + y * 4096 + z * 64 + w" "x * 262144 + y * 4096 + z * 64 + w < 0x110000"
  shows "utf8_codePoint (b0 # b1 # b2 # b3 # rest) = Some (x * 262144 + y * 4096 + z * 64 + w)"
    and "bytesPerSequence (uint b0) = 4"
proof -
  show n: "bytesPerSequence (uint b0) = 4" using b r by (simp add: bytesPerSequence_def)
  have m: "and32 (240 + x) 15 = x"
    using r unfolding and32_15 by (intro int_mod_pos_eq [where q = 15]) auto
  have s: "shl32 y 12 = y * 4096" "shl32 z 6 = z * 64" using shl32_mult [of y 12] shl32_mult [of z 6] r by auto
  have "or32 (shl32 x 18) (y * 4096) = x * 2 ^ 18 + y * 4096" using r by (intro shl32_join) auto
  moreover have "x * 2 ^ 18 + y * 4096 = (x * 64 + y) * 2 ^ 12" by simp
  moreover have "or32 ((x * 64 + y) * 2 ^ 12) (z * 64) = (x * 64 + y) * 2 ^ 12 + z * 64"
    using r by (intro or32_disjoint) auto
  moreover have "(x * 64 + y) * 2 ^ 12 + z * 64 = (x * 4096 + y * 64 + z) * 2 ^ 6" by simp
  moreover have "or32 ((x * 4096 + y * 64 + z) * 2 ^ 6) w = (x * 4096 + y * 64 + z) * 2 ^ 6 + w"
    using r by (intro or32_disjoint) auto
  ultimately have j: "or32 (or32 (or32 (shl32 x 18) (shl32 y 12)) (shl32 z 6)) w = x * 262144 + y * 4096 + z * 64 + w"
    unfolding s by (simp add: mult.commute)
  show "utf8_codePoint (b0 # b1 # b2 # b3 # rest) = Some (x * 262144 + y * 4096 + z * 64 + w)"
    unfolding utf8_codePoint_def Let_def using b r n t
    by (simp add: m and32_cont continuation_add j)
qed

definition surrogate :: "int \<Rightarrow> bool" where
  "surrogate cp \<longleftrightarrow> 0xD800 \<le> cp \<and> cp \<le> 0xDFFF"

lemma mod_64_facts: "0 \<le> (x :: int) mod 64" "x mod 64 < 64"
  by simp_all

lemma div_digits:
  "(x :: int) = x div 64 * 64 + x mod 64"
  "x = x div 4096 * 4096 + x div 64 mod 64 * 64 + x mod 64"
  "x = x div 262144 * 262144 + x div 4096 mod 64 * 4096 + x div 64 mod 64 * 64 + x mod 64"
proof -
  have a: "x = x div 64 * 64 + x mod 64" for x :: int by simp
  have b: "x div 64 div 64 = x div 4096" "x div 4096 div 64 = x div 262144" for x :: int
    by (simp_all add: zdiv_zmult2_eq [symmetric])
  show "x = x div 64 * 64 + x mod 64" by (rule a)
  show "x = x div 4096 * 4096 + x div 64 mod 64 * 64 + x mod 64"
    using a [of x] a [of "x div 64"] unfolding b by linarith
  show "x = x div 262144 * 262144 + x div 4096 mod 64 * 4096 + x div 64 mod 64 * 64 + x mod 64"
    using a [of x] a [of "x div 64"] a [of "x div 4096"] unfolding b by linarith
qed

text \<open>Decoding the bytes of a code point gives the code point and its length.\<close>

lemma utf8_decode_encode:
  assumes cp: "0 \<le> cp" "cp < 0x110000" "\<not> surrogate cp"
  shows "\<exists>b bs. utf8_encode cp = Inr (b # bs) \<and> bytesPerSequence (uint b) = Suc (length bs)
           \<and> (\<forall>rest. utf8_codePoint (b # bs @ rest) = Some cp)"
proof -
  have u: "uint (word_of_int (h + y) :: 8 word) = h + y" if "0 \<le> y" "0 \<le> h" "h + y < 256" for h y :: int
    using that by (intro uint8_id) auto
  define w where "w = (\<lambda>h y. word_of_int (h + y) :: 8 word)"
  have uw: "uint (w h y) = h + y" if "0 \<le> y" "0 \<le> h" "h + y < 256" for h y
    unfolding w_def using that by (rule u)
  have c: "uint (w 128 (y mod 64)) = 128 + y mod 64" for y
    using mod_64_facts [of y] by (intro uw) linarith+
  consider "cp < 0x80" | "0x80 \<le> cp" "cp < 0x800" | "0x800 \<le> cp" "cp < 0x10000" | "0x10000 \<le> cp" by linarith
  then show ?thesis
  proof cases
    case 1
    then have "uint (word_of_int cp :: 8 word) = cp" using cp by (intro uint8_id) auto
    then show ?thesis using 1 cp by (simp add: utf8_encode_def utf8_codePoint_def bytesPerSequence_def Let_def)
  next
    case 2
    then have x: "2 \<le> cp div 64" "cp div 64 < 32" by simp_all
    then have "uint (w 192 (cp div 64)) = 192 + cp div 64" by (intro uw) auto
    note d = utf8_codePoint_2 [OF this c x mod_64_facts, folded div_digits(1)]
    have "utf8_encode cp = Inr [w 192 (cp div 64), w 128 (cp mod 64)]" using 2 by (simp only: utf8_encode_2 w_def)
    then show ?thesis using d by simp
  next
    case 3
    then have x: "0 \<le> cp div 4096" "cp div 4096 < 16" by (simp_all add: pos_imp_zdiv_nonneg_iff)
    then have "uint (w 224 (cp div 4096)) = 224 + cp div 4096" by (intro uw) auto
    note d = utf8_codePoint_3 [OF this c c x mod_64_facts mod_64_facts, of "cp div 64" cp, folded div_digits(2)]
    have "utf8_encode cp = Inr [w 224 (cp div 4096), w 128 (cp div 64 mod 64), w 128 (cp mod 64)]"
      using 3 by (simp only: utf8_encode_3 w_def)
    moreover have "cp < 0xD800 \<or> cp > 0xDFFF" using cp(3) by (auto simp: surrogate_def)
    ultimately show ?thesis using d [OF 3(1)] by simp
  next
    case 4
    then have x: "0 \<le> cp div 262144" "cp div 262144 < 8" using cp by (simp_all add: pos_imp_zdiv_nonneg_iff)
    then have "uint (w 240 (cp div 262144)) = 240 + cp div 262144" by (intro uw) auto
    note d = utf8_codePoint_4 [OF this c c c x mod_64_facts mod_64_facts mod_64_facts,
        of "cp div 4096" "cp div 64" cp, folded div_digits(3)]
    have "utf8_encode cp = Inr [w 240 (cp div 262144), w 128 (cp div 4096 mod 64), w 128 (cp div 64 mod 64), w 128 (cp mod 64)]"
      using 4 cp by (simp only: utf8_encode_4 w_def)
    then show ?thesis using d 4 cp by simp
  qed
qed

lemma utf8_points_encode:
  assumes "0 \<le> cp" "cp < 0x110000" "\<not> surrogate cp" "utf8_encode cp = Inr bs"
  shows "utf8_points (bs @ rest) =
     (if cp > 0xFFFF
      then [or32 (and32 (ushr32 (cp - 0x10000) 10) 0x3FF) 0xD800, or32 0xDC00 (and32 (cp - 0x10000) 0x3FF)]
      else [cp]) @ utf8_points rest"
proof -
  obtain b cs where "bs = b # cs" "bytesPerSequence (uint b) = Suc (length cs)"
    "utf8_codePoint (b # cs @ rest) = Some cp"
    using utf8_decode_encode [OF assms(1,2,3)] assms(4) by auto
  then show ?thesis by (simp add: Let_def)
qed

text \<open>Texts in which every lead surrogate is followed by a trail surrogate, and every trail surrogate
  follows a lead.\<close>

definition is_lead :: "16 word \<Rightarrow> bool" where
  "is_lead c \<longleftrightarrow> 0xD800 \<le> uint c \<and> uint c < 0xDC00"

definition is_trail :: "16 word \<Rightarrow> bool" where
  "is_trail c \<longleftrightarrow> 0xDC00 \<le> uint c \<and> uint c < 0xE000"

fun wf_utf16 :: "ustring \<Rightarrow> bool" where
  "wf_utf16 [] \<longleftrightarrow> True"
| "wf_utf16 [c] \<longleftrightarrow> \<not> is_lead c \<and> \<not> is_trail c"
| "wf_utf16 (c # d # rest) \<longleftrightarrow>
     (if is_lead c then is_trail d \<and> wf_utf16 rest else \<not> is_trail c \<and> wf_utf16 (d # rest))"

text \<open>A lead surrogate of the planes 1, 3, 5, ...: the pair is encoded with \<open>| 0x10000\<close>, which adds
  only when bit 16 is clear.\<close>

definition odd_plane :: "16 word \<Rightarrow> bool" where
  "odd_plane c \<longleftrightarrow> even ((uint c - 0xD800) div 64)"

lemma pair_code:
  assumes l: "0 \<le> l" "l < 1024" "even (l div 64)" and t: "0 \<le> t" "t < 1024"
  shows "or32 (or32 (shl32 l 10) t) 0x10000 = l * 1024 + t + 0x10000"
proof -
  let ?x = "l * 1024 + t"
  have j: "or32 (shl32 l 10) t = ?x" using shl32_join [of l 10 t] l t by simp
  have "?x div 65536 = ?x div 1024 div 64" by (simp add: zdiv_zmult2_eq [symmetric])
  also have "?x div 1024 = l" by (rule int_div_pos_eq) (use t in auto)
  finally have "\<not> bit ?x 16" using l(3) by (simp add: bit_iff_odd)
  then have "?x AND 2 ^ 16 = 0" using and_exp_eq_0_iff_not_bit [of ?x 16] by blast
  then have "?x OR 0x10000 = ?x + 0x10000" using disjunctive_add_eq_or [of ?x "0x10000"] by simp
  moreover have "to_int32 ?x = ?x" using l t by (intro to_int32_small) auto
  ultimately show ?thesis unfolding j by (simp add: or32_def to_int32_small)
qed

lemma surrogate_units:
  assumes l: "0 \<le> l" "l < 1024" and t: "0 \<le> t" "t < 1024"
  shows "or32 (and32 (ushr32 (l * 1024 + t) 10) 0x3FF) 0xD800 = 0xD800 + l"
    and "or32 0xDC00 (and32 (l * 1024 + t) 0x3FF) = 0xDC00 + t"
proof -
  have d: "(l * 1024 + t) div 1024 = l" by (rule int_div_pos_eq) (use t in auto)
  have m: "(l * 1024 + t) mod 1024 = t" by (rule int_mod_pos_eq [where q = l]) (use t in auto)
  have "ushr32 (l * 1024 + t) 10 = l" using ushr32_div [of "l * 1024 + t" 10] l t d by simp
  then show "or32 (and32 (ushr32 (l * 1024 + t) 10) 0x3FF) 0xD800 = 0xD800 + l"
    using or32_add_hi [of l 10 54] l by (simp add: and32_1023)
  show "or32 0xDC00 (and32 (l * 1024 + t) 0x3FF) = 0xDC00 + t"
    using or32_disjoint [of 55 t 10] t by (simp add: and32_1023 m)
qed

lemma units_None [simp]: "take_units None k = None" "room None"
  by (simp_all add: take_units_def room_def)

lemma utf8_encode_total: "cp < 0x110000 \<Longrightarrow> \<exists>bs. utf8_encode cp = Inr bs \<and> bs \<noteq> []"
  by (auto simp: utf8_encode_def)

lemma uint16_bounds: "0 \<le> uint (c :: 16 word)" "uint (c :: 16 word) < 65536"
  using uint_bounded [of c] by simp_all

lemma utf8_loop_bmp:
  "\<not> is_lead c \<Longrightarrow> \<not> is_trail c \<Longrightarrow>
     \<exists>bs. utf8_encode (uint c) = Inr bs
       \<and> utf8_loop None None (c # rest) = bindR (utf8_loop None None rest) (\<lambda>r. Inr (bs @ r))"
  using utf8_encode_total [of "uint c"] uint16_bounds [of c] by (auto simp: is_lead_def is_trail_def Let_def)

lemma utf8_loop_pair:
  assumes "is_lead c" "is_trail d" "odd_plane c"
  defines "cp \<equiv> (uint c - 0xD800) * 1024 + (uint d - 0xDC00) + 0x10000"
  shows "\<exists>bs. utf8_encode cp = Inr bs
       \<and> utf8_loop None None (c # d # rest) = bindR (utf8_loop None None rest) (\<lambda>r. Inr (bs @ r))"
proof -
  have r: "0 \<le> uint c - 0xD800" "uint c - 0xD800 < 1024" "0 \<le> uint d - 0xDC00" "uint d - 0xDC00 < 1024"
    using assms by (auto simp: is_lead_def is_trail_def)
  have "or32 (or32 (shl32 (uint c - 0xD800) 10) (uint d - 0xDC00)) 0x10000 = cp"
    unfolding cp_def using assms(3) r by (intro pair_code) (auto simp: odd_plane_def)
  moreover obtain bs where "utf8_encode cp = Inr bs"
    using utf8_encode_total [of cp] r unfolding cp_def by auto
  ultimately show ?thesis using assms(1,2) by (auto simp: is_lead_def is_trail_def Let_def)
qed

lemma utf8_text_lemma:
  "wf_utf16 s \<Longrightarrow> (\<forall>c \<in> set s. is_lead c \<longrightarrow> odd_plane c) \<Longrightarrow>
     \<exists>bs. utf8_loop None None s = Inr bs \<and> fromCharCode (utf8_points bs) = s"
proof (induction s rule: wf_utf16.induct)
  case 1
  then show ?case by (simp add: fromCharCode_def)
next
  case (2 c)
  then have c: "\<not> is_lead c" "\<not> is_trail c" by auto
  obtain bs where bs: "utf8_encode (uint c) = Inr bs" "utf8_loop None None [c] = Inr bs"
    using utf8_loop_bmp [OF c, of "[]"] by auto
  have "utf8_points (bs @ []) = [uint c] @ utf8_points []"
    using utf8_points_encode [OF _ _ _ bs(1), of "[]"] uint16_bounds [of c] c
    by (auto simp: surrogate_def is_lead_def is_trail_def)
  then show ?case using bs by (simp add: fromCharCode_def)
next
  case (3 c d rest)
  show ?case
  proof (cases "is_lead c")
    case True
    then have d: "is_trail d" "wf_utf16 rest" "odd_plane c" using "3.prems" by auto
    define l t where "l = uint c - 0xD800" and "t = uint d - 0xDC00"
    have r: "0 \<le> l" "l < 1024" "0 \<le> t" "t < 1024"
      using True d by (auto simp: is_lead_def is_trail_def l_def t_def)
    obtain bs where bs: "utf8_encode (l * 1024 + t + 0x10000) = Inr bs"
      "utf8_loop None None (c # d # rest) = bindR (utf8_loop None None rest) (\<lambda>r. Inr (bs @ r))"
      using utf8_loop_pair [OF True d(1,3)] unfolding l_def t_def by blast
    obtain rs where rs: "utf8_loop None None rest = Inr rs" "fromCharCode (utf8_points rs) = rest"
      using "3.IH"(1) True d "3.prems"(2) by auto
    have "utf8_points (bs @ rs) = [0xD800 + l, 0xDC00 + t] @ utf8_points rs"
      using utf8_points_encode [OF _ _ _ bs(1), of rs] r surrogate_units [OF r]
      by (simp add: surrogate_def)
    then show ?thesis using bs(2) rs by (simp add: fromCharCode_def l_def t_def del: utf8_loop.simps)
  next
    case False
    then have c: "\<not> is_trail c" "wf_utf16 (d # rest)" using "3.prems" by auto
    obtain bs where bs: "utf8_encode (uint c) = Inr bs"
      "utf8_loop None None (c # d # rest) = bindR (utf8_loop None None (d # rest)) (\<lambda>r. Inr (bs @ r))"
      using utf8_loop_bmp [OF False c(1)] by blast
    obtain rs where rs: "utf8_loop None None (d # rest) = Inr rs" "fromCharCode (utf8_points rs) = d # rest"
      using "3.IH"(2) False c "3.prems"(2) by auto
    have "utf8_points (bs @ rs) = [uint c] @ utf8_points rs"
      using utf8_points_encode [OF _ _ _ bs(1)] uint16_bounds [of c] c(1) False
      by (auto simp: surrogate_def is_lead_def is_trail_def)
    then show ?thesis using bs(2) rs by (simp add: fromCharCode_def del: utf8_loop.simps)
  qed
qed

text \<open>Encoding never throws and never needs more room than it is given.\<close>

lemma or32_bound: "0 \<le> a \<Longrightarrow> a < 2 ^ n \<Longrightarrow> 0 \<le> b \<Longrightarrow> b < 2 ^ n \<Longrightarrow> n \<le> 31 \<Longrightarrow> 0 \<le> or32 a b \<and> or32 a b < 2 ^ n"
proof -
  assume h: "0 \<le> a" "a < 2 ^ n" "0 \<le> b" "b < 2 ^ n" "n \<le> 31"
  have "(2 :: int) ^ n \<le> 2 ^ 31" using h(5) by (rule power_increasing) simp
  then have "a < 2 ^ 31" "b < 2 ^ 31" using h by linarith+
  then have "or32 a b = a OR b" using h by (simp add: or32_def to_int32_small)
  then show ?thesis using h by (simp add: OR_upper)
qed

lemma pair_code_bound:
  assumes "0xD800 \<le> l" "l < 0xDC00" "0xDC00 \<le> t" "t < 0xE000"
  shows "or32 (or32 (shl32 (l - 0xD800) 10) (t - 0xDC00)) 0x10000 < 0x110000"
proof -
  have "shl32 (l - 0xD800) 10 = (l - 0xD800) * 1024" using shl32_mult [of "l - 0xD800" 10] assms by simp
  then have "0 \<le> or32 (shl32 (l - 0xD800) 10) (t - 0xDC00) \<and> or32 (shl32 (l - 0xD800) 10) (t - 0xDC00) < 2 ^ 20"
    using assms by (intro or32_bound) auto
  then have "or32 (or32 (shl32 (l - 0xD800) 10) (t - 0xDC00)) 0x10000 < 2 ^ 20"
    using or32_bound [of _ 20 "0x10000"] by simp
  then show ?thesis by simp
qed

definition units_left :: "int option \<Rightarrow> nat \<Rightarrow> bool" where
  "units_left units n = (case units of None \<Rightarrow> True | Some u \<Rightarrow> int n \<le> max 0 u)"

lemma units_left_replacement:
  "units_left (take_units units 3) n \<Longrightarrow> units_left units (length (replacement (take_units units 3)) + n)"
  by (auto simp: units_left_def take_units_def replacement_def room_def split: option.splits)

lemma units_left_add:
  "units_left (take_units units (int k)) n \<Longrightarrow> room (take_units units (int k)) \<Longrightarrow> units_left units (k + n)"
  by (auto simp: units_left_def take_units_def room_def split: option.splits)

lemma units_left_0 [simp]: "units_left units 0"
  by (simp add: units_left_def split: option.splits)

definition lead_ok :: "int option \<Rightarrow> bool" where
  "lead_ok lead = (case lead of None \<Rightarrow> True | Some l \<Rightarrow> 0xD800 \<le> l \<and> l < 0xDC00)"

lemma utf8_loop_total:
  "lead_ok lead \<Longrightarrow> \<exists>bs. utf8_loop units lead s = Inr bs \<and> units_left units (length bs)"
proof (induction s arbitrary: units lead)
  case (Cons c rest)
  let ?emit = "\<lambda>units cp. bindR (utf8_encode cp) (\<lambda>bs.
     let units' = take_units units (int (length bs))
     in if \<not> room units' then Inr [] else bindR (utf8_loop units' None rest) (\<lambda>r. Inr (bs @ r)))"
  have e: "\<exists>bs. ?emit u cp = Inr bs \<and> units_left u (length bs)" if cp: "cp < 0x110000" for u cp
  proof -
    obtain bs where bs: "utf8_encode cp = Inr bs" using utf8_encode_total [OF cp] by blast
    obtain rs where "utf8_loop (take_units u (int (length bs))) None rest = Inr rs"
      "units_left (take_units u (int (length bs))) (length rs)"
      using Cons.IH [of None "take_units u (int (length bs))"] by (auto simp: lead_ok_def)
    then show ?thesis using bs units_left_add [of u "length bs" "length rs"] by (simp add: Let_def)
  qed
  have r: "\<exists>bs. bindR x (\<lambda>r. Inr (replacement (take_units units 3) @ r)) = Inr bs \<and> units_left units (length bs)"
    if "\<exists>bs. x = Inr bs \<and> units_left (take_units units 3) (length bs)" for x
    using that units_left_replacement [of units] by auto
  have i: "\<exists>bs. utf8_loop u l rest = Inr bs \<and> units_left u (length bs)" if "lead_ok l" for u l
    using Cons.IH that by blast
  show ?case
  proof (cases "uint c > 0xD7FF \<and> uint c < 0xE000")
    case True
    show ?thesis
    proof (cases lead)
      case None
      then show ?thesis using True r [OF i] i [of "Some (uint c)"] by (auto simp: Let_def lead_ok_def)
    next
      case (Some l)
      then have "\<not> uint c < 0xDC00 \<Longrightarrow> or32 (or32 (shl32 (l - 0xD800) 10) (uint c - 0xDC00)) 0x10000 < 0x110000"
        using True Cons.prems by (intro pair_code_bound) (auto simp: lead_ok_def)
      then show ?thesis using True Some e r [OF i] by (auto simp: Let_def lead_ok_def)
    qed
  next
    case False
    have "uint c < 0x110000" using uint16_bounds [of c] by linarith
    then show ?thesis using False e [of "uint c"] r [OF e, of "uint c"] by (cases lead) (auto simp: Let_def)
  qed
qed simp

text \<open>Whatever the bytes, the decoded text is well-formed UTF-16.\<close>

lemma and32_mod_facts:
  "0 \<le> and32 x 31 \<and> and32 x 31 < 32" "0 \<le> and32 x 15 \<and> and32 x 15 < 16" "0 \<le> and32 x 63 \<and> and32 x 63 < 64"
  by (simp_all add: and32_31 and32_15 and32_63)

lemma shl32_bound:
  "0 \<le> x \<Longrightarrow> x < 2 ^ k \<Longrightarrow> k + n \<le> 30 \<Longrightarrow> 0 \<le> shl32 x n \<and> shl32 x n < 2 ^ (k + n)"
proof -
  assume h: "0 \<le> x" "x < 2 ^ k" "k + n \<le> 30"
  have a: "x * 2 ^ n < 2 ^ (k + n)" using h by (simp add: power_add)
  have "(2 :: int) ^ (k + n) \<le> 2 ^ 31" using h(3) by (intro power_increasing) auto
  then show ?thesis using h a shl32_mult [of x n] by simp
qed

lemma utf8_codePoint_range:
  "utf8_codePoint bs = Some cp \<Longrightarrow> 0 \<le> cp \<and> cp < 0x110000 \<and> \<not> surrogate cp"
proof -
  assume a: "utf8_codePoint bs = Some cp"
  let ?b = "\<lambda>k. uint (bs ! k)"
  let ?t2 = "or32 (shl32 (and32 (?b 0) 0x1F) 6) (and32 (?b 1) 0x3F)"
  let ?t3 = "or32 (or32 (shl32 (and32 (?b 0) 0xF) 12) (shl32 (and32 (?b 1) 0x3F) 6)) (and32 (?b 2) 0x3F)"
  have "0 \<le> ?t2 \<and> ?t2 < 2 ^ 11"
    using shl32_bound [of "and32 (?b 0) 31" 5 6] and32_mod_facts [of "?b 0"] and32_mod_facts [of "?b 1"]
    by (intro or32_bound) auto
  moreover have "0 \<le> or32 (shl32 (and32 (?b 0) 0xF) 12) (shl32 (and32 (?b 1) 0x3F) 6)
      \<and> or32 (shl32 (and32 (?b 0) 0xF) 12) (shl32 (and32 (?b 1) 0x3F) 6) < 2 ^ 16"
    using shl32_bound [of "and32 (?b 0) 15" 4 12] shl32_bound [of "and32 (?b 1) 63" 6 6]
      and32_mod_facts [of "?b 0"] and32_mod_facts [of "?b 1"]
    by (intro or32_bound) auto
  then have "0 \<le> ?t3 \<and> ?t3 < 2 ^ 16"
    using and32_mod_facts [of "?b 2"] by (intro or32_bound) auto
  ultimately show ?thesis
    using a by (auto simp: utf8_codePoint_def Let_def surrogate_def split: if_splits)
qed

lemma wf_utf16_bmp:
  "0 \<le> cp \<Longrightarrow> cp < 0x10000 \<Longrightarrow> \<not> surrogate cp \<Longrightarrow> wf_utf16 (word_of_int cp # s) = wf_utf16 s"
  by (cases s) (auto simp: is_lead_def is_trail_def surrogate_def uint16_id)

lemma wf_utf16_pair:
  "0 \<le> l \<Longrightarrow> l < 1024 \<Longrightarrow> 0 \<le> t \<Longrightarrow> t < 1024 \<Longrightarrow>
     wf_utf16 (word_of_int (0xD800 + l) # word_of_int (0xDC00 + t) # s) = wf_utf16 s"
  using uint16_id [of "0xD800 + l"] uint16_id [of "0xDC00 + t"]
  by (simp add: is_lead_def is_trail_def del: of_int_add)

lemma wf_utf8_points: "wf_utf16 (fromCharCode (utf8_points bs))"
proof (induction bs rule: utf8_points.induct)
  case (2 c cs)
  show ?case
  proof (cases "utf8_codePoint (c # cs)")
    case None
    then show ?thesis using 2(1) wf_utf16_bmp [of "0xFFFD" "fromCharCode (utf8_points cs)"]
      by (simp add: fromCharCode_def surrogate_def)
  next
    case (Some cp)
    define rest where "rest = drop (bytesPerSequence (uint c)) (c # cs)"
    have IH: "wf_utf16 (fromCharCode (utf8_points rest))"
      using 2(2,3) [OF Some rest_def] by (metis linorder_not_less)
    have r: "0 \<le> cp" "cp < 0x110000" "\<not> surrogate cp" using utf8_codePoint_range [OF Some] by auto
    have q: "utf8_points (c # cs) = (if cp > 0xFFFF then
        or32 (and32 (ushr32 (cp - 0x10000) 10) 0x3FF) 0xD800 # or32 0xDC00 (and32 (cp - 0x10000) 0x3FF) # utf8_points rest
        else cp # utf8_points rest)"
      using Some by (simp add: rest_def Let_def)
    show ?thesis
    proof (cases "cp > 0xFFFF")
      case True
      define l t where "l = (cp - 0x10000) div 1024" and "t = (cp - 0x10000) mod 1024"
      have "l * 1024 + t = cp - 0x10000" by (simp add: l_def t_def)
      moreover have "0 \<le> l" "l < 1024" "0 \<le> t" "t < 1024"
        using True r by (simp_all add: l_def t_def pos_imp_zdiv_nonneg_iff)
      ultimately show ?thesis using True IH q surrogate_units [of l t] wf_utf16_pair [of l t]
        by (simp add: fromCharCode_def del: of_int_add)
    next
      case False
      then show ?thesis using r IH q wf_utf16_bmp [of cp "fromCharCode (utf8_points rest)"]
        by (simp add: fromCharCode_def)
    qed
  qed
qed (simp add: fromCharCode_def)

section \<open>What a write changes\<close>

lemma store_nth: "int j \<noteq> i \<Longrightarrow> store i v buf ! j = buf ! j"
  by (auto simp: store_def)

definition changes_only :: "bytes \<Rightarrow> bytes \<Rightarrow> int \<Rightarrow> int \<Rightarrow> bool" where
  "changes_only buf buf' lo hi \<longleftrightarrow>
     length buf' = length buf \<and> (\<forall>j < length buf. int j < lo \<or> hi \<le> int j \<longrightarrow> buf' ! j = buf ! j)"

lemma changes_only_refl [simp]: "changes_only buf buf lo hi"
  by (simp add: changes_only_def)

lemma changes_only_store:
  "changes_only (store k v buf) buf' lo hi \<Longrightarrow> lo \<le> k \<Longrightarrow> k < hi \<Longrightarrow> changes_only buf buf' lo hi"
  by (auto simp: changes_only_def store_nth)

lemma blit_loop_changes:
  "blit_loop src offset len i dst = (dst', n) \<Longrightarrow> i \<le> n \<and> changes_only dst dst' (offset + i) (offset + n)"
proof (induction src offset len i dst rule: blit_loop.induct)
  case (1 src offset len i dst)
  show ?case
  proof (cases "i < len \<and> \<not> (i + offset \<ge> int (length dst) \<or> i \<ge> int (length src))")
    case True
    then have "blit_loop src offset len (i + 1) (store (i + offset) (uint (src ! nat i)) dst) = (dst', n)"
      using "1.prems" by (subst (asm) blit_loop.simps) simp
    from "1.IH" [OF True this]
    have n: "i + 1 \<le> n" "changes_only (store (i + offset) (uint (src ! nat i)) dst) dst' (offset + (i + 1)) (offset + n)"
      by auto
    then have "changes_only (store (i + offset) (uint (src ! nat i)) dst) dst' (offset + i) (offset + n)"
      by (auto simp: changes_only_def)
    then show ?thesis using n(1) by (auto intro: changes_only_store)
  next
    case False
    then show ?thesis using "1.prems" by (subst (asm) blit_loop.simps) auto
  qed
qed

lemma hex_loop_changes:
  "hex_loop s offset len i buf = Inr (buf', n) \<Longrightarrow> i \<le> n \<and> changes_only buf buf' (offset + i) (offset + n)"
proof (induction s offset len i buf rule: hex_loop.induct)
  case (1 s offset len i buf)
  show ?case
  proof (cases "i < len")
    case True
    then obtain v where v: "parseInt16 (take 2 (drop (2 * nat i) s)) = Some v"
      "hex_loop s offset len (i + 1) (store (offset + i) v buf) = Inr (buf', n)"
      using "1.prems" by (subst (asm) hex_loop.simps) (auto split: option.splits)
    from "1.IH" [OF True v] have n: "i + 1 \<le> n" "changes_only (store (offset + i) v buf) buf' (offset + (i + 1)) (offset + n)"
      by auto
    then have "changes_only (store (offset + i) v buf) buf' (offset + i) (offset + n)"
      by (auto simp: changes_only_def)
    then show ?thesis using n(1) by (auto intro: changes_only_store)
  next
    case False
    then show ?thesis using "1.prems" by (subst (asm) hex_loop.simps) auto
  qed
qed

lemma write_as_changes:
  "write_as charset buf s offset len = Inr (buf', n) \<Longrightarrow> 0 \<le> n \<and> changes_only buf buf' offset (offset + n)"
  using blit_loop_changes [where i = 0] hex_loop_changes [where i = 0]
  by (cases charset)
    (fastforce simp: write_as_def hexWrite_def utf8Write_def asciiWrite_def binaryWrite_def base64Write_def ucs2Write_def
      blitBuffer_def Let_def bindR_Inr_iff split: if_splits)+

section \<open>Properties\<close>

text \<open>A well-formed text whose surrogate pairs lie in odd planes is read back unchanged from its
  UTF-8 bytes.\<close>

theorem utf8_text_roundtrip:
  assumes "wf_utf16 s" "\<forall>c \<in> set s. is_lead c \<longrightarrow> odd_plane c"
  shows "\<exists>bs. utf8ToBytes s None = Inr bs \<and> utf8Slice bs 0 (int (length bs)) = s"
  using utf8_text_lemma [OF assms] by (auto simp: utf8ToBytes_def utf8Slice_def)

theorem utf8_text_roundtrip_witness:
  "\<exists>bs. utf8ToBytes [0x61, 0x20AC, 0xD83D, 0xDE00] None = Inr bs
     \<and> utf8Slice bs 0 (int (length bs)) = [0x61, 0x20AC, 0xD83D, 0xDE00]"
  by (rule utf8_text_roundtrip) (simp_all add: is_lead_def is_trail_def odd_plane_def)

text \<open>Surrogate pairs of even planes are encoded as another character (\<open>| 0x10000\<close> where
  \<open>+ 0x10000\<close> is meant): U+20000 gets the bytes of U+10000. A lead surrogate that ends the text right
  after another lead surrogate is dropped without a replacement character.\<close>

theorem utf8_surrogate_bugs:
  "utf8ToBytes [0xD840, 0xDC00] None = utf8ToBytes [0xD800, 0xDC00] None
   \<and> utf8ToBytes [0xD800, 0xD800] None = Inr [0xEF, 0xBF, 0xBD]"
  by code_simp

text \<open>Whatever the bytes, \<open>utf8Slice\<close> returns well-formed UTF-16: malformed sequences become
  replacement characters and never lone surrogates.\<close>

theorem utf8_decode_wellformed: "wf_utf16 (utf8Slice buf start end)"
  by (simp add: utf8Slice_def wf_utf8_points Let_def)

text \<open>C40: Encoding a text in UTF-8 never throws, and with a positive limit on the room it never
  returns more bytes than the limit.\<close>

theorem utf8_encode_room:
  "\<exists>bs. utf8ToBytes s units = Inr bs \<and> (\<forall>u. units = Some u \<longrightarrow> 0 < u \<longrightarrow> int (length bs) \<le> u)"
proof -
  obtain bs where "utf8ToBytes s units = Inr bs" "units_left (if units = Some 0 then None else units) (length bs)"
    using utf8_loop_total [of None "if units = Some 0 then None else units" s] by (auto simp: utf8ToBytes_def lead_ok_def)
  then show ?thesis by (auto simp: units_left_def split: if_splits)
qed

theorem utf8_encode_room_witness:
  "\<exists>bs. utf8ToBytes [0x20AC, 0x20AC] (Some 4) = Inr bs \<and> int (length bs) \<le> 4"
  using utf8_encode_room [of "[0x20AC, 0x20AC]" "Some 4"] by auto

text \<open>Decoding code points in chunks of 4096 gives the same text as decoding them at once.\<close>

theorem decodeCodePointsArray_chunks: "decodeCodePointsArray codePoints = fromCharCode codePoints"
  by simp

text \<open>A text written as UTF-16 is read back unchanged.\<close>

theorem utf16_text_roundtrip:
  assumes "2 * length s < 2 ^ 31"
  shows "utf16leSlice (utf16leToBytes s (2 * int (length s))) 0 (2 * int (length s)) = s"
proof -
  have "length (utf16leToBytes t u) = 2 * length t" if "2 * int (length t) \<le> u" for t u
    using that by (induction t arbitrary: u) auto
  from this [of s "2 * int (length s)"] show ?thesis
    using slice_all [of "utf16leToBytes s (2 * int (length s))"] utf16_units_text [of s "2 * int (length s)"] assms
    by (simp add: utf16leSlice_def)
qed

theorem utf16_text_roundtrip_witness:
  "utf16leSlice (utf16leToBytes [0xD83D, 0x41] 4) 0 4 = [0xD83D, 0x41]"
  using utf16_text_roundtrip [of "[0xD83D, 0x41]"] by simp

text \<open>A successful \<open>write\<close>, in any encoding and any form of call, keeps the length of the buffer
  and changes no byte outside the \<open>n\<close> bytes from the offset, where \<open>n\<close> is the number it returns.\<close>

theorem buffer_write_frame:
  assumes "buffer_write buf s call = Inr (buf', n)"
  shows "0 \<le> n \<and> changes_only buf buf' (fst (write_args buf call)) (fst (write_args buf call) + n)"
  using assms
  by (auto simp: buffer_write_def Let_def bindR_Inr_iff split: prod.splits if_splits dest!: write_as_changes)

theorem buffer_write_frame_witness:
  "changes_only [1, 2, 3, 4] [1, 97, 3, 4] 1 2"
proof -
  have "buffer_write [1, 2, 3, 4] [97] (WriteAt 1 (Some (Inr ''binary'')) None) = Inr ([1, 97, 3, 4], 1)"
    by code_simp
  from buffer_write_frame [OF this] show ?thesis by (simp add: to_int32_small)
qed

text \<open>\<open>write\<close> refuses an offset past the end, and a negative offset or length when there is
  anything to write, with a \<open>RangeError\<close>; an encoding it does not know is a \<open>TypeError\<close>.\<close>

theorem buffer_write_errors:
  assumes "write_args buf call = (offset, Some len, Some e)" "e \<noteq> []"
  shows "(offset > int (length buf) \<or> s \<noteq> [] \<and> (len < 0 \<or> offset < 0) \<longrightarrow>
       buffer_write buf s call = Inl (RangeError ''attempt to write outside buffer bounds''))
    \<and> (0 \<le> offset \<and> offset \<le> int (length buf) \<and> 0 \<le> len \<and> encoding_of e = None \<and> encoding_of (to_lower e) = None \<longrightarrow>
       buffer_write buf s call = Inl (TypeError (''Unknown encoding: '' @ to_lower e)))"
  using assms by (auto simp: buffer_write_def Let_def dispatch_def)

theorem buffer_write_errors_witness:
  "buffer_write [0, 0] [97] (WriteLegacy ''binary'' 3 (Some 1)) = Inl (RangeError ''attempt to write outside buffer bounds'')"
  using buffer_write_errors [of "[0, 0]" "WriteLegacy ''binary'' 3 (Some 1)" 3 1 "''binary''" "[97]"]
  by (simp add: to_int32_small)

end
