(* ===== verification/Buffer_Ops.thy ===== *)
theory Buffer_Ops
  imports Buffer_Text
begin

text \<open>
  Buffers as wholes (module 14 of \<open>swagger-ui.js\<close>): the constructors, \<open>copy\<close>, \<open>fill\<close>, \<open>compare\<close>,
  \<open>equals\<close>, \<open>concat\<close>, \<open>indexOf\<close> and the small methods around them. A buffer is the list of its bytes;
  the \<open>parent\<close> field, which records the pool or the sliced buffer, is not modelled. \<open>copy\<close> has one
  definition for two different buffers and one for a buffer copied into itself, because the code
  distinguishes the two and the loops then read what they have written.
\<close>

section \<open>Construction\<close>

definition kMaxLength :: int where
  "kMaxLength = 0x7fffffff"

definition checked :: "int \<Rightarrow> int result" where
  "checked len =
     (if len \<ge> kMaxLength
      then Inl (RangeError ''Attempt to allocate Buffer larger than maximum size: 0x7fffffff bytes'')
      else Inr (to_int32 len))"

definition allocate :: "int \<Rightarrow> bytes" where
  "allocate len = replicate (nat len) 0"

definition fromNumber :: "int \<Rightarrow> bytes result" where
  "fromNumber len = (if len < 0 then Inr (allocate 0) else bindR (checked len) (\<lambda>n. Inr (allocate (to_int32 n))))"

definition fromString :: "ustring \<Rightarrow> string \<Rightarrow> bytes result" where
  "fromString s encoding0 =
     (let encoding = (if encoding0 = [] then ''utf8'' else encoding0)
      in bindR (byteLength s encoding) (\<lambda>n.
           bindR (buffer_write (allocate (to_int32 n)) s (WriteEncoding encoding)) (\<lambda>(that, k). Inr that)))"

text \<open>\<open>array[i] & 255\<close> for each index; an element that is not a number counts as \<open>0\<close>.\<close>

definition fromArray :: "jsnum list \<Rightarrow> bytes result" where
  "fromArray array =
     bindR (checked (int (length array))) (\<lambda>n.
       Inr (fold (\<lambda>i that. store (int i) (and32 (num_int32 (array ! i)) 255) that) [0..<nat (to_int32 n)]
              (allocate (to_int32 n))))"

definition fromTypedArray :: "jsnum list \<Rightarrow> bytes result" where
  "fromTypedArray array =
     bindR (checked (int (length array))) (\<lambda>n.
       Inr (fold (\<lambda>i that. store (int i) (and32 (num_int32 (array ! i)) 255) that) [0..<nat (to_int32 n)]
              (allocate (to_int32 n))))"

definition fromArrayBuffer :: "bytes \<Rightarrow> bytes result" where
  "fromArrayBuffer array = Inr array"

definition fromArrayLike :: "jsnum list \<Rightarrow> bytes result" where
  "fromArrayLike array =
     bindR (checked (int (length array))) (\<lambda>n.
       Inr (fold (\<lambda>i that. store (int i) (and32 (num_int32 (array ! i)) 255) that) [0..<nat (to_int32 n)]
              (allocate (to_int32 n))))"

text \<open>\<open>{type: ..., data: ...}\<close>: \<open>None\<close> stands for a \<open>data\<close> that is not an array.\<close>

definition fromJsonObject :: "string \<Rightarrow> jsnum list option \<Rightarrow> bytes result" where
  "fromJsonObject typ data =
     (case data of
        Some array \<Rightarrow>
          if typ = ''Buffer'' then
            bindR (checked (int (length array))) (\<lambda>n.
              Inr (fold (\<lambda>i that. store (int i) (and32 (num_int32 (array ! i)) 255) that) [0..<nat (to_int32 n)]
                     (allocate (to_int32 n))))
          else Inr (allocate 0)
      | None \<Rightarrow> Inr (allocate 0))"

section \<open>Copying\<close>

text \<open>The part of \<open>copy\<close> before the loops: \<open>Inr None\<close> is an early \<open>return 0\<close>, \<open>Inr (Some (ts, start, len))\<close>
  what is to be copied.\<close>

definition copy_range ::
  "nat \<Rightarrow> nat \<Rightarrow> int option \<Rightarrow> int option \<Rightarrow> int option \<Rightarrow> (int \<times> int \<times> int) option result" where
  "copy_range thisLen targetLen targetStart0 start0 end0 =
     (let start = (case start0 of None \<Rightarrow> 0 | Some s \<Rightarrow> s);
          end1 = (case end0 of None \<Rightarrow> int thisLen | Some e \<Rightarrow> e);
          targetStart =
            (case targetStart0 of None \<Rightarrow> 0 | Some t \<Rightarrow> if t \<ge> int targetLen then int targetLen else t);
          end2 = (if end1 > 0 \<and> end1 < start then start else end1)
      in if end2 = start then Inr None
         else if targetLen = 0 \<or> thisLen = 0 then Inr None
         else if targetStart < 0 then Inl (RangeError ''targetStart out of bounds'')
         else if start < 0 \<or> start \<ge> int thisLen then Inl (RangeError ''sourceStart out of bounds'')
         else if end2 < 0 then Inl (RangeError ''sourceEnd out of bounds'')
         else
           let end3 = (if end2 > int thisLen then int thisLen else end2);
               end4 = (if int targetLen - targetStart < end3 - start then int targetLen - targetStart + start else end3)
           in Inr (Some (targetStart, start, end4 - start)))"

definition at_byte :: "bytes \<Rightarrow> int \<Rightarrow> int" where
  "at_byte buf i = num_int32 (at buf i)"

text \<open>Two different buffers: the ascending loop, which \<open>_set\<close> abbreviates from 1000 bytes on.\<close>

definition copy :: "bytes \<Rightarrow> bytes \<Rightarrow> int option \<Rightarrow> int option \<Rightarrow> int option \<Rightarrow> (bytes \<times> int) result" where
  "copy this target targetStart0 start0 end0 =
     bindR (copy_range (length this) (length target) targetStart0 start0 end0) (\<lambda>r.
       case r of
         None \<Rightarrow> Inr (target, 0)
       | Some (targetStart, start, len) \<Rightarrow>
           Inr (fold (\<lambda>i t. store (int i + targetStart) (at_byte this (int i + start)) t) [0..<nat len] target, len))"

text \<open>A buffer copied into itself: descending when the target starts inside the source, else ascending;
  from 1000 bytes on the typed array's \<open>set\<close>, which copies as if through a temporary.\<close>

definition copy_self :: "bytes \<Rightarrow> int option \<Rightarrow> int option \<Rightarrow> int option \<Rightarrow> (bytes \<times> int) result" where
  "copy_self this targetStart0 start0 end0 =
     bindR (copy_range (length this) (length this) targetStart0 start0 end0) (\<lambda>r.
       case r of
         None \<Rightarrow> Inr (this, 0)
       | Some (targetStart, start, len) \<Rightarrow>
           let move = (\<lambda>i t. store (int i + targetStart) (at_byte t (int i + start)) t)
           in if start < targetStart \<and> targetStart < start + len then Inr (fold move (rev [0..<nat len]) this, len)
              else if len < 1000 then Inr (fold move [0..<nat len] this, len)
              else Inr (put_field this (nat targetStart) (field this (nat start) (nat len)), len))"

definition fromBuffer :: "bytes \<Rightarrow> bytes result" where
  "fromBuffer buffer =
     bindR (checked (int (length buffer))) (\<lambda>n.
       bindR (copy buffer (allocate (to_int32 n)) (Some 0) (Some 0) (Some (to_int32 n))) (\<lambda>(that, k). Inr that))"

text \<open>The argument of \<open>new Buffer(arg, encoding)\<close>, in the order \<open>Buffer\<close> and \<open>fromObject\<close> test it.\<close>

datatype buffer_arg =
    ANumber int
  | AString ustring string
  | ABuffer bytes
  | AArray "jsnum list"
  | ANull
  | ATypedArray "jsnum list"
  | AArrayBuffer bytes
  | AArrayLike "jsnum list"
  | AObject string "jsnum list option"

fun fromObject :: "buffer_arg \<Rightarrow> bytes result" where
  "fromObject (ABuffer b) = fromBuffer b"
| "fromObject (AArray a) = fromArray a"
| "fromObject ANull = Inl (TypeError ''must start with number, buffer, array or string'')"
| "fromObject (ATypedArray a) = fromTypedArray a"
| "fromObject (AArrayBuffer a) = fromArrayBuffer a"
| "fromObject (AArrayLike a) = (if a \<noteq> [] then fromArrayLike a else fromJsonObject [] None)"
| "fromObject (AObject typ data) = fromJsonObject typ data"
| "fromObject (ANumber n) = fromNumber n"
| "fromObject (AString s e) = fromString s e"

fun newBuffer :: "buffer_arg \<Rightarrow> bytes result" where
  "newBuffer (ANumber n) = fromNumber n"
| "newBuffer (AString s e) = fromString s e"
| "newBuffer arg = fromObject arg"

definition slowBuffer :: "buffer_arg \<Rightarrow> bytes result" where
  "slowBuffer subject = newBuffer subject"

section \<open>Comparing, joining, searching, filling\<close>

text \<open>The loop of \<open>Buffer.compare\<close>, then the comparison of what it stopped at.\<close>

function compare_loop :: "bytes \<Rightarrow> bytes \<Rightarrow> nat \<Rightarrow> nat \<Rightarrow> nat" where
  "compare_loop a b len i = (if i < len \<and> a ! i = b ! i then compare_loop a b len (i + 1) else i)"
  by pat_completeness auto
termination
  by (relation "measure (\<lambda>(a, b, len, i). len - i)") auto

declare compare_loop.simps [simp del]

definition compare :: "bytes \<Rightarrow> bytes \<Rightarrow> int" where
  "compare a b =
     (let len = min (length a) (length b);
          i = compare_loop a b len 0;
          x = (if i \<noteq> len then uint (a ! i) else int (length a));
          y = (if i \<noteq> len then uint (b ! i) else int (length b))
      in if x < y then -1 else if y < x then 1 else 0)"

definition equals :: "bytes \<Rightarrow> bytes \<Rightarrow> bool" where
  "equals this b \<longleftrightarrow> compare this b = 0"

definition concat_loop :: "bytes list \<Rightarrow> bytes \<times> int \<Rightarrow> (bytes \<times> int) result" where
  "concat_loop list = foldR (\<lambda>item (buf, pos).
     bindR (copy item buf (Some pos) None None) (\<lambda>(buf', k). Inr (buf', pos + int (length item)))) list"

definition concat_buffers :: "bytes list \<Rightarrow> int option \<Rightarrow> bytes result" where
  "concat_buffers list len0 =
     (if list = [] then newBuffer (ANumber 0)
      else
        let len = (case len0 of None \<Rightarrow> fold (\<lambda>b n. n + int (length b)) list 0 | Some n \<Rightarrow> n)
        in bindR (newBuffer (ANumber len)) (\<lambda>buf.
             bindR (concat_loop list (buf, 0)) (\<lambda>(buf', pos). Inr buf')))"

text \<open>\<open>arrayIndexOf\<close>: \<open>found\<close> is \<open>foundIndex\<close>, \<open>-1\<close> when no match is under way.\<close>

function arrayIndexOf_loop :: "bytes \<Rightarrow> bytes \<Rightarrow> int \<Rightarrow> int \<Rightarrow> int \<Rightarrow> int" where
  "arrayIndexOf_loop arr val byteOffset i found =
     (if byteOffset + i < int (length arr) then
        (if at arr (byteOffset + i) = at val (if found = -1 then 0 else i - found) then
           (let found' = (if found = -1 then i else found)
            in if i - found' + 1 = int (length val) then byteOffset + found'
               else arrayIndexOf_loop arr val byteOffset (i + 1) found')
         else arrayIndexOf_loop arr val byteOffset (i + 1) (-1))
      else -1)"
  by pat_completeness auto
termination
  by (relation "measure (\<lambda>(arr, val, byteOffset, i, found). nat (int (length arr) - (byteOffset + i)))") auto

declare arrayIndexOf_loop.simps [simp del]

definition arrayIndexOf :: "bytes \<Rightarrow> bytes \<Rightarrow> int \<Rightarrow> int" where
  "arrayIndexOf arr val byteOffset = arrayIndexOf_loop arr val byteOffset 0 (-1)"

text \<open>What \<open>indexOf\<close> is asked for. A number is looked for as a one-byte array; it can only equal a byte
  when it is between 0 and 255, so the model takes it as a byte. A string is searched in the UTF-8 text
  of the buffer, and the index is one into that text.\<close>

datatype needle = NString ustring | NBuffer bytes | NNumber "8 word"

definition indexOf :: "bytes \<Rightarrow> needle \<Rightarrow> int \<Rightarrow> int" where
  "indexOf this val byteOffset0 =
     (let byteOffset1 = to_int32 (if byteOffset0 > 0x7fffffff then 0x7fffffff
                                   else if byteOffset0 < -0x80000000 then -0x80000000 else byteOffset0)
      in if this = [] then -1
         else if byteOffset1 \<ge> int (length this) then -1
         else
           let byteOffset = (if byteOffset1 < 0 then max (int (length this) + byteOffset1) 0 else byteOffset1)
           in case val of
                NString s \<Rightarrow>
                  if s = [] then -1
                  else let r = index_of s (drop (nat byteOffset) (utf8Slice this 0 (int (length this))))
                       in if r < 0 then -1 else byteOffset + r
              | NBuffer b \<Rightarrow> arrayIndexOf this b byteOffset
              | NNumber n \<Rightarrow> arrayIndexOf this [n] byteOffset)"

datatype fill_value = FNumber int | FString ustring

definition fill :: "bytes \<Rightarrow> fill_value \<Rightarrow> int option \<Rightarrow> int option \<Rightarrow> bytes result" where
  "fill this value0 start0 end0 =
     (let value = (case value0 of FString [] \<Rightarrow> FNumber 0 | v \<Rightarrow> v);
          start = (case start0 of None \<Rightarrow> 0 | Some s \<Rightarrow> s);
          end = (case end0 of None \<Rightarrow> int (length this) | Some e \<Rightarrow> if e = 0 then int (length this) else e)
      in if end < start then Inl (RangeError ''end < start'')
         else if end = start \<or> this = [] then Inr this
         else if start < 0 \<or> start \<ge> int (length this) then Inl (RangeError ''start out of bounds'')
         else if end < 0 \<or> end > int (length this) then Inl (RangeError ''end out of bounds'')
         else case value of
                FNumber n \<Rightarrow> Inr (fold (\<lambda>i b. store (int i) n b) [nat start..<nat end] this)
              | FString s \<Rightarrow>
                  bindR (utf8ToBytes s None) (\<lambda>bytes.
                    Inr (fold (\<lambda>i b. store (int i) (at_byte bytes (int (i mod length bytes))) b) [nat start..<nat end] this)))"

definition get_byte :: "bytes \<Rightarrow> int \<Rightarrow> jsnum result" where
  "get_byte this offset = readUInt8 this offset False"

definition set_byte :: "bytes \<Rightarrow> int \<Rightarrow> int \<Rightarrow> (bytes \<times> int) result" where
  "set_byte this v offset = writeUInt8 this v offset False"

definition toJSON :: "bytes \<Rightarrow> string \<times> jsnum list" where
  "toJSON this = (''Buffer'', map (\<lambda>b. Num (uint b)) this)"

definition toArrayBuffer :: "bytes \<Rightarrow> bytes result" where
  "toArrayBuffer this = newBuffer (ABuffer this)"

section \<open>Loops of single stores\<close>

lemma fold_store_put:
  "off + n \<le> length buf \<Longrightarrow>
     fold (\<lambda>i b. store (int i + int off) (f i) b) [0..<n] buf = put_field buf off (map (\<lambda>i. word_of_int (f i)) [0..<n])"
proof (induction n)
  case (Suc n)
  then show ?case
    using store_snoc [of off "map (\<lambda>i. word_of_int (f i)) [0..<n]" buf "f n"] by (simp add: add.commute)
qed simp

lemma fold_store_shift:
  "fold (\<lambda>i b. store (int i) (f i) b) [m..<m + n] buf = fold (\<lambda>i b. store (int i + int m) (f (i + m)) b) [0..<n] buf"
proof -
  have "[m..<m + n] = map (\<lambda>i. i + m) [0..<n]" by (simp add: map_add_upt add.commute)
  then show ?thesis by (simp add: fold_map comp_def)
qed

lemma at_byte_nth: "i < length buf \<Longrightarrow> at_byte buf (int i) = uint (buf ! i)"
  by (simp add: at_byte_def)

lemma length_allocate [simp]: "length (allocate n) = nat n"
  by (simp add: allocate_def)

lemma put_field_whole: "length bs = length buf \<Longrightarrow> put_field buf 0 bs = bs"
  by (simp add: put_field_def)

lemma checked_small: "int n < kMaxLength \<Longrightarrow> checked (int n) = Inr (int n)"
  by (simp add: checked_def kMaxLength_def to_int32_small)

lemma fromArray_eq:
  "int (length array) < kMaxLength \<Longrightarrow> fromArray array = Inr (map (\<lambda>x. word_of_int (num_int32 x)) array)"
proof -
  assume h: "int (length array) < kMaxLength"
  have w: "word_of_int (and32 x 255) = (word_of_int x :: 8 word)" for x
    by (rule byte_word_eqI) (simp add: and32_255)
  have "map (\<lambda>i. word_of_int (and32 (num_int32 (array ! i)) 255)) [0..<length array]
      = map (\<lambda>x. word_of_int (num_int32 x) :: 8 word) array"
    by (simp add: w) (metis (no_types, lifting) map_nth map_map comp_def map_eq_conv)
  moreover have "to_int32 (int (length array)) = int (length array)"
    using h by (simp add: to_int32_small kMaxLength_def)
  ultimately show ?thesis
    using h fold_store_put [of 0 "length array" "allocate (int (length array))" "\<lambda>i. and32 (num_int32 (array ! i)) 255"]
    by (simp add: fromArray_def checked_small put_field_whole)
qed

section \<open>Copying\<close>

lemma map_at_byte:
  "start + n \<le> length buf \<Longrightarrow> map (\<lambda>i. word_of_int (at_byte buf (int i + int start))) [0..<n] = field buf start n"
proof (rule nth_equalityI)
  fix i assume "start + n \<le> length buf" "i < length (map (\<lambda>i. word_of_int (at_byte buf (int i + int start)) :: 8 word) [0..<n])"
  then show "map (\<lambda>i. word_of_int (at_byte buf (int i + int start))) [0..<n] ! i = field buf start n ! i"
    using at_byte_nth [of "i + start" buf] by (simp add: field_def add.commute)
qed simp

lemma copy_range_bounds:
  assumes "copy_range n m ts0 s0 e0 = Inr (Some (ts, start, len))"
  shows "0 \<le> ts" "0 \<le> start" "0 \<le> len \<Longrightarrow> ts + len \<le> int m" "0 \<le> len \<Longrightarrow> start + len \<le> int n" "start < int n"
  using assms by (auto simp: copy_range_def Let_def split: if_splits option.splits)

lemma copy_put:
  assumes "copy_range (length this) (length target) ts0 s0 e0 = Inr (Some (ts, start, len))" "0 \<le> len"
  shows "copy this target ts0 s0 e0 = Inr (put_field target (nat ts) (field this (nat start) (nat len)), len)"
proof -
  note b = copy_range_bounds [OF assms(1)]
  obtain t s l where e: "ts = int t" "start = int s" "len = int l"
    using b(1,2) assms(2) by (metis nonneg_int_cases)
  then have "t + l \<le> length target" "s + l \<le> length this" using b(3,4) by auto
  then show ?thesis
    using assms(1) fold_store_put [of t l target "\<lambda>i. at_byte this (int i + int s)"] map_at_byte [of s l this]
    by (simp add: copy_def e)
qed

text \<open>Within one buffer: moving byte by byte in the direction the code chooses has the effect of copying
  through a temporary.\<close>

lemma asc_move:
  assumes "s + n \<le> length buf" "t + n \<le> length buf" "t \<le> s \<or> s + n \<le> t"
  shows "fold (\<lambda>i b. store (int i + int t) (at_byte b (int i + int s)) b) [0..<n] buf
           = put_field buf t (field buf s n)"
  using assms
proof (induction n)
  case (Suc n)
  let ?b = "put_field buf t (field buf s n)"
  have IH: "fold (\<lambda>i b. store (int i + int t) (at_byte b (int i + int s)) b) [0..<n] buf = ?b"
    using Suc by auto
  have "?b ! (s + n) = buf ! (s + n)" using Suc.prems by (intro put_field_nth) auto
  then have "at_byte ?b (int n + int s) = uint (buf ! (s + n))"
    using at_byte_nth [of "s + n" ?b] Suc.prems by (simp add: add.commute)
  moreover have "field buf s (Suc n) = field buf s n @ [buf ! (s + n)]" using Suc.prems by (simp add: field_Suc)
  ultimately show ?case
    using store_snoc [of t "field buf s n" buf "uint (buf ! (s + n))"] Suc.prems IH by (simp add: add.commute)
qed simp

lemma desc_move:
  assumes "s + n \<le> length buf" "t + n \<le> length buf" "s \<le> t" "k \<le> n"
  shows "fold (\<lambda>i b. store (int i + int t) (at_byte b (int i + int s)) b) (rev [k..<n]) buf
           = put_field buf (t + k) (field buf (s + k) (n - k))"
  using assms(4)
proof (induction "n - k" arbitrary: k)
  case 0
  then show ?case by simp
next
  case (Suc m)
  then have k: "k < n" by simp
  let ?b = "put_field buf (t + Suc k) (field buf (s + Suc k) (n - Suc k))"
  have IH: "fold (\<lambda>i b. store (int i + int t) (at_byte b (int i + int s)) b) (rev [Suc k..<n]) buf = ?b"
    using Suc k by (intro Suc.hyps(1)) auto
  have l: "length (field buf (s + Suc k) (n - Suc k)) = n - Suc k" using assms k by simp
  have "?b ! (s + k) = buf ! (s + k)" using assms k l by (intro put_field_nth) auto
  moreover have "length ?b = length buf" using assms k l by (intro length_put_field) auto
  ultimately have "at_byte ?b (int k + int s) = uint (buf ! (s + k))"
    using at_byte_nth [of "s + k" ?b] assms k by (simp add: add.commute)
  moreover have "field buf (s + k) (n - k) = buf ! (s + k) # field buf (s + Suc k) (n - Suc k)"
    using field_Cons [of "s + k" buf "n - Suc k"] assms k by (simp add: Suc_diff_Suc)
  moreover have "store (int k + int t) (uint (buf ! (s + k))) ?b
      = put_field buf (t + k) (buf ! (s + k) # field buf (s + Suc k) (n - Suc k))"
    using store_cons [of "t + k" "field buf (s + Suc k) (n - Suc k)" buf "uint (buf ! (s + k))"] assms k l
    by (simp add: add.commute)
  moreover have "rev [k..<n] = rev [Suc k..<n] @ [k]" using k by (simp add: upt_conv_Cons)
  ultimately show ?case using IH by simp
qed

lemma copy_self_put:
  assumes "copy_range (length this) (length this) ts0 s0 e0 = Inr (Some (ts, start, len))" "0 \<le> len"
  shows "copy_self this ts0 s0 e0 = Inr (put_field this (nat ts) (field this (nat start) (nat len)), len)"
proof -
  note b = copy_range_bounds [OF assms(1)]
  obtain t s l where e: "ts = int t" "start = int s" "len = int l"
    using b(1,2) assms(2) by (metis nonneg_int_cases)
  then have r: "t + l \<le> length this" "s + l \<le> length this" using b(3,4) assms(2) by auto
  show ?thesis
  proof (cases "s < t \<and> t < s + l")
    case True
    then show ?thesis using assms(1) desc_move [of s l this t 0] r by (simp add: copy_self_def e Let_def)
  next
    case False
    then have "t \<le> s \<or> s + l \<le> t" by linarith
    then show ?thesis using assms(1) False asc_move [of s l this t] r by (auto simp: copy_self_def e Let_def)
  qed
qed

section \<open>Comparing\<close>

lemma compare_loop_common:
  "i \<le> len \<Longrightarrow> len \<le> length a \<Longrightarrow> len \<le> length b \<Longrightarrow> take i a = take i b \<Longrightarrow>
     i \<le> compare_loop a b len i \<and> compare_loop a b len i \<le> len
     \<and> take (compare_loop a b len i) a = take (compare_loop a b len i) b
     \<and> (compare_loop a b len i < len \<longrightarrow> a ! compare_loop a b len i \<noteq> b ! compare_loop a b len i)"
proof (induction a b len i rule: compare_loop.induct)
  case (1 a b len i)
  show ?case
  proof (cases "i < len \<and> a ! i = b ! i")
    case True
    then have "take (i + 1) a = take (i + 1) b" using "1.prems" by (simp add: take_Suc_conv_app_nth)
    moreover have e: "compare_loop a b len i = compare_loop a b len (i + 1)"
      using True by (subst compare_loop.simps) simp
    ultimately show ?thesis unfolding e using "1.IH" True "1.prems" by auto
  next
    case False
    then have e: "compare_loop a b len i = i" by (subst compare_loop.simps) auto
    then show ?thesis using "1.prems" False by auto
  qed
qed

text \<open>The order \<open>compare\<close> implements: lexicographic on the bytes as unsigned numbers.\<close>

fun bytes_less :: "bytes \<Rightarrow> bytes \<Rightarrow> bool" where
  "bytes_less a [] \<longleftrightarrow> False"
| "bytes_less [] (y # b) \<longleftrightarrow> True"
| "bytes_less (x # a) (y # b) \<longleftrightarrow> uint x < uint y \<or> x = y \<and> bytes_less a b"

lemma bytes_less_prefix: "bytes_less (p @ a) (p @ b) = bytes_less a b"
  by (induction p) auto

lemma bytes_less_irrefl [simp]: "\<not> bytes_less a a"
  by (induction a) auto

lemma bytes_less_trans: "bytes_less a b \<Longrightarrow> bytes_less b c \<Longrightarrow> bytes_less a c"
proof (induction a b arbitrary: c rule: bytes_less.induct)
  case (2 y b)
  then show ?case by (cases c) auto
next
  case (3 x a y b)
  then show ?case by (cases c) auto
qed simp

lemma bytes_less_total: "a = b \<or> bytes_less a b \<or> bytes_less b a"
proof (induction a b rule: bytes_less.induct)
  case (1 a)
  then show ?case by (cases a) auto
next
  case (3 x a y b)
  then show ?case by (auto simp: word_uint_eq_iff)
qed simp

lemma compare_cases: "compare a b = (if bytes_less a b then -1 else if bytes_less b a then 1 else 0)"
proof -
  define len i where "len = min (length a) (length b)" and "i = compare_loop a b len 0"
  have c: "i \<le> len" "take i a = take i b" "i < len \<Longrightarrow> a ! i \<noteq> b ! i"
    using compare_loop_common [of 0 len a b] by (auto simp: i_def len_def)
  define p where "p = take i a"
  have ab: "a = p @ drop i a" "b = p @ drop i b" unfolding p_def using c(2) by (metis append_take_drop_id)+
  have l: "bytes_less a b = bytes_less (drop i a) (drop i b)" "bytes_less b a = bytes_less (drop i b) (drop i a)"
    using bytes_less_prefix [of p] ab by metis+
  have v: "compare a b =
      (let x = (if i \<noteq> len then uint (a ! i) else int (length a)); y = (if i \<noteq> len then uint (b ! i) else int (length b))
       in if x < y then -1 else if y < x then 1 else 0)"
    by (simp only: compare_def Let_def len_def i_def)
  show ?thesis
  proof (cases "i = len")
    case True
    have n: "bytes_less [] z = (z \<noteq> [])" "bytes_less z [] = False" for z by (cases z; simp)+
    have d: "drop i a = [] \<longleftrightarrow> length a \<le> length b" "drop i b = [] \<longleftrightarrow> length b \<le> length a"
      using True by (auto simp: len_def)
    consider "length a < length b" | "length b < length a" | "length a = length b" by linarith
    then show ?thesis unfolding l v using True d n by cases (simp_all add: Let_def)
  next
    case False
    then have i: "i < len" "i < length a" "i < length b" using c(1) by (auto simp: len_def)
    have d: "drop i a = a ! i # drop (Suc i) a" "drop i b = b ! i # drop (Suc i) b"
      using i by (simp_all add: Cons_nth_drop_Suc)
    have "uint (a ! i) \<noteq> uint (b ! i)" using c(3) i(1) by (simp add: word_uint_eq_iff)
    then show ?thesis
      unfolding l d v using False c(3) i(1) by (auto simp: Let_def)
  qed
qed

section \<open>Joining\<close>

lemma copy_item:
  assumes "item \<noteq> []" "buf \<noteq> []" "pos \<le> length buf"
  shows "\<exists>k. copy item buf (Some (int pos)) None None
           = Inr (put_field buf pos (take (length buf - pos) item), k)"
proof -
  define len where "len = min (length item) (length buf - pos)"
  have "copy_range (length item) (length buf) (Some (int pos)) None None = Inr (Some (int pos, 0, int len))"
    using assms by (auto simp: copy_range_def Let_def len_def)
  moreover have "field item 0 len = take (length buf - pos) item" by (simp add: field_def len_def min_def)
  ultimately show ?thesis using copy_put [of item buf "Some (int pos)" None None "int pos" 0 "int len"] by simp
qed

lemma copy_item_past:
  assumes "item \<noteq> []" "buf \<noteq> []" "length buf \<le> pos"
  shows "\<exists>k. copy item buf (Some (int pos)) None None = Inr (buf, k)"
proof -
  have "copy_range (length item) (length buf) (Some (int pos)) None None = Inr (Some (int (length buf), 0, 0))"
    using assms by (auto simp: copy_range_def Let_def)
  then show ?thesis using copy_put [of item buf "Some (int pos)" None None "int (length buf)" 0 0] by simp
qed

lemma copy_nothing: "item = [] \<or> buf = [] \<Longrightarrow> copy item buf (Some (int pos)) None None = Inr (buf, 0)"
  by (auto simp: copy_def copy_range_def Let_def)

definition joined :: "nat \<Rightarrow> bytes \<Rightarrow> bytes" where
  "joined n bs = take n bs @ replicate (n - length bs) 0"

lemma length_joined [simp]: "length (joined n bs) = n"
  by (simp add: joined_def)

lemma copy_joined:
  "\<exists>k. copy item (joined n bs) (Some (int (length bs))) None None = Inr (joined n (bs @ item), k)"
proof (cases "item = [] \<or> n = 0")
  case True
  then show ?thesis using copy_nothing [of item "joined n bs" "length bs"] by (auto simp: joined_def)
next
  case False
  then have ne: "item \<noteq> []" "joined n bs \<noteq> []" using length_joined [of n bs] by (auto simp del: length_joined)
  show ?thesis
  proof (cases "length bs \<le> n")
    case True
    then have "put_field (joined n bs) (length bs) (take (n - length bs) item) = joined n (bs @ item)"
      by (auto simp: put_field_def joined_def min_def)
    then show ?thesis using copy_item [OF ne, of "length bs"] True by simp
  next
    case False
    then have "joined n (bs @ item) = joined n bs" by (simp add: joined_def)
    then show ?thesis using copy_item_past [OF ne, of "length bs"] False by simp
  qed
qed

lemma concat_loop_joined:
  "concat_loop list (joined n bs, int (length bs)) = Inr (joined n (bs @ concat list), int (length bs + length (concat list)))"
proof (induction list arbitrary: bs)
  case (Cons item list)
  obtain k where "copy item (joined n bs) (Some (int (length bs))) None None = Inr (joined n (bs @ item), k)"
    using copy_joined by blast
  then show ?case using Cons [of "bs @ item"] by (simp add: concat_loop_def add.assoc)
qed (simp add: concat_loop_def)

lemma fold_lengths: "fold (\<lambda>b n. n + int (length b)) list k = k + int (length (concat list))"
  by (induction list arbitrary: k) auto

section \<open>Searching and filling\<close>

text \<open>While a match is under way, \<open>found\<close> is its start and the bytes seen since agree.\<close>

definition matching :: "bytes \<Rightarrow> bytes \<Rightarrow> int \<Rightarrow> int \<Rightarrow> int \<Rightarrow> bool" where
  "matching arr val off i found \<longleftrightarrow> 0 \<le> i \<and> (found = -1 \<or>
     (0 \<le> found \<and> found < i \<and> off + i \<le> int (length arr) \<and> i - found < int (length val)
      \<and> (\<forall>k. 0 \<le> k \<and> k < i - found \<longrightarrow> at arr (off + found + k) = at val k)))"

lemma arrayIndexOf_loop_sound:
  assumes "matching arr val off i found" "0 \<le> off" "val \<noteq> []" "arrayIndexOf_loop arr val off i found = r" "0 \<le> r"
  shows "off \<le> r \<and> r + int (length val) \<le> int (length arr) \<and> (\<forall>k. 0 \<le> k \<and> k < int (length val) \<longrightarrow> at arr (r + k) = at val k)"
  using assms
proof (induction arr val off i found rule: arrayIndexOf_loop.induct)
  case (1 arr val off i found)
  show ?case
  proof (cases "off + i < int (length arr)")
    case True
    define found' where "found' = (if found = -1 then i else found)"
    show ?thesis
    proof (cases "at arr (off + i) = at val (if found = -1 then 0 else i - found)")
      case eq: True
      have agree: "\<forall>k. 0 \<le> k \<and> k < i - found' + 1 \<longrightarrow> at arr (off + found' + k) = at val k"
      proof (intro allI impI)
        fix k assume k: "0 \<le> k \<and> k < i - found' + 1"
        show "at arr (off + found' + k) = at val k"
        proof (cases "k = i - found'")
          case True
          then show ?thesis using eq by (simp add: found'_def split: if_splits)
        next
          case False
          then show ?thesis using k "1.prems"(1) by (auto simp: matching_def found'_def split: if_splits)
        qed
      qed
      show ?thesis
      proof (cases "i - found' + 1 = int (length val)")
        case fin: True
        then have "r = off + found'" using "1.prems"(4) True eq
          by (subst (asm) arrayIndexOf_loop.simps) (simp add: found'_def [symmetric])
        moreover have "0 \<le> found'" using "1.prems"(1) by (auto simp: matching_def found'_def)
        ultimately show ?thesis using agree fin True by auto
      next
        case more: False
        then have "arrayIndexOf_loop arr val off (i + 1) found' = r" using "1.prems"(4) True eq
          by (subst (asm) arrayIndexOf_loop.simps) (simp add: found'_def [symmetric])
        moreover have "0 < int (length val)" using "1.prems"(3) by simp
        then have "matching arr val off (i + 1) found'"
          using "1.prems"(1) agree more True
          by (auto simp: matching_def found'_def split: if_splits intro!: Suc_lessI)
        ultimately show ?thesis using "1.IH"(1) [OF True eq found'_def] more "1.prems" by blast
      qed
    next
      case ne: False
      then have "arrayIndexOf_loop arr val off (i + 1) (-1) = r" using "1.prems"(4) True
        by (subst (asm) arrayIndexOf_loop.simps) simp
      moreover have "matching arr val off (i + 1) (-1)" using "1.prems"(1) by (simp add: matching_def)
      ultimately show ?thesis using "1.IH"(2) [OF True ne] "1.prems" by blast
    qed
  next
    case False
    then have "r = -1" using "1.prems"(4) by (subst (asm) arrayIndexOf_loop.simps) simp
    then show ?thesis using "1.prems"(5) by simp
  qed
qed

lemma arrayIndexOf_byte:
  "0 \<le> off \<Longrightarrow> 0 \<le> i \<Longrightarrow>
     arrayIndexOf_loop arr [v] off i (-1) =
       (if \<exists>j. off + i \<le> int j \<and> j < length arr \<and> arr ! j = v
        then off + i + int (length (takeWhile (\<lambda>b. b \<noteq> v) (drop (nat (off + i)) arr))) else -1)"
proof (induction "nat (int (length arr) - (off + i))" arbitrary: i)
  case 0
  then show ?case by (subst arrayIndexOf_loop.simps) auto
next
  case (Suc m)
  obtain p where p: "off + i = int p" using Suc.prems by (metis add_nonneg_nonneg nonneg_int_cases)
  then have l: "p < length arr" using Suc.hyps(2) by simp
  have a: "at arr (off + i) = Num (uint (arr ! p))" "at [v] 0 = Num (uint v)" using p l by (simp_all add: at_def)
  have d: "drop (nat (off + i)) arr = arr ! p # drop (nat (off + (i + 1))) arr"
    using p l by (simp add: Cons_nth_drop_Suc nat_add_distrib algebra_simps)
  show ?case
  proof (cases "arr ! p = v")
    case True
    then have "arrayIndexOf_loop arr [v] off i (-1) = off + i"
      using a p l by (subst arrayIndexOf_loop.simps) simp
    moreover have "\<exists>j. off + i \<le> int j \<and> j < length arr \<and> arr ! j = v" using True p l by auto
    ultimately show ?thesis using d True by simp
  next
    case False
    then have "uint (arr ! p) \<noteq> uint v" by (simp add: word_uint_eq_iff)
    then have "arrayIndexOf_loop arr [v] off i (-1) = arrayIndexOf_loop arr [v] off (i + 1) (-1)"
      using a p l by (subst arrayIndexOf_loop.simps) simp
    moreover have "arrayIndexOf_loop arr [v] off (i + 1) (-1) =
       (if \<exists>j. off + (i + 1) \<le> int j \<and> j < length arr \<and> arr ! j = v
        then off + (i + 1) + int (length (takeWhile (\<lambda>b. b \<noteq> v) (drop (nat (off + (i + 1))) arr))) else -1)"
      using Suc.hyps(2) Suc.prems by (intro Suc.hyps(1)) auto
    moreover have "(\<exists>j. off + i \<le> int j \<and> j < length arr \<and> arr ! j = v) =
        (\<exists>j. off + (i + 1) \<le> int j \<and> j < length arr \<and> arr ! j = v)"
    proof -
      have "off + i \<le> int j \<longleftrightarrow> p \<le> j" "off + (i + 1) \<le> int j \<longleftrightarrow> p < j" for j using p by auto
      then show ?thesis using False by (metis le_neq_implies_less less_imp_le)
    qed
    ultimately show ?thesis using d False by auto
  qed
qed

section \<open>Text encodings as an interface\<close>

text \<open>
  An encoding of bytes as text: how many bytes a text takes, what writing it stores, and which
  byte sequences it can represent. Reconstructing a buffer from its own text follows, and so does that
  different buffers have different texts.
\<close>

locale text_codec =
  fixes name :: string
    and kind :: encoding
    and representable :: "bytes \<Rightarrow> bool"
  assumes known: "name \<noteq> []" "encoding_of name = Some kind"
    and size_text: "representable bs \<Longrightarrow> bs \<noteq> [] \<Longrightarrow> length bs < 2 ^ 31 \<Longrightarrow>
      byteLength (slice_as kind bs 0 (int (length bs))) name = Inr (int (length bs))"
    and write_text: "representable bs \<Longrightarrow> bs \<noteq> [] \<Longrightarrow> length bs < 2 ^ 31 \<Longrightarrow> length buf = length bs \<Longrightarrow>
      write_as kind buf (slice_as kind bs 0 (int (length bs))) 0 (int (length bs)) = Inr (bs, int (length bs))"
begin

definition text_of :: "bytes \<Rightarrow> ustring" where
  "text_of bs = slice_as kind bs 0 (int (length bs))"

lemma toString_text: "bs \<noteq> [] \<Longrightarrow> length bs < 2 ^ 31 \<Longrightarrow> toString bs (Some (name, 0, None)) = Inr (text_of bs)"
  using known by (simp add: toString_def slowToString_def dispatch_def text_of_def to_int32_small Let_def)

lemma fromString_text:
  "representable bs \<Longrightarrow> bs \<noteq> [] \<Longrightarrow> length bs < 2 ^ 31 \<Longrightarrow> fromString (text_of bs) name = Inr bs"
  using known size_text [of bs] write_text [of bs "allocate (int (length bs))"]
  by (simp add: fromString_def text_of_def to_int32_small buffer_write_def dispatch_def)

lemma buffer_roundtrip:
  assumes "representable bs" "bs \<noteq> []" "length bs < 2 ^ 31"
  shows "bindR (toString bs (Some (name, 0, None))) (\<lambda>s. newBuffer (AString s name)) = Inr bs"
  using assms by (simp add: toString_text fromString_text)

lemma text_of_inj:
  "representable a \<Longrightarrow> representable b \<Longrightarrow> a \<noteq> [] \<Longrightarrow> b \<noteq> [] \<Longrightarrow> length a < 2 ^ 31 \<Longrightarrow> length b < 2 ^ 31 \<Longrightarrow>
     text_of a = text_of b \<Longrightarrow> a = b"
  by (metis fromString_text sum.inject(2))

end

lemma concat_toHex_ne: "bs \<noteq> [] \<Longrightarrow> concat (map toHex bs) \<noteq> []"
  by (cases bs) (auto simp: toHex_digits)

lemma utf16_units_ne: "bs \<noteq> [] \<Longrightarrow> utf16_units bs \<noteq> []"
  by (cases bs rule: utf16_units.cases) auto

lemma length_utf16_units: "even (length bs) \<Longrightarrow> 2 * length (utf16_units bs) = length bs"
  by (induction bs rule: utf16_units.induct) auto

lemma u16_base64_ne: "bs \<noteq> [] \<Longrightarrow> u16 (uint8ToBase64 bs) \<noteq> []"
  using length_uint8ToBase64 [of bs] by (cases bs) (auto simp: u16_def)

interpretation hex: text_codec "''hex''" Hex "\<lambda>bs. True"
proof unfold_locales
  fix bs buf :: bytes
  assume bs: "bs \<noteq> []" "length bs < 2 ^ 31"
  have "ushr32 (int (2 * length bs)) 1 = int (length bs)"
    using ushr32_div [of "int (2 * length bs)" 1] bs(2) by simp
  then have "byteLength s ''hex'' = Inr (int (length bs))" if "s \<noteq> []" "length s = 2 * length bs" for s
    using that by (simp add: byteLength_def byteLength_as_def)
  from this [OF concat_toHex_ne [OF bs(1)]]
  show "byteLength (slice_as Hex bs 0 (int (length bs))) ''hex'' = Inr (int (length bs))"
    by (simp add: slice_as_def hexSlice_def)
  show "write_as Hex buf (slice_as Hex bs 0 (int (length bs))) 0 (int (length bs)) = Inr (bs, int (length bs))"
    if "length buf = length bs"
    using hexWrite_text [OF that] bs by (simp add: slice_as_def hexSlice_def write_as_def)
qed (simp_all add: encoding_of_def)

interpretation binary: text_codec "''binary''" Binary "\<lambda>bs. True"
proof unfold_locales
  fix bs buf :: bytes
  assume bs: "bs \<noteq> []" "length bs < 2 ^ 31"
  show "byteLength (slice_as Binary bs 0 (int (length bs))) ''binary'' = Inr (int (length bs))"
    using bs by (simp add: slice_as_def binarySlice_def byteLength_def byteLength_as_def)
  show "write_as Binary buf (slice_as Binary bs 0 (int (length bs))) 0 (int (length bs)) = Inr (bs, int (length bs))"
    if "length buf = length bs"
    using blitBuffer_full [OF that] asciiToBytes_binary [of bs]
    by (simp add: slice_as_def binarySlice_def write_as_def binaryWrite_def asciiWrite_def)
qed (simp_all add: encoding_of_def)

interpretation base64: text_codec "''base64''" Base64 "\<lambda>bs. True"
proof unfold_locales
  fix bs buf :: bytes
  assume bs: "bs \<noteq> []" "length bs < 2 ^ 31"
  show "byteLength (slice_as Base64 bs 0 (int (length bs))) ''base64'' = Inr (int (length bs))"
    using u16_base64_ne [OF bs(1)]
    by (simp add: slice_as_def base64Slice_def byteLength_def byteLength_as_def base64ToBytes_text)
  show "write_as Base64 buf (slice_as Base64 bs 0 (int (length bs))) 0 (int (length bs)) = Inr (bs, int (length bs))"
    if "length buf = length bs"
    using blitBuffer_full [OF that] by (simp add: slice_as_def base64Slice_def write_as_def base64Write_def base64ToBytes_text)
qed (simp_all add: encoding_of_def)

interpretation ucs2: text_codec "''ucs2''" Ucs2 "\<lambda>bs. even (length bs)"
proof unfold_locales
  fix bs buf :: bytes
  assume bs: "even (length bs)" "bs \<noteq> []" "length bs < 2 ^ 31"
  have n: "int (length (utf16_units bs)) * 2 = int (length bs)" using length_utf16_units [OF bs(1)] by linarith
  show "byteLength (slice_as Ucs2 bs 0 (int (length bs))) ''ucs2'' = Inr (int (length bs))"
    using utf16_units_ne [OF bs(2)] bs(3) n
    by (simp add: slice_as_def utf16leSlice_def byteLength_def byteLength_as_def)
  show "write_as Ucs2 buf (slice_as Ucs2 bs 0 (int (length bs))) 0 (int (length bs)) = Inr (bs, int (length bs))"
    if "length buf = length bs"
    using blitBuffer_full [OF that] utf16le_units [OF bs(1)] bs(3) that
    by (simp add: slice_as_def utf16leSlice_def write_as_def ucs2Write_def)
qed (simp_all add: encoding_of_def)

section \<open>Properties\<close>

text \<open>C37: A buffer rebuilt from its own text is the same buffer, for the encodings hex, base64 and
  binary, and for ucs2 when it has an even number of bytes.\<close>

theorem buffer_text_roundtrip:
  assumes "bs \<noteq> []" "length bs < 2 ^ 31"
  shows "bindR (toString bs (Some (''hex'', 0, None))) (\<lambda>s. newBuffer (AString s ''hex'')) = Inr bs
    \<and> bindR (toString bs (Some (''base64'', 0, None))) (\<lambda>s. newBuffer (AString s ''base64'')) = Inr bs
    \<and> bindR (toString bs (Some (''binary'', 0, None))) (\<lambda>s. newBuffer (AString s ''binary'')) = Inr bs
    \<and> (even (length bs) \<longrightarrow>
         bindR (toString bs (Some (''ucs2'', 0, None))) (\<lambda>s. newBuffer (AString s ''ucs2'')) = Inr bs)"
  using hex.buffer_roundtrip base64.buffer_roundtrip binary.buffer_roundtrip ucs2.buffer_roundtrip assms by blast

theorem buffer_text_roundtrip_witness:
  "bindR (toString [1, 255] (Some (''base64'', 0, None))) (\<lambda>s. newBuffer (AString s ''base64'')) = Inr [1, 255]"
  using buffer_text_roundtrip [of "[1, 255]"] by simp

text \<open>\<open>copy\<close> within one buffer is safe for overlapping ranges: the target range receives the bytes
  the source range had before the call, and everything else stays.\<close>

theorem copy_overlap:
  assumes "s + n \<le> length buf" "t + n \<le> length buf" "0 < n"
  shows "copy_self buf (Some (int t)) (Some (int s)) (Some (int (s + n)))
           = Inr (put_field buf t (field buf s n), int n)"
proof -
  have "copy_range (length buf) (length buf) (Some (int t)) (Some (int s)) (Some (int (s + n)))
      = Inr (Some (int t, int s, int n))"
    using assms by (auto simp: copy_range_def Let_def)
  from copy_self_put [OF this] show ?thesis by simp
qed

theorem copy_overlap_witness:
  "copy_self [1, 2, 3, 4, 5] (Some 1) (Some 0) (Some 4) = Inr ([1, 1, 2, 3, 4], 4)"
  using copy_overlap [of 0 4 "[1, 2, 3, 4, 5]" 1] by (simp add: put_field_def field_def)

text \<open>\<open>copy\<close> between buffers puts the source range, cut to the room in the target, into the target
  and returns the number of bytes; it throws exactly on the ranges the code calls out of bounds.\<close>

theorem copy_between:
  assumes "0 \<le> ts" "0 \<le> s" "s < e" "ts \<le> int (length target)" "e \<le> int (length this)" "target \<noteq> []"
  shows "copy this target (Some ts) (Some s) (Some e) =
     (let n = min (e - s) (int (length target) - ts)
      in Inr (put_field target (nat ts) (field this (nat s) (nat n)), n))"
proof -
  define n where "n = min (e - s) (int (length target) - ts)"
  have "copy_range (length this) (length target) (Some ts) (Some s) (Some e) = Inr (Some (ts, s, n))"
    using assms by (auto simp: copy_range_def Let_def n_def)
  moreover have "0 \<le> n" using assms by (simp add: n_def)
  ultimately show ?thesis by (simp add: copy_put n_def [symmetric])
qed

theorem copy_between_witness:
  "copy [1, 2, 3] [0, 0, 0] (Some 2) (Some 0) (Some 3) = Inr ([0, 0, 1], 1)"
  using copy_between [of 2 0 3 "[0, 0, 0]" "[1, 2, 3]"] by (simp add: put_field_def field_def)

text \<open>C39: \<open>Buffer.compare\<close> is the lexicographic order on unsigned bytes: \<open>0\<close> exactly for equal buffers,
  antisymmetric and transitive.\<close>

theorem compare_order:
  "(compare a b = -1 \<longleftrightarrow> bytes_less a b) \<and> (compare a b = 1 \<longleftrightarrow> bytes_less b a) \<and> (compare a b = 0 \<longleftrightarrow> a = b)
   \<and> compare b a = - compare a b \<and> (equals a b \<longleftrightarrow> a = b)
   \<and> (compare a b = -1 \<and> compare b c = -1 \<longrightarrow> compare a c = -1)"
proof -
  have "\<not> (bytes_less a b \<and> bytes_less b a)" using bytes_less_trans [of a b a] by auto
  then show ?thesis
    using bytes_less_total [of a b] bytes_less_trans [of a b c]
    by (auto simp: compare_cases equals_def split: if_splits)
qed

theorem compare_order_witness: "compare [1, 2] [1, 2, 0] = -1 \<and> compare [1, 2, 0] [2] = -1 \<and> compare [1, 2] [2] = -1"
  using compare_order [of "[1, 2]" "[1, 2, 0]" "[2]"] compare_order [of "[1, 2, 0]" "[2]" "[]"] by simp

text \<open>\<open>Buffer.concat\<close> joins the buffers in order; with a length it cuts the result or fills it up
  with zeros, and without one it takes the sum of the lengths.\<close>

theorem concat_joins:
  assumes "list \<noteq> []" "case len of None \<Rightarrow> int (length (concat list)) < kMaxLength | Some n \<Rightarrow> 0 \<le> n \<and> n < kMaxLength"
  shows "concat_buffers list len =
     (case len of None \<Rightarrow> Inr (concat list)
      | Some n \<Rightarrow> Inr (take (nat n) (concat list) @ replicate (nat n - length (concat list)) 0))"
proof -
  define n where "n = (case len of None \<Rightarrow> length (concat list) | Some n \<Rightarrow> nat n)"
  have n: "(case len of None \<Rightarrow> fold (\<lambda>b n. n + int (length b)) list 0 | Some n \<Rightarrow> n) = int n" "int n < kMaxLength"
    using assms(2) by (auto simp: n_def fold_lengths split: option.splits)
  then have "newBuffer (ANumber (int n)) = Inr (joined n [])"
    by (simp add: fromNumber_def checked_small to_int32_small kMaxLength_def allocate_def joined_def)
  then have "concat_buffers list len = Inr (joined n (concat list))"
    using assms(1) n(1) concat_loop_joined [of list n "[]"] by (simp add: concat_buffers_def)
  then show ?thesis by (simp add: n_def joined_def split: option.splits)
qed

theorem concat_joins_witness: "concat_buffers [[1], [2, 3]] (Some 2) = Inr [1, 2]"
  using concat_joins [of "[[1], [2, 3]]" "Some 2"] by (simp add: kMaxLength_def)

text \<open>When \<open>indexOf\<close> returns an index for a buffer, the buffer occurs there, at or after the offset;
  for a single byte it returns the first position at or after the offset, and \<open>-1\<close> only if there is none.\<close>

theorem indexOf_correct:
  assumes "0 \<le> off" "off < int (length this)" "length this < 2 ^ 31" "val \<noteq> []"
  shows "(indexOf this (NBuffer val) off \<ge> 0 \<longrightarrow>
           off \<le> indexOf this (NBuffer val) off
           \<and> field this (nat (indexOf this (NBuffer val) off)) (length val) = val)
    \<and> indexOf this (NNumber v) off =
        (if v \<in> set (drop (nat off) this)
         then off + int (length (takeWhile (\<lambda>b. b \<noteq> v) (drop (nat off) this))) else -1)"
proof
  define r where "r = indexOf this (NBuffer val) off"
  have ne: "this \<noteq> []" and t: "to_int32 off = off" using assms by (auto simp: to_int32_small)
  then have r: "r = arrayIndexOf_loop this val off 0 (-1)" and
    n: "indexOf this (NNumber v) off = arrayIndexOf_loop this [v] off 0 (-1)"
    using assms by (auto simp: r_def indexOf_def arrayIndexOf_def Let_def)
  show "r \<ge> 0 \<longrightarrow> off \<le> r \<and> field this (nat r) (length val) = val"
  proof
    assume "r \<ge> 0"
    then have s: "off \<le> r" "r + int (length val) \<le> int (length this)"
      "\<forall>k. 0 \<le> k \<and> k < int (length val) \<longrightarrow> at this (r + k) = at val k"
      using arrayIndexOf_loop_sound [of this val off 0 "-1" r] assms r by (auto simp: matching_def)
    have "field this (nat r) (length val) = val"
    proof (rule nth_equalityI)
      show l: "length (field this (nat r) (length val)) = length val" using s \<open>r \<ge> 0\<close> by (simp add: field_def)
      fix i assume "i < length (field this (nat r) (length val))"
      then have i: "i < length val" using l by simp
      then have "at this (int (nat r + i)) = at val (int i)" using s(3) \<open>r \<ge> 0\<close> by simp
      then have "this ! (nat r + i) = val ! i" using i s(2) \<open>r \<ge> 0\<close> by (simp add: at_def word_uint_eq_iff nat_add_distrib split: if_splits)
      then show "field this (nat r) (length val) ! i = val ! i" using i s(2) \<open>r \<ge> 0\<close> by (simp add: field_def)
    qed
    then show "off \<le> r \<and> field this (nat r) (length val) = val" using s by simp
  qed
  have "(\<exists>j. off \<le> int j \<and> j < length this \<and> this ! j = v) \<longleftrightarrow> v \<in> set (drop (nat off) this)"
  proof
    assume "\<exists>j. off \<le> int j \<and> j < length this \<and> this ! j = v"
    then obtain j where "off \<le> int j" "j < length this" "this ! j = v" by blast
    then show "v \<in> set (drop (nat off) this)"
      by (auto simp: in_set_conv_nth intro!: exI [of _ "j - nat off"])
  next
    assume "v \<in> set (drop (nat off) this)"
    then obtain i where "i < length this - nat off" "this ! (nat off + i) = v" by (auto simp: in_set_conv_nth)
    then show "\<exists>j. off \<le> int j \<and> j < length this \<and> this ! j = v"
      using assms(1) by (intro exI [of _ "nat off + i"]) auto
  qed
  then show "indexOf this (NNumber v) off =
        (if v \<in> set (drop (nat off) this)
         then off + int (length (takeWhile (\<lambda>b. b \<noteq> v) (drop (nat off) this))) else -1)"
    unfolding n using arrayIndexOf_byte [of off 0 this v] assms by simp
qed

theorem indexOf_correct_witness: "indexOf [7, 8, 9, 8] (NNumber 8) 2 = 3"
  using indexOf_correct [of 2 "[7, 8, 9, 8]" "[8]" 8] by simp

text \<open>\<open>indexOf\<close> misses occurrences: after a partial match it goes on behind the mismatch instead of
  one byte after the start, so \<open>[1, 1, 2]\<close> is not found in \<open>[1, 1, 1, 2]\<close>.\<close>

theorem indexOf_misses:
  "indexOf [1, 1, 1, 2] (NBuffer [1, 1, 2]) 0 = -1 \<and> field [1, 1, 1, 2] 1 3 = [1, 1, 2]"
  by code_simp

text \<open>\<open>fill\<close> with a number sets exactly the bytes from start to end.\<close>

theorem fill_number:
  assumes "s < e" "e \<le> length buf"
  shows "fill buf (FNumber v) (Some (int s)) (Some (int e)) = Inr (put_field buf s (replicate (e - s) (word_of_int v)))"
proof -
  have "[s..<e] = [s..<s + (e - s)]" using assms by simp
  then have "fold (\<lambda>i b. store (int i) v b) [s..<e] buf = put_field buf s (map (\<lambda>i. word_of_int v) [0..<e - s])"
    using fold_store_shift [of "\<lambda>i. v" s "e - s" buf] fold_store_put [of s "e - s" buf "\<lambda>i. v"] assms by simp
  then show ?thesis using assms by (auto simp: fill_def Let_def map_replicate_const)
qed

theorem fill_number_witness: "fill [1, 2, 3] (FNumber 7) (Some 1) (Some 3) = Inr [1, 7, 7]"
  using fill_number [of 1 3 "[1, 2, 3]" 7] by (simp add: put_field_def eval_nat_numeral)

text \<open>\<open>toJSON\<close> and the constructor are inverse: the JSON object of a buffer gives the buffer back.\<close>

theorem json_roundtrip:
  assumes "int (length bs) < kMaxLength"
  shows "(case toJSON bs of (typ, data) \<Rightarrow> newBuffer (AObject typ (Some data))) = Inr bs"
  using fromArray_eq [of "map (\<lambda>b. Num (uint b)) bs"] assms
  by (simp add: toJSON_def fromJsonObject_def fromArray_def comp_def)

theorem json_roundtrip_witness: "(case toJSON [0, 200] of (typ, data) \<Rightarrow> newBuffer (AObject typ (Some data))) = Inr [0, 200]"
  using json_roundtrip [of "[0, 200]"] by (simp add: kMaxLength_def)

end
