(* ===== verification/Cookie_Jar.thy ===== *)
theory Cookie_Jar
  imports JS_Object
begin

text \<open>
  The \<open>cookiejar\<close> module of \<open>swagger-ui.js\<close> (module 18): cookies, their parser and printer, the test
  whether a cookie applies to a request, and the jar. A field that is \<open>null\<close>, \<open>undefined\<close> or empty is
  the empty string, because the code only asks whether it is falsy. The time (\<open>Date.now()\<close>) and the
  date functions \<open>Date.parse\<close> and \<open>toGMTString\<close>, whose formats the language leaves open, are
  arguments.
\<close>

section \<open>Cookies\<close>

datatype expiry = Never | InvalidDate | At int

text \<open>\<open>expiration_date <= Date.now()\<close>: false for \<open>Infinity\<close> and for \<open>NaN\<close>.\<close>

fun expired :: "int \<Rightarrow> expiry \<Rightarrow> bool" where
  "expired now (At t) \<longleftrightarrow> t \<le> now"
| "expired now _ \<longleftrightarrow> False"

record cookie =
  ck_name :: "string option"
  ck_value :: "string option"
  expiration_date :: expiry
  ck_path :: string
  explicit_path :: bool
  ck_domain :: string
  explicit_domain :: bool
  ck_secure :: bool
  noscript :: bool

record access_info =
  ai_domain :: string
  ai_path :: string
  ai_secure :: bool
  ai_script :: bool

definition CookieAccessInfo :: "string \<Rightarrow> string \<Rightarrow> bool \<Rightarrow> bool \<Rightarrow> access_info" where
  "CookieAccessInfo domain path secure script =
     \<lparr>ai_domain = domain, ai_path = (if path = [] then ''/'' else path), ai_secure = secure, ai_script = script\<rparr>"

definition show_opt :: "string option \<Rightarrow> string" where
  "show_opt s = (case s of None \<Rightarrow> ''null'' | Some x \<Rightarrow> x)"

definition toValueString :: "cookie \<Rightarrow> string" where
  "toValueString c = show_opt (ck_name c) @ ''='' @ show_opt (ck_value c)"

definition cookie_toString :: "(expiry \<Rightarrow> string) \<Rightarrow> cookie \<Rightarrow> string" where
  "cookie_toString toGMTString c =
     js_join ''; ''
       ([toValueString c]
        @ (if expiration_date c \<noteq> Never then [''expires='' @ toGMTString (expiration_date c)] else [])
        @ (if ck_domain c \<noteq> [] then [''domain='' @ ck_domain c] else [])
        @ (if ck_path c \<noteq> [] then [''path='' @ ck_path c] else [])
        @ (if ck_secure c then [''secure''] else [])
        @ (if noscript c then [''httponly''] else []))"

text \<open>\<open>match(/([^=]+)(?:=([\s\S]*))?/)\<close>: the first run of characters other than \<open>=\<close>, and what follows
  the \<open>=\<close> behind it, if there is one. The first part of a cookie needs that \<open>=\<close>.\<close>

definition match_pair :: "string \<Rightarrow> (string \<times> string option) option" where
  "match_pair s =
     (let t = dropWhile (\<lambda>c. c = CHR ''='') s; k = takeWhile (\<lambda>c. c \<noteq> CHR ''='') t
      in if k = [] then None
         else case drop (length k) t of [] \<Rightarrow> Some (k, None) | _ # v \<Rightarrow> Some (k, Some v))"

definition parse_attribute :: "(string \<Rightarrow> expiry) \<Rightarrow> string \<Rightarrow> cookie \<Rightarrow> cookie result" where
  "parse_attribute date_parse part c =
     (case match_pair part of
        None \<Rightarrow> Inl null_error
      | Some (k, v) \<Rightarrow>
          let key = to_lower (js_trim k); value = (case v of None \<Rightarrow> [] | Some x \<Rightarrow> x)
          in Inr
            (if key = ''httponly'' then c\<lparr>noscript := True\<rparr>
             else if key = ''expires'' then
               c\<lparr>expiration_date := if value \<noteq> [] then date_parse value else Never\<rparr>
             else if key = ''path'' then
               c\<lparr>ck_path := if value \<noteq> [] then js_trim value else [], explicit_path := True\<rparr>
             else if key = ''domain'' then
               (let d = (if value \<noteq> [] then js_trim value else [])
                in c\<lparr>ck_domain := d, explicit_domain := (d \<noteq> [])\<rparr>)
             else if key = ''secure'' then c\<lparr>ck_secure := True\<rparr>
             else c))"

definition parse_cookie :: "(string \<Rightarrow> expiry) \<Rightarrow> string \<Rightarrow> string \<Rightarrow> string \<Rightarrow> cookie \<Rightarrow> cookie result" where
  "parse_cookie date_parse str request_domain request_path this =
     (case filter (\<lambda>v. v \<noteq> []) (split_char CHR '';'' str) of
        [] \<Rightarrow> Inl null_error
      | first # rest \<Rightarrow>
          (case match_pair first of
             Some (key, Some value) \<Rightarrow>
               bindR (foldR (parse_attribute date_parse) rest (this\<lparr>ck_name := Some key, ck_value := Some value\<rparr>)) (\<lambda>c.
                 let c1 = (if explicit_path c then c
                           else c\<lparr>ck_path := if request_path = [] then ''/'' else request_path\<rparr>);
                     c2 = (if explicit_domain c1 then c1 else c1\<lparr>ck_domain := request_domain\<rparr>)
                 in Inr c2)
           | _ \<Rightarrow> Inl null_error))"

definition new_cookie :: "string \<Rightarrow> string \<Rightarrow> cookie" where
  "new_cookie request_domain request_path =
     \<lparr>ck_name = None, ck_value = None, expiration_date = Never,
      ck_path = (if request_path = [] then ''/'' else request_path), explicit_path = False,
      ck_domain = request_domain, explicit_domain = False, ck_secure = False, noscript = False\<rparr>"

definition Cookie :: "(string \<Rightarrow> expiry) \<Rightarrow> string \<Rightarrow> string \<Rightarrow> string \<Rightarrow> cookie result" where
  "Cookie date_parse cookiestr request_domain request_path =
     (if cookiestr \<noteq> [] then parse_cookie date_parse cookiestr request_domain request_path (new_cookie request_domain request_path)
      else Inr (new_cookie request_domain request_path))"

definition strip_dot :: "string \<Rightarrow> string" where
  "strip_dot s = (case s of [] \<Rightarrow> [] | c # r \<Rightarrow> if c = CHR ''.'' then r else s)"

definition collidesWith :: "cookie \<Rightarrow> string \<Rightarrow> string \<Rightarrow> bool" where
  "collidesWith this domain path =
     (if (ck_path this \<noteq> [] \<and> path = []) \<or> (ck_domain this \<noteq> [] \<and> domain = []) then False
      else if ck_path this \<noteq> [] \<and> index_of (ck_path this) path \<noteq> 0 then False
      else if explicit_path this \<and> index_of (ck_path this) path \<noteq> 0 then False
      else
        let access_domain = strip_dot domain; cookie_domain = strip_dot (ck_domain this)
        in if cookie_domain = access_domain then True
           else if cookie_domain \<noteq> [] then
             (if \<not> explicit_domain this then False
              else let wildcard = index_of cookie_domain access_domain
                   in if wildcard = -1 \<or> wildcard \<noteq> int (length access_domain) - int (length cookie_domain)
                      then False else True)
           else True)"

definition cookie_matches :: "cookie \<Rightarrow> access_info \<Rightarrow> bool" where
  "cookie_matches this a =
     (if (noscript this \<and> ai_script a) \<or> (ck_secure this \<and> \<not> ai_secure a)
         \<or> \<not> collidesWith this (ai_domain a) (ai_path a) then False else True)"

section \<open>The jar\<close>

type_synonym jar = "cookie list obj"

definition key_of :: "cookie \<Rightarrow> string" where
  "key_of c = show_opt (ck_name c)"

text \<open>The loop over \<open>cookies_list\<close>: the first cookie that collides is removed or replaced.\<close>

fun replace_colliding :: "bool \<Rightarrow> cookie \<Rightarrow> cookie list \<Rightarrow> cookie list option" where
  "replace_colliding remove c [] = None"
| "replace_colliding remove c (d # ds) =
     (if collidesWith d (ck_domain c) (ck_path c) then Some (if remove then ds else c # ds)
      else map_option (\<lambda>r. d # r) (replace_colliding remove c ds))"

definition setCookie :: "int \<Rightarrow> cookie \<Rightarrow> jar \<Rightarrow> jar \<times> bool" where
  "setCookie now c cookies =
     (let remove = expired now (expiration_date c); name = key_of c
      in case obj_get cookies name of
           Some cookies_list \<Rightarrow>
             (case replace_colliding remove c cookies_list of
                Some list' \<Rightarrow>
                  if remove then ((if list' = [] then obj_del name cookies else obj_set name list' cookies), False)
                  else (obj_set name list' cookies, True)
              | None \<Rightarrow>
                  if remove then (cookies, False) else (obj_set name (cookies_list @ [c]) cookies, True))
         | None \<Rightarrow> if remove then (cookies, False) else (obj_set name [c] cookies, True))"

definition getCookie :: "int \<Rightarrow> string \<Rightarrow> access_info \<Rightarrow> jar \<Rightarrow> cookie option" where
  "getCookie now cookie_name a cookies =
     (case obj_get cookies cookie_name of
        None \<Rightarrow> None
      | Some cookies_list \<Rightarrow> List.find (\<lambda>c. \<not> expired now (expiration_date c) \<and> cookie_matches c a) cookies_list)"

definition getCookies :: "int \<Rightarrow> access_info \<Rightarrow> jar \<Rightarrow> cookie list" where
  "getCookies now a cookies = List.map_filter (\<lambda>name. getCookie now name a cookies) (obj_keys cookies)"

definition matches_toValueString :: "cookie list \<Rightarrow> string" where
  "matches_toValueString cs = js_join '';'' (map toValueString cs)"

text \<open>\<open>split(/[:](?=\s*[a-zA-Z0-9_\-]+\s*[=])/g)\<close>.\<close>

definition name_char :: "char \<Rightarrow> bool" where
  "name_char c \<longleftrightarrow> is_digit c \<or> (65 \<le> code c \<and> code c \<le> 90) \<or> (97 \<le> code c \<and> code c \<le> 122) \<or> c = CHR ''_'' \<or> c = CHR ''-''"

definition name_ahead :: "string \<Rightarrow> bool" where
  "name_ahead s =
     (let t = dropWhile is_space s; n = takeWhile name_char t; u = dropWhile is_space (drop (length n) t)
      in n \<noteq> [] \<and> u \<noteq> [] \<and> hd u = CHR ''='')"

fun split_cookies :: "string \<Rightarrow> string list" where
  "split_cookies [] = [[]]"
| "split_cookies (c # s) =
     (if c = CHR '':'' \<and> name_ahead s then [] # split_cookies s
      else case split_cookies s of [] \<Rightarrow> [[c]] | w # ws \<Rightarrow> (c # w) # ws)"

definition setCookies ::
  "(string \<Rightarrow> expiry) \<Rightarrow> int \<Rightarrow> string list \<Rightarrow> string \<Rightarrow> string \<Rightarrow> jar \<Rightarrow> (jar \<times> cookie list) result" where
  "setCookies date_parse now strs request_domain request_path jar0 =
     bindR (foldR (\<lambda>item cs. bindR (Cookie date_parse item request_domain request_path) (\<lambda>c. Inr (cs @ [c]))) strs []) (\<lambda>cs.
       Inr (fold (\<lambda>c (j, ok). case setCookie now c j of (j', b) \<Rightarrow> (j', if b then ok @ [c] else ok)) cs (jar0, [])))"

definition setCookies_string ::
  "(string \<Rightarrow> expiry) \<Rightarrow> int \<Rightarrow> string \<Rightarrow> string \<Rightarrow> string \<Rightarrow> jar \<Rightarrow> (jar \<times> cookie list) result" where
  "setCookies_string date_parse now str request_domain request_path jar0 =
     setCookies date_parse now (split_cookies str) request_domain request_path jar0"

section \<open>The jar invariant\<close>

text \<open>No name twice, no empty list, and every cookie filed under its own name.\<close>

definition jar_ok :: "jar \<Rightarrow> bool" where
  "jar_ok jar \<longleftrightarrow> obj_ok jar \<and> (\<forall>(k, cs) \<in> set jar. cs \<noteq> [] \<and> (\<forall>c \<in> set cs. key_of c = k))"

definition stored :: "jar \<Rightarrow> string \<Rightarrow> cookie list" where
  "stored jar k = (case obj_get jar k of None \<Rightarrow> [] | Some cs \<Rightarrow> cs)"

lemma set_obj_del: "kv \<in> set (obj_del k o1) \<Longrightarrow> kv \<in> set o1"
  by (auto simp: obj_del_def)

lemma jar_ok_set:
  "jar_ok jar \<Longrightarrow> cs \<noteq> [] \<Longrightarrow> (\<forall>c \<in> set cs. key_of c = k) \<Longrightarrow> jar_ok (obj_set k cs jar)"
  by (auto simp: jar_ok_def obj_ok_set dest!: set_obj_set)

lemma jar_ok_del: "jar_ok jar \<Longrightarrow> jar_ok (obj_del k jar)"
  by (auto simp: jar_ok_def obj_ok_del dest!: set_obj_del)

lemma jar_ok_stored: "jar_ok jar \<Longrightarrow> obj_get jar k = Some cs \<Longrightarrow> cs \<noteq> [] \<and> (\<forall>c \<in> set cs. key_of c = k)"
  by (auto simp: jar_ok_def dest!: obj_get_in_set)

lemma replace_colliding_set:
  "replace_colliding remove c ds = Some list' \<Longrightarrow> set list' \<subseteq> set ds \<union> {c}"
  by (induction ds arbitrary: list') (fastforce split: if_splits)+

lemma replace_colliding_keep:
  "replace_colliding False c ds = Some list' \<Longrightarrow> c \<in> set list' \<and> length list' = length ds"
  by (induction ds arbitrary: list') (fastforce split: if_splits)+

lemma replace_colliding_remove:
  "replace_colliding True c ds = Some list' \<Longrightarrow>
     \<exists>pre d post. ds = pre @ d # post \<and> list' = pre @ post \<and> collidesWith d (ck_domain c) (ck_path c)
       \<and> (\<forall>e \<in> set pre. \<not> collidesWith e (ck_domain c) (ck_path c))"
proof (induction ds arbitrary: list')
  case (Cons d ds)
  show ?case
  proof (cases "collidesWith d (ck_domain c) (ck_path c)")
    case True
    then show ?thesis using Cons.prems by (intro exI [of _ "[]"]) auto
  next
    case False
    then obtain r where "replace_colliding True c ds = Some r" "list' = d # r" using Cons.prems by auto
    moreover from Cons.IH [OF this(1)] obtain pre e post where "ds = pre @ e # post" "r = pre @ post"
      "collidesWith e (ck_domain c) (ck_path c)" "\<forall>x \<in> set pre. \<not> collidesWith x (ck_domain c) (ck_path c)" by blast
    ultimately show ?thesis using False by (intro exI [of _ "d # pre"]) auto
  qed
qed simp

lemma replace_colliding_subset: "replace_colliding True c ds = Some list' \<Longrightarrow> set list' \<subseteq> set ds"
  using replace_colliding_remove [of c ds list'] by auto

lemma setCookie_ok: "jar_ok jar \<Longrightarrow> jar_ok (fst (setCookie now c jar))"
proof -
  assume j: "jar_ok jar"
  show ?thesis
  proof (cases "obj_get jar (key_of c)")
    case None
    then show ?thesis using j by (auto simp: setCookie_def Let_def intro!: jar_ok_set)
  next
    case (Some cs)
    then have cs: "cs \<noteq> []" "\<forall>d \<in> set cs. key_of d = key_of c" using jar_ok_stored [OF j] by auto
    show ?thesis
    proof (cases "replace_colliding (expired now (expiration_date c)) c cs")
      case None
      then show ?thesis using j cs Some by (auto simp: setCookie_def Let_def intro!: jar_ok_set)
    next
      case (Some list')
      have "\<forall>d \<in> set list'. key_of d = key_of c" using replace_colliding_set [OF Some] cs(2) by auto
      moreover have "\<not> expired now (expiration_date c) \<Longrightarrow> list' \<noteq> []"
        using Some replace_colliding_keep [of c cs list'] by auto
      ultimately show ?thesis using j \<open>obj_get jar (key_of c) = Some cs\<close> Some
        by (auto simp: setCookie_def Let_def intro!: jar_ok_set jar_ok_del)
    qed
  qed
qed

lemma setCookie_stored:
  "\<not> expired now (expiration_date c) \<Longrightarrow> c \<in> set (stored (fst (setCookie now c jar)) (key_of c)) \<and> snd (setCookie now c jar)"
  using replace_colliding_keep [of c]
  by (auto simp: setCookie_def stored_def Let_def split: option.splits)

lemma setCookie_other:
  "k \<noteq> key_of c \<Longrightarrow> stored (fst (setCookie now c jar)) k = stored jar k"
  by (auto simp: setCookie_def stored_def Let_def split: option.splits)

lemma setCookie_expired:
  "expired now (expiration_date c) \<Longrightarrow>
     set (stored (fst (setCookie now c jar)) k) \<subseteq> set (stored jar k) \<and> \<not> snd (setCookie now c jar)"
proof (cases "k = key_of c")
  case True
  assume "expired now (expiration_date c)"
  then show ?thesis using True replace_colliding_subset [of c]
    by (auto simp: setCookie_def stored_def Let_def split: option.splits)
next
  case False
  assume "expired now (expiration_date c)"
  then show ?thesis using False by (auto simp: setCookie_def stored_def Let_def split: option.splits)
qed

lemma getCookie_stored:
  "getCookie now k a jar = List.find (\<lambda>c. \<not> expired now (expiration_date c) \<and> cookie_matches c a) (stored jar k)"
  by (simp add: getCookie_def stored_def split: option.splits)

lemma fold_setCookie_ok:
  "jar_ok j \<Longrightarrow> jar_ok (fst (fold (\<lambda>c (j, ok). case setCookie now c j of (j', b) \<Rightarrow> (j', if b then ok @ [c] else ok)) cs (j, ok)))"
proof (induction cs arbitrary: j ok)
  case (Cons c cs)
  obtain j' b where s: "setCookie now c j = (j', b)" by (cases "setCookie now c j")
  then have "jar_ok j'" using setCookie_ok [OF Cons.prems, of now c] by simp
  then show ?case using Cons.IH s by simp
qed simp

section \<open>Printing and parsing\<close>

lemma match_pair_kv:
  "k \<noteq> [] \<Longrightarrow> CHR ''='' \<notin> set k \<Longrightarrow> match_pair (k @ CHR ''='' # v) = Some (k, Some v)"
proof -
  assume k: "k \<noteq> []" "CHR ''='' \<notin> set k"
  then have "dropWhile (\<lambda>c. c = CHR ''='') (k @ CHR ''='' # v) = k @ CHR ''='' # v" by (cases k) auto
  moreover have "takeWhile (\<lambda>c. c \<noteq> CHR ''='') (k @ CHR ''='' # v) = k"
    by (subst takeWhile_append2) (use k in auto)
  ultimately show ?thesis using k by (simp add: match_pair_def)
qed

lemma match_pair_flag: "k \<noteq> [] \<Longrightarrow> CHR ''='' \<notin> set k \<Longrightarrow> match_pair k = Some (k, None)"
proof -
  assume k: "k \<noteq> []" "CHR ''='' \<notin> set k"
  then have d: "dropWhile (\<lambda>c. c = CHR ''='') k = k" by (cases k) auto
  have t: "takeWhile (\<lambda>c. c \<noteq> CHR ''='') k = k" using k by (auto simp: takeWhile_eq_all_conv)
  show ?thesis unfolding match_pair_def Let_def d t using k by simp
qed

lemma split_join_spaced:
  "ws \<noteq> [] \<Longrightarrow> (\<And>w. w \<in> set ws \<Longrightarrow> CHR '';'' \<notin> set w) \<Longrightarrow>
     split_char CHR '';'' (js_join ''; '' ws) = hd ws # map (\<lambda>w. CHR '' '' # w) (tl ws)"
proof (induction ws)
  case (Cons w ws)
  show ?case
  proof (cases ws)
    case Nil
    then show ?thesis using Cons.prems by (simp add: split_char_absent)
  next
    case (Cons v vs)
    have IH: "split_char CHR '';'' (js_join ''; '' ws) = hd ws # map (\<lambda>w. CHR '' '' # w) (tl ws)"
      using Cons.IH Cons.prems Cons by auto
    have "js_join ''; '' (w # ws) = w @ CHR '';'' # CHR '' '' # js_join ''; '' ws" using Cons by (simp add: js_join_Cons)
    then show ?thesis using IH Cons.prems Cons by (simp add: split_char_first)
  qed
qed simp

text \<open>A cookie that prints to something its parser reads back: a name without separators, values
  without \<open>;\<close>, trimmed path and domain, and no date.\<close>

definition printable :: "cookie \<Rightarrow> bool" where
  "printable c \<longleftrightarrow>
     (\<exists>n v. ck_name c = Some n \<and> ck_value c = Some v \<and> n \<noteq> [] \<and> CHR ''='' \<notin> set n \<and> CHR '';'' \<notin> set n \<and> CHR '';'' \<notin> set v)
     \<and> expiration_date c = Never
     \<and> js_trim (ck_path c) = ck_path c \<and> CHR '';'' \<notin> set (ck_path c) \<and> ck_path c \<noteq> []
     \<and> js_trim (ck_domain c) = ck_domain c \<and> CHR '';'' \<notin> set (ck_domain c)
     \<and> explicit_path c \<and> explicit_domain c = (ck_domain c \<noteq> [])"

lemma parse_domain:
  "d \<noteq> [] \<Longrightarrow> js_trim d = d \<Longrightarrow>
     parse_attribute dp ('' domain='' @ d) c = Inr (c\<lparr>ck_domain := d, explicit_domain := True\<rparr>)"
  using match_pair_kv [of "'' domain''" d]
  by (simp add: parse_attribute_def js_trim_def is_space_def to_lower_def lower_char_def)

lemma parse_path:
  "p \<noteq> [] \<Longrightarrow> js_trim p = p \<Longrightarrow>
     parse_attribute dp ('' path='' @ p) c = Inr (c\<lparr>ck_path := p, explicit_path := True\<rparr>)"
  using match_pair_kv [of "'' path''" p]
  by (simp add: parse_attribute_def js_trim_def is_space_def to_lower_def lower_char_def)

lemma parse_flags:
  "parse_attribute dp '' secure'' c = Inr (c\<lparr>ck_secure := True\<rparr>)"
  "parse_attribute dp '' httponly'' c = Inr (c\<lparr>noscript := True\<rparr>)"
  using match_pair_flag [of "'' secure''"] match_pair_flag [of "'' httponly''"]
  by (simp_all add: parse_attribute_def js_trim_def is_space_def to_lower_def lower_char_def)

lemma parse_print_lemma:
  assumes "printable c"
  shows "parse_cookie dp (cookie_toString gmt c) [] rp (new_cookie [] rp) = Inr c"
proof -
  obtain n v where nv: "ck_name c = Some n" "ck_value c = Some v" "n \<noteq> []" "CHR ''='' \<notin> set n"
    "CHR '';'' \<notin> set n" "CHR '';'' \<notin> set v"
    using assms unfolding printable_def by blast
  have p: "expiration_date c = Never" "js_trim (ck_path c) = ck_path c" "CHR '';'' \<notin> set (ck_path c)" "ck_path c \<noteq> []"
    "js_trim (ck_domain c) = ck_domain c" "CHR '';'' \<notin> set (ck_domain c)" "explicit_path c"
    "explicit_domain c = (ck_domain c \<noteq> [])"
    using assms unfolding printable_def by blast+
  define rest where "rest = (if ck_domain c \<noteq> [] then [''domain='' @ ck_domain c] else [])
        @ [''path='' @ ck_path c] @ (if ck_secure c then [''secure''] else []) @ (if noscript c then [''httponly''] else [])"
  have "cookie_toString gmt c = js_join ''; '' ((n @ ''='' @ v) # rest)"
    using nv p by (simp add: cookie_toString_def rest_def toValueString_def show_opt_def)
  moreover have "split_char CHR '';'' (js_join ''; '' ((n @ ''='' @ v) # rest)) = (n @ ''='' @ v) # map (\<lambda>w. CHR '' '' # w) rest"
    using nv p by (subst split_join_spaced) (auto simp: rest_def)
  moreover have "filter (\<lambda>x. x \<noteq> []) ((n @ ''='' @ v) # map (\<lambda>w. CHR '' '' # w) rest) = (n @ ''='' @ v) # map (\<lambda>w. CHR '' '' # w) rest"
    by (simp add: filter_map comp_def)
  moreover have "foldR (parse_attribute dp) (map (\<lambda>w. CHR '' '' # w) rest)
      ((new_cookie [] rp)\<lparr>ck_name := Some n, ck_value := Some v\<rparr>) = Inr c"
    using p nv parse_domain [of "ck_domain c"] parse_path [of "ck_path c"]
    by (cases c) (auto simp: rest_def parse_flags new_cookie_def)
  ultimately show ?thesis using nv p match_pair_kv [of n v] by (simp add: parse_cookie_def Let_def)
qed

section \<open>Properties\<close>

text \<open>Setting cookies keeps the jar consistent: every cookie is filed under its own name, no name
  occurs twice and no name has an empty list.\<close>

theorem jar_invariant:
  assumes "jar_ok jar"
  shows "jar_ok (fst (setCookie now c jar))
    \<and> (\<forall>jar' cs. setCookies dp now strs rd rp jar = Inr (jar', cs) \<longrightarrow> jar_ok jar')"
proof (intro conjI allI impI)
  show "jar_ok (fst (setCookie now c jar))" using assms by (rule setCookie_ok)
  fix jar' cs assume "setCookies dp now strs rd rp jar = Inr (jar', cs)"
  then obtain parsed where "fold (\<lambda>c (j, ok). case setCookie now c j of (j', b) \<Rightarrow>
      (j', if b then ok @ [c] else ok)) parsed (jar, []) = (jar', cs)"
    by (auto simp: setCookies_def bindR_Inr_iff)
  then show "jar_ok jar'" using fold_setCookie_ok [OF assms, of now parsed "[]"] by simp
qed

theorem jar_invariant_witness: "jar_ok (fst (setCookie 0 (new_cookie ''h'' []) []))"
  using jar_invariant [of "[]" 0 "new_cookie ''h'' []" "\<lambda>s. Never" "[]" "[]" "[]"] by (simp add: jar_ok_def)

text \<open>A cookie that has not expired can be found again: after \<open>setCookie\<close>, \<open>getCookie\<close> for its name
  and any request it applies to returns a cookie, and whatever \<open>getCookie\<close> returns has that name, has
  not expired and applies to the request. Cookies of other names are left alone.\<close>

theorem set_then_get:
  assumes "jar_ok jar" "\<not> expired now (expiration_date c)" "cookie_matches c a"
  shows "(\<exists>d. getCookie now (key_of c) a (fst (setCookie now c jar)) = Some d \<and> key_of d = key_of c
            \<and> \<not> expired now (expiration_date d) \<and> cookie_matches d a)
    \<and> (\<forall>k. k \<noteq> key_of c \<longrightarrow> getCookie now k a (fst (setCookie now c jar)) = getCookie now k a jar)"
proof
  let ?P = "\<lambda>c. \<not> expired now (expiration_date c) \<and> cookie_matches c a"
  let ?s = "stored (fst (setCookie now c jar)) (key_of c)"
  have "c \<in> set ?s" using setCookie_stored [OF assms(2)] by blast
  then obtain d where d: "List.find ?P ?s = Some d" using assms(2,3) by (cases "List.find ?P ?s") (auto simp: find_None_iff)
  then have "?P d" "d \<in> set ?s" by (auto simp: find_Some_iff)
  moreover have "\<forall>e \<in> set ?s. key_of e = key_of c"
    using jar_ok_stored [OF setCookie_ok [OF assms(1)], of now c "key_of c"]
    by (cases "obj_get (fst (setCookie now c jar)) (key_of c)") (auto simp: stored_def)
  ultimately show "\<exists>d. getCookie now (key_of c) a (fst (setCookie now c jar)) = Some d \<and> key_of d = key_of c
            \<and> \<not> expired now (expiration_date d) \<and> cookie_matches d a"
    using d by (auto simp: getCookie_stored)
  show "\<forall>k. k \<noteq> key_of c \<longrightarrow> getCookie now k a (fst (setCookie now c jar)) = getCookie now k a jar"
    by (simp add: getCookie_stored setCookie_other)
qed

theorem set_then_get_witness:
  "\<exists>d. getCookie 5 ''null'' \<lparr>ai_domain = ''h'', ai_path = ''/'', ai_secure = False, ai_script = False\<rparr>
        (fst (setCookie 5 (new_cookie ''h'' []) [])) = Some d"
  using set_then_get [of "[]" 5 "new_cookie ''h'' []" "\<lparr>ai_domain = ''h'', ai_path = ''/'', ai_secure = False, ai_script = False\<rparr>"]
  by (auto simp: jar_ok_def new_cookie_def key_of_def show_opt_def cookie_matches_def collidesWith_def starts_with_def)

text \<open>A cookie whose date has passed only deletes: no cookie is added under any name, and \<open>setCookie\<close>
  returns false.\<close>

theorem expired_cookie_deletes:
  assumes "expired now (expiration_date c)"
  shows "(\<forall>k. set (stored (fst (setCookie now c jar)) k) \<subseteq> set (stored jar k)) \<and> \<not> snd (setCookie now c jar)"
  using setCookie_expired [OF assms] by blast

theorem expired_cookie_deletes_witness:
  "\<not> snd (setCookie 5 ((new_cookie ''h'' [])\<lparr>expiration_date := At 3\<rparr>) [])"
  using expired_cookie_deletes [of 5 "(new_cookie ''h'' [])\<lparr>expiration_date := At 3\<rparr>" "[]"] by simp

text \<open>A cookie without an expiry date that has explicit path and domain is read back from its printed
  form.\<close>

theorem cookie_print_parse:
  assumes "printable c"
  shows "Cookie date_parse (cookie_toString toGMTString c) [] request_path = Inr c"
proof -
  have "cookie_toString toGMTString c \<noteq> []"
    by (simp add: cookie_toString_def toValueString_def js_join_Cons_Cons)
  then show ?thesis using parse_print_lemma [OF assms] by (simp add: Cookie_def)
qed

theorem cookie_print_parse_witness:
  "Cookie (\<lambda>s. InvalidDate) ''a=b; domain=x.org; path=/y; secure'' [] [] =
     Inr \<lparr>ck_name = Some ''a'', ck_value = Some ''b'', expiration_date = Never, ck_path = ''/y'', explicit_path = True,
          ck_domain = ''x.org'', explicit_domain = True, ck_secure = True, noscript = False\<rparr>"
  using cookie_print_parse [of "\<lparr>ck_name = Some ''a'', ck_value = Some ''b'', expiration_date = Never, ck_path = ''/y'',
      explicit_path = True, ck_domain = ''x.org'', explicit_domain = True, ck_secure = True, noscript = False\<rparr>"
      "\<lambda>s. InvalidDate" "\<lambda>e. []" "[]"]
  by (simp add: printable_def cookie_toString_def toValueString_def show_opt_def js_trim_def is_space_def)

text \<open>The domain test compares suffixes without a label boundary and looks at the first occurrence
  only: a cookie for \<open>ample.com\<close> is sent to \<open>example.com\<close>, and one for \<open>com\<close> is not sent to
  \<open>com.example.com\<close>.\<close>

theorem cookie_domain_suffix:
  "collidesWith \<lparr>ck_name = Some ''a'', ck_value = Some ''b'', expiration_date = Never, ck_path = ''/'', explicit_path = False,
          ck_domain = ''ample.com'', explicit_domain = True, ck_secure = False, noscript = False\<rparr> ''example.com'' ''/''
   \<and> \<not> collidesWith \<lparr>ck_name = Some ''a'', ck_value = Some ''b'', expiration_date = Never, ck_path = ''/'', explicit_path = False,
          ck_domain = ''com'', explicit_domain = True, ck_secure = False, noscript = False\<rparr> ''com.example.com'' ''/''"
  by code_simp

end
