(* ===== verification/Auth.thy ===== *)
theory Auth
  imports Buffer_Ops Cookie_Jar JS_Value
begin

text \<open>
  The authorizations of the client (module 2 of \<open>swagger-ui.js\<close>): API keys in the query or in a
  header, cookies, basic authentication, and \<open>SwaggerAuthorizations\<close>, which applies them to a request
  before it is sent. Applying an authorization changes the request object in place; the model returns
  the changed request and what \<open>apply\<close> returned (\<open>undefined\<close> counts as false). With it \<open>btoa\<close> (module
  13), which goes through a binary buffer.
\<close>

section \<open>btoa\<close>

definition btoa :: "ustring \<Rightarrow> ustring result" where
  "btoa str = bindR (newBuffer (AString str ''binary'')) (\<lambda>buffer. toString buffer (Some (''base64'', 0, None)))"

text \<open>The text of code units below 256 that a client string is, and back.\<close>

definition btoa_string :: "string \<Rightarrow> string result" where
  "btoa_string s = bindR (btoa (u16 s)) (\<lambda>t. Inr (map (\<lambda>c. char_of (unat c)) t))"

section \<open>Authorizations\<close>

datatype auth =
    ApiKeyAuthorization string string string
  | CookieAuthorization string
  | PasswordAuthorization string string

record request =
  url :: string
  headers :: "jsv obj"
  cookieJar :: "jar option"
  clientAuthorizations :: "auth obj option"

text \<open>\<open>kv[0]\<close> of every \<open>&\<close>-separated part of the query of the url; a \<open>?\<close> at index 0 does not count.\<close>

definition query_names :: "string \<Rightarrow> string list" where
  "query_names u =
     (if index_of ''?'' u > 0
      then map (\<lambda>part. hd (split_char CHR ''='' part)) (split_char CHR ''&'' (drop (nat (index_of ''?'' u + 1)) u))
      else [])"

definition apply_apiKey :: "string \<Rightarrow> string \<Rightarrow> string \<Rightarrow> request \<Rightarrow> request \<times> bool" where
  "apply_apiKey name value typ obj =
     (if typ = ''query'' then
        (if name \<in> set (query_names (url obj)) then (obj, False)
         else if index_of ''?'' (url obj) > 0
         then (obj\<lparr>url := url obj @ ''&'' @ name @ ''='' @ value\<rparr>, True)
         else (obj\<lparr>url := url obj @ ''?'' @ name @ ''='' @ value\<rparr>, True))
      else if typ = ''header'' then
        (if arg (headers obj) name = JUndef then (obj\<lparr>headers := obj_set name (JStr value) (headers obj)\<rparr>, True)
         else (obj, True))
      else (obj, False))"

definition apply_cookie :: "(string \<Rightarrow> expiry) \<Rightarrow> int \<Rightarrow> string \<Rightarrow> request \<Rightarrow> (request \<times> bool) result" where
  "apply_cookie date_parse now cookie obj =
     (let jar = (case cookieJar obj of None \<Rightarrow> [] | Some j \<Rightarrow> j)
      in bindR (Cookie date_parse cookie [] []) (\<lambda>c. Inr (obj\<lparr>cookieJar := Some (fst (setCookie now c jar))\<rparr>, True)))"

definition apply_password :: "string \<Rightarrow> string \<Rightarrow> request \<Rightarrow> (request \<times> bool) result" where
  "apply_password username password obj =
     (if arg (headers obj) ''Authorization'' = JUndef then
        bindR (btoa_string (username @ '':'' @ password)) (\<lambda>t.
          Inr (obj\<lparr>headers := obj_set ''Authorization'' (JStr (''Basic '' @ t)) (headers obj)\<rparr>, True))
      else Inr (obj, True))"

fun apply_auth :: "(string \<Rightarrow> expiry) \<Rightarrow> int \<Rightarrow> auth \<Rightarrow> request \<Rightarrow> (request \<times> bool) result" where
  "apply_auth dp now (ApiKeyAuthorization name value typ) obj = Inr (apply_apiKey name value typ obj)"
| "apply_auth dp now (CookieAuthorization cookie) obj = apply_cookie dp now cookie obj"
| "apply_auth dp now (PasswordAuthorization username password) obj = apply_password username password obj"

section \<open>SwaggerAuthorizations\<close>

text \<open>\<open>add\<close> with an object copies its properties, with a string sets one; any other argument is ignored.\<close>

definition add_authz :: "string \<Rightarrow> auth \<Rightarrow> auth obj \<Rightarrow> auth obj" where
  "add_authz name a authz = obj_set name a authz"

definition add_authz_object :: "auth obj \<Rightarrow> auth obj \<Rightarrow> auth obj" where
  "add_authz_object name authz = obj_copy name authz"

definition remove_authz :: "string \<Rightarrow> auth obj \<Rightarrow> auth obj" where
  "remove_authz name authz = obj_del name authz"

text \<open>The security requirements of an operation: a list of objects, of which only the property names
  count, or one object, whose names count and those of its values.\<close>

datatype securities = SecArray "string list list" | SecObject "(string \<times> string list) list"

fun flattenedSecurities :: "securities \<Rightarrow> string list" where
  "flattenedSecurities (SecArray objs) = concat objs"
| "flattenedSecurities (SecObject kvs) = concat (map (\<lambda>(key, keys). key # keys) kvs)"

definition apply_authz ::
  "(string \<Rightarrow> expiry) \<Rightarrow> int \<Rightarrow> auth obj \<Rightarrow> request \<Rightarrow> securities option \<Rightarrow> (request \<times> bool) result" where
  "apply_authz dp now this_authz obj securities =
     (let authz = (case clientAuthorizations obj of None \<Rightarrow> this_authz | Some a \<Rightarrow> a);
          applies = (\<lambda>name. case securities of None \<Rightarrow> True | Some s \<Rightarrow> name \<in> set (flattenedSecurities s))
      in foldR (\<lambda>(name, a) (r, status).
           if applies name then bindR (apply_auth dp now a r) (\<lambda>(r', st). Inr (r', status \<and> st)) else Inr (r, status))
           authz (obj, True))"

section \<open>Basic authentication\<close>

lemma asciiToBytes_u16: "asciiToBytes (u16 s) = map (\<lambda>c. word_of_nat (code c)) s"
proof -
  have "word_of_int (and32 (uint (word_of_nat (code c) :: 16 word)) 0xFF) = (word_of_nat (code c) :: 8 word)" for c
  proof -
    have "uint (word_of_nat (code c) :: 16 word) = int (code c)"
      using u16_unat [of c] by (metis uint_nat)
    moreover have "code c < 256" by (rule nat_of_char_less_256)
    ultimately show ?thesis by (simp only: and32_255) simp
  qed
  then show ?thesis by (simp add: asciiToBytes_def u16_def comp_def)
qed

lemma btoa_text:
  assumes "length s < 2 ^ 31"
  shows "btoa (u16 s) = Inr (u16 (uint8ToBase64 (map (\<lambda>c. word_of_nat (code c)) s)))"
proof (cases "s = []")
  case True
  then show ?thesis
    by (simp add: btoa_def fromString_def byteLength_def u16_def buffer_write_def dispatch_def encoding_of_def
        allocate_def to_int32_small write_as_def binaryWrite_def asciiWrite_def asciiToBytes_def blitBuffer_def
        blit_loop.simps toString_def)
next
  case False
  let ?bs = "map (\<lambda>c. word_of_nat (code c)) s :: bytes"
  have l: "length (u16 s) = length s" by (simp add: u16_def)
  then have "u16 s \<noteq> []" using False by (metis length_0_conv)
  then have "byteLength (u16 s) ''binary'' = Inr (int (length s))"
    using l by (simp add: byteLength_def byteLength_as_def)
  moreover have "write_as Binary (allocate (int (length s))) (u16 s) 0 (int (length s)) = Inr (?bs, int (length s))"
    using blitBuffer_full [of "allocate (int (length s))" ?bs]
    by (simp add: write_as_def binaryWrite_def asciiWrite_def asciiToBytes_u16)
  ultimately have "newBuffer (AString (u16 s) ''binary'') = Inr ?bs"
    using assms l by (simp add: fromString_def buffer_write_def dispatch_def encoding_of_def to_int32_small)
  then show ?thesis
    using base64.toString_text [of ?bs] False assms
    by (simp add: btoa_def base64.text_of_def slice_as_def base64Slice_def)
qed

lemma btoa_string_text:
  "length s < 2 ^ 31 \<Longrightarrow> btoa_string s = Inr (uint8ToBase64 (map (\<lambda>c. word_of_nat (code c)) s))"
  using btoa_text [of s] by (simp add: btoa_string_def u16_def comp_def)

section \<open>Query parameters of a url\<close>

lemma query_names_split:
  "base \<noteq> [] \<Longrightarrow> CHR ''?'' \<notin> set base \<Longrightarrow>
     query_names (base @ CHR ''?'' # q) = map (\<lambda>part. hd (split_char CHR ''='' part)) (split_char CHR ''&'' q)"
  using index_of_char [of "CHR ''?''" base q] by (simp add: query_names_def nat_add_distrib)

lemma query_pos_iff: "index_of ''?'' u > 0 \<longleftrightarrow> (\<exists>base q. u = base @ CHR ''?'' # q \<and> base \<noteq> [] \<and> CHR ''?'' \<notin> set base)"
proof
  assume p: "index_of ''?'' u > 0"
  then have "CHR ''?'' \<in> set u" using index_of_char_neg_iff [of "CHR ''?''" u] by (metis less_asym')
  then obtain base q where u: "u = base @ CHR ''?'' # q" "CHR ''?'' \<notin> set base" by (auto dest: split_list_first)
  moreover have "base \<noteq> []" using p u by (auto simp: index_of_char)
  ultimately show "\<exists>base q. u = base @ CHR ''?'' # q \<and> base \<noteq> [] \<and> CHR ''?'' \<notin> set base" by blast
qed (auto simp: index_of_char)

lemma query_names_append:
  assumes "index_of ''?'' u > 0"
  shows "query_names (u @ CHR ''&'' # p) = query_names u @ map (\<lambda>part. hd (split_char CHR ''='' part)) (split_char CHR ''&'' p)"
    and "index_of ''?'' (u @ w) > 0"
proof -
  obtain base q where u: "u = base @ CHR ''?'' # q" "base \<noteq> []" "CHR ''?'' \<notin> set base"
    using assms by (auto simp: query_pos_iff)
  then show "query_names (u @ CHR ''&'' # p) = query_names u @ map (\<lambda>part. hd (split_char CHR ''='' part)) (split_char CHR ''&'' p)"
    using query_names_split [of base "q @ CHR ''&'' # p"] by (simp add: query_names_split split_char_append_sep)
  show "index_of ''?'' (u @ w) > 0" using u by (auto simp: query_pos_iff)
qed

lemma split_char_hd: "c \<notin> set n \<Longrightarrow> hd (split_char c (n @ s)) = n @ hd (split_char c s)"
  unfolding hd_split_char by (subst takeWhile_append2) auto

lemma param_name:
  "CHR ''='' \<notin> set n \<Longrightarrow> CHR ''&'' \<notin> set n \<Longrightarrow>
     n \<in> set (map (\<lambda>part. hd (split_char CHR ''='' part)) (split_char CHR ''&'' (n @ CHR ''='' # v)))"
proof -
  assume n: "CHR ''='' \<notin> set n" "CHR ''&'' \<notin> set n"
  have "hd (split_char CHR ''&'' (n @ CHR ''='' # v)) = n @ CHR ''='' # hd (split_char CHR ''&'' v)"
    using n split_char_hd [of "CHR ''&''" "n @ ''=''" v] by simp
  moreover have "hd (split_char CHR ''='' (n @ CHR ''='' # w)) = n" for w
    using n by (simp add: split_char_first)
  ultimately have "n = hd (split_char CHR ''='' (hd (split_char CHR ''&'' (n @ CHR ''='' # v))))" by simp
  then show ?thesis unfolding set_map by (rule image_eqI) (rule hd_in_set [OF split_char_ne])
qed

section \<open>Repeated application\<close>

text \<open>
  Actions on a request that settle: doing one twice is doing it once, and one that has nothing left to
  do stays so whatever else is done. A whole list of such actions can then be done again without
  effect, which the client relies on when it builds the text of a request for a request that has been
  prepared already.
\<close>

locale settling_actions =
  fixes act :: "'a \<Rightarrow> 'r \<Rightarrow> 'r"
    and ok :: "'a \<Rightarrow> 'r \<Rightarrow> bool"
  assumes idem: "ok a r \<Longrightarrow> act a (act a r) = act a r"
    and stable: "ok a r \<Longrightarrow> act a r = r \<Longrightarrow> act a (act b r) = act b r"
    and ok_act: "ok a r \<Longrightarrow> ok a (act b r)"
begin

lemma settled_step:
  assumes "\<forall>a \<in> A. ok a r \<and> act a r = r" "ok b r"
  shows "\<forall>a \<in> insert b A. ok a (act b r) \<and> act a (act b r) = act b r"
  using assms idem stable ok_act by blast

lemma settled_fold:
  "(\<forall>a \<in> A. ok a r \<and> act a r = r) \<Longrightarrow> (\<forall>b \<in> set bs. ok b r) \<Longrightarrow>
     (\<forall>a \<in> A \<union> set bs. ok a (fold act bs r) \<and> act a (fold act bs r) = fold act bs r)"
proof (induction bs arbitrary: r A)
  case (Cons b bs)
  have "\<forall>a \<in> insert b A. ok a (act b r) \<and> act a (act b r) = act b r"
    using settled_step [of A r b] Cons.prems by simp
  moreover have "\<forall>c \<in> set bs. ok c (act b r)" using Cons.prems ok_act by simp
  ultimately have "\<forall>a \<in> insert b A \<union> set bs. ok a (fold act bs (act b r)) \<and>
      act a (fold act bs (act b r)) = fold act bs (act b r)"
    using Cons.IH by blast
  then show ?case by simp
qed simp

lemma fold_again: "(\<forall>b \<in> set bs. ok b r) \<Longrightarrow> fold act bs (fold act bs r) = fold act bs r"
proof -
  assume "\<forall>b \<in> set bs. ok b r"
  then have "\<forall>a \<in> set bs. act a (fold act bs r) = fold act bs r" using settled_fold [of "{}" r bs] by simp
  moreover have "fold act cs s = s" if "\<forall>a \<in> set cs. act a s = s" for cs s
    using that by (induction cs) auto
  ultimately show ?thesis by blast
qed

end

definition act_auth :: "(string \<Rightarrow> expiry) \<times> int \<times> auth \<Rightarrow> request \<Rightarrow> request" where
  "act_auth x r = (case x of (dp, now, a) \<Rightarrow> case apply_auth dp now a r of Inr (r', st) \<Rightarrow> r' | Inl e \<Rightarrow> r)"

text \<open>Cookies are left out: one cookie may replace another of the same name. Credentials have a length
  a buffer can have.\<close>

fun auth_ok :: "auth \<Rightarrow> request \<Rightarrow> bool" where
  "auth_ok (ApiKeyAuthorization n v t) r \<longleftrightarrow>
     t = ''query'' \<longrightarrow> url r \<noteq> [] \<and> hd (url r) \<noteq> CHR ''?'' \<and> CHR ''='' \<notin> set n \<and> CHR ''&'' \<notin> set n"
| "auth_ok (CookieAuthorization c) r \<longleftrightarrow> False"
| "auth_ok (PasswordAuthorization u p) r \<longleftrightarrow> length u + length p + 1 < 2 ^ 31"

lemma act_auth_headers: "arg (headers r) k \<noteq> JUndef \<Longrightarrow> arg (headers (act_auth (dp, now, a) r)) k = arg (headers r) k"
proof (cases a)
  case (ApiKeyAuthorization n w t)
  assume "arg (headers r) k \<noteq> JUndef"
  then show ?thesis using ApiKeyAuthorization by (cases "k = n") (auto simp: act_auth_def apply_apiKey_def)
next
  case (CookieAuthorization c)
  assume "arg (headers r) k \<noteq> JUndef"
  then show ?thesis using CookieAuthorization
    by (cases "Cookie dp c [] []") (auto simp: act_auth_def apply_cookie_def)
next
  case (PasswordAuthorization u p)
  assume "arg (headers r) k \<noteq> JUndef"
  then show ?thesis using PasswordAuthorization
    by (cases "btoa_string (u @ '':'' @ p)"; cases "k = ''Authorization''") (auto simp: act_auth_def apply_password_def)
qed

lemma act_auth_url: "\<exists>w. url (act_auth (dp, now, a) r) = url r @ w"
proof (cases a)
  case (CookieAuthorization c)
  then show ?thesis by (cases "Cookie dp c [] []") (auto simp: act_auth_def apply_cookie_def)
next
  case (PasswordAuthorization u p)
  then show ?thesis by (cases "btoa_string (u @ '':'' @ p)") (auto simp: act_auth_def apply_password_def)
qed (auto simp: act_auth_def apply_apiKey_def)

lemma act_auth_query_names: "set (query_names (url r)) \<subseteq> set (query_names (url (act_auth (dp, now, a) r)))"
proof (cases a)
  case (ApiKeyAuthorization n v t)
  show ?thesis
  proof (cases "index_of ''?'' (url r) > 0")
    case True
    then show ?thesis using ApiKeyAuthorization query_names_append(1) [OF True]
      by (auto simp: act_auth_def apply_apiKey_def)
  next
    case False
    then show ?thesis by (simp add: query_names_def)
  qed
next
  case (CookieAuthorization c)
  then show ?thesis by (cases "Cookie dp c [] []") (auto simp: act_auth_def apply_cookie_def)
next
  case (PasswordAuthorization u p)
  then show ?thesis by (cases "btoa_string (u @ '':'' @ p)") (auto simp: act_auth_def apply_password_def)
qed

lemma act_query_idem:
  assumes "auth_ok (ApiKeyAuthorization n v ''query'') r"
  shows "n \<in> set (query_names (url (act_auth (dp, now, ApiKeyAuthorization n v ''query'') r)))"
proof -
  have n: "url r \<noteq> []" "hd (url r) \<noteq> CHR ''?''" "CHR ''='' \<notin> set n" "CHR ''&'' \<notin> set n" using assms by auto
  note pn = param_name [OF n(3,4), of v]
  show ?thesis
  proof (cases "index_of ''?'' (url r) > 0")
    case True
    then show ?thesis using pn query_names_append(1) [OF True] by (auto simp: act_auth_def apply_apiKey_def)
  next
    case False
    have "CHR ''?'' \<notin> set (url r)"
    proof
      assume "CHR ''?'' \<in> set (url r)"
      then obtain base q where "url r = base @ CHR ''?'' # q" "CHR ''?'' \<notin> set base" by (auto dest: split_list_first)
      moreover have "base \<noteq> []" using n(2) calculation by auto
      ultimately show False using False query_pos_iff by blast
    qed
    then show ?thesis using pn False query_names_split [OF n(1), of "n @ CHR ''='' # v"]
      by (auto simp: act_auth_def apply_apiKey_def query_names_def)
  qed
qed

lemma act_auth_noop_iff:
  "auth_ok a r \<Longrightarrow> act_auth (dp, now, a) r = r \<longleftrightarrow>
     (case a of ApiKeyAuthorization n v t \<Rightarrow>
        if t = ''query'' then n \<in> set (query_names (url r)) else t = ''header'' \<longrightarrow> arg (headers r) n \<noteq> JUndef
      | PasswordAuthorization u p \<Rightarrow> arg (headers r) ''Authorization'' \<noteq> JUndef \<or> (\<exists>e. btoa_string (u @ '':'' @ p) = Inl e)
      | CookieAuthorization c \<Rightarrow> True)"
proof -
  have h: "arg (headers r) n = JUndef \<Longrightarrow> obj_set n (JStr v) (headers r) = headers r \<longleftrightarrow> False" for n v
    using arg_set [of n "JStr v" "headers r" n] by (metis jsv.distinct(7))
  have k: "r\<lparr>headers := x\<rparr> = r \<longleftrightarrow> x = headers r" "r\<lparr>url := y\<rparr> = r \<longleftrightarrow> y = url r" for x y
    by (cases r; auto)+
  assume "auth_ok a r"
  then show ?thesis
    by (cases a) (auto simp: act_auth_def apply_apiKey_def apply_password_def k h bindR_Inl_iff bindR_Inr_iff split: sum.splits)
qed

definition auth_ready :: "(string \<Rightarrow> expiry) \<times> int \<times> auth \<Rightarrow> request \<Rightarrow> bool" where
  "auth_ready x r = (case x of (dp, now, a) \<Rightarrow> auth_ok a r)"

interpretation auths: settling_actions act_auth auth_ready
proof unfold_locales
  fix x y :: "(string \<Rightarrow> expiry) \<times> int \<times> auth" and r
  obtain dp now a where x: "x = (dp, now, a)" by (cases x) auto
  obtain dp' now' b where y: "y = (dp', now', b)" by (cases y) auto
  assume "auth_ready x r"
  then have ok: "auth_ok a r" by (simp add: x auth_ready_def)
  obtain w where w: "url (act_auth y r) = url r @ w" using act_auth_url [of dp' now' b r] y by blast
  have ok': "auth_ok a (act_auth y r)" using ok w by (cases a) auto
  then show "auth_ready x (act_auth y r)" by (simp add: x auth_ready_def)
  obtain w' where w': "url (act_auth x r) = url r @ w'" using act_auth_url [of dp now a r] x by blast
  have okx: "auth_ok a (act_auth x r)" using ok w' by (cases a) auto
  show "act_auth x (act_auth x r) = act_auth x r"
  proof (cases a)
    case (ApiKeyAuthorization n v t)
    show ?thesis
    proof (cases "t = ''query''")
      case True
      then show ?thesis using act_query_idem [of n v r dp now] ok ApiKeyAuthorization act_auth_noop_iff [OF okx, of dp now]
        by (simp add: x)
    next
      case False
      then show ?thesis using ApiKeyAuthorization act_auth_noop_iff [OF okx, of dp now]
        by (auto simp: x act_auth_def apply_apiKey_def)
    qed
  next
    case (CookieAuthorization c)
    then show ?thesis using ok by simp
  next
    case (PasswordAuthorization u p)
    then show ?thesis using act_auth_noop_iff [OF okx, of dp now]
      by (cases "btoa_string (u @ '':'' @ p)") (auto simp: x act_auth_def apply_password_def)
  qed
  assume "act_auth x r = r"
  then show "act_auth x (act_auth y r) = act_auth y r"
    using act_auth_noop_iff [OF ok, of dp now] act_auth_noop_iff [OF ok', of dp now]
      act_auth_query_names [of r dp' now' b] act_auth_headers [of r _ dp' now' b]
    by (cases a) (auto simp: x y split: if_splits)
qed

lemma apply_auth_act: "auth_ok a r \<Longrightarrow> \<exists>b. apply_auth dp now a r = Inr (act_auth (dp, now, a) r, b)"
proof (cases a)
  case (PasswordAuthorization u p)
  assume "auth_ok a r"
  then have "\<exists>t. btoa_string (u @ '':'' @ p) = Inr t"
    using PasswordAuthorization btoa_string_text [of "u @ '':'' @ p"] by simp
  then show ?thesis using PasswordAuthorization by (auto simp: act_auth_def apply_password_def)
qed (auto simp: act_auth_def split: prod.splits)

text \<open>The authorizations that a call of \<open>apply\<close> selects, and the call as a fold over them.\<close>

definition selected :: "auth obj \<Rightarrow> request \<Rightarrow> securities option \<Rightarrow> auth list" where
  "selected this_authz obj securities =
     map snd (filter (\<lambda>(name, a). case securities of None \<Rightarrow> True | Some s \<Rightarrow> name \<in> set (flattenedSecurities s))
       (case clientAuthorizations obj of None \<Rightarrow> this_authz | Some a \<Rightarrow> a))"

lemma foldR_select:
  "foldR (\<lambda>(name, a) (r, status). if P name then bindR (apply_auth dp now a r) (\<lambda>(r', st). Inr (r', status \<and> st))
     else Inr (r, status)) kvs s
   = foldR (\<lambda>a (r, status). bindR (apply_auth dp now a r) (\<lambda>(r', st). Inr (r', status \<and> st)))
       (map snd (filter (\<lambda>(name, a). P name) kvs)) s"
proof (induction kvs arbitrary: s)
  case (Cons kv kvs)
  obtain n a r st where "kv = (n, a)" "s = (r, st)" by (cases kv; cases s) auto
  with Cons show ?case by (cases "apply_auth dp now a r") auto
qed simp

lemma apply_authz_selected:
  "apply_authz dp now authz obj sec =
     foldR (\<lambda>a (r, status). bindR (apply_auth dp now a r) (\<lambda>(r', st). Inr (r', status \<and> st))) (selected authz obj sec) (obj, True)"
  by (simp add: apply_authz_def selected_def foldR_select Let_def split: option.splits)

lemma foldR_acts:
  "\<forall>a \<in> set as. auth_ok a r \<Longrightarrow>
     \<exists>b. foldR (\<lambda>a (r, status). bindR (apply_auth dp now a r) (\<lambda>(r', st). Inr (r', status \<and> st))) as (r, st)
       = Inr (fold act_auth (map (\<lambda>a. (dp, now, a)) as) r, b)"
proof (induction as arbitrary: r st)
  case (Cons a as)
  obtain b where b: "apply_auth dp now a r = Inr (act_auth (dp, now, a) r, b)" using apply_auth_act Cons.prems by fastforce
  have "\<forall>c \<in> set as. auth_ok c (act_auth (dp, now, a) r)"
    using Cons.prems auths.ok_act [of "(dp, now, _)" r "(dp, now, a)"] by (auto simp: auth_ready_def)
  then show ?case using Cons.IH b by fastforce
qed simp

lemma act_auth_clientAuth: "clientAuthorizations (act_auth x r) = clientAuthorizations r"
proof -
  obtain dp now a where x: "x = (dp, now, a)" by (cases x) auto
  show ?thesis unfolding x
    by (cases a) (auto simp: act_auth_def apply_apiKey_def apply_cookie_def apply_password_def bindR_Inr_iff
        split: sum.splits prod.splits)
qed

lemma fold_act_clientAuth: "clientAuthorizations (fold act_auth xs r) = clientAuthorizations r"
  by (induction xs arbitrary: r) (auto simp: act_auth_clientAuth)

lemma apply_authz_again:
  assumes "\<forall>a \<in> set (selected authz r sec). auth_ok a r"
  shows "\<exists>r' b b'. apply_authz dp now authz r sec = Inr (r', b) \<and> apply_authz dp now authz r' sec = Inr (r', b')"
proof -
  let ?as = "selected authz r sec" and ?xs = "map (\<lambda>a. (dp, now, a)) (selected authz r sec)"
  define r' where "r' = fold act_auth ?xs r"
  have ready: "\<forall>x \<in> set ?xs. auth_ready x r" using assms by (auto simp: auth_ready_def)
  obtain b where "apply_authz dp now authz r sec = Inr (r', b)"
    using foldR_acts [OF assms] unfolding apply_authz_selected r'_def by blast
  moreover have "selected authz r' sec = ?as" by (simp add: selected_def r'_def fold_act_clientAuth)
  moreover have "\<forall>a \<in> set ?as. auth_ok a r'"
    using auths.settled_fold [of "{}" r ?xs] ready by (auto simp: r'_def auth_ready_def)
  then obtain b' where "foldR (\<lambda>a (r, status). bindR (apply_auth dp now a r) (\<lambda>(r', st). Inr (r', status \<and> st))) ?as (r', True)
       = Inr (fold act_auth ?xs r', b')"
    using foldR_acts by blast
  moreover have "fold act_auth ?xs r' = r'" unfolding r'_def using ready by (rule auths.fold_again)
  ultimately show ?thesis by (auto simp: apply_authz_selected)
qed

section \<open>Properties\<close>

text \<open>Applying the authorizations to a request that already has them changes nothing: a header is not
  overwritten and a query parameter is not added twice. The url must not be empty or begin with \<open>?\<close>, key
  names must not contain \<open>=\<close> or \<open>&\<close>, and the selected authorizations are keys and passwords.\<close>

theorem authorizations_idempotent:
  assumes "\<forall>a \<in> set (selected authz r sec). auth_ok a r"
  shows "\<exists>r' b b'. apply_authz dp now authz r sec = Inr (r', b) \<and> apply_authz dp now authz r' sec = Inr (r', b')"
  using assms by (rule apply_authz_again)

theorem authorizations_idempotent_witness:
  "\<exists>r' b b'. apply_authz (\<lambda>s. Never) 0 [(''k'', ApiKeyAuthorization ''key'' ''v'' ''query'')]
       \<lparr>url = ''/p'', headers = [], cookieJar = None, clientAuthorizations = None\<rparr> None = Inr (r', b)
     \<and> apply_authz (\<lambda>s. Never) 0 [(''k'', ApiKeyAuthorization ''key'' ''v'' ''query'')] r' None = Inr (r', b')"
  by (rule authorizations_idempotent) (simp add: selected_def)



text \<open>Basic authentication puts the base64 text of \<open>user:password\<close> in the header, and that text decodes
  to the bytes of the credentials; a header that is there already wins.\<close>

theorem password_header:
  assumes "length u + length p + 1 < 2 ^ 31" "arg (headers r) ''Authorization'' = JUndef"
  shows "\<exists>t. apply_auth dp now (PasswordAuthorization u p) r =
      Inr (r\<lparr>headers := obj_set ''Authorization'' (JStr (''Basic '' @ t)) (headers r)\<rparr>, True)
    \<and> b64ToByteArray t = Inr (map (\<lambda>c. word_of_nat (code c)) (u @ '':'' @ p))"
  using assms btoa_string_text [of "u @ '':'' @ p"] base64_roundtrip_lemma
  by (auto simp: apply_password_def)

theorem password_header_witness:
  "\<exists>t. apply_auth (\<lambda>s. Never) 0 (PasswordAuthorization ''a'' ''b'')
         \<lparr>url = ''/p'', headers = [], cookieJar = None, clientAuthorizations = None\<rparr> =
      Inr (\<lparr>url = ''/p'', headers = [(''Authorization'', JStr (''Basic '' @ t))], cookieJar = None, clientAuthorizations = None\<rparr>, True)
    \<and> b64ToByteArray t = Inr [97, 58, 98]"
  using password_header [of "''a''" "''b''" "\<lparr>url = ''/p'', headers = [], cookieJar = None, clientAuthorizations = None\<rparr>"]
  by simp

text \<open>A url whose query starts at index 0 is not recognised (\<open>indexOf('?') > 0\<close>): the key is added again
  at every application, with a second \<open>?\<close>.\<close>

theorem apiKey_leading_question_mark:
  "apply_apiKey ''key'' ''v'' ''query'' \<lparr>url = ''?key=v'', headers = [], cookieJar = None, clientAuthorizations = None\<rparr>
     = (\<lparr>url = ''?key=v?key=v'', headers = [], cookieJar = None, clientAuthorizations = None\<rparr>, True)"
  by (simp add: apply_apiKey_def query_names_def starts_with_def)

end
