(* ===== verification/Resolver_Requests.thy ===== *)
theory Resolver_Requests
  imports Resolver Auth "HOL-Library.Multiset"
begin

text \<open>
  The requests of the resolver (module 6 of \<open>swagger-ui.js\<close>, \<open>Resolver.resolve\<close> after the document has been searched):
  choosing the entries of the resolution table that are to be looked up, and looking them up in the document
  itself, in a cache, or in documents that are fetched, one request per url at a time. Timers and answers arrive in
  any order, so the second part is a step relation. Calls of \<open>finish\<close> are recorded, not carried out. What the
  authorizations do to the url of a request is a parameter.
\<close>

section \<open>What is to be resolved\<close>

text \<open>\<open>r\<close> keeps its value from one entry to the next, as the hoisted variable does; \<open>todo\<close> refers to entries of the table.\<close>

record choice =
  c_table :: "table_entry list"
  todo :: "nat list"
  c_found :: jsv

definition push_todo :: "nat \<Rightarrow> choice \<Rightarrow> choice" where
  "push_todo i c = c\<lparr>todo := todo c @ [i]\<rparr>"

definition set_root :: "nat \<Rightarrow> string \<Rightarrow> choice \<Rightarrow> choice" where
  "set_root i r c = c\<lparr>c_table := (c_table c)[i := (c_table c ! i)\<lparr>e_root := r\<rparr>]\<rparr>"

text \<open>Removes the segments \<open>..\<close> together with what precedes them.\<close>

definition normalized_url :: "string \<Rightarrow> string \<Rightarrow> string" where
  "normalized_url root key =
     js_join ''/'' (fold (\<lambda>s acc. if s = ''..'' then butlast acc else acc @ [s]) (split_char CHR ''/'' (root @ ''/'' @ key)) [])"

fun local_walk :: "string list \<Rightarrow> jsv \<Rightarrow> jsv \<Rightarrow> jsv result" where
  "local_walk [] s r = Inr r"
| "local_walk (part # ps) s r =
     (if part = [] then local_walk ps s r
      else if s = JUndef \<or> s = JNull then Inl null_error
      else let s' = js_index s part in if s' = JUndef then Inr JNull else local_walk ps s' s')"

definition choose_ref :: "string \<Rightarrow> jsv \<Rightarrow> nat \<Rightarrow> choice \<Rightarrow> choice result" where
  "choose_ref root spec i c =
     (let a = c_table c ! i
      in if index_of ''../'' (e_key a) \<ge> 0 then Inr (push_todo i (set_root i (normalized_url (e_root a) (e_key a)) c))
         else
           let parts = split_char CHR ''#'' (e_key a)
           in if length parts = 2 then
                let c1 = (if is_http (hd parts) then set_root i (hd parts) c else c)
                in bindR (local_walk (split_char CHR ''/'' (parts ! 1)) spec (c_found c)) (\<lambda>r.
                     let c2 = c1\<lparr>c_found := r\<rparr> in Inr (if r = JNull then push_todo i c2 else c2))
              else Inr c)"

text \<open>A reference to another file as a whole.\<close>

definition whole_file :: "table_entry \<Rightarrow> bool" where
  "whole_file a \<longleftrightarrow> e_key a \<noteq> [] \<and> CHR ''#'' \<notin> set (e_key a) \<and> take 1 (e_key a) \<noteq> ''/''"

text \<open>The loop that puts the directory together uses the counter of the loop over the table: it leaves the number of
  slashes of the root there. The result is the counter before it is incremented.\<close>

definition choose_inline :: "nat \<Rightarrow> choice \<Rightarrow> nat \<times> choice" where
  "choose_inline i c =
     (let a = c_table c ! i
      in if whole_file a then
           (length (split_char CHR ''/'' (e_root a)) - 1,
            push_todo i (c\<lparr>c_table := (c_table c)[i := a\<lparr>e_root := dir_of (e_root a) @ e_key a, e_location := JStr []\<rparr>]\<rparr>))
         else (i, push_todo i c))"

definition choose_entry :: "string \<Rightarrow> jsv \<Rightarrow> nat \<Rightarrow> choice \<Rightarrow> (nat \<times> choice) result" where
  "choose_entry root spec i c =
     (let a = c_table c ! i
      in if e_root a = root then
           (case resolveAs a of
              AsRef \<Rightarrow> bindR (choose_ref root spec i c) (\<lambda>c'. Inr (i, c'))
            | AsInline \<Rightarrow> Inr (choose_inline i c))
         else Inr (i, push_todo i c))"

text \<open>The loop need not end, since its counter may go back.\<close>

partial_function (option) choose_loop :: "string \<Rightarrow> jsv \<Rightarrow> nat \<Rightarrow> choice \<Rightarrow> choice result option" where
  "choose_loop root spec i c =
     (if i < length (c_table c) then
        (case choose_entry root spec i c of
           Inl e \<Rightarrow> Some (Inl e)
         | Inr ic \<Rightarrow> choose_loop root spec (fst ic + 1) (snd ic))
      else Some (Inr c))"

declare choose_loop.simps [code]

section \<open>Requests\<close>

record lookups =
  processedCalls :: nat
  resolvedRefs :: "(string \<times> jsv \<times> string) obj"
  unresolvedRefs :: "(string \<times> jsv) obj"
  failedUrls :: "string list"
  resolverCache :: "jsv obj"
  lock :: "bool obj"
  waiting :: "nat list"
  inflight :: "nat list"
  crashed :: "nat list"
  finishes :: "bool list"

text \<open>\<open>resolveItem\<close> of an entry; a location that is not a string has no method \<open>split\<close>.\<close>

definition look_up :: "jsv \<Rightarrow> table_entry \<Rightarrow> resolution result" where
  "look_up spec a = (case e_location a of
      JStr path \<Rightarrow> Inr (resolveItem spec path (e_key a))
    | JUndef \<Rightarrow> Inl null_error
    | JNull \<Rightarrow> Inl null_error
    | _ \<Rightarrow> Inl (no_method ''split''))"

definition note_unresolved :: "table_entry \<Rightarrow> lookups \<Rightarrow> lookups" where
  "note_unresolved a st = st\<lparr>unresolvedRefs := obj_set (e_key a) (e_root a, e_location a) (unresolvedRefs st)\<rparr>"

definition note_result :: "table_entry \<Rightarrow> resolution \<Rightarrow> lookups \<Rightarrow> lookups" where
  "note_result a r st = (case r of
      Resolved name v \<Rightarrow> st\<lparr>resolvedRefs := obj_set (e_key a) (name, v, e_root a) (resolvedRefs st)\<rparr>
    | Unresolved \<Rightarrow> note_unresolved a st)"

text \<open>The counter, and \<open>finish\<close> with its flag for a local lookup when it reaches the number of entries.\<close>

definition settle :: "nat \<Rightarrow> bool \<Rightarrow> lookups \<Rightarrow> lookups" where
  "settle expectedCalls localResolve st =
     (let st' = st\<lparr>processedCalls := processedCalls st + 1\<rparr>
      in if processedCalls st' = expectedCalls then st'\<lparr>finishes := finishes st' @ [localResolve]\<rparr> else st')"

definition dispatch_item :: "jsv \<Rightarrow> string \<Rightarrow> table_entry list \<Rightarrow> nat \<Rightarrow> lookups \<Rightarrow> lookups result" where
  "dispatch_item spec root items k st =
     (let a = items ! k
      in if e_root a = [] \<or> e_root a = root then
           bindR (look_up spec a) (\<lambda>r. Inr (settle (length items) True (note_result a r st)))
         else if e_root a \<notin> set (failedUrls st) then Inr (st\<lparr>waiting := waiting st @ [k]\<rparr>)
         else Inr (settle (length items) False (note_unresolved a st)))"

definition start_lookups :: "jsv \<Rightarrow> string \<Rightarrow> table_entry list \<Rightarrow> lookups \<Rightarrow> lookups result" where
  "start_lookups spec root items st =
     bindR (foldR (dispatch_item spec root items) [0..<length items] st) (\<lambda>st'.
       Inr (if items = [] then st'\<lparr>finishes := finishes st' @ [False]\<rparr> else st'))"

definition on_response :: "table_entry list \<Rightarrow> nat \<Rightarrow> jsv \<Rightarrow> lookups \<Rightarrow> lookups" where
  "on_response items k doc st =
     (let a = items ! k;
          st1 = st\<lparr>lock := obj_del (e_root a) (lock st), resolverCache := obj_set (e_root a) doc (resolverCache st)\<rparr>
      in case look_up doc a of
           Inl e \<Rightarrow> st1\<lparr>crashed := crashed st1 @ [k]\<rparr>
         | Inr r \<Rightarrow> settle (length items) False (note_result a r st1))"

definition on_error :: "(string \<Rightarrow> string) \<Rightarrow> table_entry list \<Rightarrow> nat \<Rightarrow> lookups \<Rightarrow> lookups" where
  "on_error authorized items k st =
     (let a = items ! k
      in settle (length items) False (note_unresolved a
           (st\<lparr>failedUrls := failedUrls st @ [authorized (e_root a)], lock := obj_del (e_root a) (lock st)\<rparr>)))"

text \<open>\<open>waitForUnlock\<close>: the url of the request is the one that the authorizations made of the root.\<close>

definition on_timer :: "(string \<Rightarrow> string) \<Rightarrow> table_entry list \<Rightarrow> nat \<Rightarrow> lookups \<Rightarrow> lookups" where
  "on_timer authorized items k st =
     (let u = authorized (e_root (items ! k)); st1 = st\<lparr>waiting := remove1 k (waiting st)\<rparr>
      in if obj_get (lock st) u = Some True then st1\<lparr>waiting := waiting st1 @ [k]\<rparr>
         else if is_object (arg (resolverCache st) u) then on_response items k (arg (resolverCache st) u) st1
         else st1\<lparr>lock := obj_set u True (lock st1), inflight := inflight st1 @ [k]\<rparr>)"

inductive step :: "(string \<Rightarrow> string) \<Rightarrow> table_entry list \<Rightarrow> lookups \<Rightarrow> lookups \<Rightarrow> bool" for authorized items where
  timer: "k \<in> set (waiting st) \<Longrightarrow> step authorized items st (on_timer authorized items k st)"
| response: "k \<in> set (inflight st) \<Longrightarrow>
    step authorized items st (on_response items k doc (st\<lparr>inflight := remove1 k (inflight st)\<rparr>))"
| error: "k \<in> set (inflight st) \<Longrightarrow>
    step authorized items st (on_error authorized items k (st\<lparr>inflight := remove1 k (inflight st)\<rparr>))"

abbreviation steps :: "(string \<Rightarrow> string) \<Rightarrow> table_entry list \<Rightarrow> lookups \<Rightarrow> lookups \<Rightarrow> bool" where
  "steps authorized items \<equiv> (step authorized items)\<^sup>*\<^sup>*"

inductive_cases step_cases: "step authorized items st st'"

text \<open>The state at the beginning; the failed urls and the cache are those of earlier rounds.\<close>

definition fresh_lookups :: "string list \<Rightarrow> jsv obj \<Rightarrow> lookups" where
  "fresh_lookups failed cache = \<lparr>processedCalls = 0, resolvedRefs = [], unresolvedRefs = [], failedUrls = failed,
     resolverCache = cache, lock = [], waiting = [], inflight = [], crashed = [], finishes = []\<rparr>"

section \<open>Every entry is accounted for\<close>

definition pending :: "lookups \<Rightarrow> nat list" where
  "pending st = waiting st @ inflight st @ crashed st"

definition settled :: "lookups \<Rightarrow> table_entry \<Rightarrow> bool" where
  "settled st a \<longleftrightarrow> obj_get (resolvedRefs st) (e_key a) \<noteq> None \<or> obj_get (unresolvedRefs st) (e_key a) \<noteq> None"

text \<open>An entry is pending once or has been counted, and then its key has a result; \<open>finish\<close> has been called once if
  all have been counted, and otherwise not at all.\<close>

definition book_ok :: "table_entry list \<Rightarrow> lookups \<Rightarrow> bool" where
  "book_ok items st \<longleftrightarrow>
     distinct (pending st) \<and> set (pending st) \<subseteq> {..<length items}
     \<and> processedCalls st + length (pending st) = length items
     \<and> length (finishes st) = (if processedCalls st = length items then 1 else 0)
     \<and> (\<forall>k < length items. k \<in> set (pending st) \<or> settled st (items ! k))"

lemma settle_fields [simp]:
  "waiting (settle n b st) = waiting st" "inflight (settle n b st) = inflight st" "crashed (settle n b st) = crashed st"
  "lock (settle n b st) = lock st" "failedUrls (settle n b st) = failedUrls st" "resolverCache (settle n b st) = resolverCache st"
  "resolvedRefs (settle n b st) = resolvedRefs st" "unresolvedRefs (settle n b st) = unresolvedRefs st"
  "processedCalls (settle n b st) = processedCalls st + 1"
  "finishes (settle n b st) = finishes st @ (if processedCalls st + 1 = n then [b] else [])"
  "pending (settle n b st) = pending st" "settled (settle n b st) a = settled st a"
  by (simp_all add: settle_def Let_def pending_def settled_def)

lemma note_result_fields [simp]:
  "waiting (note_result a r st) = waiting st" "inflight (note_result a r st) = inflight st" "crashed (note_result a r st) = crashed st"
  "lock (note_result a r st) = lock st" "failedUrls (note_result a r st) = failedUrls st"
  "processedCalls (note_result a r st) = processedCalls st" "finishes (note_result a r st) = finishes st"
  "pending (note_result a r st) = pending st"
  by (simp_all add: note_result_def note_unresolved_def pending_def split: resolution.splits)

lemma note_result_settles: "settled (note_result a r st) a" "settled st b \<Longrightarrow> settled (note_result a r st) b"
  by (auto simp: note_result_def note_unresolved_def settled_def obj.get_set split: resolution.splits)

lemma note_unresolved_result: "note_unresolved a st = note_result a Unresolved st"
  by (simp add: note_result_def)

lemma book_ok_settled:
  assumes ok: "book_ok items st" and "k \<in> set (pending st)" and "pending st' = remove1 k (pending st)"
    and "processedCalls st' = processedCalls st + 1"
    and "finishes st' = finishes st @ (if processedCalls st' = length items then [b] else [])"
    and "settled st' (items ! k)" and "\<And>a. settled st a \<Longrightarrow> settled st' a"
  shows "book_ok items st'"
proof -
  have "length (pending st') = length (pending st) - 1" "length (pending st) > 0"
    using assms(2,3) by (auto simp: length_remove1)
  moreover have "set (pending st') = set (pending st) - {k}" "distinct (pending st')"
    using ok assms(3) by (simp_all add: book_ok_def set_remove1_eq)
  ultimately show ?thesis using assms unfolding book_ok_def by auto
qed

lemma book_ok_moved:
  assumes "book_ok items st" and "mset (pending st') = mset (pending st)"
    and "processedCalls st' = processedCalls st" "finishes st' = finishes st" "\<And>a. settled st' a = settled st a"
  shows "book_ok items st'"
proof -
  have "set (pending st') = set (pending st)" "length (pending st') = length (pending st)" "distinct (pending st') = distinct (pending st)"
    using assms(2) by (metis set_mset_mset, metis size_mset, metis mset_eq_imp_distinct_iff)
  then show ?thesis using assms unfolding book_ok_def by simp
qed

text \<open>The handler of an answer, on the state without the entry.\<close>

lemma on_response_cases:
  obtains (settled) r where "on_response items k doc st
      = settle (length items) False (note_result (items ! k) r
          (st\<lparr>lock := obj_del (e_root (items ! k)) (lock st), resolverCache := obj_set (e_root (items ! k)) doc (resolverCache st)\<rparr>))"
  | (crashed) e where "look_up doc (items ! k) = Inl e" "on_response items k doc st
      = st\<lparr>lock := obj_del (e_root (items ! k)) (lock st), resolverCache := obj_set (e_root (items ! k)) doc (resolverCache st),
           crashed := crashed st @ [k]\<rparr>"
  by (cases "look_up doc (items ! k)") (auto simp: on_response_def Let_def)

definition without :: "nat \<Rightarrow> lookups \<Rightarrow> lookups" where
  "without k st = st\<lparr>waiting := remove1 k (waiting st), inflight := remove1 k (inflight st)\<rparr>"

lemma without_waiting:
  assumes "distinct (pending st)" "k \<in> set (waiting st)"
  shows "st\<lparr>waiting := remove1 k (waiting st)\<rparr> = without k st"
proof -
  have "remove1 k (inflight st) = inflight st" using assms by (intro remove1_idem) (auto simp: pending_def)
  then show ?thesis by (simp add: without_def)
qed

lemma without_inflight:
  assumes "distinct (pending st)" "k \<in> set (inflight st)"
  shows "st\<lparr>inflight := remove1 k (inflight st)\<rparr> = without k st"
proof -
  have "remove1 k (waiting st) = waiting st" using assms by (intro remove1_idem) (auto simp: pending_def)
  then show ?thesis by (simp add: without_def)
qed

lemma pending_without:
  "distinct (pending st) \<Longrightarrow> k \<in> set (waiting st) \<union> set (inflight st) \<Longrightarrow> pending (without k st) = remove1 k (pending st)"
  by (auto simp: without_def pending_def remove1_append remove1_idem)

lemma settled_cong: "resolvedRefs st' = resolvedRefs st \<Longrightarrow> unresolvedRefs st' = unresolvedRefs st \<Longrightarrow> settled st' a = settled st a"
  by (simp add: settled_def)

lemma book_ok_answered:
  assumes ok: "book_ok items st" and k: "k \<in> set (waiting st) \<union> set (inflight st)"
    and "pending st1 = pending (without k st)" "processedCalls st1 = processedCalls st" "finishes st1 = finishes st"
    and "resolvedRefs st1 = resolvedRefs st" "unresolvedRefs st1 = unresolvedRefs st"
  shows "book_ok items (settle (length items) b (note_result (items ! k) r st1))"
proof (rule book_ok_settled [OF ok, of k _ b])
  show "k \<in> set (pending st)" using k by (auto simp: pending_def)
  have "distinct (pending st)" using ok by (simp add: book_ok_def)
  then show "pending (settle (length items) b (note_result (items ! k) r st1)) = remove1 k (pending st)"
    using pending_without [OF _ k] assms(3) by simp
  show "settled (settle (length items) b (note_result (items ! k) r st1)) a" if "settled st a" for a
    using that note_result_settles(2) [of st1 a] settled_cong [OF assms(6,7)] by simp
qed (simp_all add: assms note_result_settles)

lemma without_fields [simp]:
  "processedCalls (without k st) = processedCalls st" "finishes (without k st) = finishes st"
  "resolvedRefs (without k st) = resolvedRefs st" "unresolvedRefs (without k st) = unresolvedRefs st"
  "lock (without k st) = lock st" "resolverCache (without k st) = resolverCache st" "failedUrls (without k st) = failedUrls st"
  "waiting (without k st) = remove1 k (waiting st)" "inflight (without k st) = remove1 k (inflight st)"
  "crashed (without k st) = crashed st"
  by (simp_all add: without_def)

lemma book_ok_response:
  assumes ok: "book_ok items st" and k: "k \<in> set (waiting st) \<union> set (inflight st)"
  shows "book_ok items (on_response items k doc (without k st))"
proof (cases rule: on_response_cases [of items k doc "without k st"])
  case (settled r)
  show ?thesis unfolding settled by (rule book_ok_answered [OF ok k]) (simp_all add: pending_def)
next
  case (crashed e)
  have "distinct (pending st)" using ok by (simp add: book_ok_def)
  then have "mset (pending (without k st)) = mset (pending st) - {#k#}" using pending_without [OF _ k] by simp
  moreover have "k \<in># mset (pending st)" using k by (auto simp: pending_def)
  ultimately have "mset (pending (without k st)) + {#k#} = mset (pending st)" by simp
  then show ?thesis unfolding crashed(2)
    by (intro book_ok_moved [OF ok]) (simp_all add: pending_def settled_def)
qed

lemma book_ok_error:
  assumes ok: "book_ok items st" and k: "k \<in> set (waiting st) \<union> set (inflight st)"
  shows "book_ok items (on_error authorized items k (without k st))"
  unfolding on_error_def Let_def note_unresolved_result by (rule book_ok_answered [OF ok k]) (simp_all add: pending_def)

lemma book_ok_timer:
  assumes ok: "book_ok items st" and k: "k \<in> set (waiting st)"
  shows "book_ok items (on_timer authorized items k st)"
proof -
  have d: "distinct (pending st)" using ok by (simp add: book_ok_def)
  let ?u = "authorized (e_root (items ! k))"
  have "k \<notin> set (inflight st)" using d k by (auto simp: pending_def)
  then have "remove1 k (inflight st) = inflight st" by (rule remove1_idem)
  then have "book_ok items ((without k st)\<lparr>waiting := waiting (without k st) @ [k]\<rparr>)"
      "book_ok items ((without k st)\<lparr>lock := l, inflight := inflight (without k st) @ [k]\<rparr>)" for l
    using k by (intro book_ok_moved [OF ok]; simp add: pending_def settled_def)+
  then show ?thesis unfolding on_timer_def Let_def without_waiting [OF d k]
    using book_ok_response [OF ok, of k] k by simp
qed

lemma book_ok_step: "step authorized items st st' \<Longrightarrow> book_ok items st \<Longrightarrow> book_ok items st'"
proof (induction rule: step.induct)
  case (timer k st)
  then show ?case by (rule book_ok_timer [rotated])
next
  case (response k st doc)
  then have "st\<lparr>inflight := remove1 k (inflight st)\<rparr> = without k st" by (intro without_inflight) (simp_all add: book_ok_def)
  then show ?case using response book_ok_response [of items st k doc] by simp
next
  case (error k st)
  then have "st\<lparr>inflight := remove1 k (inflight st)\<rparr> = without k st" by (intro without_inflight) (simp_all add: book_ok_def)
  then show ?case using error book_ok_error [of items st k] by simp
qed

lemma book_ok_steps: "steps authorized items st st' \<Longrightarrow> book_ok items st \<Longrightarrow> book_ok items st'"
  by (induction rule: rtranclp_induct) (auto dest: book_ok_step)

section \<open>The dispatch\<close>

text \<open>After the first \<open>i\<close> entries.\<close>

definition dispatched :: "table_entry list \<Rightarrow> nat \<Rightarrow> lookups \<Rightarrow> bool" where
  "dispatched items i st \<longleftrightarrow>
     inflight st = [] \<and> crashed st = [] \<and> lock st = [] \<and> distinct (waiting st) \<and> set (waiting st) \<subseteq> {..<i}
     \<and> processedCalls st + length (waiting st) = i
     \<and> length (finishes st) = (if 0 < i \<and> processedCalls st = length items then 1 else 0)
     \<and> (\<forall>k < i. k \<in> set (waiting st) \<or> settled st (items ! k))"

lemma dispatched_settled:
  assumes "dispatched items i st" "i < length items"
  shows "dispatched items (Suc i) (settle (length items) b (note_result (items ! i) r st))"
  using assms note_result_settles(1) [of "items ! i" r st] note_result_settles(2) [of st _ "items ! i" r]
  unfolding dispatched_def by (auto simp: less_Suc_eq)

lemma dispatched_item:
  assumes "dispatched items i st" "i < length items" "dispatch_item spec root items i st = Inr st'"
  shows "dispatched items (Suc i) st'"
proof -
  consider b r where "st' = settle (length items) b (note_result (items ! i) r st)" | "st' = st\<lparr>waiting := waiting st @ [i]\<rparr>"
    using assms(3) by (auto simp: dispatch_item_def Let_def bindR_Inr_iff note_unresolved_result split: if_splits)
  then show ?thesis
  proof cases
    case 1
    then show ?thesis using dispatched_settled assms(1,2) by simp
  next
    case 2
    then show ?thesis using assms(1,2) by (auto simp: dispatched_def less_Suc_eq settled_def)
  qed
qed

lemma dispatched_loop:
  "i \<le> length items \<Longrightarrow> foldR (dispatch_item spec root items) [0..<i] (fresh_lookups failed cache) = Inr st \<Longrightarrow> dispatched items i st"
proof (induction i arbitrary: st)
  case 0
  then show ?case by (auto simp: dispatched_def fresh_lookups_def)
next
  case (Suc i)
  then obtain st1 where "foldR (dispatch_item spec root items) [0..<i] (fresh_lookups failed cache) = Inr st1"
      "dispatch_item spec root items i st1 = Inr st"
    by (auto simp: foldR_append bindR_Inr_iff)
  then show ?case using Suc dispatched_item by simp
qed

lemma start_lookups_ok:
  assumes "start_lookups spec root items (fresh_lookups failed cache) = Inr st"
  shows "book_ok items st" "inflight st = []" "crashed st = []" "lock st = []"
proof -
  obtain st1 where "foldR (dispatch_item spec root items) [0..<length items] (fresh_lookups failed cache) = Inr st1"
      and st: "st = (if items = [] then st1\<lparr>finishes := finishes st1 @ [False]\<rparr> else st1)"
    using assms by (auto simp: start_lookups_def bindR_Inr_iff)
  then have "dispatched items (length items) st1" using dispatched_loop by blast
  then show "book_ok items st" "inflight st = []" "crashed st = []" "lock st = []"
    unfolding st by (auto simp: dispatched_def book_ok_def pending_def settled_def)
qed

text \<open>C16: Whatever the order of timers, answers and errors, \<open>finish\<close> is called at most once, and exactly when no entry
  is waiting, requested or lost to an error; by then every entry has its result, found or not.\<close>

theorem lookups_finish_once:
  assumes "start_lookups spec root items (fresh_lookups failed cache) = Inr st0" and "steps authorized items st0 st"
  shows "length (finishes st) = (if waiting st = [] \<and> inflight st = [] \<and> crashed st = [] then 1 else 0)
    \<and> (finishes st = [] \<or> list_all (settled st) items)"
proof -
  have ok: "book_ok items st" using book_ok_steps [OF assms(2)] start_lookups_ok(1) [OF assms(1)] by blast
  then have fin: "length (finishes st) = (if pending st = [] then 1 else 0)" by (auto simp: book_ok_def)
  then have "finishes st = [] \<or> list_all (settled st) items"
    using ok by (auto simp: book_ok_def list_all_length split: if_splits)
  then show ?thesis using fin by (auto simp: pending_def)
qed

section \<open>One request per url\<close>

definition url_of :: "table_entry list \<Rightarrow> nat \<Rightarrow> string" where
  "url_of items k = e_root (items ! k)"

definition lock_ok :: "table_entry list \<Rightarrow> lookups \<Rightarrow> bool" where
  "lock_ok items st \<longleftrightarrow> distinct (map (url_of items) (inflight st))
     \<and> (\<forall>u. obj_get (lock st) u = Some True \<longleftrightarrow> u \<in> url_of items ` set (inflight st))"

lemma lock_ok_released:
  assumes "lock_ok items st" and "k \<in> set (inflight st) \<or> obj_get (lock st) (url_of items k) \<noteq> Some True"
    and "lock st' = obj_del (url_of items k) (lock st)" and "inflight st' = remove1 k (inflight st)"
  shows "lock_ok items st'"
proof -
  have d: "distinct (map (url_of items) (inflight st))" using assms(1) by (simp add: lock_ok_def)
  then have "distinct (inflight st)" by (rule distinct_map [THEN iffD1, THEN conjunct1])
  then have set: "set (inflight st') = set (inflight st) - {k}" using assms(4) by (simp add: set_remove1_eq)
  have inj: "inj_on (url_of items) (set (inflight st))" using d by (simp add: distinct_map)
  have "k \<in> set (inflight st) \<or> url_of items k \<notin> url_of items ` set (inflight st)"
    using assms(1,2) unfolding lock_ok_def by blast
  then have "\<forall>x \<in> set (inflight st). x \<noteq> k \<longrightarrow> url_of items x \<noteq> url_of items k"
    using inj_onD [OF inj] by (metis imageI)
  then have "url_of items ` set (inflight st') = url_of items ` set (inflight st) - {url_of items k}"
    unfolding set by auto
  moreover have "distinct (map (url_of items) (inflight st'))"
    using inj \<open>distinct (inflight st)\<close> assms(4) set by (auto simp: distinct_map intro: inj_on_diff)
  ultimately show ?thesis using assms(1,3) by (auto simp: lock_ok_def)
qed

lemma on_response_lock [simp]:
  "lock (on_response items k doc st) = obj_del (url_of items k) (lock st)" "inflight (on_response items k doc st) = inflight st"
  "waiting (on_response items k doc st) = waiting st"
  by (auto simp: on_response_def Let_def url_of_def split: sum.splits)

lemma on_error_lock [simp]:
  "lock (on_error authorized items k st) = obj_del (url_of items k) (lock st)" "inflight (on_error authorized items k st) = inflight st"
  "waiting (on_error authorized items k st) = waiting st" "crashed (on_error authorized items k st) = crashed st"
  by (auto simp: on_error_def Let_def url_of_def note_unresolved_result)

lemma on_timer_cases:
  obtains (blocked) "obj_get (lock st) (url_of items k) = Some True"
      "on_timer (\<lambda>u. u) items k st = st\<lparr>waiting := remove1 k (waiting st) @ [k]\<rparr>"
  | (cached) doc where "obj_get (lock st) (url_of items k) \<noteq> Some True"
      "on_timer (\<lambda>u. u) items k st = on_response items k doc (st\<lparr>waiting := remove1 k (waiting st)\<rparr>)"
  | (requested) "obj_get (lock st) (url_of items k) \<noteq> Some True"
      "on_timer (\<lambda>u. u) items k st
         = st\<lparr>waiting := remove1 k (waiting st), lock := obj_set (url_of items k) True (lock st), inflight := inflight st @ [k]\<rparr>"
proof (cases "obj_get (lock st) (url_of items k) = Some True")
  case True
  then show ?thesis by (intro blocked) (simp_all add: on_timer_def Let_def url_of_def)
next
  case False
  show ?thesis
  proof (cases "is_object (arg (resolverCache st) (url_of items k))")
    case True
    then show ?thesis using False by (intro cached) (simp_all add: on_timer_def Let_def url_of_def)
  next
    case unknown: False
    then show ?thesis using False by (intro requested) (simp_all add: on_timer_def Let_def url_of_def)
  qed
qed

lemma lock_ok_timer:
  assumes ok: "lock_ok items st" and "book_ok items st" and k: "k \<in> set (waiting st)"
  shows "lock_ok items (on_timer (\<lambda>u. u) items k st)"
proof -
  have k': "k \<notin> set (inflight st)" using assms(2) k by (auto simp: book_ok_def pending_def)
  show ?thesis
  proof (cases rule: on_timer_cases [of st items k])
    case blocked
    then show ?thesis using ok by (simp add: lock_ok_def)
  next
    case (cached doc)
    then show ?thesis using k' by (intro lock_ok_released [OF ok, of k]) (simp_all add: remove1_idem)
  next
    case requested
    then show ?thesis using ok by (auto simp: lock_ok_def obj.get_set)
  qed
qed

lemma lock_ok_step:
  "step (\<lambda>u. u) items st st' \<Longrightarrow> book_ok items st \<Longrightarrow> lock_ok items st \<Longrightarrow> lock_ok items st'"
proof (induction rule: step.induct)
  case (timer k st)
  then show ?case by (intro lock_ok_timer)
next
  case (response k st doc)
  then show ?case by (intro lock_ok_released [OF response.prems(2), of k]) simp_all
next
  case (error k st)
  then show ?case by (intro lock_ok_released [OF error.prems(2), of k]) simp_all
qed

lemma reachable_ok:
  assumes "start_lookups spec root items (fresh_lookups failed cache) = Inr st0" and "steps (\<lambda>u. u) items st0 st"
  shows "book_ok items st \<and> lock_ok items st"
  using assms(2)
proof (induction rule: rtranclp_induct)
  case base
  then show ?case using start_lookups_ok [OF assms(1)] by (simp add: lock_ok_def)
next
  case (step y z)
  then show ?case using book_ok_step lock_ok_step by blast
qed

text \<open>C18: Without authorizations that change urls, no two requests for one url are under way at the same time, and the
  urls that are locked are exactly those being requested.\<close>

theorem one_request_per_url:
  assumes "start_lookups spec root items (fresh_lookups failed cache) = Inr st0" and "steps (\<lambda>u. u) items st0 st"
  shows "distinct (map (url_of items) (inflight st)) \<and> {u. obj_get (lock st) u = Some True} = url_of items ` set (inflight st)"
  using reachable_ok [OF assms] by (auto simp: lock_ok_def)

section \<open>Progress\<close>

definition work :: "lookups \<Rightarrow> nat" where
  "work st = 2 * length (waiting st) + length (inflight st)"

definition plain_locations :: "table_entry list \<Rightarrow> bool" where
  "plain_locations items \<longleftrightarrow> list_all (\<lambda>a. case e_location a of JStr p \<Rightarrow> True | _ \<Rightarrow> False) items"

lemma on_response_crashed:
  assumes "plain_locations items" "k < length items"
  shows "crashed (on_response items k doc st) = crashed st"
proof -
  obtain p where "e_location (items ! k) = JStr p"
    using assms by (cases "e_location (items ! k)") (force simp: plain_locations_def list_all_length)+
  then show ?thesis by (simp add: on_response_def look_up_def Let_def)
qed

lemma step_crashed:
  "step authorized items st st' \<Longrightarrow> plain_locations items \<Longrightarrow> book_ok items st \<Longrightarrow> crashed st' = crashed st"
proof (induction rule: step.induct)
  case (timer k st)
  then have "k < length items" by (auto simp: book_ok_def pending_def)
  then show ?case using timer on_response_crashed by (simp add: on_timer_def Let_def)
next
  case (response k st doc)
  then have "k < length items" by (auto simp: book_ok_def pending_def)
  then show ?case using response on_response_crashed by simp
qed simp

lemma remove1_work: "k \<in> set xs \<Longrightarrow> length (remove1 k xs) < length xs"
  using length_pos_if_in_set [of k xs] by (simp add: length_remove1)

lemma step_work:
  "step (\<lambda>u. u) items st st' \<Longrightarrow> work st' < work st \<or> (\<exists>k. st' = st\<lparr>waiting := remove1 k (waiting st) @ [k]\<rparr>)"
proof (induction rule: step.induct)
  case (timer k st)
  show ?case
  proof (cases rule: on_timer_cases [of st items k])
    case blocked
    then show ?thesis by blast
  next
    case (cached doc)
    then show ?thesis using remove1_work [OF timer] by (simp add: work_def)
  next
    case requested
    then show ?thesis using remove1_work [OF timer] by (simp add: work_def)
  qed
qed (simp_all add: work_def remove1_work)

lemma progress:
  assumes "book_ok items st" "lock_ok items st" "work st \<noteq> 0"
  shows "\<exists>st'. step (\<lambda>u. u) items st st' \<and> work st' < work st"
proof (cases "inflight st")
  case (Cons k ks)
  then have "step (\<lambda>u. u) items st (on_error (\<lambda>u. u) items k (st\<lparr>inflight := remove1 k (inflight st)\<rparr>))" by (intro step.error) simp
  then show ?thesis using Cons by (intro exI conjI) (auto simp: work_def)
next
  case Nil
  then obtain k where k: "k \<in> set (waiting st)" using assms(3) by (cases "waiting st") (auto simp: work_def)
  have "obj_get (lock st) (url_of items k) \<noteq> Some True" using assms(2) Nil by (simp add: lock_ok_def)
  then have "work (on_timer (\<lambda>u. u) items k st) < work st"
    using remove1_work [OF k] by (cases rule: on_timer_cases [of st items k]) (simp_all add: work_def)
  then show ?thesis using step.timer [OF k] by blast
qed

text \<open>C17: Without authorizations that change urls, the lookups come to an end: while work is left some timer or answer
  reduces it, every event reduces it but the timer of an entry whose url is locked, which changes nothing but the
  order of the waiting entries, and when none is left \<open>finish\<close> has been called.\<close>

theorem lookups_live:
  assumes "start_lookups spec root items (fresh_lookups failed cache) = Inr st0" and "plain_locations items"
    and "steps (\<lambda>u. u) items st0 st"
  shows "(work st = 0 \<and> length (finishes st) = 1 \<or> (\<exists>st'. step (\<lambda>u. u) items st st' \<and> work st' < work st))
    \<and> {st'. step (\<lambda>u. u) items st st'} \<subseteq> {st'. work st' < work st} \<union> {st\<lparr>waiting := remove1 k (waiting st) @ [k]\<rparr> |k. True}"
proof -
  have "book_ok items st \<and> crashed st = []" using assms(3)
  proof (induction rule: rtranclp_induct)
    case base
    then show ?case using start_lookups_ok [OF assms(1)] by simp
  next
    case (step y z)
    then show ?case using step_crashed [OF step.hyps(2) assms(2)] book_ok_step by auto
  qed
  then have "work st = 0 \<Longrightarrow> length (finishes st) = 1" by (auto simp: book_ok_def work_def pending_def)
  then show ?thesis using progress reachable_ok [OF assms(1,3)] step_work by blast
qed

definition sample_item :: table_entry where
  "sample_item = \<lparr>resolveAs = AsRef, e_root = ''http://h/d.json'', e_key = ''http://h/d.json#/a'', e_location = JStr ''/a''\<rparr>"

definition sample_start :: lookups where
  "sample_start = (fresh_lookups [] [])\<lparr>waiting := [0, 1]\<rparr>"

lemma sample_start_lookups: "start_lookups (JObj []) ''http://h/s.json'' [sample_item, sample_item] (fresh_lookups [] []) = Inr sample_start"
  by code_simp

theorem lookups_finish_once_witness: "finishes sample_start = []"
  using lookups_finish_once [OF sample_start_lookups rtranclp.rtrancl_refl] by (simp add: sample_start_def split: if_splits)

theorem one_request_per_url_witness: "{u. obj_get (lock sample_start) u = Some True} = {}"
  using one_request_per_url [OF sample_start_lookups rtranclp.rtrancl_refl] by (simp add: sample_start_def fresh_lookups_def)

theorem lookups_live_witness: "\<exists>st'. step (\<lambda>u. u) [sample_item, sample_item] sample_start st' \<and> work st' < 4"
proof -
  have "plain_locations [sample_item, sample_item]" by code_simp
  moreover have "work sample_start = 4" by code_simp
  ultimately show ?thesis using lookups_live [OF sample_start_lookups _ rtranclp.rtrancl_refl] by auto
qed

section \<open>A lock that is never released\<close>

text \<open>The url of a request after an API key has been put into its query.\<close>

definition with_key :: "string \<Rightarrow> string" where
  "with_key u = url (fst (apply_apiKey ''key'' ''k'' ''query''
     \<lparr>url = u, headers = [], cookieJar = None, clientAuthorizations = None\<rparr>))"

lemma blocked_forever:
  assumes "waiting st = [k]" "inflight st = []" "obj_get (lock st) (authorized (e_root (items ! k))) = Some True"
  shows "{st'. steps authorized items st st'} = {st}"
proof -
  have stuck: "st' = st" if "step authorized items st st'" for st'
    using that assms by (cases rule: step.cases) (auto simp: on_timer_def Let_def)
  have "st' = st" if "steps authorized items st st'" for st'
    using that by (induction rule: rtranclp_induct) (auto dest: stuck)
  then show ?thesis by auto
qed


section \<open>The choice of entries\<close>

text \<open>An entry that makes the loop lose its place.\<close>

definition resets_counter :: "string \<Rightarrow> table_entry \<Rightarrow> bool" where
  "resets_counter root a \<longleftrightarrow> e_root a = root \<and> resolveAs a = AsInline \<and> whole_file a"

text \<open>An entry that cannot be resolved inside the document.\<close>

definition needs_lookup :: "string \<Rightarrow> table_entry \<Rightarrow> bool" where
  "needs_lookup root a \<longleftrightarrow> e_root a \<noteq> root \<or> resolveAs a = AsInline"

lemma push_todo_fields [simp]: "c_table (push_todo i c) = c_table c" "todo (push_todo i c) = todo c @ [i]"
  by (simp_all add: push_todo_def)

lemma set_root_fields [simp]:
  "length (c_table (set_root i r c)) = length (c_table c)" "todo (set_root i r c) = todo c"
  "j \<noteq> i \<Longrightarrow> c_table (set_root i r c) ! j = c_table c ! j"
  by (simp_all add: set_root_def)

definition chosen :: "nat \<Rightarrow> choice \<Rightarrow> choice \<Rightarrow> bool" where
  "chosen i c c' \<longleftrightarrow> length (c_table c') = length (c_table c) \<and> (\<forall>j. j \<noteq> i \<longrightarrow> c_table c' ! j = c_table c ! j)
     \<and> (todo c' = todo c \<or> todo c' = todo c @ [i])"

lemma choose_ref_chosen: "choose_ref root spec i c = Inr c' \<Longrightarrow> chosen i c c'"
  by (auto simp: choose_ref_def chosen_def Let_def bindR_Inr_iff split: if_splits)

lemma choose_entry_chosen:
  assumes "choose_entry root spec i c = Inr ic" "\<not> resets_counter root (c_table c ! i)"
  shows "fst ic = i" "chosen i c (snd ic)" "needs_lookup root (c_table c ! i) \<Longrightarrow> todo (snd ic) = todo c @ [i]"
  using assms choose_ref_chosen [of root spec i c]
  by (auto simp: choose_entry_def choose_inline_def Let_def bindR_Inr_iff resets_counter_def needs_lookup_def chosen_def
      split: if_splits resolve_as.splits)

lemma choose_loop_ends:
  assumes "\<forall>j. i \<le> j \<longrightarrow> j < length (c_table c) \<longrightarrow> \<not> resets_counter root (c_table c ! j)"
  shows "\<exists>res. choose_loop root spec i c = Some res \<and> (\<forall>c'. res = Inr c' \<longrightarrow>
    (\<exists>js. todo c' = todo c @ js \<and> sorted_wrt (<) js \<and> set js \<subseteq> {i..<length (c_table c)}
       \<and> {j \<in> {i..<length (c_table c)}. needs_lookup root (c_table c ! j)} \<subseteq> set js))"
  using assms
proof (induction "length (c_table c) - i" arbitrary: i c)
  case 0
  then show ?case by (subst choose_loop.simps) auto
next
  case (Suc n)
  then have i: "i < length (c_table c)" by simp
  show ?case
  proof (cases "choose_entry root spec i c")
    case (Inl e)
    then show ?thesis using i by (subst choose_loop.simps) simp
  next
    case (Inr ic)
    have "\<not> resets_counter root (c_table c ! i)" using Suc.prems i by simp
    note entry = choose_entry_chosen [OF Inr this]
    then have same: "length (c_table (snd ic)) = length (c_table c)" "\<And>j. i < j \<Longrightarrow> c_table (snd ic) ! j = c_table c ! j"
      by (simp_all add: chosen_def)
    have "n = length (c_table (snd ic)) - (i + 1)" using Suc.hyps(2) same by simp
    moreover have "\<forall>j. i + 1 \<le> j \<longrightarrow> j < length (c_table (snd ic)) \<longrightarrow> \<not> resets_counter root (c_table (snd ic) ! j)"
      using Suc.prems same by simp
    ultimately obtain res where res: "choose_loop root spec (i + 1) (snd ic) = Some res"
        and post: "\<forall>c'. res = Inr c' \<longrightarrow> (\<exists>js. todo c' = todo (snd ic) @ js \<and> sorted_wrt (<) js
          \<and> set js \<subseteq> {i + 1..<length (c_table (snd ic))}
          \<and> {j \<in> {i + 1..<length (c_table (snd ic))}. needs_lookup root (c_table (snd ic) ! j)} \<subseteq> set js)"
      using Suc.hyps(1) [of "snd ic" "i + 1"] by blast
    have later: "{j \<in> {i + 1..<length (c_table (snd ic))}. needs_lookup root (c_table (snd ic) ! j)}
        = {j \<in> {i + 1..<length (c_table c)}. needs_lookup root (c_table c ! j)}"
      using same by auto
    have "\<exists>js. todo c' = todo c @ js \<and> sorted_wrt (<) js \<and> set js \<subseteq> {i..<length (c_table c)}
        \<and> {j \<in> {i..<length (c_table c)}. needs_lookup root (c_table c ! j)} \<subseteq> set js" if "res = Inr c'" for c'
    proof -
      obtain js where js: "todo c' = todo (snd ic) @ js" "sorted_wrt (<) js" "set js \<subseteq> {i + 1..<length (c_table c)}"
          "{j \<in> {i + 1..<length (c_table c)}. needs_lookup root (c_table c ! j)} \<subseteq> set js"
        using post [unfolded later] \<open>res = Inr c'\<close> unfolding same(1) by blast
      have split: "j = i \<or> j \<in> {i + 1..<length (c_table c)}" if "j \<in> {i..<length (c_table c)}" for j using that by auto
      show ?thesis
      proof (cases "todo (snd ic) = todo c @ [i]")
        case True
        then show ?thesis using js i split by (intro exI [of _ "i # js"]) (auto simp: Suc_le_eq)
      next
        case False
        then have "todo (snd ic) = todo c" "\<not> needs_lookup root (c_table c ! i)" using entry by (auto simp: chosen_def)
        then show ?thesis using js split by (intro exI [of _ js]) auto
      qed
    qed
    then show ?thesis using res i Inr entry(1) by (subst choose_loop.simps) auto
  qed
qed

definition first_choice :: "table_entry list \<Rightarrow> choice" where
  "first_choice t = \<lparr>c_table = t, todo = [], c_found = JUndef\<rparr>"



text \<open>A reference to a whole file moves the counter: with it at the head of the table, the entries that follow are
  skipped, though they are in another document.\<close>

definition file_item :: "string \<Rightarrow> table_entry" where
  "file_item key = \<lparr>resolveAs = AsInline, e_root = ''http://h/s.json'', e_key = key, e_location = JStr ''/paths/x''\<rparr>"

lemma whole_file_skips_entries:
  "(case choose_loop ''http://h/s.json'' (JObj []) 0 (first_choice [file_item ''pet.json'', sample_item, sample_item]) of
      Some (Inr c) \<Rightarrow> todo c | _ \<Rightarrow> [7]) = [0]"
  by code_simp

text \<open>A reference of the document to itself, behind as many entries as its url has segments, makes the loop endless.\<close>

definition self_item :: "table_entry \<Rightarrow> bool" where
  "self_item a \<longleftrightarrow> resolveAs a = AsInline \<and> e_root a = ''http://h/s.json'' \<and> e_key a = ''s.json''"

lemma self_item_step:
  assumes "self_item (c_table c ! 4)" "4 < length (c_table c)"
  shows "\<exists>c'. choose_entry ''http://h/s.json'' spec 4 c = Inr (3, c') \<and> self_item (c_table c' ! 4) \<and> 4 < length (c_table c')"
proof -
  have "whole_file (c_table c ! 4)" using assms(1) by (simp add: whole_file_def self_item_def)
  moreover have "length (split_char CHR ''/'' ''http://h/s.json'') = 4" "dir_of ''http://h/s.json'' = ''http://h/''" by code_simp+
  ultimately show ?thesis using assms by (simp add: choose_entry_def choose_inline_def self_item_def Let_def)
qed

lemma self_item_loops: "choose_loop ''http://h/s.json'' spec 4 c = Some res \<Longrightarrow> self_item (c_table c ! 4) \<Longrightarrow> 4 < length (c_table c) \<Longrightarrow> False"
proof (induction "''http://h/s.json''" spec "4 :: nat" c res rule: choose_loop.raw_induct [rotated, consumes 1, case_names step])
  case (step loop spec c res)
  obtain c' where "choose_entry ''http://h/s.json'' spec 4 c = Inr (3, c')" "self_item (c_table c' ! 4)" "4 < length (c_table c')"
    using self_item_step step.prems by blast
  then show ?case using step by simp
qed

lemma remote_entries:
  "n \<le> length (c_table c) \<Longrightarrow> \<forall>j < n. e_root (c_table c ! j) \<noteq> root \<Longrightarrow>
   choose_loop root spec 0 c = choose_loop root spec n (c\<lparr>todo := todo c @ [0..<n]\<rparr>)"
proof (induction n)
  case (Suc n)
  let ?c = "c\<lparr>todo := todo c @ [0..<n]\<rparr>"
  have "choose_entry root spec n ?c = Inr (n, push_todo n ?c)" using Suc.prems by (simp add: choose_entry_def)
  then have "choose_loop root spec n ?c = choose_loop root spec (Suc n) (push_todo n ?c)"
    using Suc.prems by (subst choose_loop.simps) simp
  then show ?case using Suc by (simp add: push_todo_def)
qed simp

lemma choice_may_not_end:
  "choose_loop ''http://h/s.json'' (JObj []) 0
     (first_choice [sample_item, sample_item, sample_item, sample_item, file_item ''s.json'']) = None"
proof (rule ccontr)
  let ?c = "first_choice [sample_item, sample_item, sample_item, sample_item, file_item ''s.json'']"
  have "\<forall>j < 4. e_root (c_table ?c ! j) \<noteq> ''http://h/s.json''"
    by (auto simp: less_Suc_eq numeral_eq_Suc first_choice_def sample_item_def)
  then have "choose_loop ''http://h/s.json'' (JObj []) 0 ?c = choose_loop ''http://h/s.json'' (JObj []) 4 (?c\<lparr>todo := todo ?c @ [0..<4]\<rparr>)"
    by (intro remote_entries) (simp_all add: first_choice_def)
  moreover assume "choose_loop ''http://h/s.json'' (JObj []) 0 ?c \<noteq> None"
  ultimately obtain res where "choose_loop ''http://h/s.json'' (JObj []) 4 (?c\<lparr>todo := todo ?c @ [0..<4]\<rparr>) = Some res" by auto
  from self_item_loops [OF this] show False by (simp add: self_item_def first_choice_def file_item_def)
qed

end
