(* ===== verification/JS_Store.thy ===== *)
theory JS_Store
  imports JS_Json "HOL-Library.Sublist"
begin

text \<open>
  Objects and arrays that are shared and changed in place: a store of cells, in which a value refers to an object or
  an array by its address. Operations on the store either throw or return a value and the changed store. The store
  is a record that a component extends by its own state. Recursive operations take the depth of the stack that is
  left; running out of it is the \<open>RangeError\<close> of the engine. Reading a value back gives the value of
  \<open>JS_Value\<close> that it represents, if it has no cycle.
\<close>

section \<open>Values and cells\<close>

datatype hv = HUndef | HNull | HBool bool | HNum int | HStr string | HRef nat

datatype cell = Arr "hv list" | Obj "hv obj"

record store =
  heap :: "cell list"

text \<open>Addresses come from the store itself; the case of an address outside of it does not arise.\<close>

definition cell_at :: "cell list \<Rightarrow> nat \<Rightarrow> cell" where
  "cell_at h a = (if a < length h then h ! a else Obj [])"

definition htruthy :: "hv \<Rightarrow> bool" where
  "htruthy v = (case v of HUndef \<Rightarrow> False | HNull \<Rightarrow> False | HBool b \<Rightarrow> b | HNum n \<Rightarrow> n \<noteq> 0 | HStr s \<Rightarrow> s \<noteq> [] | HRef _ \<Rightarrow> True)"

definition is_ref :: "hv \<Rightarrow> bool" where
  "is_ref v = (case v of HRef _ \<Rightarrow> True | _ \<Rightarrow> False)"

definition is_arr :: "cell list \<Rightarrow> hv \<Rightarrow> bool" where
  "is_arr h v = (case v of HRef a \<Rightarrow> (case cell_at h a of Arr _ \<Rightarrow> True | Obj _ \<Rightarrow> False) | _ \<Rightarrow> False)"

text \<open>What \<open>for (k in v)\<close> visits, with the values.\<close>

definition cell_entries :: "cell \<Rightarrow> hv obj" where
  "cell_entries c = (case c of Obj o1 \<Rightarrow> o1 | Arr xs \<Rightarrow> zip (map show_nat [0..<length xs]) xs)"

definition hentries :: "cell list \<Rightarrow> hv \<Rightarrow> hv obj" where
  "hentries h v = (case v of
      HRef a \<Rightarrow> cell_entries (cell_at h a)
    | HStr s \<Rightarrow> zip (map show_nat [0..<length s]) (map (\<lambda>c. HStr [c]) s)
    | _ \<Rightarrow> [])"

definition harg :: "hv obj \<Rightarrow> string \<Rightarrow> hv" where
  "harg o1 k = (case obj_get o1 k of None \<Rightarrow> HUndef | Some v \<Rightarrow> v)"

text \<open>\<open>v[k]\<close> of a value that is neither \<open>undefined\<close> nor \<open>null\<close>.\<close>

definition hget :: "cell list \<Rightarrow> hv \<Rightarrow> string \<Rightarrow> hv" where
  "hget h v k = (case v of
      HRef a \<Rightarrow> (case cell_at h a of
          Obj o1 \<Rightarrow> harg o1 k
        | Arr xs \<Rightarrow> if k = ''length'' then HNum (int (length xs)) else harg (hentries h v) k)
    | HStr s \<Rightarrow> if k = ''length'' then HNum (int (length s)) else harg (hentries h v) k
    | _ \<Rightarrow> HUndef)"

text \<open>The assignment \<open>c[k] = x\<close>. A named property of an array, and an index beyond its end, is not part of the model.\<close>

definition cell_put :: "string \<Rightarrow> hv \<Rightarrow> cell \<Rightarrow> cell" where
  "cell_put k x c = (case c of
      Obj o1 \<Rightarrow> Obj (obj_set k x o1)
    | Arr xs \<Rightarrow> Arr (map (\<lambda>(i, y). if i = k then x else y) (cell_entries c)))"

definition cell_del :: "string \<Rightarrow> cell \<Rightarrow> cell" where
  "cell_del k c = (case c of Obj o1 \<Rightarrow> Obj (obj_del k o1) | Arr xs \<Rightarrow> Arr xs)"

section \<open>Operations on a store\<close>

type_synonym ('s, 'a) act = "'s \<Rightarrow> ('a \<times> 's) result"

definition ret :: "'a \<Rightarrow> ('s, 'a) act" where
  "ret a s = Inr (a, s)"

definition throw :: "js_error \<Rightarrow> ('s, 'a) act" where
  "throw e s = Inl e"

definition bindA :: "('s, 'a) act \<Rightarrow> ('a \<Rightarrow> ('s, 'b) act) \<Rightarrow> ('s, 'b) act" where
  "bindA m f s = bindR (m s) (\<lambda>(a, s'). f a s')"

definition thenA :: "('s, 'a) act \<Rightarrow> ('s, 'b) act \<Rightarrow> ('s, 'b) act" where
  "thenA m n = bindA m (\<lambda>_. n)"

fun foldA :: "('b \<Rightarrow> 'a \<Rightarrow> ('s, 'a) act) \<Rightarrow> 'b list \<Rightarrow> 'a \<Rightarrow> ('s, 'a) act" where
  "foldA f [] a = ret a"
| "foldA f (x # xs) a = bindA (f x a) (foldA f xs)"

definition eachA :: "('b \<Rightarrow> ('s, unit) act) \<Rightarrow> 'b list \<Rightarrow> ('s, unit) act" where
  "eachA f xs = foldA (\<lambda>x _. f x) xs ()"

definition liftA :: "'a result \<Rightarrow> ('s, 'a) act" where
  "liftA r s = bindR r (\<lambda>a. Inr (a, s))"

text \<open>The heap as it is now.\<close>

definition the_heap :: "('x store_scheme, cell list) act" where
  "the_heap s = Inr (heap s, s)"

definition stack_error :: js_error where
  "stack_error = RangeError ''Maximum call stack size exceeded''"

definition nullish :: "hv \<Rightarrow> bool" where
  "nullish v \<longleftrightarrow> v = HUndef \<or> v = HNull"

definition read :: "hv \<Rightarrow> string \<Rightarrow> ('x store_scheme, hv) act" where
  "read v k = (if nullish v then throw null_error else bindA the_heap (\<lambda>h. ret (hget h v k)))"

definition change :: "nat \<Rightarrow> (cell \<Rightarrow> cell) \<Rightarrow> ('x store_scheme, unit) act" where
  "change a f s = Inr ((), s\<lparr>heap := (heap s)[a := f (cell_at (heap s) a)]\<rparr>)"

definition put :: "hv \<Rightarrow> string \<Rightarrow> hv \<Rightarrow> ('x store_scheme, unit) act" where
  "put v k x = (case v of
      HRef a \<Rightarrow> change a (cell_put k x)
    | _ \<Rightarrow> if nullish v then throw null_error else throw (TypeError ''property of a primitive value''))"

definition del :: "hv \<Rightarrow> string \<Rightarrow> ('x store_scheme, unit) act" where
  "del v k = (case v of HRef a \<Rightarrow> change a (cell_del k) | _ \<Rightarrow> if nullish v then throw null_error else ret ())"

definition alloc :: "cell \<Rightarrow> ('x store_scheme, hv) act" where
  "alloc c s = Inr (HRef (length (heap s)), s\<lparr>heap := heap s @ [c]\<rparr>)"

text \<open>\<open>a || b\<close> where \<open>b\<close> is a new cell.\<close>

definition or_new :: "hv \<Rightarrow> cell \<Rightarrow> ('x store_scheme, hv) act" where
  "or_new v c = (if htruthy v then ret v else alloc c)"

text \<open>The keys that a loop \<open>for (k in v)\<close> runs over: those that there are when it begins.\<close>

definition keys_of :: "hv \<Rightarrow> ('x store_scheme, string list) act" where
  "keys_of v = bindA the_heap (\<lambda>h. ret (obj_keys (hentries h v)))"

section \<open>Reading back\<close>

fun mapO :: "('a \<Rightarrow> 'b option) \<Rightarrow> 'a list \<Rightarrow> 'b list option" where
  "mapO f [] = Some []"
| "mapO f (x # xs) = (case f x of None \<Rightarrow> None | Some y \<Rightarrow> map_option (Cons y) (mapO f xs))"

fun val_of :: "nat \<Rightarrow> cell list \<Rightarrow> hv \<Rightarrow> jsv option" where
  "val_of n h HUndef = Some JUndef"
| "val_of n h HNull = Some JNull"
| "val_of n h (HBool b) = Some (JBool b)"
| "val_of n h (HNum i) = Some (JNum i)"
| "val_of n h (HStr s) = Some (JStr s)"
| "val_of n h (HRef a) = (case n of
      0 \<Rightarrow> None
    | Suc m \<Rightarrow> (case cell_at h a of
          Arr xs \<Rightarrow> map_option JArr (mapO (val_of m h) xs)
        | Obj o1 \<Rightarrow> map_option JObj (mapO (\<lambda>(k, v). map_option (Pair k) (val_of m h v)) o1)))"

lemma mapO_Some_iff: "mapO f xs = Some ys \<longleftrightarrow> list_all2 (\<lambda>x y. f x = Some y) xs ys"
  by (induction xs arbitrary: ys) (auto simp: list_all2_Cons1 split: option.splits)

lemma val_of_mono: "val_of n h v = Some j \<Longrightarrow> n \<le> m \<Longrightarrow> val_of m h v = Some j"
proof (induction n arbitrary: v j m)
  case 0
  then show ?case by (cases v) auto
next
  case (Suc n)
  from Suc.prems(2) obtain k where m: "m = Suc k" "n \<le> k" by (cases m) auto
  have step: "val_of n h x = Some y \<Longrightarrow> val_of k h x = Some y" for x y using Suc.IH m(2) by blast
  show ?case
  proof (cases v)
    case (HRef a)
    then show ?thesis using Suc.prems(1) m(1)
      by (auto simp: mapO_Some_iff step split: cell.splits elim!: list_all2_mono)
  qed (use Suc.prems in auto)
qed

lemma list_all2_zip_keys:
  "list_all2 P xs ys \<Longrightarrow> list_all2 (\<lambda>(k, x) (k', y). k = k' \<and> P x y) (zip ks xs) (zip ks ys)"
  by (induction ks arbitrary: xs ys) (auto simp: list_all2_Cons1 zip_Cons1 split: list.splits)

lemma val_of_entries:
  assumes "val_of (Suc n) h v = Some j"
  shows "list_all2 (\<lambda>(k, x) (k', y). k = k' \<and> val_of n h x = Some y) (hentries h v) (entries_of j)"
proof (cases v)
  case (HRef a)
  show ?thesis
  proof (cases "cell_at h a")
    case (Arr xs)
    then obtain ys where ys: "j = JArr ys" "list_all2 (\<lambda>x y. val_of n h x = Some y) xs ys"
      using assms HRef by (auto simp: mapO_Some_iff)
    then show ?thesis using HRef Arr list_all2_zip_keys [OF ys(2)] list_all2_lengthD [OF ys(2)]
      by (auto simp: hentries_def cell_entries_def entries_of_def)
  next
    case (Obj o1)
    then show ?thesis using assms HRef
      by (auto simp: mapO_Some_iff hentries_def cell_entries_def entries_of_def elim!: list_all2_mono)
  qed
next
  case (HStr s)
  have "list_all2 (\<lambda>x y. val_of n h x = Some y) (map (\<lambda>c. HStr [c]) s) (map (\<lambda>c. JStr [c]) s)"
    by (simp add: list_all2_map1 list_all2_map2 list_all2_same)
  from list_all2_zip_keys [OF this] show ?thesis using HStr assms by (auto simp: hentries_def entries_of_def)
qed (use assms in \<open>auto simp: hentries_def entries_of_def\<close>)

lemma mapO_total: "(\<And>x. x \<in> set xs \<Longrightarrow> \<exists>y. f x = Some y) \<Longrightarrow> \<exists>ys. mapO f xs = Some ys"
  by (induction xs) force+

lemma val_of_total:
  assumes "\<And>k x. (k, x) \<in> set (hentries h v) \<Longrightarrow> \<exists>y. val_of n h x = Some y"
  shows "\<exists>j. val_of (Suc n) h v = Some j"
proof (cases v)
  case (HRef a)
  show ?thesis
  proof (cases "cell_at h a")
    case (Arr xs)
    have "\<exists>k. (k, x) \<in> set (hentries h v)" if "x \<in> set xs" for x
      using that HRef Arr by (auto simp: hentries_def cell_entries_def in_set_conv_nth set_zip)
    then have "\<exists>ys. mapO (val_of n h) xs = Some ys" using assms by (intro mapO_total) blast
    then show ?thesis using HRef Arr by auto
  next
    case (Obj o1)
    then have "\<exists>ys. mapO (\<lambda>(k, v). map_option (Pair k) (val_of n h v)) o1 = Some ys"
      using assms HRef by (intro mapO_total) (fastforce simp: hentries_def cell_entries_def)
    then show ?thesis using HRef Obj by auto
  qed
qed auto

lemma val_of_nullish: "val_of n h v = Some j \<Longrightarrow> nullish v \<longleftrightarrow> j = JUndef \<or> j = JNull"
  by (cases v) (auto simp: nullish_def split: nat.splits cell.splits)

lemma val_of_undef: "val_of n h v = Some j \<Longrightarrow> v = HUndef \<longleftrightarrow> j = JUndef"
  by (cases v) (auto split: nat.splits cell.splits)

lemma harg_refines:
  "list_all2 (\<lambda>(k, x) (k', y). k = k' \<and> val_of n h x = Some y) o1 o2 \<Longrightarrow> val_of n h (harg o1 k) = Some (arg o2 k)"
  by (induction rule: list_all2_induct) (auto simp: harg_def)

text \<open>\<open>'' + v\<close>; an array that contains itself gives the empty string there.\<close>

fun hstr :: "nat \<Rightarrow> cell list \<Rightarrow> hv \<Rightarrow> string" where
  "hstr n h HUndef = ''undefined''"
| "hstr n h HNull = ''null''"
| "hstr n h (HBool b) = (if b then ''true'' else ''false'')"
| "hstr n h (HNum i) = show_int i"
| "hstr n h (HStr s) = s"
| "hstr n h (HRef a) = (case n of
      0 \<Rightarrow> []
    | Suc m \<Rightarrow> (case cell_at h a of
          Arr xs \<Rightarrow> js_join '','' (map (\<lambda>x. if nullish x then [] else hstr m h x) xs)
        | Obj o1 \<Rightarrow> ''[object Object]''))"

section \<open>Copies\<close>

text \<open>\<open>_.cloneDeep\<close>: the addresses that have been copied are kept with their copies, so that sharing and
  cycles are copied too.\<close>

fun baseClone :: "nat \<Rightarrow> hv \<Rightarrow> (nat \<times> hv) list \<Rightarrow> ('x store_scheme, hv \<times> (nat \<times> hv) list) act" where
  "baseClone n v m = (case v of
      HRef a \<Rightarrow>
        (case map_of m a of
           Some b \<Rightarrow> ret (b, m)
         | None \<Rightarrow>
             (case n of
                0 \<Rightarrow> throw stack_error
              | Suc n' \<Rightarrow>
                  bindA the_heap (\<lambda>h.
                  bindA (alloc (case cell_at h a of Arr xs \<Rightarrow> Arr (replicate (length xs) HUndef) | Obj _ \<Rightarrow> Obj [])) (\<lambda>r.
                  bindA (foldA (\<lambda>(k, sub) m'. bindA (baseClone n' sub m') (\<lambda>(w, m'').
                      thenA (put r k w) (ret m''))) (cell_entries (cell_at h a)) ((a, r) # m)) (\<lambda>m'.
                  ret (r, m'))))))
    | _ \<Rightarrow> ret (v, m))"

declare baseClone.simps [simp del]

definition cloneDeep :: "nat \<Rightarrow> hv \<Rightarrow> ('x store_scheme, hv) act" where
  "cloneDeep n v = bindA (baseClone n v []) (\<lambda>(w, m). ret w)"

lemma bindA_Inr_iff: "bindA m f s = Inr r \<longleftrightarrow> (\<exists>a s'. m s = Inr (a, s') \<and> f a s' = Inr r)"
  by (auto simp: bindA_def bindR_Inr_iff)

lemma thenA_Inr_iff: "thenA m n s = Inr r \<longleftrightarrow> (\<exists>a s'. m s = Inr (a, s') \<and> n s' = Inr r)"
  by (auto simp: thenA_def bindA_Inr_iff)

lemma ret_Inr_iff [simp]: "ret a s = Inr r \<longleftrightarrow> r = (a, s)"
  by (auto simp: ret_def)

lemma throw_Inr [simp]: "throw e s \<noteq> Inr r"
  by (simp add: throw_def)

lemma liftA_Inr_iff: "liftA m s = Inr r \<longleftrightarrow> (\<exists>a. m = Inr a \<and> r = (a, s))"
  by (auto simp: liftA_def bindR_Inr_iff)

section \<open>Well-formed stores\<close>

text \<open>The shape of a store tells of every cell whether it is an object. A store only grows, and no cell changes
  from an object to an array or back.\<close>

definition is_obj_cell :: "cell \<Rightarrow> bool" where
  "is_obj_cell c = (case c of Obj _ \<Rightarrow> True | Arr _ \<Rightarrow> False)"

definition shape :: "cell list \<Rightarrow> bool list" where
  "shape h = map is_obj_cell h"

definition hv_in :: "bool list \<Rightarrow> hv \<Rightarrow> bool" where
  "hv_in sh v = (case v of HRef a \<Rightarrow> a < length sh | _ \<Rightarrow> True)"

definition obj_in :: "bool list \<Rightarrow> hv \<Rightarrow> bool" where
  "obj_in sh v = (case v of HRef a \<Rightarrow> a < length sh \<and> sh ! a | _ \<Rightarrow> False)"

definition arr_in :: "bool list \<Rightarrow> nat \<Rightarrow> bool" where
  "arr_in sh a \<longleftrightarrow> a < length sh \<and> \<not> sh ! a"

definition cell_in :: "bool list \<Rightarrow> cell \<Rightarrow> bool" where
  "cell_in sh c \<longleftrightarrow> (\<forall>(k, v) \<in> set (cell_entries c). hv_in sh v)"

definition store_ok :: "cell list \<Rightarrow> bool" where
  "store_ok h \<longleftrightarrow> (\<forall>c \<in> set h. cell_in (shape h) c)"

lemma hv_in_mono: "hv_in sh v \<Longrightarrow> prefix sh sh' \<Longrightarrow> hv_in sh' v"
  by (auto simp: hv_in_def dest: prefix_length_le split: hv.splits)

lemma obj_in_mono: "obj_in sh v \<Longrightarrow> prefix sh sh' \<Longrightarrow> obj_in sh' v"
  by (auto simp: obj_in_def prefix_def nth_append split: hv.splits)

lemma arr_in_mono: "arr_in sh a \<Longrightarrow> prefix sh sh' \<Longrightarrow> arr_in sh' a"
  by (auto simp: arr_in_def prefix_def nth_append)

lemma cell_in_mono: "cell_in sh c \<Longrightarrow> prefix sh sh' \<Longrightarrow> cell_in sh' c"
  using hv_in_mono by (fastforce simp: cell_in_def)

lemma obj_in_hv: "obj_in sh v \<Longrightarrow> hv_in sh v"
  by (auto simp: obj_in_def hv_in_def split: hv.splits)

lemma hv_in_prim [simp]: "hv_in sh HUndef" "hv_in sh HNull" "hv_in sh (HBool b)" "hv_in sh (HNum n)" "hv_in sh (HStr t)"
  by (simp_all add: hv_in_def)

lemma length_shape [simp]: "length (shape h) = length h"
  by (simp add: shape_def)

lemma shape_append: "shape (h @ h') = shape h @ shape h'"
  by (simp add: shape_def)

lemma shape_nth: "a < length h \<Longrightarrow> shape h ! a = is_obj_cell (h ! a)"
  by (simp add: shape_def)

lemma cell_at_in: "store_ok h \<Longrightarrow> cell_in (shape h) (cell_at h a)"
  by (simp add: store_ok_def cell_at_def) (simp add: cell_in_def cell_entries_def)

lemma cell_in_Arr: "cell_in sh (Arr xs) \<longleftrightarrow> (\<forall>x \<in> set xs. hv_in sh x)"
proof -
  have "(\<exists>k. (k, x) \<in> set (zip (map show_nat [0..<length xs]) xs)) \<longleftrightarrow> x \<in> set xs" for x
    by (auto simp: in_set_conv_nth set_zip)
  then show ?thesis by (auto simp: cell_in_def cell_entries_def)
qed

lemma cell_in_Obj: "cell_in sh (Obj o1) \<longleftrightarrow> (\<forall>(k, v) \<in> set o1. hv_in sh v)"
  by (simp add: cell_in_def cell_entries_def)

lemma hentries_in: "store_ok h \<Longrightarrow> (k, x) \<in> set (hentries h v) \<Longrightarrow> hv_in (shape h) x"
  using cell_at_in [of h] by (auto simp: hentries_def cell_in_def dest!: set_zip_rightD split: hv.splits)

lemma harg_in: "harg o1 k = HUndef \<or> (k, harg o1 k) \<in> set o1"
  by (auto simp: harg_def dest: obj_get_in_set split: option.splits)

lemma hget_entries: "hget h v k = HUndef \<or> (\<exists>n. hget h v k = HNum n) \<or> (k, hget h v k) \<in> set (hentries h v)"
  using harg_in [of "hentries h v" k]
  by (cases v) (auto simp: hget_def hentries_def cell_entries_def split: cell.splits)

lemma hget_in: "store_ok h \<Longrightarrow> hv_in (shape h) (hget h v k)"
  using hget_entries [of h v k] hentries_in by auto

lemma ref_key: "''$ref'' \<noteq> show_nat n"
proof
  assume "''$ref'' = show_nat n"
  then have "CHR ''$'' \<in> set (show_nat n)" by (metis list.set_intros(1))
  from show_nat_digits [OF this] show False by (simp add: is_digit_def)
qed

lemma no_ref_index: "harg (zip (map show_nat ns) xs) ''$ref'' = HUndef"
proof (rule ccontr)
  assume "harg (zip (map show_nat ns) xs) ''$ref'' \<noteq> HUndef"
  then have "''$ref'' \<in> set (map show_nat ns)" using harg_in [of "zip (map show_nat ns) xs" "''$ref''"] by (auto dest: set_zip_leftD)
  then obtain n where "''$ref'' = show_nat n" by auto
  then show False using ref_key by blast
qed

text \<open>Only objects have a property \<open>$ref\<close>.\<close>

lemma hget_ref:
  assumes "hget h v ''$ref'' \<noteq> HUndef" "hv_in (shape h) v"
  shows "obj_in (shape h) v"
proof (cases v)
  case (HRef a)
  show ?thesis
  proof (cases "cell_at h a")
    case (Arr xs)
    then have "hget h v ''$ref'' = HUndef" using HRef no_ref_index by (simp add: hget_def hentries_def cell_entries_def)
    then show ?thesis using assms by simp
  next
    case (Obj o1)
    then show ?thesis using HRef assms(2)
      by (auto simp: obj_in_def hv_in_def shape_nth cell_at_def is_obj_cell_def split: if_splits)
  qed
next
  case (HStr t)
  have "hget h v ''$ref'' = HUndef" using HStr no_ref_index by (simp add: hget_def hentries_def)
  then show ?thesis using assms by simp
qed (use assms in \<open>auto simp: hget_def\<close>)

lemma cell_in_single: "hv_in k v \<Longrightarrow> cell_in k (Obj [(key, v)])"
  by (simp add: cell_in_Obj)

lemma cell_in_Nil [simp]: "cell_in k (Arr [])" "cell_in k (Obj [])"
  by (simp_all add: cell_in_Arr cell_in_Obj)

lemma shape_arr: "store_ok h \<Longrightarrow> hv_in (shape h) (HRef a) \<Longrightarrow> cell_at h a = Arr xs \<Longrightarrow> arr_in (shape h) a \<and> (\<forall>x \<in> set xs. hv_in (shape h) x)"
  using cell_at_in [of h a] by (auto simp: arr_in_def hv_in_def shape_nth cell_at_def is_obj_cell_def cell_in_Arr)

section \<open>Operations that keep a store well-formed\<close>

text \<open>From a state with the invariant whose shape extends \<open>sh\<close>, an operation ends, if it does not throw, in a state with
  the invariant and an extended shape, and its value has the property \<open>P\<close> for that shape.\<close>

definition keeps :: "('x store_scheme \<Rightarrow> bool) \<Rightarrow> bool list \<Rightarrow> (bool list \<Rightarrow> 'a \<Rightarrow> bool) \<Rightarrow> ('x store_scheme, 'a) act \<Rightarrow> bool" where
  "keeps I sh P m \<longleftrightarrow> (\<forall>s a s'. I s \<longrightarrow> prefix sh (shape (heap s)) \<longrightarrow> m s = Inr (a, s') \<longrightarrow>
     I s' \<and> prefix (shape (heap s)) (shape (heap s')) \<and> P (shape (heap s')) a)"

lemma keepsI:
  assumes "\<And>s a s'. I s \<Longrightarrow> prefix sh (shape (heap s)) \<Longrightarrow> m s = Inr (a, s') \<Longrightarrow>
     I s' \<and> prefix (shape (heap s)) (shape (heap s')) \<and> P (shape (heap s')) a"
  shows "keeps I sh P m"
  using assms by (simp add: keeps_def)

lemma keepsD: "keeps I sh P m \<Longrightarrow> I s \<Longrightarrow> prefix sh (shape (heap s)) \<Longrightarrow> m s = Inr (a, s') \<Longrightarrow>
     I s' \<and> prefix (shape (heap s)) (shape (heap s')) \<and> P (shape (heap s')) a"
  by (simp add: keeps_def)

lemma keeps_bind:
  assumes "keeps I sh P m" "\<And>k a. prefix sh k \<Longrightarrow> P k a \<Longrightarrow> keeps I k Q (f a)"
  shows "keeps I sh Q (bindA m f)"
proof (rule keepsI)
  fix s b s'
  assume s: "I s" "prefix sh (shape (heap s))" "bindA m f s = Inr (b, s')"
  then obtain a s1 where m: "m s = Inr (a, s1)" "f a s1 = Inr (b, s')" by (auto simp: bindA_def bindR_Inr_iff)
  note k = keepsD [OF assms(1) s(1,2) m(1)]
  have "keeps I (shape (heap s1)) Q (f a)" using assms(2) [of "shape (heap s1)" a] k s(2) prefix_order.trans by blast
  from keepsD [OF this _ _ m(2)] k show "I s' \<and> prefix (shape (heap s)) (shape (heap s')) \<and> Q (shape (heap s')) b"
    using prefix_order.trans by blast
qed

lemma keeps_then: "keeps I sh P m \<Longrightarrow> (\<And>k. prefix sh k \<Longrightarrow> keeps I k Q n) \<Longrightarrow> keeps I sh Q (thenA m n)"
  unfolding thenA_def by (rule keeps_bind)

lemma keeps_weaken: "keeps I sh P m \<Longrightarrow> (\<And>k a. prefix sh k \<Longrightarrow> P k a \<Longrightarrow> Q k a) \<Longrightarrow> keeps I sh Q m"
  unfolding keeps_def by (meson prefix_order.trans)

lemma keeps_mono: "keeps I sh P m \<Longrightarrow> prefix sh k \<Longrightarrow> keeps I k P m"
  by (auto simp: keeps_def dest: prefix_order.trans)

lemma keeps_ret: "(\<And>k. prefix sh k \<Longrightarrow> P k a) \<Longrightarrow> keeps I sh P (ret a)"
  by (simp add: keeps_def ret_def)

lemma keeps_throw: "keeps I sh P (throw e)"
  by (simp add: keeps_def throw_def)

lemma keeps_liftA: "(\<And>k a. r = Inr a \<Longrightarrow> P k a) \<Longrightarrow> keeps I sh P (liftA r)"
  by (auto simp: keeps_def liftA_def bindR_Inr_iff)

lemma keeps_foldA:
  assumes "\<And>k x a. prefix sh k \<Longrightarrow> x \<in> set xs \<Longrightarrow> P k a \<Longrightarrow> keeps I k P (f x a)" and "P sh a"
    and mono: "\<And>k k' a. P k a \<Longrightarrow> prefix k k' \<Longrightarrow> P k' a"
  shows "keeps I sh P (foldA f xs a)"
  using assms(1,2)
proof (induction xs arbitrary: a sh)
  case Nil
  then show ?case using mono by (auto intro: keeps_ret)
next
  case (Cons x xs)
  show ?case unfolding foldA.simps
  proof (rule keeps_bind)
    show "keeps I sh P (f x a)" using Cons.prems by simp
    fix k b assume k: "prefix sh k" "P k b"
    show "keeps I k P (foldA f xs b)"
      by (rule Cons.IH [OF _ k(2)]) (use Cons.prems(1) k(1) prefix_order.trans in \<open>auto intro: Cons.prems(1)\<close>)
  qed
qed

lemma keeps_eachA: "(\<And>k x. prefix sh k \<Longrightarrow> x \<in> set xs \<Longrightarrow> keeps I k (\<lambda>_ _. True) (f x)) \<Longrightarrow> keeps I sh (\<lambda>_ _. True) (eachA f xs)"
  unfolding eachA_def by (rule keeps_foldA) auto

definition memo_in :: "bool list \<Rightarrow> (nat \<times> hv) list \<Rightarrow> bool" where
  "memo_in sh m \<longleftrightarrow> (\<forall>(a, b) \<in> set m. hv_in sh b)"

lemma memo_in_mono: "memo_in sh m \<Longrightarrow> prefix sh k \<Longrightarrow> memo_in k m"
  by (auto simp: memo_in_def dest: hv_in_mono)

locale store_invariant =
  fixes inv :: "'x store_scheme \<Rightarrow> bool"
  assumes inv_store: "inv s \<Longrightarrow> store_ok (heap s)"
    and inv_heap: "inv s \<Longrightarrow> store_ok h \<Longrightarrow> prefix (shape (heap s)) (shape h) \<Longrightarrow> inv (s\<lparr>heap := h\<rparr>)"
begin

lemma keeps_the_heap: "keeps inv sh (\<lambda>k h. store_ok h \<and> shape h = k) the_heap"
  using inv_store by (auto simp: keeps_def the_heap_def)

lemma keeps_read: "keeps inv sh (\<lambda>k r. hv_in k r \<and> (r \<noteq> HUndef \<and> key = ''$ref'' \<and> hv_in sh v \<longrightarrow> obj_in k v)) (read v key)"
  unfolding read_def
  by (auto intro!: keeps_throw keeps_bind [OF keeps_the_heap] keeps_ret
      intro: hget_in hv_in_mono obj_in_mono hget_ref prefix_order.trans)

lemma keeps_keys_of: "keeps inv sh (\<lambda>_ _. True) (keys_of v)"
  unfolding keys_of_def by (rule keeps_bind [OF keeps_the_heap]) (rule keeps_ret, simp)

lemma keeps_alloc: "(\<And>k. prefix sh k \<Longrightarrow> cell_in k c) \<Longrightarrow>
   keeps inv sh (\<lambda>k r. hv_in k r \<and> (is_obj_cell c \<longrightarrow> obj_in k r)) (alloc c)"
proof (rule keepsI)
  fix s a s'
  assume c: "\<And>k. prefix sh k \<Longrightarrow> cell_in k c" and s: "inv s" "prefix sh (shape (heap s))" "alloc c s = Inr (a, s')"
  let ?h = "heap s @ [c]"
  have p: "prefix (shape (heap s)) (shape ?h)" by (simp add: shape_append)
  have "store_ok ?h" using inv_store [OF s(1)] cell_in_mono [OF _ p] c [OF prefix_order.trans [OF s(2) p]] by (auto simp: store_ok_def)
  from inv_heap [OF s(1) this p] s(3) p show "inv s' \<and> prefix (shape (heap s)) (shape (heap s')) \<and>
      hv_in (shape (heap s')) a \<and> (is_obj_cell c \<longrightarrow> obj_in (shape (heap s')) a)"
    by (auto simp: alloc_def hv_in_def obj_in_def shape_def nth_append)
qed

lemma keeps_change:
  assumes "\<And>k c. prefix sh k \<Longrightarrow> cell_in k c \<Longrightarrow> cell_in k (f c)"
    and "\<And>c. a < length sh \<Longrightarrow> is_obj_cell c = sh ! a \<Longrightarrow> is_obj_cell (f c) = is_obj_cell c"
    and "a < length sh"
  shows "keeps inv sh (\<lambda>_ _. True) (change a f)"
proof (rule keepsI)
  fix s r s'
  assume s: "inv s" "prefix sh (shape (heap s))" "change a f s = Inr (r, s')"
  let ?c = "f (cell_at (heap s) a)"
  let ?h = "(heap s)[a := ?c]"
  have a: "a < length (heap s)" using assms(3) prefix_length_le [OF s(2)] by simp
  then have "is_obj_cell (heap s ! a) = sh ! a"
    using s(2) assms(3) by (metis prefix_def nth_append shape_nth)
  with assms(2) [OF assms(3)] a have "is_obj_cell ?c = is_obj_cell (heap s ! a)" by (simp add: cell_at_def)
  then have sh: "shape ?h = shape (heap s)" using a by (simp add: shape_def map_update) (simp add: list_update_same_conv)
  have "cell_in (shape (heap s)) ?c" using assms(1) [OF s(2)] cell_at_in [OF inv_store [OF s(1)]] by blast
  then have "store_ok ?h" using inv_store [OF s(1)] unfolding store_ok_def sh by (auto dest!: set_update_subset_insert [THEN subsetD])
  from inv_heap [OF s(1) this] s(3) sh show "inv s' \<and> prefix (shape (heap s)) (shape (heap s')) \<and> True" by (auto simp: change_def)
qed

lemma keeps_put: "hv_in sh v \<Longrightarrow> hv_in sh x \<Longrightarrow> keeps inv sh (\<lambda>_ _. True) (put v key x)"
proof (cases v)
  case (HRef a)
  assume v: "hv_in sh v" and x: "hv_in sh x"
  have "keeps inv sh (\<lambda>_ _. True) (change a (cell_put key x))"
  proof (rule keeps_change)
    fix k c assume "prefix sh k" "cell_in k c"
    then show "cell_in k (cell_put key x c)" using hv_in_mono [OF x, of k]
      by (cases c) (auto simp: cell_put_def cell_in_Obj cell_in_Arr cell_entries_def dest!: set_obj_set set_zip_rightD)
  qed (use v HRef in \<open>auto simp: cell_put_def is_obj_cell_def hv_in_def split: cell.splits\<close>)
  then show ?thesis using HRef by (simp add: put_def)
qed (auto simp: put_def intro: keeps_throw)

lemma keeps_del: "hv_in sh v \<Longrightarrow> keeps inv sh (\<lambda>_ _. True) (del v key)"
proof (cases v)
  case (HRef a)
  assume v: "hv_in sh v"
  have "keeps inv sh (\<lambda>_ _. True) (change a (cell_del key))"
    by (rule keeps_change) (use v HRef in \<open>auto simp: cell_del_def obj_del_def cell_in_Obj is_obj_cell_def hv_in_def split: cell.splits\<close>)
  then show ?thesis using HRef by (simp add: del_def)
qed (auto simp: del_def intro: keeps_throw keeps_ret)

lemma keeps_set_array:
  assumes "arr_in sh a" "\<forall>x \<in> set xs. hv_in sh x"
  shows "keeps inv sh (\<lambda>_ _. True) (change a (\<lambda>_. Arr xs))"
  by (rule keeps_change) (use assms in \<open>auto simp: cell_in_Arr arr_in_def is_obj_cell_def dest: hv_in_mono\<close>)

lemma keeps_or_new: "hv_in sh v \<Longrightarrow> (\<And>k. cell_in k c) \<Longrightarrow> keeps inv sh hv_in (or_new v c)"
  unfolding or_new_def using keeps_alloc [of sh c]
  by (auto intro!: keeps_ret dest: hv_in_mono intro: keeps_weaken)

lemma keeps_baseClone:
  "hv_in sh v \<Longrightarrow> memo_in sh m \<Longrightarrow> keeps inv sh (\<lambda>k (w, m'). hv_in k w \<and> memo_in k m') (baseClone n v m)"
proof (induction n arbitrary: v m sh)
  have fresh: "cell_in k (case c of Arr xs \<Rightarrow> Arr (replicate (length xs) HUndef) | Obj _ \<Rightarrow> Obj [])" for k c
    by (cases c) (simp_all add: cell_in_Arr cell_in_Obj)
  {
    case (0 v m sh)
    show ?case
      by (subst baseClone.simps)
         (use 0 in \<open>auto split: hv.splits option.splits intro!: keeps_ret keeps_throw
            simp: memo_in_def dest!: map_of_SomeD dest: hv_in_mono\<close>)
  next
    case (Suc n v m sh)
    show ?case
    proof (cases "\<exists>a. v = HRef a \<and> map_of m a = None")
      case False
      then show ?thesis
        by (subst baseClone.simps)
           (use Suc.prems in \<open>auto split: hv.splits option.splits intro!: keeps_ret simp: memo_in_def dest!: map_of_SomeD dest: hv_in_mono\<close>)
    next
      case True
      then obtain a where a: "v = HRef a" "map_of m a = None" by blast
      have "keeps inv sh (\<lambda>k (w, m'). hv_in k w \<and> memo_in k m')
        (bindA the_heap (\<lambda>h.
         bindA (alloc (case cell_at h a of Arr xs \<Rightarrow> Arr (replicate (length xs) HUndef) | Obj _ \<Rightarrow> Obj [])) (\<lambda>r.
         bindA (foldA (\<lambda>(k, sub) m'. bindA (baseClone n sub m') (\<lambda>(w, m''). thenA (put r k w) (ret m''))) (cell_entries (cell_at h a)) ((a, r) # m)) (\<lambda>m'.
         ret (r, m')))))"
      proof (rule keeps_bind [OF keeps_the_heap], elim conjE)
        fix k h assume k: "prefix sh k" "store_ok h" "shape h = k"
        show "keeps inv k (\<lambda>k (w, m'). hv_in k w \<and> memo_in k m')
          (bindA (alloc (case cell_at h a of Arr xs \<Rightarrow> Arr (replicate (length xs) HUndef) | Obj _ \<Rightarrow> Obj [])) (\<lambda>r.
           bindA (foldA (\<lambda>(k, sub) m'. bindA (baseClone n sub m') (\<lambda>(w, m''). thenA (put r k w) (ret m''))) (cell_entries (cell_at h a)) ((a, r) # m)) (\<lambda>m'.
           ret (r, m'))))"
        proof (rule keeps_bind [OF keeps_alloc [OF fresh]], elim conjE)
          fix k1 r assume k1: "prefix k k1" "hv_in k1 r"
          have m1: "memo_in k1 ((a, r) # m)" using memo_in_mono [OF Suc.prems(2), of k1] k(1) k1 prefix_order.trans
            by (fastforce simp: memo_in_def)
          show "keeps inv k1 (\<lambda>k (w, m'). hv_in k w \<and> memo_in k m')
            (bindA (foldA (\<lambda>(k, sub) m'. bindA (baseClone n sub m') (\<lambda>(w, m''). thenA (put r k w) (ret m''))) (cell_entries (cell_at h a)) ((a, r) # m)) (\<lambda>m'.
             ret (r, m')))"
          proof (rule keeps_bind [OF keeps_foldA [where P = memo_in]])
            fix k2 x m2 assume k2: "prefix k1 k2" "x \<in> set (cell_entries (cell_at h a))" "memo_in k2 m2"
            obtain key sub where x: "x = (key, sub)" by (cases x)
            have "hv_in k2 sub" using cell_at_in [OF k(2), of a] k2(1,2) k(3) k1(1) x hv_in_mono prefix_order.trans by (fastforce simp: cell_in_def)
            note clone = Suc.IH [OF this k2(3)]
            show "keeps inv k2 memo_in ((case x of (k, sub) \<Rightarrow> \<lambda>m'. bindA (baseClone n sub m') (\<lambda>(w, m''). thenA (put r k w) (ret m''))) m2)"
              unfolding x prod.case
              by (rule keeps_bind [OF clone])
                 (use k1(2) k2(1) in \<open>auto intro!: keeps_then [OF keeps_put] keeps_ret dest: memo_in_mono hv_in_mono\<close>)
          qed (use m1 k1(2) in \<open>auto intro!: keeps_ret dest: memo_in_mono hv_in_mono\<close>)
        qed
      qed
      then show ?thesis by (subst baseClone.simps) (simp only: a hv.case option.case nat.case)
    qed
  }
qed

lemma keeps_cloneDeep: "hv_in sh v \<Longrightarrow> keeps inv sh hv_in (cloneDeep n v)"
  unfolding cloneDeep_def
  by (rule keeps_bind [OF keeps_baseClone]) (auto simp: memo_in_def intro!: keeps_ret dest: hv_in_mono)

text \<open>The rules in the form in which the operations of a component use them.\<close>

lemma keeps_bind_heap: "(\<And>h. prefix sh (shape h) \<Longrightarrow> store_ok h \<Longrightarrow> keeps inv (shape h) Q (f h)) \<Longrightarrow> keeps inv sh Q (bindA the_heap f)"
  by (rule keeps_bind [OF keeps_the_heap]) auto

lemma keeps_bind_read: "(\<And>k r. prefix sh k \<Longrightarrow> hv_in k r \<Longrightarrow> r \<noteq> HUndef \<and> key = ''$ref'' \<and> hv_in sh v \<longrightarrow> obj_in k v \<Longrightarrow>
    keeps inv k Q (f r)) \<Longrightarrow> keeps inv sh Q (bindA (read v key) f)"
  by (rule keeps_bind [OF keeps_read]) auto

lemma keeps_bind_keys: "(\<And>k r. prefix sh k \<Longrightarrow> keeps inv k Q (f r)) \<Longrightarrow> keeps inv sh Q (bindA (keys_of v) f)"
  by (rule keeps_bind [OF keeps_keys_of])

lemma keeps_bind_alloc: "(\<And>k. prefix sh k \<Longrightarrow> cell_in k c) \<Longrightarrow>
    (\<And>k r. prefix sh k \<Longrightarrow> hv_in k r \<Longrightarrow> keeps inv k Q (f r)) \<Longrightarrow> keeps inv sh Q (bindA (alloc c) f)"
  by (rule keeps_bind [OF keeps_alloc]) auto

lemma keeps_read_value: "keeps inv sh hv_in (read v key)"
  by (rule keeps_weaken [OF keeps_read]) simp

lemma keeps_then_put: "hv_in sh v \<Longrightarrow> hv_in sh x \<Longrightarrow> (\<And>k. prefix sh k \<Longrightarrow> keeps inv k Q n) \<Longrightarrow> keeps inv sh Q (thenA (put v key x) n)"
  by (rule keeps_then [OF keeps_put])

lemma keeps_then_del: "hv_in sh v \<Longrightarrow> (\<And>k. prefix sh k \<Longrightarrow> keeps inv k Q n) \<Longrightarrow> keeps inv sh Q (thenA (del v key) n)"
  by (rule keeps_then [OF keeps_del])

lemma keeps_property: "(\<And>k v. prefix sh k \<Longrightarrow> hv_in k v \<Longrightarrow> keeps inv k hv_in (f v)) \<Longrightarrow>
    (\<And>k v. prefix sh k \<Longrightarrow> hv_in k v \<Longrightarrow> keeps inv k Q (g v)) \<Longrightarrow> keeps inv sh Q (bindA (bindA (read v key) f) g)"
  by (rule keeps_bind [OF keeps_bind [OF keeps_read_value]])

end

lemma keeps_if: "(b \<Longrightarrow> keeps I sh P m) \<Longrightarrow> (\<not> b \<Longrightarrow> keeps I sh P n) \<Longrightarrow> keeps I sh P (if b then m else n)"
  by simp

lemma keeps_case_str: "(\<And>t. r = HStr t \<Longrightarrow> keeps I sh P (f t)) \<Longrightarrow> keeps I sh P m \<Longrightarrow>
    keeps I sh P (case r of HStr t \<Rightarrow> f t | _ \<Rightarrow> m)"
  by (cases r) auto

lemma keeps_case_ref: "(\<And>a. r = HRef a \<Longrightarrow> keeps I sh P (f a)) \<Longrightarrow> keeps I sh P m \<Longrightarrow>
    keeps I sh P (case r of HRef a \<Rightarrow> f a | _ \<Rightarrow> m)"
  by (cases r) auto

lemma keeps_case_cell: "(\<And>xs. c = Arr xs \<Longrightarrow> keeps I sh P (f xs)) \<Longrightarrow> (\<And>o1. c = Obj o1 \<Longrightarrow> keeps I sh P (g o1)) \<Longrightarrow>
    keeps I sh P (case c of Arr xs \<Rightarrow> f xs | Obj o1 \<Rightarrow> g o1)"
  by (cases c) auto

lemmas keeps_cases = keeps_if keeps_case_str keeps_case_ref keeps_case_cell

interpretation plain_store: store_invariant "\<lambda>s. store_ok (heap s)"
  by unfold_locales simp_all

section \<open>Runs that do not throw\<close>

definition runs :: "('s, 'a) act \<Rightarrow> 's \<Rightarrow> ('a \<Rightarrow> 's \<Rightarrow> bool) \<Rightarrow> bool" where
  "runs m s Q \<longleftrightarrow> (\<exists>a s'. m s = Inr (a, s') \<and> Q a s')"

lemma runs_bind: "runs m s (\<lambda>a s'. runs (f a) s' Q) \<Longrightarrow> runs (bindA m f) s Q"
  by (auto simp: runs_def bindA_def)

lemma runs_then: "runs m s (\<lambda>_ s'. runs n s' Q) \<Longrightarrow> runs (thenA m n) s Q"
  unfolding thenA_def by (rule runs_bind)

lemma runs_ret: "Q a s \<Longrightarrow> runs (ret a) s Q"
  by (simp add: runs_def)

lemma runs_weaken: "runs m s P \<Longrightarrow> (\<And>a s'. P a s' \<Longrightarrow> Q a s') \<Longrightarrow> runs m s Q"
  by (auto simp: runs_def)

lemma runs_read: "\<not> nullish v \<Longrightarrow> Q (hget (heap s) v k) s \<Longrightarrow> runs (read v k) s Q"
  by (simp add: runs_def read_def bindA_def the_heap_def ret_def)

lemma runs_put: "Q () (s\<lparr>heap := (heap s)[a := cell_put k x (cell_at (heap s) a)]\<rparr>) \<Longrightarrow> runs (put (HRef a) k x) s Q"
  by (simp add: runs_def put_def change_def)

lemma runs_del: "Q () (s\<lparr>heap := (heap s)[a := cell_del k (cell_at (heap s) a)]\<rparr>) \<Longrightarrow> runs (del (HRef a) k) s Q"
  by (simp add: runs_def del_def change_def)

lemma runs_alloc: "Q (HRef (length (heap s))) (s\<lparr>heap := heap s @ [c]\<rparr>) \<Longrightarrow> runs (alloc c) s Q"
  by (simp add: runs_def alloc_def)

lemma runs_keys: "Q (obj_keys (hentries (heap s) v)) s \<Longrightarrow> runs (keys_of v) s Q"
  by (simp add: runs_def keys_of_def bindA_def the_heap_def ret_def)

lemma runs_foldA:
  assumes "\<And>past x a s. set past \<subseteq> set xs \<Longrightarrow> x \<in> set xs \<Longrightarrow> I past a s \<Longrightarrow> runs (f x a) s (I (past @ [x]))" and "I [] a s"
  shows "runs (foldA f xs a) s (I xs)"
proof -
  have "set past \<union> set ys \<subseteq> set xs \<Longrightarrow> I past a s \<Longrightarrow> runs (foldA f ys a) s (I (past @ ys))" for past ys a s
  proof (induction ys arbitrary: past a s)
    case Nil
    then show ?case by (simp add: runs_ret)
  next
    case (Cons y ys)
    show ?case unfolding foldA.simps
    proof (rule runs_bind, rule runs_weaken)
      show "runs (f y a) s (I (past @ [y]))" using assms(1) Cons.prems by simp
      fix b s' assume "I (past @ [y]) b s'"
      from Cons.IH [OF _ this] Cons.prems(1) show "runs (foldA f ys b) s' (I (past @ y # ys))" by simp
    qed
  qed
  from this [of "[]" xs] assms(2) show ?thesis by simp
qed

lemma runs_eachA:
  assumes "\<And>past x s. set past \<subseteq> set xs \<Longrightarrow> x \<in> set xs \<Longrightarrow> I past s \<Longrightarrow> runs (f x) s (\<lambda>_. I (past @ [x]))" and "I [] s"
  shows "runs (eachA f xs) s (\<lambda>_. I xs)"
  unfolding eachA_def using assms by (intro runs_foldA [where I = "\<lambda>d _. I d"]) auto

text \<open>Only the cell at \<open>a\<close> has changed, and new cells have been added.\<close>

definition only_at :: "nat \<Rightarrow> cell list \<Rightarrow> cell list \<Rightarrow> bool" where
  "only_at a h h' \<longleftrightarrow> length h \<le> length h' \<and> (\<forall>b < length h. b \<noteq> a \<longrightarrow> h' ! b = h ! b) \<and> (a < length h \<longrightarrow> is_obj_cell (h' ! a) = is_obj_cell (h ! a))"

lemma is_obj_put [simp]: "is_obj_cell (cell_put k x c) = is_obj_cell c" "is_obj_cell (cell_del k c) = is_obj_cell c"
  by (cases c, simp_all add: cell_put_def cell_del_def is_obj_cell_def)+

lemma only_at_put: "only_at a h h' \<Longrightarrow> only_at a h (h'[a := cell_put k x (cell_at h' a)])"
  by (auto simp: only_at_def cell_at_def)

lemma only_at_del: "only_at a h h' \<Longrightarrow> only_at a h (h'[a := cell_del k (cell_at h' a)])"
  by (auto simp: only_at_def cell_at_def)

lemma runs_put_only: "only_at a h (heap s) \<Longrightarrow> (\<And>s'. only_at a h (heap s') \<Longrightarrow> Q () s') \<Longrightarrow> runs (put (HRef a) k x) s Q"
  using only_at_put by (intro runs_put) simp

lemma runs_del_only: "only_at a h (heap s) \<Longrightarrow> (\<And>s'. only_at a h (heap s') \<Longrightarrow> Q () s') \<Longrightarrow> runs (del (HRef a) k) s Q"
  using only_at_del by (intro runs_del) simp

lemma runs_alloc_only: "only_at a h (heap s) \<Longrightarrow> (\<And>r s'. only_at a h (heap s') \<Longrightarrow> Q r s') \<Longrightarrow> runs (alloc c) s Q"
  by (intro runs_alloc) (simp add: only_at_def nth_append)

lemma only_at_refl: "only_at a h h"
  by (simp add: only_at_def)

lemma hget_obj: "a < length h \<Longrightarrow> h ! a = Obj o1 \<Longrightarrow> hget h (HRef a) k = harg o1 k"
  by (simp add: hget_def cell_at_def)

lemma is_obj_cellE: "is_obj_cell c \<Longrightarrow> (\<And>o1. c = Obj o1 \<Longrightarrow> P) \<Longrightarrow> P"
  by (cases c) (auto simp: is_obj_cell_def)

lemma harg_set: "harg (obj_set k x o1) k' = (if k' = k then x else harg o1 k')"
  by (simp add: harg_def)

lemma hget_only_at: "only_at a h h' \<Longrightarrow> b < length h \<Longrightarrow> b \<noteq> a \<Longrightarrow> is_obj_cell (h ! b) \<Longrightarrow> hget h' (HRef b) k = hget h (HRef b) k"
  by (auto simp: only_at_def hget_def cell_at_def elim!: is_obj_cellE)

text \<open>An array of the store, with its elements.\<close>

definition has_array :: "cell list \<Rightarrow> hv \<Rightarrow> hv list \<Rightarrow> bool" where
  "has_array h v xs \<longleftrightarrow> (case v of HRef a \<Rightarrow> a < length h \<and> h ! a = Arr xs | _ \<Rightarrow> False)"

lemma harg_index: "i < length xs \<Longrightarrow> harg (zip (map show_nat [0..<length xs]) xs) (show_nat i) = xs ! i"
proof -
  assume i: "i < length xs"
  have d: "distinct (map show_nat [0..<length xs])" using show_nat_inj by (auto simp: distinct_map inj_on_def)
  have "(show_nat i, xs ! i) \<in> set (zip (map show_nat [0..<length xs]) xs)" using i by (auto simp: set_zip intro!: exI [of _ i])
  then show ?thesis using map_of_eq_Some_iff [of "zip (map show_nat [0..<length xs]) xs"] d by (simp add: harg_def obj_get_def)
qed

lemma length_key: "show_nat i \<noteq> ''length''"
proof
  assume "show_nat i = ''length''"
  then have "CHR ''l'' \<in> set (show_nat i)" by simp
  from show_nat_digits [OF this] show False by (simp add: is_digit_def)
qed

end
