(* ===== verification/Resolver_Store.thy ===== *)
theory Resolver_Store
  imports Resolver_Requests JS_Store
begin

text \<open>
  Searching a document and replacing its references in place (module 6 of \<open>swagger-ui.js\<close>: the first part of
  \<open>Resolver.resolve\<close>, \<open>processAllOf\<close>, \<open>resolveItem\<close>, \<open>finish\<close>). The objects of a document are shared: the parameters of a
  path are put into each of its operations, the entries of the resolution table refer to the objects they came from,
  and a resolved object is put in place of every reference to it. So the document lies in a store, and the entries of
  the table have the address of their object. A reference (\<open>$ref\<close>) that is an array is not modelled, nor is a document
  without a url.
\<close>

section \<open>The state\<close>

record item =
  entry :: table_entry
  i_obj :: nat

record rstate = store +
  queue :: "item list"

text \<open>What stays the same during a run: how the engine sorts an array by a comparison function, the depth of its
  stack, the url of the document and its address. The order that \<open>sort\<close> gives is that of the engine where the
  comparison is not consistent.\<close>

record renv =
  sort_by :: "(hv \<Rightarrow> hv \<Rightarrow> int) \<Rightarrow> hv list \<Rightarrow> hv list"
  depth :: nat
  root_url :: string
  spec_at :: hv

definition enqueue :: "table_entry \<Rightarrow> hv \<Rightarrow> (rstate, unit) act" where
  "enqueue e v s = (case v of HRef a \<Rightarrow> Inr ((), s\<lparr>queue := queue s @ [\<lparr>entry = e, i_obj = a\<rparr>]\<rparr>) | _ \<Rightarrow> Inr ((), s))"

section \<open>Names\<close>

interpretation list_names: numbered_names base "\<lambda>k. k \<in> set names" for base names
  by unfold_locales simp

function free_from :: "string list \<Rightarrow> string \<Rightarrow> nat \<Rightarrow> string" where
  "free_from names base n =
     (if numbered base n \<in> set names then free_from names base (n + 1) else numbered base n)"
  by pat_completeness auto
termination
  using list_names.card_from_less
  by (relation "measure (\<lambda>(names, base, n). card {k. n \<le> k \<and> numbered base k \<in> set names})") auto

declare free_from.simps [simp del]

definition free_name :: "string list \<Rightarrow> string \<Rightarrow> string" where
  "free_name names base = (if base \<in> set names then free_from names base 0 else base)"

definition the_definitions :: "renv \<Rightarrow> ('x store_scheme, hv) act" where
  "the_definitions E = bindA (read (spec_at E) ''definitions'') (\<lambda>d. if nullish d then throw null_error else ret d)"

text \<open>\<open>uniqueName\<close>: the names of definitions that are objects are taken.\<close>

definition uniqueName_h :: "renv \<Rightarrow> string \<Rightarrow> ('x store_scheme, string) act" where
  "uniqueName_h E base = bindA (the_definitions E) (\<lambda>d. bindA the_heap (\<lambda>h.
     ret (free_name (map fst (filter (\<lambda>(k, v). is_ref v) (hentries h d))) base)))"

text \<open>The loops that look for \<open>inline_model\<close>: here every name that is defined at all is taken.\<close>

definition inline_model_name :: "renv \<Rightarrow> ('x store_scheme, string) act" where
  "inline_model_name E = bindA (the_definitions E) (\<lambda>d. bindA the_heap (\<lambda>h.
     ret (free_name (map fst (filter (\<lambda>(k, v). v \<noteq> HUndef) (hentries h d))) ''inline_model'')))"

section \<open>Queueing references\<close>

definition definition_ref :: "string \<Rightarrow> hv" where
  "definition_ref name = HStr (''#/definitions/'' @ name)"

definition name_inline_h :: "renv \<Rightarrow> hv \<Rightarrow> ('x store_scheme, unit) act" where
  "name_inline_h E p =
     bindA (read p ''title'') (\<lambda>title. bindA the_heap (\<lambda>h.
     bindA (uniqueName_h E (if htruthy title then hstr (depth E) h title else ''inline_model'')) (\<lambda>name.
     thenA (del p ''title'')
     (bindA (cloneDeep (depth E) p) (\<lambda>copy.
      bindA (the_definitions E) (\<lambda>d.
      thenA (put d name copy)
     (thenA (put p ''$ref'' (definition_ref name))
     (thenA (del p ''type'')
            (del p ''properties'')))))))))"

fun resolveTo_h :: "nat \<Rightarrow> renv \<Rightarrow> hv \<Rightarrow> (rstate, unit) act" where
  "resolveTo_h n E p =
     bindA (read p ''$ref'') (\<lambda>r.
       if \<not> nullish r then (case r of HStr ref \<Rightarrow> enqueue (ref_entry (root_url E) ref) p | _ \<Rightarrow> throw (no_method ''indexOf''))
       else bindA (read p ''type'') (\<lambda>t.
         if t = HStr ''array'' then
           bindA (read p ''items'') (\<lambda>items. case n of 0 \<Rightarrow> throw stack_error | Suc n' \<Rightarrow> resolveTo_h n' E items)
         else bindA (read p ''properties'') (\<lambda>ps. bindA (read p ''additionalProperties'') (\<lambda>aps.
           if htruthy ps \<or> htruthy aps then name_inline_h E p else ret ()))))"

declare resolveTo_h.simps [simp del]

definition resolveInline_h :: "renv \<Rightarrow> hv \<Rightarrow> jsv \<Rightarrow> (rstate, unit) act" where
  "resolveInline_h E p location =
     bindA (read p ''$ref'') (\<lambda>r.
       if htruthy r then
         (case r of
            HStr key \<Rightarrow> bindA (liftA (inline_entry (root_url E) key location)) (\<lambda>e. enqueue e p)
          | _ \<Rightarrow> throw (no_method ''indexOf''))
       else bindA (read p ''type'') (\<lambda>t.
         if t = HStr ''array'' then bindA (read p ''items'') (resolveTo_h (depth E) E) else ret ()))"

section \<open>Composed models\<close>

definition has_ref :: "cell list \<Rightarrow> hv \<Rightarrow> bool" where
  "has_ref h v = htruthy (hget h v ''$ref'')"

definition refs_first :: "cell list \<Rightarrow> hv \<Rightarrow> hv \<Rightarrow> int" where
  "refs_first h a b = (if has_ref h a \<and> has_ref h b then 0 else if has_ref h a then -1 else 1)"

definition processAllOf :: "renv \<Rightarrow> string \<Rightarrow> hv \<Rightarrow> (rstate, unit) act" where
  "processAllOf E name d =
     bindA (alloc (Arr [definition_ref name])) (\<lambda>source.
     thenA (put d ''x-resolved-from'' source)
     (bindA (read d ''allOf'') (\<lambda>allOf. bindA the_heap (\<lambda>h.
        case allOf of
          HRef a \<Rightarrow>
            (case cell_at h a of
               Arr xs \<Rightarrow>
                 let ys = sort_by E (refs_first h) xs
                 in thenA (change a (\<lambda>_. Arr ys))
                      (eachA (\<lambda>p. resolveInline_h E p (JStr (''/definitions/'' @ name @ ''/allOf''))) ys)
             | Obj _ \<Rightarrow> throw (no_method ''sort''))
        | _ \<Rightarrow> if nullish allOf then throw null_error else throw (no_method ''sort'')))))"

text \<open>A schema that is composed becomes a definition, which it then refers to. The result is the name.\<close>

definition move_allOf :: "renv \<Rightarrow> hv \<Rightarrow> bool \<Rightarrow> (rstate, string) act" where
  "move_allOf E schema with_type =
     bindA (inline_model_name E) (\<lambda>name.
     bindA (read schema ''allOf'') (\<lambda>allOf.
     bindA (alloc (Obj [(''allOf'', allOf)])) (\<lambda>d.
     bindA (the_definitions E) (\<lambda>defs.
     thenA (put defs name d)
    (thenA (del schema ''allOf'')
    (thenA (if with_type then del schema ''type'' else ret ())
    (thenA (put schema ''$ref'' (definition_ref name))
    (thenA (processAllOf E name d)
           (ret name)))))))))"

section \<open>Searching the document\<close>

definition visit_property :: "renv \<Rightarrow> string \<Rightarrow> hv \<Rightarrow> (rstate, unit) act" where
  "visit_property E name p =
     bindA (read p ''allOf'') (\<lambda>a. bindA the_heap (\<lambda>h.
       if is_arr h a then processAllOf E name p else resolveTo_h (depth E) E p))"

text \<open>A definition that is a reference is passed as its own location, of which only matters that it is not a string.\<close>

definition visit_definition :: "renv \<Rightarrow> hv \<Rightarrow> string \<Rightarrow> (rstate, unit) act" where
  "visit_definition E defs name =
     bindA (read defs name) (\<lambda>d.
     bindA (read d ''$ref'') (\<lambda>r.
       if htruthy r then resolveInline_h E d (JObj [])
       else
         bindA (bindA (read d ''properties'') keys_of) (\<lambda>ks.
         thenA (eachA (\<lambda>k. bindA (read d ''properties'') (\<lambda>ps. bindA (read ps k) (visit_property E name))) ks)
         (bindA (read d ''allOf'') (\<lambda>a. if htruthy a then processAllOf E name d else ret ())))))"

text \<open>The values that are used as the location of a reference.\<close>

definition as_location :: "hv \<Rightarrow> jsv" where
  "as_location v = (case v of HUndef \<Rightarrow> JUndef | HNull \<Rightarrow> JNull | HBool b \<Rightarrow> JBool b | HNum i \<Rightarrow> JNum i | HStr s \<Rightarrow> JStr s | HRef _ \<Rightarrow> JObj [])"

text \<open>A parameter, of a path or of the document. The variable \<open>name\<close> of the loop over the paths is overwritten by the
  name of an inline model.\<close>

definition visit_parameter :: "renv \<Rightarrow> string \<Rightarrow> hv \<Rightarrow> (rstate, string) act" where
  "visit_parameter E name p =
     bindA (read p ''in'') (\<lambda>i.
     bindA (if i = HStr ''body'' then read p ''schema'' else ret HUndef) (\<lambda>schema.
     bindA (if htruthy schema then
              bindA (read schema ''allOf'') (\<lambda>a. bindA the_heap (\<lambda>h.
                if is_arr h a then move_allOf E schema False else thenA (resolveTo_h (depth E) E schema) (ret name)))
            else ret name) (\<lambda>name'.
     bindA (read p ''$ref'') (\<lambda>r.
       if htruthy r then thenA (resolveInline_h E p (as_location r)) (ret name') else ret name'))))"

definition visit_response :: "renv \<Rightarrow> string \<Rightarrow> string \<Rightarrow> string \<Rightarrow> hv \<Rightarrow> (rstate, string) act" where
  "visit_response E method responseCode name response =
     (if is_ref response then
        let location = JStr (''/paths'' @ name @ ''/'' @ method @ ''/responses/'' @ responseCode)
        in bindA (read response ''$ref'') (\<lambda>r.
           thenA (if htruthy r then resolveInline_h E response location else ret ())
           (bindA (read response ''schema'') (\<lambda>schema.
              if htruthy schema then
                bindA (read schema ''allOf'') (\<lambda>a. bindA the_heap (\<lambda>h.
                  if is_arr h a then move_allOf E schema True
                  else bindA (read schema ''type'') (\<lambda>t.
                    thenA (if t = HStr ''array'' then
                             bindA (read schema ''items'') (\<lambda>items.
                               if htruthy items then
                                 bindA (read items ''$ref'') (\<lambda>ir. if htruthy ir then resolveInline_h E items location else ret ())
                               else ret ())
                           else resolveTo_h (depth E) E schema)
                      (ret name))))
              else ret name)))
      else ret name)"

text \<open>\<open>shared.forEach(function(p) { params.unshift(p); })\<close>: the number of calls is fixed at the beginning.\<close>

definition unshift_all :: "hv \<Rightarrow> hv \<Rightarrow> ('x store_scheme, unit) act" where
  "unshift_all shared params = bindA the_heap (\<lambda>h.
     case shared of
       HRef a \<Rightarrow>
         (case cell_at h a of
            Arr xs \<Rightarrow>
              eachA (\<lambda>i. bindA (read shared (show_nat i)) (\<lambda>p. bindA the_heap (\<lambda>h'.
                case params of
                  HRef b \<Rightarrow> (case cell_at h' b of Arr ys \<Rightarrow> change b (\<lambda>_. Arr (p # ys)) | Obj _ \<Rightarrow> throw (no_method ''unshift''))
                | _ \<Rightarrow> throw (no_method ''unshift'')))) [0..<length xs]
          | Obj _ \<Rightarrow> throw (no_method ''forEach''))
     | _ \<Rightarrow> throw (no_method ''forEach''))"

text \<open>The parameters of an operation together with those of its path.\<close>

definition merge_parameters :: "hv \<Rightarrow> string \<Rightarrow> hv \<Rightarrow> ('x store_scheme, hv) act" where
  "merge_parameters path method operation =
     bindA (bindA (read path ''parameters'') (\<lambda>v. or_new v (Arr []))) (\<lambda>shared.
     bindA (bindA (read operation ''parameters'') (\<lambda>v. or_new v (Arr []))) (\<lambda>params.
     thenA (unshift_all shared params)
     (thenA (if method \<noteq> ''parameters'' \<and> is_ref operation then put operation ''parameters'' params else ret ())
     (ret params))))"

definition visit_operation :: "renv \<Rightarrow> hv \<Rightarrow> string \<Rightarrow> string \<Rightarrow> (rstate, string) act" where
  "visit_operation E path method name =
     bindA (read path method) (\<lambda>operation.
     bindA (merge_parameters path method operation) (\<lambda>params.
     bindA (keys_of params) (\<lambda>ixs.
     bindA (foldA (\<lambda>i nm. bindA (read params i) (visit_parameter E nm)) ixs name) (\<lambda>name'.
     bindA (read operation ''responses'') (\<lambda>rs.
     bindA (keys_of rs) (\<lambda>codes.
     foldA (\<lambda>c nm. bindA (read rs c) (visit_response E method c nm)) codes name'))))))"

definition visit_path :: "renv \<Rightarrow> hv \<Rightarrow> string \<Rightarrow> (rstate, unit) act" where
  "visit_path E paths name =
     bindA (read paths name) (\<lambda>path.
       if is_ref path \<or> path = HNull then
         bindA (keys_of path) (\<lambda>methods.
         thenA (foldA (\<lambda>method nm.
             if method = ''$ref'' then thenA (resolveInline_h E path (JStr (''/paths'' @ nm))) (ret nm)
             else visit_operation E path method nm) methods name)
         (bindA (alloc (Arr [])) (put path ''parameters'')))
       else ret ())"

definition search_definitions :: "renv \<Rightarrow> (rstate, unit) act" where
  "search_definitions E =
     bindA (bindA (read (spec_at E) ''definitions'') (\<lambda>v. or_new v (Obj []))) (\<lambda>defs.
     thenA (put (spec_at E) ''definitions'' defs)
     (bindA (keys_of defs) (eachA (visit_definition E defs))))"

definition search_parameters :: "renv \<Rightarrow> (rstate, unit) act" where
  "search_parameters E =
     bindA (bindA (read (spec_at E) ''parameters'') (\<lambda>v. or_new v (Obj []))) (\<lambda>ps.
     thenA (put (spec_at E) ''parameters'' ps)
     (bindA (keys_of ps) (eachA (\<lambda>name. bindA (read ps name) (\<lambda>p. thenA (visit_parameter E name p) (ret ()))))))"

definition search_paths :: "renv \<Rightarrow> (rstate, unit) act" where
  "search_paths E =
     bindA (read (spec_at E) ''paths'') (\<lambda>paths. bindA (keys_of paths) (eachA (visit_path E paths)))"

definition search_document :: "renv \<Rightarrow> (rstate, unit) act" where
  "search_document E = thenA (search_definitions E) (thenA (search_parameters E) (search_paths E))"

section \<open>Looking up a reference\<close>

fun follow_h :: "cell list \<Rightarrow> bool \<Rightarrow> string list \<Rightarrow> hv \<Rightarrow> hv" where
  "follow_h h several [] location = location"
| "follow_h h several (p # ps) location =
     (let segment = unescape_segment p
      in if nullish location then location
         else if segment = [] \<and> ps = [] \<and> several then HNull
         else follow_h h several ps (if segment \<noteq> [] then hget h location segment else location))"

record resolved_ref =
  r_name :: string
  r_obj :: hv

definition resolved_name :: "string \<Rightarrow> string" where
  "resolved_name key =
     (let name = last (split_char CHR ''/'' key) in if CHR ''#'' \<in> set name then split_char CHR ''#'' name ! 1 else name)"

text \<open>\<open>resolveItem\<close> in the document at an address; the entries without a result are left out here.\<close>

definition resolveItem_h :: "cell list \<Rightarrow> hv \<Rightarrow> table_entry \<Rightarrow> resolved_ref obj \<Rightarrow> resolved_ref obj result" where
  "resolveItem_h h doc e resolved = (case e_location e of
      JStr path \<Rightarrow>
        (let parts = split_char CHR ''/'' path;
             location = (if path \<noteq> [] then follow_h h (length parts > 1) parts doc else doc)
         in Inr (if nullish location then resolved
                 else obj_set (e_key e) \<lparr>r_name = resolved_name (e_key e), r_obj = location\<rparr> resolved))
    | JUndef \<Rightarrow> Inl null_error
    | JNull \<Rightarrow> Inl null_error
    | _ \<Rightarrow> Inl (no_method ''split''))"

section \<open>Replacing references\<close>

fun retainRoot_h :: "nat \<Rightarrow> string \<Rightarrow> string \<Rightarrow> hv \<Rightarrow> ('x store_scheme, hv) act" where
  "retainRoot_h n origKey root v = (case v of
      HRef a \<Rightarrow>
        (case n of
           0 \<Rightarrow> throw stack_error
         | Suc n' \<Rightarrow>
             thenA (bindA (keys_of v) (eachA (\<lambda>key. bindA (read v key) (\<lambda>item.
               case item of
                 HStr s \<Rightarrow> if key = ''$ref'' then put v key (HStr (joinUrl root s)) else ret ()
               | HRef _ \<Rightarrow> thenA (retainRoot_h n' key root item) (ret ())
               | _ \<Rightarrow> ret ())))) (ret v))
    | HStr s \<Rightarrow> if origKey = ''$ref'' then ret (HStr (joinUrl root s)) else ret v
    | _ \<Rightarrow> ret v)"

declare retainRoot_h.simps [simp del]

text \<open>The value of a property, with absolute references unless it was found in the document itself.\<close>

definition retained :: "renv \<Rightarrow> bool \<Rightarrow> string \<Rightarrow> hv \<Rightarrow> string \<Rightarrow> ('x store_scheme, hv) act" where
  "retained E localResolve root v key =
     bindA (read v key) (\<lambda>x. if localResolve then ret x else retainRoot_h (depth E) key root x)"

definition ensure_definitions :: "renv \<Rightarrow> ('x store_scheme, hv) act" where
  "ensure_definitions E =
     bindA (bindA (read (spec_at E) ''definitions'') (\<lambda>v. or_new v (Obj []))) (\<lambda>defs.
     thenA (put (spec_at E) ''definitions'' defs) (ret defs))"

definition finish_ref :: "renv \<Rightarrow> bool \<Rightarrow> item \<Rightarrow> resolved_ref \<Rightarrow> hv \<Rightarrow> ('x store_scheme, unit) act" where
  "finish_ref E localResolve it r defs =
     thenA (if localResolve then ret ()
            else bindA (keys_of (r_obj r)) (eachA (\<lambda>key.
                   bindA (retained E False (e_root (entry it)) (r_obj r) key) (put (r_obj r) key))))
    (thenA (put defs (r_name r) (r_obj r))
           (put (HRef (i_obj it)) ''$ref'' (definition_ref (r_name r))))"

definition finish_inline :: "renv \<Rightarrow> bool \<Rightarrow> item \<Rightarrow> resolved_ref \<Rightarrow> ('x store_scheme, unit) act" where
  "finish_inline E localResolve it r =
     (let target = HRef (i_obj it)
      in bindA (alloc (Arr [HStr (e_key (entry it))])) (\<lambda>source.
         thenA (put target ''x-resolved-from'' source)
        (thenA (del target ''$ref'')
        (bindA (keys_of (r_obj r)) (eachA (\<lambda>key.
           bindA (retained E localResolve (e_root (entry it)) (r_obj r) key) (put target key)))))))"

definition finish_item :: "renv \<Rightarrow> bool \<Rightarrow> resolved_ref obj \<Rightarrow> item \<Rightarrow> ('x store_scheme, unit) act" where
  "finish_item E localResolve resolved it =
     (case obj_get resolved (e_key (entry it)) of
        None \<Rightarrow> ret ()
      | Some r \<Rightarrow>
          bindA (ensure_definitions E) (\<lambda>defs.
            case resolveAs (entry it) of
              AsRef \<Rightarrow> finish_ref E localResolve it r defs
            | AsInline \<Rightarrow> finish_inline E localResolve it r))"

section \<open>Counting what is left\<close>

fun getRefs_h :: "nat \<Rightarrow> cell list \<Rightarrow> hv \<Rightarrow> unit obj result" where
  "getRefs_h n h v = foldR (\<lambda>(key, item) out.
       case item of
         HStr s \<Rightarrow> Inr (if key = ''$ref'' then obj_set s () out else out)
       | HRef _ \<Rightarrow> (case n of 0 \<Rightarrow> Inl stack_error | Suc n' \<Rightarrow> bindR (getRefs_h n' h item) (\<lambda>o2. Inr (obj_copy o2 out)))
       | _ \<Rightarrow> Inr out) (hentries h v) []"

declare getRefs_h.simps [simp del]

fun walk_h :: "cell list \<Rightarrow> string list \<Rightarrow> hv \<Rightarrow> bool result" where
  "walk_h h [] v = Inr True"
| "walk_h h (key # ks) v =
     (if key = [] then walk_h h ks v
      else if nullish v then Inl null_error
      else if hget h v key = HUndef then Inr False
      else walk_h h ks (hget h v key))"

definition countUnresolvedRefs_h :: "nat \<Rightarrow> cell list \<Rightarrow> hv \<Rightarrow> nat result" where
  "countUnresolvedRefs_h n h spec =
     bindR (getRefs_h n h spec) (\<lambda>found.
       let refs = obj_keys found;
           local = filter (starts_with ''#'') refs; others = filter (\<lambda>r. \<not> starts_with ''#'' r) refs
       in foldR (\<lambda>r k. bindR (walk_h h (split_char CHR ''/'' (drop 1 r)) spec) (\<lambda>ok. Inr (if ok then k else k + 1)))
            local (length others))"

text \<open>The result tells whether the callback is called; otherwise the document is searched again.\<close>

definition finish_h :: "renv \<Rightarrow> nat \<Rightarrow> bool \<Rightarrow> resolved_ref obj \<Rightarrow> (rstate, bool) act" where
  "finish_h E iteration localResolve resolved =
     bindA (\<lambda>s. Inr (queue s, s)) (\<lambda>items.
     thenA (eachA (finish_item E localResolve resolved) items)
     (bindA the_heap (\<lambda>h.
      bindA (liftA (countUnresolvedRefs_h (depth E) h (spec_at E))) (\<lambda>existing.
      ret (existing = 0 \<or> iteration > 5)))))"

section \<open>Rounds\<close>

text \<open>A round of \<open>resolve\<close> in which every request is answered, in the order of the entries: \<open>docs\<close> has the addresses of
  the documents that can be fetched, and the other urls fail. The lookups that need no request are done at once, so
  that \<open>finish\<close> gets its flag for local lookups only if no request is made and the last entry is local. The results of
  lookups in other orders, and of lookups that are not answered, are the subject of \<open>Resolver_Requests\<close>. The choice of
  the entries, which need not end, reads the document; it has no cycle then, for counting the references at the end
  of the round before has passed through all of it.\<close>

definition is_local :: "renv \<Rightarrow> table_entry \<Rightarrow> bool" where
  "is_local E e \<longleftrightarrow> e_root e = [] \<or> e_root e = root_url E"

definition look_up_h :: "renv \<Rightarrow> hv obj \<Rightarrow> string list \<Rightarrow> cell list \<Rightarrow> table_entry \<Rightarrow> resolved_ref obj \<Rightarrow> resolved_ref obj result" where
  "look_up_h E docs failed h e resolved =
     (if is_local E e then resolveItem_h h (spec_at E) e resolved
      else if e_root e \<in> set failed then Inr resolved
      else case obj_get docs (e_root e) of None \<Rightarrow> Inr resolved | Some doc \<Rightarrow> resolveItem_h h doc e resolved)"

definition local_flag :: "renv \<Rightarrow> string list \<Rightarrow> table_entry list \<Rightarrow> bool" where
  "local_flag E failed items \<longleftrightarrow>
     items \<noteq> [] \<and> list_all (\<lambda>e. is_local E e \<or> e_root e \<in> set failed) items \<and> is_local E (last items)"

definition failing :: "renv \<Rightarrow> hv obj \<Rightarrow> table_entry list \<Rightarrow> string list" where
  "failing E docs items = map e_root (filter (\<lambda>e. \<not> is_local E e \<and> obj_get docs (e_root e) = None) items)"

definition settle_round :: "renv \<Rightarrow> hv obj \<Rightarrow> string list \<Rightarrow> nat \<Rightarrow> choice \<Rightarrow> (rstate, bool \<times> string list) act" where
  "settle_round E docs failed iteration c s =
     (let s1 = s\<lparr>queue := map2 (\<lambda>it e. it\<lparr>entry := e\<rparr>) (queue s) (c_table c)\<rparr>;
          items = map ((!) (c_table c)) (todo c)
      in bindR (foldR (look_up_h E docs failed (heap s1)) items []) (\<lambda>resolved.
           bindA (finish_h E iteration (local_flag E failed items) resolved) (\<lambda>called.
             ret (called, failed @ failing E docs items)) s1))"

definition resolve_round :: "renv \<Rightarrow> hv obj \<Rightarrow> string list \<Rightarrow> nat \<Rightarrow> rstate \<Rightarrow> ((bool \<times> string list) \<times> rstate) result option" where
  "resolve_round E docs failed iteration s =
     (case search_document E (s\<lparr>queue := []\<rparr>) of
        Inl e \<Rightarrow> Some (Inl e)
      | Inr (_, s1) \<Rightarrow>
          (case val_of (depth E) (heap s1) (spec_at E) of
             None \<Rightarrow> Some (Inl stack_error)
           | Some doc \<Rightarrow>
               map_option (\<lambda>r. bindR r (\<lambda>c. settle_round E docs failed iteration c s1))
                 (choose_loop (root_url E) doc 0 \<lparr>c_table = map entry (queue s1), todo = [], c_found = JUndef\<rparr>)))"

text \<open>The rounds until the callback is called, with the number of the last one.\<close>

function resolve_run :: "renv \<Rightarrow> hv obj \<Rightarrow> string list \<Rightarrow> nat \<Rightarrow> rstate \<Rightarrow> (nat \<times> rstate) result option" where
  "resolve_run E docs failed iteration s =
     (case resolve_round E docs failed iteration s of
        None \<Rightarrow> None
      | Some (Inl e) \<Rightarrow> Some (Inl e)
      | Some (Inr ((called, failed'), s')) \<Rightarrow>
          if called \<or> iteration > 5 then Some (Inr (iteration, s')) else resolve_run E docs failed' (iteration + 1) s')"
  by pat_completeness auto
termination
  by (relation "measure (\<lambda>(E, docs, failed, iteration, s). 6 - iteration)") auto

declare resolve_run.simps [simp del]

section \<open>Documents and their values\<close>

text \<open>For a document without a cycle the operations that only read give what those on values give, and counting the
  references gives a result for no others.\<close>

lemma getRefs_h_refines: "val_of (Suc n) h v = Some j \<Longrightarrow> getRefs_h n h v = Inr (getRefs j)"
proof (induction n arbitrary: v j)
  have fold: "foldR (\<lambda>(key, item) out. case item of
         HStr s \<Rightarrow> Inr (if key = ''$ref'' then obj_set s () out else out)
       | HRef _ \<Rightarrow> (case n of 0 \<Rightarrow> Inl stack_error | Suc n' \<Rightarrow> bindR (getRefs_h n' h item) (\<lambda>o2. Inr (obj_copy o2 out)))
       | _ \<Rightarrow> Inr out) xs out =
     Inr (fold (\<lambda>(key, item) out. case item of
         JStr s \<Rightarrow> if key = ''$ref'' then obj_set s () out else out
       | _ \<Rightarrow> if is_object item then obj_copy (getRefs item) out else out) ys out)"
    if "list_all2 (\<lambda>(k, x) (k', y). k = k' \<and> val_of n h x = Some y) xs ys"
      and rec: "\<And>n' v j. n = Suc n' \<Longrightarrow> val_of n h v = Some j \<Longrightarrow> getRefs_h n' h v = Inr (getRefs j)" for n xs ys out
    using that(1)
  proof (induction xs ys arbitrary: out rule: list_all2_induct)
    case (Cons x xs y ys)
    obtain k w u where x: "x = (k, w)" "y = (k, u)" "val_of n h w = Some u" using Cons.hyps(1) by auto
    show ?case
    proof (cases w)
      case (HRef a)
      then obtain n' where "n = Suc n'" using x by (cases n) auto
      moreover have "is_object u" "\<nexists>s. u = JStr s" using x HRef by (auto simp: is_object_def split: nat.splits cell.splits)
      ultimately show ?thesis using x HRef rec Cons.IH by (cases u) (auto simp: is_object_def)
    qed (use x Cons.IH in \<open>auto simp: is_object_def\<close>)
  qed simp
  {
    case (0 v j)
    show ?case unfolding getRefs_h.simps [of 0] getRefs.simps [of j] by (rule fold [OF val_of_entries [OF 0]]) simp
  next
    case (Suc n v j)
    show ?case unfolding getRefs_h.simps [of "Suc n"] getRefs.simps [of j]
      by (rule fold [OF val_of_entries [OF Suc.prems]]) (use Suc.IH in \<open>simp only: nat.inject\<close>)
  }
qed

lemma foldR_each: "foldR f xs s = Inr t \<Longrightarrow> x \<in> set xs \<Longrightarrow> \<exists>s' t'. f x s' = Inr t'"
  by (induction xs arbitrary: s) (auto simp: bindR_Inr_iff)

lemma getRefs_h_acyclic: "getRefs_h n h v = Inr out \<Longrightarrow> \<exists>j. val_of (Suc n) h v = Some j"
proof (induction n arbitrary: v out)
  case (0 v out)
  have "\<exists>y. val_of 0 h x = Some y" if "(k, x) \<in> set (hentries h v)" for k x
    using foldR_each [OF 0 [unfolded getRefs_h.simps [of 0]] that] by (cases x) auto
  then show ?case by (rule val_of_total)
next
  case (Suc n v out)
  have "\<exists>y. val_of (Suc n) h x = Some y" if "(k, x) \<in> set (hentries h v)" for k x
    using foldR_each [OF Suc.prems [unfolded getRefs_h.simps [of "Suc n"]] that] Suc.IH [of x]
    by (cases x) (auto simp: bindR_Inr_iff simp del: val_of.simps(6) split: sum.splits)
  then show ?case by (rule val_of_total)
qed

lemma hget_refines:
  assumes "val_of n h v = Some j"
  shows "val_of n h (hget h v k) = Some (js_index j k)"
proof -
  have s: "val_of (Suc n) h v = Some j" using val_of_mono [OF assms, of "Suc n"] by simp
  note e = harg_refines [OF val_of_entries [OF s], of k]
  show ?thesis
  proof (cases v)
    case (HRef a)
    then obtain m where m: "n = Suc m" using assms by (cases n) auto
    then show ?thesis using assms HRef e
      by (auto simp: hget_def js_index_def hentries_def cell_entries_def entries_of_def mapO_Some_iff split: cell.splits dest: list_all2_lengthD)
  qed (use assms e in \<open>auto simp: hget_def js_index_def hentries_def entries_of_def\<close>)
qed

lemma walk_h_refines: "val_of n h v = Some j \<Longrightarrow> walk_h h ks v = walk ks j"
proof (induction ks arbitrary: v j)
  case (Cons k ks)
  note g = hget_refines [OF Cons.prems, of k]
  show ?case using Cons.IH [OF Cons.prems] Cons.IH [OF g] val_of_nullish [OF Cons.prems] val_of_undef [OF g] by auto
qed simp

lemma countUnresolvedRefs_h_refines:
  assumes "val_of (Suc n) h v = Some doc"
  shows "countUnresolvedRefs_h n h v = countUnresolvedRefs doc"
  using walk_h_refines [OF assms] getRefs_h_refines [OF assms] by (simp add: countUnresolvedRefs_h_def countUnresolvedRefs_def)

section \<open>What the callback gets\<close>

text \<open>The references that occur in a value, at any depth.\<close>

inductive refers :: "jsv \<Rightarrow> string \<Rightarrow> bool" where
  refers_here: "(''$ref'', JStr r) \<in> set (entries_of v) \<Longrightarrow> refers v r"
| refers_below: "(k, w) \<in> set (entries_of v) \<Longrightarrow> is_object w \<Longrightarrow> refers w r \<Longrightarrow> refers v r"

lemma keys_obj_copy: "set (obj_keys (obj_copy src dst)) = set (obj_keys src) \<union> set (obj_keys dst)"
  unfolding obj_copy_def
  by (induction src arbitrary: dst) (auto simp: obj_keys_Cons set_keys_set obj_keys_def [of "[]"])

lemma getRefs_step:
  "set (obj_keys (fold (\<lambda>(key, item) out. case item of
       JStr s \<Rightarrow> if key = ''$ref'' then obj_set s () out else out
     | _ \<Rightarrow> if is_object item then obj_copy (getRefs item) out else out) es out)) =
   set (obj_keys out) \<union> {s. (''$ref'', JStr s) \<in> set es} \<union> (\<Union>(k, w) \<in> {e \<in> set es. is_object (snd e)}. set (obj_keys (getRefs w)))"
proof (induction es arbitrary: out)
  case (Cons e es)
  obtain k w where e: "e = (k, w)" by (cases e)
  show ?case unfolding e by (cases w) (auto simp: Cons.IH set_keys_set keys_obj_copy is_object_def)
qed simp

lemma getRefs_keys:
  "set (obj_keys (getRefs v)) = {s. (''$ref'', JStr s) \<in> set (entries_of v)}
     \<union> (\<Union>(k, w) \<in> {e \<in> set (entries_of v). is_object (snd e)}. set (obj_keys (getRefs w)))"
  by (subst getRefs.simps, subst getRefs_step) (simp add: obj_keys_def)

lemma refers_iff: "refers v r \<longleftrightarrow> r \<in> set (obj_keys (getRefs v))"
proof
  show "refers v r \<Longrightarrow> r \<in> set (obj_keys (getRefs v))"
  proof (induction rule: refers.induct)
    case (refers_here r v)
    then show ?case by (subst getRefs_keys) blast
  next
    case (refers_below k w v r)
    then show ?case by (subst getRefs_keys) force
  qed
  show "r \<in> set (obj_keys (getRefs v)) \<Longrightarrow> refers v r"
  proof (induction "size v" arbitrary: v rule: less_induct)
    case (less v)
    then consider "(''$ref'', JStr r) \<in> set (entries_of v)"
      | k w where "(k, w) \<in> set (entries_of v)" "is_object w" "r \<in> set (obj_keys (getRefs w))"
      using getRefs_keys [of v] by auto
    then show ?case by cases (auto intro: refers_here refers_below less.hyps size_entries_of)
  qed
qed

lemma count_fold:
  fixes n m :: nat
  assumes "foldR (\<lambda>r n. bindR (w r) (\<lambda>ok. Inr (if ok then n else n + 1))) rs n = Inr m"
  shows "n \<le> m \<and> (m = 0 \<longrightarrow> (\<forall>r \<in> set rs. w r = Inr True))"
  using assms
proof (induction rs arbitrary: n)
  case (Cons r rs)
  then obtain ok where ok: "w r = Inr ok" "foldR (\<lambda>r n. bindR (w r) (\<lambda>ok. Inr (if ok then n else n + 1))) rs (if ok then n else n + 1) = Inr m"
    by (auto simp: bindR_Inr_iff)
  from Cons.IH [OF ok(2)] ok(1) show ?case by (cases ok) auto
qed simp

lemma count_zero:
  assumes "countUnresolvedRefs doc = Inr 0" "refers doc r"
  shows "starts_with ''#'' r \<and> walk (split_char CHR ''/'' (drop 1 r)) doc = Inr True"
proof -
  let ?refs = "obj_keys (getRefs doc)"
  have "r \<in> set ?refs" using assms(2) refers_iff by blast
  moreover have "filter (\<lambda>r. \<not> starts_with ''#'' r) ?refs = [] \<and>
      (\<forall>r \<in> set (filter (starts_with ''#'') ?refs). walk (split_char CHR ''/'' (drop 1 r)) doc = Inr True)"
    using count_fold [OF assms(1) [unfolded countUnresolvedRefs_def Let_def]] by simp
  ultimately show ?thesis by (auto simp: filter_empty_conv)
qed

text \<open>All references of a document are to definitions or other parts of itself that there are.\<close>

definition all_resolved :: "jsv \<Rightarrow> bool" where
  "all_resolved doc \<longleftrightarrow> (\<forall>r. refers doc r \<longrightarrow> starts_with ''#'' r \<and> walk (split_char CHR ''/'' (drop 1 r)) doc = Inr True)"

lemma finish_called:
  assumes "finish_h E iteration localResolve resolved s = Inr (called, s')"
  shows "(called \<longrightarrow> iteration > 5 \<or> (\<exists>doc. val_of (Suc (depth E)) (heap s') (spec_at E) = Some doc \<and> all_resolved doc))
    \<and> (iteration > 5 \<longrightarrow> called)"
proof -
  obtain n where n: "countUnresolvedRefs_h (depth E) (heap s') (spec_at E) = Inr n" "called \<longleftrightarrow> n = 0 \<or> iteration > 5"
    using assms by (auto simp: finish_h_def bindA_Inr_iff thenA_Inr_iff liftA_Inr_iff the_heap_def)
  then obtain out where "getRefs_h (depth E) (heap s') (spec_at E) = Inr out"
    by (auto simp: countUnresolvedRefs_h_def bindR_Inr_iff)
  from getRefs_h_acyclic [OF this] obtain doc where doc: "val_of (Suc (depth E)) (heap s') (spec_at E) = Some doc" by blast
  from n(1) countUnresolvedRefs_h_refines [OF doc] have "countUnresolvedRefs doc = Inr n" by simp
  then have "n = 0 \<Longrightarrow> all_resolved doc" using count_zero by (auto simp: all_resolved_def)
  then show ?thesis using n(2) doc by auto
qed

lemma resolve_round_finish:
  assumes "resolve_round E docs failed iteration s = Some (Inr ((called, failed'), s'))"
  shows "\<exists>localResolve resolved s1. finish_h E iteration localResolve resolved s1 = Inr (called, s')"
  using assms
  by (auto simp: resolve_round_def settle_round_def Let_def bindR_Inr_iff bindA_Inr_iff split: sum.splits option.splits) blast


section \<open>What finish does to local references\<close>

lemma finish_inline_runs:
  assumes "\<not> nullish (r_obj r)"
  shows "runs (finish_inline E True it r) s (\<lambda>_ s'. only_at (i_obj it) (heap s) (heap s'))"
proof -
  let ?a = "i_obj it"
  have copy: "runs (eachA (\<lambda>key. bindA (retained E True u (r_obj r) key) (put (HRef ?a) key)) ks) t
      (\<lambda>_ s'. only_at ?a (heap s) (heap s'))" if "only_at ?a (heap s) (heap t)" for u ks t
  proof (rule runs_eachA [where I = "\<lambda>_ s'. only_at ?a (heap s) (heap s')"])
    fix d x t assume t: "only_at ?a (heap s) (heap t)"
    show "runs (bindA (retained E True u (r_obj r) x) (put (HRef ?a) x)) t (\<lambda>_ s'. only_at ?a (heap s) (heap s'))"
      unfolding retained_def if_True by (intro runs_bind runs_read runs_ret runs_put_only [OF t] assms)
  qed (rule that)
  show ?thesis unfolding finish_inline_def Let_def
    by (rule runs_bind, rule runs_alloc_only [OF only_at_refl], rule runs_then, rule runs_put_only, assumption, rule runs_then, rule runs_del_only, assumption,
        rule runs_bind, rule runs_keys, rule copy)
qed

text \<open>The document and its definitions are no objects of the table.\<close>

definition apart :: "renv \<Rightarrow> nat \<Rightarrow> item list \<Rightarrow> cell list \<Rightarrow> bool" where
  "apart E d items h \<longleftrightarrow>
     (case spec_at E of
        HRef a \<Rightarrow> a < length h \<and> a \<noteq> d \<and> is_obj_cell (h ! a) \<and> hget h (HRef a) ''definitions'' = HRef d
          \<and> d < length h \<and> is_obj_cell (h ! d)
          \<and> list_all (\<lambda>it. i_obj it < length h \<and> is_obj_cell (h ! i_obj it) \<and> i_obj it \<noteq> a \<and> i_obj it \<noteq> d) items
      | _ \<Rightarrow> False)"

text \<open>Entries for one object are the same, and names do not collide.\<close>

definition consistent :: "item list \<Rightarrow> resolved_ref obj \<Rightarrow> bool" where
  "consistent items resolved \<longleftrightarrow>
     list_all (\<lambda>it1. list_all (\<lambda>it2. i_obj it1 = i_obj it2 \<longrightarrow> resolveAs (entry it1) = resolveAs (entry it2) \<and> e_key (entry it1) = e_key (entry it2)) items) items
     \<and> list_all (\<lambda>(k1, r1). \<not> nullish (r_obj r1) \<and> list_all (\<lambda>(k2, r2). r_name r1 = r_name r2 \<longrightarrow> r_obj r1 = r_obj r2) resolved) resolved"

definition refers_to :: "cell list \<Rightarrow> nat \<Rightarrow> resolved_ref obj \<Rightarrow> item \<Rightarrow> bool" where
  "refers_to h d resolved it \<longleftrightarrow> (case obj_get resolved (e_key (entry it)) of
      None \<Rightarrow> True
    | Some r \<Rightarrow> resolveAs (entry it) = AsRef \<longrightarrow>
        hget h (HRef (i_obj it)) ''$ref'' = definition_ref (r_name r) \<and> hget h (HRef d) (r_name r) = r_obj r)"

lemma apart_only_at: "apart E d items h \<Longrightarrow> only_at a h h' \<Longrightarrow> spec_at E \<noteq> HRef a \<Longrightarrow> apart E d items h'"
proof -
  assume *: "apart E d items h" "only_at a h h'" "spec_at E \<noteq> HRef a"
  then obtain sp where sp: "spec_at E = HRef sp" "sp < length h" "is_obj_cell (h ! sp)" by (auto simp: apart_def split: hv.splits)
  have "is_obj_cell (h' ! b) = is_obj_cell (h ! b)" if "b < length h" for b using *(2) that by (cases "b = a") (auto simp: only_at_def)
  with * sp hget_only_at [OF *(2) sp(2) _ sp(3)] show ?thesis
    by (auto simp: apart_def only_at_def list_all_iff)
qed

lemma ensure_definitions_runs:
  assumes "apart E d items (heap s)" "Q (HRef d) s"
  shows "runs (ensure_definitions E) s Q"
proof -
  obtain sp so where sp: "spec_at E = HRef sp" "sp < length (heap s)" "heap s ! sp = Obj so" "hget (heap s) (HRef sp) ''definitions'' = HRef d"
    using assms(1) by (auto simp: apart_def elim!: is_obj_cellE split: hv.splits)
  then have "obj_get so ''definitions'' = Some (HRef d)" by (auto simp: hget_obj harg_def split: option.splits)
  then have "(heap s)[sp := cell_put ''definitions'' (HRef d) (cell_at (heap s) sp)] = heap s"
    using sp by (simp add: cell_put_def cell_at_def) (metis list_update_id sp(3))
  then show ?thesis unfolding ensure_definitions_def sp(1) or_new_def
    using sp(4) assms(2) by (auto intro!: runs_bind runs_read runs_then runs_put runs_ret simp: nullish_def htruthy_def)
qed

lemma finish_ref_runs:
  assumes "apart E d items (heap s)" "it \<in> set items"
  shows "runs (finish_ref E True it r (HRef d)) s (\<lambda>_ s'.
    heap s' = (heap s)[d := cell_put (r_name r) (r_obj r) (heap s ! d), i_obj it := cell_put ''$ref'' (definition_ref (r_name r)) (heap s ! i_obj it)])"
proof -
  have "d < length (heap s)" "i_obj it < length (heap s)" "i_obj it \<noteq> d"
    using assms by (auto simp: apart_def list_all_iff split: hv.splits)
  then show ?thesis unfolding finish_ref_def
    by (auto intro!: runs_then runs_put runs_ret simp: cell_at_def)
qed

lemma finish_item_runs:
  assumes ap: "apart E d items (heap s)" and it: "it \<in> set items" and past: "set past \<subseteq> set items"
    and con: "consistent items resolved" and inv: "list_all (refers_to (heap s) d resolved) past"
  shows "runs (finish_item E True resolved it) s (\<lambda>_ s'. apart E d items (heap s') \<and> list_all (refers_to (heap s') d resolved) (past @ [it]))"
proof (cases "obj_get resolved (e_key (entry it))")
  case None
  then show ?thesis using ap inv by (simp add: finish_item_def runs_ret refers_to_def)
next
  case (Some r)
  have sp: "spec_at E \<noteq> HRef (i_obj it')" "i_obj it' < length (heap s)" "is_obj_cell (heap s ! i_obj it')" "i_obj it' \<noteq> d" if "it' \<in> set items" for it'
    using ap that by (auto simp: apart_def list_all_iff split: hv.splits)
  have d: "d < length (heap s)" "is_obj_cell (heap s ! d)" "spec_at E \<noteq> HRef d" using ap by (auto simp: apart_def split: hv.splits)
  have same: "resolveAs (entry it') = resolveAs (entry it) \<and> e_key (entry it') = e_key (entry it)" if "it' \<in> set items" "i_obj it' = i_obj it" for it'
    using con it that unfolding consistent_def list_all_iff by blast
  have names: "r_obj r' = r_obj r" if "obj_get resolved k = Some r'" "r_name r' = r_name r" for k r'
    using con obj_get_in_set [OF that(1)] obj_get_in_set [OF Some] that(2) unfolding consistent_def list_all_iff by blast
  have nonnull: "\<not> nullish (r_obj r)" using con obj_get_in_set [OF Some] unfolding consistent_def list_all_iff by blast
  show ?thesis
  proof (cases "resolveAs (entry it)")
    case AsInline
    have "refers_to h' d resolved it'" if oh: "only_at (i_obj it) (heap s) h'" "it' \<in> set past \<or> it' = it" for h' it'
    proof -
      consider "i_obj it' = i_obj it" "it' \<in> set items" | "i_obj it' \<noteq> i_obj it" "refers_to (heap s) d resolved it'" "it' \<in> set items"
        using oh(2) inv past it by (auto simp: list_all_iff)
      then show ?thesis
      proof cases
        case 1
        then show ?thesis using same AsInline by (auto simp: refers_to_def split: option.splits)
      next
        case 2
        then show ?thesis using hget_only_at [OF oh(1) sp(2) _ sp(3)] hget_only_at [OF oh(1) d(1) _ d(2)] sp(4) [OF it]
          by (auto simp: refers_to_def split: option.splits)
      qed
    qed
    then show ?thesis using Some AsInline apart_only_at [OF ap _ sp(1) [OF it]]
      by (auto simp: finish_item_def list_all_iff intro!: runs_bind ensure_definitions_runs [OF ap] runs_weaken [OF finish_inline_runs [OF nonnull]])
  next
    case AsRef
    define h1 where "h1 = (heap s)[d := cell_put (r_name r) (r_obj r) (heap s ! d)]"
    define h2 where "h2 = h1[i_obj it := cell_put ''$ref'' (definition_ref (r_name r)) (heap s ! i_obj it)]"
    have o1: "only_at d (heap s) h1" using only_at_put [of d "heap s" "heap s"] d(1) by (simp add: h1_def cell_at_def) (simp add: only_at_def)
    have o2: "only_at (i_obj it) h1 h2" using sp(2,4) [OF it] by (auto simp: only_at_def h1_def h2_def)
    have len: "length h1 = length (heap s)" by (simp add: h1_def)
    have at_d: "hget h2 (HRef d) k = (if k = r_name r then r_obj r else hget (heap s) (HRef d) k)" for k
      using d(1,2) sp(4) [OF it] by (auto simp: hget_def cell_at_def h1_def h2_def cell_put_def harg_set elim!: is_obj_cellE)
    have at_it: "hget h2 (HRef (i_obj it)) ''$ref'' = definition_ref (r_name r)"
      using sp(2,3) [OF it] by (auto simp: hget_def cell_at_def h1_def h2_def cell_put_def harg_set elim!: is_obj_cellE)
    have ap2: "apart E d items h2"
      using apart_only_at [OF ap o1 d(3)] apart_only_at [OF _ o2 sp(1) [OF it]] by blast
    have "refers_to h2 d resolved it'" if it': "it' \<in> set past \<or> it' = it" for it'
    proof (cases "i_obj it' = i_obj it")
      case True
      then have "e_key (entry it') = e_key (entry it)" using same it' past it by blast
      then show ?thesis using at_d at_it True Some by (simp add: refers_to_def)
    next
      case False
      then have i: "it' \<in> set items" "refers_to (heap s) d resolved it'" using it' past inv by (auto simp: list_all_iff)
      have "hget h2 (HRef (i_obj it')) ''$ref'' = hget (heap s) (HRef (i_obj it')) ''$ref''"
        using sp(2-4) [OF i(1)] False by (auto simp: hget_def cell_at_def h1_def h2_def elim!: is_obj_cellE)
      then show ?thesis using i(2) at_d names by (auto simp: refers_to_def split: option.splits)
    qed
    then show ?thesis using Some AsRef ap2
      by (auto simp: finish_item_def list_all_iff h1_def h2_def
          intro!: runs_bind ensure_definitions_runs [OF ap] runs_weaken [OF finish_ref_runs [OF ap it]])
  qed
qed

text \<open>C7: Replacing references to the document itself never throws and leaves every reference that is kept by name pointing to the
  definition of that name, which is the object it referred to, if names do not collide.\<close>

theorem finish_defines:
  assumes "apart E d items (heap s)" "consistent items resolved"
  shows "\<exists>s'. eachA (finish_item E True resolved) items s = Inr ((), s') \<and> (\<forall>it \<in> set items. refers_to (heap s') d resolved it)"
proof -
  have "runs (eachA (finish_item E True resolved) items) s (\<lambda>_ s'. apart E d items (heap s') \<and> list_all (refers_to (heap s') d resolved) items)"
    by (rule runs_eachA [where I = "\<lambda>past s'. apart E d items (heap s') \<and> list_all (refers_to (heap s') d resolved) past"])
       (use assms finish_item_runs in \<open>auto simp del: list_all_append\<close>)
  then show ?thesis by (auto simp: runs_def list_all_iff)
qed

section \<open>The parameters of a path\<close>

lemma unshift_all_runs:
  assumes "a < length (heap s)" "heap s ! a = Arr xs" "b < length (heap s)" "heap s ! b = Arr ys" "a \<noteq> b"
  shows "runs (unshift_all (HRef a) (HRef b)) s (\<lambda>_ s'. s' = s\<lparr>heap := (heap s)[b := Arr (rev xs @ ys)]\<rparr>)"
proof -
  let ?I = "\<lambda>past s'. s' = s\<lparr>heap := (heap s)[b := Arr (rev (map ((!) xs) past) @ ys)]\<rparr>"
  have same: "(heap s)[b := Arr ys] = heap s" by (metis assms(4) list_update_id)
  have "runs (eachA (\<lambda>i. bindA (read (HRef a) (show_nat i)) (\<lambda>p. bindA the_heap (\<lambda>h'.
      case cell_at h' b of Arr ys \<Rightarrow> change b (\<lambda>_. Arr (p # ys)) | Obj _ \<Rightarrow> throw (no_method ''unshift'')))) [0..<length xs]) s (\<lambda>_. ?I [0..<length xs])"
  proof (rule runs_eachA [where I = ?I])
    fix past i s' assume i: "i \<in> set [0..<length xs]" and s': "?I past s'"
    have "hget (heap s') (HRef a) (show_nat i) = xs ! i"
      using i assms length_key by (simp add: s' hget_def cell_at_def hentries_def cell_entries_def harg_index)
    then show "runs (bindA (read (HRef a) (show_nat i)) (\<lambda>p. bindA the_heap (\<lambda>h'.
        case cell_at h' b of Arr ys \<Rightarrow> change b (\<lambda>_. Arr (p # ys)) | Obj _ \<Rightarrow> throw (no_method ''unshift'')))) s' (\<lambda>_. ?I (past @ [i]))"
      using assms(3) by (intro runs_bind runs_read) (simp_all add: nullish_def runs_def the_heap_def change_def cell_at_def s')
  qed (simp add: same)
  moreover have "map ((!) xs) [0..<length xs] = xs" by (rule map_nth)
  ultimately show ?thesis using assms(1,2)
    by (simp add: unshift_all_def runs_def bindA_def the_heap_def cell_at_def)
qed

text \<open>C8: An operation has the parameters of its path, the last one first, before its own.\<close>

theorem path_parameters:
  assumes "o1 < length (heap s)" "is_obj_cell (heap s ! o1)" "method \<noteq> ''parameters''"
    and path: "\<not> nullish path" "hget (heap s) path ''parameters'' = HRef a" "has_array (heap s) (HRef a) shared"
    and own: "has_array (heap s) (hget (heap s) (HRef o1) ''parameters'') own \<and> hget (heap s) (HRef o1) ''parameters'' \<noteq> HRef a
      \<or> \<not> htruthy (hget (heap s) (HRef o1) ''parameters'') \<and> own = []"
  shows "\<exists>ps s'. merge_parameters path method (HRef o1) s = Inr (ps, s') \<and> hget (heap s') (HRef o1) ''parameters'' = ps
    \<and> has_array (heap s') ps (rev shared @ own)"
proof -
  obtain ob where ob: "heap s ! o1 = Obj ob" using assms(2) by (rule is_obj_cellE)
  have a: "a < length (heap s)" "heap s ! a = Arr shared" using path(3) by (simp_all add: has_array_def)
  have "runs (merge_parameters path method (HRef o1)) s (\<lambda>ps s'. hget (heap s') (HRef o1) ''parameters'' = ps \<and> has_array (heap s') ps (rev shared @ own))"
    using own
  proof (elim disjE conjE)
    assume arr: "has_array (heap s) (hget (heap s) (HRef o1) ''parameters'') own" "hget (heap s) (HRef o1) ''parameters'' \<noteq> HRef a"
    then obtain b where b: "hget (heap s) (HRef o1) ''parameters'' = HRef b" "b < length (heap s)" "heap s ! b = Arr own" "a \<noteq> b"
      by (auto simp: has_array_def split: hv.splits)
    then have "o1 \<noteq> b" using ob by auto
    then show ?thesis unfolding merge_parameters_def or_new_def
      using path b assms(1,3) ob
      by (auto intro!: runs_bind runs_read runs_ret runs_then runs_put runs_weaken [OF unshift_all_runs [OF a b(2,3,4)]]
          simp: nullish_def htruthy_def is_ref_def has_array_def hget_def cell_at_def cell_put_def harg_set)
  next
    assume no: "\<not> htruthy (hget (heap s) (HRef o1) ''parameters'')" "own = []"
    let ?s = "s\<lparr>heap := heap s @ [Arr []]\<rparr>"
    have "runs (unshift_all (HRef a) (HRef (length (heap s)))) ?s (\<lambda>_ s'. s' = ?s\<lparr>heap := (heap ?s)[length (heap s) := Arr (rev shared @ [])]\<rparr>)"
      using a by (intro unshift_all_runs) (auto simp: nth_append)
    then show ?thesis unfolding merge_parameters_def or_new_def
      using path no assms(1,3) ob
      by (auto intro!: runs_bind runs_read runs_ret runs_then runs_put runs_alloc elim!: runs_weaken
          simp: nullish_def htruthy_def is_ref_def has_array_def hget_def cell_at_def cell_put_def harg_set nth_append)
  qed
  then show ?thesis by (auto simp: runs_def)
qed

section \<open>A sample\<close>

text \<open>The order of an engine that sorts by insertion, and a document with a response that refers to a model.\<close>

fun insert_by :: "(hv \<Rightarrow> hv \<Rightarrow> int) \<Rightarrow> hv \<Rightarrow> hv list \<Rightarrow> hv list" where
  "insert_by cmp x [] = [x]"
| "insert_by cmp x (y # ys) = (if cmp y x > 0 then y # insert_by cmp x ys else x # y # ys)"

definition insertion_sort :: "(hv \<Rightarrow> hv \<Rightarrow> int) \<Rightarrow> hv list \<Rightarrow> hv list" where
  "insertion_sort cmp xs = rev (fold (insert_by cmp) xs [])"

definition sample_env :: renv where
  "sample_env = \<lparr>sort_by = insertion_sort, depth = 8, root_url = ''http://h/s'', spec_at = HRef 0\<rparr>"

definition sample_doc :: rstate where
  "sample_doc = \<lparr>heap =
     [Obj [(''definitions'', HRef 1), (''paths'', HRef 3)],
      Obj [(''Pet'', HRef 2)],
      Obj [(''title'', HStr ''Pet'')],
      Obj [(''/p'', HRef 4)],
      Obj [(''parameters'', HRef 5), (''get'', HRef 8)],
      Arr [HRef 6, HRef 7],
      Obj [(''name'', HStr ''a'')],
      Obj [(''name'', HStr ''b'')],
      Obj [(''responses'', HRef 9)],
      Obj [(''200'', HRef 10)],
      Obj [(''schema'', HRef 11)],
      Obj [(''type'', HStr ''array''), (''items'', HRef 12)],
      Obj [(''$ref'', HStr ''#/definitions/Pet'')]], queue = []\<rparr>"

lemma sample_run: "\<exists>s'. resolve_run sample_env [] [] 0 sample_doc = Some (Inr (0, s'))"
proof -
  have "(case resolve_run sample_env [] [] 0 sample_doc of Some (Inr (n, s')) \<Rightarrow> n = 0 | _ \<Rightarrow> False)" by code_simp
  then show ?thesis by (auto split: option.splits sum.splits)
qed


definition local_items :: "item list" where
  "local_items = [\<lparr>entry = \<lparr>resolveAs = AsRef, e_root = ''http://h/s'', e_key = ''#/x/Pet'', e_location = JStr ''/x/Pet''\<rparr>, i_obj = 12\<rparr>,
     \<lparr>entry = \<lparr>resolveAs = AsInline, e_root = ''http://h/s'', e_key = ''#/y'', e_location = JStr ''/y''\<rparr>, i_obj = 7\<rparr>]"

definition local_results :: "resolved_ref obj" where
  "local_results = [(''#/x/Pet'', \<lparr>r_name = ''Pet'', r_obj = HRef 6\<rparr>), (''#/y'', \<lparr>r_name = ''y'', r_obj = HRef 2\<rparr>)]"

theorem finish_defines_witness:
  "\<exists>s'. eachA (finish_item sample_env True local_results) local_items sample_doc = Inr ((), s')
     \<and> hget (heap s') (HRef 12) ''$ref'' = HStr ''#/definitions/Pet''"
proof -
  have "apart sample_env 1 local_items (heap sample_doc)" "consistent local_items local_results" by code_simp+
  from finish_defines [OF this] show ?thesis
    by (auto simp: local_items_def local_results_def refers_to_def definition_ref_def)
qed

theorem path_parameters_witness:
  "\<exists>ps s'. merge_parameters (HRef 4) ''get'' (HRef 8) sample_doc = Inr (ps, s') \<and> has_array (heap s') ps [HRef 7, HRef 6]"
proof -
  have "8 < length (heap sample_doc)" "is_obj_cell (heap sample_doc ! 8)" "''get'' \<noteq> ''parameters''" "\<not> nullish (HRef 4)"
    "hget (heap sample_doc) (HRef 4) ''parameters'' = HRef 5" "has_array (heap sample_doc) (HRef 5) [HRef 6, HRef 7]"
    "\<not> htruthy (hget (heap sample_doc) (HRef 8) ''parameters'')"
    by (simp_all add: sample_doc_def is_obj_cell_def nullish_def hget_def cell_at_def harg_def has_array_def htruthy_def)
  from path_parameters [OF this(1-6), of "[]"] this(7) show ?thesis by auto
qed

end
