(* ===== verification/Resolver_Safety.thy ===== *)
theory Resolver_Safety
  imports Resolver_Store
begin

text \<open>
  What the search for references and their replacement (\<open>Resolver_Store\<close>) do to the store: no reference is left dangling, no
  object becomes an array or the reverse, and every entry of the resolution table belongs to an object. The proofs go
  operation by operation with the rules of \<open>JS_Store\<close>. Then sample documents, among them two that the resolver does not
  bring to an end as it should.
\<close>

section \<open>The store stays well-formed\<close>

definition state_ok :: "rstate \<Rightarrow> bool" where
  "state_ok s \<longleftrightarrow> store_ok (heap s) \<and> (\<forall>it \<in> set (queue s). obj_in (shape (heap s)) (HRef (i_obj it)))"

interpretation rs: store_invariant state_ok
  by unfold_locales (auto simp: state_ok_def dest: obj_in_mono)

lemmas rs_rules = rs.keeps_bind_heap rs.keeps_bind_read rs.keeps_bind_keys rs.keeps_bind_alloc
  rs.keeps_then_put rs.keeps_then_del rs.keeps_put rs.keeps_del keeps_cases keeps_throw

lemmas up = hv_in_mono obj_in_mono arr_in_mono prefix_order.trans

definition env_ok :: "bool list \<Rightarrow> renv \<Rightarrow> bool" where
  "env_ok sh E \<longleftrightarrow> hv_in sh (spec_at E) \<and> (\<forall>c xs. set (sort_by E c xs) \<subseteq> set xs)"

lemma env_ok_mono: "env_ok sh E \<Longrightarrow> prefix sh k \<Longrightarrow> env_ok k E"
  by (auto simp: env_ok_def dest: hv_in_mono)

lemma keeps_enqueue: "obj_in sh p \<Longrightarrow> keeps state_ok sh (\<lambda>_ _. True) (enqueue e p)"
proof (rule keepsI)
  fix s a s'
  assume p: "obj_in sh p" and s: "state_ok s" "prefix sh (shape (heap s))" "enqueue e p s = Inr (a, s')"
  from obj_in_mono [OF p s(2)] s(1,3) show "state_ok s' \<and> prefix (shape (heap s)) (shape (heap s')) \<and> True"
    by (auto simp: enqueue_def state_ok_def split: hv.splits)
qed

lemma keeps_the_definitions: "keeps state_ok sh hv_in (the_definitions E)"
  unfolding the_definitions_def by (intro rs_rules keeps_ret) (meson up)

lemma keeps_uniqueName: "keeps state_ok sh (\<lambda>_ _. True) (uniqueName_h E base)"
  unfolding uniqueName_h_def by (intro keeps_bind [OF keeps_the_definitions] rs_rules keeps_ret) simp

lemma keeps_inline_model_name: "keeps state_ok sh (\<lambda>_ _. True) (inline_model_name E)"
  unfolding inline_model_name_def by (intro keeps_bind [OF keeps_the_definitions] rs_rules keeps_ret) simp

lemma definition_ref_in [simp]: "hv_in sh (definition_ref name)"
  by (simp add: definition_ref_def)

lemma keeps_name_inline: "hv_in sh p \<Longrightarrow> keeps state_ok sh (\<lambda>_ _. True) (name_inline_h E p)"
  unfolding name_inline_h_def
  by (intro rs_rules keeps_bind [OF keeps_uniqueName] keeps_bind [OF rs.keeps_cloneDeep] keeps_bind [OF keeps_the_definitions] definition_ref_in)
     (meson up)+

lemma not_nullish: "\<not> nullish r \<Longrightarrow> r \<noteq> HUndef" "htruthy r \<Longrightarrow> r \<noteq> HUndef"
  by (auto simp: nullish_def htruthy_def)

lemma keeps_resolveTo: "hv_in sh p \<Longrightarrow> keeps state_ok sh (\<lambda>_ _. True) (resolveTo_h n E p)"
proof (induction n arbitrary: sh p)
  case (0 sh p)
  show ?case
    by (subst resolveTo_h.simps, unfold nat.case)
       (intro rs_rules keeps_enqueue keeps_ret keeps_name_inline TrueI; use 0 not_nullish in \<open>meson up\<close>)
next
  case (Suc n sh p)
  show ?case
    by (subst resolveTo_h.simps, unfold nat.case)
       (intro rs_rules keeps_enqueue keeps_ret keeps_name_inline Suc.IH TrueI; use Suc.prems not_nullish in \<open>meson up\<close>)
qed

lemma keeps_resolveInline: "hv_in sh p \<Longrightarrow> keeps state_ok sh (\<lambda>_ _. True) (resolveInline_h E p location)"
  unfolding resolveInline_h_def
  by (intro rs_rules keeps_enqueue keeps_ret keeps_resolveTo keeps_bind [OF keeps_liftA] TrueI;
      use not_nullish in \<open>meson up\<close>)

lemma keeps_processAllOf:
  assumes "hv_in sh d" "env_ok sh E"
  shows "keeps state_ok sh (\<lambda>_ _. True) (processAllOf E name d)"
proof -
  have "keeps state_ok (shape h) (\<lambda>_ _. True) (thenA (change a (\<lambda>_. Arr ys)) (eachA (\<lambda>p. resolveInline_h E p l) ys))"
    if h: "store_ok h" "hv_in (shape h) (HRef a)" "cell_at h a = Arr xs" "ys = sort_by E c xs" for h a xs ys c l
  proof -
    have "set ys \<subseteq> set xs" using assms(2) h(4) by (simp add: env_ok_def)
    then have ys: "\<forall>y \<in> set ys. hv_in (shape h) y" using cell_at_in [OF h(1), of a] h(3) by (auto simp: cell_in_Arr)
    have "arr_in (shape h) a" using h(2,3) by (auto simp: arr_in_def hv_in_def shape_nth cell_at_def is_obj_cell_def)
    from rs.keeps_set_array [OF this ys] show ?thesis
      by (rule keeps_then) (use ys hv_in_mono in \<open>blast intro: keeps_eachA keeps_resolveInline\<close>)
  qed
  note array = this
  show ?thesis unfolding processAllOf_def Let_def
  proof (intro rs_rules)
    fix k source k1 k2 allOf h a xs
    assume "hv_in k2 allOf" "prefix k2 (shape h)" "store_ok h" "allOf = HRef a" "cell_at h a = Arr xs"
    then show "keeps state_ok (shape h) (\<lambda>_ _. True) (thenA (change a (\<lambda>_. Arr (sort_by E (refs_first h) xs)))
        (eachA (\<lambda>p. resolveInline_h E p (JStr (''/definitions/'' @ name @ ''/allOf''))) (sort_by E (refs_first h) xs)))"
      using hv_in_mono by (intro array [where xs = xs and c = "refs_first h"]) simp_all
  qed (use assms in \<open>auto simp: cell_in_Arr dest: hv_in_mono\<close>)
qed

lemma keeps_move_allOf:
  assumes "hv_in sh schema" "env_ok sh E"
  shows "keeps state_ok sh (\<lambda>_ _. True) (move_allOf E schema with_type)"
proof -
  have del_type: "keeps state_ok k (\<lambda>_ _. True) (if with_type then del schema ''type'' else ret ())" if "hv_in k schema" for k
    using that by (auto intro: rs.keeps_del keeps_ret)
  show ?thesis unfolding move_allOf_def
    by (rule keeps_bind [OF keeps_inline_model_name], rule rs.keeps_bind_read, rule rs.keeps_bind_alloc, rule cell_in_single, rule hv_in_mono, assumption, assumption,
        rule keeps_bind [OF keeps_the_definitions], rule rs.keeps_then_put, assumption, rule hv_in_mono, assumption, assumption,
        intro rs.keeps_then_del rs.keeps_then_put keeps_then [OF del_type] definition_ref_in keeps_then [OF keeps_processAllOf] keeps_ret TrueI)
       (use assms in \<open>meson up env_ok_mono\<close>)+
qed

lemma keeps_visit_property: "hv_in sh p \<Longrightarrow> env_ok sh E \<Longrightarrow> keeps state_ok sh (\<lambda>_ _. True) (visit_property E name p)"
  unfolding visit_property_def
  by (intro rs_rules keeps_processAllOf keeps_resolveTo) (meson up env_ok_mono)+

lemma keeps_visit_definition:
  assumes "env_ok sh E"
  shows "keeps state_ok sh (\<lambda>_ _. True) (visit_definition E defs name)"
  unfolding visit_definition_def
  by (intro rs_rules keeps_resolveInline keeps_processAllOf keeps_visit_property keeps_ret
        keeps_bind [OF keeps_bind [OF rs.keeps_read_value rs.keeps_keys_of]] keeps_then [OF keeps_eachA] TrueI;
      use assms in \<open>meson up env_ok_mono\<close>)

lemma keeps_visit_parameter:
  assumes "hv_in sh p" "env_ok sh E"
  shows "keeps state_ok sh (\<lambda>_ _. True) (visit_parameter E name p)"
proof -
  have schema: "keeps state_ok k hv_in (if b then read p ''schema'' else ret HUndef)" for b k
    by (auto intro: rs.keeps_read_value keeps_ret)
  have composed: "keeps state_ok k (\<lambda>_ _. True) (if htruthy s
        then bindA (read s ''allOf'') (\<lambda>a. bindA the_heap (\<lambda>h.
          if is_arr h a then move_allOf E s False else thenA (resolveTo_h (depth E) E s) (ret name)))
        else ret name)" if "hv_in k s" "env_ok k E" for k s
    by (intro rs_rules keeps_move_allOf keeps_then [OF keeps_resolveTo] keeps_ret TrueI; use that in \<open>meson up env_ok_mono\<close>)
  show ?thesis unfolding visit_parameter_def
  proof (rule rs.keeps_bind_read, rule keeps_bind [OF schema], rule keeps_bind [OF composed])
    fix k i k1 s k2 nm
    assume k: "prefix sh k" "prefix k k1" "hv_in k1 s"
    show "hv_in k1 s" by fact
    show "env_ok k1 E" using env_ok_mono assms(2) k by blast
    assume k2: "prefix k1 k2"
    show "keeps state_ok k2 (\<lambda>_ _. True)
      (bindA (read p ''$ref'') (\<lambda>r. if htruthy r then thenA (resolveInline_h E p (as_location r)) (ret nm) else ret nm))"
      by (intro rs_rules keeps_then [OF keeps_resolveInline] keeps_ret TrueI) (use k k2 assms(1) in \<open>meson up\<close>)
  qed
qed

lemma keeps_visit_response:
  assumes "env_ok sh E" "hv_in sh response"
  shows "keeps state_ok sh (\<lambda>_ _. True) (visit_response E method c name response)"
proof -
  have inline: "keeps state_ok k (\<lambda>_ _. True) (if htruthy r then resolveInline_h E v l else ret ())" if "hv_in k v" for k r v l
    using that by (auto intro: keeps_resolveInline keeps_ret)
  have items: "keeps state_ok k (\<lambda>_ _. True) (if htruthy items then bindA (read items ''$ref'') (\<lambda>ir. if htruthy ir then resolveInline_h E items l else ret ()) else ret ())"
    if "hv_in k items" for k items l
    by (intro rs_rules inline keeps_ret) (use that in \<open>meson up TrueI\<close>)+
  have array: "keeps state_ok k (\<lambda>_ _. True)
     (if t = HStr ''array'' then bindA (read schema ''items'') (\<lambda>items.
        if htruthy items then bindA (read items ''$ref'') (\<lambda>ir. if htruthy ir then resolveInline_h E items l else ret ()) else ret ())
      else resolveTo_h (depth E) E schema)" if "hv_in k schema" for k t schema l
    by (rule keeps_if, rule rs.keeps_bind_read, rule items, assumption, rule keeps_resolveTo, rule that)
  have schema: "keeps state_ok k (\<lambda>_ _. True) (bindA (read schema ''allOf'') (\<lambda>a. bindA the_heap (\<lambda>h.
      if is_arr h a then move_allOf E schema True
      else bindA (read schema ''type'') (\<lambda>t. thenA
        (if t = HStr ''array'' then bindA (read schema ''items'') (\<lambda>items.
           if htruthy items then bindA (read items ''$ref'') (\<lambda>ir. if htruthy ir then resolveInline_h E items l else ret ()) else ret ())
         else resolveTo_h (depth E) E schema) (ret name)))))" if "hv_in k schema" "env_ok k E" for k schema l
    by (rule rs.keeps_bind_read, rule rs.keeps_bind_heap, rule keeps_if, rule keeps_move_allOf, use that in \<open>meson up\<close>, use that in \<open>meson up env_ok_mono\<close>,
        rule rs.keeps_bind_read, rule keeps_then [OF array], use that in \<open>meson up\<close>, rule keeps_ret, simp)
  show ?thesis unfolding visit_response_def Let_def
    by (rule keeps_if, rule rs.keeps_bind_read, rule keeps_then [OF inline], use assms in \<open>meson up\<close>,
        rule rs.keeps_bind_read, rule keeps_if, rule schema, assumption, use assms in \<open>meson up env_ok_mono\<close>, (rule keeps_ret, simp)+)
qed

lemma keeps_unshift_all:
  assumes "hv_in sh params"
  shows "keeps state_ok sh (\<lambda>_ _. True) (unshift_all shared params)"
proof -
  have one: "keeps state_ok k (\<lambda>_ _. True) (bindA (read shared i) (\<lambda>p. bindA the_heap (\<lambda>h'.
      case params of HRef b \<Rightarrow> (case cell_at h' b of Arr ys \<Rightarrow> change b (\<lambda>_. Arr (p # ys)) | Obj _ \<Rightarrow> throw (no_method ''unshift''))
        | _ \<Rightarrow> throw (no_method ''unshift''))))" if k: "prefix sh k" for k i
  proof (rule rs.keeps_bind_read, rule rs.keeps_bind_heap, rule keeps_case_ref, rule keeps_case_cell)
    fix k1 p h b ys
    assume a: "prefix k k1" "hv_in k1 p" "prefix k1 (shape h)" "store_ok h" "params = HRef b" "cell_at h b = Arr ys"
    have "hv_in (shape h) (HRef b)" using assms k a(1,3,5) by (meson up)
    from shape_arr [OF a(4) this a(6)] show "keeps state_ok (shape h) (\<lambda>_ _. True) (change b (\<lambda>_. Arr (p # ys)))"
      using hv_in_mono [OF a(2,3)] by (intro rs.keeps_set_array) simp_all
  qed (rule keeps_throw)+
  show ?thesis unfolding unshift_all_def
    by (rule rs.keeps_bind_heap, rule keeps_case_ref, rule keeps_case_cell, rule keeps_eachA, rule one)
       (auto intro: prefix_order.trans keeps_throw)
qed

lemma keeps_merge_parameters:
  assumes "hv_in sh operation"
  shows "keeps state_ok sh hv_in (merge_parameters path method operation)"
proof -
  have arr: "keeps state_ok k hv_in (bindA (read v key) (\<lambda>v. or_new v (Arr [])))" for k v key
    by (rule rs.keeps_bind_read, rule rs.keeps_or_new) simp_all
  have upd: "keeps state_ok k (\<lambda>_ _. True) (if b then put operation ''parameters'' v else ret ())" if "hv_in k operation" "hv_in k v" for k b v
    using that by (auto intro: rs.keeps_put keeps_ret)
  show ?thesis unfolding merge_parameters_def
    by (rule keeps_bind [OF arr], rule keeps_bind [OF arr], rule keeps_then [OF keeps_unshift_all], assumption, rule keeps_then [OF upd],
        use assms in \<open>meson up\<close>, meson up, rule keeps_ret, meson up)
qed

lemma keeps_visit_operation:
  assumes "env_ok sh E"
  shows "keeps state_ok sh (\<lambda>_ _. True) (visit_operation E path method name)"
proof -
  have loop: "keeps state_ok k (\<lambda>_ _. True) (foldA (\<lambda>c nm. bindA (read v c) (f c nm)) cs nm)"
    if "\<And>k c nm x. prefix sh k \<Longrightarrow> hv_in k x \<Longrightarrow> keeps state_ok k (\<lambda>_ _. True) (f c nm x)" "prefix sh k" for k v cs nm and f :: "string \<Rightarrow> string \<Rightarrow> hv \<Rightarrow> (rstate, string) act"
    by (rule keeps_foldA, rule rs.keeps_bind_read, rule that(1)) (use that(2) in \<open>auto intro: prefix_order.trans\<close>)
  show ?thesis unfolding visit_operation_def
    by (rule rs.keeps_bind_read, rule keeps_bind [OF keeps_merge_parameters], assumption, rule rs.keeps_bind_keys, rule keeps_bind [OF loop],
        rule keeps_visit_parameter, assumption, use assms in \<open>meson env_ok_mono\<close>, meson up,
        rule rs.keeps_bind_read, rule rs.keeps_bind_keys, rule loop, rule keeps_visit_response, use assms in \<open>meson env_ok_mono\<close>, assumption, meson up)
qed

lemma keeps_visit_path:
  assumes "env_ok sh E"
  shows "keeps state_ok sh (\<lambda>_ _. True) (visit_path E paths name)"
proof -
  have loop: "keeps state_ok k (\<lambda>_ _. True) (foldA (\<lambda>method nm.
      if method = ''$ref'' then thenA (resolveInline_h E path (JStr (''/paths'' @ nm))) (ret nm) else visit_operation E path method nm) ms nm)"
    if "env_ok k E" "hv_in k path" for k path ms nm
    by (rule keeps_foldA, rule keeps_if, rule keeps_then [OF keeps_resolveInline], use that in \<open>meson up\<close>, rule keeps_ret, simp,
        rule keeps_visit_operation, use that in \<open>meson env_ok_mono\<close>) simp_all
  show ?thesis unfolding visit_path_def
    by (rule rs.keeps_bind_read, rule keeps_if, rule rs.keeps_bind_keys, rule keeps_then [OF loop], use assms in \<open>meson up env_ok_mono\<close>, meson up,
        rule rs.keeps_bind_alloc, simp, rule rs.keeps_put, meson up, assumption, rule keeps_ret, simp)
qed

lemma keeps_search_document:
  assumes "env_ok sh E"
  shows "keeps state_ok sh (\<lambda>_ _. True) (search_document E)"
proof -
  have obj: "keeps state_ok k hv_in (bindA (read v key) (\<lambda>v. or_new v (Obj [])))" for k v key
    by (rule rs.keeps_bind_read, rule rs.keeps_or_new) simp_all
  have spec: "hv_in k (spec_at E)" if "env_ok k E" for k using that by (simp add: env_ok_def)
  have 1: "keeps state_ok k (\<lambda>_ _. True) (search_definitions E)" if "env_ok k E" for k unfolding search_definitions_def
    by (rule keeps_bind [OF obj], rule rs.keeps_then_put, rule spec, use that in \<open>meson env_ok_mono\<close>, assumption, rule rs.keeps_bind_keys,
        rule keeps_eachA, rule keeps_visit_definition, use that in \<open>meson env_ok_mono\<close>)
  have 2: "keeps state_ok k (\<lambda>_ _. True) (search_parameters E)" if "env_ok k E" for k unfolding search_parameters_def
    by (rule keeps_bind [OF obj], rule rs.keeps_then_put, rule spec, use that in \<open>meson env_ok_mono\<close>, assumption, rule rs.keeps_bind_keys,
        rule keeps_eachA, rule rs.keeps_bind_read, rule keeps_then [OF keeps_visit_parameter], assumption, use that in \<open>meson env_ok_mono\<close>, rule keeps_ret, simp)
  have 3: "keeps state_ok k (\<lambda>_ _. True) (search_paths E)" if "env_ok k E" for k unfolding search_paths_def
    by (rule rs.keeps_bind_read, rule rs.keeps_bind_keys, rule keeps_eachA, rule keeps_visit_path, use that in \<open>meson env_ok_mono\<close>)
  show ?thesis unfolding search_document_def
    by (rule keeps_then [OF 1], rule assms, rule keeps_then [OF 2], use assms in \<open>meson env_ok_mono\<close>, rule 3, use assms in \<open>meson env_ok_mono\<close>)
qed

definition resolved_in :: "bool list \<Rightarrow> resolved_ref obj \<Rightarrow> bool" where
  "resolved_in sh rs \<longleftrightarrow> (\<forall>(k, r) \<in> set rs. hv_in sh (r_obj r))"

definition docs_in :: "bool list \<Rightarrow> hv obj \<Rightarrow> bool" where
  "docs_in sh docs \<longleftrightarrow> (\<forall>(k, v) \<in> set docs. hv_in sh v)"

lemma resolved_in_mono: "resolved_in sh rs \<Longrightarrow> prefix sh k \<Longrightarrow> resolved_in k rs"
  by (auto simp: resolved_in_def dest: hv_in_mono)

lemma docs_in_mono: "docs_in sh docs \<Longrightarrow> prefix sh k \<Longrightarrow> docs_in k docs"
  by (auto simp: docs_in_def dest: hv_in_mono)

lemma follow_h_in: "store_ok h \<Longrightarrow> hv_in (shape h) v \<Longrightarrow> hv_in (shape h) (follow_h h several ps v)"
  by (induction ps arbitrary: v) (auto simp: Let_def hget_in)

lemma resolveItem_h_in:
  "resolveItem_h h doc e rs = Inr rs' \<Longrightarrow> store_ok h \<Longrightarrow> hv_in (shape h) doc \<Longrightarrow> resolved_in (shape h) rs \<Longrightarrow> resolved_in (shape h) rs'"
  by (auto simp: resolveItem_h_def resolved_in_def Let_def follow_h_in dest!: set_obj_set split: jsv.splits if_splits)

lemma look_ups_in:
  assumes "foldR (look_up_h E docs failed h) items rs = Inr rs'" "store_ok h" "hv_in (shape h) (spec_at E)" "docs_in (shape h) docs"
    "resolved_in (shape h) rs"
  shows "resolved_in (shape h) rs'"
  using assms(1,5)
proof (induction items arbitrary: rs)
  case (Cons e items)
  then obtain rs1 where e: "look_up_h E docs failed h e rs = Inr rs1" "foldR (look_up_h E docs failed h) items rs1 = Inr rs'"
    by (auto simp: bindR_Inr_iff)
  have doc: "obj_get docs u = Some d \<Longrightarrow> hv_in (shape h) d" for u d using assms(4) by (auto simp: docs_in_def dest: obj_get_in_set)
  have "resolved_in (shape h) rs1"
    using e(1) Cons.prems(2) assms(3) doc resolveItem_h_in [OF _ assms(2)]
    by (auto simp: look_up_h_def split: if_splits option.splits)
  with Cons.IH e(2) show ?case by blast
qed simp

lemma keeps_retainRoot: "hv_in sh v \<Longrightarrow> keeps state_ok sh hv_in (retainRoot_h n key root v)"
proof (induction n arbitrary: key v sh)
  case (0 key v sh)
  then show ?case by (subst retainRoot_h.simps) (auto intro!: keeps_ret keeps_throw intro: hv_in_mono split: hv.splits)
next
  case (Suc n key v sh)
  have item: "keeps state_ok k (\<lambda>_ _. True) (bindA (read v key') (\<lambda>item. case item of
        HStr s \<Rightarrow> if key' = ''$ref'' then put v key' (HStr (joinUrl root s)) else ret ()
      | HRef _ \<Rightarrow> thenA (retainRoot_h n key' root item) (ret ()) | _ \<Rightarrow> ret ()))" if "prefix sh k" for k key'
  proof (rule rs.keeps_bind_read)
    fix k1 x assume k: "prefix k k1" "hv_in k1 x"
    have v: "hv_in k1 v" using Suc.prems \<open>prefix sh k\<close> k(1) by (meson up)
    show "keeps state_ok k1 (\<lambda>_ _. True) (case x of
        HStr s \<Rightarrow> if key' = ''$ref'' then put v key' (HStr (joinUrl root s)) else ret ()
      | HRef _ \<Rightarrow> thenA (retainRoot_h n key' root x) (ret ()) | _ \<Rightarrow> ret ())"
      using k(2) v Suc.IH by (cases x) (auto intro!: keeps_ret rs.keeps_put keeps_then [OF Suc.IH])
  qed
  show ?case
  proof (cases v)
    case (HRef a)
    show ?thesis unfolding HRef
      by (subst retainRoot_h.simps, unfold hv.case nat.case, fold HRef, rule keeps_then, rule rs.keeps_bind_keys, rule keeps_eachA, rule item)
         (use Suc.prems in \<open>auto intro!: keeps_ret intro: prefix_order.trans hv_in_mono\<close>)
  qed (subst retainRoot_h.simps, auto intro!: keeps_ret)+
qed

lemma keeps_retained: "keeps state_ok sh hv_in (retained E localResolve root v key)"
  unfolding retained_def
  by (rule rs.keeps_bind_read, rule keeps_if, rule keeps_ret, meson up, rule keeps_retainRoot)

lemma keeps_ensure_definitions: "env_ok sh E \<Longrightarrow> keeps state_ok sh hv_in (ensure_definitions E)"
proof -
  assume E: "env_ok sh E"
  have obj: "keeps state_ok k hv_in (bindA (read v key) (\<lambda>v. or_new v (Obj [])))" for k v key
    by (rule rs.keeps_bind_read, rule rs.keeps_or_new) simp_all
  show ?thesis unfolding ensure_definitions_def
    by (rule keeps_bind [OF obj], rule rs.keeps_then_put, use env_ok_mono [OF E] in \<open>simp add: env_ok_def\<close>, assumption, rule keeps_ret, meson up)
qed

lemma keeps_finish_ref:
  assumes "hv_in sh (r_obj r)" "hv_in sh defs" "hv_in sh (HRef (i_obj it))"
  shows "keeps state_ok sh (\<lambda>_ _. True) (finish_ref E localResolve it r defs)"
proof -
  have "keeps state_ok sh (\<lambda>_ _. True) (if localResolve then ret () else bindA (keys_of (r_obj r)) (eachA (\<lambda>key.
      bindA (retained E False (e_root (entry it)) (r_obj r) key) (put (r_obj r) key))))"
    by (rule keeps_if, rule keeps_ret, simp, rule rs.keeps_bind_keys, rule keeps_eachA, rule keeps_bind [OF keeps_retained], rule rs.keeps_put,
        use assms in \<open>meson up\<close>, assumption)
  then show ?thesis unfolding finish_ref_def
    by (rule keeps_then, intro rs.keeps_then_put rs.keeps_put definition_ref_in) (use assms in \<open>meson up\<close>)+
qed

lemma keeps_finish_inline:
  assumes "hv_in sh (HRef (i_obj it))"
  shows "keeps state_ok sh (\<lambda>_ _. True) (finish_inline E localResolve it r)"
  unfolding finish_inline_def Let_def
  by (rule rs.keeps_bind_alloc, simp add: cell_in_Arr, rule rs.keeps_then_put, use assms in \<open>meson up\<close>, assumption,
      rule rs.keeps_then_del, use assms in \<open>meson up\<close>, rule rs.keeps_bind_keys, rule keeps_eachA, rule keeps_bind [OF keeps_retained],
      rule rs.keeps_put, use assms in \<open>meson up\<close>, assumption)

lemma keeps_finish_item:
  assumes "env_ok sh E" "resolved_in sh resolved" "hv_in sh (HRef (i_obj it))"
  shows "keeps state_ok sh (\<lambda>_ _. True) (finish_item E localResolve resolved it)"
proof (cases "obj_get resolved (e_key (entry it))")
  case None
  then show ?thesis by (simp add: finish_item_def keeps_ret)
next
  case (Some r)
  then have "hv_in sh (r_obj r)" using assms(2) obj_get_in_set by (fastforce simp: resolved_in_def)
  with Some assms show ?thesis unfolding finish_item_def
    by (cases "resolveAs (entry it)")
       (auto intro!: keeps_bind [OF keeps_ensure_definitions] keeps_finish_ref keeps_finish_inline intro: hv_in_mono)
qed

lemma finish_keeps:
  assumes "finish_h E iteration localResolve resolved s = Inr (called, s')" "state_ok s" "env_ok (shape (heap s)) E" "resolved_in (shape (heap s)) resolved"
  shows "state_ok s' \<and> prefix (shape (heap s)) (shape (heap s'))"
proof -
  obtain u where u: "eachA (finish_item E localResolve resolved) (queue s) s = Inr (u, s')"
    using assms(1) by (auto simp: finish_h_def bindA_Inr_iff thenA_Inr_iff liftA_Inr_iff the_heap_def)
  have "keeps state_ok (shape (heap s)) (\<lambda>_ _. True) (eachA (finish_item E localResolve resolved) (queue s))"
  proof (rule keeps_eachA, rule keeps_finish_item)
    fix k it assume k: "prefix (shape (heap s)) k" "it \<in> set (queue s)"
    show "env_ok k E" "resolved_in k resolved" using env_ok_mono resolved_in_mono assms(3,4) k by blast+
    have "obj_in (shape (heap s)) (HRef (i_obj it))" using assms(2) k(2) by (simp add: state_ok_def)
    then show "hv_in k (HRef (i_obj it))" using obj_in_hv hv_in_mono k(1) by blast
  qed
  from keepsD [OF this assms(2) _ u] show ?thesis by simp
qed

lemma resolve_round_keeps:
  assumes r: "resolve_round E docs failed iteration s = Some (Inr (x, s'))" and "state_ok s"
    and E: "env_ok (shape (heap s)) E" and docs: "docs_in (shape (heap s)) docs"
  shows "state_ok s' \<and> prefix (shape (heap s)) (shape (heap s'))"
proof -
  let ?s = "s\<lparr>queue := []\<rparr>"
  obtain u s1 c where s1: "search_document E ?s = Inr (u, s1)" and c: "settle_round E docs failed iteration c s1 = Inr (x, s')"
    using r by (auto simp: resolve_round_def bindR_Inr_iff split: sum.splits option.splits)
  have "state_ok ?s" using assms(2) by (simp add: state_ok_def)
  from keepsD [OF keeps_search_document this _ s1] E have k1: "state_ok s1" "prefix (shape (heap s)) (shape (heap s1))" by simp_all
  let ?s2 = "s1\<lparr>queue := map2 (\<lambda>it e. it\<lparr>entry := e\<rparr>) (queue s1) (c_table c)\<rparr>"
  let ?items = "map ((!) (c_table c)) (todo c)"
  obtain resolved where lk: "foldR (look_up_h E docs failed (heap s1)) ?items [] = Inr resolved"
    and f: "finish_h E iteration (local_flag E failed ?items) resolved ?s2 = Inr (fst x, s')"
    using c by (auto simp: settle_round_def Let_def bindR_Inr_iff bindA_Inr_iff)
  have E1: "env_ok (shape (heap s1)) E" using env_ok_mono [OF E k1(2)] .
  have "resolved_in (shape (heap s1)) resolved"
    by (rule look_ups_in [OF lk]) (use k1 E1 docs_in_mono [OF docs k1(2)] in \<open>auto simp: state_ok_def env_ok_def resolved_in_def\<close>)
  moreover have "state_ok ?s2" using k1(1) by (auto simp: state_ok_def set_zip)
  ultimately show ?thesis using finish_keeps [OF f] E1 k1(2) prefix_order.trans by fastforce
qed


text \<open>When a path has been visited it has no parameters of its own any more, so that the next round does not add them again.\<close>

lemma visit_path_clears:
  assumes "visit_path E paths name s = Inr (u, s')" "state_ok s" "env_ok (shape (heap s)) E"
    and "\<not> nullish paths" "hget (heap s) paths name = HRef p" "p < length (heap s)" "is_obj_cell (heap s ! p)"
  shows "has_array (heap s') (hget (heap s') (HRef p) ''parameters'') []"
proof -
  let ?loop = "\<lambda>ms. foldA (\<lambda>method nm. if method = ''$ref'' then thenA (resolveInline_h E (HRef p) (JStr (''/paths'' @ nm))) (ret nm)
      else visit_operation E (HRef p) method nm) ms name"
  obtain ms nm s1 where s1: "?loop ms s = Inr (nm, s1)" and s': "bindA (alloc (Arr [])) (put (HRef p) ''parameters'') s1 = Inr (u, s')"
    using assms(1,4,5) by (auto simp: visit_path_def bindA_Inr_iff thenA_Inr_iff read_def the_heap_def keys_of_def is_ref_def)
  have loop: "keeps state_ok (shape (heap s)) (\<lambda>_ _. True) (?loop ms)"
    using assms(2,3,6)
    by (intro keeps_foldA keeps_if keeps_then [OF keeps_resolveInline] keeps_ret keeps_visit_operation)
       (auto simp: hv_in_def dest: prefix_length_le env_ok_mono)
  from keepsD [OF loop assms(2) _ s1] have pre: "prefix (shape (heap s)) (shape (heap s1))" by simp
  then have "p < length (heap s1)" using assms(6) by (auto dest: prefix_length_le)
  moreover have "is_obj_cell (heap s1 ! p)" using assms(6,7) pre calculation
    by (metis length_shape nth_append prefix_def shape_nth)
  ultimately show ?thesis using s'
    by (auto simp: bindA_Inr_iff alloc_def put_def change_def has_array_def hget_def cell_at_def nth_append cell_put_def harg_set elim!: is_obj_cellE)
qed

section \<open>Where it goes wrong\<close>

text \<open>Two components of a model that are not references are each greater than the other, so that the order that \<open>sort\<close>
  gives them is that of the engine.\<close>

lemma components_unordered: "\<not> has_ref h a \<Longrightarrow> \<not> has_ref h b \<Longrightarrow> refs_first h a b > 0 \<and> refs_first h b a > 0"
  by (simp add: refs_first_def)

text \<open>Definitions of the same name from different documents replace each other: both references then lead to the second.\<close>

definition two_pets :: rstate where
  "two_pets = \<lparr>heap =
     [Obj [(''definitions'', HRef 1)],
      Obj [(''Shop'', HRef 2)],
      Obj [(''properties'', HRef 3)],
      Obj [(''x'', HRef 4), (''y'', HRef 5)],
      Obj [(''$ref'', HStr ''http://h/a#/Pet'')],
      Obj [(''$ref'', HStr ''http://h/b#/Pet'')],
      Obj [(''Pet'', HRef 8)],
      Obj [(''Pet'', HRef 9)],
      Obj [(''title'', HStr ''a'')],
      Obj [(''title'', HStr ''b'')]], queue = []\<rparr>"

lemma same_name_replaced:
  "\<exists>s'. resolve_run sample_env [(''http://h/a'', HRef 6), (''http://h/b'', HRef 7)] [] 0 two_pets = Some (Inr (0, s'))
     \<and> hget (heap s') (HRef 4) ''$ref'' = HStr ''#/definitions/Pet'' \<and> hget (heap s') (HRef 5) ''$ref'' = HStr ''#/definitions/Pet''
     \<and> hget (heap s') (HRef 1) ''Pet'' = HRef 9"
proof -
  have "(case resolve_run sample_env [(''http://h/a'', HRef 6), (''http://h/b'', HRef 7)] [] 0 two_pets of
      Some (Inr (n, s')) \<Rightarrow> n = 0 \<and> hget (heap s') (HRef 4) ''$ref'' = HStr ''#/definitions/Pet''
        \<and> hget (heap s') (HRef 5) ''$ref'' = HStr ''#/definitions/Pet'' \<and> hget (heap s') (HRef 1) ''Pet'' = HRef 9
    | _ \<Rightarrow> False)" by code_simp
  then show ?thesis by (auto split: option.splits sum.splits)
qed

text \<open>A model that is composed of itself becomes a cycle: counting the references runs out of stack.\<close>

definition self_composed :: rstate where
  "self_composed = \<lparr>heap =
     [Obj [(''definitions'', HRef 1)],
      Obj [(''A'', HRef 2)],
      Obj [(''allOf'', HRef 3)],
      Arr [HRef 4],
      Obj [(''$ref'', HStr ''#/definitions/A'')]], queue = []\<rparr>"

lemma self_composed_overflows: "resolve_run sample_env [] [] 0 self_composed = Some (Inl stack_error)"
  by code_simp

text \<open>Two models of another document that refer to each other.\<close>

definition two_models :: rstate where
  "two_models = \<lparr>heap =
     [Obj [(''definitions'', HRef 1)],
      Obj [(''Shop'', HRef 2)],
      Obj [(''properties'', HRef 3)],
      Obj [(''pet'', HRef 4)],
      Obj [(''$ref'', HStr ''http://h/m#/definitions/Pet'')],
      Obj [(''definitions'', HRef 6)],
      Obj [(''Pet'', HRef 7), (''Owner'', HRef 8)],
      Obj [(''properties'', HRef 9)],
      Obj [(''properties'', HRef 10)],
      Obj [(''owner'', HRef 11)],
      Obj [(''pet'', HRef 12)],
      Obj [(''$ref'', HStr ''#/definitions/Owner'')],
      Obj [(''$ref'', HStr ''#/definitions/Pet'')]], queue = []\<rparr>"

text \<open>Two models of another document that refer to each other are never resolved: making the references of the one absolute again
  undoes what the round before has done to them, and the callback gets a document with a reference to the other one after
  seven rounds.\<close>

theorem recursive_remote_models:
  "\<exists>s' doc. resolve_run sample_env [(''http://h/m'', HRef 5)] [] 0 two_models = Some (Inr (6, s'))
     \<and> val_of 9 (heap s') (HRef 0) = Some doc \<and> refers doc ''http://h/m#/definitions/Owner''"
proof -
  have "(case resolve_run sample_env [(''http://h/m'', HRef 5)] [] 0 two_models of
      Some (Inr (n, s')) \<Rightarrow> n = 6 \<and> (case val_of 9 (heap s') (HRef 0) of
        Some doc \<Rightarrow> ''http://h/m#/definitions/Owner'' \<in> set (obj_keys (getRefs doc)) | None \<Rightarrow> False)
    | _ \<Rightarrow> False)" by code_simp
  then show ?thesis by (auto simp: refers_iff split: option.splits sum.splits)
qed

section \<open>The sample keeps its store\<close>

lemma insertion_sort_set: "set (insertion_sort cmp xs) = set xs"
proof -
  have "set (insert_by cmp x ys) = insert x (set ys)" for x ys by (induction ys) auto
  then have "set (fold (insert_by cmp) xs ys) = set xs \<union> set ys" for ys by (induction xs arbitrary: ys) auto
  then show ?thesis by (simp add: insertion_sort_def)
qed


end
