(* ===== verification/Helpers.thy ===== *)
theory Helpers
  imports JS_Json
begin

text \<open>
  The helper functions that several modules share (module 4 of \<open>swagger-ui.js\<close>): references to definitions, the schema
  of a parameter, the extraction of vendor extensions, and the option rows of the old markup. \<open>log\<close> and \<open>fail\<close>
  only print and are not represented.
\<close>

definition optionHtml :: "string \<Rightarrow> string \<Rightarrow> string" where
  "optionHtml label value =
     ''<tr><td class='' @ [CHR 0x22] @ ''optionName'' @ [CHR 0x22] @ ''>'' @ label @ '':</td><td>'' @ value @ ''</td></tr>''"

lemma bindR_cong [fundef_cong]: "m = n \<Longrightarrow> (\<And>a. n = Inr a \<Longrightarrow> f a = g a) \<Longrightarrow> bindR m f = bindR n g"
  by (cases n) auto

function resolveSchema :: "jsv \<Rightarrow> jsv result" where
  "resolveSchema schema =
     bindR (get_prop schema ''schema'') (\<lambda>s. case s of JObj o1 \<Rightarrow> resolveSchema (JObj o1) | _ \<Rightarrow> Inr schema)"
  by pat_completeness auto

lemma get_prop_Inr_iff: "get_prop v k = Inr w \<longleftrightarrow> v \<noteq> JUndef \<and> v \<noteq> JNull \<and> w = prop_of v k"
  by (auto simp: get_prop_def)

termination resolveSchema
proof (relation "measure size", simp)
  fix schema v o1
  assume "get_prop schema ''schema'' = Inr v" "v = JObj o1"
  then have "prop_of schema ''schema'' = JObj o1" by (simp add: get_prop_Inr_iff)
  then have "size (JObj o1) < size schema"
    using size_prop_of [of schema "''schema''"] jsv.distinct by simp
  then show "(JObj o1, schema) \<in> measure size" by simp
qed

declare resolveSchema.simps [simp del]

text \<open>\<open>undefined\<close> gives \<open>null\<close>; a name that is not a string has no \<open>substring\<close>.\<close>

definition simpleRef :: "jsv \<Rightarrow> jsv result" where
  "simpleRef name = (case name of
      JUndef \<Rightarrow> Inr JNull
    | JStr s \<Rightarrow> Inr (JStr (if starts_with ''#/definitions/'' s then drop (length ''#/definitions/'') s else s))
    | _ \<Rightarrow> bindR (js_indexOf name ''#/definitions/'') (\<lambda>i. if i = 0 then Inl (no_method ''substring'') else Inr name))"

text \<open>
  \<open>obj\<close> is an object. \<open>vendorExtensions\<close> that is an array keeps its elements (the property added to it is not
  represented); adding a property to another primitive value throws in strict mode.
\<close>

definition extractExtensions :: "string \<Rightarrow> jsv obj \<Rightarrow> jsv \<Rightarrow> jsv obj result" where
  "extractExtensions keyname o1 value =
     (if keyname \<noteq> [] \<and> starts_with ''x-'' keyname then
        let v = (if truthy value then value else arg o1 keyname)
        in case js_or (arg o1 ''vendorExtensions'') (JObj []) of
             JObj ve \<Rightarrow> Inr (obj_set ''vendorExtensions'' (JObj (obj_set keyname v ve)) o1)
           | JArr xs \<Rightarrow> Inr o1
           | _ \<Rightarrow> Inl (TypeError ''cannot create property'')
      else Inr o1)"

text \<open>\<open>for (i in obj) extractExtensions(i, obj)\<close>.\<close>

definition extract_all :: "jsv obj \<Rightarrow> jsv obj result" where
  "extract_all o1 = foldR (\<lambda>k o2. extractExtensions k o2 JUndef) (obj_keys o1) o1"

section \<open>Facts\<close>

lemma resolveSchema_leaf: "resolveSchema v = Inr w \<Longrightarrow> \<not> (\<exists>o1. prop_of w ''schema'' = JObj o1)"
proof (induction v rule: resolveSchema.induct)
  case (1 schema)
  then show ?case
    by (subst (asm) (2) resolveSchema.simps) (auto simp: bindR_Inr_iff get_prop_Inr_iff split: jsv.splits)
qed

lemma simpleRef_definition: "simpleRef (JStr (''#/definitions/'' @ s)) = Inr (JStr s)"
  by (simp add: simpleRef_def)

definition is_extension :: "string \<Rightarrow> bool" where
  "is_extension k \<longleftrightarrow> starts_with ''x-'' k"

text \<open>The vendor extensions that an object has collected, none being the empty object.\<close>

definition extensions_of :: "jsv obj \<Rightarrow> jsv obj option" where
  "extensions_of o1 = (case js_or (arg o1 ''vendorExtensions'') (JObj []) of JObj ve \<Rightarrow> Some ve | _ \<Rightarrow> None)"

lemma extract_step:
  assumes "extensions_of o1 = Some ve" and "is_extension k"
  shows "extractExtensions k o1 v = Inr (obj_set ''vendorExtensions'' (JObj (obj_set k (if truthy v then v else arg o1 k) ve)) o1)"
  using assms by (auto simp: extractExtensions_def extensions_of_def is_extension_def split: jsv.splits)

lemma extract_other: "\<not> is_extension k \<Longrightarrow> extractExtensions k o1 v = Inr o1"
  by (simp add: extractExtensions_def is_extension_def)

lemma extensions_of_set [simp]: "extensions_of (obj_set ''vendorExtensions'' (JObj ve) o1) = Some ve"
  by (simp add: extensions_of_def)

lemma not_extension_vendor: "is_extension k \<Longrightarrow> k \<noteq> ''vendorExtensions''"
  by (auto simp: is_extension_def)

lemma extract_loop:
  assumes "extensions_of o1 = Some ve"
  shows "\<exists>o2 ve2. foldR (\<lambda>k o2. extractExtensions k o2 JUndef) ks o1 = Inr o2 \<and> extensions_of o2 = Some ve2
    \<and> (\<forall>k. k \<noteq> ''vendorExtensions'' \<longrightarrow> arg o2 k = arg o1 k)
    \<and> (\<forall>k. arg ve2 k = (if is_extension k \<and> k \<in> set ks then arg o1 k else arg ve k))"
  using assms
proof (induction ks arbitrary: o1 ve)
  case (Cons k ks)
  show ?case
  proof (cases "is_extension k")
    case True
    let ?o = "obj_set ''vendorExtensions'' (JObj (obj_set k (arg o1 k) ve)) o1"
    from Cons.IH [of ?o "obj_set k (arg o1 k) ve"]
    obtain o2 ve2 where *: "foldR (\<lambda>k o2. extractExtensions k o2 JUndef) ks ?o = Inr o2" "extensions_of o2 = Some ve2"
        "\<And>j. j \<noteq> ''vendorExtensions'' \<Longrightarrow> arg o2 j = arg ?o j"
        "\<And>j. arg ve2 j = (if is_extension j \<and> j \<in> set ks then arg ?o j else arg (obj_set k (arg o1 k) ve) j)"
      by auto
    have "arg ve2 j = (if is_extension j \<and> j \<in> set (k # ks) then arg o1 j else arg ve j)" for j
      using *(4) [of j] True by (auto dest: not_extension_vendor)
    then show ?thesis using * extract_step [OF Cons.prems True, of JUndef] by auto
  next
    case False
    with Cons.IH [OF Cons.prems] show ?thesis by (auto simp: extract_other)
  qed
qed auto

text \<open>Collecting the vendor extensions of an object that has no collection yet succeeds: the collection holds
  exactly the properties whose names begin with \<open>x-\<close>, with their values, and no other property changes.\<close>

theorem extensions_collected:
  assumes "arg o1 ''vendorExtensions'' = JUndef"
  shows "\<exists>o2 ve. extract_all o1 = Inr o2 \<and> extensions_of o2 = Some ve
    \<and> (\<forall>k. arg ve k = (if is_extension k then arg o1 k else JUndef)) \<and> (\<forall>k. k \<noteq> ''vendorExtensions'' \<longrightarrow> arg o2 k = arg o1 k)"
proof -
  have "extensions_of o1 = Some []" using assms by (simp add: extensions_of_def)
  from extract_loop [OF this, of "obj_keys o1"] obtain o2 ve where *: "extract_all o1 = Inr o2" "extensions_of o2 = Some ve"
      "\<And>k. k \<noteq> ''vendorExtensions'' \<Longrightarrow> arg o2 k = arg o1 k"
      "\<And>k. arg ve k = (if is_extension k \<and> k \<in> set (obj_keys o1) then arg o1 k else arg [] k)"
    unfolding extract_all_def by blast
  moreover have "k \<notin> set (obj_keys o1) \<Longrightarrow> arg o1 k = JUndef" for k
    by (simp add: arg_def flip: obj_get_None_iff)
  ultimately show ?thesis by (intro exI [of _ o2] exI [of _ ve]) auto
qed

theorem extensions_collected_witness:
  "\<exists>o2 ve. extract_all [(''name'', JStr ''pets''), (''x-rank'', JNum 3)] = Inr o2 \<and> extensions_of o2 = Some ve
    \<and> arg ve ''x-rank'' = JNum 3 \<and> arg o2 ''name'' = JStr ''pets''"
proof -
  let ?o = "[(''name'', JStr ''pets''), (''x-rank'', JNum 3)]"
  have "arg ?o ''vendorExtensions'' = JUndef" by simp
  then obtain o2 ve where *: "extract_all ?o = Inr o2" "extensions_of o2 = Some ve"
      "\<forall>k. arg ve k = (if is_extension k then arg ?o k else JUndef)" "\<forall>k. k \<noteq> ''vendorExtensions'' \<longrightarrow> arg o2 k = arg ?o k"
    using extensions_collected [of ?o] by blast
  then have "arg ve ''x-rank'' = JNum 3" "arg o2 ''name'' = JStr ''pets''" by (simp_all add: is_extension_def)
  then show ?thesis using *(1,2) by blast
qed

text \<open>An extension of an operation whose value is false, zero or the empty string is lost: the value is then read
  from the operation object, which does not have it.\<close>

lemma falsy_extension_lost:
  "extractExtensions ''x-internal'' [] (JBool False) = Inr [(''vendorExtensions'', JObj [(''x-internal'', JUndef)])]"
  by (simp add: extractExtensions_def)

end
