(* ===== verification/Client.thy ===== *)
theory Client
  imports Helpers "HOL-Library.Multiset"
begin

text \<open>
  The client object (module 3 of \<open>swagger-ui.js\<close>, \<open>SwaggerClient\<close>) built from a resolved document (\<open>buildFromSpec\<close>):
  vendor extensions of tags and security definitions, choosing the scheme and host, the ids of operations,
  filing the operations under their tags, sorting the groups, and the setters that change all operations. Operation objects are shared between the groups of their tags, so they
  live in a store and groups hold references. A group is reached as \<open>client[clientProperty]\<close> and as
  \<open>client.apis[apiProperty]\<close>. The functions bound to an operation of a group (\<open>execute\<close>, \<open>help\<close>, \<open>asCurl\<close>) are
  stored under the same key as the operation and are not represented. Tags do not collide with properties of
  the client that are missing from the list of reserved names.
\<close>

section \<open>Reserved names\<close>

definition reservedClientTags :: "string list" where
  "reservedClientTags = [''apis'', ''authorizationScheme'', ''authorizations'', ''basePath'', ''build'', ''buildFrom1_1Spec'',
     ''buildFrom1_2Spec'', ''buildFromSpec'', ''clientAuthorizations'', ''convertInfo'', ''debug'', ''defaultErrorCallback'',
     ''defaultSuccessCallback'', ''enableCookies'', ''fail'', ''failure'', ''finish'', ''help'', ''host'', ''idFromOp'', ''info'',
     ''initialize'', ''isBuilt'', ''isValid'', ''modelPropertyMacro'', ''models'', ''modelsArray'', ''options'', ''parameterMacro'',
     ''parseUri'', ''progress'', ''resourceCount'', ''sampleModels'', ''selfReflect'', ''setConsolidatedModels'', ''spec'',
     ''supportedSubmitMethods'', ''swaggerRequestHeaders'', ''tagFromLabel'', ''title'', ''url'', ''useJQuery'', ''jqueryAjaxCache'']"

definition reservedApiTags :: "string list" where
  "reservedApiTags = [''apis'', ''asCurl'', ''description'', ''externalDocs'', ''help'', ''label'', ''name'', ''operation'', ''operations'',
     ''operationsArray'', ''path'', ''tag'']"

definition supportedOperationMethods :: "string list" where
  "supportedOperationMethods = [''delete'', ''get'', ''head'', ''options'', ''patch'', ''post'', ''put'']"

definition escape_tag :: "string list \<Rightarrow> string \<Rightarrow> string" where
  "escape_tag reserved tag = (if tag \<in> set reserved then ''_'' @ tag else tag)"

section \<open>Scheme and host\<close>

text \<open>What \<open>parseUri\<close> found in the url of the document.\<close>

record location =
  loc_scheme :: "string option"
  loc_host :: string
  loc_port :: "string option"

definition strip_colon :: "string \<Rightarrow> string" where
  "strip_colon protocol = js_replace '':'' [] protocol"

text \<open>\<open>protocol\<close> is that of the browser window, if there is one; an absent scheme is \<open>None\<close>.\<close>

definition choose_scheme :: "location option \<Rightarrow> string option \<Rightarrow> string list \<Rightarrow> string option \<Rightarrow> string option" where
  "choose_scheme loc protocol schemes this_scheme =
     (case loc of
        Some l \<Rightarrow>
          if schemes = [] then
            (case protocol of
               Some p \<Rightarrow> Some (strip_colon p)
             | None \<Rightarrow> Some (case loc_scheme l of Some s \<Rightarrow> if s = [] then ''http'' else s | None \<Rightarrow> ''http''))
          else if (case protocol of Some p \<Rightarrow> starts_with ''chrome-extension'' p | None \<Rightarrow> False) then loc_scheme l
          else if this_scheme = None then
            (case protocol of
               Some p \<Rightarrow>
                 let s = strip_colon p
                 in if s = ''https'' \<and> s \<notin> set schemes then Some ''http''
                    else if s \<in> set schemes then Some s
                    else if ''https'' \<in> set schemes then Some ''https'' else Some ''http''
             | None \<Rightarrow> if hd schemes \<noteq> [] then Some (hd schemes) else loc_scheme l)
          else this_scheme
      | None \<Rightarrow> if schemes = [] then Some ''http'' else if this_scheme = None then Some (hd schemes) else this_scheme)"

definition choose_host :: "location option \<Rightarrow> string \<Rightarrow> string" where
  "choose_host loc this_host =
     (case loc of
        Some l \<Rightarrow>
          if this_host = [] then
            loc_host l @ (case loc_port l of Some p \<Rightarrow> if p = [] then [] else '':'' @ p | None \<Rightarrow> [])
          else this_host
      | None \<Rightarrow> this_host)"

section \<open>Vendor extensions\<close>

text \<open>The scopes of a security definition lose their extensions; the properties added to an array are not
  represented. Setting a property of a primitive value throws in strict mode.\<close>

definition scope_step :: "string \<Rightarrow> jsv obj \<Rightarrow> jsv obj result" where
  "scope_step s o1 =
     bindR (extractExtensions s o1 JUndef) (\<lambda>o2. Inr (if starts_with ''x-'' s then obj_del s o2 else o2))"

definition extract_scopes :: "jsv \<Rightarrow> jsv result" where
  "extract_scopes v = (case v of
      JObj o1 \<Rightarrow> bindR (foldR scope_step (obj_keys o1) (obj_set ''vendorExtensions'' (JObj []) o1)) (\<lambda>o2. Inr (JObj o2))
    | JNull \<Rightarrow> Inl null_error
    | _ \<Rightarrow> Inr v)"

definition security_step :: "string \<Rightarrow> jsv obj \<Rightarrow> jsv obj result" where
  "security_step ext o1 =
     bindR (extractExtensions ext o1 JUndef) (\<lambda>o2.
       if ext = ''scopes'' then bindR (extract_scopes (arg o2 ''scopes'')) (\<lambda>v. Inr (obj_set ''scopes'' v o2)) else Inr o2)"

definition extract_security :: "jsv \<Rightarrow> jsv result" where
  "extract_security d = (case d of
      JObj o1 \<Rightarrow> bindR (foldR security_step (obj_keys o1) (obj_set ''vendorExtensions'' (JObj []) o1)) (\<lambda>o2. Inr (JObj o2))
    | JArr xs \<Rightarrow> Inr (JArr xs)
    | _ \<Rightarrow> Inl null_error)"

definition security_definitions :: "jsv \<Rightarrow> jsv result" where
  "security_definitions v = (case v of
      JObj o1 \<Rightarrow> bindR (mapR (\<lambda>(k, d). bindR (extract_security d) (\<lambda>d'. Inr (k, d'))) o1) (\<lambda>o2. Inr (JObj o2))
    | JArr ds \<Rightarrow> bindR (mapR extract_security ds) (\<lambda>ds'. Inr (JArr ds'))
    | JStr s \<Rightarrow> if s = [] then Inr v else Inl null_error
    | _ \<Rightarrow> Inr v)"

definition tag_step :: "string \<Rightarrow> jsv obj \<Rightarrow> jsv obj result" where
  "tag_step i t =
     bindR (case (i = ''externalDocs'', arg t i) of
              (True, JObj e) \<Rightarrow> bindR (extract_all e) (\<lambda>e'. Inr (obj_set i (JObj e') t))
            | _ \<Rightarrow> Inr t)
       (\<lambda>t'. extractExtensions i t' JUndef)"

definition collect_tag :: "jsv \<Rightarrow> jsv obj \<Rightarrow> jsv obj result" where
  "collect_tag t definedTags = (case t of
      JObj o1 \<Rightarrow> bindR (foldR tag_step (obj_keys o1) o1) (\<lambda>o2. Inr (obj_set (to_str (arg o1 ''name'')) (JObj o2) definedTags))
    | JUndef \<Rightarrow> Inl null_error
    | JNull \<Rightarrow> Inl null_error
    | _ \<Rightarrow> Inr (obj_set ''undefined'' t definedTags))"

definition collect_tags :: "jsv \<Rightarrow> jsv obj result" where
  "collect_tags v = (case v of JArr ts \<Rightarrow> foldR collect_tag ts [] | _ \<Rightarrow> Inr [])"

section \<open>Ids of operations\<close>

definition special_char :: "char \<Rightarrow> bool" where
  "special_char c \<longleftrightarrow> is_space c \<or> c \<in> set ''!@#$%^&*()_+=[{]};:<>|./?,-'' \<or> code c \<in> {92, 39, 34}"

text \<open>\<open>replace(/((_){2,})/g, '_')\<close>.\<close>

fun squeeze :: "string \<Rightarrow> string" where
  "squeeze (c # d # s) = (if c = CHR ''_'' \<and> d = CHR ''_'' then squeeze (d # s) else c # squeeze (d # s))"
| "squeeze s = s"

definition trim_underscores :: "string \<Rightarrow> string" where
  "trim_underscores s = rev (dropWhile (\<lambda>c. c = CHR ''_'') (rev (dropWhile (\<lambda>c. c = CHR ''_'') s)))"

text \<open>An operation id that is not a string has no method \<open>replace\<close>.\<close>

definition idFromOp :: "string \<Rightarrow> string \<Rightarrow> jsv \<Rightarrow> string result" where
  "idFromOp path httpMethod op =
     (case js_or (prop_of op ''operationId'') (JStr (httpMethod @ ''_'' @ path)) of
        JStr operationId \<Rightarrow>
          let r = map (\<lambda>c. if special_char c then CHR ''_'' else c) operationId;
              opId = (if r = [] then drop 1 path @ ''_'' @ httpMethod else r)
          in Inr (trim_underscores (squeeze opId))
      | _ \<Rightarrow> Inl (no_method ''replace''))"

section \<open>Operations and groups\<close>

text \<open>The fields of an operation object that the client reads or writes. The nickname of an operation with an
  empty id is the number of its errors.\<close>

record op_obj =
  nickname :: jsv
  o_path :: string
  o_method :: string
  o_host :: string
  o_basePath :: string
  o_scheme :: string
  summary :: string

record op_group =
  label :: string
  operations :: "nat obj"
  g_description :: jsv
  g_externalDocs :: jsv

text \<open>An entry of \<open>apisArray\<close> (module 11, \<open>OperationGroup\<close>).\<close>

record api_entry =
  api_tag :: string
  operationsArray :: "nat list"

record client =
  isBuilt :: bool
  c_host :: string
  c_basePath :: string
  c_scheme :: "string option"
  c_schemes :: "string list"
  securityDefinitions :: jsv
  modelsArray :: "jsv list"
  store :: "op_obj list"
  groups :: "op_group obj"
  apis :: "string obj"
  apisArray :: "api_entry list"

definition nicknames :: "client \<Rightarrow> op_group \<Rightarrow> jsv list" where
  "nicknames cl g = map (\<lambda>kr. nickname (store cl ! snd kr)) (operations g)"

interpretation operation_ids: numbered_names base "\<lambda>k. JStr k \<in> set names" for base names
proof unfold_locales
  have "inj JStr" by (simp add: inj_def)
  then show "finite {k. JStr k \<in> set names}" using finite_vimageI [OF finite_set, of JStr names] by (simp add: vimage_def)
qed

text \<open>The loop ends since a group has finitely many operations.\<close>

function unique_id_from :: "jsv list \<Rightarrow> string \<Rightarrow> nat \<Rightarrow> string" where
  "unique_id_from names operationId n =
     (if JStr (numbered operationId n) \<in> set names then unique_id_from names operationId (n + 1) else numbered operationId n)"
  by pat_completeness auto
termination
  using operation_ids.card_from_less
  by (relation "measure (\<lambda>(names, i, n). card {k. n \<le> k \<and> JStr (numbered i k) \<in> set names})") auto

declare unique_id_from.simps [simp del]

definition makeUniqueOperationId :: "jsv list \<Rightarrow> string \<Rightarrow> string" where
  "makeUniqueOperationId names operationId =
     (if JStr operationId \<in> set names then unique_id_from names operationId 0 else operationId)"

text \<open>Files the operation with reference \<open>ref\<close> under a tag. The id is carried from one tag to the next.\<close>

definition set_nickname :: "nat \<Rightarrow> string \<Rightarrow> client \<Rightarrow> client" where
  "set_nickname ref i cl = cl\<lparr>store := (store cl)[ref := (store cl ! ref)\<lparr>nickname := JStr i\<rparr>]\<rparr>"

definition new_group :: "jsv obj \<Rightarrow> string \<Rightarrow> string \<Rightarrow> string \<Rightarrow> client \<Rightarrow> client" where
  "new_group definedTags tag clientProperty apiProperty cl =
     cl\<lparr>groups := obj_set clientProperty
          \<lparr>label = apiProperty, operations = [], g_description = prop_of (arg definedTags tag) ''description'',
           g_externalDocs = prop_of (arg definedTags tag) ''externalDocs''\<rparr> (groups cl),
        apis := obj_set apiProperty clientProperty (apis cl),
        apisArray := apisArray cl @ [\<lparr>api_tag = tag, operationsArray = []\<rparr>]\<rparr>"

fun push_first :: "string \<Rightarrow> nat \<Rightarrow> api_entry list \<Rightarrow> api_entry list" where
  "push_first tag ref [] = []"
| "push_first tag ref (a # as) =
     (if api_tag a = tag then a\<lparr>operationsArray := operationsArray a @ [ref]\<rparr> # as else a # push_first tag ref as)"

definition file_operation :: "jsv obj \<Rightarrow> nat \<Rightarrow> string \<Rightarrow> client \<times> string \<Rightarrow> (client \<times> string) result" where
  "file_operation definedTags ref tag = (\<lambda>(cl0, id0).
     let clientProperty = escape_tag reservedClientTags tag;
         apiProperty = escape_tag reservedApiTags tag;
         (cl1, id1) = (if id0 \<in> set reservedApiTags then (set_nickname ref (''_'' @ id0) cl0, ''_'' @ id0) else (cl0, id0));
         cl2 = (if obj_get (groups cl1) clientProperty = None then new_group definedTags tag clientProperty apiProperty cl1 else cl1)
     in case obj_get (apis cl2) apiProperty of
          None \<Rightarrow> Inl null_error
        | Some gp \<Rightarrow>
            (case (obj_get (groups cl2) gp, obj_get (groups cl2) clientProperty) of
               (Some ga, Some g) \<Rightarrow>
                 let id2 = makeUniqueOperationId (nicknames cl2 ga) id1
                 in Inr (cl2\<lparr>groups := obj_set clientProperty (g\<lparr>operations := obj_set id2 ref (operations g)\<rparr>) (groups cl2),
                             apisArray := push_first tag ref (apisArray cl2)\<rparr>, id2)
             | _ \<Rightarrow> Inl null_error))"

definition register_operation :: "jsv obj \<Rightarrow> string \<Rightarrow> op_obj \<Rightarrow> string list \<Rightarrow> client \<Rightarrow> client result" where
  "register_operation definedTags operationId op tags cl =
     bindR (foldR (file_operation definedTags (length (store cl))) tags (cl\<lparr>store := store cl @ [op]\<rparr>, operationId))
       (\<lambda>(cl', _). Inr cl')"

section \<open>Operations of a document\<close>

definition is_plain_object :: "jsv \<Rightarrow> bool" where
  "is_plain_object v = (case v of JObj _ \<Rightarrow> True | _ \<Rightarrow> False)"

definition tags_of :: "jsv \<Rightarrow> string list" where
  "tags_of op = (case prop_of op ''tags'' of JArr ts \<Rightarrow> if ts = [] then [''default''] else map to_str ts | _ \<Rightarrow> [''default''])"

definition path_operations :: "jsv \<Rightarrow> (string \<times> string \<times> jsv) list" where
  "path_operations paths =
     concat (map (\<lambda>(path, pathObj).
         if is_plain_object pathObj
         then map (\<lambda>m. (path, m, prop_of pathObj m)) (filter (\<lambda>m. is_plain_object (prop_of pathObj m)) supportedOperationMethods)
         else []) (entries_of paths))"

text \<open>What the constructor of an operation computes of these fields; \<open>win_host\<close> is the host of the browser window.\<close>

definition new_operation :: "string option \<Rightarrow> client \<Rightarrow> string \<Rightarrow> string \<Rightarrow> string \<Rightarrow> jsv \<Rightarrow> op_obj" where
  "new_operation win_host cl operationId httpMethod path args =
     (let bp = (if c_basePath cl = [] then ''/'' else c_basePath cl);
          parent_scheme = (case c_scheme cl of Some s \<Rightarrow> JStr s | None \<Rightarrow> JUndef)
      in \<lparr>nickname = (if operationId = [] then JNum 1 else JStr operationId),
          o_path = path, o_method = httpMethod,
          o_host = (if c_host cl = [] then (case win_host of Some h \<Rightarrow> h | None \<Rightarrow> ''localhost'') else c_host cl),
          o_basePath = (if bp \<noteq> ''/'' \<and> last bp = CHR ''/'' then butlast bp else bp),
          o_scheme = to_str (js_or (prop_of args ''scheme'') (js_or parent_scheme (JStr ''http''))),
          summary = to_str (js_or (prop_of args ''summary'') (JStr []))\<rparr>)"

definition register_path_operation ::
  "string option \<Rightarrow> jsv obj \<Rightarrow> string \<times> string \<times> jsv \<Rightarrow> client \<Rightarrow> client result" where
  "register_path_operation win_host definedTags = (\<lambda>(path, httpMethod, op) cl.
     bindR (idFromOp path httpMethod op) (\<lambda>operationId.
       register_operation definedTags operationId (new_operation win_host cl operationId httpMethod path op) (tags_of op) cl))"

section \<open>Sorting the groups\<close>

text \<open>The groups of the defined tags come first, in the order of the definitions; a group is taken once.\<close>

definition take_tag :: "string \<Rightarrow> api_entry list \<times> api_entry option list \<Rightarrow> api_entry list \<times> api_entry option list" where
  "take_tag tag = (\<lambda>(sorted, rest).
     (sorted @ List.map_filter (\<lambda>a. case a of Some e \<Rightarrow> if tag = api_tag e then Some e else None | None \<Rightarrow> None) rest,
      map (\<lambda>a. case a of Some e \<Rightarrow> if tag = api_tag e then None else Some e | None \<Rightarrow> None) rest))"

definition sort_apis :: "string list \<Rightarrow> api_entry list \<Rightarrow> api_entry list" where
  "sort_apis tags as =
     (let (sorted, rest) = fold take_tag tags ([], map Some as) in sorted @ List.map_filter id rest)"

section \<open>Building the client\<close>

text \<open>The array of models: the definitions with their ids and names.\<close>

definition model_entry :: "string \<times> jsv \<Rightarrow> jsv result" where
  "model_entry = (\<lambda>(definition_name, definitionObj).
     case definitionObj of
       JObj d \<Rightarrow> Inr (JObj (obj_set ''name'' (JStr definition_name) (obj_set ''id'' (JStr (to_lower definition_name)) d)))
     | JArr xs \<Rightarrow> Inr (JArr xs)
     | _ \<Rightarrow> Inl null_error)"

definition str_or_empty :: "jsv \<Rightarrow> string" where
  "str_or_empty v = to_str (js_or v (JStr []))"

definition init_client :: "location option \<Rightarrow> string option \<Rightarrow> jsv \<Rightarrow> jsv \<Rightarrow> client \<Rightarrow> client" where
  "init_client loc protocol sd response cl =
     (let schemes = map to_str (elements (js_or (prop_of response ''schemes'') (JArr [])))
      in cl\<lparr>c_basePath := str_or_empty (prop_of response ''basePath''),
            c_host := choose_host loc (str_or_empty (prop_of response ''host'')),
            c_schemes := schemes,
            c_scheme := choose_scheme loc protocol schemes (c_scheme cl),
            securityDefinitions := sd, apis := [], apisArray := []\<rparr>)"

definition buildFromSpec ::
  "location option \<Rightarrow> string option \<Rightarrow> string option \<Rightarrow> jsv \<Rightarrow> client \<Rightarrow> client result" where
  "buildFromSpec loc protocol win_host response cl =
     (if isBuilt cl then Inr cl
      else bindR (security_definitions (prop_of response ''securityDefinitions'')) (\<lambda>sd.
           bindR (collect_tags (prop_of response ''tags'')) (\<lambda>definedTags.
           bindR (foldR (register_path_operation win_host definedTags) (path_operations (prop_of response ''paths''))
                    (init_client loc protocol sd response cl)) (\<lambda>cl2.
           bindR (mapR model_entry (entries_of (prop_of response ''definitions''))) (\<lambda>ms.
             Inr (cl2\<lparr>apisArray := sort_apis (obj_keys definedTags) (apisArray cl2),
                      modelsArray := modelsArray cl2 @ ms, isBuilt := True\<rparr>))))))"

section \<open>help and the setters\<close>

definition group_help :: "client \<Rightarrow> string \<Rightarrow> nat obj \<Rightarrow> string" where
  "group_help cl name ops =
     ''operations for the '' @ [CHR 0x27] @ name @ [CHR 0x27] @ '' tag'' @ [CHR 0x0A]
     @ concat (map (\<lambda>(k, ref). ''  * '' @ k @ '': '' @ summary (store cl ! ref) @ [CHR 0x0A]) ops)"

definition client_help :: "client \<Rightarrow> string" where
  "client_help cl =
     concat (map (\<lambda>(name, gp). case obj_get (groups cl) gp of None \<Rightarrow> [] | Some g \<Rightarrow> group_help cl name (operations g)) (apis cl))"

definition refs_of :: "client \<Rightarrow> nat set" where
  "refs_of cl = (\<Union>(name, gp) \<in> set (apis cl). case obj_get (groups cl) gp of None \<Rightarrow> {} | Some g \<Rightarrow> snd ` set (operations g))"

definition update_all :: "(op_obj \<Rightarrow> op_obj) \<Rightarrow> client \<Rightarrow> client" where
  "update_all f cl =
     fold (\<lambda>(name, gp) c. case obj_get (groups c) gp of
         None \<Rightarrow> c
       | Some g \<Rightarrow> fold (\<lambda>(k, ref) c'. c'\<lparr>store := (store c')[ref := f (store c' ! ref)]\<rparr>) (operations g) c) (apis cl) cl"

definition setHost :: "string \<Rightarrow> client \<Rightarrow> client" where
  "setHost h cl = update_all (\<lambda>op. op\<lparr>o_host := h\<rparr>) (cl\<lparr>c_host := h\<rparr>)"

definition setBasePath :: "string \<Rightarrow> client \<Rightarrow> client" where
  "setBasePath b cl = update_all (\<lambda>op. op\<lparr>o_basePath := b\<rparr>) (cl\<lparr>c_basePath := b\<rparr>)"

definition setSchemes :: "string list \<Rightarrow> client \<Rightarrow> client" where
  "setSchemes ss cl = (if ss \<noteq> [] then update_all (\<lambda>op. op\<lparr>o_scheme := hd ss\<rparr>) (cl\<lparr>c_schemes := ss\<rparr>) else cl\<lparr>c_schemes := ss\<rparr>)"

section \<open>The scheme\<close>

text \<open>In a browser page the scheme is one that the document declares, provided it declares \<open>http\<close>.\<close>

lemma choose_scheme_declared:
  assumes "''http'' \<in> set schemes" and "\<not> starts_with ''chrome-extension'' p"
  shows "\<exists>s \<in> set schemes. choose_scheme (Some l) (Some p) schemes None = Some s"
proof -
  have "schemes \<noteq> []" using assms(1) by auto
  then show ?thesis using assms by (simp add: choose_scheme_def Let_def)
qed

section \<open>Ids\<close>

definition not_both_underscore :: "char \<Rightarrow> char \<Rightarrow> bool" where
  "not_both_underscore c d \<longleftrightarrow> \<not> (c = CHR ''_'' \<and> d = CHR ''_'')"

text \<open>What the ids of operations look like.\<close>

definition clean_id :: "string \<Rightarrow> bool" where
  "clean_id s \<longleftrightarrow> list_all (\<lambda>c. special_char c \<longrightarrow> c = CHR ''_'') s \<and> successively not_both_underscore s
     \<and> (s = [] \<or> hd s \<noteq> CHR ''_'' \<and> last s \<noteq> CHR ''_'')"

lemma squeeze_shape: "squeeze s = [] \<longleftrightarrow> s = []" "s \<noteq> [] \<Longrightarrow> hd (squeeze s) = hd s"
  by (induction s rule: squeeze.induct) auto

lemma squeeze_successively: "successively not_both_underscore (squeeze s)"
proof (induction s rule: squeeze.induct)
  case (1 c d s)
  then show ?case by (auto simp: successively_Cons squeeze_shape not_both_underscore_def)
qed simp_all

lemma set_squeeze: "set (squeeze s) \<subseteq> set s"
  by (induction s rule: squeeze.induct) auto

lemma successively_dropWhile: "successively P s \<Longrightarrow> successively P (dropWhile Q s)"
  by (metis takeWhile_dropWhile_id successively_append_iff)

lemma successively_underscore_rev: "successively not_both_underscore (rev s) = successively not_both_underscore s"
proof -
  have "(\<lambda>x y. not_both_underscore y x) = not_both_underscore" by (auto simp: not_both_underscore_def fun_eq_iff)
  then show ?thesis by (metis successively_rev)
qed

lemma set_trim_underscores: "set (trim_underscores s) \<subseteq> set s"
  by (auto simp: trim_underscores_def dest!: set_dropWhileD)

lemma hd_dropWhile_rev:
  assumes "s = [] \<or> \<not> P (hd s)" and "rev (dropWhile P (rev s)) \<noteq> []"
  shows "\<not> P (hd (rev (dropWhile P (rev s))))"
proof -
  have "s = rev (dropWhile P (rev s)) @ rev (takeWhile P (rev s))"
    by (metis rev_append rev_rev_ident takeWhile_dropWhile_id)
  then have "hd s = hd (rev (dropWhile P (rev s)))" and "s \<noteq> []"
    using assms(2) by (metis hd_append2, metis append_is_Nil_conv)
  then show ?thesis using assms(1) by simp
qed

lemma trim_underscores_ends:
  "trim_underscores s = [] \<or> hd (trim_underscores s) \<noteq> CHR ''_'' \<and> last (trim_underscores s) \<noteq> CHR ''_''"
proof -
  define t where "t = dropWhile (\<lambda>c. c = CHR ''_'') s"
  define u where "u = rev (dropWhile (\<lambda>c. c = CHR ''_'') (rev t))"
  have "t = [] \<or> hd t \<noteq> CHR ''_''" using hd_dropWhile [of "\<lambda>c. c = CHR ''_''" s] unfolding t_def by blast
  then have "u \<noteq> [] \<Longrightarrow> hd u \<noteq> CHR ''_''" unfolding u_def by (rule hd_dropWhile_rev)
  moreover have "u \<noteq> [] \<Longrightarrow> last u \<noteq> CHR ''_''"
    using hd_dropWhile [of "\<lambda>c. c = CHR ''_''" "rev t"] unfolding u_def by (simp add: last_rev)
  moreover have "trim_underscores s = u" by (simp only: trim_underscores_def t_def u_def)
  ultimately show ?thesis by blast
qed

lemma trim_successively: "successively not_both_underscore s \<Longrightarrow> successively not_both_underscore (trim_underscores s)"
  by (simp add: trim_underscores_def successively_underscore_rev successively_dropWhile del: successively_rev)

lemma idFromOp_clean_lemma:
  assumes "idFromOp path httpMethod op = Inr i"
  shows "clean_id i"
proof -
  obtain s where s: "js_or (prop_of op ''operationId'') (JStr (httpMethod @ ''_'' @ path)) = JStr s"
      "i = trim_underscores (squeeze (if map (\<lambda>c. if special_char c then CHR ''_'' else c) s = []
             then drop 1 path @ ''_'' @ httpMethod else map (\<lambda>c. if special_char c then CHR ''_'' else c) s))"
    using assms by (auto simp: idFromOp_def Let_def split: jsv.splits)
  then have "s \<noteq> []" by (auto simp: js_or_def split: if_splits)
  with s have i: "i = trim_underscores (squeeze (map (\<lambda>c. if special_char c then CHR ''_'' else c) s))" by simp
  have "set i \<subseteq> set (map (\<lambda>c. if special_char c then CHR ''_'' else c) s)"
    unfolding i using set_trim_underscores set_squeeze by blast
  then have "list_all (\<lambda>c. special_char c \<longrightarrow> c = CHR ''_'') i" by (auto simp: list_all_iff split: if_splits)
  then show ?thesis
    unfolding clean_id_def using i trim_underscores_ends trim_successively squeeze_successively by auto
qed

text \<open>The id of an operation has no character that is special in a name but the underscore, no two underscores
  in a row, and no underscore at either end.\<close>

theorem idFromOp_clean: "idFromOp path httpMethod op = Inr i \<Longrightarrow> clean_id i"
  by (rule idFromOp_clean_lemma)

theorem idFromOp_clean_witness:
  "idFromOp ''/pets/{id}'' ''get'' (JObj []) = Inr ''get_pets_id'' \<and> clean_id ''get_pets_id''"
proof -
  have "idFromOp ''/pets/{id}'' ''get'' (JObj []) = Inr ''get_pets_id''" by code_simp
  then show ?thesis using idFromOp_clean by blast
qed

lemma unique_id_from_fresh: "JStr (unique_id_from names i n) \<notin> set names"
  by (induction names i n rule: unique_id_from.induct) (subst unique_id_from.simps, simp)

lemma unique_id_from_least:
  "\<exists>k\<ge>n. unique_id_from names i n = numbered i k \<and> (\<forall>j. n \<le> j \<and> j < k \<longrightarrow> JStr (numbered i j) \<in> set names)"
proof (induction names i n rule: unique_id_from.induct)
  case (1 names i n)
  show ?case
  proof (cases "JStr (numbered i n) \<in> set names")
    case True
    from 1 [OF True] obtain k where "k \<ge> n + 1" "unique_id_from names i (n + 1) = numbered i k"
        "\<forall>j. n + 1 \<le> j \<and> j < k \<longrightarrow> JStr (numbered i j) \<in> set names"
      by auto
    then show ?thesis using True
      by (subst unique_id_from.simps, intro exI [of _ k]) (auto, metis Suc_leI le_neq_implies_less)
  next
    case False
    then show ?thesis by (subst unique_id_from.simps, intro exI [of _ n]) auto
  qed
qed

text \<open>The loop of \<open>makeUniqueOperationId\<close> ends; the id is the one given if no operation of the group has it as
  its nickname, and otherwise the first numbered variant that none has.\<close>

theorem makeUnique_first_free:
  "JStr (makeUniqueOperationId names i) \<notin> set names
   \<and> (makeUniqueOperationId names i = i
      \<or> (\<exists>k. makeUniqueOperationId names i = numbered i k \<and> JStr i \<in> set names
             \<and> {JStr (numbered i j) |j. j < k} \<subseteq> set names))"
proof (cases "JStr i \<in> set names")
  case True
  obtain k where "unique_id_from names i 0 = numbered i k" "\<forall>j. j < k \<longrightarrow> JStr (numbered i j) \<in> set names"
    using unique_id_from_least [of 0 names i] by auto
  then show ?thesis using True unique_id_from_fresh [of names i 0] by (auto simp: makeUniqueOperationId_def)
qed (simp add: makeUniqueOperationId_def)

section \<open>The order of the groups\<close>

definition left_over :: "string set \<Rightarrow> api_entry list \<Rightarrow> api_entry option list" where
  "left_over T as = map (\<lambda>e. if api_tag e \<in> T then None else Some e) as"

lemma take_tag_left_over:
  "t \<notin> T \<Longrightarrow> take_tag t (front, left_over T as) = (front @ filter (\<lambda>e. api_tag e = t) as, left_over (insert t T) as)"
proof (induction as arbitrary: front)
  case (Cons a as)
  then have "List.map_filter (\<lambda>a. case a of Some e \<Rightarrow> if t = api_tag e then Some e else None | None \<Rightarrow> None) (left_over T as)
      = filter (\<lambda>e. api_tag e = t) as"
    using Cons.IH [of "[]"] by (simp add: take_tag_def)
  with Cons show ?case by (auto simp: take_tag_def left_over_def map_filter_simps)
qed (simp add: take_tag_def left_over_def map_filter_simps)

lemma fold_take_tag:
  "distinct tags \<Longrightarrow> set tags \<inter> T = {} \<Longrightarrow>
   fold take_tag tags (front, left_over T as)
     = (front @ concat (map (\<lambda>t. filter (\<lambda>e. api_tag e = t) as) tags), left_over (T \<union> set tags) as)"
proof (induction tags arbitrary: front T)
  case (Cons t tags)
  then show ?case using Cons.IH [of "insert t T"] by (simp add: take_tag_left_over insert_commute)
qed simp

lemma map_filter_left_over: "List.map_filter id (left_over T as) = filter (\<lambda>e. api_tag e \<notin> T) as"
  by (induction as) (auto simp: left_over_def map_filter_simps)

lemma sort_apis_eq:
  assumes "distinct tags"
  shows "sort_apis tags as = concat (map (\<lambda>t. filter (\<lambda>e. api_tag e = t) as) tags) @ filter (\<lambda>e. api_tag e \<notin> set tags) as"
proof -
  have "map Some as = left_over {} as" by (simp add: left_over_def)
  then show ?thesis using fold_take_tag [OF assms, of "{}" "[]" as] by (simp add: sort_apis_def map_filter_left_over)
qed

lemma mset_by_tag:
  "distinct tags \<Longrightarrow> mset (concat (map (\<lambda>t. filter (\<lambda>e. api_tag e = t) as) tags)) = filter_mset (\<lambda>e. api_tag e \<in> set tags) (mset as)"
proof (induction tags)
  case (Cons t tags)
  have "filter_mset (\<lambda>e. api_tag e \<in> set (t # tags)) (mset as)
      = filter_mset (\<lambda>e. api_tag e = t) (mset as) + filter_mset (\<lambda>e. api_tag e \<in> set tags) (mset as)"
    using Cons.prems by (induction as) auto
  then show ?case using Cons by simp
qed simp

lemma sort_apis_mset:
  assumes "distinct tags"
  shows "mset (sort_apis tags as) = mset as"
proof -
  have "mset (sort_apis tags as)
      = filter_mset (\<lambda>e. api_tag e \<in> set tags) (mset as) + filter_mset (\<lambda>e. api_tag e \<notin> set tags) (mset as)"
    unfolding sort_apis_eq [OF assms] mset_append mset_by_tag [OF assms] mset_filter ..
  then show ?thesis by (simp flip: multiset_partition)
qed

lemma set_sort_apis: "distinct tags \<Longrightarrow> set (sort_apis tags as) = set as"
  by (metis set_mset_mset sort_apis_mset)

text \<open>Sorting the groups loses and duplicates none: first come the groups of the defined tags in the order of their
  definitions, then the others in the order in which they were met.\<close>

theorem sort_apis_order:
  assumes "distinct tags"
  shows "mset (sort_apis tags as) = mset as
    \<and> sort_apis tags as = concat (map (\<lambda>t. filter (\<lambda>e. api_tag e = t) as) tags) @ filter (\<lambda>e. api_tag e \<notin> set tags) as"
  using sort_apis_mset [OF assms] sort_apis_eq [OF assms] by (rule conjI)

theorem sort_apis_order_witness:
  "map api_tag (sort_apis [''b'', ''z''] [\<lparr>api_tag = ''a'', operationsArray = []\<rparr>, \<lparr>api_tag = ''b'', operationsArray = [0]\<rparr>])
   = [''b'', ''a'']"
proof -
  have "distinct [''b'', ''z'']" by simp
  from conjunct2 [OF sort_apis_order [OF this]] show ?thesis by simp
qed

section \<open>The setters\<close>

definition all_refs :: "client \<Rightarrow> nat list" where
  "all_refs cl = concat (map (\<lambda>(name, gp). case obj_get (groups cl) gp of None \<Rightarrow> [] | Some g \<Rightarrow> map snd (operations g)) (apis cl))"

definition update_refs :: "(op_obj \<Rightarrow> op_obj) \<Rightarrow> nat list \<Rightarrow> op_obj list \<Rightarrow> op_obj list" where
  "update_refs f rs st = fold (\<lambda>r st. st[r := f (st ! r)]) rs st"

lemma update_refs_append: "update_refs f (rs @ rs') st = update_refs f rs' (update_refs f rs st)"
  by (simp add: update_refs_def)

lemma update_group:
  "fold (\<lambda>(k, ref) c'. c'\<lparr>store := (store c')[ref := f (store c' ! ref)]\<rparr>) ops c = c\<lparr>store := update_refs f (map snd ops) (store c)\<rparr>"
  by (induction ops arbitrary: c) (auto simp: update_refs_def)

lemma update_apis:
  "fold (\<lambda>(name, gp) c. case obj_get (groups c) gp of
         None \<Rightarrow> c
       | Some g \<Rightarrow> fold (\<lambda>(k, ref) c'. c'\<lparr>store := (store c')[ref := f (store c' ! ref)]\<rparr>) (operations g) c) as cl
   = cl\<lparr>store := update_refs f (concat (map (\<lambda>(name, gp). case obj_get (groups cl) gp of None \<Rightarrow> [] | Some g \<Rightarrow> map snd (operations g)) as)) (store cl)\<rparr>"
proof (induction as arbitrary: cl)
  case (Cons a as)
  obtain name gp where a: "a = (name, gp)" by (cases a)
  show ?case
  proof (cases "obj_get (groups cl) gp")
    case None
    then show ?thesis using Cons [of cl] a by simp
  next
    case (Some g)
    then show ?thesis using Cons [of "cl\<lparr>store := update_refs f (map snd (operations g)) (store cl)\<rparr>"] a
      by (simp add: update_group update_refs_append)
  qed
qed (simp add: update_refs_def)

lemma update_all_eq: "update_all f cl = cl\<lparr>store := update_refs f (all_refs cl) (store cl)\<rparr>"
  by (simp add: update_all_def update_apis all_refs_def)

lemma update_refs_length [simp]: "length (update_refs f rs st) = length st"
  by (induction rs arbitrary: st) (auto simp: update_refs_def)

lemma update_refs_nth:
  assumes "\<And>x. f (f x) = f x" and "r < length st"
  shows "update_refs f rs st ! r = (if r \<in> set rs then f (st ! r) else st ! r)"
  using assms(2)
proof (induction rs arbitrary: st)
  case (Cons r' rs)
  then show ?case using Cons.IH [of "st[r' := f (st ! r')]"] assms(1)
    by (cases "r' = r") (auto simp: update_refs_def)
qed (simp add: update_refs_def)

text \<open>What the setters share: each writes one field of the operations, and of the client itself a field that does not
  take part in reaching the operations.\<close>

locale operation_setter =
  fixes set_field :: "'v \<Rightarrow> op_obj \<Rightarrow> op_obj" and set_own :: "'v \<Rightarrow> client \<Rightarrow> client"
  assumes overwrite: "set_field v (set_field w op) = set_field v op"
    and own: "store (set_own v cl) = store cl" "groups (set_own v cl) = groups cl" "apis (set_own v cl) = apis cl"
      "apisArray (set_own v cl) = apisArray cl"
begin

lemma own_refs: "all_refs (set_own v cl) = all_refs cl"
  by (simp add: all_refs_def own)

lemma reaches_all:
  assumes "r < length (store cl)"
  shows "store (update_all (set_field v) (set_own v cl)) ! r = (if r \<in> set (all_refs cl) then set_field v (store cl ! r) else store cl ! r)"
  using assms by (simp add: update_all_eq update_refs_nth overwrite own own_refs)

lemma keeps_groups:
  "groups (update_all (set_field v) (set_own v cl)) = groups cl" "apis (update_all (set_field v) (set_own v cl)) = apis cl"
  "apisArray (update_all (set_field v) (set_own v cl)) = apisArray cl"
  by (simp_all add: update_all_eq own)

lemma last_wins:
  assumes "r < length (store cl)" "r \<in> set (all_refs cl)"
  shows "store (update_all (set_field v) (set_own v (update_all (set_field w) (set_own w cl)))) ! r = set_field v (store cl ! r)"
proof -
  let ?cl = "update_all (set_field w) (set_own w cl)"
  have "all_refs ?cl = all_refs cl" by (simp add: all_refs_def keeps_groups)
  moreover have "r < length (store ?cl)" using assms(1) by (simp add: update_all_eq own)
  ultimately show ?thesis using reaches_all [of r ?cl v] reaches_all [OF assms(1), of w] assms(2) by (simp add: overwrite)
qed

end

interpretation hosts: operation_setter "\<lambda>h op. op\<lparr>o_host := h\<rparr>" "\<lambda>h cl. cl\<lparr>c_host := h\<rparr>"
  by unfold_locales simp_all

interpretation base_paths: operation_setter "\<lambda>b op. op\<lparr>o_basePath := b\<rparr>" "\<lambda>b cl. cl\<lparr>c_basePath := b\<rparr>"
  by unfold_locales simp_all

interpretation schemes: operation_setter "\<lambda>ss op. op\<lparr>o_scheme := hd ss\<rparr>" "\<lambda>ss cl. cl\<lparr>c_schemes := ss\<rparr>"
  by unfold_locales simp_all

text \<open>The setters reach every operation that is in a group, change the field they set and nothing else of it, and
  leave the other operations, the groups and the list of groups as they are; an empty list of schemes changes no
  operation.\<close>

theorem setters_reach_all:
  assumes "r < length (store cl)"
  shows "store (setHost h cl) ! r = (if r \<in> set (all_refs cl) then (store cl ! r)\<lparr>o_host := h\<rparr> else store cl ! r)
    \<and> store (setBasePath b cl) ! r = (if r \<in> set (all_refs cl) then (store cl ! r)\<lparr>o_basePath := b\<rparr> else store cl ! r)
    \<and> store (setSchemes ss cl) ! r
        = (if ss \<noteq> [] \<and> r \<in> set (all_refs cl) then (store cl ! r)\<lparr>o_scheme := hd ss\<rparr> else store cl ! r)
    \<and> groups (setHost h cl) = groups cl \<and> groups (setBasePath b cl) = groups cl \<and> groups (setSchemes ss cl) = groups cl"
proof -
  have "store (setSchemes ss cl) ! r
      = (if ss \<noteq> [] \<and> r \<in> set (all_refs cl) then (store cl ! r)\<lparr>o_scheme := hd ss\<rparr> else store cl ! r)"
    unfolding setSchemes_def using schemes.reaches_all [OF assms, of ss] by simp
  moreover have "groups (setSchemes ss cl) = groups cl" unfolding setSchemes_def by (simp add: schemes.keeps_groups)
  ultimately show ?thesis
    unfolding setHost_def setBasePath_def hosts.keeps_groups base_paths.keeps_groups
      hosts.reaches_all [OF assms] base_paths.reaches_all [OF assms] by (intro conjI refl)
qed

section \<open>The invariant of the client\<close>

definition known_refs :: "nat \<Rightarrow> nat list \<Rightarrow> bool" where
  "known_refs n rs \<longleftrightarrow> list_all (\<lambda>r. r < n) rs"

text \<open>
  Every reference is to an operation, every group is an object with distinct keys, every entry of \<open>apis\<close> names a group,
  the entries of \<open>apisArray\<close> have different tags, and the groups are those of the tags of these entries.
\<close>

definition client_ok :: "client \<Rightarrow> bool" where
  "client_ok cl \<longleftrightarrow>
     (\<forall>p g. obj_get (groups cl) p = Some g \<longrightarrow> obj_ok (operations g) \<and> known_refs (length (store cl)) (map snd (operations g)))
     \<and> obj_ok (groups cl) \<and> obj_ok (apis cl)
     \<and> (\<forall>a p. obj_get (apis cl) a = Some p \<longrightarrow> obj_get (groups cl) p \<noteq> None)
     \<and> distinct (map api_tag (apisArray cl))
     \<and> (\<forall>a \<in> set (apisArray cl). known_refs (length (store cl)) (operationsArray a))
     \<and> (\<forall>p. obj_get (groups cl) p \<noteq> None \<longleftrightarrow> p \<in> escape_tag reservedClientTags ` set (map api_tag (apisArray cl)))"

definition listed :: "client \<Rightarrow> string \<Rightarrow> nat \<Rightarrow> bool" where
  "listed cl tag r \<longleftrightarrow> (\<exists>a \<in> set (apisArray cl). api_tag a = tag \<and> r \<in> set (operationsArray a))"

lemma known_refs_mono: "known_refs m rs \<Longrightarrow> m \<le> n \<Longrightarrow> known_refs n rs"
  by (auto simp: known_refs_def list_all_iff)

lemma known_refs_set: "known_refs n (map snd ops) \<Longrightarrow> r < n \<Longrightarrow> known_refs n (map snd (obj_set k r ops))"
  by (induction ops) (auto simp: known_refs_def)

lemma client_ok_set_nickname [simp]: "client_ok (set_nickname r i cl) = client_ok cl"
  by (simp add: client_ok_def set_nickname_def)

lemma client_ok_store: "client_ok cl \<Longrightarrow> client_ok (cl\<lparr>store := store cl @ [op]\<rparr>)"
  using known_refs_mono [of "length (store cl)" _ "Suc (length (store cl))"] by (auto simp: client_ok_def)

lemma client_ok_new_group:
  assumes ok: "client_ok cl" and "obj_get (groups cl) (escape_tag reservedClientTags tag) = None"
  shows "client_ok (new_group definedTags tag (escape_tag reservedClientTags tag) ap cl)"
proof -
  have "escape_tag reservedClientTags tag \<notin> escape_tag reservedClientTags ` set (map api_tag (apisArray cl))"
    using assms unfolding client_ok_def by metis
  then have "tag \<notin> set (map api_tag (apisArray cl))" by (metis imageI)
  then show ?thesis using ok
    by (auto simp: client_ok_def new_group_def obj.get_set known_refs_def)
qed

lemma push_first_tags [simp]: "map api_tag (push_first tag r as) = map api_tag as"
  by (induction as) auto

lemma push_first_known: "\<forall>a \<in> set as. known_refs n (operationsArray a) \<Longrightarrow> r < n \<Longrightarrow>
    \<forall>a \<in> set (push_first tag r as). known_refs n (operationsArray a)"
  by (induction as) (auto simp: known_refs_def)

definition add_to_group :: "string \<Rightarrow> op_group \<Rightarrow> string \<Rightarrow> nat \<Rightarrow> string \<Rightarrow> client \<Rightarrow> client" where
  "add_to_group p g k r tag cl =
     cl\<lparr>groups := obj_set p (g\<lparr>operations := obj_set k r (operations g)\<rparr>) (groups cl), apisArray := push_first tag r (apisArray cl)\<rparr>"

lemma client_ok_add:
  assumes ok: "client_ok cl" and "obj_get (groups cl) p = Some g" and "r < length (store cl)"
  shows "client_ok (add_to_group p g k r tag cl)"
proof -
  have "obj_ok (operations g)" "known_refs (length (store cl)) (map snd (operations g))"
    using assms by (auto simp: client_ok_def)
  then show ?thesis using assms push_first_known [of "apisArray cl" "length (store cl)" r tag]
    unfolding client_ok_def add_to_group_def
    by (auto simp: obj.get_set known_refs_set simp flip: set_map)
qed


section \<open>Filing operations\<close>

definition ops_of :: "client \<Rightarrow> (string \<times> string) list" where
  "ops_of cl = map (\<lambda>op. (o_path op, o_method op)) (store cl)"

text \<open>Tags that are used as property names as they are and that no escaped tag can clash with.\<close>

definition plain_tag :: "string \<Rightarrow> bool" where
  "plain_tag t \<longleftrightarrow> t \<notin> set reservedClientTags \<and> \<not> starts_with ''_'' t"

text \<open>What every step of filing operations keeps.\<close>

definition grows :: "client \<Rightarrow> client \<Rightarrow> bool" where
  "grows cl cl' \<longleftrightarrow> ops_of cl' = ops_of cl \<and> (\<forall>t q. listed cl t q \<longrightarrow> listed cl' t q)"

lemma grows_refl: "grows cl cl"
  by (simp add: grows_def)

lemma grows_trans: "grows a b \<Longrightarrow> grows b c \<Longrightarrow> grows a c"
  by (simp add: grows_def)

lemma grows_length: "grows cl cl' \<Longrightarrow> length (store cl') = length (store cl)"
  unfolding grows_def ops_of_def by (metis length_map)

lemma grows_set_nickname: "grows cl (set_nickname r i cl)"
proof -
  have "map (\<lambda>op. (o_path op, o_method op)) ((store cl)[r := (store cl ! r)\<lparr>nickname := JStr i\<rparr>]) = ops_of cl"
    unfolding ops_of_def by (cases "r < length (store cl)") (simp_all add: map_update list_update_same_conv list_update_beyond)
  then show ?thesis by (simp add: grows_def set_nickname_def ops_of_def listed_def)
qed

lemma grows_new_group: "grows cl (new_group definedTags tag p ap cl)"
  by (auto simp: grows_def new_group_def ops_of_def listed_def)

lemma push_first_listed:
  "a \<in> set as \<Longrightarrow> q \<in> set (operationsArray a) \<Longrightarrow>
   \<exists>b \<in> set (push_first tag r as). api_tag b = api_tag a \<and> q \<in> set (operationsArray b)"
  by (induction as) auto

lemma push_first_adds:
  "a \<in> set as \<Longrightarrow> api_tag a = tag \<Longrightarrow> \<exists>b \<in> set (push_first tag r as). api_tag b = tag \<and> r \<in> set (operationsArray b)"
  by (induction as) auto

lemma grows_add: "grows cl (add_to_group p g k r tag cl)"
  using push_first_listed by (fastforce simp: grows_def add_to_group_def ops_of_def listed_def)

lemma plain_tag_entry:
  assumes "plain_tag tag" and "client_ok cl" and "obj_get (groups cl) (escape_tag reservedClientTags tag) = Some g"
  shows "\<exists>a \<in> set (apisArray cl). api_tag a = tag"
proof -
  from assms(2,3) have "escape_tag reservedClientTags tag \<in> escape_tag reservedClientTags ` set (map api_tag (apisArray cl))"
    unfolding client_ok_def by (metis option.distinct(1))
  then obtain a where "a \<in> set (apisArray cl)" "escape_tag reservedClientTags tag = escape_tag reservedClientTags (api_tag a)"
    by auto
  with assms(1) show ?thesis by (auto simp: plain_tag_def escape_tag_def split: if_splits)
qed

lemma file_operation_steps:
  assumes "file_operation definedTags r tag (cl, i) = Inr (cl', i')" and "client_ok cl" and "r < length (store cl)"
  obtains cl2 g where "client_ok cl2" "grows cl cl2" "obj_get (groups cl2) (escape_tag reservedClientTags tag) = Some g"
    "cl' = add_to_group (escape_tag reservedClientTags tag) g i' r tag cl2"
proof -
  define p where "p = escape_tag reservedClientTags tag"
  define cl1 where "cl1 = (if i \<in> set reservedApiTags then set_nickname r (''_'' @ i) cl else cl)"
  define cl2 where "cl2 = (if obj_get (groups cl1) p = None then new_group definedTags tag p (escape_tag reservedApiTags tag) cl1 else cl1)"
  have 1: "client_ok cl1" "grows cl cl1"
    using assms(2) by (simp_all add: cl1_def grows_set_nickname grows_refl)
  have "client_ok cl2" using 1(1) by (simp add: cl2_def p_def client_ok_new_group)
  moreover have "grows cl1 cl2" by (simp add: cl2_def grows_new_group grows_refl)
  then have "grows cl cl2" using 1(2) grows_trans by blast
  moreover obtain g where "obj_get (groups cl2) p = Some g" "cl' = add_to_group p g i' r tag cl2"
    using assms(1) unfolding file_operation_def Let_def p_def [symmetric] add_to_group_def
    by (auto simp: cl2_def cl1_def split: option.splits if_splits)
  ultimately show ?thesis using that by (simp add: p_def)
qed

lemma file_operation_ok:
  assumes "file_operation definedTags r tag (cl, i) = Inr (cl', i')" and "client_ok cl" and "r < length (store cl)"
  shows "client_ok cl'" and "grows cl cl'" and "plain_tag tag \<Longrightarrow> listed cl' tag r"
proof -
  obtain cl2 g where *: "client_ok cl2" "grows cl cl2" "obj_get (groups cl2) (escape_tag reservedClientTags tag) = Some g"
      "cl' = add_to_group (escape_tag reservedClientTags tag) g i' r tag cl2"
    using file_operation_steps [OF assms] by blast
  then show "client_ok cl'" using client_ok_add grows_length assms(3) by metis
  show "grows cl cl'" using * grows_add grows_trans by blast
  show "listed cl' tag r" if "plain_tag tag"
    using plain_tag_entry [OF that *(1,3)] push_first_adds *(4) by (fastforce simp: listed_def add_to_group_def)
qed

lemma file_all_ok:
  assumes "foldR (file_operation definedTags r) tags (cl, i) = Inr (cl', i')" and "client_ok cl" and "r < length (store cl)"
  shows "client_ok cl' \<and> grows cl cl' \<and> (\<forall>t \<in> set tags. plain_tag t \<longrightarrow> listed cl' t r)"
  using assms
proof (induction tags arbitrary: cl i)
  case (Cons tag tags)
  then obtain cl1 i1 where 1: "file_operation definedTags r tag (cl, i) = Inr (cl1, i1)"
      and 2: "foldR (file_operation definedTags r) tags (cl1, i1) = Inr (cl', i')"
    by (auto simp: bindR_Inr_iff)
  note ok = file_operation_ok [OF 1 Cons.prems(2,3)]
  from Cons.IH [OF 2 ok(1)] grows_length [OF ok(2)] Cons.prems(3)
  have "client_ok cl'" "grows cl1 cl'" "\<forall>t \<in> set tags. plain_tag t \<longrightarrow> listed cl' t r" by auto
  then show ?case using ok grows_trans by (auto simp: grows_def)
qed (simp add: grows_refl)

lemma register_operation_ok:
  assumes "register_operation definedTags i op tags cl = Inr cl'" and "client_ok cl"
  shows "client_ok cl' \<and> ops_of cl' = ops_of cl @ [(o_path op, o_method op)] \<and> (\<forall>t q. listed cl t q \<longrightarrow> listed cl' t q)
    \<and> (\<forall>t \<in> set tags. plain_tag t \<longrightarrow> listed cl' t (length (store cl)))"
proof -
  let ?cl = "cl\<lparr>store := store cl @ [op]\<rparr>"
  obtain i' where "foldR (file_operation definedTags (length (store cl))) tags (?cl, i) = Inr (cl', i')"
    using assms(1) by (auto simp: register_operation_def bindR_Inr_iff)
  from file_all_ok [OF this client_ok_store [OF assms(2)]]
  show ?thesis by (simp add: grows_def ops_of_def listed_def)
qed


section \<open>The built client\<close>

lemma register_path_operation_ok:
  assumes "register_path_operation win_host definedTags (path, m, op) cl = Inr cl'" and "client_ok cl"
  shows "client_ok cl' \<and> ops_of cl' = ops_of cl @ [(path, m)] \<and> (\<forall>t q. listed cl t q \<longrightarrow> listed cl' t q)
    \<and> (\<forall>t \<in> set (tags_of op). plain_tag t \<longrightarrow> listed cl' t (length (store cl)))"
proof -
  obtain i where "register_operation definedTags i (new_operation win_host cl i m path op) (tags_of op) cl = Inr cl'"
    using assms(1) by (auto simp: register_path_operation_def bindR_Inr_iff)
  moreover have "o_path (new_operation win_host cl i m path op) = path" "o_method (new_operation win_host cl i m path op) = m"
    by (simp_all add: new_operation_def Let_def)
  ultimately show ?thesis using register_operation_ok assms(2) by metis
qed

lemma register_all_ok:
  assumes "foldR (register_path_operation win_host definedTags) ops cl = Inr cl'" and "client_ok cl"
  shows "client_ok cl' \<and> ops_of cl' = ops_of cl @ map (\<lambda>(path, m, op). (path, m)) ops \<and> (\<forall>t q. listed cl t q \<longrightarrow> listed cl' t q)
    \<and> (\<forall>k < length ops. \<forall>t \<in> set (tags_of (snd (snd (ops ! k)))). plain_tag t \<longrightarrow> listed cl' t (length (store cl) + k))"
  using assms
proof (induction ops arbitrary: cl)
  case (Cons x ops)
  obtain path m op where x: "x = (path, m, op)" by (cases x)
  obtain cl1 where 1: "register_path_operation win_host definedTags (path, m, op) cl = Inr cl1"
      and 2: "foldR (register_path_operation win_host definedTags) ops cl1 = Inr cl'"
    using Cons.prems(1) by (auto simp: x bindR_Inr_iff)
  note step = register_path_operation_ok [OF 1 Cons.prems(2)]
  then have len: "length (store cl1) = Suc (length (store cl))" by (metis ops_of_def length_append_singleton length_map)
  note rest = Cons.IH [OF 2 conjunct1 [OF step]]
  have "listed cl' t (length (store cl) + k)"
    if "k < length (x # ops)" "t \<in> set (tags_of (snd (snd ((x # ops) ! k))))" "plain_tag t" for k t
    using that step rest len by (cases k) (auto simp: x)
  then show ?case using step rest by (simp add: x)
qed simp

lemma collect_tag_ok: "collect_tag t dt = Inr dt' \<Longrightarrow> obj_ok dt \<Longrightarrow> obj_ok dt'"
  by (auto simp: collect_tag_def bindR_Inr_iff split: jsv.splits)

lemma collect_tags_ok: "collect_tags v = Inr dt \<Longrightarrow> distinct (obj_keys dt)"
  unfolding collect_tags_def obj_ok_def [symmetric]
  by (auto split: jsv.splits elim!: foldR_invariant [where I = obj_ok] dest: collect_tag_ok)

lemma client_ok_reorder:
  assumes "groups cl' = groups cl" "store cl' = store cl" "apis cl' = apis cl" "set (apisArray cl') = set (apisArray cl)"
    and "distinct (map api_tag (apisArray cl')) = distinct (map api_tag (apisArray cl))"
  shows "client_ok cl' = client_ok cl"
  unfolding client_ok_def assms set_map ..

lemma client_ok_sorted:
  assumes "client_ok cl" and "distinct tags"
  shows "client_ok (cl\<lparr>apisArray := sort_apis tags (apisArray cl), modelsArray := ms, isBuilt := b\<rparr>)"
proof -
  have "mset (map api_tag (sort_apis tags (apisArray cl))) = mset (map api_tag (apisArray cl))"
    using sort_apis_mset [OF assms(2)] by (metis mset_map)
  then have "distinct (map api_tag (sort_apis tags (apisArray cl))) = distinct (map api_tag (apisArray cl))"
    by (rule mset_eq_imp_distinct_iff)
  then show ?thesis using assms by (subst client_ok_reorder [of _ cl]) (simp_all add: set_sort_apis)
qed

definition fresh_client :: client where
  "fresh_client = \<lparr>isBuilt = False, c_host = [], c_basePath = [], c_scheme = None, c_schemes = [],
     securityDefinitions = JUndef, modelsArray = [], store = [], groups = [], apis = [], apisArray = []\<rparr>"

lemma client_ok_init: "client_ok (init_client loc protocol sd response fresh_client)"
  by (simp add: client_ok_def init_client_def fresh_client_def Let_def)

lemma build_steps:
  assumes "buildFromSpec loc protocol win_host response fresh_client = Inr cl'"
  obtains definedTags sd cl2 where "distinct (obj_keys definedTags)"
    "foldR (register_path_operation win_host definedTags) (path_operations (prop_of response ''paths''))
       (init_client loc protocol sd response fresh_client) = Inr cl2"
    "\<exists>ms. cl' = cl2\<lparr>apisArray := sort_apis (obj_keys definedTags) (apisArray cl2), modelsArray := ms, isBuilt := True\<rparr>"
proof -
  have "\<not> isBuilt fresh_client" by (simp add: fresh_client_def)
  with assms show ?thesis using that
    by (auto simp: buildFromSpec_def bindR_Inr_iff dest!: collect_tags_ok)
qed

lemma init_fresh: "store (init_client loc protocol sd response fresh_client) = []"
  by (simp add: init_client_def fresh_client_def Let_def)


text \<open>C11: Every operation of the document is listed under each of its tags (for tags that need no escaping and do not
  begin with an underscore).\<close>

theorem operations_listed:
  assumes "buildFromSpec loc protocol win_host response fresh_client = Inr cl'"
    and "k < length (path_operations (prop_of response ''paths''))"
    and "t \<in> set (tags_of (snd (snd (path_operations (prop_of response ''paths'') ! k))))" and "plain_tag t"
  shows "listed cl' t k"
proof -
  obtain dt sd cl2 ms where *: "distinct (obj_keys dt)"
      "foldR (register_path_operation win_host dt) (path_operations (prop_of response ''paths''))
         (init_client loc protocol sd response fresh_client) = Inr cl2"
      "cl' = cl2\<lparr>apisArray := sort_apis (obj_keys dt) (apisArray cl2), modelsArray := ms, isBuilt := True\<rparr>"
    using build_steps [OF assms(1)] by metis
  from register_all_ok [OF *(2) client_ok_init] assms(2-4) have "listed cl2 t k" by (simp add: init_fresh)
  then show ?thesis using *(1) by (simp add: *(3) listed_def set_sort_apis)
qed

definition sample_doc :: jsv where
  "sample_doc = JObj [(''tags'', JArr [JObj [(''name'', JStr ''b'')]]),
     (''paths'', JObj [(''/x'', JObj [(''get'', JObj [(''operationId'', JStr ''f''), (''tags'', JArr [JStr ''a'', JStr ''b''])]),
                                  (''put'', JObj [(''operationId'', JStr ''f''), (''tags'', JArr [JStr ''a''])])]),
                   (''/y'', JObj [(''get'', JObj [(''operationId'', JStr ''f''), (''tags'', JArr [JStr ''a''])])])])]"

definition sample_built :: "client result" where
  "sample_built = buildFromSpec None None None sample_doc fresh_client"

lemma sample_built_ok: "\<exists>cl. sample_built = Inr cl"
proof -
  have "(case sample_built of Inl e \<Rightarrow> False | Inr cl \<Rightarrow> True)" by code_simp
  then show ?thesis by (auto split: sum.splits)
qed


theorem operations_listed_witness: "\<exists>cl. sample_built = Inr cl \<and> listed cl ''b'' 0"
proof -
  obtain cl where cl: "sample_built = Inr cl" using sample_built_ok by blast
  have "0 < length (path_operations (prop_of sample_doc ''paths''))"
      "''b'' \<in> set (tags_of (snd (snd (path_operations (prop_of sample_doc ''paths'') ! 0))))" "plain_tag ''b''"
    by code_simp+
  then show ?thesis using operations_listed [OF cl [unfolded sample_built_def]] cl by blast
qed

text \<open>The third operation with one id and tag takes the place of the second: \<open>makeUniqueOperationId\<close> looks at the
  nicknames, which keep the id as it was given.\<close>

lemma third_operation_overwrites:
  "(case sample_built of Inr cl \<Rightarrow> map_option operations (obj_get (groups cl) ''a'') | Inl e \<Rightarrow> None)
   = Some [(''f'', 0), (''f_0'', 2)]"
  by code_simp

theorem setters_reach_all_witness:
  "\<exists>cl. sample_built = Inr cl \<and> o_host (store (setHost ''h'' cl) ! 0) = ''h''"
proof -
  obtain cl where cl: "sample_built = Inr cl" using sample_built_ok by blast
  have "(case sample_built of Inr cl \<Rightarrow> 0 < length (store cl) \<and> 0 \<in> set (all_refs cl) | Inl e \<Rightarrow> False)" by code_simp
  then have "0 < length (store cl)" "0 \<in> set (all_refs cl)" unfolding cl by simp_all
  then have "o_host (store (setHost ''h'' cl) ! 0) = ''h''" using setters_reach_all [of 0 cl "''h''"] by simp
  then show ?thesis using cl by blast
qed

end
