(* ===== verification/Uri.thy ===== *)
theory Uri
  imports Client
begin

text \<open>
  Taking apart the url of a document (module 3 of \<open>swagger-ui.js\<close>, \<open>SwaggerClient.parseUri\<close>), one regular expression.
  Regular expressions are matched as the language says: by backtracking, with greedy repetition, which rejects an
  iteration that consumes nothing, and with numbered groups. Then the scheme and host of a client whose document does
  not name them.
\<close>

section \<open>Regular expressions\<close>

datatype re =
    Cls "char \<Rightarrow> bool"
  | Seq re re
  | Alt re re
  | Opt re
  | Star re
  | Group nat re

type_synonym caps = "nat \<Rightarrow> string option"

type_synonym matcher = "string \<Rightarrow> caps \<Rightarrow> (string \<Rightarrow> caps \<Rightarrow> caps option) \<Rightarrow> caps option"

definition or_else :: "'a option \<Rightarrow> 'a option \<Rightarrow> 'a option" where
  "or_else a b = (case a of None \<Rightarrow> b | Some x \<Rightarrow> Some x)"

text \<open>An iteration consumes at least one character, so that the length of the text bounds their number.\<close>

fun repeat :: "matcher \<Rightarrow> nat \<Rightarrow> matcher" where
  "repeat m 0 s c k = k s c"
| "repeat m (Suc n) s c k =
     or_else (m s c (\<lambda>s' c'. if length s' < length s then repeat m n s' c' k else None)) (k s c)"

primrec match :: "re \<Rightarrow> matcher" where
  "match (Cls P) s c k = (case s of [] \<Rightarrow> None | x # xs \<Rightarrow> if P x then k xs c else None)"
| "match (Seq a b) s c k = match a s c (\<lambda>s' c'. match b s' c' k)"
| "match (Alt a b) s c k = or_else (match a s c k) (match b s c k)"
| "match (Opt a) s c k = or_else (match a s c (\<lambda>s' c'. if length s' < length s then k s' c' else None)) (k s c)"
| "match (Star a) s c k = repeat (match a) (length s) s c k"
| "match (Group n a) s c k = match a s c (\<lambda>s' c'. k s' (c'(n := Some (take (length s - length s') s))))"

definition exec :: "re \<Rightarrow> string \<Rightarrow> caps option" where
  "exec r s = match r s (\<lambda>_. None) (\<lambda>_ c. Some c)"

definition Plus :: "re \<Rightarrow> re" where
  "Plus a = Seq a (Star a)"

definition Not_in :: "string \<Rightarrow> re" where
  "Not_in cs = Cls (\<lambda>x. x \<notin> set cs)"

definition Lit :: "char \<Rightarrow> re" where
  "Lit x = Cls (\<lambda>y. y = x)"

definition Digit :: re where
  "Digit = Cls is_digit"

section \<open>The regular expression of a url\<close>

text \<open>Its groups are 4 the scheme with its colon, 5 the slashes, 7 to 9 user and password, 10 to 12 host and port, 14 the
  directory, 15 the file, 16 the query, 17 the fragment.\<close>

definition user_re :: re where
  "user_re = Opt (Seq (Group 7 (Seq (Group 8 (Plus (Not_in '':@/#?''))) (Opt (Seq (Lit CHR '':'') (Group 9 (Plus (Not_in '':@/#?'')))))))
     (Lit CHR ''@''))"

definition host_re :: re where
  "host_re = Group 10 (Seq (Group 11 (Alt (Plus (Not_in '':/#?][''))
       (Seq (Lit CHR ''['') (Seq (Plus (Not_in ''/]@#?'')) (Lit CHR '']'')))))
     (Opt (Seq (Lit CHR '':'') (Group 12 (Plus Digit)))))"

definition authority_re :: re where
  "authority_re = Seq (Opt (Group 4 (Seq (Plus (Not_in '':/#?'')) (Lit CHR '':''))))
     (Opt (Seq (Group 5 (Seq (Lit CHR ''/'') (Lit CHR ''/''))) (Opt (Group 6 (Seq user_re host_re)))))"

definition path_re :: re where
  "path_re = Group 13 (Seq (Group 14 (Seq (Opt (Lit CHR ''/'')) (Star (Seq (Plus (Not_in ''/?#'')) (Plus (Lit CHR ''/''))))))
     (Group 15 (Star (Not_in ''?#''))))"

definition url_re :: re where
  "url_re = Seq (Group 1 (Seq (Opt (Group 2 (Seq (Opt (Group 3 authority_re)) path_re)))
       (Opt (Group 16 (Seq (Lit CHR ''?'') (Plus (Not_in ''#'')))))))
     (Opt (Group 17 (Seq (Lit CHR ''#'') (Star (Not_in [CHR 0x0A, CHR 0x0D])))))"

record uri =
  uri_scheme :: "string option"
  uri_host :: "string option"
  uri_port :: "string option"
  uri_path :: "string option"

definition parseUri :: "string \<Rightarrow> uri option" where
  "parseUri u = map_option (\<lambda>parts. \<lparr>uri_scheme = (case parts 4 of None \<Rightarrow> None | Some s \<Rightarrow> if s = [] then None else Some (js_replace '':'' [] s)),
     uri_host = parts 11, uri_port = parts 12, uri_path = parts 15\<rparr>) (exec url_re u)"

section \<open>Matching\<close>

primrec grp_set :: "re \<Rightarrow> nat set" where
  "grp_set (Cls P) = {}"
| "grp_set (Seq a b) = grp_set a \<union> grp_set b"
| "grp_set (Alt a b) = grp_set a \<union> grp_set b"
| "grp_set (Opt a) = grp_set a"
| "grp_set (Star a) = grp_set a"
| "grp_set (Group n a) = insert n (grp_set a)"

primrec nullable :: "re \<Rightarrow> bool" where
  "nullable (Cls P) \<longleftrightarrow> False"
| "nullable (Seq a b) \<longleftrightarrow> nullable a \<and> nullable b"
| "nullable (Alt a b) \<longleftrightarrow> nullable a \<or> nullable b"
| "nullable (Opt a) \<longleftrightarrow> True"
| "nullable (Star a) \<longleftrightarrow> True"
| "nullable (Group n a) \<longleftrightarrow> nullable a"

lemma or_else_Some: "or_else a b = Some r \<longleftrightarrow> a = Some r \<or> a = None \<and> b = Some r"
  by (auto simp: or_else_def split: option.splits)

lemma or_else_None [simp]: "or_else a b = None \<longleftrightarrow> a = None \<and> b = None"
  by (auto simp: or_else_def split: option.splits)

lemma or_else_simps [simp]: "or_else (Some r) b = Some r" "or_else None b = b"
  by (simp_all add: or_else_def)

definition agree :: "nat set \<Rightarrow> caps \<Rightarrow> caps \<Rightarrow> bool" where
  "agree G c c' \<longleftrightarrow> (\<forall>n. n \<notin> G \<longrightarrow> c' n = c n)"

lemma agree_refl [simp]: "agree G c c"
  by (simp add: agree_def)

lemma agree_trans: "agree G c d \<Longrightarrow> agree G d e \<Longrightarrow> agree G c e"
  by (simp add: agree_def)

lemma agree_mono: "agree G c d \<Longrightarrow> G \<subseteq> H \<Longrightarrow> agree H c d"
  by (auto simp: agree_def)

text \<open>A match ends in its continuation, on a text that is not longer, with other groups unchanged.\<close>

lemma repeat_continues:
  assumes "\<And>s c k r. m s c k = Some r \<Longrightarrow> \<exists>s' c'. k s' c' = Some r \<and> length s' \<le> length s \<and> agree G c c'"
  shows "repeat m n s c k = Some r \<Longrightarrow> \<exists>s' c'. k s' c' = Some r \<and> length s' \<le> length s \<and> agree G c c'"
proof (induction n arbitrary: s c)
  case (Suc n)
  then consider "m s c (\<lambda>s' c'. if length s' < length s then repeat m n s' c' k else None) = Some r" | "k s c = Some r"
    by (auto simp: or_else_Some)
  then show ?case
  proof cases
    case 1
    from assms [OF 1] obtain s1 c1 where 1: "length s1 < length s" "repeat m n s1 c1 k = Some r" "agree G c c1"
      by (auto split: if_splits)
    from Suc.IH [OF 1(2)] obtain s2 c2 where "k s2 c2 = Some r" "length s2 \<le> length s1" "agree G c1 c2" by blast
    then show ?thesis using 1(1,3) agree_trans by (intro exI [of _ s2] exI [of _ c2]) auto
  qed (use agree_refl in blast)
next
  case 0
  then show ?case using agree_refl by fastforce
qed

lemma match_continues: "match a s c k = Some r \<Longrightarrow> \<exists>s' c'. k s' c' = Some r \<and> length s' \<le> length s \<and> agree (grp_set a) c c'"
proof (induction a arbitrary: s c k r)
  case (Cls P)
  then obtain x xs where "s = x # xs" "k xs c = Some r" by (auto split: list.splits if_splits)
  then show ?case using agree_refl by (intro exI [of _ xs] exI [of _ c]) simp
next
  case (Seq a b)
  from Seq.prems have "match a s c (\<lambda>s' c'. match b s' c' k) = Some r" by simp
  from Seq.IH(1) [OF this] obtain s1 c1 where 1: "match b s1 c1 k = Some r" "length s1 \<le> length s" "agree (grp_set a) c c1" by blast
  from Seq.IH(2) [OF 1(1)] obtain s2 c2 where 2: "k s2 c2 = Some r" "length s2 \<le> length s1" "agree (grp_set b) c1 c2" by blast
  have "agree (grp_set (Seq a b)) c c2" using 1(3) 2(3) by (simp add: agree_def)
  then show ?case using 2(1,2) 1(2) le_trans by blast
next
  case (Alt a b)
  then consider "match a s c k = Some r" | "match b s c k = Some r" by (auto simp: or_else_Some)
  then show ?case
  proof cases
    case 1
    from Alt.IH(1) [OF this] obtain s' c' where *: "k s' c' = Some r" "length s' \<le> length s" "agree (grp_set a) c c'" by blast
    from *(3) have "agree (grp_set (Alt a b)) c c'" by (simp add: agree_def)
    then show ?thesis using * by blast
  next
    case 2
    from Alt.IH(2) [OF this] obtain s' c' where *: "k s' c' = Some r" "length s' \<le> length s" "agree (grp_set b) c c'" by blast
    from *(3) have "agree (grp_set (Alt a b)) c c'" by (simp add: agree_def)
    then show ?thesis using * by blast
  qed
next
  case (Opt a)
  then consider "match a s c (\<lambda>s' c'. if length s' < length s then k s' c' else None) = Some r" | "k s c = Some r"
    by (auto simp: or_else_Some)
  then show ?case
  proof cases
    case 1
    from Opt.IH [OF 1] obtain s' c' where "length s' < length s" "k s' c' = Some r" "agree (grp_set a) c c'" by (auto split: if_splits)
    then show ?thesis by (intro exI [of _ s'] exI [of _ c']) simp
  qed (use agree_refl in blast)
next
  case (Star a)
  from repeat_continues [of "match a", OF Star.IH] Star.prems show ?case by simp
next
  case (Group n a)
  from Group.prems have "match a s c (\<lambda>s' c'. k s' (c'(n := Some (take (length s - length s') s)))) = Some r" by simp
  from Group.IH [OF this] show ?case by (fastforce simp: agree_def)
qed

text \<open>A continuation that always succeeds on texts of at most \<open>l\<close> characters, and leaves the groups of \<open>T\<close> alone.\<close>

definition settles :: "nat set \<Rightarrow> nat \<Rightarrow> (string \<Rightarrow> caps \<Rightarrow> caps option) \<Rightarrow> bool" where
  "settles T l k \<longleftrightarrow> (\<forall>s c. length s \<le> l \<longrightarrow> (\<exists>c'. k s c = Some c' \<and> (\<forall>n \<in> T. c' n = c n)))"

lemma settlesD: "settles T l k \<Longrightarrow> length s \<le> l \<Longrightarrow> k s c = Some c' \<Longrightarrow> n \<in> T \<Longrightarrow> c' n = c n"
  unfolding settles_def by (metis option.inject)

lemma settles_Some: "settles T l k \<Longrightarrow> length s \<le> l \<Longrightarrow> \<exists>c'. k s c = Some c'"
  unfolding settles_def by meson

lemma settles_group: "settles T l k \<Longrightarrow> n \<notin> T \<Longrightarrow> settles T l (\<lambda>s c. k s (c(n := f s)))"
  unfolding settles_def by (metis fun_upd_other)

lemma settles_guard: "settles T l k \<Longrightarrow> l < m \<Longrightarrow> settles T l (\<lambda>s c. if length s < m then k s c else None)"
  by (simp add: settles_def)

lemma repeat_Some: "settles T l k \<Longrightarrow> length s \<le> l \<Longrightarrow> \<exists>r. repeat m n s c k = Some r"
proof (induction n arbitrary: s c)
  case (Suc n)
  obtain r where "k s c = Some r" using settles_Some [OF Suc.prems] by blast
  then show ?case by (cases "m s c (\<lambda>s' c'. if length s' < length s then repeat m n s' c' k else None)") simp_all
qed (auto dest: settles_Some)

lemma match_Some: "nullable a \<Longrightarrow> settles {} l k \<Longrightarrow> length s \<le> l \<Longrightarrow> \<exists>r. match a s c k = Some r"
proof (induction a arbitrary: s c k)
  case (Seq a b)
  have "settles {} l (\<lambda>s' c'. match b s' c' k)" using Seq.IH(2) Seq.prems by (simp add: settles_def)
  from Seq.IH(1) [OF _ this] Seq.prems show ?case by simp
next
  case (Alt a b)
  then show ?case by (metis match.simps(3) nullable.simps(3) or_else_None option.exhaust)
next
  case (Opt a)
  then obtain r where "k s c = Some r" using settles_Some by blast
  then show ?case by (cases "match a s c (\<lambda>s' c'. if length s' < length s then k s' c' else None)") simp_all
next
  case (Star a)
  then show ?case using repeat_Some by simp
next
  case (Group n a)
  have "settles {} l (\<lambda>s' c'. k s' (c'(n := Some (take (length s - length s') s))))"
    using settles_Some [OF Group.prems(2)] by (simp add: settles_def)
  from Group.IH [OF _ this] Group.prems(1,3) show ?case unfolding match.simps nullable.simps by blast
qed simp

lemma settles_match: "nullable a \<Longrightarrow> grp_set a \<inter> T = {} \<Longrightarrow> settles T l k \<Longrightarrow> settles T l (\<lambda>s c. match a s c k)"
proof -
  assume a: "nullable a" "grp_set a \<inter> T = {}" "settles T l k"
  have "settles {} l k" using settles_Some [OF a(3)] by (simp add: settles_def)
  then have "length s \<le> l \<Longrightarrow> \<exists>r. match a s c k = Some r" for s c using match_Some a(1) by blast
  moreover have "r n = c n" if "length s \<le> l" "match a s c k = Some r" "n \<in> T" for s c r n
  proof -
    from match_continues [OF that(2)] obtain s' c' where "k s' c' = Some r" "length s' \<le> length s" "agree (grp_set a) c c'" by blast
    then show ?thesis using settlesD [OF a(3), of s' c' r n] that a(2) by (fastforce simp: agree_def)
  qed
  ultimately show ?thesis unfolding settles_def by blast
qed

text \<open>Greedy repetition of a character class takes the longest run, and gives back what it took if the rest fails.\<close>

definition stops :: "(char \<Rightarrow> bool) \<Rightarrow> string \<Rightarrow> bool" where
  "stops P t \<longleftrightarrow> (case t of [] \<Rightarrow> True | x # xs \<Rightarrow> \<not> P x)"

lemma repeat_takes:
  "list_all P w \<Longrightarrow> stops P t \<Longrightarrow> length w \<le> n \<Longrightarrow> k t c = Some r \<Longrightarrow> repeat (match (Cls P)) n (w @ t) c k = Some r"
proof (induction w arbitrary: n)
  case Nil
  then show ?case by (cases n; cases t) (auto simp: stops_def)
next
  case (Cons x w)
  then obtain n' where "n = Suc n'" by (cases n) auto
  with Cons show ?case by simp
qed

lemma repeat_fails:
  "list_all P w \<Longrightarrow> stops P t \<Longrightarrow> (\<And>i. i \<le> length w \<Longrightarrow> k (drop i w @ t) c = None) \<Longrightarrow> repeat (match (Cls P)) n (w @ t) c k = None"
proof (induction w arbitrary: n)
  case Nil
  then show ?case by (cases n; cases t) (auto simp: stops_def)
next
  case (Cons x w)
  have k: "k (drop i w @ t) c = None" if "i \<le> length w" for i using Cons.prems(3) [of "Suc i"] that by simp
  show ?case using Cons.IH [OF _ Cons.prems(2) k] Cons.prems(1) Cons.prems(3) [of 0] by (cases n) auto
qed

lemma plus_takes:
  "w \<noteq> [] \<Longrightarrow> list_all P w \<Longrightarrow> stops P t \<Longrightarrow> k t c = Some r \<Longrightarrow> match (Plus (Cls P)) (w @ t) c k = Some r"
  by (cases w) (simp_all add: Plus_def repeat_takes)

lemma plus_fails:
  assumes "list_all P w" "stops P t" "\<And>i. i \<le> length w \<Longrightarrow> k (drop i w @ t) c = None"
  shows "match (Plus (Cls P)) (w @ t) c k = None"
proof (cases w)
  case Nil
  then show ?thesis using assms(2) by (cases t) (simp_all add: Plus_def stops_def)
next
  case (Cons x v)
  have "k (drop i v @ t) c = None" if "i \<le> length v" for i using assms(3) [of "Suc i"] that Cons by simp
  then show ?thesis using assms(1,2) Cons repeat_fails [of P v t k c] by (simp add: Plus_def)
qed

section \<open>The parts of a url\<close>

definition port_text :: "string option \<Rightarrow> string" where
  "port_text p = (case p of None \<Rightarrow> [] | Some d \<Rightarrow> CHR '':'' # d)"

text \<open>A scheme, a host without user, a port if there is one, and what follows: nothing, a path, a query or a fragment.\<close>

definition url_parts_ok :: "string \<Rightarrow> string \<Rightarrow> string option \<Rightarrow> string \<Rightarrow> bool" where
  "url_parts_ok scheme host p rest \<longleftrightarrow>
     scheme \<noteq> [] \<and> list_all (\<lambda>x. x \<notin> set '':/#?'') scheme \<and> host \<noteq> [] \<and> list_all (\<lambda>x. x \<notin> set '':/#?][@'') host
     \<and> (case p of None \<Rightarrow> True | Some d \<Rightarrow> d \<noteq> [] \<and> list_all is_digit d) \<and> (rest = [] \<or> hd rest \<in> set ''/?#'')"

lemma lit_takes: "match (Lit x) (x # s) c k = k s c"
  by (simp add: Lit_def)

lemma lit_fails: "stops (\<lambda>y. y = x) s \<Longrightarrow> match (Lit x) s c k = None"
  by (cases s) (simp_all add: Lit_def stops_def)

lemma digit_class: "is_digit x \<Longrightarrow> x \<notin> set '':@/#?''"
  by (auto simp: is_digit_def)

lemma stops_rest: "rest = [] \<or> hd rest \<in> set ''/?#'' \<Longrightarrow> (\<And>x. x \<in> set ''/?#'' \<Longrightarrow> \<not> P x) \<Longrightarrow> stops P rest"
  by (cases rest) (auto simp: stops_def)

text \<open>A continuation that fails where no \<open>@\<close> comes next.\<close>

definition needs_at :: "(string \<Rightarrow> caps \<Rightarrow> caps option) \<Rightarrow> bool" where
  "needs_at k \<longleftrightarrow> (\<forall>s c. stops (\<lambda>y. y = CHR ''@'') s \<longrightarrow> k s c = None)"

lemma needs_at_closed:
  "needs_at (\<lambda>s c. match (Lit CHR ''@'') s c k)"
  "needs_at k \<Longrightarrow> needs_at (\<lambda>s c. k s (f s c))"
  "needs_at k \<Longrightarrow> needs_at (\<lambda>s c. if b s then k s c else None)"
  by (simp_all add: needs_at_def lit_fails)

lemma no_user:
  assumes "url_parts_ok scheme host p rest"
  shows "match user_re (host @ port_text p @ rest) c k = k (host @ port_text p @ rest) c"
proof -
  let ?P = "\<lambda>x. x \<notin> set '':@/#?''"
  let ?s = "host @ port_text p @ rest"
  note h = assms [unfolded url_parts_ok_def]
  have at: "stops (\<lambda>y. y = CHR ''@'') (drop i w @ r)"
    if "list_all (\<lambda>y. y \<noteq> CHR ''@'') w" "stops (\<lambda>y. y = CHR ''@'') r" for i w r
  proof (cases "drop i w")
    case (Cons x xs)
    then have "x \<in> set w" by (metis in_set_dropD list.set_intros(1))
    then show ?thesis using that(1) Cons by (auto simp: stops_def list_all_iff)
  qed (use that in simp)
  have rest: "stops P rest" if "\<And>x. x \<in> set ''/?#'' \<Longrightarrow> \<not> P x" for P using h that by (intro stops_rest) auto
  have port_rest: "stops P (port_text p @ rest)" if "\<And>x. x \<in> set '':/?#'' \<Longrightarrow> \<not> P x" for P
    using that rest by (cases p) (auto simp: port_text_def stops_def)
  have password: "match (Seq (Lit CHR '':'') (Group 9 (Plus (Not_in '':@/#?'')))) (drop i host @ port_text p @ rest) c' K = None"
    if "i \<le> length host" "needs_at K" for i c' K
  proof (cases "drop i host")
    case Nil
    show ?thesis
    proof (cases p)
      case None
      then have "stops (\<lambda>y. y = CHR '':'') (port_text p @ rest)" using rest [of "\<lambda>y. y = CHR '':''"] by (auto simp: port_text_def)
      then show ?thesis using Nil by (simp add: lit_fails)
    next
      case (Some d)
      have d: "list_all is_digit d" using h Some by simp
      have na: "list_all (\<lambda>y. y \<noteq> CHR ''@'') d" using d by (auto simp: list_all_iff is_digit_def)
      have "match (Plus (Cls ?P)) (d @ rest) c1 K' = None" if "needs_at K'" for c1 K'
      proof (rule plus_fails)
        show "list_all ?P d" using d digit_class unfolding list_all_iff by blast
        show "stops ?P rest" by (rule rest) auto
        have "stops (\<lambda>y. y = CHR ''@'') rest" by (rule rest) auto
        from at [OF na this] show "K' (drop i d @ rest) c1 = None" for i using that by (simp add: needs_at_def)
      qed
      from this [OF needs_at_closed(2) [OF that(2)]] show ?thesis using Nil by (simp add: Some port_text_def lit_takes Not_in_def)
    qed
  next
    case (Cons x xs)
    then have "x \<in> set host" by (metis in_set_dropD list.set_intros(1))
    then have "stops (\<lambda>y. y = CHR '':'') (drop i host @ port_text p @ rest)" using h Cons by (auto simp: stops_def list_all_iff)
    then show ?thesis by (simp add: lit_fails)
  qed
  have user: "match (Plus (Not_in '':@/#?'')) ?s c1 (\<lambda>s' c'. match (Opt (Seq (Lit CHR '':'') (Group 9 (Plus (Not_in '':@/#?''))))) s' (g s' c') K) = None"
    if K: "needs_at K" for c1 g K
    unfolding Not_in_def [of "'':@/#?''", THEN arg_cong [where f = Plus]]
  proof (rule plus_fails)
    show "list_all ?P host" using h by (auto simp: list_all_iff)
    show "stops ?P (port_text p @ rest)" by (rule port_rest) auto
    fix i assume i: "i \<le> length host"
    have "stops (\<lambda>y. y = CHR ''@'') (drop i host @ port_text p @ rest)"
    proof (rule at)
      show "list_all (\<lambda>y. y \<noteq> CHR ''@'') host" using h by (auto simp: list_all_iff)
      show "stops (\<lambda>y. y = CHR ''@'') (port_text p @ rest)" by (rule port_rest) auto
    qed
    then have "K (drop i host @ port_text p @ rest) c2 = None" for c2 using K by (simp add: needs_at_def)
    then show "match (Opt (Seq (Lit CHR '':'') (Group 9 (Plus (Cls ?P))))) (drop i host @ port_text p @ rest) (g (drop i host @ port_text p @ rest) c1) K = None"
      using password [OF i needs_at_closed(3) [OF K]] by (simp only: match.simps(4) or_else_simps Not_in_def)
  qed
  have "match (Seq (Group 7 (Seq (Group 8 (Plus (Not_in '':@/#?''))) (Opt (Seq (Lit CHR '':'') (Group 9 (Plus (Not_in '':@/#?''))))))) (Lit CHR ''@'')) ?s c k' = None" for k'
    using user [OF needs_at_closed(2) [OF needs_at_closed(1)]] by (simp only: match.simps(2,6))
  then show ?thesis unfolding user_re_def by (simp only: match.simps(4) or_else_simps)
qed

text \<open>The continuations after the host.\<close>

lemma host_takes:
  assumes ok: "url_parts_ok scheme host p rest" and K: "settles {4, 11, 12} (length rest) K"
  shows "\<exists>c'. match host_re (host @ port_text p @ rest) c K = Some c' \<and> c' 4 = c 4 \<and> c' 11 = Some host
     \<and> c' 12 = (case p of None \<Rightarrow> c 12 | Some d \<Rightarrow> Some d)"
proof -
  note h = ok [unfolded url_parts_ok_def]
  let ?s = "host @ port_text p @ rest"
  let ?K = "\<lambda>s' c'. K s' (c'(10 := Some (take (length ?s - length s') ?s)))"
  let ?c = "c(11 := Some host)"
  have K': "settles {4, 11, 12} (length rest) ?K" using settles_group [OF K] by simp
  have rest: "stops P rest" if "\<And>x. x \<in> set ''/?#'' \<Longrightarrow> \<not> P x" for P using h that by (intro stops_rest) auto
  have "\<exists>c'. match (Opt (Seq (Lit CHR '':'') (Group 12 (Plus Digit)))) (port_text p @ rest) ?c ?K = Some c' \<and> c' 4 = c 4 \<and> c' 11 = Some host
     \<and> c' 12 = (case p of None \<Rightarrow> c 12 | Some d \<Rightarrow> Some d)"
  proof (cases p)
    case None
    obtain c' where c': "?K rest ?c = Some c'" using settles_Some [OF K'] by blast
    have "stops (\<lambda>y. y = CHR '':'') rest" by (rule rest) auto
    then have "match (Opt (Seq (Lit CHR '':'') (Group 12 (Plus Digit)))) rest ?c ?K = Some c'" using c' by (simp add: lit_fails)
    then show ?thesis using None settlesD [OF K' _ c'] by (simp add: port_text_def)
  next
    case (Some d)
    let ?c2 = "?c(12 := Some d)"
    obtain c' where c': "?K rest ?c2 = Some c'" using settles_Some [OF K'] by blast
    have "stops is_digit rest" by (rule rest) (auto simp: is_digit_def)
    then have "match (Plus (Cls is_digit)) (d @ rest) ?c (\<lambda>s' c'. if length s' < length (CHR '':'' # d @ rest)
        then ?K s' (c'(12 := Some (take (length (d @ rest) - length s') (d @ rest)))) else None) = Some c'"
      using h Some c' by (intro plus_takes) simp_all
    then have "match (Opt (Seq (Lit CHR '':'') (Group 12 (Plus Digit)))) (CHR '':'' # d @ rest) ?c ?K = Some c'"
      unfolding Digit_def match.simps lit_takes by simp
    then show ?thesis using Some settlesD [OF K' _ c'] by (simp add: port_text_def)
  qed
  then obtain c' where c': "match (Opt (Seq (Lit CHR '':'') (Group 12 (Plus Digit)))) (port_text p @ rest) ?c ?K = Some c'"
    "c' 4 = c 4" "c' 11 = Some host" "c' 12 = (case p of None \<Rightarrow> c 12 | Some d \<Rightarrow> Some d)" by blast
  have "stops (\<lambda>x. x \<notin> set '':/#?]['') (port_text p @ rest)"
    using rest [of "\<lambda>x. x \<notin> set '':/#?][''"] by (cases p) (auto simp: port_text_def stops_def)
  moreover have "list_all (\<lambda>x. x \<notin> set '':/#?]['') host" using h by (auto simp: list_all_iff)
  ultimately have "match (Plus (Cls (\<lambda>x. x \<notin> set '':/#?][''))) ?s c (\<lambda>s' c'. match (Opt (Seq (Lit CHR '':'') (Group 12 (Plus Digit)))) s'
      (c'(11 := Some (take (length ?s - length s') ?s))) ?K) = Some c'"
    using h c'(1) by (intro plus_takes) simp_all
  then have "match host_re ?s c K = Some c'"
    unfolding host_re_def Not_in_def match.simps(2,3,6) by (simp only: or_else_simps)
  then show ?thesis using c' by blast
qed

lemma authority_takes:
  assumes ok: "url_parts_ok scheme host p rest" and K: "settles {4, 11, 12} (length rest) K"
  shows "\<exists>c'. match authority_re (scheme @ ''://'' @ host @ port_text p @ rest) (\<lambda>_. None) K = Some c' \<and> c' 4 = Some (scheme @ '':'')
     \<and> c' 11 = Some host \<and> c' 12 = p"
proof -
  note h = ok [unfolded url_parts_ok_def]
  let ?r = "host @ port_text p @ rest"
  let ?s = "scheme @ ''://'' @ ?r"
  let ?c = "(\<lambda>_. None)(4 := Some (scheme @ '':'')) :: caps"
  let ?c5 = "?c(5 := Some ''//'')"
  let ?K6 = "\<lambda>s' c'. if length s' < length ?r then (if length s' < length (''//'' @ ?r) then K s' (c'(6 := Some (take (length ?r - length s') ?r))) else None) else None"
  have "settles {4, 11, 12} (length rest) (\<lambda>s' c'. K s' (c'(6 := Some (take (length ?r - length s') ?r))))"
    using settles_group [OF K] by simp
  moreover have "length rest < length ?r" "length rest < length (''//'' @ ?r)" using h by simp_all
  ultimately have K6: "settles {4, 11, 12} (length rest) ?K6" by (intro settles_guard)
  from host_takes [OF ok K6, of ?c5] obtain c' where c': "match host_re ?r ?c5 ?K6 = Some c'" "c' 4 = Some (scheme @ '':'')" "c' 11 = Some host" "c' 12 = p"
    by (auto split: option.splits)
  have "match (Seq user_re host_re) ?r ?c5 ?K6 = Some c'" using c'(1) no_user [OF ok] by simp
  then have 6: "match (Opt (Group 6 (Seq user_re host_re))) ?r ?c5 (\<lambda>s' c'. if length s' < length (''//'' @ ?r) then K s' c' else None) = Some c'"
    by (simp only: match.simps(4,6) or_else_simps)
  have two: "take (length (''//'' @ ?r) - length ?r) (''//'' @ ?r) = ''//''" by simp
  have "match (Group 5 (Seq (Lit CHR ''/'') (Lit CHR ''/''))) (''//'' @ ?r) ?c (\<lambda>s' c'. match (Opt (Group 6 (Seq user_re host_re))) s' c'
      (\<lambda>s' c'. if length s' < length (''//'' @ ?r) then K s' c' else None)) = Some c'"
    using 6 two by (simp only: match.simps(2,6) append_Cons append_Nil lit_takes)
  then have 5: "match (Opt (Seq (Group 5 (Seq (Lit CHR ''/'') (Lit CHR ''/''))) (Opt (Group 6 (Seq user_re host_re))))) (''//'' @ ?r) ?c K = Some c'"
    unfolding match.simps(4) [of "Seq (Group 5 x) y" for x y] match.simps(2) [of "Group 5 x" for x] by (simp only: or_else_simps)
  have "list_all (\<lambda>x. x \<notin> set '':/#?'') scheme" "scheme \<noteq> []" using h by simp_all
  moreover have "stops (\<lambda>x. x \<notin> set '':/#?'') (''://'' @ ?r)" by (simp add: stops_def)
  ultimately have "match (Plus (Cls (\<lambda>x. x \<notin> set '':/#?''))) ?s (\<lambda>_. None) (\<lambda>s' c'. match (Lit CHR '':'') s' c' (\<lambda>s' c'. if length s' < length ?s
      then match (Opt (Seq (Group 5 (Seq (Lit CHR ''/'') (Lit CHR ''/''))) (Opt (Group 6 (Seq user_re host_re))))) s'
        (c'(4 := Some (take (length ?s - length s') ?s))) K else None)) = Some c'"
    by (intro plus_takes) (use 5 in \<open>simp_all add: lit_takes\<close>)
  then have "match authority_re ?s (\<lambda>_. None) K = Some c'"
    unfolding authority_re_def Not_in_def match.simps(2) [of "Opt (Group 4 x)" for x] match.simps(4) [of "Group 4 x" for x] match.simps(6) [of 4]
      match.simps(2) [of "Plus x" for x] by (simp only: or_else_simps)
  then show ?thesis using c' by blast
qed

text \<open>The scheme, host and port of a url are found, whatever path, query or fragment follows.\<close>

theorem parseUri_parts:
  assumes ok: "url_parts_ok scheme host p rest"
  shows "\<exists>f. parseUri (scheme @ ''://'' @ host @ port_text p @ rest) =
    Some \<lparr>uri_scheme = Some scheme, uri_host = Some host, uri_port = p, uri_path = f\<rparr>"
proof -
  note h = ok [unfolded url_parts_ok_def]
  let ?u = "scheme @ ''://'' @ host @ port_text p @ rest"
  let ?T = "{4, 11, 12} :: nat set"
  let ?fin = "\<lambda>(s :: string) (c :: caps). Some c"
  let ?frag = "Opt (Group 17 (Seq (Lit CHR ''#'') (Star (Not_in [CHR 0x0A, CHR 0x0D]))))"
  let ?query = "Opt (Group 16 (Seq (Lit CHR ''?'') (Plus (Not_in ''#''))))"
  have len: "length rest < length ?u" using h by simp
  have 1: "settles ?T (length rest) ?fin" by (simp add: settles_def)
  have 2: "settles ?T (length rest) (\<lambda>s c. match ?frag s c ?fin)"
    by (rule settles_match [OF _ _ 1]) (simp_all add: Lit_def Not_in_def)
  have 3: "settles ?T (length rest) (\<lambda>s c. match ?frag s (c(1 := Some (take (length ?u - length s) ?u))) ?fin)"
    using settles_group [OF 2, of 1] by simp
  have 4: "settles ?T (length rest) (\<lambda>s c. match ?query s c (\<lambda>s c. match ?frag s (c(1 := Some (take (length ?u - length s) ?u))) ?fin))" (is "settles _ _ ?k4")
    by (rule settles_match [OF _ _ 3]) (simp_all add: Lit_def Not_in_def Plus_def)
  have 5: "settles ?T (length rest) (\<lambda>s c. if length s < length ?u then ?k4 s (c(2 := Some (take (length ?u - length s) ?u))) else None)" (is "settles _ _ ?k5")
    by (rule settles_guard [OF settles_group [OF 4] len]) simp
  have 6: "settles ?T (length rest) (\<lambda>s c. match path_re s c (\<lambda>s c. if length s < length ?u then ?k4 s (c(2 := Some (take (length ?u - length s) ?u))) else None))" (is "settles _ _ ?k6")
    by (rule settles_match [OF _ _ 5]) (simp_all add: path_re_def Lit_def Not_in_def Plus_def)
  have 7: "settles ?T (length rest) (\<lambda>s c. if length s < length ?u then ?k6 s (c(3 := Some (take (length ?u - length s) ?u))) else None)" (is "settles _ _ ?k7")
    by (rule settles_guard [OF settles_group [OF 6] len]) simp
  from authority_takes [OF ok 7] obtain c' where c': "match authority_re ?u (\<lambda>_. None) ?k7 = Some c'" "c' 4 = Some (scheme @ '':'')" "c' 11 = Some host" "c' 12 = p"
    by blast
  have "exec url_re ?u = Some c'"
    using c'(1) unfolding exec_def url_re_def by (simp only: match.simps or_else_simps)
  moreover have "cut_at '':'' (scheme @ '':'') = Some (scheme, [])" using h by (intro cut_at_first) (auto simp: list_all_iff)
  then have "js_replace '':'' [] (scheme @ '':'') = scheme" by (simp add: js_replace_def)
  ultimately show ?thesis using c'(2-4) by (simp add: parseUri_def)
qed

theorem parseUri_parts_witness:
  "\<exists>f. parseUri ''http://h:80/v2/s.json'' = Some \<lparr>uri_scheme = Some ''http'', uri_host = Some ''h'', uri_port = Some ''80'', uri_path = f\<rparr>"
proof -
  have "url_parts_ok ''http'' ''h'' (Some ''80'') ''/v2/s.json''" by code_simp
  from parseUri_parts [OF this] show ?thesis by (simp add: port_text_def)
qed

text \<open>What is called the path is only the file: the directory is another group.\<close>

lemma path_is_file: "map_option uri_path (parseUri ''http://h/v2/s.json'') = Some (Some ''s.json'')"
  by code_simp

section \<open>The address of a client\<close>

text \<open>The location that a client gets from a url with a host. Without one the host of the client would be \<open>undefined\<close>, which
  \<open>Client\<close> does not model.\<close>

definition url_location :: "string \<Rightarrow> location option" where
  "url_location u = (case parseUri u of
      None \<Rightarrow> None
    | Some p \<Rightarrow> map_option (\<lambda>h. \<lparr>loc_scheme = uri_scheme p, loc_host = h, loc_port = uri_port p\<rparr>) (uri_host p))"

text \<open>C33: A client of a document that names neither host nor schemes calls the host and port from which the document came, outside of a
  browser with the scheme of its url, and in a browser with that of the page.\<close>

theorem client_address:
  assumes ok: "url_parts_ok scheme host p rest"
    and doc: "elements (js_or (prop_of response ''schemes'') (JArr [])) = []" "str_or_empty (prop_of response ''host'') = []"
  shows "c_host (init_client (url_location (scheme @ ''://'' @ host @ port_text p @ rest)) protocol sd response cl) = host @ port_text p
    \<and> c_scheme (init_client (url_location (scheme @ ''://'' @ host @ port_text p @ rest)) protocol sd response cl)
        = Some (case protocol of None \<Rightarrow> scheme | Some w \<Rightarrow> strip_colon w)"
proof -
  from parseUri_parts [OF ok] obtain f where "parseUri (scheme @ ''://'' @ host @ port_text p @ rest) =
    Some \<lparr>uri_scheme = Some scheme, uri_host = Some host, uri_port = p, uri_path = f\<rparr>" by blast
  then have "url_location (scheme @ ''://'' @ host @ port_text p @ rest) = Some \<lparr>loc_scheme = Some scheme, loc_host = host, loc_port = p\<rparr>"
    by (simp add: url_location_def)
  then show ?thesis using ok doc
    by (auto simp: init_client_def Let_def choose_host_def choose_scheme_def port_text_def url_parts_ok_def split: option.splits)
qed

theorem client_address_witness:
  "c_host (init_client (url_location ''https://api.h/s.json'') None JUndef (JObj []) fresh_client) = ''api.h''
   \<and> c_scheme (init_client (url_location ''https://api.h/s.json'') None JUndef (JObj []) fresh_client) = Some ''https''"
proof -
  have "url_parts_ok ''https'' ''api.h'' None ''/s.json''" by code_simp
  from client_address [OF this, of "JObj []" None JUndef fresh_client] show ?thesis by (simp add: port_text_def elements_def str_or_empty_def)
qed

end
