(* ===== verification/Operation_Url.thy ===== *)
theory Operation_Url
  imports JS_Value
begin

text \<open>
  The url of a request (module 10 of \<open>swagger-ui.js\<close>, \<open>Operation\<close>): the encoders of path and query
  parameters, \<open>urlify\<close> and \<open>getMissingParams\<close>. \<open>var\<close> declarations inside the loop of \<open>urlify\<close> are
  function-scoped in JavaScript, so \<open>isPassword\<close> and \<open>qp\<close> keep their values from one parameter to the
  next; the model threads them through the loop. A parameter name stands for itself in the regular
  expression that replaces its placeholder, as it does for names of letters, digits, \<open>_\<close> and \<open>-\<close> that
  are not numerals.
\<close>

section \<open>Parameters\<close>

text \<open>An absent \<open>in\<close>, \<open>type\<close> or \<open>format\<close> is the empty string; \<open>required\<close> and \<open>allowEmptyValue\<close> say
  whether the property is \<open>true\<close>.\<close>

record param =
  p_name :: string
  p_in :: string
  p_type :: string
  p_format :: string
  collectionFormat :: "string option"
  p_required :: bool
  allowEmptyValue :: bool
  x_escape :: jsv

record operation =
  op_path :: string
  parameters :: "param list"
  scheme :: string
  host :: string
  basePath :: string
  op_method :: string
  consumes :: "string list"
  produces :: "string list"
  op_security :: "string list list option"

section \<open>Encoders\<close>

definition mask :: "string \<Rightarrow> jsv \<Rightarrow> string" where
  "mask value format = (if format = JStr ''password'' then ''******'' else value)"

definition encodeQueryKey :: "string \<Rightarrow> string" where
  "encodeQueryKey a =
     js_replace ''%24'' ''$'' (js_replace ''%5D'' '']'' (js_replace ''%5B'' ''['' (encodeURIComponent a)))"

definition encodeQueryParam :: "jsv \<Rightarrow> jsv \<Rightarrow> string" where
  "encodeQueryParam a maskPasswords =
     (if truthy maskPasswords then ''******''
      else if a \<noteq> JUndef \<and> a \<noteq> JNull then encodeURIComponent (to_str a) else [])"

text \<open>The second argument is passed on to \<open>encodeURIComponent\<close>, which ignores it.\<close>

definition encodePathParam :: "jsv \<Rightarrow> jsv \<Rightarrow> string" where
  "encodePathParam pathParam maskPasswords = encodeURIComponent (to_str pathParam)"

definition path_separator :: "string option \<Rightarrow> string" where
  "path_separator typ =
     (if typ = Some ''ssv'' then ''%20'' else if typ = Some ''tsv'' then ''%09''
      else if typ = Some ''pipes'' then ''|'' else '','')"

definition encodePathCollection :: "string option \<Rightarrow> string \<Rightarrow> jsv list \<Rightarrow> jsv \<Rightarrow> string" where
  "encodePathCollection typ name value maskPasswords =
     js_join (path_separator typ) (map (\<lambda>v. encodeQueryParam v maskPasswords) value)"

definition encodeQueryCollection :: "string option \<Rightarrow> string \<Rightarrow> jsv list \<Rightarrow> jsv \<Rightarrow> string" where
  "encodeQueryCollection typ0 name value maskPasswords =
     (let typ = (case typ0 of None \<Rightarrow> ''default'' | Some t \<Rightarrow> if t = [] then ''default'' else t)
      in if typ = ''default'' \<or> typ = ''multi'' then
           js_join ''&'' (map (\<lambda>v. encodeQueryKey name @ ''='' @ mask (encodeQueryParam v JUndef) maskPasswords) value)
         else if typ = ''brackets'' then
           js_join ''&'' (map (\<lambda>v. encodeQueryKey name @ ''[]='' @ mask (encodeQueryParam v JUndef) maskPasswords) value)
         else
           let separator = (if typ = ''csv'' then '','' else if typ = ''ssv'' then ''%20'' else if typ = ''tsv'' then ''%09''
                            else if typ = ''pipes'' then ''|'' else [])
           in if separator \<noteq> [] \<and> value \<noteq> []
              then encodeQueryKey name @ ''='' @ js_join separator (map (\<lambda>v. encodeQueryParam v JUndef) value)
              else [])"

section \<open>Replacing placeholders\<close>

text \<open>\<open>s.replace(new RegExp('{' + name + '}', 'gi'), value)\<close>: every occurrence, ignoring case, is replaced
  by \<open>value\<close>, in which \<open>$$\<close>, \<open>$&\<close>, \<open>$`\<close> and \<open>$'\<close> have their meaning.\<close>

fun expand_repl :: "string \<Rightarrow> string \<Rightarrow> string \<Rightarrow> string \<Rightarrow> string" where
  "expand_repl [] before m after = []"
| "expand_repl [c] before m after = [c]"
| "expand_repl (c # d # r) before m after =
     (if c = CHR ''$'' then
        (if d = CHR ''$'' then CHR ''$'' # expand_repl r before m after
         else if d = CHR ''&'' then m @ expand_repl r before m after
         else if code d = 96 then before @ expand_repl r before m after
         else if code d = 39 then after @ expand_repl r before m after
         else c # expand_repl (d # r) before m after)
      else c # expand_repl (d # r) before m after)"

definition starts_with_ci :: "string \<Rightarrow> string \<Rightarrow> bool" where
  "starts_with_ci p s = starts_with (to_lower p) (to_lower s)"

function replace_all_ci :: "string \<Rightarrow> string \<Rightarrow> string \<Rightarrow> string \<Rightarrow> string" where
  "replace_all_ci pat rep before s =
     (if s = [] \<or> pat = [] then s
      else if starts_with_ci pat s then
        let m = take (length pat) s; after = drop (length pat) s
        in expand_repl rep before m after @ replace_all_ci pat rep (before @ m) after
      else hd s # replace_all_ci pat rep (before @ [hd s]) (tl s))"
  by pat_completeness auto
termination
  by (relation "measure (\<lambda>(pat, rep, before, s). length s)") (auto simp: Suc_diff_Suc)

declare replace_all_ci.simps [simp del]

definition replace_placeholder :: "string \<Rightarrow> string \<Rightarrow> string \<Rightarrow> string" where
  "replace_placeholder name value s = replace_all_ci (''{'' @ name @ ''}'') value [] s"

text \<open>\<open>path.replace(/#.*/, '')\<close>; the dot does not match a line terminator.\<close>

definition strip_fragment :: "string \<Rightarrow> string" where
  "strip_fragment p =
     takeWhile (\<lambda>c. c \<noteq> CHR ''#'') p
       @ dropWhile (\<lambda>c. c \<noteq> CHR 0x0A \<and> c \<noteq> CHR 0x0D) (dropWhile (\<lambda>c. c \<noteq> CHR ''#'') p)"

section \<open>urlify\<close>

record url_state =
  requestUrl :: string
  querystring :: string
  isPassword :: jsv
  qp :: jsv

definition query_lead :: "url_state \<Rightarrow> string" where
  "query_lead st = (if querystring st = [] \<and> index_of ''?'' (requestUrl st) < 0 then ''?'' else ''&'')"

definition urlify_given :: "param \<Rightarrow> jsv \<Rightarrow> bool \<Rightarrow> url_state \<Rightarrow> url_state" where
  "urlify_given p value maskPasswords st0 =
     (let st = (if p_type p = ''string'' \<and> p_format p = ''password'' \<and> maskPasswords
                then st0\<lparr>isPassword := JBool True\<rparr> else st0)
      in if p_in p = ''path'' then
           (let v = (case value of
                       JArr xs \<Rightarrow> encodePathCollection (collectionFormat p) (p_name p) xs (isPassword st)
                     | _ \<Rightarrow> if x_escape p = JUndef \<or> x_escape p = JBool True
                           then encodePathParam value (isPassword st) else to_str value)
            in st\<lparr>requestUrl := replace_placeholder (p_name p) v (requestUrl st)\<rparr>)
         else if p_in p = ''query'' then
           (let q = querystring st @ query_lead st
            in if collectionFormat p \<noteq> None then
                 (case value of
                    JArr xs \<Rightarrow> st\<lparr>querystring := q @ encodeQueryCollection (collectionFormat p) (p_name p) xs (isPassword st),
                                  qp := value\<rparr>
                  | _ \<Rightarrow> st\<lparr>querystring := q @ encodeQueryKey (p_name p) @ ''='' @ encodeQueryParam value (isPassword st),
                            qp := value\<rparr>)
               else st\<lparr>querystring := q @ encodeQueryKey (p_name p) @ ''='' @ encodeQueryParam value (isPassword st)\<rparr>)
         else st)"

definition urlify_absent :: "param \<Rightarrow> url_state \<Rightarrow> url_state" where
  "urlify_absent p st =
     (if p_in p = ''query'' \<and> allowEmptyValue p then
        (let q = querystring st @ query_lead st
         in if collectionFormat p \<noteq> None \<or> p_type p = ''array'' then
              (let fmt = Some (case collectionFormat p of None \<Rightarrow> ''multi'' | Some f \<Rightarrow> if f = [] then ''multi'' else f)
               in case qp st of
                    JArr xs \<Rightarrow> st\<lparr>querystring := q @ encodeQueryCollection fmt (p_name p) xs (isPassword st)\<rparr>
                  | v \<Rightarrow> st\<lparr>querystring := q @ encodeQueryCollection fmt (p_name p) [v] (isPassword st)\<rparr>)
            else st\<lparr>querystring := q @ encodeQueryKey (p_name p) @ ''='' @ encodeQueryParam (JStr []) (isPassword st)\<rparr>)
      else st)"

definition urlify_param :: "jsv obj \<Rightarrow> bool \<Rightarrow> param \<Rightarrow> url_state \<Rightarrow> url_state" where
  "urlify_param args maskPasswords p st =
     (if arg args (p_name p) \<noteq> JUndef then urlify_given p (arg args (p_name p)) maskPasswords st
      else urlify_absent p st)"

definition url_start :: "operation \<Rightarrow> url_state" where
  "url_start this = \<lparr>requestUrl = strip_fragment (op_path this), querystring = [], isPassword = JUndef, qp = JUndef\<rparr>"

definition urlify :: "operation \<Rightarrow> jsv obj \<Rightarrow> bool \<Rightarrow> string" where
  "urlify this args maskPasswords =
     (let st = fold (urlify_param args maskPasswords) (parameters this) (url_start this);
          url = scheme this @ ''://'' @ host this @ (if basePath this \<noteq> ''/'' then basePath this else [])
      in url @ requestUrl st @ querystring st)"

text \<open>The name of the last missing parameter, or nothing: the code assigns the name to the list.\<close>

definition getMissingParams :: "operation \<Rightarrow> jsv obj \<Rightarrow> string" where
  "getMissingParams this args =
     fold (\<lambda>p missing. if p_required p \<and> arg args (p_name p) = JUndef then p_name p else missing) (parameters this) []"

section \<open>Keys in the query string\<close>

text \<open>An encoded text as a list of pieces: a single character, an escape, or the two escapes of a
  character above 127. The replacements of \<open>encodeQueryKey\<close> turn an escape into the character.\<close>

definition piece :: "string \<Rightarrow> bool" where
  "piece t \<longleftrightarrow> (\<exists>x. t = [x] \<and> x \<noteq> CHR ''%'') \<or> (\<exists>b < 128. t = percent b)
     \<or> (\<exists>h u. 192 \<le> h \<and> h < 256 \<and> 128 \<le> u \<and> u < 192 \<and> t = percent h @ percent u)"

lemma piece_uri_char: "piece (uri_char c)"
proof -
  consider "uri_unreserved c" | "\<not> uri_unreserved c" "code c < 128" | "\<not> uri_unreserved c" "\<not> code c < 128" by blast
  then show ?thesis
  proof cases
    case 1
    then show ?thesis using percent_not_unreserved by (auto simp: piece_def uri_char_def)
  next
    case 2
    then show ?thesis by (auto simp: piece_def uri_char_def)
  next
    case 3
    have "192 + code c div 64 < 256" "128 + code c mod 64 < 192" by (simp_all add: div_less_iff_less_mult code_less)
    then show ?thesis using 3 unfolding piece_def
      by (intro disjI2 exI [of _ "192 + code c div 64"] exI [of _ "128 + code c mod 64"]) (simp add: uri_char_def)
  qed
qed

lemma uri_decode_piece: "piece t \<Longrightarrow> uri_decode (t @ s) = uri_decode t @ uri_decode s"
  using uri_decode_percent_1 [of _ s] uri_decode_percent_1 [of _ "[]"]
    uri_decode_percent_2 [of _ _ s] uri_decode_percent_2 [of _ _ "[]"]
  by (auto simp: piece_def)

lemma uri_decode_pieces: "\<forall>t \<in> set ts. piece t \<Longrightarrow> uri_decode (concat ts) = concat (map uri_decode ts)"
  by (induction ts) (auto simp: uri_decode_piece simp del: uri_decode.simps(2))

lemma hex_upper_inj: "a < 16 \<Longrightarrow> b < 16 \<Longrightarrow> hex_upper a = hex_upper b \<Longrightarrow> a = b"
  by (metis hex_val_upper)

lemma hex_upper_not_percent: "d < 16 \<Longrightarrow> hex_upper d \<noteq> CHR ''%''"
  using uri_unreserved_hex percent_not_unreserved by metis

lemma percent_inj: "a < 256 \<Longrightarrow> b < 256 \<Longrightarrow> percent a = percent b \<Longrightarrow> a = b"
  by (simp add: percent_def) (metis hex_join)

lemma starts_with_percent: "a < 256 \<Longrightarrow> b < 256 \<Longrightarrow> starts_with (percent a) (percent b @ s) \<longleftrightarrow> a = b"
  using percent_inj [of a b] by (auto simp: percent_def)

lemma cut_at_shift:
  "\<not> starts_with sep (x # s) \<Longrightarrow> cut_at sep (x # s) = map_option (\<lambda>(a, b). (x # a, b)) (cut_at sep s)"
  by simp

lemma cut_at_percent_skip:
  assumes "p < 256" "b < 256" "p \<noteq> b"
  shows "cut_at (percent p) (percent b @ s) = map_option (\<lambda>(a, r). (percent b @ a, r)) (cut_at (percent p) s)"
proof -
  have "b div 16 < 16" "b mod 16 < 16" using assms(2) by (simp_all add: div_less_iff_less_mult)
  then have n: "hex_upper (b div 16) \<noteq> CHR ''%''" "hex_upper (b mod 16) \<noteq> CHR ''%''"
    by (simp_all add: hex_upper_not_percent)
  have "\<not> starts_with (percent p) (percent b @ s)" using starts_with_percent [of p b s] assms by simp
  then show ?thesis using n [THEN not_sym]
    by (cases "cut_at (percent p) s") (auto simp: percent_def [of b] percent_def [of p])
qed

lemma cut_at_piece:
  assumes "piece t" "p < 128"
  shows "cut_at (percent p) (t @ s) =
     (if t = percent p then Some ([], s) else map_option (\<lambda>(a, r). (t @ a, r)) (cut_at (percent p) s))"
  using assms(1) unfolding piece_def
proof (elim disjE exE conjE)
  fix x assume "t = [x]" "x \<noteq> CHR ''%''"
  then show ?thesis by (auto simp: percent_def)
next
  fix b assume b: "b < 128" "t = percent b"
  show ?thesis
  proof (cases "b = p")
    case True
    then have "starts_with (percent p) (percent p @ s)" by (simp add: starts_with_append)
    then show ?thesis using b True by (simp add: percent_def)
  next
    case False
    then show ?thesis using b assms(2) cut_at_percent_skip [of p b s] percent_inj [of b p] by auto
  qed
next
  fix h u assume h: "192 \<le> h" "h < 256" "128 \<le> u" "u < 192" "t = percent h @ percent u"
  then have "t \<noteq> percent p" by (simp add: percent_def)
  then show ?thesis using h assms(2) cut_at_percent_skip [of p h "percent u @ s"] cut_at_percent_skip [of p u s]
    by (auto simp: option.map_comp comp_def split_def)
qed

lemma js_replace_piece:
  assumes "piece t" "p < 128"
  shows "js_replace (percent p) rep (t @ s) = (if t = percent p then rep @ s else t @ js_replace (percent p) rep s)"
  using cut_at_piece [OF assms, of s]
  by (auto simp: js_replace_def percent_def split: option.splits)

lemma js_replace_pieces:
  assumes "p < 128" "char_of p \<noteq> CHR ''%''" "\<forall>t \<in> set ts. piece t"
  shows "\<exists>ts'. js_replace (percent p) [char_of p] (concat ts) = concat ts' \<and> (\<forall>t \<in> set ts'. piece t)
     \<and> map uri_decode ts' = map uri_decode ts"
  using assms(3)
proof (induction ts)
  case Nil
  then show ?case by (intro exI [of _ "[]"]) (simp add: js_replace_def percent_def)
next
  case (Cons t ts)
  then obtain ts' where ts': "js_replace (percent p) [char_of p] (concat ts) = concat ts'" "\<forall>t \<in> set ts'. piece t"
    "map uri_decode ts' = map uri_decode ts" by auto
  show ?case
  proof (cases "t = percent p")
    case True
    moreover have "uri_decode (percent p) = [char_of p]" using uri_decode_percent_1 [OF assms(1), of "[]"] by simp
    moreover have "uri_decode [char_of p] = [char_of p]" using assms(2) by simp
    ultimately show ?thesis using js_replace_piece [of t p] assms Cons.prems
      by (intro exI [of _ "[char_of p] # ts"]) (auto simp: piece_def simp del: uri_decode.simps(2))
  next
    case False
    then show ?thesis using js_replace_piece [of t p] assms(1) Cons.prems ts'
      by (intro exI [of _ "t # ts'"]) (auto simp del: uri_decode.simps(2))
  qed
qed

lemma bracket_escapes: "''%5B'' = percent 91" "''['' = [char_of (91 :: nat)]" "''%5D'' = percent 93"
  "'']'' = [char_of (93 :: nat)]" "''%24'' = percent 36" "''$'' = [char_of (36 :: nat)]"
  by (simp_all add: percent_def hex_upper_def char_of_def bit_0)

lemma char_of_not_percent: "char_of (91 :: nat) \<noteq> CHR ''%''" "char_of (93 :: nat) \<noteq> CHR ''%''" "char_of (36 :: nat) \<noteq> CHR ''%''"
  by (simp_all add: char_of_def bit_0)

lemma encodeQueryKey_pieces:
  "\<exists>ts. encodeQueryKey k = concat ts \<and> (\<forall>t \<in> set ts. piece t) \<and> map uri_decode ts = map (\<lambda>c. [c]) k"
proof -
  have d: "map uri_decode (map uri_char k) = map (\<lambda>c. [c]) k"
    using uri_decode_char [of _ "[]"] by (simp add: comp_def del: uri_decode.simps(2))
  obtain t1 where 1: "js_replace (percent 91) [char_of (91 :: nat)] (concat (map uri_char k)) = concat t1" "\<forall>t \<in> set t1. piece t"
    "map uri_decode t1 = map uri_decode (map uri_char k)"
    using js_replace_pieces [of 91 "map uri_char k"] char_of_not_percent piece_uri_char by auto
  obtain t2 where 2: "js_replace (percent 93) [char_of (93 :: nat)] (concat t1) = concat t2" "\<forall>t \<in> set t2. piece t"
    "map uri_decode t2 = map uri_decode t1"
    using js_replace_pieces [of 93 t1] char_of_not_percent 1(2) by auto
  obtain t3 where 3: "js_replace (percent 36) [char_of (36 :: nat)] (concat t2) = concat t3" "\<forall>t \<in> set t3. piece t"
    "map uri_decode t3 = map uri_decode t2"
    using js_replace_pieces [of 36 t2] char_of_not_percent 2(2) by auto
  show ?thesis using 1 2 3 d unfolding encodeQueryKey_def encodeURIComponent_def bracket_escapes by metis
qed

lemma decode_encodeQueryKey: "uri_decode (encodeQueryKey k) = k"
  using encodeQueryKey_pieces [of k] uri_decode_pieces by fastforce

lemma set_js_replace: "set (js_replace pat rep s) \<subseteq> set rep \<union> set s"
  by (auto simp: js_replace_def split: option.splits dest!: cut_at_Some)

lemma encodeQueryKey_avoids: "c \<in> set ''&=?#/'' \<Longrightarrow> c \<notin> set (encodeQueryKey k)"
proof -
  have "set (encodeQueryKey k) \<subseteq> set ''$'' \<union> (set '']'' \<union> (set ''['' \<union> set (encodeURIComponent k)))"
    unfolding encodeQueryKey_def
    by (intro order_trans [OF set_js_replace] Un_mono order_refl set_js_replace)
  moreover assume "c \<in> set ''&=?#/''"
  ultimately show ?thesis using encodeURIComponent_avoids [of c k] by auto
qed

section \<open>The query string as a whole\<close>

text \<open>The specification: the parameters that reach the server, and how a server reads a query string.\<close>

definition simple_query :: "param \<Rightarrow> bool" where
  "simple_query p \<longleftrightarrow> p_in p = ''query'' \<and> collectionFormat p = None \<and> p_format p \<noteq> ''password'' \<and> p_type p \<noteq> ''array''"

definition param_pair :: "jsv obj \<Rightarrow> param \<Rightarrow> (string \<times> string) option" where
  "param_pair args p =
     (let v = arg args (p_name p)
      in if v \<noteq> JUndef then Some (p_name p, if v = JNull then [] else to_str v)
         else if allowEmptyValue p then Some (p_name p, []) else None)"

definition query_pairs :: "jsv obj \<Rightarrow> param list \<Rightarrow> (string \<times> string) list" where
  "query_pairs args ps = List.map_filter (param_pair args) ps"

definition encode_pair :: "string \<times> string \<Rightarrow> string" where
  "encode_pair kv = encodeQueryKey (fst kv) @ ''='' @ encodeURIComponent (snd kv)"

definition parse_query :: "string \<Rightarrow> (string \<times> string) list" where
  "parse_query q = map (\<lambda>part. (uri_decode (takeWhile (\<lambda>c. c \<noteq> CHR ''='') part),
      uri_decode (tl (dropWhile (\<lambda>c. c \<noteq> CHR ''='') part)))) (split_char CHR ''&'' q)"

definition query_of :: "string \<Rightarrow> (string \<times> string) list \<Rightarrow> string" where
  "query_of lead ps = (if ps = [] then [] else lead @ js_join ''&'' (map encode_pair ps))"

lemma js_join_snoc: "ws \<noteq> [] \<Longrightarrow> js_join sep (ws @ [w]) = js_join sep ws @ sep @ w"
proof (induction ws)
  case (Cons x ws)
  then show ?case by (cases ws) (auto simp: js_join_Cons)
qed simp

lemma encodeURIComponent_Nil [simp]: "encodeURIComponent [] = []"
  by (simp add: encodeURIComponent_def)

lemma urlify_step:
  assumes "simple_query p" "isPassword st = JUndef" "querystring st = query_of lead ps"
    and "lead = (if CHR ''?'' \<in> set (requestUrl st) then ''&'' else ''?'')"
  shows "urlify_param args m p st =
     (case param_pair args p of None \<Rightarrow> st | Some kv \<Rightarrow> st\<lparr>querystring := query_of lead (ps @ [kv])\<rparr>)"
proof -
  have "query_lead st = (if ps = [] then lead else ''&'')"
    using assms(3,4) index_of_char_neg_iff [of "CHR ''?''" "requestUrl st"] by (auto simp: query_lead_def query_of_def)
  then have "querystring st @ query_lead st @ encode_pair kv = query_of lead (ps @ [kv])" for kv
    using assms(3) by (auto simp: query_of_def js_join_snoc)
  from this [of "(p_name p, [])"] this [of "(p_name p, to_str (arg args (p_name p)))"]
  show ?thesis using assms(1,2)
    by (auto simp: urlify_param_def urlify_given_def urlify_absent_def simple_query_def param_pair_def encode_pair_def
        encodeQueryParam_def truthy_def Let_def)
qed

lemma urlify_queries:
  assumes "\<forall>p \<in> set params. simple_query p" "isPassword st = JUndef" "querystring st = query_of lead ps"
    and "lead = (if CHR ''?'' \<in> set (requestUrl st) then ''&'' else ''?'')"
  shows "fold (urlify_param args m) params st = st\<lparr>querystring := query_of lead (ps @ query_pairs args params)\<rparr>"
  using assms
proof (induction params arbitrary: st ps)
  case Nil
  then show ?case by (cases st) (simp add: query_pairs_def map_filter_def)
next
  case (Cons p params)
  show ?case
  proof (cases "param_pair args p")
    case None
    then show ?thesis using Cons.IH [of st ps] Cons.prems urlify_step [of p st lead ps args m]
      by (simp add: query_pairs_def map_filter_simps)
  next
    case (Some kv)
    then show ?thesis using Cons.IH [of "st\<lparr>querystring := query_of lead (ps @ [kv])\<rparr>" "ps @ [kv]"] Cons.prems
        urlify_step [of p st lead ps args m]
      by (simp add: query_pairs_def map_filter_simps)
  qed
qed

lemma parse_query_join:
  assumes "ps \<noteq> []"
  shows "parse_query (js_join ''&'' (map encode_pair ps)) = ps"
proof -
  have "CHR ''&'' \<notin> set (encode_pair kv)" for kv
    using encodeQueryKey_avoids [of "CHR ''&''" "fst kv"] encodeURIComponent_avoids [of "CHR ''&''" "snd kv"]
    by (simp add: encode_pair_def)
  then have "split_char CHR ''&'' (js_join ''&'' (map encode_pair ps)) = map encode_pair ps"
    using assms by (intro split_join_char) auto
  moreover have "takeWhile (\<lambda>c. c \<noteq> CHR ''='') (encode_pair kv) = encodeQueryKey (fst kv)"
    "dropWhile (\<lambda>c. c \<noteq> CHR ''='') (encode_pair kv) = CHR ''='' # encodeURIComponent (snd kv)" for kv
    using encodeQueryKey_avoids [of "CHR ''=''" "fst kv"]
    by (simp_all add: encode_pair_def takeWhile_sep dropWhile_sep)
  ultimately show ?thesis
    by (simp add: parse_query_def comp_def decode_encodeQueryKey uri_decode_encode)
qed

section \<open>The path as a whole\<close>

text \<open>A path template: literal texts and placeholders.\<close>

datatype segment = Lit string | Hole string

fun seg_text :: "segment \<Rightarrow> string" where
  "seg_text (Lit s) = s"
| "seg_text (Hole n) = ''{'' @ n @ ''}''"

definition template :: "segment list \<Rightarrow> string" where
  "template ts = concat (map seg_text ts)"

text \<open>Texts and names without braces.\<close>

fun seg_ok :: "segment \<Rightarrow> bool" where
  "seg_ok (Lit s) \<longleftrightarrow> CHR ''{'' \<notin> set s"
| "seg_ok (Hole n) \<longleftrightarrow> CHR ''{'' \<notin> set n \<and> CHR ''}'' \<notin> set n"

fun fill_seg :: "string \<Rightarrow> string \<Rightarrow> segment \<Rightarrow> segment" where
  "fill_seg n v (Lit s) = Lit s"
| "fill_seg n v (Hole n') = (if to_lower n' = to_lower n then Lit v else Hole n')"

lemma lower_char_punct: "code x = 123 \<or> code x = 125 \<Longrightarrow> lower_char c = x \<longleftrightarrow> c = x"
proof
  assume x: "code x = 123 \<or> code x = 125" and "lower_char c = x"
  then have "code (lower_char c) = code x" by simp
  then have "code c = code x" using x unfolding lower_char_def by (auto split: if_splits)
  then show "c = x" by simp
next
  assume "code x = 123 \<or> code x = 125" "c = x"
  then show "lower_char c = x" unfolding lower_char_def by auto
qed

lemma lower_char_brace: "lower_char c = CHR ''{'' \<longleftrightarrow> c = CHR ''{''" "lower_char c = CHR ''}'' \<longleftrightarrow> c = CHR ''}''"
  by (rule lower_char_punct, simp)+

lemma expand_plain: "CHR ''$'' \<notin> set v \<Longrightarrow> expand_repl v before m after = v"
proof (induction v)
  case (Cons c r)
  then have "c \<noteq> CHR ''$''" by auto
  then show ?case using Cons by (cases r) simp_all
qed simp

lemma placeholder_match:
  assumes "CHR ''}'' \<notin> set n" "CHR ''}'' \<notin> set n'"
  shows "starts_with_ci (''{'' @ n @ ''}'') (''{'' @ n' @ ''}'' @ s) \<longleftrightarrow> to_lower n' = to_lower n"
proof
  have b: "lower_char CHR ''}'' = CHR ''}''" "lower_char CHR ''{'' = CHR ''{''" using lower_char_brace by blast+
  have l: "CHR ''}'' \<in> set (to_lower x) \<Longrightarrow> CHR ''}'' \<in> set x" for x
    unfolding to_lower_def set_map using lower_char_brace(2) by (metis imageE)
  have a: "CHR ''}'' \<notin> set (to_lower n)" "CHR ''}'' \<notin> set (to_lower n')" using assms l by blast+
  assume "starts_with_ci (''{'' @ n @ ''}'') (''{'' @ n' @ ''}'' @ s)"
  then obtain t where "to_lower n' @ CHR ''}'' # to_lower s = to_lower n @ CHR ''}'' # t"
    by (auto simp: starts_with_ci_def starts_with_iff to_lower_def b)
  then have "takeWhile (\<lambda>x. x \<noteq> CHR ''}'') (to_lower n' @ CHR ''}'' # to_lower s)
      = takeWhile (\<lambda>x. x \<noteq> CHR ''}'') (to_lower n @ CHR ''}'' # t)" by simp
  then show "to_lower n' = to_lower n" unfolding takeWhile_sep [OF a(1)] takeWhile_sep [OF a(2)] .
next
  assume "to_lower n' = to_lower n"
  then show "starts_with_ci (''{'' @ n @ ''}'') (''{'' @ n' @ ''}'' @ s)"
    by (simp add: starts_with_ci_def to_lower_def starts_with_iff)
qed

lemma starts_with_ci_brace: "starts_with_ci (CHR ''{'' # p) s \<Longrightarrow> s \<noteq> [] \<and> hd s = CHR ''{''"
proof -
  have b: "lower_char CHR ''{'' = CHR ''{''" using lower_char_brace by blast
  assume "starts_with_ci (CHR ''{'' # p) s"
  then obtain c r where "s = c # r" "CHR ''{'' = lower_char c"
    by (cases s) (simp_all add: starts_with_ci_def to_lower_def b)
  then show ?thesis using lower_char_brace(1) [of c] by simp
qed

lemma replace_all_ci_Nil [simp]: "replace_all_ci pat rep before [] = []"
  by (subst replace_all_ci.simps) simp

lemma replace_all_ci_literal:
  "CHR ''{'' \<notin> set l \<Longrightarrow>
     replace_all_ci (CHR ''{'' # p) rep before (l @ s) = l @ replace_all_ci (CHR ''{'' # p) rep (before @ l) s"
proof (induction l arbitrary: before)
  case (Cons c l)
  then have "\<not> starts_with_ci (CHR ''{'' # p) ((c # l) @ s)" using starts_with_ci_brace [of p "(c # l) @ s"] by auto
  then have "replace_all_ci (CHR ''{'' # p) rep before ((c # l) @ s)
      = c # replace_all_ci (CHR ''{'' # p) rep (before @ [c]) (l @ s)"
    by (subst replace_all_ci.simps) simp
  then show ?case using Cons by simp
qed simp

lemma replace_template:
  assumes "\<forall>t \<in> set ts. seg_ok t" "CHR ''}'' \<notin> set n" "CHR ''$'' \<notin> set v"
  shows "replace_all_ci (''{'' @ n @ ''}'') v before (template ts) = template (map (fill_seg n v) ts)"
  using assms(1)
proof (induction ts arbitrary: before)
  case Nil
  then show ?case by (simp add: template_def)
next
  case (Cons t ts)
  let ?pat = "''{'' @ n @ ''}''"
  have tc: "template (t # ts) = seg_text t @ template ts" by (simp add: template_def)
  have IH: "replace_all_ci ?pat v b (template ts) = template (map (fill_seg n v) ts)" for b using Cons by simp
  show ?case
  proof (cases t)
    case (Lit s)
    then show ?thesis using replace_all_ci_literal [of s "n @ ''}''" v before "template ts"] Cons.prems IH
      by (simp add: template_def)
  next
    case (Hole n')
    then have n': "CHR ''{'' \<notin> set n'" "CHR ''}'' \<notin> set n'" using Cons.prems by auto
    have tx: "template (t # ts) = ''{'' @ n' @ ''}'' @ template ts" unfolding tc by (simp add: Hole)
    show ?thesis
    proof (cases "to_lower n' = to_lower n")
      case True
      then have "length n' = length n" by (metis length_map to_lower_def)
      moreover have "starts_with_ci ?pat (template (t # ts))"
        unfolding tx using placeholder_match [OF assms(2) n'(2)] True by blast
      ultimately have "replace_all_ci ?pat v before (template (t # ts)) =
          v @ replace_all_ci ?pat v (before @ ''{'' @ n' @ ''}'') (template ts)"
        by (subst replace_all_ci.simps) (simp add: tx expand_plain assms(3))
      then show ?thesis using IH True Hole by (simp add: template_def)
    next
      case False
      then have "\<not> starts_with_ci ?pat (template (t # ts))"
        unfolding tx using placeholder_match [OF assms(2) n'(2)] by blast
      then have "replace_all_ci ?pat v before (template (t # ts)) =
          CHR ''{'' # replace_all_ci ?pat v (before @ ''{'') ((n' @ ''}'') @ template ts)"
        by (subst replace_all_ci.simps) (simp add: tx)
      also have "\<dots> = CHR ''{'' # (n' @ ''}'') @ replace_all_ci ?pat v ((before @ ''{'') @ n' @ ''}'') (template ts)"
        using replace_all_ci_literal [of "n' @ ''}''" "n @ ''}''" v "before @ ''{''" "template ts"] n'(1) by simp
      finally show ?thesis using IH False Hole by (simp add: template_def)
    qed
  qed
qed

text \<open>A path parameter with a scalar value that is to be escaped.\<close>

definition path_param :: "jsv obj \<Rightarrow> param \<Rightarrow> bool" where
  "path_param args p \<longleftrightarrow> p_in p = ''path'' \<and> x_escape p = JUndef \<and> arg args (p_name p) \<noteq> JUndef
     \<and> \<not> is_array (arg args (p_name p)) \<and> CHR ''{'' \<notin> set (p_name p) \<and> CHR ''}'' \<notin> set (p_name p)"

definition path_value :: "jsv obj \<Rightarrow> string \<Rightarrow> string" where
  "path_value args n = encodeURIComponent (to_str (arg args n))"

definition fill_param :: "jsv obj \<Rightarrow> param \<Rightarrow> segment \<Rightarrow> segment" where
  "fill_param args p = fill_seg (p_name p) (path_value args (p_name p))"

lemma fill_param_ok: "seg_ok t \<Longrightarrow> seg_ok (fill_param args p t)"
  using encodeURIComponent_avoids [of "CHR ''{''"] by (cases t) (auto simp: fill_param_def path_value_def)

lemma urlify_path_step:
  assumes "path_param args p" "\<forall>t \<in> set ts. seg_ok t" "requestUrl st = template ts"
  shows "requestUrl (urlify_param args m p st) = template (map (fill_param args p) ts)"
    and "querystring (urlify_param args m p st) = querystring st"
proof -
  have v: "CHR ''$'' \<notin> set (path_value args (p_name p))" by (simp add: path_value_def encodeURIComponent_avoids)
  have "replace_placeholder (p_name p) (path_value args (p_name p)) (template ts) = template (map (fill_param args p) ts)"
    unfolding replace_placeholder_def fill_param_def
    using assms(1) by (intro replace_template assms(2) v) (simp add: path_param_def)
  moreover have "(case v of JArr xs \<Rightarrow> f xs | _ \<Rightarrow> g) = g" if "\<not> is_array v" for v :: jsv and f :: "jsv list \<Rightarrow> string" and g
    using that by (cases v) (auto simp: is_array_def)
  ultimately show "requestUrl (urlify_param args m p st) = template (map (fill_param args p) ts)"
    using assms(1,3) by (simp add: urlify_param_def urlify_given_def path_param_def encodePathParam_def path_value_def Let_def)
  show "querystring (urlify_param args m p st) = querystring st"
    using assms(1) by (simp add: urlify_param_def urlify_given_def path_param_def Let_def)
qed

lemma urlify_path_fold:
  "\<forall>p \<in> set ps. path_param args p \<Longrightarrow> \<forall>t \<in> set ts. seg_ok t \<Longrightarrow> requestUrl st = template ts \<Longrightarrow>
     requestUrl (fold (urlify_param args m) ps st) = template (map (\<lambda>t. fold (fill_param args) ps t) ts)
     \<and> querystring (fold (urlify_param args m) ps st) = querystring st"
proof (induction ps arbitrary: st ts)
  case (Cons p ps)
  have "\<forall>t \<in> set (map (fill_param args p) ts). seg_ok t" using Cons.prems(2) fill_param_ok by auto
  then have "requestUrl (fold (urlify_param args m) ps (urlify_param args m p st))
        = template (map (\<lambda>t. fold (fill_param args) ps t) (map (fill_param args p) ts))
      \<and> querystring (fold (urlify_param args m) ps (urlify_param args m p st)) = querystring (urlify_param args m p st)"
    using Cons.prems urlify_path_step [of args p ts st m] by (intro Cons.IH) auto
  then show ?case using urlify_path_step(2) [of args p ts st m] Cons.prems by (simp add: comp_def)
qed simp

lemma fold_fill_Lit: "fold (fill_param args) ps (Lit s) = Lit s"
  by (induction ps) (auto simp: fill_param_def)

lemma fold_fill_Hole:
  "n \<in> p_name ` set ps \<Longrightarrow> distinct (map (\<lambda>p. to_lower (p_name p)) ps) \<Longrightarrow>
     fold (fill_param args) ps (Hole n) = Lit (path_value args n)"
proof (induction ps)
  case (Cons p ps)
  show ?case
  proof (cases "p_name p = n")
    case True
    then show ?thesis by (simp add: fill_param_def fold_fill_Lit [unfolded fill_param_def])
  next
    case False
    then have "n \<in> p_name ` set ps" using Cons.prems by auto
    moreover from this have "to_lower n \<noteq> to_lower (p_name p)" using Cons.prems(2) by (auto simp: image_iff)
    ultimately show ?thesis using Cons by (simp add: fill_param_def)
  qed
qed simp

section \<open>Properties\<close>

text \<open>C4: The query string carries the parameters faithfully: for plain query parameters, what a server
  reads from the url after the \<open>?\<close> are exactly the given names and values, in order, whatever characters
  they contain.\<close>

theorem urlify_query_roundtrip:
  assumes "\<forall>p \<in> set (parameters this). simple_query p" "CHR ''?'' \<notin> set (strip_fragment (op_path this))"
    and "query_pairs args (parameters this) \<noteq> []"
  shows "\<exists>q. urlify this args m = scheme this @ ''://'' @ host this @ (if basePath this \<noteq> ''/'' then basePath this else [])
              @ strip_fragment (op_path this) @ ''?'' @ q
           \<and> parse_query q = query_pairs args (parameters this)"
proof -
  let ?ps = "query_pairs args (parameters this)"
  have "fold (urlify_param args m) (parameters this) (url_start this)
      = (url_start this)\<lparr>querystring := query_of ''?'' ([] @ ?ps)\<rparr>"
    using assms by (intro urlify_queries) (auto simp: url_start_def query_of_def)
  then have "urlify this args m = scheme this @ ''://'' @ host this @ (if basePath this \<noteq> ''/'' then basePath this else [])
              @ strip_fragment (op_path this) @ ''?'' @ js_join ''&'' (map encode_pair ?ps)"
    using assms(3) by (simp add: urlify_def url_start_def query_of_def)
  then show ?thesis using parse_query_join [OF assms(3)] by blast
qed

theorem urlify_query_roundtrip_witness:
  "\<exists>q. urlify \<lparr>op_path = ''/t'', parameters = [\<lparr>p_name = ''a[]'', p_in = ''query'', p_type = ''string'', p_format = [],
          collectionFormat = None, p_required = True, allowEmptyValue = False, x_escape = JUndef\<rparr>], scheme = ''http'',
          host = ''h'', basePath = ''/v1'', op_method = ''get'', consumes = [], produces = [], op_security = None\<rparr>
          [(''a[]'', JStr ''x&y=z'')] False = ''http://h/v1/t?'' @ q
     \<and> parse_query q = [(''a[]'', ''x&y=z'')]"
  using urlify_query_roundtrip [of "\<lparr>op_path = ''/t'', parameters = [\<lparr>p_name = ''a[]'', p_in = ''query'', p_type = ''string'',
      p_format = [], collectionFormat = None, p_required = True, allowEmptyValue = False, x_escape = JUndef\<rparr>], scheme = ''http'',
      host = ''h'', basePath = ''/v1'', op_method = ''get'', consumes = [], produces = [], op_security = None\<rparr>"
      "[(''a[]'', JStr ''x&y=z'')]" False]
  by (simp add: simple_query_def strip_fragment_def query_pairs_def map_filter_simps param_pair_def arg_def)



text \<open>Masking of passwords is incomplete: a password in the path or in an array is not masked, and
  once a password has been masked every later query parameter is masked too.\<close>

theorem urlify_mask_flaws:
  "urlify \<lparr>op_path = ''/{p}'', parameters = [\<lparr>p_name = ''p'', p_in = ''path'', p_type = ''string'', p_format = ''password'',
          collectionFormat = None, p_required = True, allowEmptyValue = False, x_escape = JUndef\<rparr>,
          \<lparr>p_name = ''q'', p_in = ''query'', p_type = ''string'', p_format = [],
          collectionFormat = None, p_required = True, allowEmptyValue = False, x_escape = JUndef\<rparr>], scheme = ''http'',
          host = ''h'', basePath = ''/'', op_method = ''get'', consumes = [], produces = [], op_security = None\<rparr>
     [(''p'', JStr ''secret''), (''q'', JStr ''open'')] True = ''http://h/secret?q=******''"
  by code_simp

text \<open>An absent collection parameter that may be empty is sent with the value of an earlier collection
  parameter, because \<open>qp\<close> keeps its value from one turn of the loop to the next.\<close>

theorem urlify_stale_collection:
  "urlify \<lparr>op_path = ''/'', parameters = [\<lparr>p_name = ''a'', p_in = ''query'', p_type = ''array'', p_format = [],
          collectionFormat = Some ''csv'', p_required = True, allowEmptyValue = False, x_escape = JUndef\<rparr>,
          \<lparr>p_name = ''b'', p_in = ''query'', p_type = ''array'', p_format = [],
          collectionFormat = Some ''csv'', p_required = False, allowEmptyValue = True, x_escape = JUndef\<rparr>], scheme = ''http'',
          host = ''h'', basePath = ''/'', op_method = ''get'', consumes = [], produces = [], op_security = None\<rparr>
     [(''a'', JArr [JStr ''1'', JStr ''2''])] False = ''http://h/?a=1,2&b=1,2''"
  by code_simp

text \<open>\<open>getMissingParams\<close> reports a parameter exactly when a required one is missing, and what it reports
  is a required parameter without a value; of several it names only the last.\<close>

theorem missing_params:
  assumes "\<forall>p \<in> set (parameters this). p_name p \<noteq> []"
  shows "(getMissingParams this args = [] \<longleftrightarrow>
            (\<forall>p \<in> set (parameters this). p_required p \<longrightarrow> arg args (p_name p) \<noteq> JUndef))
    \<and> (getMissingParams this args \<noteq> [] \<longrightarrow>
            (\<exists>p \<in> set (parameters this). p_required p \<and> arg args (p_name p) = JUndef \<and> p_name p = getMissingParams this args))"
proof -
  let ?f = "\<lambda>p missing. if p_required p \<and> arg args (p_name p) = JUndef then p_name p else missing"
  have "\<forall>p \<in> set ps. p_name p \<noteq> [] \<Longrightarrow>
      (fold ?f ps m = [] \<longleftrightarrow> m = [] \<and> (\<forall>p \<in> set ps. p_required p \<longrightarrow> arg args (p_name p) \<noteq> JUndef))
      \<and> (fold ?f ps m = m \<or> (\<exists>p \<in> set ps. p_required p \<and> arg args (p_name p) = JUndef \<and> p_name p = fold ?f ps m))" for ps m
  proof (induction ps arbitrary: m)
    case (Cons p ps)
    show ?case
    proof (cases "p_required p \<and> arg args (p_name p) = JUndef")
      case True
      then show ?thesis using Cons.IH [of "p_name p"] Cons.prems by (simp, metis)
    next
      case False
      then have "?f p m = m" by (rule if_not_P)
      then have e: "fold ?f (p # ps) m = fold ?f ps m" by (simp only: fold_simps)
      show ?thesis unfolding e using Cons.IH [of m] Cons.prems False by auto
    qed
  qed simp
  from this [OF assms, of "[]"] show ?thesis unfolding getMissingParams_def by blast
qed

theorem missing_params_witness:
  "getMissingParams \<lparr>op_path = ''/'', parameters = [], scheme = ''http'', host = ''h'', basePath = ''/'', op_method = ''get'',
     consumes = [], produces = [], op_security = None\<rparr> [] = []"
  using missing_params [of "\<lparr>op_path = ''/'', parameters = [], scheme = ''http'', host = ''h'', basePath = ''/'',
     op_method = ''get'', consumes = [], produces = [], op_security = None\<rparr>" "[]"] by simp

end
