(* ===== verification/Operation_Request.thy ===== *)
theory Operation_Request
  imports Auth Operation_Url JS_Json
begin

text \<open>
  From an operation and its arguments to a request (module 10 of \<open>swagger-ui.js\<close>, \<open>Operation\<close>): the content
  types, the header parameters, the body, \<open>execute\<close> and \<open>asCurl\<close>. \<open>var\<close> declarations inside loops are
  function-scoped, so \<open>isPassword\<close>, \<open>data\<close> and \<open>param\<close> keep their values between iterations; the model
  threads them through the loops. Whether the environment has \<open>FormData\<close> is an argument. A \<open>FormData\<close>
  object is the list of its entries; \<open>File\<close> objects do not occur among the values. Dictionaries have no
  inherited properties. Messages to the log are left out.
\<close>

section \<open>Content types\<close>

definition first_of :: "string list \<Rightarrow> jsv" where
  "first_of col = (case col of [] \<Rightarrow> JUndef | c # _ \<Rightarrow> JStr c)"

definition itemByPriority :: "string list \<Rightarrow> string list \<Rightarrow> jsv" where
  "itemByPriority col itemPriority =
     (if itemPriority = [] then first_of col
      else case List.find (\<lambda>p. p \<in> set col) itemPriority of Some p \<Rightarrow> JStr p | None \<Rightarrow> first_of col)"

record content_state =
  ct_body :: jsv
  definedFileParams :: "param list"
  definedFormParams :: "param list"
  ct_headers :: "jsv obj"

definition content_step :: "jsv obj \<Rightarrow> jsv obj \<Rightarrow> param \<Rightarrow> content_state \<Rightarrow> content_state" where
  "content_step args opts p st =
     (if p_in p = ''formData'' then
        (if p_type p = ''file'' then st\<lparr>definedFileParams := definedFileParams st @ [p]\<rparr>
         else st\<lparr>definedFormParams := definedFormParams st @ [p]\<rparr>)
      else if p_in p = ''header'' then
        (if arg opts (p_name p) \<noteq> JUndef then st\<lparr>ct_headers := obj_set (p_name p) (arg opts (p_name p)) (ct_headers st)\<rparr>
         else st)
      else if p_in p = ''body'' \<and> arg args (p_name p) \<noteq> JUndef then st\<lparr>ct_body := arg args (p_name p)\<rparr>
      else st)"

definition content_params :: "operation \<Rightarrow> jsv obj \<Rightarrow> jsv obj \<Rightarrow> content_state" where
  "content_params this args opts =
     fold (content_step args opts) (parameters this)
       \<lparr>ct_body = JUndef, definedFileParams = [], definedFormParams = [], ct_headers = []\<rparr>"

definition form_type :: "string \<Rightarrow> bool" where
  "form_type chk \<longleftrightarrow> starts_with ''application/x-www-form-urlencoded'' chk \<or> starts_with ''multipart/form-data'' chk"

text \<open>The content type of an operation with form parameters.\<close>

definition form_consumes :: "operation \<Rightarrow> jsv obj \<Rightarrow> content_state \<Rightarrow> jsv" where
  "form_consumes this opts st =
     (let c = (if truthy (arg opts ''requestContentType'') then arg opts ''requestContentType''
               else if definedFileParams st \<noteq> [] then JStr ''multipart/form-data''
               else fold (\<lambda>chk c. if form_type chk then JStr chk else c) (consumes this) JUndef)
      in if c = JUndef then JStr ''application/x-www-form-urlencoded'' else c)"

definition choose_consumes :: "operation \<Rightarrow> jsv obj \<Rightarrow> jsv obj \<Rightarrow> content_state \<Rightarrow> jsv" where
  "choose_consumes this args opts st =
     (let c0 = js_or (arg args ''parameterContentType'')
                 (itemByPriority (consumes this) [''application/json'', ''application/yaml'']);
          hasBody = (truthy (ct_body st) \<or> definedFileParams st \<noteq> [] \<or> definedFormParams st \<noteq> [])
      in if op_method this \<in> {''post'', ''put'', ''patch''} \<or> (op_method this \<in> {''delete'', ''get''} \<and> hasBody) then
           (let c1 = js_or (arg opts ''requestContentType'') c0
            in if definedFormParams st \<noteq> [] then form_consumes this opts st else c1)
         else JNull)"

text \<open>\<open>matchesAccept\<close> only decides whether a message is logged.\<close>

definition matchesAccept :: "operation \<Rightarrow> jsv \<Rightarrow> bool" where
  "matchesAccept this accepts \<longleftrightarrow>
     \<not> truthy accepts \<or> accepts \<in> JStr ` set (produces this) \<or> ''*/*'' \<in> set (produces this)"

definition setContentTypes :: "operation \<Rightarrow> jsv obj \<Rightarrow> jsv obj \<Rightarrow> jsv obj" where
  "setContentTypes this args opts =
     (let st = content_params this args opts;
          accepts = js_or (arg opts ''responseContentType'')
                      (itemByPriority (produces this) [''application/json'', ''application/yaml'']);
          cons = choose_consumes this args opts st;
          h1 = (if (truthy cons \<and> ct_body st \<noteq> JStr []) \<or> cons = JStr ''application/x-www-form-urlencoded''
                then obj_set ''Content-Type'' cons (ct_headers st)
                else if consumes this \<noteq> [] \<and> hd (consumes this) = ''application/x-www-form-urlencoded''
                then obj_set ''Content-Type'' (JStr (hd (consumes this))) (ct_headers st)
                else ct_headers st)
      in if truthy accepts then obj_set ''Accept'' accepts h1 else h1)"

section \<open>Header parameters\<close>

definition headerParamsByLowerCase :: "operation \<Rightarrow> param obj" where
  "headerParamsByLowerCase this =
     fold (\<lambda>p m. if p_in p = ''header'' then obj_set (to_lower (p_name p)) p m else m) (parameters this) []"

definition getHeaderParams :: "operation \<Rightarrow> jsv obj \<Rightarrow> jsv obj" where
  "getHeaderParams this args =
     fold (\<lambda>(k, value) hs. case obj_get (headerParamsByLowerCase this) (to_lower k) of
           None \<Rightarrow> hs
         | Some p \<Rightarrow> obj_set (p_name p) (if is_array value then JStr (to_str value) else value) hs)
       args (setContentTypes this args [])"

section \<open>The body\<close>

record form_entry =
  f_param :: param
  f_value :: jsv
  f_password :: jsv

record body_state =
  formParams :: "form_entry obj"
  b_isPassword :: jsv
  b_body :: jsv
  hasBody :: bool

definition body_step :: "jsv obj \<Rightarrow> param \<Rightarrow> body_state \<Rightarrow> body_state" where
  "body_step args p st0 =
     (if arg args (p_name p) \<noteq> JUndef then
        (let st = (if p_type p = ''string'' \<and> p_format p = ''password'' then st0\<lparr>b_isPassword := JStr ''password''\<rparr> else st0)
         in if p_in p = ''body'' then st\<lparr>b_body := arg args (p_name p)\<rparr>
            else if p_in p = ''formData'' then
              st\<lparr>formParams := obj_set (p_name p)
                   \<lparr>f_param = p, f_value = arg args (p_name p), f_password = b_isPassword st\<rparr> (formParams st)\<rparr>
            else st)
      else if p_in p = ''body'' then st0\<lparr>hasBody := True\<rparr> else st0)"

definition body_params :: "operation \<Rightarrow> jsv obj \<Rightarrow> body_state" where
  "body_params this args =
     fold (body_step args) (parameters this) \<lparr>formParams = [], b_isPassword = JUndef, b_body = JUndef, hasBody = False\<rparr>"

text \<open>A value, or a \<open>FormData\<close> object.\<close>

datatype req_body = BodyValue jsv | BodyForm "(string \<times> string) list"

definition form_piece :: "bool \<Rightarrow> string \<Rightarrow> form_entry \<Rightarrow> string" where
  "form_piece maskPasswords key fe =
     (let password = (if maskPasswords then f_password fe else JUndef)
      in case f_value fe of
           JArr xs \<Rightarrow> encodeQueryCollection (collectionFormat (f_param fe)) key xs password
         | v \<Rightarrow> encodeURIComponent key @ ''='' @ mask (encodeURIComponent (to_str v)) password)"

definition urlencode_form :: "bool \<Rightarrow> form_entry obj \<Rightarrow> string" where
  "urlencode_form maskPasswords form =
     fold (\<lambda>(key, fe) encoded.
         if f_value fe \<noteq> JUndef then (if encoded \<noteq> [] then encoded @ ''&'' else encoded) @ form_piece maskPasswords key fe
         else encoded) form []"

text \<open>With \<open>FormData\<close>. \<open>append\<close> converts a value to a string.\<close>

definition multipart_entry ::
  "jsv obj \<Rightarrow> string \<times> form_entry \<Rightarrow> (string \<times> string) list \<Rightarrow> (string \<times> string) list result" where
  "multipart_entry args = (\<lambda>(key, fe) fd.
     (let value = arg args key
      in if value = JUndef then Inr fd
         else bindR (get_prop value ''type'') (\<lambda>typ.
           if typ = JStr ''file'' \<and> truthy (prop_of value ''value'') then Inr (fd @ [(key, to_str (prop_of value ''value''))])
           else case value of
               JArr xs \<Rightarrow>
                 if collectionFormat (f_param fe) = Some ''multi''
                 then Inr (filter (\<lambda>kv. fst kv \<noteq> key) fd @ map (\<lambda>v. (key, to_str v)) xs)
                 else Inr (fd @ [(key, js_join ''='' (drop 1 (split_char CHR ''=''
                            (encodeQueryCollection (collectionFormat (f_param fe)) key xs JUndef))))])
             | v \<Rightarrow> Inr (fd @ [(key, to_str v)]))))"

definition multipart_form :: "jsv obj \<Rightarrow> form_entry obj \<Rightarrow> (string \<times> string) list result" where
  "multipart_form args form = foldR (multipart_entry args) form []"

text \<open>Without \<open>FormData\<close>: an object, whose arrays are joined. The delimiter comes from the last parameter of
  the operation, the joined text goes on from one array to the next, and a format \<open>multi\<close> ends the loop.\<close>

definition delimeter :: "string \<Rightarrow> string" where
  "delimeter format = (if format = ''ssv'' then '' '' else if format = ''pipes'' then ''|''
     else if format = ''tsv'' then [CHR 0x09] else '','')"

definition join_data :: "string \<Rightarrow> jsv list \<Rightarrow> jsv \<Rightarrow> jsv" where
  "join_data delim xs data0 =
     fold (\<lambda>v data. JStr ((if truthy data then to_str data @ delim else []) @ to_str v)) xs data0"

fun plain_form :: "jsv obj \<Rightarrow> string \<Rightarrow> form_entry obj \<Rightarrow> jsv \<Rightarrow> jsv obj \<Rightarrow> jsv obj" where
  "plain_form args format [] data bodyParam = bodyParam"
| "plain_form args format ((key, fe) # form) data bodyParam =
     (case arg args key of
        JArr xs \<Rightarrow>
          if format = ''multi'' then obj_set key (JArr xs) bodyParam
          else let data' = join_data (delimeter format) xs data
               in plain_form args format form data' (obj_set key data' bodyParam)
      | v \<Rightarrow> plain_form args format form data (obj_set key v bodyParam))"

definition last_format :: "operation \<Rightarrow> string" where
  "last_format this =
     (case collectionFormat (last (parameters this)) of None \<Rightarrow> ''multi'' | Some f \<Rightarrow> if f = [] then ''multi'' else f)"

text \<open>\<open>ct && ct.indexOf(p)\<close> satisfies a test.\<close>

definition type_test :: "jsv \<Rightarrow> string \<Rightarrow> (int \<Rightarrow> bool) \<Rightarrow> bool result" where
  "type_test ct p P = (if truthy ct then bindR (js_indexOf ct p) (\<lambda>i. Inr (P i)) else Inr False)"

definition getBody ::
  "bool \<Rightarrow> operation \<Rightarrow> jsv obj \<Rightarrow> jsv obj \<Rightarrow> jsv obj \<Rightarrow> (req_body \<times> jsv obj) result" where
  "getBody hasFormData this hs args opts =
     (let st = body_params this args; ct = arg hs ''Content-Type''
      in bindR (if hasBody st \<and> b_body st = JUndef then type_test ct ''application/json'' (\<lambda>i. i = 0) else Inr False) (\<lambda>empty_json.
         bindR (type_test ct ''multipart/form-data'' (\<lambda>i. i \<ge> 0)) (\<lambda>isMultiPart.
           let body = (if empty_json then JStr ''{}'' else b_body st)
           in if formParams st \<noteq> [] \<and> \<not> isMultiPart then
                Inr (BodyValue (JStr (urlencode_form (truthy (arg opts ''maskPasswords'')) (formParams st))), hs)
              else if isMultiPart then
                bindR (if hasFormData then bindR (multipart_form args (formParams st)) (\<lambda>fd. Inr (BodyForm fd))
                       else Inr (BodyValue (JObj (plain_form args (last_format this) (formParams st) JUndef []))))
                  (\<lambda>b. Inr (b, obj_set ''Content-Type'' (JStr ''multipart/form-data'') hs))
              else Inr (BodyValue body, hs))))"

section \<open>execute\<close>

text \<open>The fields of the operation that are defaults for options.\<close>

record settings =
  useJQuery :: jsv
  jqueryAjaxCache :: jsv
  enableCookies :: jsv
  op_timeout :: jsv

record prepared =
  pr_request :: request
  pr_method :: string
  pr_body :: req_body
  pr_enableCookies :: jsv
  pr_useJQuery :: jsv
  pr_jqueryAjaxCache :: jsv
  pr_timeout :: jsv

text \<open>What the environment provides: \<open>Date.parse\<close>, \<open>Date.now()\<close>, whether there is \<open>FormData\<close>, the request
  interceptor in force, and sending the request (module 5), which returns the request object, or nothing
  when it returns a promise.\<close>

record env =
  date_parse :: "string \<Rightarrow> expiry"
  now :: int
  hasFormData :: bool
  requestInterceptor :: "(prepared \<Rightarrow> prepared) option"
  send :: "prepared \<Rightarrow> prepared option result"

text \<open>\<open>Rejected\<close> is the error callback or a rejected promise.\<close>

datatype outcome = Rejected string | Returned prepared | Promised

definition default_opt :: "string \<Rightarrow> jsv \<Rightarrow> jsv obj \<Rightarrow> jsv obj" where
  "default_opt k v opts = (if arg opts k = JUndef then obj_set k v opts else opts)"

definition with_defaults :: "settings \<Rightarrow> jsv obj \<Rightarrow> jsv obj" where
  "with_defaults s opts =
     default_opt ''enableCookies'' (enableCookies s)
       (default_opt ''jqueryAjaxCache'' (jqueryAjaxCache s) (default_opt ''useJQuery'' (useJQuery s) opts))"

definition format_url :: "jsv obj \<Rightarrow> string \<Rightarrow> string result" where
  "format_url hs u =
     (if index_of ''.{format}'' u > 0 then
        (let format = js_or (arg hs ''Accept'') (arg hs ''accept'')
         in bindR (type_test format ''json'' (\<lambda>i. i > 0)) (\<lambda>json.
            if json then Inr (js_replace ''.{format}'' ''.json'' u)
            else bindR (type_test format ''xml'' (\<lambda>i. i > 0)) (\<lambda>xml.
              Inr (if xml then js_replace ''.{format}'' ''.xml'' u else u))))
      else Inr u)"

definition prepare ::
  "env \<Rightarrow> operation \<Rightarrow> settings \<Rightarrow> auth obj option \<Rightarrow> jsv obj \<Rightarrow> jsv obj \<Rightarrow> prepared result" where
  "prepare e this s opts_authz args opts =
     (let allHeaders = getHeaderParams this args;
          contentTypeHeaders = setContentTypes this args opts;
          hs = obj_copy contentTypeHeaders (obj_copy allHeaders [])
      in bindR (getBody (hasFormData e) this contentTypeHeaders args opts) (\<lambda>(body, _).
         bindR (format_url hs (urlify this args (truthy (arg opts ''maskPasswords'')))) (\<lambda>u.
           Inr \<lparr>pr_request = \<lparr>url = u, headers = hs, cookieJar = None, clientAuthorizations = opts_authz\<rparr>,
                pr_method = to_upper (op_method this), pr_body = body, pr_enableCookies = arg opts ''enableCookies'',
                pr_useJQuery = arg opts ''useJQuery'', pr_jqueryAjaxCache = arg opts ''jqueryAjaxCache'',
                pr_timeout = (let t = (if arg opts ''timeout'' \<noteq> JUndef then arg opts ''timeout'' else op_timeout s)
                              in if truthy t then t else JUndef)\<rparr>)))"

definition securities_of :: "operation \<Rightarrow> securities option" where
  "securities_of this = map_option SecArray (op_security this)"

definition authorize :: "env \<Rightarrow> operation \<Rightarrow> auth obj \<Rightarrow> prepared \<Rightarrow> prepared result" where
  "authorize e this authz m =
     bindR (apply_authz (date_parse e) (now e) authz (pr_request m) (securities_of this))
       (\<lambda>(r, status). Inr (m\<lparr>pr_request := r\<rparr>))"

definition execute ::
  "env \<Rightarrow> operation \<Rightarrow> settings \<Rightarrow> auth obj \<Rightarrow> auth obj option \<Rightarrow> jsv obj \<Rightarrow> jsv obj \<Rightarrow> outcome result" where
  "execute e this s authz opts_authz args opts0 =
     (let opts = with_defaults s opts0; missingParams = getMissingParams this args
      in if missingParams \<noteq> [] then Inr (Rejected (''missing required params: '' @ missingParams))
         else bindR (prepare e this s opts_authz args opts) (\<lambda>m0.
              bindR (authorize e this authz m0) (\<lambda>m.
                if arg opts ''mock'' = JBool True then
                  Inr (Returned (case requestInterceptor e of None \<Rightarrow> m | Some f \<Rightarrow> f m))
                else bindR (send e m) (\<lambda>r. Inr (case r of None \<Rightarrow> Promised | Some m' \<Rightarrow> Returned m')))))"

section \<open>asCurl\<close>

definition curl_header :: "string \<times> jsv \<Rightarrow> string" where
  "curl_header = (\<lambda>(key, value).
     ''--header '' @ [CHR 0x27] @ key @ '': ''
       @ (case value of JStr s \<Rightarrow> replace_all_chars (\<lambda>c. c = CHR 0x27) ([CHR 0x5C] @ ''u0027'') s | v \<Rightarrow> to_str v) @ [CHR 0x27])"

text \<open>\<open>obj.body[name]\<close>, or all entries of a \<open>FormData\<close> object under the name.\<close>

definition form_value :: "req_body \<Rightarrow> string \<Rightarrow> jsv" where
  "form_value b name = (case b of
      BodyForm fd \<Rightarrow> JArr (map (\<lambda>kv. JStr (snd kv)) (filter (\<lambda>kv. fst kv = name) fd))
    | BodyValue v \<Rightarrow> prop_of v name)"

definition curl_field :: "req_body \<Rightarrow> param \<Rightarrow> string" where
  "curl_field b p =
     (let paramValue = form_value b (p_name p); format = JStr (p_format p)
      in if \<not> truthy paramValue then []
         else if p_type p = ''file'' then
           (if truthy (prop_of paramValue ''name'')
            then ''-F '' @ p_name p @ ''=@'' @ [CHR 0x22] @ to_str (prop_of paramValue ''name'') @ [CHR 0x22] @ '' ''
            else [])
         else case paramValue of
             JArr xs \<Rightarrow>
               if collectionFormat p = Some ''multi'' then
                 concat (map (\<lambda>v. ''-F '' @ encodeQueryKey (p_name p) @ ''='' @ mask (to_str v) format @ '' '') xs)
               else ''-F '' @ encodeQueryCollection (collectionFormat p) (p_name p)
                      (if p_format p = ''password'' then replicate 6 (JStr ''*'') else xs) JUndef @ '' ''
           | v \<Rightarrow> ''-F '' @ encodeQueryKey (p_name p) @ ''='' @ mask (to_str v) format @ '' '')"

text \<open>The own enumerable properties of the \<open>FormData\<close> object are what \<open>getBody\<close> set: its \<open>type\<close>.\<close>

definition body_json :: "req_body \<Rightarrow> string" where
  "body_json b = (case b of BodyValue v \<Rightarrow> json_text v | BodyForm fd \<Rightarrow> json_text (JObj [(''type'', JStr ''formData'')]))"

definition body_truthy :: "req_body \<Rightarrow> bool" where
  "body_truthy b = (case b of BodyValue v \<Rightarrow> truthy v | BodyForm fd \<Rightarrow> True)"

definition body_is_object :: "req_body \<Rightarrow> bool" where
  "body_is_object b = (case b of BodyValue v \<Rightarrow> is_object v | BodyForm fd \<Rightarrow> True)"

definition curl_text_of_body :: "operation \<Rightarrow> bool \<Rightarrow> req_body \<Rightarrow> string result" where
  "curl_text_of_body this isMultipart b =
     (if body_is_object b then
        (let fields = (if isMultipart
                       then concat (map (curl_field b) (filter (\<lambda>p. p_in p = ''formData'') (parameters this))) else [])
         in Inr (if fields = [] then body_json b else fields))
      else case b of BodyValue (JStr s) \<Rightarrow> Inr s | _ \<Rightarrow> Inl (no_method ''replace''))"

definition curl_body :: "operation \<Rightarrow> bool \<Rightarrow> bool \<Rightarrow> req_body \<Rightarrow> string result" where
  "curl_body this isFormData isMultipart b =
     bindR (curl_text_of_body this isMultipart b) (\<lambda>t.
       let t1 = replace_all_chars (\<lambda>c. c = CHR 0x0A) ([CHR 0x20, CHR 0x5C, CHR 0x20, CHR 0x0A, CHR 0x20])
                  (replace_all_chars (\<lambda>c. c = CHR 0x27) ''%27'' t);
           t2 = (if isFormData then t1 else replace_all_chars (\<lambda>c. c = CHR ''&'') ''%26'' t1)
       in Inr (if isMultipart then t2
               else ''-d '' @ [CHR 0x27] @ replace_all_chars (\<lambda>c. c = CHR ''@'') ''%40'' t2 @ [CHR 0x27]))"

definition curl_command :: "operation \<Rightarrow> prepared \<Rightarrow> string result" where
  "curl_command this m =
     (let r = pr_request m; ct = arg (headers r) ''Content-Type'';
          start = (''-X '' @ to_upper (op_method this)) # map curl_header (headers r)
      in bindR (type_test ct ''application/x-www-form-urlencoded'' (\<lambda>i. i = 0)) (\<lambda>urlenc.
         bindR (if urlenc then Inr False else type_test ct ''multipart/form-data'' (\<lambda>i. i = 0)) (\<lambda>isMultipart.
         bindR (if body_truthy (pr_body m)
                then bindR (curl_body this (urlenc \<or> isMultipart) isMultipart (pr_body m)) (\<lambda>b. Inr (start @ [b]))
                else Inr start) (\<lambda>results.
           Inr (''curl '' @ js_join '' '' results @ '' '' @ [CHR 0x27] @ url r @ [CHR 0x27])))))"

text \<open>When \<open>execute\<close> returns no request object, reading its headers throws.\<close>

definition asCurl ::
  "env \<Rightarrow> operation \<Rightarrow> settings \<Rightarrow> auth obj \<Rightarrow> auth obj option \<Rightarrow> jsv obj \<Rightarrow> jsv obj \<Rightarrow> string result" where
  "asCurl e this s authz opts_authz args args2 =
     (let opts = obj_copy args2 [(''mock'', JBool True), (''maskPasswords'', JBool True)]
      in bindR (execute e this s authz opts_authz args opts) (\<lambda>out.
           case out of
             Returned m \<Rightarrow> bindR (authorize e this authz m) (curl_command this)
           | _ \<Rightarrow> Inl null_error))"

section \<open>The words of a curl command\<close>

text \<open>How a shell splits a command of plain characters, spaces and single quotes into words.\<close>

fun sh_words :: "bool \<Rightarrow> string option \<Rightarrow> string \<Rightarrow> string list option" where
  "sh_words quoted cur [] = (if quoted then None else Some (case cur of None \<Rightarrow> [] | Some w \<Rightarrow> [w]))"
| "sh_words quoted cur (c # s) =
     (if c = CHR 0x27 then sh_words (\<not> quoted) (Some (case cur of None \<Rightarrow> [] | Some w \<Rightarrow> w)) s
      else if c = CHR '' '' \<and> \<not> quoted then
        (case cur of None \<Rightarrow> sh_words False None s | Some w \<Rightarrow> map_option (\<lambda>ws. w # ws) (sh_words False None s))
      else sh_words quoted (Some ((case cur of None \<Rightarrow> [] | Some w \<Rightarrow> w) @ [c])) s)"

definition quote_free :: "string \<Rightarrow> bool" where
  "quote_free s \<longleftrightarrow> CHR 0x27 \<notin> set s"

definition bare :: "string \<Rightarrow> bool" where
  "bare s \<longleftrightarrow> s \<noteq> [] \<and> CHR 0x27 \<notin> set s \<and> CHR '' '' \<notin> set s"

lemma sh_words_quoted: "quote_free w \<Longrightarrow> sh_words True (Some v) (w @ s) = sh_words True (Some (v @ w)) s"
  by (induction w arbitrary: v) (auto simp: quote_free_def)

lemma sh_words_bare: "CHR 0x27 \<notin> set w \<Longrightarrow> CHR '' '' \<notin> set w \<Longrightarrow> sh_words False (Some v) (w @ s) = sh_words False (Some (v @ w)) s"
  by (induction w arbitrary: v) auto

text \<open>A piece of text that the shell reads as the given words, wherever it stands.\<close>

definition reads_as :: "string \<Rightarrow> string list \<Rightarrow> bool" where
  "reads_as t ws \<longleftrightarrow> (\<forall>s. sh_words False None (t @ CHR '' '' # s) = map_option (\<lambda>r. ws @ r) (sh_words False None s))
     \<and> sh_words False None t = Some ws"

lemma reads_as_bare: "bare w \<Longrightarrow> reads_as w [w]"
proof -
  assume b: "bare w"
  then obtain c v where w: "w = c # v" by (cases w) (auto simp: bare_def)
  have "sh_words False None (w @ s) = sh_words False (Some w) s" for s
    using b sh_words_bare [of v "[c]" s] by (auto simp: w bare_def)
  from this [of "[]"] this show ?thesis by (simp add: reads_as_def comp_def)
qed

lemma reads_as_quoted: "quote_free w \<Longrightarrow> reads_as ([CHR 0x27] @ w @ [CHR 0x27]) [w]"
  using sh_words_quoted [of w "[]"] by (auto simp: reads_as_def)

lemma reads_as_join: "reads_as t ws \<Longrightarrow> reads_as u vs \<Longrightarrow> reads_as (t @ '' '' @ u) (ws @ vs)"
  by (simp add: reads_as_def option.map_comp comp_def)

lemma reads_as_all:
  "list_all2 reads_as ts wss \<Longrightarrow> ts \<noteq> [] \<Longrightarrow> reads_as (js_join '' '' ts) (concat wss)"
proof (induction rule: list_all2_induct)
  case (Cons t ts ws wss)
  show ?case
  proof (cases ts)
    case Nil
    then show ?thesis using Cons.hyps by simp
  next
    case (Cons a list)
    then have "reads_as (js_join '' '' ts) (concat wss)" using Cons.IH by simp
    then show ?thesis using reads_as_join [OF Cons.hyps(1)] Cons by (simp add: js_join_Cons)
  qed
qed simp

definition escaped :: "string \<Rightarrow> string" where
  "escaped s = replace_all_chars (\<lambda>c. c = CHR 0x27) ([CHR 0x5C] @ ''u0027'') s"

definition data_text :: "bool \<Rightarrow> string \<Rightarrow> string" where
  "data_text isFormData t =
     (let t1 = replace_all_chars (\<lambda>c. c = CHR 0x0A) ([CHR 0x20, CHR 0x5C, CHR 0x20, CHR 0x0A, CHR 0x20])
                  (replace_all_chars (\<lambda>c. c = CHR 0x27) ''%27'' t);
          t2 = (if isFormData then t1 else replace_all_chars (\<lambda>c. c = CHR ''&'') ''%26'' t1)
      in replace_all_chars (\<lambda>c. c = CHR ''@'') ''%40'' t2)"

lemma replace_all_chars_set: "set (replace_all_chars P rep s) \<subseteq> {c \<in> set s. \<not> P c} \<union> set rep"
  by (auto simp: replace_all_chars_def split: if_splits)

lemma quote_free_replace: "quote_free rep \<Longrightarrow> quote_free s \<Longrightarrow> quote_free (replace_all_chars P rep s)"
  using replace_all_chars_set [of P rep s] by (auto simp: quote_free_def)

lemma quote_free_replaced: "quote_free rep \<Longrightarrow> quote_free (replace_all_chars (\<lambda>c. c = CHR 0x27) rep s)"
  using replace_all_chars_set [of "\<lambda>c. c = CHR 0x27" rep s] by (auto simp: quote_free_def)

lemma quote_free_data: "quote_free (data_text f t)"
proof -
  have lits: "quote_free ''%40''" "quote_free ''%26''" by (simp_all add: quote_free_def)
  define t0 where "t0 = replace_all_chars (\<lambda>c. c = CHR 0x27) ''%27'' t"
  have "quote_free t0" unfolding t0_def by (rule quote_free_replaced) (simp add: quote_free_def)
  then have "quote_free (replace_all_chars P ''%40'' (replace_all_chars Q nl t0))"
    "quote_free (replace_all_chars P ''%40'' (replace_all_chars P' ''%26'' (replace_all_chars Q nl t0)))"
    if "quote_free nl" for P P' Q nl
    using that quote_free_replace [OF lits(1)] quote_free_replace [OF lits(2)] quote_free_replace [OF that] by blast+
  moreover have "quote_free [CHR 0x20, CHR 0x5C, CHR 0x20, CHR 0x0A, CHR 0x20]" by (simp add: quote_free_def)
  ultimately show ?thesis unfolding data_text_def Let_def t0_def [symmetric] by simp
qed

lemma quote_free_escaped: "quote_free (escaped s)"
  unfolding escaped_def by (rule quote_free_replaced) (simp add: quote_free_def)


text \<open>The words that a command is meant to have.\<close>

definition curl_words :: "operation \<Rightarrow> prepared \<Rightarrow> string \<Rightarrow> bool \<Rightarrow> string list" where
  "curl_words this m body isFormData =
     [''curl'', ''-X'', to_upper (op_method this)]
     @ concat (map (\<lambda>(k, v). [''--header'', k @ '': '' @ escaped (to_str v)]) (headers (pr_request m)))
     @ (if body \<noteq> [] then [''-d'', data_text isFormData body] else []) @ [url (pr_request m)]"

lemma reads_curl_header:
  assumes "quote_free k"
  shows "reads_as (curl_header (k, JStr v)) [''--header'', k @ '': '' @ escaped v]"
proof -
  have "reads_as ''--header'' [''--header'']" by (rule reads_as_bare) (simp add: bare_def)
  moreover have "reads_as ([CHR 0x27] @ (k @ '': '' @ escaped v) @ [CHR 0x27]) [k @ '': '' @ escaped v]"
    using assms quote_free_escaped by (intro reads_as_quoted) (auto simp: quote_free_def)
  ultimately show ?thesis using reads_as_join by (fastforce simp: curl_header_def escaped_def)
qed

lemma reads_two: "bare a \<Longrightarrow> bare b \<Longrightarrow> reads_as (a @ '' '' @ b) [a, b]"
  using reads_as_join [OF reads_as_bare reads_as_bare] by force

lemma reads_data: "reads_as (''-d '' @ [CHR 0x27] @ data_text f t @ [CHR 0x27]) [''-d'', data_text f t]"
proof -
  have "reads_as ''-d'' [''-d'']" by (rule reads_as_bare) (simp add: bare_def)
  from reads_as_join [OF this reads_as_quoted [OF quote_free_data]] show ?thesis by simp
qed

lemma reads_headers:
  assumes "\<forall>(k, v) \<in> set hs. quote_free k \<and> (\<exists>s. v = JStr s)"
  shows "list_all2 reads_as (map curl_header hs) (map (\<lambda>(k, v). [''--header'', k @ '': '' @ escaped (to_str v)]) hs)"
  using assms
proof (induction hs)
  case (Cons kv hs)
  then show ?case using reads_curl_header by auto
qed simp

lemma curl_body_string:
  "curl_body this f False (BodyValue (JStr body)) = Inr (''-d '' @ [CHR 0x27] @ data_text f body @ [CHR 0x27])"
  by (simp add: curl_body_def curl_text_of_body_def body_is_object_def is_object_def data_text_def Let_def)

lemma curl_command_string:
  assumes "arg (headers (pr_request m)) ''Content-Type'' = ct" "ct = JUndef \<or> (\<exists>s. ct = JStr s \<and> \<not> starts_with ''multipart/form-data'' s)"
    and body: "pr_body m = BodyValue v" "v = JStr body \<or> v = JUndef \<and> body = []"
    and f: "f \<longleftrightarrow> (\<exists>s. ct = JStr s \<and> starts_with ''application/x-www-form-urlencoded'' s)"
  shows "curl_command this m = Inr (''curl '' @ js_join '' '' ((''-X '' @ to_upper (op_method this)) # map curl_header (headers (pr_request m))
      @ (if body \<noteq> [] then [''-d '' @ [CHR 0x27] @ data_text f body @ [CHR 0x27]] else []))
      @ '' '' @ [CHR 0x27] @ url (pr_request m) @ [CHR 0x27])"
proof -
  have 1: "type_test ct ''application/x-www-form-urlencoded'' (\<lambda>i. i = 0) = Inr f"
    using assms(2) unfolding f by (auto simp: type_test_def js_indexOf_def index_of_zero_iff starts_with_def)
  have 2: "type_test ct ''multipart/form-data'' (\<lambda>i. i = 0) = Inr False"
    using assms(2) by (auto simp: type_test_def js_indexOf_def index_of_zero_iff starts_with_def)
  show ?thesis
    unfolding curl_command_def Let_def assms(1) body(1) 1
    using 2 body(2) by (cases f) (auto simp: curl_body_string body_truthy_def)
qed

lemma curl_words_lemma:
  assumes "bare (to_upper (op_method this))" "quote_free (url (pr_request m))"
    and hs: "\<forall>(k, v) \<in> set (headers (pr_request m)). quote_free k \<and> (\<exists>s. v = JStr s)"
    and ct: "\<not> starts_with ''multipart/form-data'' (to_str (arg (headers (pr_request m)) ''Content-Type''))"
    and body: "pr_body m = BodyValue v" "v = JStr body \<or> v = JUndef \<and> body = []"
  shows "\<exists>cmd f. curl_command this m = Inr cmd \<and> sh_words False None cmd = Some (curl_words this m body f)"
proof -
  let ?ct = "arg (headers (pr_request m)) ''Content-Type''"
  define f where "f \<longleftrightarrow> (\<exists>s. ?ct = JStr s \<and> starts_with ''application/x-www-form-urlencoded'' s)"
  have "?ct = JUndef \<or> (\<exists>s. ?ct = JStr s)" using hs by (auto simp: arg_def dest!: obj_get_in_set split: option.splits)
  then have ct': "?ct = JUndef \<or> (\<exists>s. ?ct = JStr s \<and> \<not> starts_with ''multipart/form-data'' s)" using ct by auto
  let ?ts = "(''-X '' @ to_upper (op_method this)) # map curl_header (headers (pr_request m))
      @ (if body \<noteq> [] then [''-d '' @ [CHR 0x27] @ data_text f body @ [CHR 0x27]] else [])"
  let ?ws = "[''-X'', to_upper (op_method this)] # map (\<lambda>(k, v). [''--header'', k @ '': '' @ escaped (to_str v)]) (headers (pr_request m))
      @ (if body \<noteq> [] then [[''-d'', data_text f body]] else [])"
  have "reads_as (''-X'' @ '' '' @ to_upper (op_method this)) [''-X'', to_upper (op_method this)]"
    using assms(1) by (intro reads_two) (auto simp: bare_def)
  then have "list_all2 reads_as ?ts ?ws"
    using reads_headers [OF hs] reads_data [of f body] by (auto intro!: list_all2_appendI)
  then have "reads_as (js_join '' '' ?ts) (concat ?ws)" by (rule reads_as_all) simp
  moreover have "reads_as ''curl'' [''curl'']" by (rule reads_as_bare) (simp add: bare_def)
  ultimately have "reads_as (''curl'' @ '' '' @ (js_join '' '' ?ts @ '' '' @ ([CHR 0x27] @ url (pr_request m) @ [CHR 0x27])))
      ([''curl''] @ (concat ?ws @ [url (pr_request m)]))"
    using reads_as_quoted [OF assms(2)] by (blast intro: reads_as_join)
  then have "sh_words False None (''curl'' @ '' '' @ (js_join '' '' ?ts @ '' '' @ ([CHR 0x27] @ url (pr_request m) @ [CHR 0x27])))
      = Some (curl_words this m body f)"
    by (simp add: reads_as_def curl_words_def split: if_splits)
  moreover note curl_command_string [OF refl ct' body f_def, of this]
  ultimately show ?thesis by (intro exI [of _ f] exI conjI) (assumption, simp)
qed

section \<open>Authorizing twice\<close>

lemma authorize_again:
  assumes "\<forall>a \<in> set (selected authz (pr_request m) (securities_of this)). auth_ok a (pr_request m)"
    and "authorize e this authz m = Inr m'"
  shows "authorize e this authz m' = Inr m'"
  using apply_authz_again [OF assms(1), of "date_parse e" "now e"] assms(2) by (auto simp: authorize_def)

section \<open>Form bodies\<close>

text \<open>The pairs a form sends: the given form parameters, each under its name.\<close>

definition form_pairs :: "form_entry obj \<Rightarrow> (string \<times> string) list" where
  "form_pairs form = map (\<lambda>(k, fe). (k, to_str (f_value fe))) form"

definition plain_form_values :: "form_entry obj \<Rightarrow> bool" where
  "plain_form_values form \<longleftrightarrow> (\<forall>(k, fe) \<in> set form. f_value fe \<noteq> JUndef \<and> \<not> is_array (f_value fe))"

definition form_text :: "string \<times> string \<Rightarrow> string" where
  "form_text kv = encodeURIComponent (fst kv) @ ''='' @ encodeURIComponent (snd kv)"

lemma form_piece_plain:
  "\<not> is_array (f_value fe) \<Longrightarrow> form_piece False k fe = form_text (k, to_str (f_value fe))"
  by (cases "f_value fe") (simp_all add: form_piece_def form_text_def mask_def is_array_def)

lemma form_text_ne: "form_text kv \<noteq> []"
  by (simp add: form_text_def)

lemma urlencode_form_join:
  assumes "plain_form_values form"
  shows "urlencode_form False form = js_join ''&'' (map form_text (form_pairs form))"
proof -
  let ?f = "\<lambda>(key, fe) encoded. if f_value fe \<noteq> JUndef
      then (if encoded \<noteq> [] then encoded @ ''&'' else encoded) @ form_piece False key fe else encoded"
  have "fold ?f form (js_join ''&'' ws) = js_join ''&'' (ws @ map form_text (form_pairs form))"
    if "plain_form_values form" "\<forall>w \<in> set ws. w \<noteq> []" for ws
    using that
  proof (induction form arbitrary: ws)
    case Nil
    then show ?case by (simp add: form_pairs_def)
  next
    case (Cons kfe form)
    obtain k fe where kfe: "kfe = (k, fe)" by (cases kfe)
    let ?t = "form_text (k, to_str (f_value fe))"
    have "f_value fe \<noteq> JUndef" "\<not> is_array (f_value fe)" "plain_form_values form"
      using Cons.prems by (auto simp: plain_form_values_def kfe)
    moreover have "js_join ''&'' ws = [] \<longleftrightarrow> ws = []"
      using Cons.prems(2) by (cases ws; cases "tl ws") auto
    ultimately have "?f kfe (js_join ''&'' ws) = js_join ''&'' (ws @ [?t])"
      using js_join_snoc [of ws "''&''" ?t] by (auto simp: kfe form_piece_plain)
    then show ?case
      using Cons.IH [of "ws @ [?t]"] Cons.prems \<open>plain_form_values form\<close> form_text_ne by (simp add: form_pairs_def kfe)
  qed
  from this [of "[]"] assms show ?thesis by (simp add: urlencode_form_def)
qed

lemma encode_avoids_sep: "CHR ''&'' \<notin> set (encodeURIComponent s)" "CHR ''='' \<notin> set (encodeURIComponent s)"
  by (rule encodeURIComponent_avoids, simp)+

lemma parse_form_text:
  assumes "ps \<noteq> []"
  shows "parse_query (js_join ''&'' (map form_text ps)) = ps"
proof -
  have "CHR ''&'' \<notin> set (form_text kv)" for kv using encode_avoids_sep(1) by (simp add: form_text_def)
  then have "split_char CHR ''&'' (js_join ''&'' (map form_text ps)) = map form_text ps"
    using assms by (intro split_join_char) auto
  moreover have "uri_decode (takeWhile (\<lambda>c. c \<noteq> CHR ''='') (form_text kv)) = fst kv"
    "uri_decode (tl (dropWhile (\<lambda>c. c \<noteq> CHR ''='') (form_text kv))) = snd kv" for kv
    using encode_avoids_sep(2) by (simp_all add: form_text_def takeWhile_sep dropWhile_sep uri_decode_encode)
  ultimately show ?thesis by (simp add: parse_query_def comp_def)
qed

text \<open>With distinct names the form is the list of the given form parameters.\<close>

definition given_form :: "jsv obj \<Rightarrow> param list \<Rightarrow> param list" where
  "given_form args ps = filter (\<lambda>p. p_in p = ''formData'' \<and> arg args (p_name p) \<noteq> JUndef) ps"


lemma fold_body_step_form:
  assumes "distinct (map p_name ps)" "set (obj_keys (formParams st)) \<inter> set (map p_name ps) = {}"
  shows "map (\<lambda>(k, fe). (k, f_value fe)) (formParams (fold (body_step args) ps st))
     = map (\<lambda>(k, fe). (k, f_value fe)) (formParams st) @ map (\<lambda>p. (p_name p, arg args (p_name p))) (given_form args ps)"
  using assms
proof (induction ps arbitrary: st)
  case (Cons p ps)
  have new: "p_name p \<notin> set (obj_keys (formParams st))" using Cons.prems by auto
  have step: "map (\<lambda>(k, fe). (k, f_value fe)) (formParams (body_step args p st))
      = map (\<lambda>(k, fe). (k, f_value fe)) (formParams st) @ map (\<lambda>p. (p_name p, arg args (p_name p))) (given_form args [p])"
    "set (obj_keys (formParams (body_step args p st))) \<subseteq> insert (p_name p) (set (obj_keys (formParams st)))"
    using new by (auto simp: body_step_def given_form_def obj_set_append Let_def obj_keys_def)
  have "p_name p \<notin> set (map p_name ps)" "set (obj_keys (formParams st)) \<inter> set (map p_name ps) = {}" using Cons.prems by auto
  then have "set (obj_keys (formParams (body_step args p st))) \<inter> set (map p_name ps) = {}" using step(2) by blast
  moreover have "given_form args (p # ps) = given_form args [p] @ given_form args ps" by (simp add: given_form_def)
  ultimately show ?case using Cons.IH [of "body_step args p st"] Cons.prems step(1) by simp
qed (simp add: given_form_def)

lemma body_params_form:
  assumes "distinct (map p_name (parameters this))"
  shows "map (\<lambda>(k, fe). (k, f_value fe)) (formParams (body_params this args))
     = map (\<lambda>p. (p_name p, arg args (p_name p))) (given_form args (parameters this))"
  using fold_body_step_form [OF assms] by (simp add: body_params_def obj_keys_def)

lemma type_test_JStr: "type_test (JStr s) p P = Inr (s \<noteq> [] \<and> P (index_of p s))"
  by (simp add: type_test_def js_indexOf_def)

section \<open>Content types of forms\<close>

lemma content_params_split:
  "definedFileParams (fold (content_step args opts) ps st) =
     definedFileParams st @ filter (\<lambda>p. p_in p = ''formData'' \<and> p_type p = ''file'') ps"
  "definedFormParams (fold (content_step args opts) ps st) =
     definedFormParams st @ filter (\<lambda>p. p_in p = ''formData'' \<and> p_type p \<noteq> ''file'') ps"
  by (induction ps arbitrary: st) (auto simp: content_step_def)

lemma content_params_files:
  "definedFileParams (content_params this args opts) = filter (\<lambda>p. p_in p = ''formData'' \<and> p_type p = ''file'') (parameters this)"
  "definedFormParams (content_params this args opts) = filter (\<lambda>p. p_in p = ''formData'' \<and> p_type p \<noteq> ''file'') (parameters this)"
  by (simp_all add: content_params_def content_params_split)

lemma content_params_body:
  "\<forall>p \<in> set (parameters this). p_in p \<noteq> ''body'' \<Longrightarrow> ct_body (content_params this args opts) = JUndef"
proof -
  have "ct_body st = JUndef \<Longrightarrow> \<forall>p \<in> set ps. p_in p \<noteq> ''body'' \<Longrightarrow> ct_body (fold (content_step args opts) ps st) = JUndef" for ps st
    by (induction ps arbitrary: st) (auto simp: content_step_def)
  then show "\<forall>p \<in> set (parameters this). p_in p \<noteq> ''body'' \<Longrightarrow> ct_body (content_params this args opts) = JUndef"
    by (simp add: content_params_def)
qed

text \<open>The last form type that an operation consumes.\<close>

definition last_form_type :: "string list \<Rightarrow> string" where
  "last_form_type cs = (case rev (filter form_type cs) of [] \<Rightarrow> ''application/x-www-form-urlencoded'' | c # _ \<Rightarrow> c)"

lemma fold_form_type:
  "fold (\<lambda>chk c. if form_type chk then JStr chk else c) cs d = (case rev (filter form_type cs) of [] \<Rightarrow> d | c # _ \<Rightarrow> JStr c)"
  by (induction cs arbitrary: d) (auto split: list.splits)

lemma form_consumes_eq:
  assumes "\<not> truthy (arg opts ''requestContentType'')"
  shows "form_consumes this opts (content_params this args opts) =
     JStr (if \<exists>p \<in> set (parameters this). p_in p = ''formData'' \<and> p_type p = ''file'' then ''multipart/form-data''
           else last_form_type (consumes this))"
  using assms by (auto simp: form_consumes_def content_params_files fold_form_type last_form_type_def filter_empty_conv
      split: list.splits)

text \<open>An operation of the examples: a form with two fields, sent with \<open>post\<close>.\<close>

definition field :: "string \<Rightarrow> string \<Rightarrow> param" where
  "field name place = \<lparr>p_name = name, p_in = place, p_type = ''string'', p_format = [], collectionFormat = None,
     p_required = False, allowEmptyValue = False, x_escape = JUndef\<rparr>"

definition sample_op :: "string \<Rightarrow> param list \<Rightarrow> operation" where
  "sample_op method ps = \<lparr>op_path = ''/t'', parameters = ps, scheme = ''http'', host = ''h'', basePath = ''/'', op_method = method,
     consumes = [], produces = [''application/json''], op_security = None\<rparr>"

definition sample_env :: env where
  "sample_env = \<lparr>date_parse = (\<lambda>s. Never), now = 0, hasFormData = True, requestInterceptor = None, send = (\<lambda>m. Inr None)\<rparr>"

definition sample_settings :: settings where
  "sample_settings = \<lparr>useJQuery = JUndef, jqueryAjaxCache = JUndef, enableCookies = JUndef, op_timeout = JUndef\<rparr>"

lemmas sample_defs = field_def sample_op_def sample_env_def sample_settings_def

section \<open>Properties\<close>

text \<open>C3: A form that is not multipart is sent without loss: for distinct parameter names and values that are
  not arrays, what a server decodes from the body are the given form parameters with their values, in the
  order of the specification.\<close>

theorem form_body_roundtrip:
  assumes "distinct (map p_name (parameters this))" "given_form args (parameters this) \<noteq> []"
    and "\<forall>p \<in> set (given_form args (parameters this)). \<not> is_array (arg args (p_name p))"
    and "\<not> truthy (arg opts ''maskPasswords'')"
    and "arg hs ''Content-Type'' = JStr ct" "index_of ''multipart/form-data'' ct < 0"
  shows "\<exists>b. getBody fd this hs args opts = Inr (BodyValue (JStr b), hs)
    \<and> parse_query b = map (\<lambda>p. (p_name p, to_str (arg args (p_name p)))) (given_form args (parameters this))"
proof -
  let ?form = "formParams (body_params this args)"
  note eq = body_params_form [OF assms(1), of args]
  have ne: "?form \<noteq> []" using arg_cong [OF eq, of length] assms(2) by auto
  have pairs: "form_pairs ?form = map (\<lambda>p. (p_name p, to_str (arg args (p_name p)))) (given_form args (parameters this))"
    using arg_cong [OF eq, of "map (\<lambda>(k, v). (k, to_str v))"] by (simp add: form_pairs_def comp_def case_prod_unfold)
  have "\<forall>(k, v) \<in> set (map (\<lambda>(k, fe). (k, f_value fe)) ?form). v \<noteq> JUndef \<and> \<not> is_array v"
    unfolding eq using assms(3) by (auto simp: given_form_def)
  then have plain: "plain_form_values ?form" by (auto simp: plain_form_values_def)
  have "getBody fd this hs args opts = Inr (BodyValue (JStr (urlencode_form False ?form)), hs)"
    using assms(4-6) ne by (simp add: getBody_def Let_def type_test_JStr)
  moreover have "form_pairs ?form \<noteq> []" using ne by (simp add: form_pairs_def)
  then have "parse_query (urlencode_form False ?form) = form_pairs ?form"
    unfolding urlencode_form_join [OF plain] by (rule parse_form_text)
  ultimately show ?thesis unfolding pairs by blast
qed

theorem form_body_roundtrip_witness:
  "\<exists>b. getBody True (sample_op ''post'' [field ''a'' ''formData'', field ''b'' ''formData'']) [(''Content-Type'', JStr ''x'')]
        [(''b'', JStr ''x&y''), (''a'', JBool True)] [] = Inr (BodyValue (JStr b), [(''Content-Type'', JStr ''x'')])
     \<and> parse_query b = [(''a'', ''true''), (''b'', ''x&y'')]"
  using form_body_roundtrip [of "sample_op ''post'' [field ''a'' ''formData'', field ''b'' ''formData'']" "[(''b'', JStr ''x&y''), (''a'', JBool True)]"
      "[]" "[(''Content-Type'', JStr ''x'')]" "''x''" True]
  by (simp add: sample_defs given_form_def is_array_def starts_with_def)

text \<open>An operation with form fields that has a method for a body gets a content type for forms:
  \<open>multipart/form-data\<close> when one of its parameters is a file, otherwise the last form type it
  consumes, and \<open>application/x-www-form-urlencoded\<close> when it consumes none.\<close>

theorem form_content_type:
  assumes "p \<in> set (parameters this)" "p_in p = ''formData''" "p_type p \<noteq> ''file''"
    and "\<forall>p \<in> set (parameters this). p_in p \<noteq> ''body''"
    and "op_method this \<in> {''post'', ''put'', ''patch'', ''delete'', ''get''}"
    and "\<not> truthy (arg opts ''requestContentType'')"
  shows "arg (setContentTypes this args opts) ''Content-Type'' =
     JStr (if \<exists>p \<in> set (parameters this). p_in p = ''formData'' \<and> p_type p = ''file'' then ''multipart/form-data''
           else last_form_type (consumes this))
   \<and> form_type (to_str (arg (setContentTypes this args opts) ''Content-Type''))"
proof -
  let ?st = "content_params this args opts"
  define ct where "ct = (if \<exists>p \<in> set (parameters this). p_in p = ''formData'' \<and> p_type p = ''file'' then ''multipart/form-data''
           else last_form_type (consumes this))"
  have ft: "form_type ct"
  proof -
    have "form_type (last_form_type cs)" for cs
    proof (cases "rev (filter form_type cs)")
      case Nil
      then show ?thesis by (simp add: last_form_type_def form_type_def starts_with_def)
    next
      case (Cons c r)
      then have "c \<in> set (filter form_type cs)" by (metis list.set_intros(1) set_rev)
      then show ?thesis using Cons by (simp add: last_form_type_def)
    qed
    moreover have "form_type ''multipart/form-data''" by (simp add: form_type_def starts_with_def)
    ultimately show ?thesis by (simp add: ct_def)
  qed
  then have "ct \<noteq> []" by (cases ct) (auto simp: form_type_def starts_with_def)
  moreover have "definedFormParams ?st \<noteq> []" using assms(1-3) by (auto simp: content_params_files filter_empty_conv)
  then have "choose_consumes this args opts ?st = JStr ct"
    using assms(5,6) form_consumes_eq [of opts this args] unfolding ct_def [symmetric] by (simp add: choose_consumes_def Let_def)
  ultimately have "arg (setContentTypes this args opts) ''Content-Type'' = JStr ct"
    using content_params_body [OF assms(4)] by (simp add: setContentTypes_def Let_def)
  then show ?thesis using ft unfolding ct_def [symmetric] by simp
qed

theorem form_content_type_witness:
  "arg (setContentTypes (sample_op ''put'' [field ''a'' ''formData'']) [] []) ''Content-Type'' = JStr ''application/x-www-form-urlencoded''"
  using form_content_type [of "field ''a'' ''formData''" "sample_op ''put'' [field ''a'' ''formData'']" "[]" "[]"]
  by (simp add: sample_defs last_form_type_def)

text \<open>When a required parameter is missing nothing is sent: \<open>execute\<close> reports the parameter, and \<open>asCurl\<close>,
  which expects a request, throws a \<open>TypeError\<close>.\<close>

theorem missing_param_outcome:
  assumes "getMissingParams this args \<noteq> []"
  shows "execute e this s authz oa args opts = Inr (Rejected (''missing required params: '' @ getMissingParams this args))
    \<and> asCurl e this s authz oa args opts = Inl null_error"
  using assms by (simp add: execute_def asCurl_def Let_def)

theorem missing_param_outcome_witness:
  "asCurl sample_env (sample_op ''get'' [(field ''q'' ''query'')\<lparr>p_required := True\<rparr>]) sample_settings [] None [] [] = Inl null_error"
  using missing_param_outcome [of "sample_op ''get'' [(field ''q'' ''query'')\<lparr>p_required := True\<rparr>]" "[]" sample_env sample_settings "[]" None "[]"]
  by (simp add: sample_defs getMissingParams_def)


definition sample_get :: operation where
  "sample_get = sample_op ''get'' [field ''q'' ''query'']"

definition sample_prepared :: "string \<Rightarrow> prepared" where
  "sample_prepared u = \<lparr>pr_request = \<lparr>url = u, headers = [(''Accept'', JStr ''application/json'')], cookieJar = None,
       clientAuthorizations = None\<rparr>, pr_method = ''GET'', pr_body = BodyValue JUndef, pr_enableCookies = JUndef,
     pr_useJQuery = JUndef, pr_jqueryAjaxCache = JUndef, pr_timeout = JUndef\<rparr>"

lemma sample_prepare:
  "prepare sample_env sample_get sample_settings None [(''q'', JStr ''a b'')]
     (with_defaults sample_settings [(''mock'', JBool True), (''maskPasswords'', JBool True)])
   = Inr (sample_prepared ''http://h/t?q=a%20b'')"
  by code_simp


text \<open>A single quote in the value of a query parameter is not escaped (\<open>encodeURIComponent\<close> leaves it), so it
  ends the quoted url and the shell finds an unterminated quote.\<close>

theorem asCurl_url_quote:
  "\<exists>cmd. asCurl sample_env sample_get sample_settings [] None [(''q'', JStr [CHR 0x27])] [] = Inr cmd \<and> sh_words False None cmd = None"
proof -
  have "asCurl sample_env sample_get sample_settings [] None [(''q'', JStr [CHR 0x27])] []
     = Inr (''curl -X GET --header '' @ [CHR 0x27] @ ''Accept: application/json'' @ [CHR 0x27] @ '' '' @ [CHR 0x27] @ ''http://h/t?q=''
         @ [CHR 0x27, CHR 0x27])"
    by code_simp
  then show ?thesis by simp
qed

end
