(* ===== verification/Http.thy ===== *)
theory Http
  imports Operation_Request
begin

text \<open>
  Sending a request (module 5 of \<open>swagger-ui.js\<close>): \<open>SwaggerHttp\<close> chooses a client, wraps the callbacks and runs the
  interceptors; the clients drive jQuery and superagent. What these libraries and the server answer is an argument: an \<open>xhr\<close>
  object for jQuery, an error and a response for superagent. Which of the two callbacks of the caller is called, and with what,
  is the result.
\<close>

section \<open>Requests, responses and options\<close>

text \<open>What module 5 reads and sets of a request besides the fields of \<open>prepared\<close>.\<close>

record http_request = prepared +
  connectionAgent :: jsv
  contentType :: jsv
  processData :: jsv

record response =
  rs_url :: string
  rs_method :: string
  rs_status :: int
  rs_statusText :: jsv
  rs_headers :: "jsv obj"
  rs_data :: jsv
  rs_obj :: jsv
  rs_errObj :: jsv

text \<open>A call of the success or of the error callback, with what the response interceptor returned.\<close>

datatype answer = Success "response option" | Failure "response option"

datatype client = SuperagentHttpClient | JQueryHttpClient | CustomClient

text \<open>An interceptor that returns nothing gives \<open>None\<close>.\<close>

record http_opts =
  opt_client :: "client option"
  opt_useJQuery :: jsv
  opt_requestInterceptor :: "(http_request \<Rightarrow> http_request option) option"
  opt_responseInterceptor :: "(response \<Rightarrow> response option) option"

text \<open>Whether the window has \<open>jQuery\<close> and \<open>log\<close>, and what the navigator calls itself.\<close>

record window =
  hasJQuery :: bool
  hasLog :: bool
  userAgent :: "string option"

section \<open>Internet Explorer\<close>

definition hex_digit_val :: "char \<Rightarrow> nat option" where
  "hex_digit_val c =
     (if is_digit c then Some (code c - 48)
      else if 97 \<le> code (lower_char c) \<and> code (lower_char c) \<le> 102 then Some (code (lower_char c) - 87)
      else None)"

fun prefix_val :: "nat \<Rightarrow> int \<Rightarrow> string \<Rightarrow> int" where
  "prefix_val base acc [] = acc"
| "prefix_val base acc (c # s) =
     (case hex_digit_val c of
        Some d \<Rightarrow> if d < base then prefix_val base (acc * int base + int d) s else acc
      | None \<Rightarrow> acc)"

definition starts_number :: "nat \<Rightarrow> string \<Rightarrow> bool" where
  "starts_number base s = (case s of [] \<Rightarrow> False | c # _ \<Rightarrow> (case hex_digit_val c of Some d \<Rightarrow> d < base | None \<Rightarrow> False))"

text \<open>\<open>parseInt(s)\<close>; \<open>None\<close> is \<open>NaN\<close>.\<close>

definition parse_int :: "string \<Rightarrow> int option" where
  "parse_int s0 =
     (let s1 = dropWhile is_space s0;
          neg = starts_with ''-'' s1;
          s2 = (if starts_with ''-'' s1 \<or> starts_with ''+'' s1 then tl s1 else s1);
          hex = starts_with ''0x'' (to_lower s2);
          s3 = (if hex then drop 2 s2 else s2);
          base = (if hex then 16 else 10)
      in if starts_number base s3 then Some ((if neg then -1 else 1) * prefix_val base 0 s3) else None)"

definition isInternetExplorer :: "window \<Rightarrow> bool" where
  "isInternetExplorer w = (case userAgent w of
      None \<Rightarrow> False
    | Some ua \<Rightarrow>
        (let nav = to_lower ua; i = index_of ''msie'' nav;
             rest = drop (nat i + 4) nav; j = index_of ''msie'' rest
         in i \<noteq> -1 \<and> (case parse_int (if j = -1 then rest else take (nat j) rest) of None \<Rightarrow> False | Some v \<Rightarrow> v \<le> 8)))"

section \<open>SwaggerHttp\<close>

definition unsupported :: js_error where
  "unsupported = JsError ''Unsupported configuration! JQuery is required but not available''"

definition choose_client :: "window \<Rightarrow> http_opts option \<Rightarrow> http_request \<Rightarrow> (client \<times> http_request) result" where
  "choose_client w opts obj =
     (let client = (case opts of None \<Rightarrow> SuperagentHttpClient
                    | Some o1 \<Rightarrow> (case opt_client o1 of Some c \<Rightarrow> c | None \<Rightarrow> SuperagentHttpClient));
          forced = (to_lower (pr_method obj) = ''options'' \<and> client = SuperagentHttpClient);
          obj1 = (if forced then obj\<lparr>pr_useJQuery := JBool True\<rparr> else obj)
      in if forced \<and> \<not> hasLog w then Inl (JsError ''log is not defined'')
         else if isInternetExplorer w \<and> (pr_useJQuery obj1 = JBool False \<or> \<not> hasJQuery w) then Inl unsupported
         else Inr (if pr_useJQuery obj1 = JBool True \<or> isInternetExplorer w \<and> hasJQuery w then JQueryHttpClient else client, obj1))"

definition is_form_data :: "req_body \<Rightarrow> bool" where
  "is_form_data b = (case b of BodyForm fd \<Rightarrow> True | BodyValue v \<Rightarrow> is_object v \<and> prop_of v ''type'' = JStr ''formData'')"

definition drop_header :: "string \<Rightarrow> http_request \<Rightarrow> http_request" where
  "drop_header k obj = obj\<lparr>pr_request := (pr_request obj)\<lparr>headers := obj_del k (headers (pr_request obj))\<rparr>\<rparr>"

text \<open>Form data through jQuery: the browser sets the content type. \<open>opts\<close> is not checked here.\<close>

definition form_upload :: "http_opts option \<Rightarrow> http_request \<Rightarrow> http_request result" where
  "form_upload opts obj =
     (if is_form_data (pr_body obj) then
        (case opts of
           None \<Rightarrow> Inl null_error
         | Some o1 \<Rightarrow>
             Inr (if truthy (opt_useJQuery o1)
                  then drop_header ''Content-Type'' (obj\<lparr>contentType := JBool False, processData := JBool False\<rparr>) else obj))
      else Inr obj)"

definition intercept_request :: "http_opts option \<Rightarrow> http_request \<Rightarrow> http_request" where
  "intercept_request opts obj = (case opts of
      None \<Rightarrow> obj
    | Some o1 \<Rightarrow> (case opt_requestInterceptor o1 of None \<Rightarrow> obj | Some f \<Rightarrow> (case f obj of None \<Rightarrow> obj | Some obj' \<Rightarrow> obj')))"

text \<open>The requests that the client executes. \<open>beforeSend\<close> gives the arguments with which it calls its callback.\<close>

definition http_execute ::
  "window \<Rightarrow> http_opts option \<Rightarrow> (http_request \<Rightarrow> http_request option list) option \<Rightarrow> http_request
     \<Rightarrow> (client \<times> http_request list) result" where
  "http_execute w opts beforeSend obj0 =
     bindR (choose_client w opts obj0) (\<lambda>(client, obj1).
     bindR (form_upload opts obj1) (\<lambda>obj2.
       let obj = intercept_request opts obj2
       in Inr (client, case beforeSend of None \<Rightarrow> [obj] | Some f \<Rightarrow> map (\<lambda>r. case r of Some obj' \<Rightarrow> obj' | None \<Rightarrow> obj) (f obj))))"

definition intercept_response :: "http_opts option \<Rightarrow> response \<Rightarrow> response option" where
  "intercept_response opts d = (case opts of
      None \<Rightarrow> Some d
    | Some o1 \<Rightarrow> (case opt_responseInterceptor o1 of None \<Rightarrow> Some d | Some f \<Rightarrow> f d))"

text \<open>\<open>obj.on.error\<close> and \<open>obj.on.response\<close> as \<open>execute\<close> sets them.\<close>

definition on_error :: "http_opts option \<Rightarrow> response \<Rightarrow> answer" where
  "on_error opts d = Failure (intercept_response opts d)"

definition on_response :: "http_opts option \<Rightarrow> response \<Rightarrow> answer" where
  "on_response opts d =
     (if rs_status d \<ge> 400 then Failure (intercept_response opts d) else Success (intercept_response opts d))"

section \<open>The client for jQuery\<close>

text \<open>The settings for \<open>jq.ajax\<close>.\<close>

record ajax =
  ajax_url :: string
  ajax_type :: string
  ajax_headers :: "jsv obj"
  ajax_cache :: jsv
  ajax_data :: req_body
  ajax_contentType :: jsv
  ajax_processData :: jsv

definition jquery_execute :: "window \<Rightarrow> http_request \<Rightarrow> ajax result" where
  "jquery_execute w obj =
     (if \<not> hasJQuery w then Inl unsupported
      else Inr \<lparr>ajax_url = url (pr_request obj), ajax_type = pr_method obj, ajax_headers = headers (pr_request obj),
                ajax_cache = pr_jqueryAjaxCache obj, ajax_data = pr_body obj, ajax_contentType = contentType obj,
                ajax_processData = processData obj\<rparr>)"

record xhr =
  x_status :: int
  x_statusText :: string
  x_responseText :: string
  x_responseJSON :: jsv
  x_headers :: string

definition header_line :: "string \<Rightarrow> jsv obj \<Rightarrow> jsv obj" where
  "header_line line hs =
     (let toSplit = js_trim line; separator = index_of '':'' toSplit
      in if toSplit = [] then hs
         else if separator = -1 then obj_set toSplit JNull hs
         else obj_set (js_trim (substring toSplit 0 separator)) (JStr (js_trim (substring_from toSplit (separator + 1)))) hs)"

definition response_headers :: "string \<Rightarrow> jsv obj" where
  "response_headers s = fold header_line (split_char CHR 0x0A s) []"

text \<open>\<open>safeLoad\<close> is the parser of js-yaml; what it throws is caught.\<close>

definition jquery_obj :: "(string \<Rightarrow> jsv result) \<Rightarrow> xhr \<Rightarrow> jsv" where
  "jquery_obj safeLoad x =
     (case (if truthy (x_responseJSON x) then Inr (x_responseJSON x) else safeLoad (x_responseText x)) of
        Inl e \<Rightarrow> JNull
      | Inr (JStr s) \<Rightarrow> JObj []
      | Inr v \<Rightarrow> js_or v JNull)"

definition jquery_complete :: "(string \<Rightarrow> jsv result) \<Rightarrow> http_opts option \<Rightarrow> http_request \<Rightarrow> xhr \<Rightarrow> answer" where
  "jquery_complete safeLoad opts obj x =
     (let out = \<lparr>rs_url = url (pr_request obj), rs_method = pr_method obj, rs_status = x_status x, rs_statusText = JStr (x_statusText x),
                 rs_headers = response_headers (x_headers x), rs_data = JStr (x_responseText x), rs_obj = jquery_obj safeLoad x,
                 rs_errObj = JUndef\<rparr>
      in if 200 \<le> x_status x \<and> x_status x < 300 then on_response opts out
         else if x_status x = 0 \<or> 400 \<le> x_status x \<and> x_status x < 599 then on_error opts out
         else on_response opts out)"

section \<open>The client for superagent\<close>

text \<open>What is called on the request of superagent, in this order.\<close>

datatype sa_call =
    SaAgent jsv | SaTimeout jsv | SaWithCredentials | SaBlob
  | SaSend req_body | SaSendText string | SaField string jsv | SaSet string jsv

definition superagent_methods :: "string list" where
  "superagent_methods = [''get'', ''head'', ''options'', ''del'', ''delete'', ''patch'', ''post'', ''put'']"

definition binaryRequest :: "jsv \<Rightarrow> bool" where
  "binaryRequest accept \<longleftrightarrow> truthy accept \<and>
     (starts_with ''image'' (to_lower (to_str accept)) \<or> starts_with ''application/pdf'' (to_str accept)
      \<or> starts_with ''application/octet-stream'' (to_str accept))"

text \<open>The loop over an array has the indices as its values.\<close>

definition field_calls :: "string \<times> jsv \<Rightarrow> sa_call list" where
  "field_calls kv = (case kv of
      (keyname, JArr xs) \<Rightarrow> map (\<lambda>i. SaField keyname (JStr (show_nat i))) [0..<length xs]
    | (keyname, v) \<Rightarrow> [SaField keyname v])"

text \<open>The body, and the headers that are left.\<close>

definition body_calls :: "http_request \<Rightarrow> (sa_call list \<times> http_request) result" where
  "body_calls obj =
     (let hs = headers (pr_request obj) in
      case pr_body obj of
        BodyValue v \<Rightarrow>
          if \<not> truthy v then Inr ([], obj)
          else if \<not> is_object v then Inr ([SaSend (BodyValue v)], obj)
          else bindR (js_indexOf (js_or (arg hs ''Content-Type'') (JStr [])) ''multipart/form-data'') (\<lambda>i.
            if i = 0 then Inr (concat (map field_calls (entries_of v)), drop_header ''Content-Type'' obj)
            else Inr ([SaSendText (json_text v)], obj))
      | BodyForm fd \<Rightarrow>
          bindR (js_indexOf (js_or (arg hs ''Content-Type'') (JStr [])) ''multipart/form-data'') (\<lambda>i.
            if i = 0 then Inr ([SaSend (BodyForm fd)], drop_header ''Content-Type'' obj)
            else Inr ([SaSendText (body_json (BodyForm fd))], obj)))"

text \<open>The method of \<open>request\<close> that is called, its url, and the calls on the result.\<close>

definition superagent_execute :: "http_request \<Rightarrow> (string \<times> string \<times> sa_call list) result" where
  "superagent_execute obj =
     (let m0 = to_lower (pr_method obj); meth = (if m0 = ''delete'' then ''del'' else m0) in
      if meth \<notin> set superagent_methods then Inl (no_method ''request[method]'')
      else bindR (body_calls obj) (\<lambda>(calls, obj').
        Inr (meth, url (pr_request obj),
          (if truthy (connectionAgent obj) then [SaAgent (connectionAgent obj)] else [])
          @ (if truthy (pr_timeout obj) then [SaTimeout (pr_timeout obj)] else [])
          @ (if truthy (pr_enableCookies obj) then [SaWithCredentials] else [])
          @ (if binaryRequest (arg (headers (pr_request obj)) ''Accept'') then [SaBlob] else [])
          @ calls @ map (\<lambda>(k, v). SaSet k v) (headers (pr_request obj')))))"

record sa_response =
  sr_status :: int
  sr_headers :: "jsv obj"
  sr_text :: jsv
  sr_error :: jsv
  sr_body :: jsv
  sr_xhr_response :: jsv

definition no_response :: sa_response where
  "no_response = \<lparr>sr_status = 0, sr_headers = [(''error'', JStr ''no response from server'')], sr_text = JUndef, sr_error = JUndef,
     sr_body = JUndef, sr_xhr_response = JUndef\<rparr>"

text \<open>The object of an error response; \<open>parse\<close> is \<open>JSON.parse\<close> of what the argument is as a string.\<close>

definition error_obj :: "(string \<Rightarrow> jsv result) \<Rightarrow> sa_response \<Rightarrow> jsv result" where
  "error_obj parse res =
     (let ct = arg (sr_headers res) ''content-type'' in
      if truthy ct then bindR (js_indexOf ct ''application/json'') (\<lambda>i.
        Inr (if i \<ge> 0 then (case parse (to_str (sr_text res)) of Inl e \<Rightarrow> JNull | Inr v \<Rightarrow> v) else JUndef))
      else Inr JUndef)"

definition success_obj :: "(string \<Rightarrow> jsv result) \<Rightarrow> sa_response \<Rightarrow> jsv" where
  "success_obj safeLoad res =
     (let v = (if truthy (sr_body res) \<and> entries_of (sr_body res) \<noteq> [] then sr_body res
               else (case safeLoad (to_str (sr_text res)) of Inl e \<Rightarrow> JUndef | Inr (JStr s) \<Rightarrow> JNull | Inr w \<Rightarrow> w))
      in if is_object v then v else JNull)"

definition superagent_end ::
  "(string \<Rightarrow> jsv result) \<Rightarrow> (string \<Rightarrow> jsv result) \<Rightarrow> http_opts option \<Rightarrow> http_request \<Rightarrow> jsv \<Rightarrow> sa_response option \<Rightarrow> answer result" where
  "superagent_end safeLoad parse opts obj err0 res0 =
     (let res = (case res0 of None \<Rightarrow> no_response | Some r \<Rightarrow> r);
          err = (if \<not> truthy err0 \<and> truthy (sr_error res) then sr_error res else err0);
          base = \<lparr>rs_url = url (pr_request obj), rs_method = pr_method obj, rs_status = sr_status res, rs_statusText = sr_text res,
                  rs_headers = sr_headers res, rs_data = js_or (sr_xhr_response res) (sr_text res), rs_obj = JUndef, rs_errObj = JUndef\<rparr>
      in if truthy err then bindR (error_obj parse res) (\<lambda>v. Inr (on_error opts (base\<lparr>rs_errObj := err, rs_obj := v\<rparr>)))
         else Inr (on_response opts (base\<lparr>rs_obj := success_obj safeLoad res\<rparr>)))"

section \<open>Who is called\<close>

lemma jquery_answer:
  "\<exists>out. rs_status out = x_status x \<and> rs_headers out = response_headers (x_headers x)
      \<and> jquery_complete safeLoad opts obj x
        = (if x_status x = 0 \<or> x_status x \<ge> 400 then Failure else Success) (intercept_response opts out)"
proof -
  let ?out = "\<lparr>rs_url = url (pr_request obj), rs_method = pr_method obj, rs_status = x_status x, rs_statusText = JStr (x_statusText x),
                 rs_headers = response_headers (x_headers x), rs_data = JStr (x_responseText x), rs_obj = jquery_obj safeLoad x,
                 rs_errObj = JUndef\<rparr>"
  have "jquery_complete safeLoad opts obj x
      = (if x_status x = 0 \<or> x_status x \<ge> 400 then Failure else Success) (intercept_response opts ?out)"
    by (auto simp: jquery_complete_def Let_def on_response_def on_error_def)
  then show ?thesis by (intro exI [of _ ?out]) simp
qed

lemma error_obj_string:
  "(case arg (sr_headers r) ''content-type'' of JStr s \<Rightarrow> True | v \<Rightarrow> \<not> truthy v) \<Longrightarrow> \<exists>v. error_obj parse r = Inr v"
  by (cases "arg (sr_headers r) ''content-type''") (auto simp: error_obj_def js_indexOf_def Let_def)

lemma superagent_answer:
  assumes "case arg (sr_headers r) ''content-type'' of JStr s \<Rightarrow> True | v \<Rightarrow> \<not> truthy v"
  shows "\<exists>out. rs_status out = sr_status r \<and> rs_headers out = sr_headers r
      \<and> superagent_end safeLoad parse opts obj err (Some r)
        = Inr ((if truthy err \<or> truthy (sr_error r) \<or> sr_status r \<ge> 400 then Failure else Success) (intercept_response opts out))"
proof -
  obtain v where "error_obj parse r = Inr v" using error_obj_string [OF assms] by blast
  note v = this
  define base where "base = \<lparr>rs_url = url (pr_request obj), rs_method = pr_method obj, rs_status = sr_status r, rs_statusText = sr_text r,
    rs_headers = sr_headers r, rs_data = js_or (sr_xhr_response r) (sr_text r), rs_obj = JUndef, rs_errObj = JUndef\<rparr>"
  define out where "out = (if truthy err \<or> truthy (sr_error r) then base\<lparr>rs_errObj := if truthy err then err else sr_error r, rs_obj := v\<rparr>
    else base\<lparr>rs_obj := success_obj safeLoad r\<rparr>)"
  have "superagent_end safeLoad parse opts obj err (Some r)
        = Inr ((if truthy err \<or> truthy (sr_error r) \<or> sr_status r \<ge> 400 then Failure else Success) (intercept_response opts out))"
    using v by (auto simp: superagent_end_def Let_def on_response_def on_error_def out_def base_def)
  then show ?thesis by (intro exI [of _ out]) (simp add: out_def base_def)
qed

text \<open>with either client exactly one of the callbacks is called, and with what the response interceptor makes of the
  response: the error callback if and only if the status is 400 or more, or 0 with jQuery, or superagent reports an error.\<close>

theorem answers_by_status:
  assumes "case arg (sr_headers r) ''content-type'' of JStr s \<Rightarrow> True | v \<Rightarrow> \<not> truthy v"
  shows "(\<exists>out. rs_status out = x_status x \<and> rs_headers out = response_headers (x_headers x)
      \<and> jquery_complete safeLoad opts obj x
        = (if x_status x = 0 \<or> x_status x \<ge> 400 then Failure else Success) (intercept_response opts out))
   \<and> (\<exists>out. rs_status out = sr_status r \<and> rs_headers out = sr_headers r
      \<and> superagent_end safeLoad parse opts obj err (Some r)
        = Inr ((if truthy err \<or> truthy (sr_error r) \<or> sr_status r \<ge> 400 then Failure else Success) (intercept_response opts out)))"
  using jquery_answer superagent_answer [OF assms] by blast

definition sample_request :: http_request where
  "sample_request = \<lparr>pr_request = \<lparr>url = ''http://h/pet'', headers = [], cookieJar = None, clientAuthorizations = None\<rparr>,
     pr_method = ''GET'', pr_body = BodyValue JUndef, pr_enableCookies = JUndef, pr_useJQuery = JUndef, pr_jqueryAjaxCache = JUndef,
     pr_timeout = JUndef, connectionAgent = JUndef, contentType = JUndef, processData = JUndef\<rparr>"

theorem answers_by_status_witness:
  "\<exists>out. rs_status out = 0
     \<and> superagent_end (\<lambda>s. Inr (JStr s)) (\<lambda>s. Inr JNull) None sample_request (JObj []) (Some no_response)
       = Inr (Failure (intercept_response None out))"
proof -
  have "case arg (sr_headers no_response) ''content-type'' of JStr s \<Rightarrow> True | v \<Rightarrow> \<not> truthy v" by (simp add: no_response_def)
  from answers_by_status [OF this, of _ "\<lambda>s. Inr (JStr s)" None sample_request "\<lambda>s. Inr JNull" "JObj []"]
  show ?thesis by (auto simp: no_response_def)
qed

section \<open>The headers of a response\<close>

lemma trim_fix: "s \<noteq> [] \<Longrightarrow> \<not> is_space (hd s) \<Longrightarrow> \<not> is_space (last s) \<Longrightarrow> js_trim s = s"
  using dropWhile_eq_self_iff [of is_space s] dropWhile_eq_self_iff [of is_space "rev s"] by (simp add: js_trim_def hd_rev)

lemma trim_right:
  assumes "\<forall>c \<in> set b. is_space c" "a \<noteq> []" "\<not> is_space (hd a)"
  shows "js_trim (a @ b) = js_trim a"
proof -
  have "dropWhile is_space (rev b @ rev a) = dropWhile is_space (rev a)"
    using assms(1) by (intro dropWhile_append2) auto
  moreover have "dropWhile is_space (a @ b) = a @ b" "dropWhile is_space a = a"
    using assms(2,3) by (simp_all add: dropWhile_eq_self_iff)
  ultimately show ?thesis by (simp add: js_trim_def)
qed

lemma trim_left: "is_space c \<Longrightarrow> js_trim (c # s) = js_trim s"
  by (simp add: js_trim_def)

text \<open>Names and values as a server may send them.\<close>

definition header_ok :: "string \<times> string \<Rightarrow> bool" where
  "header_ok kv \<longleftrightarrow> fst kv \<noteq> [] \<and> CHR '':'' \<notin> set (fst kv) \<and> CHR 0x0A \<notin> set (fst kv) \<and> CHR 0x0A \<notin> set (snd kv)
     \<and> \<not> is_space (hd (fst kv)) \<and> \<not> is_space (last (fst kv))
     \<and> (snd kv \<noteq> [] \<longrightarrow> \<not> is_space (hd (snd kv)) \<and> \<not> is_space (last (snd kv)))"

definition header_text :: "string \<times> string \<Rightarrow> string" where
  "header_text kv = fst kv @ '': '' @ snd kv @ [CHR 0x0D]"

lemma trim_header:
  assumes "header_ok (k, v)"
  shows "js_trim (header_text (k, v)) = (if v = [] then k @ '':'' else k @ '': '' @ v)"
proof (cases "v = []")
  case True
  have "js_trim ((k @ '':'') @ [CHR '' '', CHR 0x0D]) = js_trim (k @ '':'')"
    by (rule trim_right) (use assms in \<open>auto simp: header_ok_def is_space_def hd_append\<close>)
  also have "\<dots> = k @ '':''" by (rule trim_fix) (use assms in \<open>auto simp: header_ok_def is_space_def hd_append\<close>)
  finally show ?thesis using True by (simp add: header_text_def)
next
  case False
  have "js_trim ((k @ '': '' @ v) @ [CHR 0x0D]) = js_trim (k @ '': '' @ v)"
    by (rule trim_right) (use assms in \<open>auto simp: header_ok_def is_space_def hd_append\<close>)
  also have "\<dots> = k @ '': '' @ v" by (rule trim_fix) (use assms False in \<open>auto simp: header_ok_def hd_append\<close>)
  finally show ?thesis using False by (simp add: header_text_def)
qed

lemma header_line_text:
  assumes "header_ok (k, v)"
  shows "header_line (header_text (k, v)) hs = obj_set k (JStr v) hs"
proof -
  define s where "s = (if v = [] then [] else CHR '' '' # v)"
  have trim: "js_trim (header_text (k, v)) = k @ CHR '':'' # s" using trim_header [OF assms] by (simp add: s_def)
  have k: "js_trim k = k" by (rule trim_fix) (use assms in \<open>auto simp: header_ok_def\<close>)
  have s: "js_trim s = v"
    using assms trim_left [of "CHR '' ''" v] trim_fix [of v] by (auto simp: s_def header_ok_def is_space_def js_trim_def [of "[]"])
  have i: "index_of '':'' (k @ CHR '':'' # s) = int (length k)"
    by (rule index_of_char) (use assms in \<open>simp add: header_ok_def\<close>)
  have "substring_from (k @ CHR '':'' # s) (int (length k) + 1) = s"
    using substring_from_append [of "k @ '':''" s] by (simp add: add.commute)
  then show ?thesis using k s substring_prefix [of k "CHR '':'' # s"] by (simp add: header_line_def trim i Let_def)
qed

lemma split_headers:
  "\<forall>h \<in> set ls. CHR 0x0A \<notin> set h \<Longrightarrow> split_char CHR 0x0A (concat (map (\<lambda>l. l @ [CHR 0x0A]) ls)) = ls @ [[]]"
  by (induction ls) (auto simp: split_char_first)

lemma fold_header_lines:
  "\<forall>kv \<in> set kvs. header_ok kv \<Longrightarrow> distinct (map fst kvs) \<Longrightarrow> set (map fst kvs) \<inter> set (obj_keys hs) = {} \<Longrightarrow>
     fold header_line (map header_text kvs) hs = hs @ map (\<lambda>(k, v). (k, JStr v)) kvs"
proof (induction kvs arbitrary: hs)
  case (Cons kv kvs)
  obtain k v where kv: "kv = (k, v)" by (cases kv)
  have "header_line (header_text kv) hs = hs @ [(k, JStr v)]"
    using Cons.prems header_line_text [of k v hs] by (simp add: kv obj_set_append)
  moreover have "set (map fst kvs) \<inter> set (obj_keys (hs @ [(k, JStr v)])) = {}"
    using Cons.prems(2,3) by (auto simp: kv obj_keys_def)
  ultimately show ?case using Cons.IH [of "hs @ [(k, JStr v)]"] Cons.prems(1,2) by (simp add: kv)
qed simp

lemma response_headers_list:
  assumes "\<forall>kv \<in> set kvs. header_ok kv" "distinct (map fst kvs)"
  shows "response_headers (concat (map (\<lambda>kv. header_text kv @ [CHR 0x0A]) kvs)) = map (\<lambda>(k, v). (k, JStr v)) kvs"
proof -
  have "\<forall>h \<in> set (map header_text kvs). CHR 0x0A \<notin> set h"
    using assms(1) by (auto simp: header_text_def header_ok_def)
  from split_headers [OF this] have "split_char CHR 0x0A (concat (map (\<lambda>kv. header_text kv @ [CHR 0x0A]) kvs)) = map header_text kvs @ [[]]"
    by (simp add: o_def)
  moreover have "fold header_line (map header_text kvs) [] = map (\<lambda>(k, v). (k, JStr v)) kvs"
    using fold_header_lines [of kvs "[]"] assms by (simp add: obj_keys_def)
  ultimately show ?thesis by (simp add: response_headers_def header_line_def js_trim_def)
qed

text \<open>The headers that the jQuery client hands on are those the server sent: a block of lines \<open>name: value\<close> is parsed to
  exactly these names and values, in their order.\<close>

theorem response_headers_parsed:
  assumes "\<forall>kv \<in> set kvs. header_ok kv" "distinct (map fst kvs)"
  shows "response_headers (concat (map (\<lambda>kv. header_text kv @ [CHR 0x0A]) kvs)) = map (\<lambda>(k, v). (k, JStr v)) kvs"
  using assms by (rule response_headers_list)

theorem response_headers_parsed_witness:
  "response_headers (''Content-Type: text/plain'' @ [CHR 0x0D, CHR 0x0A] @ ''ETag: '' @ [CHR 0x0D, CHR 0x0A])
     = [(''Content-Type'', JStr ''text/plain''), (''ETag'', JStr [])]"
  using response_headers_parsed [of "[(''Content-Type'', ''text/plain''), (''ETag'', [])]"]
  by (simp add: header_ok_def header_text_def is_space_def)

section \<open>Multipart bodies\<close>

definition field_of :: "sa_call \<Rightarrow> (string \<times> jsv) option" where
  "field_of c = (case c of SaField k v \<Rightarrow> Some (k, v) | _ \<Rightarrow> None)"

lemma fields_of_entries:
  "\<forall>(k, v) \<in> set fs. \<not> is_array v \<Longrightarrow> concat (map field_calls fs) = map (\<lambda>(k, v). SaField k v) fs"
  by (induction fs) (auto simp: field_calls_def is_array_def split: jsv.splits)

lemma field_of_fields: "List.map_filter field_of (map (\<lambda>(k, v). SaField k v) fs) = fs"
  by (induction fs) (auto simp: List.map_filter_simps field_of_def)

lemma field_of_sets: "List.map_filter field_of (map (\<lambda>(k, v). SaSet k v) hs) = []"
  by (induction hs) (auto simp: List.map_filter_simps field_of_def)

lemma map_filter_append: "List.map_filter f (xs @ ys) = List.map_filter f xs @ List.map_filter f ys"
  by (simp add: List.map_filter_def)

text \<open>A multipart body that is an object without arrays is sent field by field, each of its entries once and in order, and
  without a \<open>Content-Type\<close> header of its own, so that the boundary is chosen by what writes the parts.\<close>

theorem multipart_fields:
  assumes "pr_body obj = BodyValue (JObj fs)" "\<forall>(k, v) \<in> set fs. \<not> is_array v"
    and "arg (headers (pr_request obj)) ''Content-Type'' = JStr (''multipart/form-data'' @ rest)"
    and "superagent_execute obj = Inr (meth, u, calls)"
  shows "List.map_filter field_of calls = fs \<and> (\<forall>v. SaSet ''Content-Type'' v \<notin> set calls) \<and> u = url (pr_request obj)"
proof -
  have "index_of ''multipart/form-data'' (''multipart/form-data'' @ rest) = 0"
    by (simp only: index_of_zero_iff starts_with_append)
  then have "body_calls obj = Inr (map (\<lambda>(k, v). SaField k v) fs, drop_header ''Content-Type'' obj)"
    using assms(1-3) fields_of_entries by (simp add: body_calls_def is_object_def js_indexOf_def entries_of_def Let_def)
  then obtain pre where calls: "calls = pre @ map (\<lambda>(k, v). SaField k v) fs
      @ map (\<lambda>(k, v). SaSet k v) (headers (pr_request (drop_header ''Content-Type'' obj)))"
    and pre: "List.map_filter field_of pre = []" "\<And>k v. SaSet k v \<notin> set pre" and u: "u = url (pr_request obj)"
    using assms(4) by (auto simp: superagent_execute_def Let_def List.map_filter_simps field_of_def split: if_splits)
  have "SaSet ''Content-Type'' v \<notin> set (map (\<lambda>(k, v). SaSet k v) (headers (pr_request (drop_header ''Content-Type'' obj))))" for v
    by (auto simp: drop_header_def obj_del_def)
  moreover have "SaSet ''Content-Type'' v \<notin> set (map (\<lambda>(k, v). SaField k v) fs)" for v by auto
  ultimately show ?thesis using pre u by (auto simp: calls map_filter_append field_of_fields field_of_sets)
qed

definition upload_request :: http_request where
  "upload_request = sample_request\<lparr>pr_method := ''POST'', pr_body := BodyValue (JObj [(''name'', JStr ''rex'')]),
     pr_request := (pr_request sample_request)\<lparr>headers := [(''Content-Type'', JStr ''multipart/form-data''), (''Accept'', JStr ''text/plain'')]\<rparr>\<rparr>"

theorem multipart_fields_witness:
  "\<exists>meth u calls. superagent_execute upload_request = Inr (meth, u, calls)
     \<and> List.map_filter field_of calls = [(''name'', JStr ''rex'')] \<and> (\<forall>v. SaSet ''Content-Type'' v \<notin> set calls)"
proof -
  have "(case superagent_execute upload_request of Inr _ \<Rightarrow> True | _ \<Rightarrow> False)" by code_simp
  then obtain meth u calls where *: "superagent_execute upload_request = Inr (meth, u, calls)" by (auto split: sum.splits)
  then show ?thesis
    using multipart_fields [OF _ _ _ *, of "[(''name'', JStr ''rex'')]" "[]"] by (simp add: upload_request_def is_array_def)
qed

text \<open>An array is sent as its indices.\<close>

lemma array_field_indices: "field_calls (''tags'', JArr [JStr ''red'', JStr ''blue'']) = [SaField ''tags'' (JStr ''0''), SaField ''tags'' (JStr ''1'')]"
  by code_simp

text \<open>Without a global \<open>log\<close> an \<open>OPTIONS\<close> request is not sent.\<close>

lemma options_without_log:
  "\<not> hasLog w \<Longrightarrow> http_execute w None b (sample_request\<lparr>pr_method := ''OPTIONS''\<rparr>) = Inl (JsError ''log is not defined'')"
proof -
  have "to_lower ''OPTIONS'' = ''options''" by code_simp
  then show "\<not> hasLog w \<Longrightarrow> ?thesis" by (simp add: http_execute_def choose_client_def Let_def)
qed

end
