(* ===== verification/Superagent.thy ===== *)
theory Superagent
  imports Http
begin

text \<open>
  The bundled superagent (modules 158 to 160 of \<open>swagger-ui.js\<close>) as the client of module 5 uses it: a request collects headers,
  query and data, \<open>end\<close> opens an \<open>XMLHttpRequest\<close>, and its events lead to the one call of the callback. What the
  \<open>XMLHttpRequest\<close> answers is an argument. Escapes that \<open>decodeURIComponent\<close> rejects, or that stand for characters beyond 255, are
  not represented; neither are parameters of a content type that are named like a field of the response, nor listeners other than
  those superagent adds itself.
\<close>

section \<open>Encoding of forms\<close>

function pushEncodedKeyValuePair :: "string \<Rightarrow> jsv \<Rightarrow> string list" where
  "pushEncodedKeyValuePair key val = (case val of
      JUndef \<Rightarrow> []
    | JNull \<Rightarrow> [encodeURIComponent key]
    | JArr xs \<Rightarrow> concat (map (pushEncodedKeyValuePair key) xs)
    | JObj o1 \<Rightarrow> concat (map (\<lambda>(subkey, v). pushEncodedKeyValuePair (key @ ''['' @ subkey @ '']'') v) o1)
    | v \<Rightarrow> [encodeURIComponent key @ ''='' @ encodeURIComponent (to_str v)])"
  by pat_completeness auto
termination
  by (relation "measure (\<lambda>(k, v). size v)") (auto dest: size_entry size_elem simp del: jsv.size)

declare pushEncodedKeyValuePair.simps [simp del]

definition serialize :: "jsv \<Rightarrow> jsv" where
  "serialize v =
     (if is_object v then JStr (js_join ''&'' (concat (map (\<lambda>(k, x). pushEncodedKeyValuePair k x) (entries_of v)))) else v)"

definition parse_pair :: "string \<Rightarrow> jsv obj \<Rightarrow> jsv obj" where
  "parse_pair pair o1 =
     (let pos = index_of ''='' pair in
      if pos = -1 then obj_set (uri_decode pair) (JStr []) o1
      else obj_set (uri_decode (take (nat pos) pair)) (JStr (uri_decode (drop (nat pos + 1) pair))) o1)"

definition parseString :: "string \<Rightarrow> jsv obj" where
  "parseString str = fold parse_pair (split_char CHR ''&'' str) []"

section \<open>Headers and content types\<close>

text \<open>\<open>str.split(/\r?\n/)\<close>: every line but the last loses one carriage return.\<close>

definition drop_cr :: "string \<Rightarrow> string" where
  "drop_cr l = (if ends_with [CHR 0x0D] l then butlast l else l)"

definition header_lines :: "string \<Rightarrow> string list" where
  "header_lines str = map drop_cr (butlast (split_char CHR 0x0A str))"

text \<open>A line without a colon: \<open>slice(0, -1)\<close> and \<open>slice(0)\<close>.\<close>

definition parse_line :: "string \<Rightarrow> jsv obj \<Rightarrow> jsv obj" where
  "parse_line line hs =
     (let index = index_of '':'' line
      in obj_set (to_lower (js_slice line 0 index)) (JStr (js_trim (js_slice_from line (index + 1)))) hs)"

definition parseHeader :: "string \<Rightarrow> jsv obj" where
  "parseHeader str = fold parse_line (header_lines str) []"

definition is_word :: "char \<Rightarrow> bool" where
  "is_word c \<longleftrightarrow> is_digit c \<or> 65 \<le> code c \<and> code c \<le> 90 \<or> 97 \<le> code c \<and> code c \<le> 122 \<or> c = CHR ''_''"

text \<open>\<open>/[\/+]json\b/\<close>.\<close>

fun is_json_text :: "string \<Rightarrow> bool" where
  "is_json_text [] = False"
| "is_json_text (c # s) \<longleftrightarrow>
     ((c = CHR ''/'' \<or> c = CHR ''+'') \<and> starts_with ''json'' s \<and> (drop 4 s = [] \<or> \<not> is_word (hd (drop 4 s)))) \<or> is_json_text s"

definition isJSON :: "jsv \<Rightarrow> bool" where
  "isJSON mime = is_json_text (to_str mime)"

text \<open>\<open>str.split(/ *c */)\<close>.\<close>

definition strip_left :: "string \<Rightarrow> string" where
  "strip_left s = dropWhile (\<lambda>c. c = CHR '' '') s"

definition strip_right :: "string \<Rightarrow> string" where
  "strip_right s = rev (strip_left (rev s))"

fun strip_inner :: "string list \<Rightarrow> string list" where
  "strip_inner [] = []"
| "strip_inner [w] = [strip_left w]"
| "strip_inner (w # ws) = strip_right (strip_left w) # strip_inner ws"

definition split_spaced :: "char \<Rightarrow> string \<Rightarrow> string list" where
  "split_spaced c s = (case split_char c s of
      [] \<Rightarrow> []
    | [w] \<Rightarrow> [w]
    | w # ws \<Rightarrow> strip_right w # strip_inner ws)"

definition content_type :: "string \<Rightarrow> string" where
  "content_type str = hd (split_spaced CHR '';'' str)"

definition type_params :: "string \<Rightarrow> jsv obj" where
  "type_params str =
     fold (\<lambda>s o1. case split_spaced CHR ''='' s of
         key # val # _ \<Rightarrow> if key \<noteq> [] \<and> val \<noteq> [] then obj_set key (JStr val) o1 else o1
       | _ \<Rightarrow> o1) (split_spaced CHR '';'' str) []"

section \<open>Responses\<close>

text \<open>An \<open>XMLHttpRequest\<close> that is done.\<close>

record xhr_done =
  y_responseType :: jsv
  y_responseText :: jsv
  y_response :: jsv
  y_status :: int
  y_statusText :: string
  y_headers :: string
  y_contentType :: jsv

definition real_status :: "int \<Rightarrow> int" where
  "real_status s = (if s = 1223 then 204 else s)"

definition status_type :: "int \<Rightarrow> int" where
  "status_type s = to_int32 (trunc_div s 100)"

definition toError :: "string \<Rightarrow> string \<Rightarrow> int \<Rightarrow> jsv" where
  "toError meth u status = JObj [(''message'', JStr (''cannot '' @ meth @ '' '' @ u @ '' ('' @ show_int status @ '')'')),
     (''status'', JNum status), (''method'', JStr meth), (''url'', JStr u)]"

record status_flags =
  info :: bool
  ok :: bool
  clientError :: bool
  serverError :: bool
  s_error :: jsv
  accepted :: bool
  noContent :: bool
  badRequest :: bool
  unauthorized :: bool
  notAcceptable :: bool
  notFound :: bool
  forbidden :: bool

definition setStatusProperties :: "string \<Rightarrow> string \<Rightarrow> int \<Rightarrow> status_flags" where
  "setStatusProperties meth u s0 =
     (let s = real_status s0; t = status_type s
      in \<lparr>info = (t = 1), ok = (t = 2), clientError = (t = 4), serverError = (t = 5),
          s_error = (if t = 4 \<or> t = 5 then toError meth u s else JBool False),
          accepted = (s = 202), noContent = (s = 204), badRequest = (s = 400), unauthorized = (s = 401), notAcceptable = (s = 406),
          notFound = (s = 404), forbidden = (s = 403)\<rparr>)"

text \<open>\<open>parse\<close> is \<open>JSON.parse\<close>.\<close>

definition parseBody :: "(string \<Rightarrow> jsv result) \<Rightarrow> string \<Rightarrow> jsv \<Rightarrow> jsv result" where
  "parseBody parse typ str =
     (if (case str of JStr s \<Rightarrow> s \<noteq> [] | v \<Rightarrow> is_object v) then
        (if typ = ''application/x-www-form-urlencoded'' then
           (case str of JStr s \<Rightarrow> Inr (JObj (parseString s)) | _ \<Rightarrow> Inl (no_method ''str.split''))
         else if typ = ''application/json'' \<or> is_json_text typ then parse (to_str str)
         else Inr JNull)
      else Inr JNull)"

definition response_text :: "string \<Rightarrow> xhr_done \<Rightarrow> jsv" where
  "response_text meth y =
     (if meth \<noteq> ''HEAD'' \<and> (y_responseType y = JStr [] \<or> y_responseType y = JStr ''text'') \<or> y_responseType y = JUndef
      then y_responseText y else JNull)"

definition Response :: "(string \<Rightarrow> jsv result) \<Rightarrow> string \<Rightarrow> string \<Rightarrow> xhr_done \<Rightarrow> sa_response result" where
  "Response parse meth u y =
     (let txt = response_text meth y; hs = obj_set ''content-type'' (y_contentType y) (parseHeader (y_headers y));
          typ = content_type (case y_contentType y of JStr s \<Rightarrow> s | _ \<Rightarrow> [])
      in bindR (if meth \<noteq> ''HEAD'' then parseBody parse typ (if truthy txt then txt else y_response y) else Inr JNull) (\<lambda>body.
           Inr \<lparr>sr_status = real_status (y_status y), sr_headers = hs, sr_text = txt,
                sr_error = s_error (setStatusProperties meth u (y_status y)), sr_body = body, sr_xhr_response = y_response y\<rparr>))"

section \<open>Requests\<close>

record sa_request =
  sa_method :: string
  sa_url :: string
  header :: "jsv obj"
  header_lower :: "jsv obj"
  sa_query :: "string list"
  sa_data :: req_body
  sa_formData :: "(string \<times> jsv) list option"
  sa_timeout :: jsv

definition new_request :: "string \<Rightarrow> string \<Rightarrow> sa_request" where
  "new_request meth u = \<lparr>sa_method = meth, sa_url = u, header = [], header_lower = [], sa_query = [], sa_data = BodyValue JUndef,
     sa_formData = None, sa_timeout = JUndef\<rparr>"

definition set_header :: "string \<Rightarrow> jsv \<Rightarrow> sa_request \<Rightarrow> sa_request" where
  "set_header name val r =
     r\<lparr>header_lower := obj_set (to_lower name) val (header_lower r), header := obj_set name val (header r)\<rparr>"

definition unset :: "string \<Rightarrow> sa_request \<Rightarrow> sa_request" where
  "unset name r = r\<lparr>header_lower := obj_del (to_lower name) (header_lower r), header := obj_del name (header r)\<rparr>"

definition get_header :: "string \<Rightarrow> sa_request \<Rightarrow> jsv" where
  "get_header name r = arg (header_lower r) (to_lower name)"

definition request_types :: "string obj" where
  "request_types = [(''html'', ''text/html''), (''json'', ''application/json''), (''xml'', ''application/xml''),
     (''urlencoded'', ''application/x-www-form-urlencoded''), (''form'', ''application/x-www-form-urlencoded''),
     (''form-data'', ''application/x-www-form-urlencoded'')]"

definition named_type :: "string \<Rightarrow> jsv" where
  "named_type t = JStr (case obj_get request_types t of Some m \<Rightarrow> m | None \<Rightarrow> t)"

definition set_type :: "string \<Rightarrow> sa_request \<Rightarrow> sa_request" where
  "set_type t r = set_header ''Content-Type'' (named_type t) r"

definition accept :: "string \<Rightarrow> sa_request \<Rightarrow> sa_request" where
  "accept t r = set_header ''Accept'' (named_type t) r"

definition add_field :: "string \<Rightarrow> jsv \<Rightarrow> sa_request \<Rightarrow> sa_request" where
  "add_field name val r = r\<lparr>sa_formData := Some ((case sa_formData r of None \<Rightarrow> [] | Some fd \<Rightarrow> fd) @ [(name, val)])\<rparr>"

definition add_query :: "jsv \<Rightarrow> sa_request \<Rightarrow> sa_request" where
  "add_query val r =
     (case serialize val of
        JStr s \<Rightarrow> if s \<noteq> [] then r\<lparr>sa_query := sa_query r @ [s]\<rparr> else r
      | v \<Rightarrow> if truthy v then r\<lparr>sa_query := sa_query r @ [to_str v]\<rparr> else r)"

text \<open>The properties of the data are copied into data that is there; those of an array are its elements.\<close>

definition merge_data :: "jsv obj \<Rightarrow> req_body \<Rightarrow> req_body" where
  "merge_data new old = (case old of
      BodyValue (JObj o1) \<Rightarrow> BodyValue (JObj (obj_copy new o1))
    | BodyValue (JArr xs) \<Rightarrow>
        BodyValue (JArr (map (\<lambda>i. if arg new (show_nat i) \<noteq> JUndef \<or> i \<ge> length xs then arg new (show_nat i) else xs ! i)
          [0..<max (length xs) (length new)]))
    | b \<Rightarrow> b)"

definition body_entries :: "req_body \<Rightarrow> jsv obj" where
  "body_entries b = (case b of BodyValue v \<Rightarrow> entries_of v | BodyForm fd \<Rightarrow> [(''type'', JStr ''formData'')])"

definition body_is_object :: "req_body \<Rightarrow> bool" where
  "body_is_object b = (case b of BodyValue v \<Rightarrow> is_object v | BodyForm fd \<Rightarrow> True)"

definition body_text :: "req_body \<Rightarrow> string" where
  "body_text b = (case b of BodyValue v \<Rightarrow> (if truthy v then to_str v else []) | BodyForm fd \<Rightarrow> ''[object FormData]'')"

definition send_text :: "string \<Rightarrow> sa_request \<Rightarrow> sa_request" where
  "send_text s r0 =
     (let r = (if truthy (arg (header_lower r0) ''content-type'') then r0 else set_type ''form'' r0)
      in if arg (header_lower r) ''content-type'' = JStr ''application/x-www-form-urlencoded'' then
           r\<lparr>sa_data := BodyValue (JStr (if body_truthy (sa_data r) then body_text (sa_data r) @ ''&'' @ s else s))\<rparr>
         else r\<lparr>sa_data := BodyValue (JStr (body_text (sa_data r) @ s))\<rparr>)"

definition sa_send :: "req_body \<Rightarrow> sa_request \<Rightarrow> sa_request" where
  "sa_send data r0 =
     (case data of
        BodyValue (JStr s) \<Rightarrow> send_text s r0
      | _ \<Rightarrow>
          (let r = (if body_is_object data \<and> body_is_object (sa_data r0)
                    then r0\<lparr>sa_data := merge_data (body_entries data) (sa_data r0)\<rparr> else r0\<lparr>sa_data := data\<rparr>)
           in case data of
                BodyForm fd \<Rightarrow> r
              | BodyValue v \<Rightarrow>
                  if is_object v \<and> \<not> truthy (arg (header_lower r0) ''content-type'') then set_type ''json'' r else r))"

text \<open>What the client of module 5 calls.\<close>

definition run_call :: "sa_call \<Rightarrow> sa_request \<Rightarrow> sa_request" where
  "run_call c r = (case c of
      SaTimeout t \<Rightarrow> r\<lparr>sa_timeout := t\<rparr>
    | SaSend b \<Rightarrow> sa_send b r
    | SaSendText s \<Rightarrow> sa_send (BodyValue (JStr s)) r
    | SaField k v \<Rightarrow> add_field k v r
    | SaSet k v \<Rightarrow> set_header k v r
    | _ \<Rightarrow> r)"

section \<open>What is put on the wire\<close>

definition appendQueryString :: "sa_request \<Rightarrow> string" where
  "appendQueryString r =
     (let query = js_join ''&'' (sa_query r) in
      if query \<noteq> [] then sa_url r @ (if index_of ''?'' (sa_url r) \<noteq> -1 then ''&'' else ''?'') @ query else sa_url r)"

text \<open>The payload: nothing, a text, or form data.\<close>

datatype payload = NoPayload | TextPayload jsv | FormPayload "(string \<times> jsv) list"

definition serializer :: "jsv \<Rightarrow> (jsv \<Rightarrow> jsv) option" where
  "serializer ct =
     (let t = (case ct of JStr s \<Rightarrow> hd (split_char CHR '';'' s) | _ \<Rightarrow> []);
          json = (\<lambda>v. case json_stringify v of None \<Rightarrow> JUndef | Some s \<Rightarrow> JStr s)
      in if t = ''application/x-www-form-urlencoded'' then Some serialize
         else if t = ''application/json'' \<or> isJSON ct then Some json
         else None)"

definition wire_value :: "jsv \<Rightarrow> payload" where
  "wire_value v = (if v = JUndef \<or> v = JNull then NoPayload else TextPayload v)"

definition wire_data :: "sa_request \<Rightarrow> payload" where
  "wire_data r =
     (case sa_formData r of
        Some fd \<Rightarrow> FormPayload fd
      | None \<Rightarrow>
          (case sa_data r of
             BodyForm fd \<Rightarrow> FormPayload (map (\<lambda>(k, v). (k, JStr v)) fd)
           | BodyValue (JStr s) \<Rightarrow> TextPayload (JStr s)
           | BodyValue v \<Rightarrow>
               if sa_method r \<noteq> ''GET'' \<and> sa_method r \<noteq> ''HEAD'' then
                 (case serializer (arg (header_lower r) ''content-type'') of Some f \<Rightarrow> wire_value (f v) | None \<Rightarrow> wire_value v)
               else wire_value v))"

definition wire_headers :: "sa_request \<Rightarrow> jsv obj" where
  "wire_headers r = filter (\<lambda>(k, v). v \<noteq> JUndef \<and> v \<noteq> JNull) (header r)"

section \<open>The life of a request\<close>

text \<open>What the callback is called with. A timeout and a lost connection come without a response.\<close>

datatype sa_error = ParserError | Unsuccessful int string | TimedOut jsv | CrossDomain

type_synonym sa_result = "sa_error option \<times> sa_response option"

record life =
  opened :: bool
  finished :: bool
  aborted :: bool
  timedout :: bool
  timer :: bool
  calls :: "sa_result list"

definition finish :: "sa_result \<Rightarrow> life \<Rightarrow> life" where
  "finish res l = l\<lparr>calls := calls l @ [res], timer := False\<rparr>"

text \<open>The listener of \<open>end\<close>.\<close>

definition end_result :: "(string \<Rightarrow> jsv result) \<Rightarrow> sa_request \<Rightarrow> xhr_done \<Rightarrow> sa_result" where
  "end_result parse r y =
     (case Response parse (sa_method r) (sa_url r) y of
        Inl e \<Rightarrow> (Some ParserError, None)
      | Inr res \<Rightarrow>
          (if sr_status res < 200 \<or> sr_status res \<ge> 300
           then Some (Unsuccessful (sr_status res) (if y_statusText y \<noteq> [] then y_statusText y else ''Unsuccessful HTTP response''))
           else None, Some res))"

text \<open>\<open>onreadystatechange\<close> in state 4; without an answer the status is 0.\<close>

definition ready :: "(string \<Rightarrow> jsv result) \<Rightarrow> sa_request \<Rightarrow> xhr_done option \<Rightarrow> life \<Rightarrow> life" where
  "ready parse r answer l0 =
     (let l = l0\<lparr>finished := True\<rparr> in
      case answer of
        Some y \<Rightarrow>
          if y_status y = 0 then
            (if timedout l then finish (Some (TimedOut (sa_timeout r)), None) l
             else if aborted l then l else finish (Some CrossDomain, None) l)
          else finish (end_result parse r y) l
      | None \<Rightarrow>
          if timedout l then finish (Some (TimedOut (sa_timeout r)), None) l
          else if aborted l then l else finish (Some CrossDomain, None) l)"

text \<open>\<open>abort\<close>: the browser changes the state of an unfinished \<open>XMLHttpRequest\<close> at once.\<close>

definition abort :: "(string \<Rightarrow> jsv result) \<Rightarrow> sa_request \<Rightarrow> life \<Rightarrow> life" where
  "abort parse r l =
     (if aborted l then l
      else let l1 = l\<lparr>aborted := True\<rparr>; l2 = (if opened l1 \<and> \<not> finished l1 then ready parse r None l1 else l1)
           in l2\<lparr>timer := False\<rparr>)"

text \<open>\<open>end\<close>, the events of the browser, and \<open>abort\<close> by the program.\<close>

inductive life_step :: "(string \<Rightarrow> jsv result) \<Rightarrow> sa_request \<Rightarrow> life \<Rightarrow> life \<Rightarrow> bool" for parse r where
  Answer: "opened l \<Longrightarrow> \<not> finished l \<Longrightarrow> life_step parse r l (ready parse r answer l)"
| Timer: "timer l \<Longrightarrow> life_step parse r l (abort parse r (l\<lparr>timedout := True, timer := False\<rparr>))"
| Abort: "life_step parse r l (abort parse r l)"

definition sa_end :: "sa_request \<Rightarrow> life" where
  "sa_end r = \<lparr>opened = True, finished = False, aborted = False, timedout = False, timer = truthy (sa_timeout r), calls = []\<rparr>"

section \<open>One call of the callback\<close>

abbreviation life_steps :: "(string \<Rightarrow> jsv result) \<Rightarrow> sa_request \<Rightarrow> life \<Rightarrow> life \<Rightarrow> bool" where
  "life_steps parse r \<equiv> (life_step parse r)\<^sup>*\<^sup>*"

inductive_cases life_stepE: "life_step parse r l l'"

text \<open>Before the end nothing is called; afterwards there has been one call, unless the program gave up.\<close>

definition life_ok :: "sa_request \<Rightarrow> life \<Rightarrow> bool" where
  "life_ok r l \<longleftrightarrow> opened l
     \<and> (if finished l then length (calls l) = 1 \<or> aborted l \<and> \<not> timedout l \<and> calls l = [] else calls l = [] \<and> \<not> aborted l \<and> \<not> timedout l)
     \<and> (timedout l \<longrightarrow> calls l = [(Some (TimedOut (sa_timeout r)), None)])
     \<and> (timer l \<longrightarrow> \<not> finished l \<and> truthy (sa_timeout r))"

lemma life_ok_end: "life_ok r (sa_end r)"
  by (simp add: life_ok_def sa_end_def)

lemma life_ok_ready:
  "life_ok r l \<Longrightarrow> \<not> finished l \<Longrightarrow> life_ok r (ready parse r answer l)"
  by (auto simp: life_ok_def ready_def finish_def Let_def split: option.splits)

lemma life_ok_abort: "life_ok r l \<Longrightarrow> life_ok r (abort parse r l)"
  by (auto simp: life_ok_def abort_def ready_def finish_def Let_def)

lemma life_ok_timer: "life_ok r l \<Longrightarrow> timer l \<Longrightarrow> life_ok r (abort parse r (l\<lparr>timedout := True, timer := False\<rparr>))"
  by (auto simp: life_ok_def abort_def ready_def finish_def Let_def)

lemma life_ok_step: "life_step parse r l l' \<Longrightarrow> life_ok r l \<Longrightarrow> life_ok r l'"
  by (erule life_stepE) (auto intro: life_ok_ready life_ok_abort life_ok_timer)

lemma life_ok_reachable: "life_steps parse r (sa_end r) l \<Longrightarrow> life_ok r l"
  by (induction rule: rtranclp_induct) (auto intro: life_ok_end life_ok_step)

text \<open>C13: Whatever the server, the timer and the program do, the callback of a request is called at most once; it has been called
  when the request is finished and was not given up, and a timeout is reported as such.\<close>

theorem callback_once:
  assumes "life_steps parse r (sa_end r) l"
  shows "length (calls l) \<le> 1 \<and> (finished l \<and> \<not> aborted l \<longrightarrow> length (calls l) = 1)
    \<and> (timedout l \<longrightarrow> calls l = [(Some (TimedOut (sa_timeout r)), None)])"
  using life_ok_reachable [OF assms] by (auto simp: life_ok_def split: if_splits)

theorem callback_once_witness:
  "\<exists>l. life_steps (\<lambda>s. Inr (JStr s)) (new_request ''GET'' ''/pet'') (sa_end (new_request ''GET'' ''/pet'')) l
     \<and> finished l \<and> \<not> aborted l \<and> length (calls l) = 1"
proof -
  let ?r = "new_request ''GET'' ''/pet''"
  let ?l = "ready (\<lambda>s. Inr (JStr s)) ?r None (sa_end ?r)"
  have l: "life_steps (\<lambda>s. Inr (JStr s)) ?r (sa_end ?r) ?l" by (intro r_into_rtranclp life_step.Answer) (simp_all add: sa_end_def)
  have "finished ?l \<and> \<not> aborted ?l" by (simp add: ready_def sa_end_def finish_def)
  then show ?thesis using callback_once [OF l] l by blast
qed

section \<open>Forms and headers\<close>

lemma push_string: "pushEncodedKeyValuePair k (JStr v) = [encodeURIComponent k @ ''='' @ encodeURIComponent v]"
  by (simp add: pushEncodedKeyValuePair.simps)

lemma parse_pair_encoded:
  "parse_pair (encodeURIComponent k @ ''='' @ encodeURIComponent v) o1 = obj_set k (JStr v) o1"
proof -
  have "index_of ''='' (encodeURIComponent k @ CHR ''='' # encodeURIComponent v) = int (length (encodeURIComponent k))"
    using encodeURIComponent_avoids [of "CHR ''=''" k] by (intro index_of_char) simp
  then show ?thesis by (simp add: parse_pair_def uri_decode_encode Let_def)
qed

lemma fold_obj_set:
  "distinct (map fst kvs) \<Longrightarrow> set (map fst kvs) \<inter> set (obj_keys o1) = {} \<Longrightarrow> fold (\<lambda>(k, v). obj_set k v) kvs o1 = o1 @ kvs"
proof (induction kvs arbitrary: o1)
  case (Cons kv kvs)
  then have "obj_set (fst kv) (snd kv) o1 = o1 @ [kv]" by (auto simp: obj_set_append)
  then show ?case using Cons.IH [of "o1 @ [kv]"] Cons.prems by (auto simp: case_prod_unfold obj_keys_def)
qed simp

lemma fold_obj_set_new: "distinct (map fst kvs) \<Longrightarrow> fold (\<lambda>(k, v). obj_set k v) kvs [] = kvs"
  using fold_obj_set [of kvs "[]"] by (simp add: obj_keys_def)

text \<open>an object of strings survives its encoding as a form: what \<open>serialize\<close> writes \<open>parseString\<close> reads back, for any
  characters in the names and the values.\<close>

theorem form_roundtrip:
  assumes "kvs \<noteq> []" "distinct (map fst kvs)"
  shows "\<exists>t. serialize (JObj (map (\<lambda>(k, v). (k, JStr v)) kvs)) = JStr t \<and> parseString t = map (\<lambda>(k, v). (k, JStr v)) kvs"
proof -
  define pairs where "pairs = map (\<lambda>(k, v). encodeURIComponent k @ ''='' @ encodeURIComponent v) kvs"
  have "concat (map (\<lambda>(k, x). pushEncodedKeyValuePair k x) (map (\<lambda>(k, v). (k, JStr v)) kvs)) = pairs"
    unfolding pairs_def by (induction kvs) (auto simp: push_string)
  then have "serialize (JObj (map (\<lambda>(k, v). (k, JStr v)) kvs)) = JStr (js_join ''&'' pairs)"
    by (simp add: serialize_def is_object_def entries_of_def)
  moreover have "parseString (js_join ''&'' pairs) = map (\<lambda>(k, v). (k, JStr v)) kvs"
  proof -
    have "CHR ''&'' \<notin> set p" if "p \<in> set pairs" for p
      using that encodeURIComponent_avoids [of "CHR ''&''"] by (auto simp: pairs_def)
    then have "split_char CHR ''&'' (js_join ''&'' pairs) = pairs"
      using assms(1) by (intro split_join_char) (auto simp: pairs_def)
    moreover have "fold parse_pair pairs o1 = fold (\<lambda>(k, v). obj_set k v) (map (\<lambda>(k, v). (k, JStr v)) kvs) o1" for o1
      unfolding pairs_def by (induction kvs arbitrary: o1) (auto simp: parse_pair_encoded simp del: append_Cons append_Nil)
    moreover have "map fst (map (\<lambda>(k, v). (k, JStr v)) kvs) = map fst kvs" by (induction kvs) auto
    then have "fold (\<lambda>(k, v). obj_set k v) (map (\<lambda>(k, v). (k, JStr v)) kvs) [] = map (\<lambda>(k, v). (k, JStr v)) kvs"
      using assms(2) by (intro fold_obj_set_new) (simp only:)
    ultimately show ?thesis by (simp only: parseString_def)
  qed
  ultimately show ?thesis by blast
qed

theorem form_roundtrip_witness:
  "\<exists>t. serialize (JObj [(''a&b'', JStr ''1=2''), (''c'', JStr [])]) = JStr t \<and> parseString t = [(''a&b'', JStr ''1=2''), (''c'', JStr [])]"
  using form_roundtrip [of "[(''a&b'', ''1=2''), (''c'', [])]"] by simp

lemma parse_line_text:
  assumes "header_ok (k, v)"
  shows "parse_line (k @ '': '' @ v) hs = obj_set (to_lower k) (JStr v) hs"
proof -
  have i: "index_of '':'' (k @ CHR '':'' # CHR '' '' # v) = int (length k)"
    by (rule index_of_char) (use assms in \<open>simp add: header_ok_def\<close>)
  have v: "js_trim (CHR '' '' # v) = v"
    using assms trim_left [of "CHR '' ''" v] trim_fix [of v] by (cases "v = []") (auto simp: header_ok_def is_space_def js_trim_def [of "[]"])
  have n: "nat (int (length k) + 1) = length k + 1" by simp
  show ?thesis by (simp add: parse_line_def i v n Let_def js_slice_def js_slice_from_def slice_index_def min_def)
qed

lemma drop_cr_text: "drop_cr (header_text (k, v)) = k @ '': '' @ v"
  by (simp add: drop_cr_def header_text_def ends_with_def butlast_append)

text \<open>The headers of a response are read by their names in lower case: a block of lines \<open>name: value\<close>, as the server sent
  them, gives exactly these fields.\<close>

theorem parseHeader_parsed:
  assumes "\<forall>kv \<in> set kvs. header_ok kv" "distinct (map (\<lambda>kv. to_lower (fst kv)) kvs)"
  shows "parseHeader (concat (map (\<lambda>kv. header_text kv @ [CHR 0x0A]) kvs)) = map (\<lambda>(k, v). (to_lower k, JStr v)) kvs"
proof -
  have "\<forall>h \<in> set (map header_text kvs). CHR 0x0A \<notin> set h"
    using assms(1) by (auto simp: header_text_def header_ok_def)
  from split_headers [OF this] have "header_lines (concat (map (\<lambda>kv. header_text kv @ [CHR 0x0A]) kvs)) = map (\<lambda>(k, v). k @ '': '' @ v) kvs"
    by (auto simp: header_lines_def o_def drop_cr_text)
  moreover have "fold parse_line (map (\<lambda>(k, v). k @ '': '' @ v) kvs) hs = fold (\<lambda>(k, v). obj_set k v) (map (\<lambda>(k, v). (to_lower k, JStr v)) kvs) hs" for hs
    using assms(1) by (induction kvs arbitrary: hs) (auto simp: parse_line_text simp del: append_Cons append_Nil)
  moreover have "map fst (map (\<lambda>(k, v). (to_lower k, JStr v)) kvs) = map (\<lambda>kv. to_lower (fst kv)) kvs" by (induction kvs) auto
  then have "fold (\<lambda>(k, v). obj_set k v) (map (\<lambda>(k, v). (to_lower k, JStr v)) kvs) [] = map (\<lambda>(k, v). (to_lower k, JStr v)) kvs"
    using assms(2) by (intro fold_obj_set_new) (simp only:)
  ultimately show ?thesis by (simp only: parseHeader_def)
qed

theorem parseHeader_parsed_witness:
  "parseHeader (''ETag: 7'' @ [CHR 0x0D, CHR 0x0A]) = [(''etag'', JStr ''7'')]"
proof -
  have "to_lower ''ETag'' = ''etag''" by code_simp
  then show ?thesis using parseHeader_parsed [of "[(''ETag'', ''7'')]"] by (simp add: header_ok_def header_text_def is_space_def)
qed

section \<open>From the client to the wire\<close>

text \<open>The request of superagent after the calls of the client.\<close>

definition wire_request :: "string \<Rightarrow> string \<Rightarrow> sa_call list \<Rightarrow> sa_request" where
  "wire_request meth u cs = fold run_call cs (new_request meth u)"

lemma run_sets:
  "fold run_call (map (\<lambda>(k, v). SaSet k v) hs) r =
     r\<lparr>header := fold (\<lambda>(k, v). obj_set k v) hs (header r), header_lower := fold (\<lambda>(k, v). obj_set (to_lower k) v) hs (header_lower r)\<rparr>"
  by (induction hs arbitrary: r) (auto simp: run_call_def set_header_def)

lemma arg_fold_set:
  "distinct (map fst hs) \<Longrightarrow> arg (fold (\<lambda>(k, v). obj_set k v) hs o1) k = (if k \<in> set (map fst hs) then arg hs k else arg o1 k)"
proof (induction hs arbitrary: o1)
  case (Cons kv hs)
  obtain k' v where "kv = (k', v)" by (cases kv)
  then show ?case using Cons by auto
qed simp

lemma arg_present: "k \<in> set (map fst hs) \<longleftrightarrow> obj_get hs k \<noteq> None"
  using obj_get_None_iff [of hs k] by (auto simp: obj_keys_def)

definition no_body_call :: "sa_call \<Rightarrow> bool" where
  "no_body_call c = (case c of SaAgent a \<Rightarrow> True | SaTimeout t \<Rightarrow> True | SaWithCredentials \<Rightarrow> True | SaBlob \<Rightarrow> True | _ \<Rightarrow> False)"

lemma run_no_body: "list_all no_body_call cs \<Longrightarrow> \<exists>t. fold run_call cs r = r\<lparr>sa_timeout := t\<rparr>"
proof (induction cs arbitrary: r)
  case Nil
  show ?case by (intro exI [of _ "sa_timeout r"]) simp
next
  case (Cons c cs)
  have "\<exists>t. run_call c r = r\<lparr>sa_timeout := t\<rparr>"
  proof (cases c)
    case (SaTimeout t)
    then show ?thesis by (auto simp: run_call_def)
  qed (use Cons.prems in \<open>auto simp: run_call_def no_body_call_def intro: exI [of _ "sa_timeout r"]\<close>)
  then obtain t where t: "run_call c r = r\<lparr>sa_timeout := t\<rparr>" by blast
  have "\<exists>t'. fold run_call cs (r\<lparr>sa_timeout := t\<rparr>) = r\<lparr>sa_timeout := t, sa_timeout := t'\<rparr>"
    by (rule Cons.IH) (use Cons.prems in simp)
  then show ?case using t by simp
qed

lemma superagent_calls:
  assumes "superagent_execute obj = Inr (meth, u, cs)" "body_calls obj = Inr (bs, obj')"
  shows "\<exists>pre. cs = pre @ bs @ map (\<lambda>(k, v). SaSet k v) (headers (pr_request obj')) \<and> list_all no_body_call pre"
  using assms by (auto simp: superagent_execute_def Let_def no_body_call_def split: if_splits)

lemma arg_filter_null: "arg (filter (\<lambda>(k, v). v \<noteq> JUndef \<and> v \<noteq> JNull) o1) k = arg o1 k" if "obj_ok o1" "arg o1 k \<noteq> JNull"
  using that
proof (induction o1)
  case (Cons kv o1)
  obtain k' v where kv: "kv = (k', v)" by (cases kv)
  have "arg o1 k' = JUndef" using Cons.prems(1) by (force simp: kv obj_ok_def obj_keys_def arg_def obj_get_def split: option.splits dest: map_of_SomeD)
  then show ?case using Cons by (auto simp: kv obj_ok_def obj_keys_def)
qed simp

lemma obj_ok_fold: "obj_ok o1 \<Longrightarrow> obj_ok (fold (\<lambda>(k, v). obj_set k v) hs o1)"
  by (induction hs arbitrary: o1) auto

text \<open>C12: An object as the body of a request with a content type that is not multipart reaches the server as its JSON text, and every
  header of the request that is not null reaches it with its value, through the client and superagent.\<close>

theorem json_body_sent:
  assumes "pr_body obj = BodyValue (JObj b)" "obj_ok (headers (pr_request obj))"
    and "arg (headers (pr_request obj)) ''Content-Type'' = JStr ct" "ct \<noteq> []" "\<not> starts_with ''multipart/form-data'' ct"
    and "superagent_execute obj = Inr (meth, u, cs)"
  shows "wire_data (wire_request m u cs) = TextPayload (JStr (json_text (JObj b)))
    \<and> (\<forall>k. arg (headers (pr_request obj)) k \<notin> {JUndef, JNull} \<longrightarrow>
         arg (wire_headers (wire_request m u cs)) k = arg (headers (pr_request obj)) k)"
proof -
  let ?hs = "headers (pr_request obj)"
  have "index_of ''multipart/form-data'' ct \<noteq> 0" using assms(5) index_of_zero_iff by blast
  then have "body_calls obj = Inr ([SaSendText (json_text (JObj b))], obj)"
    using assms(1,3,4) by (simp add: body_calls_def is_object_def js_indexOf_def Let_def)
  from superagent_calls [OF assms(6) this] obtain pre where
    cs: "cs = pre @ [SaSendText (json_text (JObj b))] @ map (\<lambda>(k, v). SaSet k v) ?hs" and pre: "list_all no_body_call pre" by blast
  obtain t where t: "fold run_call pre (new_request m u) = (new_request m u)\<lparr>sa_timeout := t\<rparr>" using run_no_body [OF pre] by blast
  let ?r0 = "(new_request m u)\<lparr>sa_timeout := t\<rparr>"
  define r1 where "r1 = run_call (SaSendText (json_text (JObj b))) ?r0"
  have r1: "sa_data r1 = BodyValue (JStr (json_text (JObj b)))" "sa_formData r1 = None" "obj_ok (header r1)"
    by (auto simp: r1_def run_call_def sa_send_def send_text_def new_request_def set_type_def set_header_def body_truthy_def body_text_def
        obj_ok_def obj_keys_def Let_def)
  have w: "wire_request m u cs = fold run_call (map (\<lambda>(k, v). SaSet k v) ?hs) r1"
    by (simp add: wire_request_def cs t r1_def)
  have "wire_data (wire_request m u cs) = TextPayload (JStr (json_text (JObj b)))"
    using r1 by (simp add: w run_sets wire_data_def)
  moreover have "arg (wire_headers (wire_request m u cs)) k = arg ?hs k" if "arg ?hs k \<notin> {JUndef, JNull}" for k
  proof -
    have k: "k \<in> set (map fst ?hs)" using that by (auto simp: arg_present arg_def simp del: set_map split: option.splits)
    have "arg (header (wire_request m u cs)) k = arg ?hs k"
      using k assms(2) by (simp add: w run_sets arg_fold_set obj_ok_def obj_keys_def)
    moreover have "obj_ok (header (wire_request m u cs))" using r1(3) by (simp add: w run_sets obj_ok_fold)
    ultimately show ?thesis using that by (simp add: wire_headers_def arg_filter_null)
  qed
  ultimately show ?thesis by blast
qed

definition json_request :: http_request where
  "json_request = sample_request\<lparr>pr_method := ''POST'', pr_body := BodyValue (JObj [(''name'', JStr ''rex'')]),
     pr_request := (pr_request sample_request)\<lparr>headers := [(''Content-Type'', JStr ''application/json''), (''Accept'', JStr ''text/plain'')]\<rparr>\<rparr>"

theorem json_body_sent_witness:
  "\<exists>meth u cs. superagent_execute json_request = Inr (meth, u, cs)
     \<and> wire_data (wire_request ''POST'' u cs) = TextPayload (JStr (json_text (JObj [(''name'', JStr ''rex'')])))
     \<and> arg (wire_headers (wire_request ''POST'' u cs)) ''Accept'' = JStr ''text/plain''"
proof -
  have "(case superagent_execute json_request of Inr _ \<Rightarrow> True | _ \<Rightarrow> False)" by code_simp
  then obtain meth u cs where *: "superagent_execute json_request = Inr (meth, u, cs)" by (auto split: sum.splits)
  have "arg (headers (pr_request json_request)) ''Accept'' = JStr ''text/plain''" by (simp add: json_request_def)
  then show ?thesis
    using json_body_sent [OF _ _ _ _ _ *, of "[(''name'', JStr ''rex'')]" "''application/json''" "''POST''"] *
    by (auto simp: json_request_def obj_ok_def obj_keys_def)
qed

section \<open>From the answer to the callback\<close>

text \<open>The error that the callback of superagent gets, as a value.\<close>

definition err_value :: "sa_error option \<Rightarrow> jsv" where
  "err_value e = (case e of
      None \<Rightarrow> JNull
    | Some ParserError \<Rightarrow> JObj [(''message'', JStr ''Parser is unable to parse the response''), (''parse'', JBool True)]
    | Some (Unsuccessful s t) \<Rightarrow> JObj [(''message'', JStr t), (''status'', JNum s)]
    | Some (TimedOut t) \<Rightarrow> JObj [(''message'', JStr (''timeout of '' @ to_str t @ ''ms exceeded'')), (''timeout'', t)]
    | Some CrossDomain \<Rightarrow> JObj [(''message'', JStr (''Request has been terminated'' @ [CHR 0x0A]
        @ ''Possible causes: the network is offline, Origin is not allowed by Access-Control-Allow-Origin, the page is being unloaded, etc.'')),
        (''crossDomain'', JBool True)])"

definition superagent_answer_of ::
  "(string \<Rightarrow> jsv result) \<Rightarrow> (string \<Rightarrow> jsv result) \<Rightarrow> http_opts option \<Rightarrow> http_request \<Rightarrow> sa_request \<Rightarrow> xhr_done \<Rightarrow> answer result" where
  "superagent_answer_of safeLoad parse opts obj r y =
     (case end_result parse r y of (e, res) \<Rightarrow> superagent_end safeLoad parse opts obj (err_value e) res)"

lemma err_value_truthy: "truthy (err_value e) \<longleftrightarrow> e \<noteq> None"
  by (simp add: err_value_def split: option.splits sa_error.splits)

lemma status_error: "truthy (s_error (setStatusProperties meth u s)) \<Longrightarrow> real_status s < 200 \<or> real_status s \<ge> 300"
  by (auto simp: setStatusProperties_def Let_def status_type_def trunc_div_def to_int32_def split: if_splits)

lemma no_response_some: "superagent_end safeLoad parse opts obj err None = superagent_end safeLoad parse opts obj err (Some no_response)"
  by (simp add: superagent_end_def)

text \<open>C14: Through superagent the success callback is called if and only if the response can be read and its status is from 200 to 299,
  where the status 1223 of old browsers counts as 204; the error callback is called otherwise.\<close>

theorem superagent_success_iff:
  assumes "case y_contentType y of JStr s \<Rightarrow> True | v \<Rightarrow> \<not> truthy v"
  shows "\<exists>out. superagent_answer_of safeLoad parse opts obj r y
    = Inr ((if (\<exists>res. Response parse (sa_method r) (sa_url r) y = Inr res) \<and> 200 \<le> real_status (y_status y) \<and> real_status (y_status y) < 300
            then Success else Failure) (intercept_response opts out))"
proof (cases "Response parse (sa_method r) (sa_url r) y")
  case (Inl e)
  have "case arg (sr_headers no_response) ''content-type'' of JStr s \<Rightarrow> True | v \<Rightarrow> \<not> truthy v" by (simp add: no_response_def)
  from superagent_answer [OF this, of safeLoad parse opts obj "err_value (Some ParserError)"]
  show ?thesis using Inl by (auto simp: superagent_answer_of_def end_result_def no_response_some err_value_truthy)
next
  case (Inr res)
  have res: "arg (sr_headers res) ''content-type'' = y_contentType y" "sr_status res = real_status (y_status y)"
    "sr_error res = s_error (setStatusProperties (sa_method r) (sa_url r) (y_status y))"
    using Inr by (auto simp: Response_def Let_def bindR_Inr_iff)
  define e where "e = (if sr_status res < 200 \<or> sr_status res \<ge> 300 
    then Some (Unsuccessful (sr_status res) (if y_statusText y \<noteq> [] then y_statusText y else ''Unsuccessful HTTP response'')) else None)"
  have "case arg (sr_headers res) ''content-type'' of JStr s \<Rightarrow> True | v \<Rightarrow> \<not> truthy v" using assms res(1) by simp
  from superagent_answer [OF this, of safeLoad parse opts obj "err_value e"] obtain out where
    out: "superagent_end safeLoad parse opts obj (err_value e) (Some res)
      = Inr ((if truthy (err_value e) \<or> truthy (sr_error res) \<or> sr_status res \<ge> 400 then Failure else Success) (intercept_response opts out))"
    by blast
  have "(truthy (err_value e) \<or> truthy (sr_error res) \<or> sr_status res \<ge> 400) \<longleftrightarrow> \<not> (200 \<le> sr_status res \<and> sr_status res < 300)"
    using status_error [of "sa_method r" "sa_url r" "y_status y"] by (auto simp: err_value_truthy e_def res(2,3))
  then have "superagent_answer_of safeLoad parse opts obj r y
    = Inr ((if 200 \<le> sr_status res \<and> sr_status res < 300 then Success else Failure) (intercept_response opts out))"
    using out Inr by (auto simp: superagent_answer_of_def end_result_def e_def)
  then show ?thesis using Inr res(2) by auto
qed

theorem superagent_success_iff_witness:
  "\<exists>out. superagent_answer_of (\<lambda>s. Inr (JStr s)) (\<lambda>s. Inr (JStr s)) None sample_request (new_request ''GET'' ''/pet'')
      \<lparr>y_responseType = JStr [], y_responseText = JStr ''x'', y_response = JStr ''x'', y_status = 304, y_statusText = [], y_headers = [],
       y_contentType = JNull\<rparr> = Inr (Failure (intercept_response None out))"
  using superagent_success_iff [of "\<lparr>y_responseType = JStr [], y_responseText = JStr ''x'', y_response = JStr ''x'', y_status = 304,
      y_statusText = [], y_headers = [], y_contentType = JNull\<rparr>"]
  by (simp add: real_status_def)

text \<open>The clients disagree on redirections: jQuery reports success, superagent an error.\<close>

lemma redirection_succeeds: "x_status x = 304 \<Longrightarrow> \<exists>out. jquery_complete safeLoad opts obj x = Success out"
  by (simp add: jquery_complete_def on_response_def)

end
