(* ===== verification/Client_Fetch.thy ===== *)
theory Client_Fetch
  imports Superagent
begin

text \<open>
  How a client starts (module 3 of \<open>swagger-ui.js\<close>, \<open>initialize\<close>, \<open>build\<close> and \<open>fail\<close>): the options, the request for the
  specification, and what becomes of the answer: a message for the failure callback, the resolver for a specification of version 2,
  or the converter for an older one. Callbacks in the options are represented by whether they are there.
\<close>

section \<open>initialize\<close>

record fetcher =
  f_url :: jsv
  swaggerRequestHeaders :: jsv
  f_timeout :: jsv
  fetchSpecTimeout :: jsv
  usePromise :: bool
  f_useJQuery :: jsv
  f_jqueryAjaxCache :: jsv
  f_enableCookies :: jsv
  f_connectionAgent :: jsv
  f_spec :: jsv
  f_isBuilt :: bool
  isReady :: bool

text \<open>The first argument is the url, or the options with the url among them. \<open>origin\<close> is that of the window, if there is one.\<close>

definition options_of :: "jsv \<Rightarrow> jsv \<Rightarrow> jsv" where
  "options_of arg1 options = js_or (if is_object arg1 then arg1 else options) (JObj [])"

definition absolute_url :: "string option \<Rightarrow> jsv \<Rightarrow> jsv" where
  "absolute_url origin u = (case (origin, u) of
      (Some w, JStr s) \<Rightarrow> if s \<noteq> [] \<and> index_of ''http:'' s = -1 \<and> index_of ''https:'' s = -1 then JStr (w @ s) else u
    | _ \<Rightarrow> u)"

definition initialize :: "string option \<Rightarrow> bool \<Rightarrow> jsv \<Rightarrow> jsv \<Rightarrow> fetcher" where
  "initialize origin hasSuccess arg1 options0 =
     (let options = options_of arg1 options0;
          u = (case arg1 of JStr s \<Rightarrow> arg1 | v \<Rightarrow> if is_object v then prop_of v ''url'' else JNull)
      in \<lparr>f_url = absolute_url origin u,
          swaggerRequestHeaders = js_or (prop_of options ''swaggerRequestHeaders'') (JStr ''application/json;charset=utf-8,*/*''),
          f_timeout = js_or (prop_of options ''timeout'') JNull,
          fetchSpecTimeout = (if prop_of options ''fetchSpecTimeout'' \<noteq> JUndef then prop_of options ''fetchSpecTimeout''
                              else js_or (prop_of options ''timeout'') JNull),
          usePromise = truthy (prop_of options ''usePromise''),
          f_useJQuery = js_or (prop_of options ''useJQuery'') (JBool False),
          f_jqueryAjaxCache = js_or (prop_of options ''jqueryAjaxCache'') (JBool False),
          f_enableCookies = js_or (prop_of options ''enableCookies'') (JBool False),
          f_connectionAgent = js_or (prop_of options ''connectionAgent'') JNull,
          f_spec = prop_of options ''spec'', f_isBuilt = False,
          isReady = (truthy (prop_of options ''usePromise'') \<or> hasSuccess)\<rparr>)"

section \<open>build\<close>

definition fetch_request :: "fetcher \<Rightarrow> http_request" where
  "fetch_request this =
     \<lparr>pr_request = \<lparr>url = to_str (f_url this), headers = [(''accept'', swaggerRequestHeaders this)], cookieJar = None, clientAuthorizations = None\<rparr>,
      pr_method = ''get'', pr_body = BodyValue JUndef, pr_enableCookies = f_enableCookies this, pr_useJQuery = f_useJQuery this,
      pr_jqueryAjaxCache = f_jqueryAjaxCache this, pr_timeout = (if truthy (fetchSpecTimeout this) then fetchSpecTimeout this else JUndef),
      connectionAgent = f_connectionAgent this, contentType = JUndef, processData = JUndef\<rparr>"

text \<open>What happens next: a message for \<open>fail\<close>, the resolver, or the converter and then the resolver.\<close>

datatype next_step = Fail string | Resolve jsv | Convert jsv

definition timed_out :: "jsv \<Rightarrow> bool result" where
  "timed_out errObj =
     (if \<not> truthy errObj then Inr False
      else if prop_of errObj ''code'' = JStr ''ECONNABORTED'' then Inr True
      else bindR (js_indexOf (prop_of errObj ''message'') ''timeout'') (\<lambda>i. Inr (i \<noteq> -1)))"

definition fetch_error :: "fetcher \<Rightarrow> response \<Rightarrow> next_step result" where
  "fetch_error this resp =
     (if truthy (f_url this) \<and> take 4 (to_str (f_url this)) \<noteq> ''http'' then Inr (Fail (''Please specify the protocol for '' @ to_str (f_url this)))
      else bindR (timed_out (rs_errObj resp)) (\<lambda>t. Inr (Fail
        (if t then ''Request timed out after '' @ to_str (fetchSpecTimeout this) @ ''ms''
         else if rs_status resp = 0 then ''Can'' @ [CHR 0x27] @ ''t read from server.  It may not have the appropriate access-control-origin settings.''
         else if rs_status resp = 404 then ''Can'' @ [CHR 0x27] @ ''t read swagger JSON from '' @ to_str (f_url this)
         else show_int (rs_status resp) @ '' : '' @ to_str (rs_statusText resp) @ '' '' @ to_str (f_url this)))))"

definition fetch_response :: "response \<Rightarrow> next_step" where
  "fetch_response resp =
     (let d = rs_obj resp; version = prop_of d ''swagger'' in
      if \<not> truthy d then Fail ''failed to parse JSON/YAML response''
      else if truthy version \<and> parse_int (to_str version) = Some 2 then Resolve d
      else Convert d)"

text \<open>Callbacks of \<open>build\<close> behind the interceptors of \<open>SwaggerHttp\<close>; an interceptor that returns nothing makes them throw.\<close>

definition fetch_answer :: "fetcher \<Rightarrow> answer \<Rightarrow> next_step result" where
  "fetch_answer this a = (case a of
      Success (Some resp) \<Rightarrow> Inr (fetch_response resp)
    | Success None \<Rightarrow> Inl null_error
    | Failure (Some resp) \<Rightarrow> fetch_error this resp
    | Failure None \<Rightarrow> if truthy (f_url this) \<and> take 4 (to_str (f_url this)) \<noteq> ''http''
                       then Inr (Fail (''Please specify the protocol for '' @ to_str (f_url this))) else Inl null_error)"

text \<open>A specification that is given is resolved without a request; a client that is built does nothing.\<close>

datatype start = AlreadyBuilt | ResolveGiven jsv | Request http_request

definition build :: "fetcher \<Rightarrow> start" where
  "build this =
     (if f_isBuilt this then AlreadyBuilt
      else if is_object (f_spec this) then ResolveGiven (f_spec this)
      else Request (fetch_request this))"

section \<open>Timeouts and failures\<close>

text \<open>When the server does not answer in the time allowed for the specification, the failure callback gets the message that says so:
  the timer of superagent aborts the request, its error goes through the client of module 5 and the error interceptor, and
  \<open>build\<close> recognises it.\<close>

theorem timeout_reported:
  assumes "truthy (fetchSpecTimeout this)" "f_url this = JStr (''http'' @ rest)"
    and "life_steps parse r (sa_end r) l" "timer l" "sa_timeout r = fetchSpecTimeout this"
  shows "\<exists>e. calls (abort parse r (l\<lparr>timedout := True, timer := False\<rparr>)) = [(Some e, None)]
    \<and> bindR (superagent_end safeLoad parse None (fetch_request this) (err_value (Some e)) None) (fetch_answer this)
      = Inr (Fail (''Request timed out after '' @ to_str (fetchSpecTimeout this) @ ''ms''))"
proof -
  have l: "opened l" "\<not> finished l" "\<not> aborted l" "calls l = []"
    using life_ok_reachable [OF assms(3)] assms(4) by (auto simp: life_ok_def split: if_splits)
  have c: "calls (abort parse r (l\<lparr>timedout := True, timer := False\<rparr>)) = [(Some (TimedOut (fetchSpecTimeout this)), None)]"
    using l assms(5) by (simp add: abort_def ready_def finish_def Let_def)
  have "starts_with ''timeout'' (''timeout of '' @ s)" for s by simp
  then have i: "index_of ''timeout'' (''timeout of '' @ s) = 0" for s using index_of_zero_iff by blast
  have "bindR (superagent_end safeLoad parse None (fetch_request this) (err_value (Some (TimedOut (fetchSpecTimeout this)))) None) (fetch_answer this)
      = Inr (Fail (''Request timed out after '' @ to_str (fetchSpecTimeout this) @ ''ms''))"
    using i assms(2) by (simp add: superagent_end_def Let_def err_value_def no_response_def error_obj_def on_error_def intercept_response_def
        fetch_answer_def fetch_error_def timed_out_def js_indexOf_def)
  then show ?thesis using c by blast
qed

definition slow_fetcher :: fetcher where
  "slow_fetcher = initialize None True (JStr ''http://h/api.json'') (JObj [(''timeout'', JNum 500)])"

theorem timeout_reported_witness:
  "\<exists>e. bindR (superagent_end (\<lambda>s. Inr JNull) (\<lambda>s. Inr JNull) None (fetch_request slow_fetcher) (err_value (Some e)) None) (fetch_answer slow_fetcher)
     = Inr (Fail ''Request timed out after 500ms'')"
proof -
  define r where "r = (new_request ''GET'' ''http://h/api.json'')\<lparr>sa_timeout := JNum 500\<rparr>"
  have f: "fetchSpecTimeout slow_fetcher = JNum 500" "f_url slow_fetcher = JStr (''http'' @ ''://h/api.json'')"
    by (simp_all add: slow_fetcher_def initialize_def options_of_def is_object_def absolute_url_def Let_def)
  have "show_nat 500 = ''500''" by code_simp
  then show ?thesis
    using timeout_reported [of slow_fetcher "''://h/api.json''" "\<lambda>s. Inr JNull" r "sa_end r" "\<lambda>s. Inr JNull"] f
    by (auto simp: r_def sa_end_def show_int_def)
qed

text \<open>Every error that superagent reports for the request of the specification reaches the failure callback as one message, and
  none makes the error callback throw.\<close>

theorem fetch_error_reported:
  "\<exists>message. bindR (superagent_end safeLoad parse None (fetch_request this) (err_value (Some e)) None) (fetch_answer this) = Inr (Fail message)"
proof -
  have "\<exists>b. timed_out (err_value (Some e)) = Inr b"
    by (cases e) (simp_all add: timed_out_def err_value_def js_indexOf_def del: index_of.simps)
  moreover have "truthy (err_value (Some e))" by (simp add: err_value_truthy)
  ultimately show ?thesis
    by (auto simp: superagent_end_def Let_def no_response_def error_obj_def on_error_def intercept_response_def fetch_answer_def fetch_error_def)
qed

end
