(* ===== verification/Emitter.thy ===== *)
theory Emitter
  imports JS_Object
begin

text \<open>
  The event emitter that superagent's requests are (\<open>component-emitter\<close>, module 162 of \<open>swagger-ui.js\<close>). A listener is a function
  or the wrapper that \<open>once\<close> makes, which is an object of its own, numbered here. \<open>emit\<close> gives the functions it calls; listeners do
  not change the emitter themselves, except that a wrapper removes itself.
\<close>

datatype 'f listener = Plain 'f | Wrapper nat 'f

primrec fn_of :: "'f listener \<Rightarrow> 'f" where
  "fn_of (Plain f) = f"
| "fn_of (Wrapper i f) = f"

record 'f emitter =
  callbacks :: "'f listener list obj"
  created :: nat

definition event_key :: "string \<Rightarrow> string" where
  "event_key event = CHR ''$'' # event"

definition listeners :: "string \<Rightarrow> 'f emitter \<Rightarrow> 'f listener list" where
  "listeners event e = (case obj_get (callbacks e) (event_key event) of None \<Rightarrow> [] | Some cs \<Rightarrow> cs)"

definition hasListeners :: "string \<Rightarrow> 'f emitter \<Rightarrow> bool" where
  "hasListeners event e \<longleftrightarrow> listeners event e \<noteq> []"

definition add_listener :: "string \<Rightarrow> 'f listener \<Rightarrow> 'f emitter \<Rightarrow> 'f emitter" where
  "add_listener event l e = e\<lparr>callbacks := obj_set (event_key event) (listeners event e @ [l]) (callbacks e)\<rparr>"

definition on :: "string \<Rightarrow> 'f \<Rightarrow> 'f emitter \<Rightarrow> 'f emitter" where
  "on event f e = add_listener event (Plain f) e"

definition once :: "string \<Rightarrow> 'f \<Rightarrow> 'f emitter \<Rightarrow> 'f emitter" where
  "once event f e = add_listener event (Wrapper (created e) f) (e\<lparr>created := created e + 1\<rparr>)"

text \<open>\<open>off\<close> with no, one and two arguments. The first listener that is the function, or wraps it, is removed.\<close>

definition off_all :: "'f emitter \<Rightarrow> 'f emitter" where
  "off_all e = e\<lparr>callbacks := []\<rparr>"

definition off_event :: "string \<Rightarrow> 'f emitter \<Rightarrow> 'f emitter" where
  "off_event event e = e\<lparr>callbacks := obj_del (event_key event) (callbacks e)\<rparr>"

fun remove_first :: "('a \<Rightarrow> bool) \<Rightarrow> 'a list \<Rightarrow> 'a list" where
  "remove_first p [] = []"
| "remove_first p (x # xs) = (if p x then xs else x # remove_first p xs)"

definition off_where :: "('f listener \<Rightarrow> bool) \<Rightarrow> string \<Rightarrow> 'f emitter \<Rightarrow> 'f emitter" where
  "off_where p event e = (case obj_get (callbacks e) (event_key event) of
      None \<Rightarrow> e
    | Some cs \<Rightarrow> e\<lparr>callbacks := obj_set (event_key event) (remove_first p cs) (callbacks e)\<rparr>)"

definition off :: "string \<Rightarrow> 'f \<Rightarrow> 'f emitter \<Rightarrow> 'f emitter" where
  "off event f e = off_where (\<lambda>l. fn_of l = f) event e"

definition call_listener :: "string \<Rightarrow> 'f listener \<Rightarrow> 'f emitter \<times> 'f list \<Rightarrow> 'f emitter \<times> 'f list" where
  "call_listener event l st = (case st of (e, called) \<Rightarrow>
     case l of
       Plain f \<Rightarrow> (e, called @ [f])
     | Wrapper i f \<Rightarrow> (off_where (\<lambda>l'. l' = Wrapper i f) event e, called @ [f]))"

text \<open>\<open>emit\<close> goes through a copy of the list.\<close>

definition emit :: "string \<Rightarrow> 'f emitter \<Rightarrow> 'f emitter \<times> 'f list" where
  "emit event e = fold (call_listener event) (listeners event e) (e, [])"

section \<open>What the emitter promises\<close>

primrec is_plain :: "'f listener \<Rightarrow> bool" where
  "is_plain (Plain f) = True"
| "is_plain (Wrapper i f) = False"

text \<open>Every wrapper is in one place only, and has a number that was given out.\<close>

definition emitter_ok :: "'f emitter \<Rightarrow> bool" where
  "emitter_ok e \<longleftrightarrow> (\<forall>event. distinct (filter (\<lambda>l. \<not> is_plain l) (listeners event e))
     \<and> (\<forall>i f. Wrapper i f \<in> set (listeners event e) \<longrightarrow> i < created e))"

lemma listeners_add [simp]:
  "listeners event' (add_listener event l e) = (if event' = event then listeners event e @ [l] else listeners event' e)"
  by (simp add: add_listener_def listeners_def event_key_def)

lemma listeners_off_where [simp]:
  "listeners event' (off_where p event e) = (if event' = event then remove_first p (listeners event e) else listeners event' e)"
  by (auto simp: off_where_def listeners_def event_key_def split: option.splits)

lemma created_add [simp]: "created (add_listener event l e) = created e"
  by (simp add: add_listener_def)

lemma listeners_created [simp]: "listeners event (e\<lparr>created := n\<rparr>) = listeners event e"
  by (simp add: listeners_def)

lemma created_off_where [simp]: "created (off_where p event e) = created e"
  by (simp add: off_where_def split: option.splits)

lemma remove_first_append: "\<forall>x \<in> set xs. \<not> p x \<Longrightarrow> remove_first p (xs @ ys) = xs @ remove_first p ys"
  by (induction xs) auto

lemma call_simps:
  "call_listener event (Plain f) (e, called) = (e, called @ [f])"
  "call_listener event (Wrapper i f) (e, called) = (off_where (\<lambda>l'. l' = Wrapper i f) event e, called @ [f])"
  by (simp_all add: call_listener_def)

lemma emit_loop:
  assumes "listeners event e = kept @ ls" "\<forall>l \<in> set kept. is_plain l" "distinct (filter (\<lambda>l. \<not> is_plain l) ls)"
  shows "\<exists>e'. fold (call_listener event) ls (e, called) = (e', called @ map fn_of ls)
    \<and> listeners event e' = kept @ filter is_plain ls \<and> created e' = created e \<and> (\<forall>event'. event' \<noteq> event \<longrightarrow> listeners event' e' = listeners event' e)"
  using assms
proof (induction ls arbitrary: e kept called)
  case (Cons l ls)
  show ?case
  proof (cases l)
    case (Plain f)
    have "\<exists>e'. fold (call_listener event) ls (e, called @ [f]) = (e', (called @ [f]) @ map fn_of ls)
        \<and> listeners event e' = (kept @ [l]) @ filter is_plain ls \<and> created e' = created e \<and> (\<forall>event'. event' \<noteq> event \<longrightarrow> listeners event' e' = listeners event' e)"
      by (rule Cons.IH) (use Cons.prems Plain in auto)
    then show ?thesis using Plain by (simp add: call_simps)
  next
    case (Wrapper i f)
    let ?e = "off_where (\<lambda>l'. l' = Wrapper i f) event e"
    have "\<forall>x \<in> set kept. x \<noteq> Wrapper i f" using Cons.prems(2) by auto
    then have "listeners event ?e = kept @ ls"
      using Cons.prems(1) Wrapper remove_first_append [of kept "\<lambda>l'. l' = Wrapper i f" "l # ls"] by simp
    then have "\<exists>e'. fold (call_listener event) ls (?e, called @ [f]) = (e', (called @ [f]) @ map fn_of ls)
        \<and> listeners event e' = kept @ filter is_plain ls \<and> created e' = created ?e \<and> (\<forall>event'. event' \<noteq> event \<longrightarrow> listeners event' e' = listeners event' ?e)"
      by (rule Cons.IH) (use Cons.prems Wrapper in auto)
    then show ?thesis using Wrapper by (simp add: call_simps)
  qed
qed simp

text \<open>C34: \<open>emit\<close> calls the functions of the listeners of the event, each once and in the order of their registration, and afterwards
  exactly the listeners registered by \<open>on\<close> are left: one registered by \<open>once\<close> is never called again. Other events keep their
  listeners, and the emitter stays well formed.\<close>

theorem emit_calls:
  assumes "emitter_ok e"
  shows "\<exists>e'. emit event e = (e', map fn_of (listeners event e)) \<and> listeners event e' = filter is_plain (listeners event e)
    \<and> (\<forall>event'. event' \<noteq> event \<longrightarrow> listeners event' e' = listeners event' e) \<and> emitter_ok e'"
proof -
  obtain e' where e': "emit event e = (e', map fn_of (listeners event e))" "listeners event e' = filter is_plain (listeners event e)"
    "created e' = created e" "\<forall>event'. event' \<noteq> event \<longrightarrow> listeners event' e' = listeners event' e"
    using emit_loop [of event e "[]" "listeners event e" "[]"] assms by (auto simp: emit_def emitter_ok_def)
  have "emitter_ok e'"
    unfolding emitter_ok_def
  proof (intro allI conjI)
    fix ev
    show "distinct (filter (\<lambda>l. \<not> is_plain l) (listeners ev e'))"
      using assms e'(2,4) by (cases "ev = event") (auto simp: emitter_ok_def filter_empty_conv)
    show "Wrapper i f \<in> set (listeners ev e') \<longrightarrow> i < created e'" for i f
      using assms e'(2-4) by (cases "ev = event") (auto simp: emitter_ok_def)
  qed
  with e' show ?thesis by blast
qed

lemma emitter_ok_new: "emitter_ok \<lparr>callbacks = [], created = 0\<rparr>"
  by (simp add: emitter_ok_def listeners_def)

lemma emitter_ok_on: "emitter_ok e \<Longrightarrow> emitter_ok (on event f e)"
  by (auto simp: emitter_ok_def on_def)

lemma emitter_ok_once: "emitter_ok e \<Longrightarrow> emitter_ok (once event f e)"
  by (fastforce simp: emitter_ok_def once_def less_Suc_eq)

lemma set_remove_first: "set (remove_first p xs) \<subseteq> set xs"
  by (induction xs) auto

lemma distinct_remove_first: "distinct (filter q xs) \<Longrightarrow> distinct (filter q (remove_first p xs))"
  by (induction xs) (auto dest: subsetD [OF set_remove_first])

lemma emitter_ok_off: "emitter_ok e \<Longrightarrow> emitter_ok (off event f e)"
  using set_remove_first by (fastforce simp: emitter_ok_def off_def distinct_remove_first)

theorem emit_calls_witness:
  "\<exists>e'. emit ''end'' (once ''end'' (7::nat) (on ''end'' 5 \<lparr>callbacks = [], created = 0\<rparr>)) = (e', [5, 7]) \<and> listeners ''end'' e' = [Plain 5]"
proof -
  let ?e = "once ''end'' (7::nat) (on ''end'' 5 \<lparr>callbacks = [], created = 0\<rparr>)"
  have ok: "emitter_ok ?e" by (intro emitter_ok_once emitter_ok_on emitter_ok_new)
  have ls: "listeners ''end'' ?e = [Plain 5, Wrapper 0 7]" by code_simp
  show ?thesis using emit_calls [OF ok, of "''end''"] by (auto simp: ls)
qed

end
