(* ===== verification/Form_View.thy ===== *)
theory Form_View
  imports Operation_Request
begin

text \<open>
  The form of an operation (\<open>SwaggerUi.Views.OperationView\<close> of \<open>swagger-ui.js\<close>, \<open>submitOperation\<close> and what it calls): the
  checks of the required controls, the values that are read from the form, and the call of \<open>execute\<close>. A control is
  what the browser tells about it; the values of the JSON editors are a parameter. The option \<open>parent\<close>, the view itself,
  is left out.
\<close>

section \<open>Controls\<close>

record input =
  i_name :: string
  i_value :: string
  i_type :: string
  i_files :: "jsv list"
  i_required :: bool

record textarea =
  t_name :: string
  t_value :: string
  t_required :: bool
  t_visible :: bool

text \<open>The options of a selection with their values and whether they are selected.\<close>

record selection =
  o_name :: string
  o_multiple :: bool
  o_options :: "(string \<times> bool) list"
  o_required :: bool

record sandbox =
  inputs :: "input list"
  textareas :: "textarea list"
  selections :: "selection list"

definition blank :: "string \<Rightarrow> bool" where
  "blank s \<longleftrightarrow> js_trim s = []"

definition chosen :: "selection \<Rightarrow> string list" where
  "chosen o1 = map fst (filter snd (o_options o1))"

text \<open>\<open>select.value\<close>: the first selected option, or the empty text.\<close>

definition selected_value :: "selection \<Rightarrow> string" where
  "selected_value o1 = (case chosen o1 of [] \<Rightarrow> [] | v # _ \<Rightarrow> v)"

section \<open>Reading the form\<close>

definition getSelectedValue :: "selection \<Rightarrow> jsv" where
  "getSelectedValue o1 =
     (if \<not> o_multiple o1 then JStr (selected_value o1)
      else if chosen o1 \<noteq> [] then JArr (map JStr (chosen o1)) else JNull)"

definition getParamByName :: "param list \<Rightarrow> string \<Rightarrow> param option" where
  "getParamByName ps name = List.find (\<lambda>p. p_name p = name) ps"

definition is_array_param :: "param option \<Rightarrow> bool" where
  "is_array_param p = (case p of None \<Rightarrow> False | Some p \<Rightarrow> to_lower (p_type p) = ''array'')"

text \<open>For an array one element per line that is not blank.\<close>

definition getTextAreaValue :: "param list \<Rightarrow> textarea \<Rightarrow> jsv" where
  "getTextAreaValue ps t =
     (if blank (t_value t) then JNull
      else if is_array_param (getParamByName ps (t_name t)) then
        (let result = filter (\<lambda>l. \<not> blank l) (split_char CHR 0x0A (t_value t))
         in if result \<noteq> [] then JArr (map JStr result) else JNull)
      else JStr (t_value t))"

definition add_input :: "input \<Rightarrow> jsv obj \<Rightarrow> jsv obj" where
  "add_input i m =
     (let m1 = (if \<not> blank (i_value i) then obj_set (i_name i) (JStr (i_value i)) m else m)
      in if i_type i = ''file'' then obj_set (i_name i) (case i_files i of [] \<Rightarrow> JUndef | f # _ \<Rightarrow> f) m1 else m1)"

text \<open>A value that is not \<open>null\<close> and whose text is not blank.\<close>

definition add_value :: "string \<Rightarrow> jsv \<Rightarrow> jsv obj \<Rightarrow> jsv obj" where
  "add_value name v m = (if v \<noteq> JNull \<and> \<not> blank (to_str v) then obj_set name v m else m)"

definition getInputMap :: "param list \<Rightarrow> sandbox \<Rightarrow> jsv obj" where
  "getInputMap ps form =
     fold (\<lambda>o1. add_value (o_name o1) (getSelectedValue o1)) (selections form)
       (fold (\<lambda>t. add_value (t_name t) (getTextAreaValue ps t)) (textareas form)
          (fold add_input (inputs form) []))"

definition isFileUpload :: "sandbox \<Rightarrow> bool" where
  "isFileUpload form \<longleftrightarrow> list_ex (\<lambda>i. i_type i = ''file'') (inputs form)"

section \<open>Submitting the form\<close>

text \<open>The controls that are marked as errors; without any the form is submitted.\<close>

definition form_errors :: "sandbox \<Rightarrow> string list" where
  "form_errors form =
     map i_name (filter (\<lambda>i. i_required i \<and> blank (i_value i)) (inputs form))
     @ map t_name (filter (\<lambda>t. t_required t \<and> t_visible t \<and> blank (t_value t)) (textareas form))
     @ map o_name (filter (\<lambda>o1. o_required o1 \<and> chosen o1 = []) (selections form))"

text \<open>\<open>editor name\<close> is the value of the JSON editor of a parameter that has an enabled one.\<close>

definition edited_map :: "(string \<Rightarrow> jsv option) \<Rightarrow> param list \<Rightarrow> jsv obj \<Rightarrow> jsv obj" where
  "edited_map editor ps m =
     fold (\<lambda>p m. case editor (p_name p) of None \<Rightarrow> m | Some v \<Rightarrow> obj_set (p_name p) (JStr (json_text v)) m) ps m"

definition submit_map :: "(string \<Rightarrow> jsv option) \<Rightarrow> param list \<Rightarrow> sandbox \<Rightarrow> jsv obj" where
  "submit_map editor ps form =
     (let m = edited_map editor ps (getInputMap ps form)
      in if isFileUpload form then obj_set ''parameterContentType'' (JStr ''multipart/form-data'') m else m)"

definition submit_opts :: "jsv obj \<Rightarrow> jsv \<Rightarrow> jsv \<Rightarrow> sandbox \<Rightarrow> jsv obj" where
  "submit_opts swaggerOptions responseContentType requestContentType form =
     (let opts = obj_set ''requestContentType'' requestContentType
            (obj_set ''responseContentType'' responseContentType (obj_copy swaggerOptions []))
      in if isFileUpload form then obj_set ''useJQuery'' (JBool True) opts else opts)"

definition submitOperation ::
  "env \<Rightarrow> operation \<Rightarrow> settings \<Rightarrow> auth obj \<Rightarrow> jsv obj \<Rightarrow> jsv \<Rightarrow> jsv \<Rightarrow> (string \<Rightarrow> jsv option) \<Rightarrow> sandbox
     \<Rightarrow> string list \<times> outcome result option" where
  "submitOperation e this s authz swaggerOptions responseContentType requestContentType editor form =
     (form_errors form,
      if form_errors form = [] then
        Some (execute e this s authz None (submit_map editor (parameters this) form)
                (submit_opts swaggerOptions responseContentType requestContentType form))
      else None)"

section \<open>A form that is submitted has what the operation requires\<close>

text \<open>The control of a required parameter: an input, a visible text area, or a selection none of whose chosen options is
  blank.\<close>

definition controlled :: "sandbox \<Rightarrow> string \<Rightarrow> bool" where
  "controlled form name \<longleftrightarrow>
     list_ex (\<lambda>i. i_name i = name \<and> i_required i) (inputs form)
     \<or> list_ex (\<lambda>t. t_name t = name \<and> t_required t \<and> t_visible t) (textareas form)
     \<or> list_ex (\<lambda>o1. o_name o1 = name \<and> o_required o1 \<and> list_all (\<lambda>v. \<not> blank v) (chosen o1)) (selections form)"

text \<open>Inputs have different names, and a file input that shows a value has a file.\<close>

definition form_ok :: "sandbox \<Rightarrow> bool" where
  "form_ok form \<longleftrightarrow> distinct (map i_name (inputs form))
     \<and> list_all (\<lambda>i. i_type i = ''file'' \<and> \<not> blank (i_value i) \<longrightarrow> i_files i \<noteq> [] \<and> hd (i_files i) \<noteq> JUndef) (inputs form)"

abbreviation given :: "jsv obj \<Rightarrow> string \<Rightarrow> bool" where
  "given m name \<equiv> arg m name \<noteq> JUndef"

lemma blank_iff: "blank s \<longleftrightarrow> (\<forall>c \<in> set s. is_space c)"
  by (auto simp: blank_def js_trim_def dropWhile_eq_Nil_conv dest: set_dropWhileD)
     (metis dropWhile_eq_Nil_conv set_rev takeWhile_dropWhile_id Un_iff set_append set_takeWhileD)

lemma blank_js_join: "w \<in> set ws \<Longrightarrow> \<not> blank w \<Longrightarrow> \<not> blank (js_join sep ws)"
  using set_js_join_elem [of w ws sep] by (auto simp: blank_iff)

lemma to_str_strings: "to_str (JArr (map JStr ws)) = js_join '','' ws"
  by (simp add: comp_def)

lemma nonblank_line: "\<not> blank s \<Longrightarrow> \<exists>l \<in> set (split_char CHR 0x0A s). \<not> blank l"
proof (induction s)
  case (Cons c s)
  show ?case
  proof (cases "c = CHR 0x0A")
    case True
    then show ?thesis using Cons by (auto simp: blank_iff is_space_def)
  next
    case False
    then show ?thesis using Cons by (cases "split_char CHR 0x0A s") (auto simp: blank_iff)
  qed
qed (simp add: blank_iff)

lemma textarea_value:
  assumes "\<not> blank (t_value t)"
  shows "getTextAreaValue ps t \<noteq> JNull" and "getTextAreaValue ps t \<noteq> JUndef" and "\<not> blank (to_str (getTextAreaValue ps t))"
proof -
  let ?ls = "filter (\<lambda>l. \<not> blank l) (split_char CHR 0x0A (t_value t))"
  obtain l where l: "l \<in> set ?ls" using nonblank_line [OF assms] by auto
  then have ls: "\<not> blank (to_str (JArr (map JStr ?ls)))" using blank_js_join [OF l] by (simp add: to_str_strings del: to_str.simps)
  have "?ls \<noteq> []" using l by (metis empty_iff empty_set)
  then have "getTextAreaValue ps t = (if is_array_param (getParamByName ps (t_name t)) then JArr (map JStr ?ls) else JStr (t_value t))"
    using assms by (simp only: getTextAreaValue_def Let_def if_False if_True simp_thms)
  then show "getTextAreaValue ps t \<noteq> JNull" "getTextAreaValue ps t \<noteq> JUndef" "\<not> blank (to_str (getTextAreaValue ps t))"
    using ls assms by (simp_all del: to_str.simps(6))
qed

lemma selection_value:
  assumes "chosen o1 \<noteq> []" "list_all (\<lambda>v. \<not> blank v) (chosen o1)"
  shows "getSelectedValue o1 \<noteq> JNull" and "getSelectedValue o1 \<noteq> JUndef" and "\<not> blank (to_str (getSelectedValue o1))"
proof -
  obtain v vs where v: "chosen o1 = v # vs" using assms(1) by (cases "chosen o1") auto
  then have "\<not> blank v" using assms(2) by simp
  then have "\<not> blank (to_str (JArr (map JStr (chosen o1))))" using blank_js_join [of v "chosen o1"] v
    by (simp only: to_str_strings) simp
  then show "getSelectedValue o1 \<noteq> JNull" "getSelectedValue o1 \<noteq> JUndef" "\<not> blank (to_str (getSelectedValue o1))"
    using v \<open>\<not> blank v\<close> by (auto simp: getSelectedValue_def selected_value_def simp del: to_str.simps(6))
qed

lemma given_value: "given m k \<Longrightarrow> v \<noteq> JUndef \<Longrightarrow> given (add_value name v m) k"
  by (simp add: add_value_def)

lemma given_values:
  assumes "\<And>x. x \<in> set xs \<Longrightarrow> val x \<noteq> JUndef"
  shows "given m k \<Longrightarrow> given (fold (\<lambda>x. add_value (nm x) (val x)) xs m) k"
  using assms by (induction xs arbitrary: m) (simp_all add: given_value)

lemma value_given:
  assumes "x \<in> set xs" "nm x = k" "val x \<noteq> JNull" "\<not> blank (to_str (val x))" "\<And>x. x \<in> set xs \<Longrightarrow> val x \<noteq> JUndef"
  shows "given (fold (\<lambda>x. add_value (nm x) (val x)) xs m) k"
proof -
  obtain us vs where xs: "xs = us @ x # vs" using split_list [OF assms(1)] by blast
  have "given (add_value (nm x) (val x) m') k" for m' using assms by (auto simp: add_value_def)
  then show ?thesis using given_values [of vs val] assms(5) by (simp add: xs)
qed

lemma add_input_other: "i_name i \<noteq> k \<Longrightarrow> arg (add_input i m) k = arg m k"
  by (simp add: add_input_def Let_def)

lemma inputs_other: "k \<notin> i_name ` set is \<Longrightarrow> arg (fold add_input is m) k = arg m k"
  by (induction "is" arbitrary: m) (auto simp: add_input_other)

lemma input_given:
  assumes "form_ok form" "i \<in> set (inputs form)" "\<not> blank (i_value i)"
  shows "given (fold add_input (inputs form) m) (i_name i)"
proof -
  obtain us vs where xs: "inputs form = us @ i # vs" using split_list [OF assms(2)] by blast
  have "given (add_input i m') (i_name i)" for m'
    using assms by (cases "i_files i") (auto simp: add_input_def Let_def form_ok_def list_all_iff)
  moreover have "i_name i \<notin> i_name ` set vs" using assms(1) xs by (auto simp: form_ok_def)
  ultimately show ?thesis by (simp add: xs inputs_other)
qed

lemma textarea_defined: "getTextAreaValue ps t \<noteq> JUndef"
  by (simp add: getTextAreaValue_def Let_def)

lemma selection_defined: "getSelectedValue o1 \<noteq> JUndef"
  by (simp add: getSelectedValue_def)

lemma required_given:
  assumes "form_ok form" "form_errors form = []" "controlled form name"
  shows "given (getInputMap ps form) name"
proof -
  let ?m1 = "fold add_input (inputs form) []"
  let ?m2 = "fold (\<lambda>t. add_value (t_name t) (getTextAreaValue ps t)) (textareas form) ?m1"
  have keep: "given ?m1 name \<Longrightarrow> given ?m2 name" "given ?m2 name \<Longrightarrow> given (getInputMap ps form) name"
    by (simp_all add: getInputMap_def given_values textarea_defined selection_defined)
  consider (i) i where "i \<in> set (inputs form)" "i_name i = name" "i_required i"
    | (t) t where "t \<in> set (textareas form)" "t_name t = name" "t_required t" "t_visible t"
    | (o1) o1 where "o1 \<in> set (selections form)" "o_name o1 = name" "o_required o1" "list_all (\<lambda>v. \<not> blank v) (chosen o1)"
    using assms(3) by (auto simp: controlled_def list_ex_iff)
  then show ?thesis
  proof cases
    case i
    then have "\<not> blank (i_value i)" using assms(2) by (auto simp: form_errors_def filter_empty_conv)
    then show ?thesis using input_given [OF assms(1) i(1)] i(2) keep by blast
  next
    case t
    then have "\<not> blank (t_value t)" using assms(2) by (auto simp: form_errors_def filter_empty_conv)
    then have "given ?m2 name" using t(1,2) by (intro value_given [of t]) (auto simp: textarea_defined dest: textarea_value)
    then show ?thesis using keep by blast
  next
    case o1
    then have "chosen o1 \<noteq> []" using assms(2) by (auto simp: form_errors_def filter_empty_conv)
    then show ?thesis using o1(1,2,4) unfolding getInputMap_def
      by (intro value_given [of o1]) (auto simp: selection_defined dest: selection_value)
  qed
qed

lemma given_edited: "given m k \<Longrightarrow> given (edited_map editor ps m) k"
  unfolding edited_map_def by (induction ps arbitrary: m) (simp_all split: option.split)

lemma no_missing:
  assumes "\<And>p. p \<in> set (parameters this) \<Longrightarrow> p_required p \<Longrightarrow> given args (p_name p)"
  shows "getMissingParams this args = []"
proof -
  have "fold (\<lambda>p missing. if p_required p \<and> arg args (p_name p) = JUndef then p_name p else missing) ps [] = []"
    if "set ps \<subseteq> set (parameters this)" for ps
    using that assms by (induction ps) auto
  then show ?thesis by (simp add: getMissingParams_def)
qed


definition required_get :: operation where
  "required_get = sample_op ''get'' [(field ''q'' ''query'')\<lparr>p_required := True\<rparr>]"

definition text_form :: "string \<Rightarrow> sandbox" where
  "text_form v = \<lparr>inputs = [\<lparr>i_name = ''q'', i_value = v, i_type = ''text'', i_files = [], i_required = True\<rparr>],
     textareas = [], selections = []\<rparr>"


text \<open>A selection passes the check with any option, also with the empty one that stands for no choice; \<open>execute\<close> then
  refuses the request.\<close>

lemma blank_choice_passes:
  "submitOperation sample_env required_get sample_settings [] [] JUndef JUndef (\<lambda>_. None)
     \<lparr>inputs = [], textareas = [], selections = [\<lparr>o_name = ''q'', o_multiple = False, o_options = [([], True), (''a'', False)], o_required = True\<rparr>]\<rparr>
   = ([], Some (Inr (Rejected ''missing required params: q'')))"
  by code_simp

end
