(* ===== verification/Schema_Sample.thy ===== *)
theory Schema_Sample
  imports Helpers
begin

text \<open>
  Sample values and type names of schemas (modules 7 and 9 of \<open>swagger-ui.js\<close>, \<open>schema-markup\<close> and \<open>Model\<close>). The sample
  of a schema follows references into the models and stops at a model that it is inside of. The time of day
  and the macro that supplies the default of a property are parameters.
\<close>

section \<open>Models\<close>

text \<open>\<open>examples\<close> is set on the model of a response.\<close>

record model =
  m_name :: string
  m_definition :: jsv
  m_examples :: jsv

definition Model :: "jsv \<Rightarrow> jsv \<Rightarrow> model result" where
  "Model name d =
     bindR (get_prop d ''type'') (\<lambda>_.
       Inr \<lparr>m_name = to_str (js_or name (js_or (prop_of d ''title'') (JStr ''Inline Model''))),
            m_definition = js_or d (JObj []), m_examples = JUndef\<rparr>)"

definition isArray :: "model \<Rightarrow> bool" where
  "isArray m \<longleftrightarrow> prop_of (m_definition m) ''type'' = JStr ''array''"

section \<open>Names of types\<close>

definition typeFromJsonSchema :: "jsv \<Rightarrow> jsv \<Rightarrow> jsv" where
  "typeFromJsonSchema typ fmt =
     (if typ = JStr ''integer'' \<and> fmt = JStr ''int32'' then JStr ''integer''
      else if typ = JStr ''integer'' \<and> fmt = JStr ''int64'' then JStr ''long''
      else if typ = JStr ''integer'' \<and> fmt = JUndef then JStr ''long''
      else if typ = JStr ''string'' \<and> fmt = JStr ''date-time'' then JStr ''date-time''
      else if typ = JStr ''string'' \<and> fmt = JStr ''date'' then JStr ''date''
      else if typ = JStr ''number'' \<and> fmt = JStr ''float'' then JStr ''float''
      else if typ = JStr ''number'' \<and> fmt = JStr ''double'' then JStr ''double''
      else if typ = JStr ''number'' \<and> fmt = JUndef then JStr ''double''
      else if typ = JStr ''boolean'' then JStr ''boolean''
      else if typ = JStr ''string'' then JStr ''string''
      else JUndef)"

text \<open>The branches of \<open>getStringSignature\<close> on a type that is neither missing nor an array.\<close>

definition plain_signature :: "jsv \<Rightarrow> jsv \<Rightarrow> string" where
  "plain_signature typ fmt =
     (if typ = JStr ''integer'' \<and> fmt = JStr ''int32'' then ''integer''
      else if typ = JStr ''integer'' \<and> fmt = JStr ''int64'' then ''long''
      else if typ = JStr ''integer'' \<and> fmt = JUndef then ''long''
      else if typ = JStr ''string'' \<and> fmt = JStr ''date-time'' then ''date-time''
      else if typ = JStr ''string'' \<and> fmt = JStr ''date'' then ''date''
      else if typ = JStr ''string'' \<and> fmt = JUndef then ''string''
      else if typ = JStr ''number'' \<and> fmt = JStr ''float'' then ''float''
      else if typ = JStr ''number'' \<and> fmt = JStr ''double'' then ''double''
      else if typ = JStr ''number'' \<and> fmt = JUndef then ''double''
      else if typ = JStr ''boolean'' then ''boolean''
      else to_str typ)"

text \<open>Since \<open>$ref\<close> is undefined in the branches behind the first, the later tests of it fail.\<close>

function getStringSignature :: "jsv \<Rightarrow> bool \<Rightarrow> string result" where
  "getStringSignature v baseComponent =
     bindR (get_prop v ''$ref'') (\<lambda>ref.
       if ref \<noteq> JUndef then bindR (simpleRef ref) (\<lambda>r. Inr (to_str r))
       else if prop_of v ''type'' = JUndef then Inr ''object''
       else if prop_of v ''type'' = JStr ''array'' then
         bindR (if truthy (prop_of v ''items'') then getStringSignature (prop_of v ''items'') False else Inr ''object'') (\<lambda>s.
           Inr (if baseComponent then s else ''Array['' @ s @ '']''))
       else Inr (plain_signature (prop_of v ''type'') (prop_of v ''format'')))"
  by pat_completeness auto
termination
  by (relation "measure (\<lambda>(v, b). size v)") (auto intro!: size_prop_of)

section \<open>Sample values\<close>

text \<open>The size of a schema without its default, which a macro may set. Other values have no parts.\<close>

definition schema_size :: "jsv \<Rightarrow> nat" where
  "schema_size v = (case v of JObj o1 \<Rightarrow> size (JObj (obj_del ''default'' o1)) | _ \<Rightarrow> 0)"

lemma size_obj_del: "size (JObj (obj_del k o1)) \<le> size (JObj o1)"
  by (induction o1) (auto simp: obj_del_def)

lemma schema_size_le: "schema_size v \<le> size v"
  using size_obj_del by (cases v) (auto simp: schema_size_def)

lemma schema_size_prop:
  assumes "k \<noteq> ''default''" "prop_of v k \<noteq> JUndef"
  shows "size (prop_of v k) < schema_size v"
proof (cases v)
  case (JObj o1)
  then have "prop_of v k = prop_of (JObj (obj_del ''default'' o1)) k" using assms(1) by simp
  then show ?thesis using size_prop_of [of "JObj (obj_del ''default'' o1)" k] assms(2) JObj
    by (simp only: schema_size_def) simp
qed (use assms in \<open>auto simp: prop_of_def\<close>)

lemma resolveSchema_size: "resolveSchema v = Inr w \<Longrightarrow> schema_size w \<le> schema_size v"
proof (induction v rule: resolveSchema.induct)
  case (1 schema)
  have eq: "resolveSchema schema = bindR (get_prop schema ''schema'') (\<lambda>s. case s of JObj o1 \<Rightarrow> resolveSchema (JObj o1) | _ \<Rightarrow> Inr schema)"
    by (rule resolveSchema.simps)
  show ?case
  proof (cases "\<exists>o1. prop_of schema ''schema'' = JObj o1 \<and> get_prop schema ''schema'' = Inr (JObj o1)")
    case True
    then obtain o1 where o1: "prop_of schema ''schema'' = JObj o1" "get_prop schema ''schema'' = Inr (JObj o1)" by blast
    then have "schema_size w \<le> schema_size (JObj o1)" using 1 eq by simp
    also have "\<dots> < schema_size schema"
      using schema_size_prop [of "''schema''" schema] schema_size_le [of "JObj o1"] o1(1) by simp
    finally show ?thesis by simp
  next
    case False
    then have "w = schema" using "1.prems" eq by (auto simp: bindR_Inr_iff get_prop_Inr_iff split: jsv.splits)
    then show ?thesis by simp
  qed
qed

text \<open>A property with the default that the macro gives it.\<close>

definition with_default :: "(jsv \<Rightarrow> jsv) \<Rightarrow> jsv \<Rightarrow> jsv result" where
  "with_default macro property = put_prop ''default'' (macro property) property"

text \<open>Outside of strict mode a primitive value ignores the default.\<close>

definition set_default :: "bool \<Rightarrow> (jsv \<Rightarrow> jsv) \<Rightarrow> jsv \<Rightarrow> jsv result" where
  "set_default page macro property =
     (if page \<and> \<not> is_object property \<and> property \<noteq> JUndef \<and> property \<noteq> JNull then Inr property
      else with_default macro property)"

lemma obj_del_set: "obj_del k (obj_set k v o1) = obj_del k o1"
  by (induction o1) (auto simp: obj_del_def)

lemma with_default_size:
  assumes "(name, p) \<in> set (entries_of w)" "with_default macro p = Inr c"
  shows "schema_size c < size w"
proof -
  have "is_object p" "schema_size c \<le> size p"
    using assms(2) size_obj_del [of "''default''"]
    by (auto simp: with_default_def put_prop_def is_object_def schema_size_def obj_del_set split: jsv.splits)
  then show ?thesis using size_entries_of [OF assms(1)] by simp
qed

lemma set_default_size:
  assumes "(name, p) \<in> set (entries_of w)" "set_default page macro p = Inr c"
  shows "schema_size c \<le> size w"
proof (cases "page \<and> \<not> is_object p \<and> p \<noteq> JUndef \<and> p \<noteq> JNull")
  case True
  then have "schema_size c = 0" using assms(2) by (auto simp: set_default_def schema_size_def is_object_def split: jsv.splits)
  then show ?thesis by simp
qed (use with_default_size assms in \<open>fastforce simp: set_default_def intro: less_imp_le\<close>)

definition model_names :: "model obj \<Rightarrow> string set" where
  "model_names models = m_name ` snd ` set models"

lemma finite_model_names [simp]: "finite (model_names models)"
  by (simp add: model_names_def)

lemma model_names_get: "obj_get models k = Some m \<Longrightarrow> m_name m \<in> model_names models"
  by (force simp: model_names_def dest: obj_get_in_set)

text \<open>What a schema says outright: its example, or the first value of its enumeration.\<close>

definition given_sample :: "jsv \<Rightarrow> jsv" where
  "given_sample schema =
     (if prop_of schema ''example'' \<noteq> JUndef then prop_of schema ''example''
      else case (prop_of schema ''items'', prop_of schema ''enum'') of
             (JUndef, JArr (e # es)) \<Rightarrow> e
           | _ \<Rightarrow> JUndef)"

text \<open>\<open>now\<close> is the result of \<open>new Date().toISOString()\<close>.\<close>

definition string_sample :: "string \<Rightarrow> jsv \<Rightarrow> jsv" where
  "string_sample now fmt =
     (if fmt = JStr ''date-time'' then JStr now
      else if fmt = JStr ''date'' then JStr (hd (split_char CHR ''T'' now))
      else JStr ''string'')"

text \<open>
  \<open>ignored\<close> are the names of the models that the schema is inside of: the code adds a name before it follows a
  reference and removes it afterwards. A model has no property \<open>type\<close>, so the sample that stands for a model
  inside itself is always an object. The copy of the page differs from the client's only in not being in strict mode.
\<close>

function schemaToJSON :: "bool \<Rightarrow> string \<Rightarrow> (jsv \<Rightarrow> jsv) \<Rightarrow> model obj \<Rightarrow> string list \<Rightarrow> jsv \<Rightarrow> jsv result" where
  "schemaToJSON page now macro models ignored schema0 =
     bindR (resolveSchema schema0) (\<lambda>schema.
       let typ = js_or (prop_of schema ''type'') (JStr ''object''); items = prop_of schema ''items''
       in if given_sample schema \<noteq> JUndef then Inr (given_sample schema)
          else if truthy (prop_of schema ''$ref'') then
            bindR (simpleRef (prop_of schema ''$ref'')) (\<lambda>r.
              case obj_get models (to_str r) of
                None \<Rightarrow> Inr JUndef
              | Some m \<Rightarrow>
                  if m_name m \<notin> set ignored then schemaToJSON page now macro models (m_name m # ignored) (m_definition m)
                  else Inr (JObj []))
          else if prop_of schema ''default'' \<noteq> JUndef then Inr (prop_of schema ''default'')
          else if typ = JStr ''string'' then Inr (string_sample now (prop_of schema ''format''))
          else if typ = JStr ''integer'' then Inr (JNum 0)
          else if typ = JStr ''number'' then Inr (JNum 0)
          else if typ = JStr ''boolean'' then Inr (JBool True)
          else if typ = JStr ''object'' then
            bindR (mapR (\<lambda>(name, property). bindR (set_default page macro property) (\<lambda>c.
                      bindR (schemaToJSON page now macro models ignored c) (\<lambda>v. Inr (name, v))))
                    (entries_of (prop_of schema ''properties'')))
              (\<lambda>ps. Inr (JObj ps))
          else if typ = JStr ''array'' then
            (case items of
               JArr xs \<Rightarrow> bindR (mapR (schemaToJSON page now macro models ignored) xs) (\<lambda>vs. Inr (JArr vs))
             | JObj o1 \<Rightarrow> bindR (schemaToJSON page now macro models ignored (JObj o1)) (\<lambda>v. Inr (JArr [v]))
             | JUndef \<Rightarrow> Inr (JArr [JObj []])
             | _ \<Rightarrow> Inr (JArr []))
          else Inr JUndef)"
  by pat_completeness auto

lemma items_size:
  "resolveSchema v = Inr w \<Longrightarrow> prop_of w ''items'' \<noteq> JUndef \<Longrightarrow> size (prop_of w ''items'') < schema_size v"
  using schema_size_prop [of "''items''" w] resolveSchema_size [of v w] by simp

lemma items_elem_size:
  "resolveSchema v = Inr w \<Longrightarrow> prop_of w ''items'' = JArr xs \<Longrightarrow> x \<in> set xs \<Longrightarrow> schema_size x < schema_size v"
  using items_size [of v w] size_elem [of x xs] schema_size_le [of x] by simp

lemma items_whole_size: "resolveSchema v = Inr w \<Longrightarrow> JObj o1 = prop_of w ''items'' \<Longrightarrow> schema_size (prop_of w ''items'') < schema_size v"
  using items_size [of v w] schema_size_le [of "JObj o1"] by (metis jsv.distinct(11) order_le_less_trans)

lemma property_size:
  assumes "resolveSchema v = Inr w" "(name, p) \<in> set (entries_of (prop_of w ''properties''))" "set_default page macro p = Inr c"
  shows "schema_size c < schema_size v"
proof -
  have "prop_of w ''properties'' \<noteq> JUndef" using assms(2) by (auto simp: entries_of_def)
  then have "size (prop_of w ''properties'') < schema_size w" by (intro schema_size_prop) simp
  then show ?thesis using set_default_size [OF assms(2,3)] resolveSchema_size [OF assms(1)] by simp
qed

termination schemaToJSON
proof (relation "measures [\<lambda>(page, now, macro, models, ignored, schema). card (model_names models - set ignored),
    \<lambda>(page, now, macro, models, ignored, schema). schema_size schema]", goal_cases)
  case 2
  then show ?case by (auto intro: card_unvisited_less model_names_get simp del: set_simps)
qed (auto dest: property_size items_elem_size [OF _ sym] items_whole_size)

declare schemaToJSON.simps [simp del]

definition schemaToJSON_page :: "string \<Rightarrow> (jsv \<Rightarrow> jsv) \<Rightarrow> model obj \<Rightarrow> string list \<Rightarrow> jsv \<Rightarrow> jsv result" where
  "schemaToJSON_page = schemaToJSON True"

text \<open>\<open>getSampleValue\<close> of a model; \<open>safeLoad\<close> is the parser of js-yaml.\<close>

definition example_of :: "(string \<Rightarrow> jsv result) \<Rightarrow> model \<Rightarrow> jsv result" where
  "example_of safeLoad m =
     (case m_examples m of
        JObj ex \<Rightarrow>
          if truthy (arg ex ''application/json'') then
            (case arg ex ''application/json'' of JStr s \<Rightarrow> safeLoad s | v \<Rightarrow> Inr v)
          else Inr (js_or (prop_of (m_definition m) ''example'') (JObj ex))
      | v \<Rightarrow> Inr (js_or (prop_of (m_definition m) ''example'') v))"

definition getSampleValue ::
  "(string \<Rightarrow> jsv result) \<Rightarrow> string \<Rightarrow> (jsv \<Rightarrow> jsv) \<Rightarrow> model obj \<Rightarrow> string list \<Rightarrow> model \<Rightarrow> jsv result" where
  "getSampleValue safeLoad now macro models ignored m =
     bindR (example_of safeLoad m) (\<lambda>e.
     bindR (put_prop ''example'' e (m_definition m)) (\<lambda>d.
       schemaToJSON False now macro models (m_name m # ignored) d))"

lemma resolveSchema_flat [simp]: "arg o1 ''schema'' = JUndef \<Longrightarrow> resolveSchema (JObj o1) = Inr (JObj o1)"
  by (subst resolveSchema.simps) (simp add: get_prop_def)

section \<open>Samples exist\<close>

text \<open>A schema whose references are strings and whose parts are objects.\<close>

function wf_schema :: "jsv \<Rightarrow> bool" where
  "wf_schema (JObj o1) \<longleftrightarrow>
     (case arg o1 ''$ref'' of JStr s \<Rightarrow> True | v \<Rightarrow> \<not> truthy v)
     \<and> (case arg o1 ''properties'' of
          JObj ps \<Rightarrow> list_all (\<lambda>(name, p). wf_schema p) ps | JArr xs \<Rightarrow> list_all wf_schema xs | JStr s \<Rightarrow> s = [] | _ \<Rightarrow> True)
     \<and> (case arg o1 ''items'' of JArr xs \<Rightarrow> list_all wf_schema xs | JObj o2 \<Rightarrow> wf_schema (JObj o2) | _ \<Rightarrow> True)
     \<and> (case arg o1 ''schema'' of JObj o2 \<Rightarrow> wf_schema (JObj o2) | _ \<Rightarrow> True)"
| "wf_schema JUndef = False" | "wf_schema JNull = False" | "wf_schema (JBool b) = False" | "wf_schema (JNum n) = False"
| "wf_schema (JStr s) = False" | "wf_schema (JArr xs) = False"
  by pat_completeness auto

lemma size_arg: "arg o1 k \<noteq> JUndef \<Longrightarrow> size (arg o1 k) < size (JObj o1)"
  using size_prop_of [of "JObj o1" k] by simp

lemma size_arg_elem: "arg o1 k = JArr xs \<Longrightarrow> x \<in> set xs \<Longrightarrow> size x < size (JObj o1)"
  using size_arg [of o1 k] size_elem [of x xs] by (metis jsv.distinct(9) order_less_trans)

lemma size_arg_entry: "arg o1 k = JObj ps \<Longrightarrow> (name, p) \<in> set ps \<Longrightarrow> size p < size (JObj o1)"
  using size_arg [of o1 k] size_entry [of name p ps] by (metis jsv.distinct(11) order_less_trans)

lemma size_arg_obj: "arg o1 k = JObj o2 \<Longrightarrow> size (JObj o2) < size (JObj o1)"
  using size_arg [of o1 k] by (metis jsv.distinct(11))

termination wf_schema
  by (relation "measure size")
    (auto simp del: jsv.size intro: size_arg_elem size_arg_entry size_arg_obj)

declare wf_schema.simps(1) [simp del]

lemma wf_schema_obj: "wf_schema v \<Longrightarrow> \<exists>o1. v = JObj o1"
  by (cases v) auto

lemma wf_schema_default [simp]: "wf_schema (JObj (obj_set ''default'' d o1)) = wf_schema (JObj o1)"
  by (simp add: wf_schema.simps(1))

lemma wf_schema_example [simp]: "wf_schema (JObj (obj_set ''example'' d o1)) = wf_schema (JObj o1)"
  by (simp add: wf_schema.simps(1))

lemma resolveSchema_wf: "wf_schema v \<Longrightarrow> \<exists>w. resolveSchema v = Inr w \<and> wf_schema w"
proof (induction v rule: resolveSchema.induct)
  case (1 schema)
  obtain o1 where o1: "schema = JObj o1" using wf_schema_obj "1.prems" by blast
  then have get: "get_prop schema ''schema'' = Inr (arg o1 ''schema'')" by (simp add: get_prop_def)
  show ?case
  proof (cases "\<exists>o2. arg o1 ''schema'' = JObj o2")
    case True
    then obtain o2 where o2: "arg o1 ''schema'' = JObj o2" by blast
    then have "wf_schema (JObj o2)" using "1.prems" o1 by (simp add: wf_schema.simps(1))
    then show ?thesis using "1.IH" [OF _ refl] get o2 by (subst resolveSchema.simps) simp
  next
    case False
    then show ?thesis using "1.prems" get by (subst resolveSchema.simps) (auto split: jsv.splits)
  qed
qed

lemma mapR_total: "(\<And>x. x \<in> set xs \<Longrightarrow> \<exists>y. f x = Inr y) \<Longrightarrow> \<exists>ys. mapR f xs = Inr ys"
  by (induction xs) (simp, fastforce)

lemma wf_properties:
  assumes "wf_schema (JObj o1)" "(name, p) \<in> set (entries_of (arg o1 ''properties''))"
  shows "wf_schema p"
proof (cases "arg o1 ''properties''")
  case (JArr xs)
  then have "p \<in> set xs" using assms(2) by (auto simp: entries_of_def dest: set_zip_rightD)
  then show ?thesis using assms(1) JArr by (simp add: wf_schema.simps(1) list_all_iff)
next
  case (JObj ps)
  then show ?thesis using assms by (auto simp: wf_schema.simps(1) entries_of_def list_all_iff)
qed (use assms in \<open>simp_all add: wf_schema.simps(1) entries_of_def\<close>)

lemma wf_set_default: "wf_schema p \<Longrightarrow> \<exists>c. set_default page macro p = Inr c \<and> wf_schema c"
  by (cases p) (simp_all add: set_default_def is_object_def with_default_def put_prop_def)

definition wf_models :: "model obj \<Rightarrow> bool" where
  "wf_models models \<longleftrightarrow> list_all (\<lambda>(k, m). wf_schema (m_definition m)) models"

lemma sample_exists:
  "wf_schema schema \<Longrightarrow> wf_models models \<Longrightarrow> \<exists>v. schemaToJSON page now macro models ignored schema = Inr v"
proof (induction page now macro models ignored schema rule: schemaToJSON.induct)
  case (1 page now macro models ignored schema0)
  obtain schema where w: "resolveSchema schema0 = Inr schema" "wf_schema schema" using resolveSchema_wf "1.prems"(1) by blast
  then obtain o1 where o1: "schema = JObj o1" using wf_schema_obj by blast
  note IH = "1.IH" [OF w(1) refl refl]
  let ?ty = "js_or (prop_of schema ''type'') (JStr ''object'')"
  consider (given) "given_sample schema \<noteq> JUndef"
    | (ref) "given_sample schema = JUndef" "truthy (arg o1 ''$ref'')"
    | (objects) "given_sample schema = JUndef" "\<not> truthy (arg o1 ''$ref'')" "arg o1 ''default'' = JUndef" "?ty = JStr ''object''"
    | (arrays) "given_sample schema = JUndef" "\<not> truthy (arg o1 ''$ref'')" "arg o1 ''default'' = JUndef" "?ty = JStr ''array''"
    | (other) "given_sample schema = JUndef" "\<not> truthy (arg o1 ''$ref'')" "arg o1 ''default'' \<noteq> JUndef \<or> ?ty \<noteq> JStr ''object'' \<and> ?ty \<noteq> JStr ''array''"
    by blast
  then show ?case
  proof cases
    case ref
    then obtain r where r: "arg o1 ''$ref'' = JStr r" using w(2) by (auto simp: o1 wf_schema.simps(1) split: jsv.splits)
    show ?thesis
    proof (cases "obj_get models (to_str (JStr (if starts_with ''#/definitions/'' r then drop (length ''#/definitions/'') r else r)))")
      case None
      then show ?thesis using ref w(1) r by (subst schemaToJSON.simps) (simp add: o1 simpleRef_def)
    next
      case (Some m)
      then have "wf_schema (m_definition m)" using "1.prems"(2) by (auto simp: wf_models_def list_all_iff dest: obj_get_in_set)
      then show ?thesis using IH(1) ref w(1) r Some "1.prems"(2)
        by (subst schemaToJSON.simps) (simp add: o1 simpleRef_def)
    qed
  next
    case objects
    have "\<exists>ps. mapR (\<lambda>(name, property). bindR (set_default page macro property) (\<lambda>c.
                bindR (schemaToJSON page now macro models ignored c) (\<lambda>v. Inr (name, v)))) (entries_of (prop_of schema ''properties'')) = Inr ps"
    proof (rule mapR_total)
      fix x assume x: "x \<in> set (entries_of (prop_of schema ''properties''))"
      obtain name p where np: "x = (name, p)" by (cases x)
      then have "wf_schema p" using wf_properties [of o1 name p] w(2) x o1 by simp
      then obtain c where c: "set_default page macro p = Inr c" "wf_schema c" using wf_set_default by blast
      then have "\<exists>v. schemaToJSON page now macro models ignored c = Inr v" using IH(2) objects x np "1.prems"(2) by (simp add: o1)
      then show "\<exists>y. (case x of (name, property) \<Rightarrow> bindR (set_default page macro property) (\<lambda>c.
                bindR (schemaToJSON page now macro models ignored c) (\<lambda>v. Inr (name, v)))) = Inr y" using c np by auto
    qed
    then show ?thesis using objects w(1) by (subst schemaToJSON.simps) (auto simp: o1)
  next
    case arrays
    show ?thesis
    proof (cases "\<exists>xs. arg o1 ''items'' = JArr xs")
      case True
      then obtain xs where xs: "arg o1 ''items'' = JArr xs" by blast
      have "\<exists>vs. mapR (schemaToJSON page now macro models ignored) xs = Inr vs"
        using IH(3) arrays xs w(2) "1.prems"(2) by (intro mapR_total) (simp add: o1 wf_schema.simps(1) list_all_iff)
      then show ?thesis using arrays w(1) xs by (subst schemaToJSON.simps) (auto simp: o1)
    next
      case False
      show ?thesis
      proof (cases "\<exists>o2. arg o1 ''items'' = JObj o2")
        case True
        then obtain o2 where o2: "arg o1 ''items'' = JObj o2" by blast
        then have "\<exists>v. schemaToJSON page now macro models ignored (JObj o2) = Inr v"
          using IH(4) arrays w(2) "1.prems"(2) by (simp add: o1 wf_schema.simps(1))
        then show ?thesis using arrays w(1) o2 by (subst schemaToJSON.simps) (auto simp: o1)
      next
        case other: False
        then show ?thesis using False arrays w(1) by (subst schemaToJSON.simps) (simp add: o1 split: jsv.splits)
      qed
    qed
  qed (use w(1) in \<open>subst schemaToJSON.simps, auto simp: o1 Let_def\<close>)+
qed

text \<open>C25: Every schema whose parts are objects has a sample: following references comes to an end even when models
  refer to themselves or to each other, and nothing is thrown.\<close>

theorem sample_total:
  assumes "wf_schema schema" "wf_models models"
  shows "\<exists>v. schemaToJSON page now macro models [] schema = Inr v"
  using assms by (rule sample_exists)

definition default_of :: "jsv \<Rightarrow> jsv" where
  "default_of p = prop_of p ''default''"

definition tree_models :: "model obj" where
  "tree_models = [(''Tree'', \<lparr>m_name = ''Tree'', m_definition = JObj [(''properties'',
     JObj [(''left'', JObj [(''$ref'', JStr ''#/definitions/Tree'')]), (''size'', JObj [(''type'', JStr ''integer'')])])], m_examples = JUndef\<rparr>)]"

theorem sample_total_witness:
  "\<exists>v. schemaToJSON False ''1970-01-01T00:00:00.000Z'' default_of tree_models [] (JObj [(''$ref'', JStr ''#/definitions/Tree'')]) = Inr v"
proof -
  have "wf_schema (JObj [(''$ref'', JStr ''#/definitions/Tree'')])" "wf_models tree_models" by code_simp+
  then show ?thesis by (rule sample_total)
qed

section \<open>Samples fit their schemas\<close>

text \<open>What a sample looks like for the type that a schema declares.\<close>

definition fits :: "jsv \<Rightarrow> jsv \<Rightarrow> bool" where
  "fits schema v =
     (let typ = js_or (prop_of schema ''type'') (JStr ''object'')
      in if typ = JStr ''string'' then (case v of JStr s \<Rightarrow> True | _ \<Rightarrow> False)
         else if typ = JStr ''integer'' \<or> typ = JStr ''number'' then (case v of JNum n \<Rightarrow> True | _ \<Rightarrow> False)
         else if typ = JStr ''boolean'' then (case v of JBool b \<Rightarrow> True | _ \<Rightarrow> False)
         else if typ = JStr ''array'' then (case v of JArr xs \<Rightarrow> True | _ \<Rightarrow> False)
         else if typ = JStr ''object'' then
           (case v of JObj ps \<Rightarrow> obj_keys ps = obj_keys (entries_of (prop_of schema ''properties'')) | _ \<Rightarrow> False)
         else v = JUndef)"

lemma mapR_keys:
  assumes "mapR (\<lambda>(name, p). bindR (g p) (\<lambda>c. bindR (f c) (\<lambda>v. Inr (name, v)))) xs = Inr ys"
  shows "obj_keys ys = obj_keys xs"
  using assms by (induction xs arbitrary: ys) (auto simp: bindR_Inr_iff obj_keys_def)

text \<open>C27: The sample of a schema without an example, an enumeration, a reference or a default is a value of the type that
  the schema declares; the sample of an object has exactly the declared properties, in their order.\<close>

theorem sample_fits:
  assumes "schemaToJSON page now macro models ignored schema = Inr v" and "resolveSchema schema = Inr w"
    and "given_sample w = JUndef" "\<not> truthy (prop_of w ''$ref'')" "prop_of w ''default'' = JUndef"
  shows "fits w v"
proof -
  let ?ty = "js_or (prop_of w ''type'') (JStr ''object'')"
  note eq = assms(1) [unfolded schemaToJSON.simps [of page now macro models ignored schema] assms(2) bindR.simps Let_def, simplified assms(3-5) simp_thms if_False if_True]
  consider "?ty = JStr ''object''" | "?ty = JStr ''array''" | "?ty = JStr ''string''"
    | "?ty \<noteq> JStr ''object''" "?ty \<noteq> JStr ''array''" "?ty \<noteq> JStr ''string''" by blast
  then show ?thesis
  proof cases
    case 1
    then obtain ps where "v = JObj ps" "obj_keys ps = obj_keys (entries_of (prop_of w ''properties''))"
      using eq by (auto simp: bindR_Inr_iff dest: mapR_keys)
    then show ?thesis using 1 by (simp add: fits_def Let_def)
  next
    case 2
    then have "\<exists>xs. v = JArr xs" using eq by (auto simp: bindR_Inr_iff split: jsv.splits)
    then show ?thesis using 2 by (auto simp: fits_def Let_def)
  next
    case 3
    then have "\<exists>s. v = JStr s" using eq by (auto simp: string_sample_def)
    then show ?thesis using 3 by (auto simp: fits_def Let_def)
  next
    case 4
    then show ?thesis using eq by (auto simp: fits_def Let_def split: if_splits)
  qed
qed

theorem sample_fits_witness:
  "fits (JObj [(''properties'', JObj [(''size'', JObj [(''type'', JStr ''integer'')])])]) (JObj [(''size'', JNum 0)])"
proof -
  let ?s = "JObj [(''properties'', JObj [(''size'', JObj [(''type'', JStr ''integer'')])])]"
  let ?c = "JObj [(''type'', JStr ''integer''), (''default'', JUndef)]"
  have "resolveSchema ?c = Inr ?c" by simp
  then have "schemaToJSON False [] default_of [] [] ?c = Inr (JNum 0)" by (subst schemaToJSON.simps) (simp add: given_sample_def)
  moreover have "set_default False default_of (JObj [(''type'', JStr ''integer'')]) = Inr ?c" by code_simp
  moreover have "resolveSchema ?s = Inr ?s" by simp
  ultimately have "schemaToJSON False [] default_of [] [] ?s = Inr (JObj [(''size'', JNum 0)])"
    by (subst schemaToJSON.simps) (simp add: given_sample_def entries_of_def)
  moreover have "resolveSchema ?s = Inr ?s" by simp
  moreover have "given_sample ?s = JUndef" "\<not> truthy (prop_of ?s ''$ref'')" "prop_of ?s ''default'' = JUndef" by code_simp+
  ultimately show ?thesis by (rule sample_fits)
qed

text \<open>A model that is an array and contains itself gets an object as the sample of its inner occurrence, since the code
  asks for a property \<open>type\<close> that models do not have.\<close>

lemma array_model_inside_itself:
  "schemaToJSON False [] default_of [(''L'', \<lparr>m_name = ''L'', m_definition = JObj [(''type'', JStr ''array''),
       (''items'', JObj [(''$ref'', JStr ''L'')])], m_examples = JUndef\<rparr>)] [] (JObj [(''$ref'', JStr ''L'')])
   = Inr (JArr [JObj []])"
proof -
  let ?d = "JObj [(''type'', JStr ''array''), (''items'', JObj [(''$ref'', JStr ''L'')])]" and ?r = "JObj [(''$ref'', JStr ''L'')]"
  let ?ms = "[(''L'', \<lparr>m_name = ''L'', m_definition = ?d, m_examples = JUndef\<rparr>)]"
  have rs: "resolveSchema ?d = Inr ?d" "resolveSchema ?r = Inr ?r" by simp_all
  have "schemaToJSON False [] default_of ?ms [''L''] ?r = Inr (JObj [])"
    using rs(2) by (subst schemaToJSON.simps) (simp add: given_sample_def simpleRef_def)
  then have "schemaToJSON False [] default_of ?ms [''L''] ?d = Inr (JArr [JObj []])"
    using rs(1) by (subst schemaToJSON.simps) (simp add: given_sample_def)
  then show ?thesis using rs(2) by (subst schemaToJSON.simps) (simp add: given_sample_def simpleRef_def)
qed

section \<open>Type names\<close>

text \<open>The two functions that name types agree on the types that both know, but for dates and formats of other kinds.\<close>

lemma signature_agrees:
  assumes "typeFromJsonSchema typ fmt = JStr s" "typ \<noteq> JStr ''string'' \<or> fmt = JUndef \<or> fmt = JStr ''date'' \<or> fmt = JStr ''date-time''"
  shows "plain_signature typ fmt = s"
  using assms by (auto simp: typeFromJsonSchema_def plain_signature_def split: if_splits)

end
