(* ===== verification/Xml_Sample.thy ===== *)
theory Xml_Sample
  imports Schema_Sample
begin

text \<open>
  Sample documents in XML (\<open>SwaggerUi.partials.signature\<close> of \<open>swagger-ui.js\<close>, from \<open>wrapTag\<close> to \<open>createSchemaXML\<close>). A
  value that becomes an attribute is an object with a name and a value, everything else is text. The list of
  references that the code is inside of is restored after every reference, so it is an argument here; a
  reference to a missing model stays in it, which no result depends on. The layout of the text is in \<open>Format_Xml\<close>.
\<close>

section \<open>Tags\<close>

definition getErrorMessage :: "string \<Rightarrow> string" where
  "getErrorMessage details = ''<!-- invalid XML'' @ (if details \<noteq> [] then '': '' @ details else []) @ '' -->''"

text \<open>What \<open>join\<close> makes of an element.\<close>

definition join_str :: "jsv \<Rightarrow> string" where
  "join_str v = (if v = JUndef \<or> v = JNull then [] else to_str v)"

definition attr_text :: "jsv \<Rightarrow> string" where
  "attr_text attr = '' '' @ to_str (prop_of attr ''name'') @ ''='' @ [CHR 0x22] @ to_str (prop_of attr ''value'') @ [CHR 0x22]"

definition wrapTag :: "string \<Rightarrow> jsv \<Rightarrow> jsv list \<Rightarrow> string" where
  "wrapTag name value attrs =
     (if name = [] then getErrorMessage ''Node name is not provided''
      else ''<'' @ name @ concat (map attr_text attrs) @ ''>'' @ join_str value @ ''</'' @ name @ ''>'')"

definition getPrefix :: "jsv \<Rightarrow> jsv \<Rightarrow> string" where
  "getPrefix name xml =
     (let result = to_str (js_or name (JStr []))
      in if truthy (prop_of xml ''prefix'') then to_str (prop_of xml ''prefix'') @ '':'' @ result else result)"

text \<open>The attribute that declares the namespace, if there is one.\<close>

definition getNamespace :: "jsv \<Rightarrow> jsv list" where
  "getNamespace xml =
     (if truthy (prop_of xml ''namespace'') then
        [JObj [(''name'', JStr (''xmlns'' @ (if truthy (prop_of xml ''prefix'') then '':'' @ to_str (prop_of xml ''prefix'') else []))),
               (''value'', prop_of xml ''namespace'')]]
      else [])"

definition getInfiniteLoopMessage :: "string \<Rightarrow> string \<Rightarrow> string" where
  "getInfiniteLoopMessage name loopTo = wrapTag name (JStr (''<!-- Infinite loop $ref:'' @ loopTo @ '' -->'')) []"

section \<open>Primitive values\<close>

text \<open>\<open>primitivesMap\<close>; the dates are those of \<open>new Date(1)\<close>, and 1.1 is only ever printed.\<close>

definition primitive_value :: "string \<Rightarrow> jsv \<Rightarrow> jsv" where
  "primitive_value typ fmt =
     (if typ = ''string'' then
        (if fmt = JStr ''date'' then JStr ''1970-01-01''
         else if fmt = JStr ''date-time'' then JStr ''1970-01-01T00:00:00.001Z'' else JStr ''string'')
      else if typ = ''integer'' then JNum 1
      else if typ = ''number'' then JStr ''1.1''
      else JBool True)"

definition createPrimitiveXML :: "string \<Rightarrow> jsv \<Rightarrow> jsv" where
  "createPrimitiveXML name d =
     (case prop_of d ''type'' of
        JStr typ \<Rightarrow>
          if typ \<in> set [''string'', ''integer'', ''number'', ''boolean''] then
            let value = (case prop_of d ''enum'' of
                    JArr es \<Rightarrow> (case es of [] \<Rightarrow> JUndef | e # _ \<Rightarrow> e)
                  | _ \<Rightarrow> js_or (prop_of d ''example'') (primitive_value typ (prop_of d ''format'')))
            in if truthy (prop_of (prop_of d ''xml'') ''attribute'') then JObj [(''name'', JStr name), (''value'', value)]
               else JStr (wrapTag name value (getNamespace (prop_of d ''xml'')))
          else JStr (getErrorMessage [])
      | _ \<Rightarrow> JStr (getErrorMessage []))"

definition getPrimitiveSignature :: "jsv \<Rightarrow> jsv" where
  "getPrimitiveSignature schema =
     (let items = prop_of schema ''items''; typ = js_or (prop_of schema ''type'') (JStr [])
      in if typ = JStr ''object'' then JStr ''Object is not a primitive''
         else if typ = JStr ''array'' then JStr (''Array['' @ to_str (js_or (prop_of items ''format'') (prop_of items ''type'')) @ '']'')
         else js_or (prop_of schema ''format'') typ)"

section \<open>Schemas\<close>

definition ref_name :: "string \<Rightarrow> string" where
  "ref_name r = (if starts_with ''#/definitions/'' r then drop (length ''#/definitions/'') r else r)"

text \<open>The names of descriptors: by reference and directly.\<close>

definition name_by_ref :: "jsv \<Rightarrow> model \<Rightarrow> jsv" where
  "name_by_ref name m =
     (if truthy (prop_of (prop_of (m_definition m) ''xml'') ''name'')
      then js_or name (js_or (prop_of (prop_of (m_definition m) ''xml'') ''name'') (JStr (m_name m)))
      else js_or name (JStr (m_name m)))"

definition name_direct :: "jsv \<Rightarrow> jsv \<Rightarrow> jsv" where
  "name_direct name d = js_or (prop_of (prop_of d ''xml'') ''name'') name"

definition item_key :: "string \<Rightarrow> jsv \<Rightarrow> jsv" where
  "item_key name items = js_or (prop_of (prop_of items ''xml'') ''name'') (JStr name)"

text \<open>The properties of an object: those that become attributes, and the texts of the others.\<close>

definition is_attribute :: "jsv \<Rightarrow> bool" where
  "is_attribute p = truthy (prop_of (prop_of p ''xml'') ''attribute'')"

definition object_text :: "string \<Rightarrow> jsv \<Rightarrow> (jsv \<times> jsv) list \<Rightarrow> string" where
  "object_text name d results =
     wrapTag name
       (JStr (concat (map (\<lambda>(p, r). if is_attribute p then [] else join_str r) results)
              @ (if truthy (prop_of d ''additionalProperties'') then ''<!-- additional elements allowed -->'' else [])))
       (getNamespace (prop_of d ''xml'') @ map snd (filter (\<lambda>(p, r). is_attribute p) results))"

text \<open>
  \<open>descriptorXML\<close> is the switch over the type of a descriptor, with \<open>createArrayXML\<close> and \<open>createObjectXML\<close> in it. A property
  that is only read contributes nothing to the sample of a parameter.
\<close>

function createSchemaXML :: "bool \<Rightarrow> model obj \<Rightarrow> string list \<Rightarrow> jsv \<Rightarrow> jsv \<Rightarrow> jsv result"
  and descriptorXML :: "bool \<Rightarrow> model obj \<Rightarrow> string list \<Rightarrow> string \<Rightarrow> jsv \<Rightarrow> jsv result" where
  "createSchemaXML isParam models modelsToIgnore name d =
     (case prop_of d ''$ref'' of
        JStr r \<Rightarrow>
          (case obj_get models (ref_name r) of
             None \<Rightarrow> Inr (JStr (getErrorMessage []))
           | Some m \<Rightarrow>
               let dname = getPrefix (name_by_ref name m) (prop_of (m_definition m) ''xml'')
               in if r \<in> set modelsToIgnore then Inr (JStr (getInfiniteLoopMessage dname (ref_name r)))
                  else descriptorXML isParam models (r # modelsToIgnore) dname (m_definition m))
      | _ \<Rightarrow>
          if d = JUndef \<or> d = JNull then Inl null_error
          else descriptorXML isParam models modelsToIgnore (getPrefix (name_direct name d) (prop_of d ''xml'')) d)"
| "descriptorXML isParam models modelsToIgnore name d =
     (let typ = js_or (prop_of d ''type'') (JStr ''object''); items = prop_of d ''items''
      in if typ = JStr ''array'' then
           (if \<not> truthy items then Inr (JStr (getErrorMessage []))
            else bindR (createSchemaXML isParam models modelsToIgnore (item_key name items) items) (\<lambda>value.
              Inr (if truthy (prop_of (prop_of d ''xml'') ''wrapped'')
                   then JStr (wrapTag name value (getNamespace (prop_of d ''xml''))) else value)))
         else if typ = JStr ''object'' then
           (if \<not> truthy (prop_of d ''properties'') \<and> \<not> truthy (prop_of d ''additionalProperties'') then Inr (JStr (getErrorMessage []))
            else bindR (mapR (\<lambda>(key, p).
                     if p = JUndef \<or> p = JNull then Inl null_error
                     else if isParam \<and> truthy (prop_of p ''readOnly'') then Inr None
                     else bindR (createSchemaXML isParam models modelsToIgnore (JStr key) p) (\<lambda>r. Inr (Some (p, r))))
                   (entries_of (prop_of d ''properties'')))
                 (\<lambda>rs. Inr (JStr (object_text name d (List.map_filter id rs)))))
         else Inr (createPrimitiveXML name d))"
  by pat_completeness auto

text \<open>References that lead to a model.\<close>

definition model_refs :: "model obj \<Rightarrow> string set" where
  "model_refs models = set (obj_keys models) \<union> (\<lambda>k. ''#/definitions/'' @ k) ` set (obj_keys models)"

lemma finite_model_refs [simp]: "finite (model_refs models)"
  by (simp add: model_refs_def)

lemma model_refs_get:
  assumes "obj_get models (ref_name r) = Some m"
  shows "r \<in> model_refs models"
proof -
  have key: "ref_name r \<in> set (obj_keys models)" using assms by (metis obj_get_None_iff option.distinct(1))
  show ?thesis
  proof (cases "starts_with ''#/definitions/'' r")
    case True
    then have "r = ''#/definitions/'' @ ref_name r" by (auto simp: ref_name_def starts_with_iff)
    then show ?thesis using key by (auto simp: model_refs_def)
  qed (use key in \<open>simp add: model_refs_def ref_name_def\<close>)
qed

definition depth :: "jsv \<Rightarrow> nat" where
  "depth v = (if is_object v then Suc (size v) else 0)"

lemma depth_prop:
  assumes "truthy (prop_of d k)"
  shows "depth (prop_of d k) < depth d"
proof -
  have "prop_of d k \<noteq> JUndef" using assms by auto
  then have "size (prop_of d k) < size d" "is_object d"
    using size_prop_of [of d k] by (auto simp: prop_of_def is_object_def split: jsv.splits)
  then show ?thesis by (simp add: depth_def)
qed

lemma ref_unvisited:
  "obj_get models (ref_name r) = Some m \<Longrightarrow> r \<notin> set ignored \<Longrightarrow>
   card (model_refs models - insert r (set ignored)) < card (model_refs models - set ignored)"
  using card_unvisited_less [of "model_refs models" r ignored] model_refs_get by simp

lemma depth_entry:
  assumes "(key, p) \<in> set (entries_of (prop_of d k))"
  shows "depth p < depth d"
proof -
  have "prop_of d k \<noteq> JUndef" using assms by (auto simp: entries_of_def)
  then have "size (prop_of d k) < size d" "is_object d"
    using size_prop_of [of d k] by (auto simp: prop_of_def is_object_def split: jsv.splits)
  then show ?thesis using size_entries_of [OF assms] by (auto simp: depth_def)
qed

termination createSchemaXML
proof (relation "measures [\<lambda>x. case x of Inl (b, models, ignored, name, d) \<Rightarrow> card (model_refs models - set ignored)
      | Inr (b, models, ignored, name, d) \<Rightarrow> card (model_refs models - set ignored),
    \<lambda>x. case x of Inl (b, models, ignored, name, d) \<Rightarrow> Suc (2 * depth d) | Inr (b, models, ignored, name, d) \<Rightarrow> 2 * depth d]")
qed (auto dest: ref_unvisited depth_prop depth_entry)

declare createSchemaXML.simps [simp del] descriptorXML.simps [simp del]

section \<open>Well-formed markup\<close>

definition plain :: "string \<Rightarrow> bool" where
  "plain s \<longleftrightarrow> set s \<inter> {CHR ''<'', CHR ''>'', CHR ''&'', CHR 0x22} = {}"

definition no_dashes :: "string \<Rightarrow> bool" where
  "no_dashes s \<longleftrightarrow> successively (\<lambda>a b. \<not> (a = CHR ''-'' \<and> b = CHR ''-'')) s"

text \<open>Balanced elements, text without markup, and comments.\<close>

inductive xml_content :: "string \<Rightarrow> bool" where
  chars: "plain t \<Longrightarrow> xml_content t"
| comment: "no_dashes c \<Longrightarrow> xml_content (''<!--'' @ c @ ''-->'')"
| element: "name \<noteq> [] \<Longrightarrow> plain name \<Longrightarrow> (\<And>n v. (n, v) \<in> set as \<Longrightarrow> plain n \<and> plain v) \<Longrightarrow> xml_content c \<Longrightarrow>
    xml_content (''<'' @ name @ concat (map (\<lambda>(n, v). '' '' @ n @ ''='' @ [CHR 0x22] @ v @ [CHR 0x22]) as) @ ''>'' @ c @ ''</'' @ name @ ''>'')"
| append: "xml_content a \<Longrightarrow> xml_content b \<Longrightarrow> xml_content (a @ b)"

function clean :: "jsv \<Rightarrow> bool" where
  "clean JUndef = True" | "clean JNull = True" | "clean (JBool b) = True" | "clean (JNum n) = True"
| "clean (JStr s) = plain s"
| "clean (JArr xs) = list_all clean xs"
| "clean (JObj o1) = list_all (\<lambda>(k, v). plain k \<and> clean v) o1"
  by pat_completeness auto
termination
  by (relation "measure size") (auto dest: size_entry size_elem)

lemma plain_append [simp]: "plain (a @ b) \<longleftrightarrow> plain a \<and> plain b"
  by (auto simp: plain_def)

lemma plain_Nil [simp]: "plain []"
  by (simp add: plain_def)

lemma plain_Cons [simp]: "plain (c # s) \<longleftrightarrow> c \<notin> {CHR ''<'', CHR ''>'', CHR ''&'', CHR 0x22} \<and> plain s"
  by (auto simp: plain_def)

lemma plain_drop: "plain s \<Longrightarrow> plain (drop n s)"
  by (auto simp: plain_def dest: in_set_dropD)

lemma plain_join: "plain sep \<Longrightarrow> list_all plain ws \<Longrightarrow> plain (js_join sep ws)"
  by (induction sep ws rule: js_join.induct) auto

lemma plain_show_nat: "plain (show_nat n)"
proof -
  have "\<not> is_digit c" if "c \<in> {CHR ''<'', CHR ''>'', CHR ''&'', CHR 0x22}" for c using that by (auto simp: is_digit_def)
  then show ?thesis unfolding plain_def using show_nat_digits [of _ n] by blast
qed

lemma plain_show_int: "plain (show_int n)"
  by (simp add: show_int_def plain_show_nat)

lemma plain_to_str: "clean v \<Longrightarrow> plain (to_str v)"
proof (induction v rule: to_str.induct)
  case (6 xs)
  then have "list_all plain (map (\<lambda>x. if x = JUndef \<or> x = JNull then [] else to_str x) xs)" by (auto simp: list_all_iff)
  then show ?case by (simp add: plain_join)
qed (simp_all add: plain_show_int)

lemma clean_arg: "list_all (\<lambda>(k, v). plain k \<and> clean v) o1 \<Longrightarrow> clean (arg o1 k)"
  by (induction o1) auto

lemma clean_prop: "clean v \<Longrightarrow> clean (prop_of v k)"
  by (cases v) (auto simp: clean_arg prop_of_def [of JUndef] prop_of_def [of JNull] prop_of_def [of "JBool _"] prop_of_def [of "JNum _"]
      prop_of_def [of "JStr _"] prop_of_def [of "JArr _"])

lemma clean_or: "clean a \<Longrightarrow> clean b \<Longrightarrow> clean (js_or a b)"
  by (simp add: js_or_def)

lemma clean_entries: "clean v \<Longrightarrow> (k, p) \<in> set (entries_of v) \<Longrightarrow> plain k \<and> clean p"
proof (cases v)
  case (JArr xs)
  assume "clean v" "(k, p) \<in> set (entries_of v)"
  then have "k \<in> show_nat ` set [0..<length xs]" "p \<in> set xs"
    using JArr by (auto simp: entries_of_def dest: set_zip_leftD set_zip_rightD)
  then show ?thesis using \<open>clean v\<close> JArr plain_show_nat by (auto simp: list_all_iff)
next
  case (JStr s)
  assume "clean v" "(k, p) \<in> set (entries_of v)"
  then have "k \<in> show_nat ` set [0..<length s]" "p \<in> (\<lambda>c. JStr [c]) ` set s"
    using JStr set_zip_rightD by (force simp: entries_of_def dest: set_zip_leftD)+
  then show ?thesis using \<open>clean v\<close> JStr plain_show_nat by (auto simp: plain_def)
qed (auto simp: entries_of_def list_all_iff)

section \<open>Samples are well-formed\<close>

definition good_attr :: "jsv \<Rightarrow> bool" where
  "good_attr v \<longleftrightarrow> plain (to_str (prop_of v ''name'')) \<and> plain (to_str (prop_of v ''value''))"

definition good :: "jsv \<Rightarrow> bool" where
  "good v \<longleftrightarrow> good_attr v \<and> xml_content (join_str v)"

lemma content_concat: "(\<And>s. s \<in> set ss \<Longrightarrow> xml_content s) \<Longrightarrow> xml_content (concat ss)"
  by (induction ss) (auto intro: xml_content.intros)

lemma comment_text: "no_dashes c \<Longrightarrow> s = ''<!--'' @ c @ ''-->'' \<Longrightarrow> xml_content s"
  using xml_content.comment by blast

lemma good_JStr: "xml_content s \<Longrightarrow> good (JStr s)"
  by (simp add: good_def good_attr_def join_str_def prop_of_def)

lemma content_error: "no_dashes d \<Longrightarrow> xml_content (getErrorMessage d)"
  by (rule comment_text [of "'' invalid XML'' @ (if d \<noteq> [] then '': '' @ d else []) @ '' ''"])
    (auto simp: getErrorMessage_def no_dashes_def successively_append_iff successively_Cons)

lemma content_wrap:
  assumes "plain name" "xml_content (join_str value)" "\<And>a. a \<in> set attrs \<Longrightarrow> good_attr a"
  shows "xml_content (wrapTag name value attrs)"
proof (cases "name = []")
  case True
  then show ?thesis by (simp add: wrapTag_def content_error no_dashes_def)
next
  case False
  let ?as = "map (\<lambda>a. (to_str (prop_of a ''name''), to_str (prop_of a ''value''))) attrs"
  have "concat (map attr_text attrs) = concat (map (\<lambda>(n, v). '' '' @ n @ ''='' @ [CHR 0x22] @ v @ [CHR 0x22]) ?as)"
    by (rule arg_cong [of _ _ concat]) (simp add: attr_text_def)
  then show ?thesis using False xml_content.element [OF False assms(1) _ assms(2), of ?as] assms(3)
    by (auto simp: wrapTag_def good_attr_def)
qed

lemma good_namespace: "clean xml \<Longrightarrow> a \<in> set (getNamespace xml) \<Longrightarrow> good_attr a"
  by (auto simp: getNamespace_def good_attr_def plain_to_str clean_prop split: if_splits)

lemma plain_prefix: "clean name \<Longrightarrow> clean xml \<Longrightarrow> plain (getPrefix name xml)"
  by (auto simp: getPrefix_def Let_def intro!: plain_to_str clean_or clean_prop)

lemma content_clean: "clean v \<Longrightarrow> xml_content (join_str v)"
  by (auto simp: join_str_def intro!: xml_content.chars plain_to_str)

lemma good_pair:
  assumes "plain name" "clean v"
  shows "good (JObj [(''name'', JStr name), (''value'', v)])"
  using assms by (auto simp: good_def good_attr_def plain_to_str join_str_def intro!: xml_content.chars)

lemma good_primitive:
  assumes name: "plain name" and d: "clean d"
  shows "good (createPrimitiveXML name d)"
proof -
  define val where "val ty = (case prop_of d ''enum'' of JArr es \<Rightarrow> (case es of [] \<Rightarrow> JUndef | e # _ \<Rightarrow> e)
      | _ \<Rightarrow> js_or (prop_of d ''example'') (primitive_value ty (prop_of d ''format'')))" for ty
  have "clean (primitive_value ty fmt)" for ty fmt by (simp add: primitive_value_def)
  then have val: "clean (val ty)" for ty
    unfolding val_def using clean_prop [OF d, of "''enum''"] clean_prop [OF d, of "''example''"]
    by (auto intro!: clean_or split: jsv.splits list.splits)
  then have "good (JStr (wrapTag name (val ty) (getNamespace (prop_of d ''xml''))))" for ty
    using good_namespace [OF clean_prop [OF d]] by (intro good_JStr content_wrap [OF name] content_clean)
  moreover have "good (JStr (getErrorMessage []))" by (simp add: good_JStr content_error no_dashes_def)
  ultimately show ?thesis
    unfolding createPrimitiveXML_def Let_def val_def [symmetric] using good_pair [OF name val]
    by (simp split: jsv.splits)
qed

definition clean_models :: "model obj \<Rightarrow> bool" where
  "clean_models models \<longleftrightarrow> list_all (\<lambda>(k, m). plain k \<and> no_dashes k \<and> plain (m_name m) \<and> clean (m_definition m)) models"

lemma clean_models_get:
  "clean_models models \<Longrightarrow> obj_get models k = Some m \<Longrightarrow> plain k \<and> no_dashes k \<and> plain (m_name m) \<and> clean (m_definition m)"
  by (auto simp: clean_models_def list_all_iff dest!: obj_get_in_set)

lemma good_loop: "plain name \<Longrightarrow> no_dashes r \<Longrightarrow> good (JStr (getInfiniteLoopMessage name r))"
  unfolding getInfiniteLoopMessage_def
  by (intro good_JStr content_wrap)
    (auto simp: join_str_def no_dashes_def successively_append_iff successively_Cons
      intro!: comment_text [of "'' Infinite loop $ref:'' @ r @ '' ''"])

lemma good_object:
  assumes "plain name" "clean d" "\<And>p r. (p, r) \<in> set results \<Longrightarrow> good r"
  shows "good (JStr (object_text name d results))"
proof -
  have "xml_content (concat (map (\<lambda>(p, r). if is_attribute p then [] else join_str r) results))"
    using assms(3) by (intro content_concat) (auto simp: good_def xml_content.chars split: if_splits)
  moreover have "xml_content (if truthy (prop_of d ''additionalProperties'') then ''<!-- additional elements allowed -->'' else [])"
    using comment_text [of "'' additional elements allowed ''"] by (simp add: no_dashes_def xml_content.chars)
  ultimately have "xml_content (join_str (JStr (concat (map (\<lambda>(p, r). if is_attribute p then [] else join_str r) results)
      @ (if truthy (prop_of d ''additionalProperties'') then ''<!-- additional elements allowed -->'' else []))))"
    by (simp add: join_str_def xml_content.append)
  then show ?thesis unfolding object_text_def
    using assms good_namespace [OF clean_prop [OF assms(2)]] by (intro good_JStr content_wrap) (auto simp: good_def)
qed

lemma good_error: "good (JStr (getErrorMessage []))"
  by (simp add: good_JStr content_error no_dashes_def)

lemma mapR_elem: "mapR f xs = Inr ys \<Longrightarrow> y \<in> set ys \<Longrightarrow> \<exists>x \<in> set xs. f x = Inr y"
  by (induction xs arbitrary: ys) (auto simp: bindR_Inr_iff)

lemma sample_good:
  "createSchemaXML isParam models ignored name d = Inr v \<Longrightarrow> clean_models models \<Longrightarrow> clean d \<Longrightarrow> clean name \<Longrightarrow> good v"
  "descriptorXML isParam models ignored nm d = Inr v \<Longrightarrow> clean_models models \<Longrightarrow> clean d \<Longrightarrow> plain nm \<Longrightarrow> good v"
proof (induction isParam models ignored name d and isParam models ignored nm d arbitrary: v and v rule: createSchemaXML_descriptorXML.induct)
  case (1 isParam models ignored name d)
  show ?case
  proof (cases "\<exists>r. prop_of d ''$ref'' = JStr r")
    case True
    then obtain r where r: "prop_of d ''$ref'' = JStr r" by blast
    show ?thesis
    proof (cases "obj_get models (ref_name r)")
      case None
      then show ?thesis using "1.prems"(1) r good_error by (simp add: createSchemaXML.simps)
    next
      case (Some m)
      note m = clean_models_get [OF "1.prems"(2) Some]
      then have "clean (name_by_ref name m)" using "1.prems"(4) by (auto simp: name_by_ref_def intro!: clean_or clean_prop)
      then have dname: "plain (getPrefix (name_by_ref name m) (prop_of (m_definition m) ''xml''))"
        using m by (intro plain_prefix clean_prop) auto
      show ?thesis
      proof (cases "r \<in> set ignored")
        case True
        then show ?thesis using "1.prems"(1) r Some m good_loop [OF dname, of "ref_name r"] by (auto simp: createSchemaXML.simps Let_def)
      next
        case False
        then show ?thesis using "1.IH"(5) [OF r Some refl False] "1.prems" r Some m dname
          by (simp add: createSchemaXML.simps Let_def)
      qed
    qed
  next
    case False
    then have eq: "descriptorXML isParam models ignored (getPrefix (name_direct name d) (prop_of d ''xml'')) d = Inr v"
      and d: "d \<noteq> JUndef" "d \<noteq> JNull"
      using "1.prems"(1) by (auto simp: createSchemaXML.simps split: jsv.splits if_splits)
    have "plain (getPrefix (name_direct name d) (prop_of d ''xml''))"
      using "1.prems"(3,4) by (auto simp: name_direct_def intro!: plain_prefix clean_or clean_prop)
    then show ?thesis using "1.IH" eq d "1.prems"(2,3) False by (cases "prop_of d ''$ref''") auto
  qed
next
  case (2 isParam models ignored nm d)
  let ?ty = "js_or (prop_of d ''type'') (JStr ''object'')" and ?items = "prop_of d ''items''"
  note eq = "2.prems"(1) [unfolded descriptorXML.simps [of isParam models ignored nm d] Let_def]
  consider (arr) "?ty = JStr ''array''" | (ob) "?ty = JStr ''object''" | (prim) "?ty \<noteq> JStr ''array''" "?ty \<noteq> JStr ''object''" by blast
  then show ?case
  proof cases
    case arr
    show ?thesis
    proof (cases "truthy ?items")
      case True
      then obtain w where w: "createSchemaXML isParam models ignored (item_key nm ?items) ?items = Inr w"
          "v = (if truthy (prop_of (prop_of d ''xml'') ''wrapped'') then JStr (wrapTag nm w (getNamespace (prop_of d ''xml''))) else w)"
        using eq arr by (auto simp: bindR_Inr_iff)
      have "clean (item_key nm ?items)" using "2.prems"(3,4) by (auto simp: item_key_def intro!: clean_or clean_prop)
      then have "good w" using "2.IH"(1) [OF refl refl arr] True w(1) "2.prems"(2,3) clean_prop by simp
      then show ?thesis using w(2) "2.prems"(3,4) good_namespace [OF clean_prop [OF "2.prems"(3)]]
        by (auto simp: good_def [of w] intro!: good_JStr content_wrap)
    qed (use eq arr good_error in auto)
  next
    case ob
    show ?thesis
    proof (cases "truthy (prop_of d ''properties'') \<or> truthy (prop_of d ''additionalProperties'')")
      case True
      then obtain rs where rs: "mapR (\<lambda>(key, p).
                     if p = JUndef \<or> p = JNull then Inl null_error
                     else if isParam \<and> truthy (prop_of p ''readOnly'') then Inr None
                     else bindR (createSchemaXML isParam models ignored (JStr key) p) (\<lambda>r. Inr (Some (p, r))))
                   (entries_of (prop_of d ''properties'')) = Inr rs" "v = JStr (object_text nm d (List.map_filter id rs))"
        using eq ob by (auto simp: bindR_Inr_iff)
      have "good r" if r: "Some (p, r) \<in> set rs" for p r
      proof -
        obtain key q where kq: "(key, q) \<in> set (entries_of (prop_of d ''properties''))"
            "createSchemaXML isParam models ignored (JStr key) q = Inr r" "q \<noteq> JUndef" "q \<noteq> JNull" "\<not> (isParam \<and> truthy (prop_of q ''readOnly''))"
          using mapR_elem [OF rs(1) r] by (auto simp: bindR_Inr_iff split: if_splits)
        then have "plain key" "clean q" using clean_entries [OF clean_prop [OF "2.prems"(3)] kq(1)] by simp_all
        then show ?thesis using "2.IH"(2) [OF refl refl _ ob] kq True "2.prems"(2) ob by auto
      qed
      then show ?thesis unfolding rs(2)
        using "2.prems"(3,4) by (intro good_object) (auto simp: List.map_filter_def)
    qed (use eq ob good_error in auto)
  next
    case prim
    then have "v = createPrimitiveXML nm d" using eq by simp
    then show ?thesis using good_primitive "2.prems"(3,4) by simp
  qed
qed

text \<open>C26: If the names, examples and enumerations of the schemas contain no markup characters, the XML sample is
  well-formed: elements are balanced, attributes quoted, comments closed, also for models that contain
  themselves, invalid schemas and missing names.\<close>

theorem xml_sample_wellformed:
  assumes "createSchemaXML isParam models [] name d = Inr (JStr s)" "clean_models models" "clean d" "clean name"
  shows "xml_content s"
  using sample_good(1) [OF assms] by (simp add: good_def join_str_def)

definition tree_ref :: jsv where
  "tree_ref = JObj [(''$ref'', JStr ''#/definitions/Tree'')]"

lemma tree_sample:
  "createSchemaXML False tree_models [] JUndef tree_ref
     = Inr (JStr ''<Tree><left><!-- Infinite loop $ref:Tree --></left><size>1</size></Tree>'')"
proof -
  define tree where "tree = \<lparr>m_name = ''Tree'', m_definition = JObj [(''properties'', JObj [(''left'', tree_ref), (''size'', JObj [(''type'', JStr ''integer'')])])],
      m_examples = JUndef\<rparr>"
  have one: "show_nat (Suc 0) = ''1''"
    by code_simp
  have get: "obj_get tree_models (ref_name ''#/definitions/Tree'') = Some tree"
    by (simp add: tree_models_def tree_def tree_ref_def ref_name_def)
  have "createSchemaXML False tree_models [''#/definitions/Tree''] (JStr ''left'') tree_ref
      = Inr (JStr ''<left><!-- Infinite loop $ref:Tree --></left>'')"
    using get by (subst createSchemaXML.simps) (simp add: tree_ref_def tree_def name_by_ref_def getPrefix_def getInfiniteLoopMessage_def wrapTag_def
        join_str_def ref_name_def prop_of_def [of JUndef])
  moreover have "createSchemaXML False tree_models [''#/definitions/Tree''] (JStr ''size'') (JObj [(''type'', JStr ''integer'')])
      = Inr (JStr ''<size>1</size>'')"
    using one by (simp add: createSchemaXML.simps descriptorXML.simps createPrimitiveXML_def name_direct_def getPrefix_def primitive_value_def wrapTag_def join_str_def
        getNamespace_def prop_of_def [of JUndef] show_int_def)
  ultimately have "descriptorXML False tree_models [''#/definitions/Tree''] ''Tree'' (m_definition tree)
      = Inr (JStr ''<Tree><left><!-- Infinite loop $ref:Tree --></left><size>1</size></Tree>'')"
    by (subst descriptorXML.simps) (simp add: tree_def entries_of_def tree_ref_def object_text_def is_attribute_def wrapTag_def join_str_def
        getNamespace_def prop_of_def [of JUndef] List.map_filter_simps)
  then show ?thesis
    using get by (subst createSchemaXML.simps) (simp add: tree_ref_def tree_def name_by_ref_def getPrefix_def prop_of_def [of JUndef])
qed

theorem xml_sample_wellformed_witness:
  "xml_content ''<Tree><left><!-- Infinite loop $ref:Tree --></left><size>1</size></Tree>''"
proof -
  have "clean_models tree_models" "clean tree_ref" "clean JUndef" by code_simp+
  with tree_sample show ?thesis by (rule xml_sample_wellformed)
qed

text \<open>Text is not escaped: an example with markup characters breaks the document.\<close>

lemma xml_not_escaped:
  "createPrimitiveXML ''t'' (JObj [(''type'', JStr ''string''), (''example'', JStr ''a<b'')]) = JStr ''<t>a<b</t>''"
  by code_simp

end
