(* ===== verification/Format_Xml.thy ===== *)
theory Format_Xml
  imports Xml_Sample
begin

text \<open>
  The layout of XML: \<open>formatXml\<close> of \<open>swagger-ui.js\<close>, which the page has twice, and \<open>createXMLSample\<close>. The three regular
  expressions work line by line. A dot matches neither the line feed nor the carriage return; texts here have no other
  line terminators.
\<close>

section \<open>Lines\<close>

abbreviation LF :: char where "LF \<equiv> CHR 0x0A"
abbreviation CR :: char where "CR \<equiv> CHR 0x0D"

text \<open>\<open>/(>)(<)(\/*)/g\<close>: a line feed between two tags.\<close>

fun break_tags :: "string \<Rightarrow> string" where
  "break_tags (a # b # s) = (if a = CHR ''>'' \<and> b = CHR ''<'' then a # LF # break_tags (b # s) else a # break_tags (b # s))"
| "break_tags s = s"

text \<open>A replacement in every line that ends with a line feed.\<close>

definition on_lines :: "(string \<Rightarrow> string) \<Rightarrow> string \<Rightarrow> string" where
  "on_lines f s = (let ls = split_char LF s in js_join [LF] (map f (butlast ls) @ [last ls]))"

text \<open>A match ends at the line feed and so starts behind the last carriage return of the line.\<close>

definition behind_cr :: "(string \<Rightarrow> string) \<Rightarrow> string \<Rightarrow> string" where
  "behind_cr f u = (let n = length (takeWhile (\<lambda>c. c \<noteq> CR) (rev u)); k = length u - n in take k u @ f (drop k u))"

text \<open>\<open>/[ ]*(.*)[ ]+\n/g\<close>: of a line that ends with a blank, the blanks in front and the last one go.\<close>

definition trim_blanks :: "string \<Rightarrow> string" where
  "trim_blanks w =
     (if w \<noteq> [] \<and> last w = CHR '' '' then butlast (dropWhile (\<lambda>c. c = CHR '' '') w) else w)"

text \<open>\<open>/(<.+>)(.+\n)/g\<close>: a line feed behind the last \<open>>\<close> that has text behind it.\<close>

definition tag_end :: "string \<Rightarrow> nat" where
  "tag_end w = length w - Suc (length (takeWhile (\<lambda>c. c \<noteq> CHR ''>'') (rev (butlast w))))"

definition break_content :: "string \<Rightarrow> string" where
  "break_content w =
     (let i = length (takeWhile (\<lambda>c. c \<noteq> CHR ''<'') w); k = tag_end w
      in if i + 3 \<le> k then take k w @ [LF] @ drop k w else w)"

section \<open>Kinds of lines\<close>

datatype kind = Single | Closing | Opening | Other

fun found :: "(string \<Rightarrow> bool) \<Rightarrow> string \<Rightarrow> bool" where
  "found p [] = p []"
| "found p (c # s) = (p (c # s) \<or> found p s)"

definition dots :: "string \<Rightarrow> string" where
  "dots s = takeWhile (\<lambda>c. c \<noteq> CR \<and> c \<noteq> LF) s"

definition single_at :: "string \<Rightarrow> bool" where
  "single_at s \<longleftrightarrow> starts_with ''<'' s \<and> found (starts_with ''/>'') (drop 1 (dots (drop 1 s)))"

definition closing_at :: "string \<Rightarrow> bool" where
  "closing_at s \<longleftrightarrow> starts_with ''</'' s \<and> CHR ''>'' \<in> set (drop 1 (dots (drop 2 s)))"

definition opening_at :: "string \<Rightarrow> bool" where
  "opening_at s = (case s of a # b # t \<Rightarrow> a = CHR ''<'' \<and> b \<noteq> CHR ''!'' \<and> b \<noteq> CHR ''?'' \<and> CHR ''>'' \<in> set (dots t) | _ \<Rightarrow> False)"

definition line_kind :: "string \<Rightarrow> kind" where
  "line_kind ln =
     (if found single_at ln then Single else if found closing_at ln then Closing
      else if found opening_at ln then Opening else Other)"

fun transitions :: "kind \<Rightarrow> kind \<Rightarrow> int" where
  "transitions Opening Closing = 0"
| "transitions Opening _ = 1"
| "transitions _ Closing = -1"
| "transitions _ _ = 0"

section \<open>Layout\<close>

record layout =
  formatted :: string
  indent :: int
  lastType :: kind

text \<open>The loop counts down for a negative indentation.\<close>

definition padding :: "int \<Rightarrow> string" where
  "padding n = concat (replicate (nat \<bar>n\<bar>) ''  '')"

definition format_line :: "string \<Rightarrow> layout \<Rightarrow> layout" where
  "format_line ln st =
     (let t = line_kind ln; n = indent st + transitions (lastType st) t
      in \<lparr>formatted = (if lastType st = Opening \<and> t = Closing then butlast (formatted st) @ ln @ [LF]
                       else formatted st @ padding n @ ln @ [LF]),
          indent = n, lastType = t\<rparr>)"

definition format_lines :: "string list \<Rightarrow> string" where
  "format_lines lns = formatted (fold format_line lns \<lparr>formatted = [], indent = 0, lastType = Other\<rparr>)"

definition formatXml :: "string \<Rightarrow> string" where
  "formatXml xml =
     format_lines (split_char LF (on_lines (behind_cr break_content) (on_lines (behind_cr trim_blanks) (break_tags xml))))"

text \<open>The copy of the view of an operation first turns the line ends of other systems into line feeds.\<close>

definition formatXml_view :: "string \<Rightarrow> string" where
  "formatXml_view xml = formatXml (js_join [LF] (split_str [CR, LF] xml))"

definition createXMLSample :: "bool \<Rightarrow> model obj \<Rightarrow> jsv \<Rightarrow> jsv \<Rightarrow> string result" where
  "createXMLSample isParam models name d =
     bindR (createSchemaXML isParam models [] name d) (\<lambda>v.
       Inr (formatXml (''<?xml version='' @ [CHR 0x22] @ ''1.0'' @ [CHR 0x22] @ ''?>'' @ to_str v)))"

section \<open>Only blanks change\<close>

definition visible :: "string \<Rightarrow> string" where
  "visible s = filter (\<lambda>c. c \<noteq> CHR '' '' \<and> c \<noteq> LF) s"

lemma visible_append [simp]: "visible (s @ t) = visible s @ visible t"
  by (simp add: visible_def)

lemma visible_Nil [simp]: "visible [] = []"
  by (simp add: visible_def)

lemma visible_LF [simp]: "visible (LF # s) = visible s"
  by (simp add: visible_def)

lemma visible_take_drop: "visible (take k w) @ visible (drop k w) = visible w"
  by (simp flip: visible_append)

lemma visible_break_tags: "visible (break_tags s) = visible s"
  by (induction s rule: break_tags.induct) (auto simp: visible_def)

lemma visible_join: "visible (js_join [LF] ls) = concat (map visible ls)"
  by (induction "[LF]" ls rule: js_join.induct) (auto simp: visible_def)

lemma visible_split: "concat (map visible (split_char LF s)) = visible s"
  using visible_join [of "split_char LF s"] by (simp add: join_split_char)

lemma visible_on_lines:
  assumes "\<And>u. visible (f u) = visible u"
  shows "visible (on_lines f s) = visible s"
proof -
  have "visible (on_lines f s) = concat (map visible (map f (butlast (split_char LF s)) @ [last (split_char LF s)]))"
    by (simp add: on_lines_def Let_def visible_join)
  also have "\<dots> = concat (map visible (butlast (split_char LF s) @ [last (split_char LF s)]))"
    by (simp add: assms comp_def del: append_butlast_last_id)
  also have "\<dots> = visible s" by (simp add: visible_split del: map_append)
  finally show ?thesis .
qed

lemma visible_behind_cr: "(\<And>u. visible (f u) = visible u) \<Longrightarrow> visible (behind_cr f u) = visible u"
  by (simp add: behind_cr_def Let_def visible_take_drop)

lemma visible_dropWhile: "visible (dropWhile (\<lambda>c. c = CHR '' '') w) = visible w"
  by (induction w) (auto simp: visible_def)

lemma visible_butlast: "w = [] \<or> last w = CHR '' '' \<or> last w = LF \<Longrightarrow> visible (butlast w) = visible w"
  by (induction w rule: rev_induct) (auto simp: visible_def)

lemma visible_trim: "visible (trim_blanks w) = visible w"
proof (cases "w \<noteq> [] \<and> last w = CHR '' ''")
  case True
  let ?d = "dropWhile (\<lambda>c. c = CHR '' '') w"
  have "?d = [] \<or> last ?d = last w" by (metis last_appendR takeWhile_dropWhile_id)
  then show ?thesis using True visible_butlast [of ?d] visible_dropWhile [of w] by (auto simp: trim_blanks_def)
qed (auto simp: trim_blanks_def)

lemma visible_break_content: "visible (break_content w) = visible w"
  by (simp add: break_content_def Let_def visible_take_drop)

lemma visible_padding [simp]: "visible (padding n) = []"
  by (auto simp: padding_def visible_def filter_empty_conv)

lemma format_line_visible:
  assumes "formatted st = [] \<or> last (formatted st) = LF"
  shows "visible (formatted (format_line ln st)) = visible (formatted st) @ visible ln"
    and "last (formatted (format_line ln st)) = LF"
  using visible_butlast [of "formatted st"] assms by (auto simp: format_line_def Let_def)

lemma format_lines_visible:
  "formatted st = [] \<or> last (formatted st) = LF \<Longrightarrow>
   visible (formatted (fold format_line lns st)) = visible (formatted st) @ concat (map visible lns)"
  by (induction lns arbitrary: st) (simp_all add: format_line_visible)

text \<open>Laying out a text of XML changes nothing but blanks and line feeds: all other characters are kept, in their order.\<close>

theorem formatXml_keeps: "visible (formatXml xml) = visible xml"
proof -
  have "visible (formatXml xml)
    = visible (on_lines (behind_cr break_content) (on_lines (behind_cr trim_blanks) (break_tags xml)))"
    by (simp add: formatXml_def format_lines_def format_lines_visible visible_split)
  then show ?thesis
    by (simp add: visible_on_lines visible_behind_cr visible_trim visible_break_content visible_break_tags)
qed

end
