(* ===== verification/Schema_Html.thy ===== *)
theory Schema_Html
  imports Schema_Sample
begin

text \<open>
  The markup of a model and of the models it refers to: \<open>schemaToHTML\<close> of \<open>schema-markup\<close> (module 7 of
  \<open>swagger-ui.js\<close>) and \<open>getModelSignature\<close>, the copy that the page uses. The flag \<open>page\<close> tells the copies apart. Where they
  differ: the page looks up the model of a titled reference by the reference, and prints the description and the
  enumeration of every schema with its options, not only those of properties, and it is not in strict mode. A name that is not a string or a number is not represented.
\<close>

section \<open>Pieces of markup\<close>

definition quoted :: "string \<Rightarrow> string" where
  "quoted s = [CHR 0x22] @ s @ [CHR 0x22]"

definition span :: "string \<Rightarrow> string \<Rightarrow> string" where
  "span cls body = ''<span class='' @ quoted cls @ ''>'' @ body @ ''</span>''"

text \<open>\<open>v.join(sep)\<close> of an array.\<close>

definition join_values :: "string \<Rightarrow> jsv list \<Rightarrow> string" where
  "join_values sep xs = js_join sep (map (\<lambda>x. if x = JUndef \<or> x = JNull then [] else to_str x) xs)"

definition option_row :: "string \<Rightarrow> jsv \<Rightarrow> string" where
  "option_row label v = optionHtml label (to_str v)"

definition option_if :: "string \<Rightarrow> jsv \<Rightarrow> string" where
  "option_if label v = (if truthy v then option_row label v else [])"

definition flag_if :: "string \<Rightarrow> jsv \<Rightarrow> string" where
  "flag_if label v = (if truthy v then optionHtml label ''true'' else [])"

text \<open>The type that the options of a schema are about: that of the items of an array.\<close>

definition option_type :: "jsv \<Rightarrow> jsv" where
  "option_type schema =
     (let typ = js_or (prop_of schema ''type'') (JStr ''object'')
      in if typ = JStr ''array'' then
           (case prop_of schema ''items'' of
              JObj o1 \<Rightarrow> if arg o1 ''type'' \<noteq> JUndef then arg o1 ''type'' else JStr ''object''
            | _ \<Rightarrow> JStr ''object'')
         else typ)"

definition is_number_type :: "jsv \<Rightarrow> bool" where
  "is_number_type typ \<longleftrightarrow> typ = JStr ''number'' \<or> typ = JStr ''integer''"

definition type_options :: "jsv \<Rightarrow> string" where
  "type_options schema =
     (if option_type schema = JStr ''string'' then
        option_if ''Min. Length'' (prop_of schema ''minLength'')
        @ option_if ''Max. Length'' (prop_of schema ''maxLength'')
        @ option_if ''Reg. Exp.'' (prop_of schema ''pattern'')
      else if is_number_type (option_type schema) then
        option_if ''Min. Value'' (prop_of schema ''minimum'')
        @ flag_if ''Exclusive Min.'' (prop_of schema ''exclusiveMinimum'')
        @ option_if ''Max. Value'' (prop_of schema ''maximum'')
        @ flag_if ''Exclusive Max.'' (prop_of schema ''exclusiveMaximum'')
        @ option_if ''Multiple Of'' (prop_of schema ''multipleOf'')
      else [])"

definition array_options :: "jsv \<Rightarrow> string" where
  "array_options schema =
     (if prop_of schema ''type'' = JStr ''array'' then
        option_if ''Min. Items'' (prop_of schema ''minItems'')
        @ option_if ''Max. Items'' (prop_of schema ''maxItems'')
        @ flag_if ''Unique Items'' (prop_of schema ''uniqueItems'')
        @ option_if ''Coll. Format'' (prop_of schema ''collectionFormat'')
      else [])"

definition enum_option :: "jsv \<Rightarrow> string" where
  "enum_option schema =
     (case (prop_of schema ''items'', prop_of schema ''enum'') of
        (JUndef, JArr xs) \<Rightarrow>
          optionHtml ''Enum''
            (if is_number_type (option_type schema) then join_values '', '' xs
             else quoted (join_values (quoted '', '') xs))
      | _ \<Rightarrow> [])"

text \<open>\<open> = ['a', 'b']\<close> behind a type; \<open>enum\<close> that is not an array has no \<open>join\<close>.\<close>

definition prop_vals :: "jsv \<Rightarrow> string result" where
  "prop_vals enum =
     (if truthy enum then
        (case enum of
           JArr xs \<Rightarrow> Inr ('' = '' @ span ''propVals'' ([CHR 0x5B, CHR 0x27] @ join_values [CHR 0x27, CHR 0x2C, CHR 0x20, CHR 0x27] xs
             @ [CHR 0x27, CHR 0x5D]))
         | _ \<Rightarrow> Inl (no_method ''join''))
      else Inr [])"

definition prop_desc :: "jsv \<Rightarrow> string" where
  "prop_desc d = (if d \<noteq> JUndef then '': '' @ span ''propDesc'' (to_str d) else [])"

definition schema_options :: "jsv \<Rightarrow> string" where
  "schema_options schema =
     (if prop_of schema ''default'' \<noteq> JUndef then option_row ''Default'' (prop_of schema ''default'') else [])
     @ type_options schema @ array_options schema @ enum_option schema"

definition primitiveToOptionsHTML :: "bool \<Rightarrow> jsv \<Rightarrow> string \<Rightarrow> string result" where
  "primitiveToOptionsHTML page schema html0 =
     bindR (if page then prop_vals (prop_of schema ''enum'') else Inr []) (\<lambda>vals.
       let html = (if page then html0 @ prop_desc (prop_of schema ''description'') @ vals else html0)
       in Inr (if schema_options schema \<noteq> [] then
                 span ''propWrap'' (html @ ''<table class='' @ quoted ''optionsWrapper'' @ ''><tr><th colspan='' @ quoted ''2'' @ ''>''
                   @ to_str (option_type schema) @ ''</th></tr>'' @ schema_options schema @ ''</table>'')
               else html))"

section \<open>References\<close>

text \<open>What \<open>references\<close> and \<open>inlineModels\<close> hold. A model that does not exist is shown as an empty object.\<close>

record pending =
  references :: "jsv obj"
  inlineModels :: nat

definition note_reference :: "jsv \<Rightarrow> jsv \<Rightarrow> pending \<Rightarrow> string \<times> pending" where
  "note_reference modelName d p = (to_str modelName, p\<lparr>references := obj_set (to_str modelName) d (references p)\<rparr>)"

definition definition_of :: "model obj \<Rightarrow> jsv \<Rightarrow> jsv" where
  "definition_of models name = (case obj_get models (to_str name) of None \<Rightarrow> JObj [] | Some m \<Rightarrow> m_definition m)"

definition addReference :: "bool \<Rightarrow> model obj \<Rightarrow> jsv \<Rightarrow> jsv \<Rightarrow> pending \<Rightarrow> (string \<times> pending) result" where
  "addReference page models schema name p =
     bindR (get_prop schema ''$ref'') (\<lambda>ref.
       if truthy ref then
         bindR (if page \<or> \<not> truthy (prop_of schema ''title'') then simpleRef ref else Inr JUndef) (\<lambda>r.
           let modelName = js_or (prop_of schema ''title'') r
           in Inr (note_reference modelName (definition_of models (if page then r else modelName)) p))
       else if name = JUndef then
         if truthy (prop_of schema ''title'') then Inr (note_reference (prop_of schema ''title'') schema p)
         else let n = inlineModels p + 1
              in Inr (note_reference (JStr (''Inline Model '' @ show_nat n)) schema (p\<lparr>inlineModels := n\<rparr>))
       else Inr (note_reference name (JObj []) p))"

text \<open>\<open>addReference(schema, simpleRef(schema.$ref))\<close>.\<close>

definition addNamed :: "bool \<Rightarrow> model obj \<Rightarrow> jsv \<Rightarrow> pending \<Rightarrow> (string \<times> pending) result" where
  "addNamed page models schema p =
     bindR (simpleRef (prop_of schema ''$ref'')) (\<lambda>r. addReference page models schema r p)"

text \<open>\<open>_.map(xs, f).join(sep)\<close> where \<open>f\<close> adds references.\<close>

fun map_pending :: "('a \<Rightarrow> pending \<Rightarrow> (string \<times> pending) result) \<Rightarrow> 'a list \<Rightarrow> pending \<Rightarrow> (string list \<times> pending) result" where
  "map_pending f [] p = Inr ([], p)"
| "map_pending f (x # xs) p =
     bindR (f x p) (\<lambda>(s, q). bindR (map_pending f xs q) (\<lambda>(ss, r). Inr (s # ss, r)))"

definition container_type :: "jsv \<Rightarrow> bool" where
  "container_type typ \<longleftrightarrow> typ = JStr ''array'' \<or> typ = JStr ''object''"

text \<open>The items of a tuple get their index as the name.\<close>

definition array_type :: "bool \<Rightarrow> model obj \<Rightarrow> jsv \<Rightarrow> pending \<Rightarrow> (string \<times> pending) result" where
  "array_type page models items p =
     (case items of
        JArr xs \<Rightarrow>
          bindR (map_pending (\<lambda>(i, x). addReference page models x (JNum (int i))) (enumerate 0 xs) p) (\<lambda>(ss, q).
            Inr (js_join '','' ss, q))
      | JObj o1 \<Rightarrow>
          if arg o1 ''$ref'' = JUndef then
            if arg o1 ''type'' \<noteq> JUndef \<and> \<not> container_type (arg o1 ''type'') then Inr (to_str (arg o1 ''type''), p)
            else addReference page models items JUndef p
          else addNamed page models items p
      | _ \<Rightarrow> Inr (''object'', p))"

definition primitive_type :: "bool \<Rightarrow> model obj \<Rightarrow> jsv \<Rightarrow> pending \<Rightarrow> (string \<times> pending) result" where
  "primitive_type page models schema p =
     (let typ = js_or (prop_of schema ''type'') (JStr ''object'')
      in if truthy (prop_of schema ''$ref'') then addNamed page models schema p
         else if typ = JStr ''object'' then
           if prop_of schema ''properties'' \<noteq> JUndef then addReference page models schema JUndef p else Inr (''object'', p)
         else if typ = JStr ''array'' then
           bindR (array_type page models (prop_of schema ''items'') p) (\<lambda>(s, q). Inr (''Array['' @ s @ '']'', q))
         else Inr (to_str typ, p))"

definition primitiveToHTML :: "bool \<Rightarrow> model obj \<Rightarrow> jsv \<Rightarrow> pending \<Rightarrow> (string \<times> pending) result" where
  "primitiveToHTML page models schema p =
     bindR (primitive_type page models schema p) (\<lambda>(s, q). Inr (span ''propType'' s, q))"

section \<open>One model\<close>

text \<open>\<open>_.indexOf(required, name) >= 0\<close>, where a string is searched by characters.\<close>

definition is_required :: "jsv \<Rightarrow> string \<Rightarrow> bool" where
  "is_required required name = (case required of
      JArr xs \<Rightarrow> JStr name \<in> set xs
    | JStr s \<Rightarrow> name \<in> (\<lambda>c. [c]) ` set s
    | _ \<Rightarrow> False)"

text \<open>A property that refers to a primitive model is shown as that model.\<close>

definition shown_schema :: "bool \<Rightarrow> (jsv \<Rightarrow> jsv) \<Rightarrow> model obj \<Rightarrow> jsv \<Rightarrow> (jsv \<times> jsv) result" where
  "shown_schema page macro models property =
     bindR (set_default page macro property) (\<lambda>c0.
     bindR (resolveSchema c0) (\<lambda>c1.
       let desc = js_or (prop_of property ''description'') (prop_of c1 ''description'')
       in if prop_of c1 ''$ref'' = JUndef then Inr (desc, c1)
          else bindR (simpleRef (prop_of c1 ''$ref'')) (\<lambda>r.
            case obj_get models (to_str r) of
              None \<Rightarrow> Inr (desc, c1)
            | Some m \<Rightarrow>
                let typ = prop_of (m_definition m) ''type''
                in if typ = JUndef \<or> container_type typ then Inr (desc, c1)
                   else bindR (resolveSchema (m_definition m)) (\<lambda>c2. Inr (desc, c2)))))"

definition propertyToHTML :: "bool \<Rightarrow> (jsv \<Rightarrow> jsv) \<Rightarrow> model obj \<Rightarrow> jsv \<Rightarrow> string \<times> jsv \<Rightarrow> pending \<Rightarrow> (string \<times> pending) result" where
  "propertyToHTML page macro models required np p =
     (case np of (name, property) \<Rightarrow>
        bindR (shown_schema page macro models property) (\<lambda>(desc, c).
        bindR (primitiveToHTML page models c p) (\<lambda>(prim, q).
        bindR (if page then Inr [] else prop_vals (prop_of c ''enum'')) (\<lambda>vals.
          let req = is_required required name; readOnly = truthy (prop_of property ''readOnly'');
              html = span (''propName '' @ (if req then ''required'' else [])) name @ '' ('' @ prim
                @ (if req then [] else '', '' @ span ''propOptKey'' ''optional'')
                @ (if readOnly then '', '' @ span ''propReadOnly'' ''read only'' else []) @ '')''
                @ (if page then [] else prop_desc desc @ vals)
          in bindR (primitiveToOptionsHTML page c html) (\<lambda>body.
               Inr (''<div'' @ (if readOnly then '' class='' @ quoted ''readOnly'' else []) @ ''>'' @ body, q))))))"

text \<open>An item of a tuple, or the one schema of the items, which is shown as an object only when its type is missing.\<close>

definition itemToHTML :: "bool \<Rightarrow> model obj \<Rightarrow> bool \<Rightarrow> jsv \<Rightarrow> pending \<Rightarrow> (string \<times> pending) result" where
  "itemToHTML page models tuple item p =
     bindR (get_prop item ''type'') (\<lambda>t.
       let typ = js_or t (JStr ''object'')
       in if prop_of item ''$ref'' = JUndef then
            if container_type typ then
              if (if tuple then typ = JStr ''object'' else t = JUndef \<or> t = JStr ''object'') \<and> prop_of item ''properties'' = JUndef
              then Inr (''object'', p)
              else addReference page models item JUndef p
            else bindR (primitiveToOptionsHTML page item (to_str typ)) (\<lambda>s. Inr (s, p))
          else addNamed page models item p)"

text \<open>The last item of a tuple leaves its \<open><div>\<close> open.\<close>

definition arrayToHTML :: "bool \<Rightarrow> model obj \<Rightarrow> jsv \<Rightarrow> pending \<Rightarrow> (string \<times> pending) result" where
  "arrayToHTML page models items p =
     (case items of
        JArr xs \<Rightarrow>
          bindR (map_pending (itemToHTML page models True) xs p) (\<lambda>(ss, q). Inr (''<div>'' @ js_join '',</div><div>'' ss, q))
      | JObj o1 \<Rightarrow>
          bindR (itemToHTML page models False items p) (\<lambda>(s, q). Inr (''<div>'' @ s @ ''</div>'', q))
      | _ \<Rightarrow> Inr (''<div>object</div>'', p))"

definition objectToHTML :: "bool \<Rightarrow> (jsv \<Rightarrow> jsv) \<Rightarrow> model obj \<Rightarrow> jsv \<Rightarrow> pending \<Rightarrow> (string \<times> pending) result" where
  "objectToHTML page macro models schema p =
     (case prop_of schema ''properties'' of
        JObj ps \<Rightarrow>
          bindR (map_pending (propertyToHTML page macro models (prop_of schema ''required'')) ps p) (\<lambda>(ss, q).
            let contents = js_join '',</div>'' ss
            in Inr (if contents \<noteq> [] then contents @ ''</div>'' else [], q))
      | _ \<Rightarrow> Inr ([], p))"

definition processModel ::
  "bool \<Rightarrow> (jsv \<Rightarrow> jsv) \<Rightarrow> model obj \<Rightarrow> jsv \<Rightarrow> string \<Rightarrow> pending \<Rightarrow> (string \<times> pending) result" where
  "processModel page macro models schema name p =
     (let typ = js_or (prop_of schema ''type'') (JStr ''object''); isArray = (prop_of schema ''type'' = JStr ''array'')
      in bindR
           (if isArray then arrayToHTML page models (prop_of schema ''items'') p
            else if truthy (prop_of schema ''$ref'') then
              bindR (addReference page models schema (JStr name) p) (\<lambda>(s, q). Inr (''<div>'' @ s @ ''</div>'', q))
            else if typ = JStr ''object'' then objectToHTML page macro models schema p
            else bindR (primitiveToOptionsHTML page schema (to_str typ)) (\<lambda>s. Inr (''<div>'' @ s @ ''</div>'', p)))
           (\<lambda>(body, q). Inr (span ''strong'' (name @ '' '' @ (if isArray then ''['' else ''{'')) @ body
              @ span ''strong'' (if isArray then '']'' else ''}''), q)))"

section \<open>All models\<close>

record html_state =
  html :: string
  seenModels :: "string list"
  waiting :: pending

definition see :: "string \<Rightarrow> string list \<Rightarrow> string list" where
  "see name seen = (if name \<noteq> [] then seen @ [name] else seen)"

text \<open>The body of \<open>_.forEach(references, \<dots>)\<close>: it reads the reference under its name when its turn comes.\<close>

definition visit :: "bool \<Rightarrow> (jsv \<Rightarrow> jsv) \<Rightarrow> model obj \<Rightarrow> string \<Rightarrow> html_state \<Rightarrow> html_state result" where
  "visit page macro models name st =
     (let schema = arg (references (waiting st)) name;
          p = (waiting st)\<lparr>references := obj_del name (references (waiting st))\<rparr>
      in if name \<in> set (seenModels st) then Inr (st\<lparr>waiting := p\<rparr>)
         else bindR (processModel page macro models schema name p) (\<lambda>(s, q).
           Inr \<lparr>html = html st @ ''<br />'' @ s, seenModels = see name (seenModels st @ [name]), waiting = q\<rparr>))"

definition visit_round :: "bool \<Rightarrow> (jsv \<Rightarrow> jsv) \<Rightarrow> model obj \<Rightarrow> html_state \<Rightarrow> html_state result" where
  "visit_round page macro models st = foldR (visit page macro models) (obj_keys (references (waiting st))) st"

text \<open>The loop need not end.\<close>

partial_function (option) visit_all :: "bool \<Rightarrow> (jsv \<Rightarrow> jsv) \<Rightarrow> model obj \<Rightarrow> html_state \<Rightarrow> html_state result option" where
  "visit_all page macro models st =
     (if references (waiting st) = [] then Some (Inr st)
      else case visit_round page macro models st of
             Inl e \<Rightarrow> Some (Inl e)
           | Inr st' \<Rightarrow> visit_all page macro models st')"

declare visit_all.simps [code]

definition renderModel :: "bool \<Rightarrow> (jsv \<Rightarrow> jsv) \<Rightarrow> model obj \<Rightarrow> jsv \<Rightarrow> string \<Rightarrow> string result option" where
  "renderModel page macro models schema name =
     (case processModel page macro models schema name \<lparr>references = [], inlineModels = 0\<rparr> of
        Inl e \<Rightarrow> Some (Inl e)
      | Inr (s, p) \<Rightarrow>
          map_option (\<lambda>r. bindR r (\<lambda>st. Inr (html st)))
            (visit_all page macro models \<lparr>html = s, seenModels = see name [], waiting = p\<rparr>))"

text \<open>\<open>_.isEmpty\<close>.\<close>

definition is_empty :: "jsv \<Rightarrow> bool" where
  "is_empty v = (case v of JArr xs \<Rightarrow> xs = [] | JObj o1 \<Rightarrow> o1 = [] | JStr s \<Rightarrow> s = [] | _ \<Rightarrow> True)"

definition schemaToHTML :: "bool \<Rightarrow> (jsv \<Rightarrow> jsv) \<Rightarrow> model obj \<Rightarrow> jsv \<Rightarrow> jsv \<Rightarrow> string result option" where
  "schemaToHTML page macro models name schema0 =
     (case resolveSchema schema0 of
        Inl e \<Rightarrow> Some (Inl e)
      | Inr schema \<Rightarrow>
          if is_empty schema then Some (Inr (span ''strong'' ''Empty''))
          else (case prop_of schema ''$ref'' of
                  JStr ref \<Rightarrow>
                    (case simpleRef (JStr ref) of
                       Inl e \<Rightarrow> Some (Inl e)
                     | Inr r \<Rightarrow>
                         (case obj_get models (to_str r) of
                            None \<Rightarrow> Some (Inr (span ''strong'' (to_str r @ '' is not defined!'')))
                          | Some m \<Rightarrow> renderModel page macro models (m_definition m) (to_str r)))
                | _ \<Rightarrow>
                    renderModel page macro models (js_or (prop_of schema ''definition'') schema)
                      (case name of
                         JStr s \<Rightarrow> s
                       | _ \<Rightarrow> to_str (js_or (prop_of schema ''title'') (JStr ''Inline Model'')))))"

text \<open>The functions of the page's copy, what the page calls, and \<open>getMockSignature\<close> of a model.\<close>

definition addReference_page :: "model obj \<Rightarrow> jsv \<Rightarrow> jsv \<Rightarrow> pending \<Rightarrow> (string \<times> pending) result" where
  "addReference_page = addReference True"

definition primitiveToHTML_page :: "model obj \<Rightarrow> jsv \<Rightarrow> pending \<Rightarrow> (string \<times> pending) result" where
  "primitiveToHTML_page = primitiveToHTML True"

definition primitiveToOptionsHTML_page :: "jsv \<Rightarrow> string \<Rightarrow> string result" where
  "primitiveToOptionsHTML_page = primitiveToOptionsHTML True"

definition processModel_page ::
  "(jsv \<Rightarrow> jsv) \<Rightarrow> model obj \<Rightarrow> jsv \<Rightarrow> string \<Rightarrow> pending \<Rightarrow> (string \<times> pending) result" where
  "processModel_page = processModel True"

definition getModelSignature_page :: "(jsv \<Rightarrow> jsv) \<Rightarrow> model obj \<Rightarrow> jsv \<Rightarrow> jsv \<Rightarrow> string result option" where
  "getModelSignature_page = schemaToHTML True"

definition getMockSignature :: "(jsv \<Rightarrow> jsv) \<Rightarrow> model obj \<Rightarrow> model \<Rightarrow> string result option" where
  "getMockSignature macro models m = schemaToHTML False macro models (JStr (m_name m)) (m_definition m)"

section \<open>How many references a model adds\<close>

text \<open>The names under which a schema and its parts ask for models.\<close>

definition own_names :: "jsv \<Rightarrow> string set" where
  "own_names v = (if truthy (prop_of v ''$ref'') then
     (case simpleRef (prop_of v ''$ref'') of Inl e \<Rightarrow> {to_str (prop_of v ''title'')} | Inr r \<Rightarrow> {to_str (js_or (prop_of v ''title'') r)}) else {})"

text \<open>The parts of a schema that are schemas: what it is nested in, its properties and its items.\<close>

definition parts :: "jsv \<Rightarrow> jsv list" where
  "parts v = (case prop_of v ''schema'' of JObj o1 \<Rightarrow> [JObj o1] | _ \<Rightarrow> [])
     @ (case prop_of v ''properties'' of JObj ps \<Rightarrow> map snd ps | _ \<Rightarrow> [])
     @ (case prop_of v ''items'' of JArr xs \<Rightarrow> xs | JObj o1 \<Rightarrow> [JObj o1] | _ \<Rightarrow> [])"

lemma size_part_of:
  "x \<in> set (case w of JObj o1 \<Rightarrow> [JObj o1] | _ \<Rightarrow> []) \<Longrightarrow> w \<noteq> JUndef \<and> size x \<le> size w"
  "x \<in> set (case w of JObj ps \<Rightarrow> map snd ps | _ \<Rightarrow> []) \<Longrightarrow> w \<noteq> JUndef \<and> size x \<le> size w"
  "x \<in> set (case w of JArr xs \<Rightarrow> xs | JObj o1 \<Rightarrow> [JObj o1] | _ \<Rightarrow> []) \<Longrightarrow> w \<noteq> JUndef \<and> size x \<le> size w"
  by (cases w; force dest: size_entry size_elem simp del: jsv.size)+

lemma size_parts:
  assumes "x \<in> set (parts v)"
  shows "size x < size v"
proof -
  obtain k where "prop_of v k \<noteq> JUndef" "size x \<le> size (prop_of v k)"
    using assms size_part_of unfolding parts_def set_append Un_iff by blast
  then show ?thesis using size_prop_of [of v k] by simp
qed

function ref_names :: "jsv \<Rightarrow> string set" where
  "ref_names v = own_names v \<union> \<Union> (ref_names ` set (parts v))"
  by pat_completeness auto
termination
  by (relation "measure size") (auto intro: size_parts)

function weight :: "jsv \<Rightarrow> nat" where
  "weight v = 1 + (if truthy (prop_of v ''$ref'') then 1 else 0) + sum_list (map weight (parts v))"
  by pat_completeness auto
termination
  by (relation "measure size") (auto intro: size_parts)

declare ref_names.simps [simp del] weight.simps [simp del]

lemma finite_ref_names [simp]: "finite (ref_names v)"
proof (induction v rule: ref_names.induct)
  case (1 v)
  then show ?case by (subst ref_names.simps) (auto simp: own_names_def split: sum.splits)
qed

lemma ref_names_part: "x \<in> set (parts v) \<Longrightarrow> ref_names x \<subseteq> ref_names v"
  by (subst (2) ref_names.simps) auto

lemma weight_pos: "0 < weight v"
  by (subst weight.simps) simp

lemma weight_part: "x \<in> set (parts v) \<Longrightarrow> weight x < weight v"
  using member_le_sum_list [of "weight x" "map weight (parts v)"] by (subst (2) weight.simps) auto

lemma ref_names_empty [simp]: "ref_names (JObj []) = {}"
  by (subst ref_names.simps) (simp add: parts_def own_names_def)

lemma weight_empty [simp]: "weight (JObj []) = 1"
  by (subst weight.simps) (simp add: parts_def)

lemma resolve_parts: "resolveSchema v = Inr w \<Longrightarrow> ref_names w \<subseteq> ref_names v \<and> weight w \<le> weight v"
proof (induction v rule: resolveSchema.induct)
  case (1 v)
  show ?case
  proof (cases "\<exists>o1. prop_of v ''schema'' = JObj o1")
    case True
    then obtain o1 where o1: "prop_of v ''schema'' = JObj o1" by blast
    then have v: "get_prop v ''schema'' = Inr (JObj o1)"
      by (auto simp: get_prop_def prop_of_def)
    then have "resolveSchema (JObj o1) = Inr w" using "1.prems" by (subst (asm) resolveSchema.simps) simp
    then have "ref_names w \<subseteq> ref_names (JObj o1) \<and> weight w \<le> weight (JObj o1)" using "1.IH" [OF v] by simp
    moreover have "JObj o1 \<in> set (parts v)" using o1 by (simp add: parts_def)
    ultimately show ?thesis using ref_names_part weight_part by fastforce
  next
    case False
    then have "w = v" using "1.prems"
      by (subst (asm) resolveSchema.simps) (auto simp: bindR_Inr_iff get_prop_Inr_iff split: jsv.splits)
    then show ?thesis by simp
  qed
qed

text \<open>A macro's default is not looked into.\<close>

lemma parts_default: "with_default macro v = Inr c \<Longrightarrow> ref_names c = ref_names v \<and> weight c = weight v"
proof -
  assume a: "with_default macro v = Inr c"
  then have "prop_of c k = prop_of v k" if "k \<noteq> ''default''" for k
    using that by (auto simp: with_default_def put_prop_def split: jsv.splits)
  then have "parts c = parts v" "own_names c = own_names v" "prop_of c ''$ref'' = prop_of v ''$ref''"
    by (simp_all add: parts_def own_names_def split: sum.splits)
  then show ?thesis by (subst (1 2) ref_names.simps, subst (1 2) weight.simps) simp
qed

lemma set_default_parts: "set_default page macro v = Inr c \<Longrightarrow> ref_names c = ref_names v \<and> weight c = weight v"
  using parts_default by (auto simp: set_default_def split: if_splits)

section \<open>The references only grow\<close>

text \<open>What is left to do for a reference: only to look up a name of \<open>N\<close>, or to show an inline schema.\<close>

definition cost :: "string set \<Rightarrow> string \<times> jsv \<Rightarrow> nat" where
  "cost N nd = (if fst nd \<in> N then 1 else weight (snd nd))"

definition total :: "string set \<Rightarrow> pending \<Rightarrow> nat" where
  "total N p = sum_list (map (cost N) (references p))"

definition within :: "string set \<Rightarrow> pending \<Rightarrow> bool" where
  "within N p \<longleftrightarrow> obj_ok (references p) \<and> (\<forall>nd \<in> set (references p). ref_names (snd nd) \<subseteq> N)"

definition grows :: "string set \<Rightarrow> nat \<Rightarrow> (pending \<Rightarrow> ('a \<times> pending) result) \<Rightarrow> bool" where
  "grows N k f \<longleftrightarrow> (\<forall>p s q. within N p \<longrightarrow> f p = Inr (s, q) \<longrightarrow>
     within N q \<and> total N q \<le> total N p + k \<and> set (obj_keys (references p)) \<subseteq> set (obj_keys (references q)))"

lemma growsI:
  "(\<And>p s q. within N p \<Longrightarrow> f p = Inr (s, q) \<Longrightarrow>
     within N q \<and> total N q \<le> total N p + k \<and> set (obj_keys (references p)) \<subseteq> set (obj_keys (references q))) \<Longrightarrow> grows N k f"
  by (simp add: grows_def)

lemma growsD:
  assumes "grows N k f" "within N p" "f p = Inr (s, q)"
  shows "within N q" "total N q \<le> total N p + k" "set (obj_keys (references p)) \<subseteq> set (obj_keys (references q))"
  using assms unfolding grows_def by blast+

lemma grows_mono: "grows N j f \<Longrightarrow> j \<le> k \<Longrightarrow> grows N k f"
  unfolding grows_def by (meson add_left_mono order_trans)

lemma grows_return: "grows N k (\<lambda>p. Inr (s, p))"
  by (auto simp: grows_def)

lemma grows_fail: "grows N k (\<lambda>p. Inl e)"
  by (auto simp: grows_def)

lemma grows_map: "grows N k f \<Longrightarrow> grows N k (\<lambda>p. bindR (f p) (\<lambda>(s, q). Inr (h s, q)))"
  by (auto simp: grows_def bindR_Inr_iff)

lemma grows_bind: "(\<And>a. m = Inr a \<Longrightarrow> grows N k (f a)) \<Longrightarrow> grows N k (\<lambda>p. bindR m (\<lambda>a. f a p))"
  by (cases m) (auto intro: grows_fail)

lemma cost_obj_set: "sum_list (map (cost N) (obj_set n d o1)) \<le> sum_list (map (cost N) o1) + cost N (n, d)"
  by (induction o1) auto

lemma grows_note:
  assumes "ref_names d \<subseteq> N" "(\<forall>p. to_str (n p) \<in> N) \<and> 1 \<le> k \<or> weight d \<le> k"
  shows "grows N k (\<lambda>p. Inr (note_reference (n p) d (p\<lparr>inlineModels := i p\<rparr>)))"
proof (rule growsI)
  fix p s q
  assume p: "within N p" "Inr (note_reference (n p) d (p\<lparr>inlineModels := i p\<rparr>)) = Inr (s, q)"
  then have q: "references q = obj_set (to_str (n p)) d (references p)" by (auto simp: note_reference_def)
  have "cost N (to_str (n p), d) \<le> k" using assms(2) weight_pos [of d] by (auto simp: cost_def)
  then have "total N q \<le> total N p + k"
    using cost_obj_set [of N "to_str (n p)" d "references p"] by (simp add: total_def q)
  moreover have "within N q" using p(1) assms(1) by (auto simp: within_def q dest!: set_obj_set)
  moreover have "set (obj_keys (references p)) \<subseteq> set (obj_keys (references q))" by (auto simp: q obj_keys_set)
  ultimately show "within N q \<and> total N q \<le> total N p + k \<and> set (obj_keys (references p)) \<subseteq> set (obj_keys (references q))" by blast
qed

lemma grows_note_plain:
  "ref_names d \<subseteq> N \<Longrightarrow> to_str n \<in> N \<and> 1 \<le> k \<or> weight d \<le> k \<Longrightarrow> grows N k (\<lambda>p. Inr (note_reference n d p))"
  using grows_note [of d N "\<lambda>p. n" k inlineModels] by simp

text \<open>The names and types that the models need.\<close>

definition knows :: "string set \<Rightarrow> model obj \<Rightarrow> bool" where
  "knows N models \<longleftrightarrow> (\<forall>(k, m) \<in> set models. ref_names (m_definition m) \<subseteq> N)"

lemma knows_definition: "knows N models \<Longrightarrow> ref_names (definition_of models n) \<subseteq> N"
  by (auto simp: knows_def definition_of_def split: option.splits dest: obj_get_in_set)

lemma not_null: "prop_of x k \<noteq> JUndef \<Longrightarrow> get_prop x k' = Inr (prop_of x k')"
  by (auto simp: get_prop_def prop_of_def)

lemma addReference_ref:
  assumes "truthy (prop_of x ''$ref'')"
  shows "addReference page models x n =
    (\<lambda>p. bindR (if page \<or> \<not> truthy (prop_of x ''title'') then simpleRef (prop_of x ''$ref'') else Inr JUndef) (\<lambda>r.
       Inr (note_reference (js_or (prop_of x ''title'') r) (definition_of models (if page then r else js_or (prop_of x ''title'') r)) p)))"
proof -
  have "get_prop x ''$ref'' = Inr (prop_of x ''$ref'')"
    using assms not_null [of x "''$ref''" "''$ref''"] by fastforce
  then show ?thesis using assms by (simp add: addReference_def Let_def fun_eq_iff)
qed

lemma grows_addRef:
  assumes "knows N models" "ref_names x \<subseteq> N" "truthy (prop_of x ''$ref'')"
  shows "grows N 1 (addReference page models x n)"
  unfolding addReference_ref [OF assms(3)]
proof (intro grows_bind grows_note_plain knows_definition [OF assms(1)] disjI1 conjI order_refl)
  fix r
  assume "(if page \<or> \<not> truthy (prop_of x ''title'') then simpleRef (prop_of x ''$ref'') else Inr JUndef) = Inr r"
  then have "to_str (js_or (prop_of x ''title'') r) \<in> own_names x"
    using assms(3) by (auto simp: own_names_def js_or_def split: if_splits sum.splits)
  then have "to_str (js_or (prop_of x ''title'') r) \<in> ref_names x"
    by (subst ref_names.simps) blast
  then show "to_str (js_or (prop_of x ''title'') r) \<in> N" using assms(2) by blast
qed

lemma grows_if: "(c \<Longrightarrow> grows N k f) \<Longrightarrow> (\<not> c \<Longrightarrow> grows N k g) \<Longrightarrow> grows N k (\<lambda>p. if c then f p else g p)"
  by (cases c) simp_all

lemma grows_addReference:
  assumes "knows N models" "ref_names x \<subseteq> N"
  shows "grows N (weight x) (addReference page models x n)"
proof (cases "truthy (prop_of x ''$ref'')")
  case True
  then show ?thesis using grows_addRef [OF assms True] weight_pos [of x] grows_mono by (metis Suc_leI One_nat_def)
next
  case False
  have inline: "grows N (weight x) (\<lambda>p. Inr (note_reference (JStr (''Inline Model '' @ show_nat (inlineModels p + 1))) x
      (p\<lparr>inlineModels := inlineModels p + 1\<rparr>)))"
    by (rule grows_note) (use assms(2) in auto)
  show ?thesis unfolding addReference_def Let_def
  proof (intro grows_bind, goal_cases)
    case (1 r)
    then have "\<not> truthy r" using False by (simp add: get_prop_Inr_iff)
    then show ?case using assms(2) weight_pos [of x] inline
      by (simp only: if_False) (intro grows_if grows_note_plain, auto)
  qed
qed

lemma grows_addNamed: "knows N models \<Longrightarrow> ref_names x \<subseteq> N \<Longrightarrow> grows N (weight x) (addNamed page models x)"
  unfolding addNamed_def by (intro grows_bind grows_addReference)

lemma grows_map_pending:
  assumes "\<And>x. x \<in> set xs \<Longrightarrow> grows N (k x) (f x)"
  shows "grows N (sum_list (map k xs)) (map_pending f xs)"
  using assms
proof (induction xs)
  case Nil
  then show ?case by (simp add: grows_def)
next
  case (Cons x xs)
  show ?case
  proof (rule growsI)
    fix p ss r
    assume p: "within N p" "map_pending f (x # xs) p = Inr (ss, r)"
    then obtain s q ss' where q: "f x p = Inr (s, q)" "map_pending f xs q = Inr (ss', r)"
      by (auto simp: bindR_Inr_iff)
    have x: "grows N (k x) (f x)" and xs: "grows N (sum_list (map k xs)) (map_pending f xs)"
      using Cons by auto
    show "within N r \<and> total N r \<le> total N p + sum_list (map k (x # xs))
        \<and> set (obj_keys (references p)) \<subseteq> set (obj_keys (references r))"
      using growsD [OF x p(1) q(1)] growsD [OF xs _ q(2)] by fastforce
  qed
qed

definition item_parts :: "jsv \<Rightarrow> jsv list" where
  "item_parts w = (case w of JArr xs \<Rightarrow> xs | JObj o1 \<Rightarrow> [JObj o1] | _ \<Rightarrow> [])"

definition property_parts :: "jsv \<Rightarrow> jsv list" where
  "property_parts w = (case w of JObj ps \<Rightarrow> map snd ps | _ \<Rightarrow> [])"

lemma weight_items: "sum_list (map weight (item_parts (prop_of v ''items''))) < weight v"
  using weight.simps [of v] by (simp add: parts_def item_parts_def)

lemma weight_properties: "sum_list (map weight (property_parts (prop_of v ''properties''))) < weight v"
  using weight.simps [of v] by (simp add: parts_def property_parts_def)

lemma ref_names_items: "x \<in> set (item_parts (prop_of v ''items'')) \<Longrightarrow> ref_names x \<subseteq> ref_names v"
  by (rule ref_names_part) (simp add: parts_def item_parts_def)

lemma ref_names_properties: "x \<in> set (property_parts (prop_of v ''properties'')) \<Longrightarrow> ref_names x \<subseteq> ref_names v"
  by (rule ref_names_part) (simp add: parts_def property_parts_def)

lemma enumerate_weights: "sum_list (map (\<lambda>ix. weight (snd ix)) (enumerate n xs)) = sum_list (map weight xs)"
  by (induction xs arbitrary: n) auto

lemma grows_array_type:
  assumes "knows N models" "\<And>x. x \<in> set (item_parts items) \<Longrightarrow> ref_names x \<subseteq> N"
  shows "grows N (sum_list (map weight (item_parts items))) (array_type page models items)"
proof (cases items)
  case (JArr xs)
  have "grows N (sum_list (map (\<lambda>ix. weight (snd ix)) (enumerate 0 xs)))
      (map_pending (\<lambda>(i, x). addReference page models x (JNum (int i))) (enumerate 0 xs))"
  proof (rule grows_map_pending, clarify)
    fix i x
    assume "(i, x) \<in> set (enumerate 0 xs)"
    then have "x \<in> set xs" by (metis in_set_zip enumerate_eq_zip nth_mem snd_conv)
    then have "ref_names x \<subseteq> N" using assms(2) JArr by (simp add: item_parts_def)
    then show "grows N (weight (snd (i, x))) (addReference page models x (JNum (int i)))"
      using grows_addReference [OF assms(1)] by simp
  qed
  then show ?thesis unfolding array_type_def JArr enumerate_weights by (simp add: item_parts_def grows_map)
next
  case (JObj o1)
  then have "ref_names (JObj o1) \<subseteq> N" using assms(2) by (simp add: item_parts_def)
  then show ?thesis unfolding array_type_def JObj
    by (auto simp: item_parts_def intro!: grows_if grows_return grows_addReference grows_addNamed assms(1))
qed (simp_all add: array_type_def [abs_def] grows_return)

lemma grows_primitive_type:
  assumes "knows N models" "ref_names c \<subseteq> N"
  shows "grows N (weight c) (primitive_type page models c)"
proof -
  have "grows N (weight c) (array_type page models (prop_of c ''items''))"
    using assms ref_names_items weight_items [of c]
    by (intro grows_mono [OF grows_array_type]) (blast intro: less_imp_le)+
  then show ?thesis unfolding primitive_type_def Let_def
    using assms by (intro grows_if grows_return grows_addReference grows_addNamed grows_map)
qed

lemma grows_addNamed_ref:
  "knows N models \<Longrightarrow> ref_names x \<subseteq> N \<Longrightarrow> truthy (prop_of x ''$ref'') \<Longrightarrow> grows N 1 (addNamed page models x)"
  unfolding addNamed_def by (intro grows_bind grows_addRef)

text \<open>A definition whose type says what it is and that is not nested.\<close>

definition direct_schema :: "jsv \<Rightarrow> bool" where
  "direct_schema d \<longleftrightarrow> (case prop_of d ''schema'' of JObj o1 \<Rightarrow> False | _ \<Rightarrow> True)
     \<and> (prop_of d ''type'' = JUndef \<or> truthy (prop_of d ''type''))"

definition direct_models :: "model obj \<Rightarrow> bool" where
  "direct_models models \<longleftrightarrow> list_all (\<lambda>(k, m). direct_schema (m_definition m)) models"

lemma direct_resolve: "direct_schema d \<Longrightarrow> resolveSchema d = Inr c \<Longrightarrow> c = d"
  by (subst (asm) resolveSchema.simps) (auto simp: direct_schema_def bindR_Inr_iff get_prop_Inr_iff split: jsv.splits)

lemma shown_cases:
  assumes "knows N models" "direct_models models" "shown_schema page macro models property = Inr (desc, c)"
  obtains "ref_names c \<subseteq> ref_names property" "weight c \<le> weight property"
    | "ref_names c \<subseteq> N" "truthy (prop_of c ''type'')" "\<not> container_type (prop_of c ''type'')"
proof -
  from assms(3) obtain c0 c1 where c1: "set_default page macro property = Inr c0" "resolveSchema c0 = Inr c1"
    and rest: "c = c1 \<or> (\<exists>m r. obj_get models (to_str r) = Some m \<and> prop_of (m_definition m) ''type'' \<noteq> JUndef
       \<and> \<not> container_type (prop_of (m_definition m) ''type'') \<and> resolveSchema (m_definition m) = Inr c)"
    unfolding shown_schema_def Let_def by (auto simp: bindR_Inr_iff split: if_splits option.splits)
  have "ref_names c1 \<subseteq> ref_names property" "weight c1 \<le> weight property"
    using set_default_parts [OF c1(1)] resolve_parts [OF c1(2)] by auto
  moreover have "ref_names c \<subseteq> N \<and> truthy (prop_of c ''type'') \<and> \<not> container_type (prop_of c ''type'')"
    if "obj_get models (to_str r) = Some m" "prop_of (m_definition m) ''type'' \<noteq> JUndef"
      "\<not> container_type (prop_of (m_definition m) ''type'')" "resolveSchema (m_definition m) = Inr c" for m r
  proof -
    have "(to_str r, m) \<in> set models" using that(1) by (rule obj_get_in_set)
    then have "direct_schema (m_definition m)" "ref_names (m_definition m) \<subseteq> N"
      using assms(1,2) by (auto simp: direct_models_def list_all_iff knows_def)
    then show ?thesis using direct_resolve [OF _ that(4)] that(2,3) by (auto simp: direct_schema_def)
  qed
  ultimately show thesis using rest that by blast
qed

lemma grows_shown:
  assumes "knows N models" "direct_models models" "ref_names property \<subseteq> N" "shown_schema page macro models property = Inr (desc, c)"
  shows "grows N (weight property) (primitiveToHTML page models c)"
  using assms(1,2,4)
proof (cases rule: shown_cases)
  case 1
  then show ?thesis unfolding primitiveToHTML_def
    using assms(1,3) by (intro grows_map grows_mono [OF grows_primitive_type]) auto
next
  case 2
  have "grows N 1 (primitive_type page models c)"
    unfolding primitive_type_def Let_def using assms(1) 2
    by (auto simp: js_or_def container_type_def intro!: grows_if grows_return grows_addNamed_ref [unfolded One_nat_def])
  then show ?thesis unfolding primitiveToHTML_def
    using weight_pos [of property] by (intro grows_map) (metis grows_mono Suc_leI One_nat_def)
qed

lemma grows_propertyToHTML:
  assumes "knows N models" "direct_models models" "ref_names (snd np) \<subseteq> N"
  shows "grows N (weight (snd np)) (propertyToHTML page macro models required np)"
proof -
  obtain name property where np: "np = (name, property)" by (cases np)
  show ?thesis unfolding propertyToHTML_def np prod.case
  proof (rule grows_bind, clarify)
    fix desc c
    assume c: "shown_schema page macro models property = Inr (desc, c)"
    show "grows N (weight (snd (name, property))) (\<lambda>p. bindR (primitiveToHTML page models c p) (\<lambda>(prim, q).
        bindR (if page then Inr [] else prop_vals (prop_of c ''enum'')) (\<lambda>vals.
          let req = is_required required name; readOnly = truthy (prop_of property ''readOnly'');
              html = span (''propName '' @ (if req then ''required'' else [])) name @ '' ('' @ prim
                @ (if req then [] else '', '' @ span ''propOptKey'' ''optional'')
                @ (if readOnly then '', '' @ span ''propReadOnly'' ''read only'' else []) @ '')''
                @ (if page then [] else prop_desc desc @ vals)
          in bindR (primitiveToOptionsHTML page c html) (\<lambda>body.
               Inr (''<div'' @ (if readOnly then '' class='' @ quoted ''readOnly'' else []) @ ''>'' @ body, q)))))"
      using grows_shown [OF assms(1,2) _ c] assms(3) np
      unfolding grows_def Let_def by (fastforce simp: bindR_Inr_iff)
  qed
qed

lemma grows_itemToHTML:
  assumes "knows N models" "ref_names item \<subseteq> N"
  shows "grows N (weight item) (itemToHTML page models tuple item)"
  unfolding itemToHTML_def Let_def
  using assms by (intro grows_bind grows_if grows_return grows_addReference grows_addNamed)

lemma grows_arrayToHTML:
  assumes "knows N models" "\<And>x. x \<in> set (item_parts items) \<Longrightarrow> ref_names x \<subseteq> N"
  shows "grows N (sum_list (map weight (item_parts items))) (arrayToHTML page models items)"
  using assms
  by (cases items) (auto simp: arrayToHTML_def [abs_def] item_parts_def
      intro!: grows_return grows_map grows_map_pending grows_itemToHTML)

lemma grows_objectToHTML:
  assumes "knows N models" "direct_models models" "\<And>x. x \<in> set (property_parts (prop_of schema ''properties'')) \<Longrightarrow> ref_names x \<subseteq> N"
  shows "grows N (sum_list (map weight (property_parts (prop_of schema ''properties'')))) (objectToHTML page macro models schema)"
proof (cases "prop_of schema ''properties''")
  case (JObj ps)
  have "grows N (sum_list (map (\<lambda>np. weight (snd np)) ps))
      (map_pending (propertyToHTML page macro models (prop_of schema ''required'')) ps)"
    using assms JObj by (intro grows_map_pending grows_propertyToHTML) (auto simp: property_parts_def)
  then show ?thesis unfolding objectToHTML_def JObj Let_def
    by (simp add: property_parts_def o_def grows_map)
qed (simp_all add: objectToHTML_def [abs_def] grows_return)

lemma grows_processModel:
  assumes "knows N models" "direct_models models" "ref_names schema \<subseteq> N"
  shows "grows N (weight schema - 1) (processModel page macro models schema name)"
proof -
  have "grows N (weight schema - 1) (arrayToHTML page models (prop_of schema ''items''))"
    using assms ref_names_items weight_items [of schema]
    by (intro grows_mono [OF grows_arrayToHTML]) (blast, blast, linarith)
  moreover have "grows N (weight schema - 1) (objectToHTML page macro models schema)"
    using assms ref_names_properties weight_properties [of schema]
    by (intro grows_mono [OF grows_objectToHTML]) (blast, blast, blast, linarith)
  moreover have "grows N (weight schema - 1) (addReference page models schema n)" if "truthy (prop_of schema ''$ref'')" for n
    using grows_addRef [OF assms(1,3) that] weight.simps [of schema] that by (auto intro: grows_mono)
  ultimately show ?thesis unfolding processModel_def Let_def
    by (intro grows_map grows_if grows_bind grows_return) simp_all
qed

section \<open>The loop over the references\<close>

text \<open>Every visit either sees a new name of \<open>N\<close> or leaves less to do.\<close>

definition work :: "string set \<Rightarrow> html_state \<Rightarrow> nat \<times> nat" where
  "work N st = (card (N - set (seenModels st)), total N (waiting st))"

definition less_work :: "((nat \<times> nat) \<times> (nat \<times> nat)) set" where
  "less_work = less_than <*lex*> less_than"

lemma wf_less_work: "wf less_work"
  by (simp add: less_work_def wf_lex_prod)

lemma trans_less_work: "trans less_work"
  by (simp add: less_work_def trans_lex_prod)

lemma total_del:
  "obj_ok o1 \<Longrightarrow> n \<in> set (obj_keys o1) \<Longrightarrow>
     sum_list (map (cost N) (obj_del n o1)) + cost N (n, arg o1 n) = sum_list (map (cost N) o1)"
proof (induction o1)
  case (Cons kv o1)
  obtain k v where kv: "kv = (k, v)" by (cases kv)
  show ?case
  proof (cases "k = n")
    case True
    then have "n \<notin> set (obj_keys o1)" using Cons.prems(1) by (simp add: kv obj_ok_def obj_keys_def)
    then have "obj_del n o1 = o1" by (force simp: obj_del_def obj_keys_def intro: filter_True)
    then show ?thesis using True by (simp add: kv obj_del_def)
  next
    case False
    then have "obj_ok o1" "n \<in> set (obj_keys o1)" using Cons.prems by (auto simp: kv obj_ok_def obj_keys_def)
    then show ?thesis using Cons.IH False by (simp add: kv obj_del_def)
  qed
qed (simp add: obj_keys_def)

lemma obj_keys_del: "set (obj_keys (obj_del n o1)) = set (obj_keys o1) - {n}"
  by (auto simp: obj_keys_def obj_del_def)

lemma within_del: "within N p \<Longrightarrow> within N (p\<lparr>references := obj_del n (references p)\<rparr>)"
  by (auto simp: within_def obj_del_def [of n "references p"] obj_ok_def obj_keys_def distinct_map_filter)

lemma within_arg: "within N p \<Longrightarrow> n \<in> set (obj_keys (references p)) \<Longrightarrow> ref_names (arg (references p) n) \<subseteq> N"
  by (cases "obj_get (references p) n") (force simp: within_def arg_def obj_get_None_iff dest: obj_get_in_set)+

lemma visit_works:
  assumes "knows N models" "direct_models models" "finite N"
    and "within N (waiting st)" "name \<in> set (obj_keys (references (waiting st)))" "visit page macro models name st = Inr st'"
  shows "within N (waiting st') \<and> (work N st', work N st) \<in> less_work
    \<and> set (obj_keys (references (waiting st))) - {name} \<subseteq> set (obj_keys (references (waiting st')))"
proof -
  define p where "p = (waiting st)\<lparr>references := obj_del name (references (waiting st))\<rparr>"
  define d where "d = arg (references (waiting st)) name"
  have p: "within N p" "total N p + cost N (name, d) = total N (waiting st)" "set (obj_keys (references p)) = set (obj_keys (references (waiting st))) - {name}"
    using within_del [OF assms(4)] total_del [of "references (waiting st)" name N] assms(4,5)
    by (simp_all add: p_def d_def total_def within_def obj_keys_del)
  have d: "ref_names d \<subseteq> N" using within_arg [OF assms(4,5)] by (simp add: d_def)
  show ?thesis
  proof (cases "name \<in> set (seenModels st)")
    case True
    then have st': "st' = st\<lparr>waiting := p\<rparr>" using assms(6) by (simp add: visit_def Let_def p_def)
    have "0 < cost N (name, d)" using weight_pos by (simp add: cost_def)
    then show ?thesis using p by (simp add: st' work_def less_work_def)
  next
    case False
    then obtain s q where q: "processModel page macro models d name p = Inr (s, q)"
      and st': "seenModels st' = see name (seenModels st @ [name])" "waiting st' = q"
      using assms(6) by (auto simp: visit_def Let_def p_def d_def bindR_Inr_iff)
    have seen: "set (seenModels st') = insert name (set (seenModels st))" using st' by (auto simp: see_def)
    note g = growsD [OF grows_processModel [OF assms(1,2) d] p(1) q]
    have "(work N st', work N st) \<in> less_work"
    proof (cases "name \<in> N")
      case True
      then have "card (N - set (seenModels st')) < card (N - set (seenModels st))"
        using card_unvisited_less [OF assms(3) True False] by (simp add: seen)
      then show ?thesis by (simp add: work_def less_work_def)
    next
      case False
      then have "N - set (seenModels st') = N - set (seenModels st)" by (auto simp: seen)
      moreover have "total N q < total N (waiting st)"
        using g(2) p(2) weight_pos [of d] False by (simp add: cost_def)
      ultimately show ?thesis by (simp add: work_def less_work_def st')
    qed
    then show ?thesis using g p(3) st' by auto
  qed
qed

lemma round_works:
  assumes "knows N models" "direct_models models" "finite N"
  shows "within N (waiting st) \<Longrightarrow> distinct names \<Longrightarrow> set names \<subseteq> set (obj_keys (references (waiting st)))
    \<Longrightarrow> foldR (visit page macro models) names st = Inr st'
    \<Longrightarrow> within N (waiting st') \<and> (names \<noteq> [] \<longrightarrow> (work N st', work N st) \<in> less_work)"
proof (induction names arbitrary: st)
  case (Cons n names)
  obtain st1 where st1: "visit page macro models n st = Inr st1" "foldR (visit page macro models) names st1 = Inr st'"
    using Cons.prems(4) by (auto simp: bindR_Inr_iff)
  note v = visit_works [OF assms Cons.prems(1) _ st1(1)]
  have "set names \<subseteq> set (obj_keys (references (waiting st1)))" using v Cons.prems(2,3) by auto
  then have "within N (waiting st') \<and> (names \<noteq> [] \<longrightarrow> (work N st', work N st1) \<in> less_work)"
    using Cons.IH [OF _ _ _ st1(2)] v Cons.prems(2,3) by simp
  then show ?case using v Cons.prems(3) st1(2) transD [OF trans_less_work, of "work N st'" "work N st1" "work N st"] by (cases "names = []") auto
qed simp

lemma visit_all_ends:
  assumes "knows N models" "direct_models models" "finite N"
  shows "within N (waiting st) \<Longrightarrow> \<exists>r. visit_all page macro models st = Some r"
proof (induction "work N st" arbitrary: st rule: wf_induct_rule [OF wf_less_work])
  case (1 st)
  show ?case
  proof (cases "references (waiting st) = []")
    case True
    then show ?thesis by (subst visit_all.simps) simp
  next
    case False
    show ?thesis
    proof (cases "visit_round page macro models st")
      case (Inl e)
      then show ?thesis using False by (subst visit_all.simps) simp
    next
      case (Inr st')
      have "obj_keys (references (waiting st)) \<noteq> []" using False by (simp add: obj_keys_def)
      moreover have "distinct (obj_keys (references (waiting st)))" using "1.prems" by (simp add: within_def obj_ok_def)
      ultimately have "within N (waiting st')" "(work N st', work N st) \<in> less_work"
        using round_works [OF assms "1.prems" _ order_refl] Inr by (auto simp: visit_round_def)
      then have "\<exists>r. visit_all page macro models st' = Some r" using "1.hyps" by blast
      then show ?thesis using False Inr by (subst visit_all.simps) simp
    qed
  qed
qed

lemma renderModel_ends: "direct_models models \<Longrightarrow> \<exists>r. renderModel page macro models schema name = Some r"
proof -
  assume a: "direct_models models"
  define N where "N = ref_names schema \<union> (\<Union>(k, m) \<in> set models. ref_names (m_definition m))"
  have N: "knows N models" "finite N" "ref_names schema \<subseteq> N" by (auto simp: N_def knows_def)
  show ?thesis
  proof (cases "processModel page macro models schema name \<lparr>references = [], inlineModels = 0\<rparr>")
    case (Inr sp)
    moreover obtain s p where "sp = (s, p)" by (cases sp)
    moreover have "within N \<lparr>references = [], inlineModels = 0\<rparr>" by (simp add: within_def)
    ultimately have "within N p" using growsD(1) [OF grows_processModel [OF N(1) a N(3)]] by blast
    then obtain r where "visit_all page macro models \<lparr>html = s, seenModels = see name [], waiting = p\<rparr> = Some r"
      using visit_all_ends [OF N(1) a N(2)] by fastforce
    then show ?thesis using Inr \<open>sp = (s, p)\<close> by (simp add: renderModel_def)
  qed (simp add: renderModel_def)
qed

lemma schemaToHTML_ends:
  assumes "direct_models models"
  shows "\<exists>r. schemaToHTML page macro models name schema = Some r"
proof -
  note ends = renderModel_ends [OF assms]
  show ?thesis
  proof (cases "resolveSchema schema")
    case (Inr s)
    then show ?thesis using ends by (auto simp: schemaToHTML_def split: jsv.splits sum.splits option.splits)
  qed (simp add: schemaToHTML_def)
qed

text \<open>C24: When no definition of a model is nested in a \<open>schema\<close> and none has a type that is present and falsy, the markup
  of every schema is complete after finitely many models: the loop over the references ends, whatever
  refers to what, on the page and in the client.\<close>

theorem markup_ends:
  assumes "direct_models models"
  shows "\<exists>r. schemaToHTML page macro models name schema = Some r"
  using assms by (rule schemaToHTML_ends)

theorem markup_ends_witness:
  "direct_models tree_models \<and> (\<exists>r. schemaToHTML True default_of tree_models (JStr ''Tree'') (JObj [(''$ref'', JStr ''#/definitions/Tree'')]) = Some r)"
proof -
  have "direct_models tree_models" by code_simp
  then show ?thesis using markup_ends by blast
qed

text \<open>Without these conditions the loop need not end: a model whose type is \<open>null\<close> and that refers to itself is shown in
  place of every reference to it, each time under a new name.\<close>

definition nullType :: jsv where
  "nullType = JObj [(''type'', JNull), (''properties'', JObj [(''next'', JObj [(''$ref'', JStr ''#/definitions/Node'')])])]"

definition node_models :: "model obj" where
  "node_models = [(''Node'', \<lparr>m_name = ''Node'', m_definition = nullType, m_examples = JUndef\<rparr>)]"

definition inline_name :: "nat \<Rightarrow> string" where
  "inline_name n = ''Inline Model '' @ show_nat n"

lemma inline_name_not_empty [simp]: "inline_name n \<noteq> []"
  by (simp add: inline_name_def)

lemma inline_name_eq [simp]: "inline_name m = inline_name n \<longleftrightarrow> m = n"
  using show_nat_inj by (auto simp: inline_name_def)

lemma node_shown: "\<exists>d. shown_schema page macro node_models (JObj [(''$ref'', JStr ''#/definitions/Node'')]) = Inr (d, nullType)"
proof -
  have "resolveSchema nullType = Inr nullType" by (simp add: nullType_def)
  moreover have "simpleRef (JStr ''#/definitions/Node'') = Inr (JStr ''Node'')"
    using simpleRef_definition [of "''Node''"] by simp
  ultimately show ?thesis
    by (simp add: shown_schema_def set_default_def is_object_def with_default_def put_prop_def node_models_def container_type_def nullType_def)
qed

lemma node_primitive:
  "primitiveToHTML page models nullType p =
     Inr (span ''propType'' (inline_name (inlineModels p + 1)),
       p\<lparr>inlineModels := inlineModels p + 1, references := obj_set (inline_name (inlineModels p + 1)) nullType (references p)\<rparr>)"
  by (simp add: primitiveToHTML_def primitive_type_def nullType_def addReference_def get_prop_def note_reference_def inline_name_def Let_def)

lemma node_options: "\<exists>s. primitiveToOptionsHTML page nullType h = Inr s"
  by (cases page) (simp_all add: primitiveToOptionsHTML_def nullType_def prop_vals_def Let_def)

lemma node_process:
  "\<exists>s. processModel page macro node_models nullType name p =
     Inr (s, p\<lparr>inlineModels := inlineModels p + 1, references := obj_set (inline_name (inlineModels p + 1)) nullType (references p)\<rparr>)"
proof -
  obtain d where d: "shown_schema page macro node_models (JObj [(''$ref'', JStr ''#/definitions/Node'')]) = Inr (d, nullType)"
    using node_shown by blast
  obtain g where g: "\<And>h. primitiveToOptionsHTML page nullType h = Inr (g h)"
    using node_options [of page] by metis
  have enum: "prop_vals (prop_of nullType ''enum'') = Inr []" by (simp add: prop_vals_def nullType_def)
  have "\<exists>s. propertyToHTML page macro node_models (prop_of nullType ''required'') (''next'', JObj [(''$ref'', JStr ''#/definitions/Node'')]) p =
     Inr (s, p\<lparr>inlineModels := inlineModels p + 1, references := obj_set (inline_name (inlineModels p + 1)) nullType (references p)\<rparr>)"
    by (simp add: propertyToHTML_def d node_primitive enum g Let_def)
  then obtain s where "propertyToHTML page macro node_models (prop_of nullType ''required'') (''next'', JObj [(''$ref'', JStr ''#/definitions/Node'')]) p =
     Inr (s, p\<lparr>inlineModels := inlineModels p + 1, references := obj_set (inline_name (inlineModels p + 1)) nullType (references p)\<rparr>)"
    by blast
  moreover have "prop_of nullType ''type'' = JNull" "prop_of nullType ''$ref'' = JUndef"
    "prop_of nullType ''properties'' = JObj [(''next'', JObj [(''$ref'', JStr ''#/definitions/Node'')])]"
    by (simp_all add: nullType_def)
  ultimately show ?thesis by (simp add: processModel_def objectToHTML_def Let_def)
qed

text \<open>One inline model waits, and it has not been seen.\<close>

definition looping :: "html_state \<Rightarrow> bool" where
  "looping st \<longleftrightarrow> references (waiting st) = [(inline_name (inlineModels (waiting st)), nullType)]
     \<and> (\<forall>n \<ge> inlineModels (waiting st). inline_name n \<notin> set (seenModels st))"

lemma looping_round: "looping st \<Longrightarrow> \<exists>st'. visit_round page macro node_models st = Inr st' \<and> looping st'"
  using node_process [of page macro "inline_name (inlineModels (waiting st))" "(waiting st)\<lparr>references := []\<rparr>"]
  by (auto simp: looping_def visit_round_def visit_def obj_keys_def obj_del_def Let_def see_def)

lemma looping_none: "visit_all page macro models st = Some r \<Longrightarrow> models = node_models \<Longrightarrow> looping st \<Longrightarrow> False"
proof (induction rule: visit_all.raw_induct [rotated, consumes 1, case_names step])
  case (step visit_all' page macro models st r)
  obtain st' where "visit_round page macro node_models st = Inr st'" "looping st'" using looping_round step.prems by blast
  then show ?case using step.IH [of page macro models st' r] step.hyps step.prems by (auto simp: looping_def)
qed

lemma markup_need_not_end: "schemaToHTML page macro node_models (JStr ''Node'') nullType = None"
proof -
  obtain s where s: "processModel page macro node_models nullType ''Node'' \<lparr>references = [], inlineModels = 0\<rparr> =
      Inr (s, \<lparr>references = [(inline_name 1, nullType)], inlineModels = 1\<rparr>)"
    using node_process [of page macro "''Node''" "\<lparr>references = [], inlineModels = 0\<rparr>"] by auto
  have "looping \<lparr>html = s, seenModels = see ''Node'' [], waiting = \<lparr>references = [(inline_name 1, nullType)], inlineModels = 1\<rparr>\<rparr>"
    by (simp add: looping_def see_def inline_name_def)
  then have "renderModel page macro node_models nullType ''Node'' = None"
    using looping_none s by (fastforce simp: renderModel_def)
  moreover have "resolveSchema nullType = Inr nullType" "\<not> is_empty nullType" "prop_of nullType ''$ref'' = JUndef"
    "prop_of nullType ''definition'' = JUndef"
    by (simp_all add: nullType_def is_empty_def)
  ultimately show ?thesis by (simp add: schemaToHTML_def)
qed

text \<open>The items of a tuple are shown by their index, and their schemas are lost; a reference with a title finds its model
  on the page, and not in the client.\<close>

lemma tuple_items_lost:
  "array_type page models (JArr [JObj [(''type'', JStr ''string'')]]) p = Inr (''0'', p\<lparr>references := obj_set ''0'' (JObj []) (references p)\<rparr>)"
proof -
  have "show_nat 0 = ''0''" by code_simp
  then show ?thesis by (simp add: array_type_def addReference_def get_prop_def note_reference_def show_int_def)
qed

lemma titled_reference:
  "addReference page tree_models (JObj [(''$ref'', JStr ''#/definitions/Tree''), (''title'', JStr ''A tree'')]) n \<lparr>references = [], inlineModels = 0\<rparr>
     = Inr (''A tree'', \<lparr>references = [(''A tree'', if page then m_definition (snd (hd tree_models)) else JObj [])], inlineModels = 0\<rparr>)"
proof -
  have "simpleRef (JStr ''#/definitions/Tree'') = Inr (JStr ''Tree'')"
    using simpleRef_definition [of "''Tree''"] by simp
  then show ?thesis by (simp add: addReference_def get_prop_def note_reference_def definition_of_def tree_models_def)
qed

lemma tuple_div_open:
  "arrayToHTML False models (JArr [JObj [(''type'', JStr ''string'')]]) p = Inr (''<div>string'', p)"
proof -
  have "itemToHTML False models True (JObj [(''type'', JStr ''string'')]) p = Inr (''string'', p)"
    by (simp add: itemToHTML_def get_prop_def container_type_def primitiveToOptionsHTML_def schema_options_def type_options_def
        option_type_def option_if_def array_options_def enum_option_def)
  then show ?thesis by (simp add: arrayToHTML_def)
qed

end
