(* ===== verification/Operation_Types.thy ===== *)
theory Operation_Types
  imports Schema_Html
begin

text \<open>
  What an operation derives from its specification when it is built (module 10 of \<open>swagger-ui.js\<close>): the types of its
  parameters with the inline models they need, signatures and samples, the values that may be chosen, and the response
  that describes success. With them the copies of the page that work on parameters. Parameters, responses and headers are
  objects.
\<close>

section \<open>Inline models\<close>

text \<open>\<open>definitions[ref]\<close> is looked up by the reference without its prefix.\<close>

definition resolveModel :: "jsv obj \<Rightarrow> jsv \<Rightarrow> model option result" where
  "resolveModel definitions schema =
     bindR (get_prop schema ''$ref'') (\<lambda>ref.
       if ref \<noteq> JUndef then
         bindR (simpleRef ref) (\<lambda>r.
           if truthy (arg definitions (to_str r)) then bindR (Model r (arg definitions (to_str r))) (\<lambda>m. Inr (Some m))
           else Inr None)
       else if is_object schema \<and> (prop_of schema ''type'' = JStr ''object'' \<or> prop_of schema ''type'' = JUndef) then
         bindR (Model JUndef schema) (\<lambda>m. Inr (Some m))
       else Inr None)"

definition inlineName :: "nat \<Rightarrow> string" where
  "inlineName i = ''Inline Model '' @ show_nat i"

definition addInlineModel :: "jsv \<Rightarrow> model list \<Rightarrow> (jsv \<times> model list) result" where
  "addInlineModel schema ims =
     bindR (resolveModel [] schema) (\<lambda>m.
       Inr (case m of Some m \<Rightarrow> (JStr (inlineName (length ims)), ims @ [m]) | None \<Rightarrow> (JNull, ims)))"

text \<open>\<open>/^Inline Model \d+$/\<close>.\<close>

definition is_inline_name :: "string \<Rightarrow> bool" where
  "is_inline_name s \<longleftrightarrow> starts_with ''Inline Model '' s \<and> length s > 13 \<and> list_all is_digit (drop 13 s)"

text \<open>The test converts its argument; a value that is not a string has no \<open>substr\<close>.\<close>

definition getInlineModel :: "model list \<Rightarrow> jsv \<Rightarrow> model option result" where
  "getInlineModel ims inlineStr =
     (if is_inline_name (to_str inlineStr) then
        (case inlineStr of
           JStr s \<Rightarrow> (let i = digits_val 0 (js_trim (drop (length ''Inline Model'') s)) in Inr (if i < length ims then Some (ims ! i) else None))
         | _ \<Rightarrow> Inl (no_method ''substr''))
      else Inr None)"

section \<open>The type of a parameter\<close>

definition plain_type :: "jsv \<Rightarrow> jsv \<Rightarrow> jsv" where
  "plain_type typ fmt =
     (if typ = JStr ''integer'' \<and> fmt = JStr ''int32'' then JStr ''integer''
      else if typ = JStr ''integer'' \<and> fmt = JStr ''int64'' then JStr ''long''
      else if typ = JStr ''integer'' then JStr ''integer''
      else if typ = JStr ''string'' then
        (if fmt = JStr ''date-time'' then JStr ''date-time'' else if fmt = JStr ''date'' then JStr ''date'' else JStr ''string'')
      else if typ = JStr ''number'' \<and> fmt = JStr ''float'' then JStr ''float''
      else if typ = JStr ''number'' \<and> fmt = JStr ''double'' then JStr ''double''
      else if typ = JStr ''number'' then JStr ''double''
      else if typ = JStr ''boolean'' then JStr ''boolean''
      else if typ = JStr ''file'' then JStr ''file''
      else JUndef)"

definition in_array :: "bool \<Rightarrow> jsv \<Rightarrow> jsv" where
  "in_array listed t = (if listed then JArr [t] else t)"

function getType :: "jsv \<Rightarrow> model list \<Rightarrow> (jsv \<times> model list) result" where
  "getType param ims =
     bindR (get_prop param ''type'') (\<lambda>typ.
       let isArray = (typ = JStr ''array''); items = prop_of param ''items''; schema = prop_of param ''schema'' in
       bindR (if isArray then (if truthy items then getType items ims else Inr (JUndef, ims))
              else Inr (plain_type typ (prop_of param ''format''), ims)) (\<lambda>(str0, ims1).
       bindR (if truthy (prop_of param ''$ref'') then simpleRef (prop_of param ''$ref'') else Inr str0) (\<lambda>str.
         if truthy schema then
           (if truthy (prop_of schema ''$ref'') then
              bindR (simpleRef (prop_of schema ''$ref'')) (\<lambda>ref. Inr (in_array isArray ref, ims1))
            else if prop_of schema ''type'' = JStr ''object'' then addInlineModel schema ims1
            else getType schema ims1)
         else Inr (in_array isArray str, ims1))))"
  by pat_completeness auto

lemma truthy_size: "truthy (prop_of v k) \<Longrightarrow> size (prop_of v k) < size v"
  using size_prop_of [of v k] by fastforce

termination getType
  by (relation "measure (\<lambda>(p, ims). size p)") (auto intro: truthy_size)

declare getType.simps [simp del]

section \<open>Signatures and samples\<close>

definition first_type :: "jsv \<Rightarrow> jsv" where
  "first_type typ = (case typ of JArr [] \<Rightarrow> JUndef | JArr (t # ts) \<Rightarrow> t | _ \<Rightarrow> typ)"

text \<open>The model that a type names: one of the definitions, or an inline model.\<close>

definition model_of_type :: "model obj \<Rightarrow> (jsv \<Rightarrow> model option result) \<Rightarrow> jsv \<Rightarrow> model option result" where
  "model_of_type models inline t =
     (case obj_get models (to_str t) of Some m \<Rightarrow> Inr (Some m) | None \<Rightarrow> inline t)"

definition wrap_array :: "bool \<Rightarrow> string \<Rightarrow> string" where
  "wrap_array listType s = (if listType then ''Array['' @ s @ '']'' else s)"

text \<open>\<open>signature\<close> renders a model. An undefined type is the text \<open>undefined\<close>; \<open>null\<close> has no \<open>toString\<close>.\<close>

definition type_signature ::
  "(model \<Rightarrow> string result option) \<Rightarrow> model obj \<Rightarrow> (jsv \<Rightarrow> model option result) \<Rightarrow> jsv \<Rightarrow> string result option" where
  "type_signature signature models inline typ =
     (let t = first_type typ; listType = is_array typ in
      if t = JUndef then Some (Inr (wrap_array listType ''undefined''))
      else case model_of_type models inline t of
             Inl e \<Rightarrow> Some (Inl e)
           | Inr (Some m) \<Rightarrow> map_option (\<lambda>r. bindR r (\<lambda>s. Inr (wrap_array listType s))) (signature m)
           | Inr None \<Rightarrow> Some (if t = JNull \<and> \<not> listType then Inl null_error else Inr (wrap_array listType (to_str t))))"

definition getModelSignature :: "(jsv \<Rightarrow> jsv) \<Rightarrow> model obj \<Rightarrow> model list \<Rightarrow> jsv \<Rightarrow> string result option" where
  "getModelSignature macro models ims typ = type_signature (getMockSignature macro models) models (getInlineModel ims) typ"

text \<open>\<open>JSON.stringify(v, null, 2)\<close>, at an indentation.\<close>

definition pad :: "nat \<Rightarrow> string" where
  "pad n = CHR 0x0A # replicate n CHR '' ''"

function json_pretty :: "nat \<Rightarrow> jsv \<Rightarrow> string" where
  "json_pretty n v = (case v of
      JArr xs \<Rightarrow>
        if xs = [] then ''[]''
        else ''['' @ pad (n + 2) @ js_join ('','' @ pad (n + 2)) (map (json_pretty (n + 2)) xs) @ pad n @ '']''
    | JObj o1 \<Rightarrow>
        (let o2 = filter (\<lambda>(k, v). v \<noteq> JUndef) o1
         in if o2 = [] then ''{}''
            else ''{'' @ pad (n + 2) @ js_join ('','' @ pad (n + 2))
                   (map (\<lambda>(k, v). json_string k @ '': '' @ json_pretty (n + 2) v) o2) @ pad n @ ''}'')
    | _ \<Rightarrow> json_text v)"
  by pat_completeness auto
termination
  by (relation "measure (\<lambda>(n, v). size v)") (auto dest: size_entry size_elem simp del: jsv.size)

declare json_pretty.simps [simp del]

text \<open>
  \<open>sample\<close> is \<open>createJSONSample\<close>. The first element of an array is asked for its \<open>nodeName\<close>, so it must not be \<open>null\<close>;
  no value has the type \<open>Node\<close>.
\<close>

definition type_sample :: "(model \<Rightarrow> jsv result) \<Rightarrow> model obj \<Rightarrow> (jsv \<Rightarrow> model option result) \<Rightarrow> jsv \<Rightarrow> jsv result" where
  "type_sample sample models inline typ =
     bindR (model_of_type models inline (first_type typ)) (\<lambda>om.
     bindR (case om of None \<Rightarrow> Inr JUndef | Some m \<Rightarrow> sample m) (\<lambda>s.
       if truthy s then
         (let v = (if is_array typ then JArr [s] else s) in
          case v of
            JArr (t # ts) \<Rightarrow> bindR (get_prop t ''nodeName'') (\<lambda>_. Inr (JStr (json_pretty 0 v)))
          | JArr [] \<Rightarrow> Inr (JStr (json_pretty 0 v))
          | JObj o1 \<Rightarrow> Inr (JStr (json_pretty 0 v))
          | _ \<Rightarrow> Inr v)
       else Inr JUndef))"

definition getModelSampleJSON ::
  "(string \<Rightarrow> jsv result) \<Rightarrow> string \<Rightarrow> (jsv \<Rightarrow> jsv) \<Rightarrow> model obj \<Rightarrow> model list \<Rightarrow> jsv \<Rightarrow> jsv result" where
  "getModelSampleJSON safeLoad now macro models ims typ =
     type_sample (getSampleValue safeLoad now macro models []) models (getInlineModel ims) typ"

section \<open>The page\<close>

text \<open>
  On the page \<open>getInlineModel\<close> reads the list from \<open>this\<close>, which is the window there and has none. The sample of a model
  with examples is first computed from its JSON examples, and the result is dropped; what is returned is the sample of
  the definition with all examples as its example. The models that this call passes on are the examples; a definition that is
  nested in a schema and refers to a model, which alone would need them, finds none here.
\<close>

definition getInlineModel_page :: "jsv \<Rightarrow> model option result" where
  "getInlineModel_page inlineStr = Inr None"

definition load_example :: "(string \<Rightarrow> jsv result) \<Rightarrow> jsv \<Rightarrow> jsv result" where
  "load_example safeLoad e = (case e of JStr s \<Rightarrow> safeLoad s | _ \<Rightarrow> Inr e)"

definition createJSONSample ::
  "(string \<Rightarrow> jsv result) \<Rightarrow> string \<Rightarrow> (jsv \<Rightarrow> jsv) \<Rightarrow> model obj \<Rightarrow> model \<Rightarrow> jsv result" where
  "createJSONSample safeLoad now macro models m =
     bindR (mapR (\<lambda>(k, e). load_example safeLoad e)
              (filter (\<lambda>(k, e). starts_with ''application/json'' k) (case m_examples m of JObj ex \<Rightarrow> ex | _ \<Rightarrow> []))) (\<lambda>_.
       if truthy (m_examples m) then
         bindR (load_example safeLoad (m_examples m)) (\<lambda>e.
         bindR (put_prop ''example'' e (m_definition m)) (\<lambda>d. schemaToJSON_page now macro [] [m_name m] d))
       else schemaToJSON_page now macro models [m_name m] (m_definition m))"

definition getParameterModelSignature :: "(jsv \<Rightarrow> jsv) \<Rightarrow> model obj \<Rightarrow> jsv \<Rightarrow> string result option" where
  "getParameterModelSignature macro models typ =
     type_signature (\<lambda>m. getModelSignature_page macro models (JStr (m_name m)) (m_definition m)) models getInlineModel_page typ"

definition createParameterJSONSample ::
  "(string \<Rightarrow> jsv result) \<Rightarrow> string \<Rightarrow> (jsv \<Rightarrow> jsv) \<Rightarrow> model obj \<Rightarrow> jsv \<Rightarrow> jsv result" where
  "createParameterJSONSample safeLoad now macro models typ =
     type_sample (createJSONSample safeLoad now macro models) models getInlineModel_page typ"

section \<open>The values of a parameter\<close>

text \<open>\<open>===\<close>: two objects or arrays of a specification are different.\<close>

definition js_same :: "jsv \<Rightarrow> jsv \<Rightarrow> bool" where
  "js_same v w \<longleftrightarrow> \<not> is_object v \<and> v = w"

definition isDefaultArrayItemValue :: "jsv \<Rightarrow> jsv obj \<Rightarrow> bool" where
  "isDefaultArrayItemValue value param =
     (case arg param ''default'' of JArr xs \<Rightarrow> list_ex (js_same value) xs | d \<Rightarrow> js_same value d)"

definition enum_values :: "jsv obj \<Rightarrow> jsv" where
  "enum_values param =
     js_or (arg param ''enum'') (let items = arg param ''items'' in if truthy items then prop_of items ''enum'' else items)"

text \<open>What the loop up to \<open>length\<close> visits. An object with a \<open>length\<close> is not represented.\<close>

definition listed_values :: "jsv \<Rightarrow> jsv list result" where
  "listed_values v = (case v of
      JArr xs \<Rightarrow> Inr xs
    | JStr s \<Rightarrow> Inr (map (\<lambda>c. JStr [c]) s)
    | JUndef \<Rightarrow> Inl null_error
    | JNull \<Rightarrow> Inl null_error
    | _ \<Rightarrow> Inr [])"

definition is_default :: "jsv \<Rightarrow> jsv \<Rightarrow> bool" where
  "is_default d value \<longleftrightarrow> js_same value d \<or> JStr (to_str value) = d"

definition allowable :: "jsv \<Rightarrow> jsv list \<Rightarrow> jsv" where
  "allowable d vs = JObj [(''values'', JArr vs),
     (''descriptiveValues'', JArr (map (\<lambda>v. JObj [(''value'', JStr (to_str v)), (''isDefault'', JBool (is_default d v))]) vs))]"

definition describe_values :: "jsv obj \<Rightarrow> jsv obj result" where
  "describe_values param =
     (if enum_values param = JUndef then Inr param
      else bindR (listed_values (enum_values param)) (\<lambda>vs.
        Inr (obj_set ''allowableValues'' (allowable (arg param ''default'') vs) param)))"

definition boolean_values :: "jsv \<Rightarrow> jsv obj \<Rightarrow> jsv obj" where
  "boolean_values innerType param =
     (if truthy innerType \<and> to_lower (to_str innerType) = ''boolean'' then
        obj_set ''enum'' (JArr [JBool True, JBool False]) (obj_set ''isList'' (JBool True) (obj_set ''allowableValues'' (JObj []) param))
      else param)"

definition example_default :: "jsv obj \<Rightarrow> jsv obj" where
  "example_default param =
     (let p = (if arg param ''x-example'' \<noteq> JUndef then obj_set ''default'' (arg param ''x-example'') param else param);
          d = prop_of (arg p ''x-examples'') ''default''
      in if truthy (arg p ''x-examples'') \<and> d \<noteq> JUndef then obj_set ''default'' d p else p)"

text \<open>The loop of the constructor over the parameters, up to the type and the values of one of them.\<close>

definition type_param :: "(jsv obj \<Rightarrow> jsv) \<Rightarrow> jsv obj \<Rightarrow> model list \<Rightarrow> (jsv \<times> jsv obj \<times> model list) result" where
  "type_param parameterMacro param ims =
     (let listed = (arg param ''type'' = JStr ''array'');
          p0 = obj_set ''default'' (parameterMacro param) param;
          p1 = (if listed then obj_set ''allowMultiple'' (JBool True) (obj_set ''isList'' (JBool True) p0) else p0)
      in bindR (getType (JObj p1) ims) (\<lambda>(innerType, ims1).
         bindR (extract_all (boolean_values innerType p1)) (\<lambda>p2.
         bindR (describe_values (example_default p2)) (\<lambda>p3.
           Inr (if listed then JArr [innerType] else innerType,
                if listed \<and> arg p3 ''allowableValues'' = JUndef then obj_del ''allowMultiple'' (obj_del ''isList'' p3) else p3,
                ims1)))))"

definition bindT :: "'a result option \<Rightarrow> ('a \<Rightarrow> 'b result option) \<Rightarrow> 'b result option" where
  "bindT m f = (case m of None \<Rightarrow> None | Some (Inl e) \<Rightarrow> Some (Inl e) | Some (Inr a) \<Rightarrow> f a)"

text \<open>Of \<open>modelSignature\<close> only the type is kept: its definitions are the models of the operation.\<close>

definition describe_param ::
  "(jsv \<Rightarrow> string result option) \<Rightarrow> (jsv \<Rightarrow> jsv result) \<Rightarrow> jsv \<times> jsv obj \<Rightarrow> jsv obj result option" where
  "describe_param signature sample tp =
     (case tp of (innerType, param) \<Rightarrow>
        bindT (signature innerType) (\<lambda>sig.
        bindT (Some (sample innerType)) (\<lambda>json.
          Some (Inr (obj_set ''responseClassSignature'' (JStr sig) (obj_set ''sampleJSON'' json
            (obj_set ''signature'' (JStr sig) (obj_set ''modelSignature'' (JObj [(''type'', innerType)]) param))))))))"

fun describe_params ::
  "(string \<Rightarrow> jsv result) \<Rightarrow> string \<Rightarrow> (jsv \<Rightarrow> jsv) \<Rightarrow> (jsv obj \<Rightarrow> jsv) \<Rightarrow> model obj \<Rightarrow> jsv obj list \<Rightarrow> model list
     \<Rightarrow> (jsv obj list \<times> model list) result option" where
  "describe_params safeLoad now macro parameterMacro models [] ims = Some (Inr ([], ims))"
| "describe_params safeLoad now macro parameterMacro models (p # ps) ims =
     bindT (Some (type_param parameterMacro p ims)) (\<lambda>(innerType, p1, ims1).
     bindT (describe_param (getModelSignature macro models ims1) (getModelSampleJSON safeLoad now macro models ims1) (innerType, p1)) (\<lambda>p2.
     bindT (describe_params safeLoad now macro parameterMacro models ps ims1) (\<lambda>(ps2, ims2).
       Some (Inr (p2 # ps2, ims2)))))"

definition help_text :: "string \<Rightarrow> string \<Rightarrow> jsv obj list \<Rightarrow> string" where
  "help_text nickname summary params =
     nickname @ '': '' @ summary @ [CHR 0x0A]
     @ concat (map (\<lambda>p. [CHR 0x0A] @ ''  * '' @ to_str (arg p ''name'') @ '' ('' @ to_str (arg p ''signature'') @ ''): ''
         @ to_str (arg p ''description'')) params)"

section \<open>The response of success\<close>

definition response_codes :: "string list" where
  "response_codes = [''200'', ''201'', ''202'', ''203'', ''204'', ''205'', ''206'', ''default'']"

definition defaultResponseCode :: "jsv obj \<Rightarrow> string option" where
  "defaultResponseCode responses = List.find (\<lambda>c. truthy (arg responses c)) response_codes"

definition extract_header :: "jsv \<Rightarrow> jsv result" where
  "extract_header h = (case h of JObj o1 \<Rightarrow> bindR (extract_all o1) (\<lambda>o2. Inr (JObj o2)) | _ \<Rightarrow> Inr h)"

definition extract_headers :: "jsv \<Rightarrow> jsv result" where
  "extract_headers response =
     (case response of
        JNull \<Rightarrow> Inl null_error
      | JObj o1 \<Rightarrow>
          (case arg o1 ''headers'' of
             JObj hs \<Rightarrow> bindR (mapR (\<lambda>(k, h). bindR (extract_header h) (\<lambda>h'. Inr (k, h'))) hs) (\<lambda>hs'.
               Inr (JObj (obj_set ''headers'' (JObj hs') o1)))
           | JArr hs \<Rightarrow> bindR (mapR extract_header hs) (\<lambda>hs'. Inr (JObj (obj_set ''headers'' (JArr hs') o1)))
           | _ \<Rightarrow> Inr response)
      | _ \<Rightarrow> Inr response)"

definition extract_response :: "string \<Rightarrow> jsv obj \<Rightarrow> jsv obj result" where
  "extract_response keyname responses =
     bindR (extractExtensions keyname responses JUndef) (\<lambda>rs.
       if index_of ''x-'' keyname = -1 then
         bindR (extract_headers (arg rs keyname)) (\<lambda>r. Inr (obj_set keyname r rs))
       else Inr rs)"

text \<open>A resolved or an inline model, or the schema of a primitive type, with what is attached to it.\<close>

record success =
  s_code :: string
  s_value :: "model + jsv"
  s_vendorExtensions :: jsv
  s_description :: jsv
  s_examples :: jsv
  s_headers :: jsv

definition success_value :: "jsv obj \<Rightarrow> jsv \<Rightarrow> (model + jsv) result" where
  "success_value definitions schema =
     bindR (resolveModel definitions schema) (\<lambda>m. case m of
       Some m \<Rightarrow> Inr (Inl m)
     | None \<Rightarrow>
         if \<not> truthy (prop_of schema ''type'') \<or> container_type (prop_of schema ''type'') then
           bindR (Model JUndef schema) (\<lambda>m. Inr (Inl m))
         else Inr (Inr schema))"

definition with_examples :: "jsv \<Rightarrow> model + jsv \<Rightarrow> model + jsv" where
  "with_examples e v = (case v of Inl m \<Rightarrow> Inl (if truthy e then m\<lparr>m_examples := e\<rparr> else m) | Inr s \<Rightarrow> Inr s)"

definition truthy_only :: "jsv \<Rightarrow> jsv" where
  "truthy_only v = (if truthy v then v else JUndef)"

text \<open>The result is what is left of the responses, the response of success and what becomes the type of the operation.\<close>

definition success_response :: "jsv obj \<Rightarrow> jsv obj \<Rightarrow> (jsv obj \<times> success option \<times> jsv) result" where
  "success_response definitions responses =
     bindR (foldR extract_response (obj_keys responses) responses) (\<lambda>rs.
       case defaultResponseCode responses of
         None \<Rightarrow> Inr (rs, None, JNull)
       | Some c \<Rightarrow>
           bindR (extract_header (arg rs c)) (\<lambda>response.
             let rs1 = obj_set c response rs; schema = prop_of response ''schema'' in
             if truthy schema then
               bindR (success_value definitions schema) (\<lambda>v.
                 Inr (obj_del c rs1,
                   Some \<lparr>s_code = c, s_value = with_examples (prop_of response ''examples'') v,
                     s_vendorExtensions = prop_of response ''vendorExtensions'',
                     s_description = truthy_only (prop_of response ''description''),
                     s_examples = truthy_only (prop_of response ''examples''),
                     s_headers = truthy_only (prop_of response ''headers'')\<rparr>, response))
             else Inr (rs1, None, JNull)))"

section \<open>The other fields\<close>

definition deprecated_flag :: "jsv \<Rightarrow> jsv" where
  "deprecated_flag v = (case v of
      JStr s \<Rightarrow>
        (if to_lower s \<in> {''true'', ''yes'', ''1''} then JBool True
         else if to_lower s \<in> {''false'', ''no'', ''0''} then JBool False
         else JBool (s \<noteq> []))
    | _ \<Rightarrow> v)"

definition trim_basePath :: "string \<Rightarrow> string" where
  "trim_basePath b = (if b \<noteq> ''/'' \<and> ends_with ''/'' b then butlast b else b)"

text \<open>\<open>x || errors.push(message)\<close> gives the new number of errors when \<open>x\<close> is missing.\<close>

definition or_error :: "jsv \<Rightarrow> string \<Rightarrow> string list \<Rightarrow> jsv \<times> string list" where
  "or_error v message errors =
     (if truthy v then (v, errors) else (JNum (int (length errors) + 1), errors @ [message]))"

definition operation_names :: "jsv \<Rightarrow> jsv \<Rightarrow> jsv \<Rightarrow> (jsv \<times> jsv \<times> jsv) \<times> string list" where
  "operation_names operationId httpMethod path =
     (case or_error httpMethod (''Operation '' @ to_str operationId @ '' is missing method.'') [] of (meth, e1) \<Rightarrow>
      case or_error operationId ''Operations must have a nickname.'' e1 of (nickname, e2) \<Rightarrow>
      case or_error path (''Operation '' @ to_str nickname @ '' is missing path.'') e2 of (p, e3) \<Rightarrow>
        ((meth, nickname, p), e3))"

section \<open>Inline models are found\<close>

lemma is_inline_name_inlineName [simp]: "is_inline_name (inlineName i)"
proof -
  have "show_nat i \<noteq> []" by (subst show_nat.simps) simp
  then show ?thesis using show_nat_digits [of _ i] by (simp add: is_inline_name_def inlineName_def list_all_iff)
qed

lemma trim_number: "js_trim ('' '' @ show_nat i) = show_nat i"
proof -
  have digit: "\<not> is_space c" if "c \<in> set (show_nat i)" for c
    using show_nat_digits [OF that] by (auto simp: is_digit_def is_space_def)
  then have "dropWhile is_space (show_nat i) = show_nat i" "dropWhile is_space (rev (show_nat i)) = rev (show_nat i)"
    using hd_in_set [of "show_nat i"] hd_in_set [of "rev (show_nat i)"] by (auto simp: dropWhile_eq_self_iff)
  then show ?thesis by (simp add: js_trim_def is_space_def)
qed

lemma getInlineModel_inlineName: "getInlineModel ims (JStr (inlineName i)) = Inr (if i < length ims then Some (ims ! i) else None)"
proof -
  have "js_trim (drop (length ''Inline Model'') (inlineName i)) = show_nat i" using trim_number by (simp add: inlineName_def)
  then show ?thesis by (simp add: getInlineModel_def digits_val_show_nat Let_def)
qed

lemma resolveModel_inline:
  "arg s ''$ref'' = JUndef \<Longrightarrow> arg s ''type'' = JStr ''object'' \<Longrightarrow> \<exists>m. resolveModel [] (JObj s) = Inr (Some m) \<and> m_definition m = JObj s"
  by (simp add: resolveModel_def get_prop_def is_object_def Model_def)

lemma addInlineModel_appends: "addInlineModel schema ims = Inr (t, ims') \<Longrightarrow> \<exists>new. ims' = ims @ new"
  by (auto simp: addInlineModel_def bindR_Inr_iff split: option.splits)

lemma getType_appends: "getType param ims = Inr (t, ims') \<Longrightarrow> \<exists>new. ims' = ims @ new"
proof (induction param ims arbitrary: t ims' rule: getType.induct)
  case (1 param ims)
  define schema where "schema = prop_of param ''schema''"
  from "1.prems" [unfolded getType.simps [of param ims]] obtain str0 ims1 str where
    ty: "get_prop param ''type'' = Inr (prop_of param ''type'')" and
    a: "(if prop_of param ''type'' = JStr ''array'' then (if truthy (prop_of param ''items'') then getType (prop_of param ''items'') ims else Inr (JUndef, ims))
        else Inr (plain_type (prop_of param ''type'') (prop_of param ''format''), ims)) = Inr (str0, ims1)"
    and s: "(if truthy (prop_of param ''$ref'') then simpleRef (prop_of param ''$ref'') else Inr str0) = Inr str"
    and b: "(if truthy schema then
           (if truthy (prop_of schema ''$ref'') then
              bindR (simpleRef (prop_of schema ''$ref'')) (\<lambda>ref. Inr (in_array (prop_of param ''type'' = JStr ''array'') ref, ims1))
            else if prop_of schema ''type'' = JStr ''object'' then addInlineModel schema ims1
            else getType schema ims1)
         else Inr (in_array (prop_of param ''type'' = JStr ''array'') str, ims1)) = Inr (t, ims')"
    unfolding Let_def schema_def by (auto simp: bindR_Inr_iff get_prop_Inr_iff)
  have "\<exists>new. ims1 = ims @ new"
    using a "1.IH"(1) [OF ty refl refl refl] by (auto split: if_splits)
  moreover have "\<exists>new. ims' = ims1 @ new"
  proof (cases "truthy schema \<and> \<not> truthy (prop_of schema ''$ref'') \<and> prop_of schema ''type'' \<noteq> JStr ''object''")
    case True
    then show ?thesis using b "1.IH"(2) [OF ty refl refl refl a refl s] unfolding schema_def by auto
  next
    case False
    then show ?thesis using b addInlineModel_appends by (auto simp: bindR_Inr_iff split: if_splits)
  qed
  ultimately show ?case by auto
qed

text \<open>The type of a parameter whose schema is an inline object is a name under which the operation finds exactly that
  schema again, also after the other parameters have added their models.\<close>

theorem inline_model_found:
  assumes "prop_of param ''schema'' = JObj s" "arg s ''$ref'' = JUndef" "arg s ''type'' = JStr ''object''"
    and "getType param ims = Inr (t, ims')"
  shows "(\<exists>new. ims' = ims @ new) \<and> (\<exists>m. getInlineModel (ims' @ later) t = Inr (Some m) \<and> m_definition m = JObj s)"
proof -
  have app: "\<exists>new. ims' = ims @ new" using assms(4) by (rule getType_appends)
  obtain m where m: "resolveModel [] (JObj s) = Inr (Some m)" "m_definition m = JObj s"
    using resolveModel_inline [OF assms(2,3)] by blast
  from assms(4) obtain ims1 where "addInlineModel (JObj s) ims1 = Inr (t, ims')"
    by (subst (asm) getType.simps) (auto simp: bindR_Inr_iff Let_def assms(1-3))
  then have "t = JStr (inlineName (length ims1))" "ims' = ims1 @ [m]" using m by (auto simp: addInlineModel_def)
  then have "getInlineModel (ims' @ later) t = Inr (Some m)" by (simp add: getInlineModel_inlineName nth_append)
  then show ?thesis using app m(2) by blast
qed

theorem inline_model_found_witness:
  "\<exists>t ims' m. getType (JObj [(''in'', JStr ''body''), (''schema'', JObj [(''type'', JStr ''object''), (''title'', JStr ''Pet'')])]) [] = Inr (t, ims')
     \<and> getInlineModel (ims' @ []) t = Inr (Some m) \<and> m_definition m = JObj [(''type'', JStr ''object''), (''title'', JStr ''Pet'')]"
proof -
  let ?s = "[(''type'', JStr ''object''), (''title'', JStr ''Pet'')]"
  let ?p = "JObj [(''in'', JStr ''body''), (''schema'', JObj ?s)]"
  obtain m where "resolveModel [] (JObj ?s) = Inr (Some m)" using resolveModel_inline [of ?s] by auto
  then have g: "getType ?p [] = Inr (JStr (inlineName 0), [m])"
    by (subst getType.simps) (simp add: get_prop_def addInlineModel_def plain_type_def)
  have "\<exists>m'. getInlineModel ([m] @ []) (JStr (inlineName 0)) = Inr (Some m') \<and> m_definition m' = JObj ?s"
    using inline_model_found [OF _ _ _ g, of ?s "[]"] by simp
  then show ?thesis using g by blast
qed

section \<open>The response of success\<close>

text \<open>The same responses, up to their headers and what has been collected into \<open>vendorExtensions\<close>.\<close>

definition same_response :: "jsv \<Rightarrow> jsv \<Rightarrow> bool" where
  "same_response r r' \<longleftrightarrow> (r = JUndef \<longleftrightarrow> r' = JUndef)
     \<and> (\<forall>k. k \<notin> {''headers'', ''vendorExtensions''} \<longrightarrow> prop_of r k = prop_of r' k)"

definition same_responses :: "jsv obj \<Rightarrow> jsv obj \<Rightarrow> bool" where
  "same_responses o1 o2 \<longleftrightarrow> (\<forall>c. c \<noteq> ''vendorExtensions'' \<longrightarrow> same_response (arg o1 c) (arg o2 c))"

lemma same_response_refl [simp]: "same_response r r"
  by (simp add: same_response_def)

lemma same_response_trans: "same_response a b \<Longrightarrow> same_response b c \<Longrightarrow> same_response a c"
  by (simp add: same_response_def)

lemma same_responses_refl: "same_responses o1 o1"
  by (simp add: same_responses_def)

lemma same_responses_trans: "same_responses a b \<Longrightarrow> same_responses b c \<Longrightarrow> same_responses a c"
  unfolding same_responses_def using same_response_trans by blast

lemma extractExtensions_other: "extractExtensions k o1 v = Inr o2 \<Longrightarrow> c \<noteq> ''vendorExtensions'' \<Longrightarrow> arg o2 c = arg o1 c"
  by (auto simp: extractExtensions_def Let_def split: if_splits jsv.splits)

lemma extract_all_other:
  assumes "extract_all o1 = Inr o2" "c \<noteq> ''vendorExtensions''"
  shows "arg o2 c = arg o1 c"
  using assms(1) unfolding extract_all_def
  by (rule foldR_invariant) (auto dest: extractExtensions_other [OF _ assms(2)])

lemma extract_header_same: "extract_header r = Inr r' \<Longrightarrow> same_response r r'"
  by (auto simp: extract_header_def same_response_def bindR_Inr_iff extract_all_other split: jsv.splits)

lemma extract_headers_same: "extract_headers r = Inr r' \<Longrightarrow> same_response r r'"
  by (auto simp: extract_headers_def same_response_def bindR_Inr_iff split: jsv.splits)

lemma extract_response_same:
  assumes "extract_response k o1 = Inr o2"
  shows "same_responses o1 o2"
proof -
  obtain rs where rs: "extractExtensions k o1 JUndef = Inr rs"
    and o2: "o2 = rs \<or> (\<exists>r. extract_headers (arg rs k) = Inr r \<and> o2 = obj_set k r rs)"
    using assms by (auto simp: extract_response_def bindR_Inr_iff split: if_splits)
  have "same_responses o1 rs" using extractExtensions_other [OF rs] by (simp add: same_responses_def)
  moreover have "same_responses rs o2" using o2 extract_headers_same by (auto simp: same_responses_def)
  ultimately show ?thesis by (rule same_responses_trans)
qed

lemma extract_responses_same:
  assumes "foldR extract_response ks o1 = Inr o2"
  shows "same_responses o1 o2"
  using assms same_responses_refl
proof (rule foldR_invariant)
  fix k a b
  assume "same_responses o1 a" "extract_response k a = Inr b"
  then show "same_responses o1 b" using extract_response_same same_responses_trans by blast
qed

lemma find_first: "List.find P xs = Some x \<Longrightarrow> x \<in> set xs \<and> P x \<and> (\<forall>y \<in> set (takeWhile (\<lambda>z. z \<noteq> x) xs). \<not> P y)"
proof (induction xs)
  case (Cons a xs)
  show ?case
  proof (cases "P a")
    case False
    then have "x \<in> set xs \<and> P x \<and> (\<forall>y \<in> set (takeWhile (\<lambda>z. z \<noteq> x) xs). \<not> P y)" using Cons by simp
    then show ?thesis using False by (cases "a = x") simp_all
  qed (use Cons.prems in simp)
qed simp

text \<open>The response of success is the first of 200 to 206 and \<open>default\<close> that is there; its value is made from the schema
  it has in the specification; it is removed from the responses, and every other response is kept with its description,
  its schema and its examples.\<close>

theorem response_of_success:
  assumes "success_response definitions responses = Inr (rs, Some s, ty)"
  shows "s_code s \<in> set response_codes \<and> truthy (arg responses (s_code s))
    \<and> (\<forall>c \<in> set (takeWhile (\<lambda>c. c \<noteq> s_code s) response_codes). \<not> truthy (arg responses c))
    \<and> (\<exists>v. success_value definitions (prop_of (arg responses (s_code s)) ''schema'') = Inr v
         \<and> s_value s = with_examples (prop_of (arg responses (s_code s)) ''examples'') v)
    \<and> arg rs (s_code s) = JUndef \<and> (\<forall>c. c \<noteq> s_code s \<longrightarrow> c \<noteq> ''vendorExtensions'' \<longrightarrow> same_response (arg responses c) (arg rs c))"
proof -
  from assms obtain rs0 c r v where
    rs0: "foldR extract_response (obj_keys responses) responses = Inr rs0" and c: "defaultResponseCode responses = Some c"
    and r: "extract_header (arg rs0 c) = Inr r" and v: "success_value definitions (prop_of r ''schema'') = Inr v"
    and rs: "rs = obj_del c (obj_set c r rs0)" and s: "s_code s = c" "s_value s = with_examples (prop_of r ''examples'') v"
    unfolding success_response_def by (auto simp: bindR_Inr_iff Let_def split: option.splits if_splits)
  have first: "c \<in> set response_codes \<and> truthy (arg responses c) \<and> (\<forall>d \<in> set (takeWhile (\<lambda>d. d \<noteq> c) response_codes). \<not> truthy (arg responses d))"
    using find_first c unfolding defaultResponseCode_def by fastforce
  then have "c \<noteq> ''vendorExtensions''" by (auto simp: response_codes_def)
  then have same: "same_response (arg responses c) r"
    using extract_responses_same [OF rs0] extract_header_same [OF r] same_response_trans by (auto simp: same_responses_def)
  then have "prop_of r ''schema'' = prop_of (arg responses c) ''schema''" "prop_of r ''examples'' = prop_of (arg responses c) ''examples''"
    by (simp_all add: same_response_def)
  then show ?thesis using first v s extract_responses_same [OF rs0] by (simp add: rs same_responses_def)
qed

theorem response_of_success_witness:
  "\<exists>rs s ty. success_response [] [(''404'', JObj []), (''201'', JObj [(''schema'', JObj [(''type'', JStr ''string'')])])] = Inr (rs, Some s, ty)
     \<and> s_code s = ''201'' \<and> same_response (JObj []) (arg rs ''404'')"
proof -
  let ?rs = "[(''404'', JObj []), (''201'', JObj [(''schema'', JObj [(''type'', JStr ''string'')])])]"
  have "(case success_response [] ?rs of Inr (rs, Some s, ty) \<Rightarrow> s_code s = ''201'' | _ \<Rightarrow> False)" by code_simp
  then obtain rs s ty where *: "success_response [] ?rs = Inr (rs, Some s, ty)" "s_code s = ''201''"
    by (auto split: sum.splits option.splits prod.splits)
  have "\<forall>c. c \<noteq> s_code s \<longrightarrow> c \<noteq> ''vendorExtensions'' \<longrightarrow> same_response (arg ?rs c) (arg rs c)"
    using response_of_success [OF *(1)] by blast
  from this [rule_format, of "''404''"] *(2) have "same_response (JObj []) (arg rs ''404'')" by simp
  then show ?thesis using * by auto
qed

section \<open>The values to choose from\<close>

lemma example_default_other: "c \<noteq> ''default'' \<Longrightarrow> arg (example_default p) c = arg p c"
  by (simp add: example_default_def Let_def)

lemma enum_values_default: "enum_values (example_default p) = enum_values p"
  by (simp add: enum_values_def example_default_other)

text \<open>A parameter with an enumeration, its own or that of its items, gets one choice for each value in their order,
  shown as its text, and the choices marked as default are those equal to the default of the parameter or to its text; a
  boolean parameter gets the choices true and false.\<close>

theorem choices_of_parameter:
  assumes "type_param macro param ims = Inr (t, p, ims')" "enum_values p \<noteq> JUndef"
  shows "\<exists>vs. listed_values (enum_values p) = Inr vs \<and> arg p ''allowableValues'' = allowable (arg p ''default'') vs
    \<and> (enum_values p = enum_values param \<or> enum_values p = JArr [JBool True, JBool False])"
proof -
  define p1 where "p1 = (let p0 = obj_set ''default'' (macro param) param in
    if arg param ''type'' = JStr ''array'' then obj_set ''allowMultiple'' (JBool True) (obj_set ''isList'' (JBool True) p0) else p0)"
  from assms(1) obtain i p2 p3 where
    p2: "extract_all (boolean_values i p1) = Inr p2" and p3: "describe_values (example_default p2) = Inr p3"
    and p: "p = p3 \<or> p = obj_del ''allowMultiple'' (obj_del ''isList'' p3)"
    unfolding type_param_def Let_def p1_def by (auto simp: bindR_Inr_iff)
  have "enum_values p2 = enum_values (boolean_values i p1)" using extract_all_other [OF p2] by (simp add: enum_values_def)
  also have "\<dots> = enum_values param \<or> \<dots> = JArr [JBool True, JBool False]"
    by (auto simp: boolean_values_def enum_values_def p1_def Let_def)
  finally have e2: "enum_values p2 = enum_values param \<or> enum_values p2 = JArr [JBool True, JBool False]" .
  have ep: "enum_values p = enum_values p3" "arg p ''default'' = arg p3 ''default''" "arg p ''allowableValues'' = arg p3 ''allowableValues''"
    using p by (auto simp: enum_values_def)
  have e3: "enum_values p3 = enum_values p2"
    using p3 by (auto simp: describe_values_def bindR_Inr_iff enum_values_default split: if_splits) (simp_all add: enum_values_def example_default_other)
  then obtain vs where vs: "listed_values (enum_values p2) = Inr vs"
    and p3': "p3 = obj_set ''allowableValues'' (allowable (arg (example_default p2) ''default'') vs) (example_default p2)"
    using p3 assms(2) ep by (auto simp: describe_values_def bindR_Inr_iff enum_values_default split: if_splits)
  then have "arg p3 ''allowableValues'' = allowable (arg p3 ''default'') vs" by simp
  then show ?thesis using vs e2 e3 ep by auto
qed

theorem choices_of_parameter_witness:
  "\<exists>t p ims'. type_param (\<lambda>p. arg p ''default'') [(''type'', JStr ''string''), (''enum'', JArr [JStr ''asc'', JStr ''desc'']), (''default'', JStr ''asc'')] []
       = Inr (t, p, ims')
     \<and> (\<exists>vs. listed_values (enum_values p) = Inr vs \<and> arg p ''allowableValues'' = allowable (arg p ''default'') vs)"
proof -
  let ?p = "[(''type'', JStr ''string''), (''enum'', JArr [JStr ''asc'', JStr ''desc'']), (''default'', JStr ''asc'')]"
  have "getType (JObj ?p) [] = Inr (JStr ''string'', [])"
    by (subst getType.simps) (simp add: get_prop_def plain_type_def in_array_def)
  moreover have "(case extract_all (boolean_values (JStr ''string'') ?p) of Inr q \<Rightarrow>
      (case describe_values (example_default q) of Inr r \<Rightarrow> enum_values r \<noteq> JUndef | _ \<Rightarrow> False) | _ \<Rightarrow> False)"
    by code_simp
  ultimately obtain t p ims' where *: "type_param (\<lambda>p. arg p ''default'') ?p [] = Inr (t, p, ims')" "enum_values p \<noteq> JUndef"
    by (auto simp: type_param_def Let_def split: sum.splits)
  then show ?thesis using choices_of_parameter [OF *] by blast
qed

section \<open>Building the parameters ends\<close>

lemma type_signature_ends: "(\<And>m. \<exists>r. signature m = Some r) \<Longrightarrow> \<exists>r. type_signature signature models inline t = Some r"
  by (auto simp: type_signature_def Let_def split: sum.splits option.splits)

lemma bindT_ends: "\<exists>r. m = Some r \<Longrightarrow> (\<And>a. \<exists>r. f a = Some r) \<Longrightarrow> \<exists>r. bindT m f = Some r"
  by (auto simp: bindT_def split: option.splits sum.splits)

text \<open>The constructor gets through its parameters: every signature and every sample is computed after finitely many
  steps, whatever the parameters are and however the models refer to each other.\<close>

theorem parameters_described:
  assumes "direct_models models"
  shows "\<exists>r. describe_params safeLoad now macro parameterMacro models ps ims = Some r"
proof (induction ps arbitrary: ims)
  case (Cons p ps)
  have "\<exists>r. getModelSignature macro models ims1 t = Some r" for ims1 t
    unfolding getModelSignature_def getMockSignature_def by (intro type_signature_ends schemaToHTML_ends assms)
  then have "\<exists>r. describe_param (getModelSignature macro models ims1) sample tp = Some r" for ims1 sample tp
    unfolding describe_param_def by (cases tp) (auto intro!: bindT_ends)
  then show ?case using Cons by (auto intro!: bindT_ends split: prod.split)
qed simp

theorem parameters_described_witness:
  "direct_models tree_models
     \<and> (\<exists>r. describe_params (\<lambda>s. Inr (JStr s)) ''1970-01-01T00:00:00.000Z'' default_of (\<lambda>p. arg p ''default'') tree_models
          [[(''in'', JStr ''body''), (''schema'', JObj [(''$ref'', JStr ''#/definitions/Tree'')])]] [] = Some r)"
proof -
  have "direct_models tree_models" by code_simp
  then show ?thesis using parameters_described by blast
qed

section \<open>Where the copies differ\<close>

text \<open>An integer without a format is an \<open>integer\<close> as a parameter, and a \<open>long\<close> in a model.\<close>

lemma integer_or_long: "plain_type (JStr ''integer'') JUndef = JStr ''integer'' \<and> typeFromJsonSchema (JStr ''integer'') JUndef = JStr ''long''"
  by (simp add: plain_type_def typeFromJsonSchema_def)

text \<open>The page never finds an inline model.\<close>

lemma page_misses_inline: "getParameterModelSignature macro [] (JStr ''Inline Model 0'') = Some (Inr ''Inline Model 0'')"
  by (simp add: getParameterModelSignature_def type_signature_def model_of_type_def getInlineModel_page_def first_type_def
      wrap_array_def is_array_def)

text \<open>The page shows the examples of all content types as the sample.\<close>

lemma page_sample_of_examples:
  "createJSONSample safeLoad now macro models
     \<lparr>m_name = ''Pet'', m_definition = JObj [], m_examples = JObj [(''application/json'', JObj [(''id'', JNum 1)])]\<rparr>
   = Inr (JObj [(''application/json'', JObj [(''id'', JNum 1)])])"
  by (simp add: createJSONSample_def load_example_def put_prop_def schemaToJSON_page_def schemaToJSON.simps given_sample_def)

text \<open>A missing method becomes the number of errors.\<close>

lemma missing_method: "fst (fst (operation_names (JStr ''getPet'') JUndef (JStr ''/pet''))) = JNum 1"
  by (simp add: operation_names_def or_error_def)

end
