(* ===== verification/Response_View.thy ===== *)
theory Response_View
  imports Format_Xml Operation_Types Http
begin

text \<open>
  How the page shows the response of an operation (\<open>showStatus\<close> and \<open>wrap\<close> of \<open>OperationView\<close> in \<open>swagger-ui.js\<close>): the kind
  of display is chosen from the content and the headers. What the browser does is a parameter: parsing JSON, the
  audio formats it plays, whether it has blobs, and the url of an object. The elements of the page are the result.
\<close>

section \<open>Responses\<close>

text \<open>\<open>r_content\<close> is the content of a wrapped response, with its data and the url of its request.\<close>

record shown_response =
  r_content :: "(jsv \<times> jsv) option"
  r_data :: jsv
  r_url :: jsv
  r_headers :: jsv

datatype shown =
    NoContent
  | Download string string string
  | DownloadUnsupported
  | Json string
  | Xml string
  | Html string
  | Plain string
  | Image jsv
  | Audio jsv string
  | Location jsv
  | Anything string

record browser =
  json_parse :: "string \<Rightarrow> jsv result"
  plays_audio :: "string \<Rightarrow> bool"
  has_blob :: bool
  object_url :: "jsv \<Rightarrow> string \<Rightarrow> string"

definition content_of :: "shown_response \<Rightarrow> jsv" where
  "content_of r =
     (case (case r_content r of None \<Rightarrow> r_data r | Some (d, u) \<Rightarrow> d) of JStr s \<Rightarrow> JStr (js_trim s) | v \<Rightarrow> v)"

definition request_url :: "shown_response \<Rightarrow> jsv" where
  "request_url r = (case r_content r of None \<Rightarrow> r_url r | Some (d, u) \<Rightarrow> u)"

text \<open>The type without its parameters.\<close>

definition content_type_of :: "jsv \<Rightarrow> jsv result" where
  "content_type_of hs =
     (if truthy hs then
        (let ct = js_or (prop_of hs ''Content-Type'') (prop_of hs ''content-type'')
         in case ct of
              JStr s \<Rightarrow> if s \<noteq> [] then Inr (JStr (js_trim (hd (split_char CHR '';'' s)))) else Inr ct
            | _ \<Rightarrow> if truthy ct then Inl (no_method ''contentType.split'') else Inr ct)
      else Inr JNull)"

definition mentions :: "string \<Rightarrow> jsv \<Rightarrow> bool" where
  "mentions pat v \<longleftrightarrow> truthy v \<and> index_of pat (to_str v) \<noteq> -1"

text \<open>Headers are read only when the type does not decide already; without headers this throws.\<close>

definition is_download :: "jsv \<Rightarrow> jsv \<Rightarrow> bool result" where
  "is_download ct hs =
     (if ct = JStr ''application/octet-stream'' then Inr True
      else bindR (get_prop hs ''Content-Disposition'') (\<lambda>d.
        Inr (mentions ''attachment'' d \<or> mentions ''attachment'' (prop_of hs ''content-disposition'')
             \<or> mentions ''File Transfer'' (prop_of hs ''Content-Description'')
             \<or> mentions ''File Transfer'' (prop_of hs ''content-description''))))"

definition last_segment :: "string \<Rightarrow> string" where
  "last_segment u = rev (takeWhile (\<lambda>c. c \<noteq> CHR ''/'') (rev u))"

text \<open>\<open>/filename=([^;]*);?/\<close>.\<close>

definition disposition_name :: "jsv \<Rightarrow> string option" where
  "disposition_name d =
     (if d = JUndef then None
      else map_option (\<lambda>(a, b). takeWhile (\<lambda>c. c \<noteq> CHR '';'') b) (cut_at ''filename='' (to_str d)))"

text \<open>The link to the content: its type, its download name and the name shown.\<close>

definition download :: "browser \<Rightarrow> jsv \<Rightarrow> jsv \<Rightarrow> jsv \<Rightarrow> jsv \<Rightarrow> shown result" where
  "download b ct hs u content =
     (let typ = to_str (js_or ct (JStr ''text/html'')); href = object_url b content typ
      in case u of
           JStr us \<Rightarrow>
             bindR (get_prop hs ''content-disposition'') (\<lambda>d.
               Inr (case disposition_name (js_or d (prop_of hs ''Content-Disposition'')) of
                      Some name \<Rightarrow> Download href name name
                    | None \<Rightarrow> Download href (js_join '':'' [typ, last_segment us, href]) (last_segment us)))
         | _ \<Rightarrow> Inl (no_method ''response.url.substr''))"

definition type_is :: "jsv \<Rightarrow> string \<Rightarrow> string \<Rightarrow> bool" where
  "type_is ct exact suffix \<longleftrightarrow> ct = JStr exact \<or> ends_with suffix (to_str ct)"

definition show_json :: "browser \<Rightarrow> jsv \<Rightarrow> string" where
  "show_json b content =
     (case json_parse b (to_str content) of
        Inr v \<Rightarrow> json_pretty 0 v
      | Inl e \<Rightarrow> ''can'' @ [CHR 0x27] @ ''t parse JSON.  Raw result:'' @ [LF, LF] @ to_str content)"

definition showStatus :: "browser \<Rightarrow> shown_response \<Rightarrow> shown result" where
  "showStatus b r =
     (let content = content_of r; hs = r_headers r in
      bindR (content_type_of hs) (\<lambda>ct.
        if \<not> truthy content then Inr NoContent
        else bindR (is_download ct hs) (\<lambda>d.
          if d then (if has_blob b then download b ct hs (r_url r) content else Inr DownloadUnsupported)
          else if type_is ct ''application/json'' ''+json'' then Inr (Json (show_json b content))
          else if type_is ct ''application/xml'' ''+xml'' then
            (case content of JStr s \<Rightarrow> Inr (Xml (formatXml_view s)) | _ \<Rightarrow> Inl (no_method ''xml.replace''))
          else if ct = JStr ''text/html'' then Inr (Html (to_str content))
          else if index_of ''text/plain'' (to_str ct) \<noteq> -1 then Inr (Plain (to_str content))
          else if starts_with ''image/'' (to_str ct) then Inr (Image content)
          else if starts_with ''audio/'' (to_str ct) \<and> plays_audio b (to_str ct) then Inr (Audio (request_url r) (to_str ct))
          else if truthy (prop_of hs ''location'') \<or> truthy (prop_of hs ''Location'') then Inr (Location (r_url r))
          else Inr (Anything (to_str content)))))"

text \<open>The curl command as the page shows it: the text of the escaped command.\<close>

definition shown_curl :: "string \<Rightarrow> string" where
  "shown_curl cmd = js_replace ''!'' ''&#33;'' cmd"

section \<open>Wrapped responses\<close>

text \<open>\<open>/^([^:]*?):(.*)$/\<close> on a piece between carriage returns.\<close>

definition wrap_header :: "string \<Rightarrow> jsv obj \<Rightarrow> jsv obj" where
  "wrap_header line hs =
     (case cut_at '':'' line of
        None \<Rightarrow> hs
      | Some (k, v) \<Rightarrow> if LF \<in> set v \<or> CR \<in> set v then hs else obj_set (js_trim k) (JStr (js_trim v)) hs)"

definition wrap_headers :: "string \<Rightarrow> jsv obj" where
  "wrap_headers s = fold wrap_header (split_char CR s) []"

definition wrap :: "jsv \<Rightarrow> xhr \<Rightarrow> shown_response" where
  "wrap invocationUrl x =
     \<lparr>r_content = Some (JStr (x_responseText x), invocationUrl), r_data = JUndef, r_url = JUndef,
      r_headers = JObj (wrap_headers (x_headers x))\<rparr>"

section \<open>The two parsers of headers agree\<close>

lemma wrap_header_text:
  assumes "header_ok (k, v)" "CR \<notin> set v" "p = [] \<or> p = [LF]"
  shows "wrap_header (p @ k @ '': '' @ v) hs = obj_set k (JStr v) hs"
proof -
  have "cut_at '':'' ((p @ k) @ CHR '':'' # CHR '' '' # v) = Some (p @ k, CHR '' '' # v)"
    using assms by (intro cut_at_first) (auto simp: header_ok_def)
  moreover have "js_trim k = k" by (rule trim_fix) (use assms in \<open>auto simp: header_ok_def\<close>)
  then have "js_trim (p @ k) = k" using assms(3) trim_left [of LF k] by (auto simp: is_space_def)
  moreover have "js_trim (CHR '' '' # v) = v"
    using trim_left [of "CHR '' ''" v] trim_fix [of v] assms(1) by (cases "v = []") (auto simp: header_ok_def is_space_def js_trim_def)
  moreover have "LF \<notin> set v" using assms(1) by (auto simp: header_ok_def)
  ultimately show ?thesis using assms(2) by (simp add: wrap_header_def)
qed

lemma fold_wrap_headers:
  assumes "\<forall>kv \<in> set kvs. header_ok kv \<and> CR \<notin> set (fst kv) \<and> CR \<notin> set (snd kv)" "distinct (map fst kvs)"
    "set (map fst kvs) \<inter> set (obj_keys hs) = {}" "p = [] \<or> p = [LF]"
  shows "fold wrap_header (split_char CR (p @ concat (map (\<lambda>kv. header_text kv @ [LF]) kvs))) hs
    = hs @ map (\<lambda>(k, v). (k, JStr v)) kvs"
  using assms
proof (induction kvs arbitrary: hs p)
  case Nil
  then have "CHR '':'' \<notin> set p" by auto
  then show ?case using Nil by (auto simp: split_char_absent wrap_header_def cut_at_absent)
next
  case (Cons kv kvs)
  obtain k v where kv: "kv = (k, v)" by (cases kv)
  let ?rest = "concat (map (\<lambda>kv. header_text kv @ [LF]) kvs)"
  have "split_char CR (p @ concat (map (\<lambda>kv. header_text kv @ [LF]) (kv # kvs)))
      = split_char CR ((p @ k @ '': '' @ v) @ CR # [LF] @ ?rest)"
    by (simp add: kv header_text_def)
  also have "\<dots> = (p @ k @ '': '' @ v) # split_char CR ([LF] @ ?rest)"
    using Cons.prems by (intro split_char_first) (auto simp: kv)
  finally have split: "split_char CR (p @ concat (map (\<lambda>kv. header_text kv @ [LF]) (kv # kvs)))
      = (p @ k @ '': '' @ v) # split_char CR ([LF] @ ?rest)" .
  have "wrap_header (p @ k @ '': '' @ v) hs = hs @ [(k, JStr v)]"
    using Cons.prems wrap_header_text [of k v p hs] by (simp add: kv obj_set_append)
  moreover have "set (map fst kvs) \<inter> set (obj_keys (hs @ [(k, JStr v)])) = {}"
    using Cons.prems(2,3) by (auto simp: kv obj_keys_def)
  ultimately show ?case using Cons.IH [of "hs @ [(k, JStr v)]" "[LF]"] Cons.prems(1,2) unfolding split by (simp add: kv)
qed

text \<open>On the headers that a server sends, the view that wraps a response of jQuery reads the same names and values as
  the http client, although it splits at the carriage returns and the client at the line feeds.\<close>

theorem wrap_agrees:
  assumes "\<forall>kv \<in> set kvs. header_ok kv \<and> CR \<notin> set (fst kv) \<and> CR \<notin> set (snd kv)" "distinct (map fst kvs)"
    and "x_headers x = concat (map (\<lambda>kv. header_text kv @ [LF]) kvs)"
  shows "r_headers (wrap u x) = JObj (response_headers (x_headers x))"
  using fold_wrap_headers [of kvs "[]" "[]"] response_headers_list [of kvs] assms
  by (simp add: wrap_def wrap_headers_def obj_keys_def)

definition json_answer :: xhr where
  "json_answer = \<lparr>x_status = 200, x_statusText = ''OK'', x_responseText = ''{}'', x_responseJSON = JUndef,
     x_headers = ''Content-Type: application/json'' @ [CR, LF] @ ''ETag: 1'' @ [CR, LF]\<rparr>"

theorem wrap_agrees_witness: "r_headers (wrap JUndef json_answer) = JObj (response_headers (x_headers json_answer))"
  using wrap_agrees [of "[(''Content-Type'', ''application/json''), (''ETag'', ''1'')]" json_answer JUndef]
  by (simp add: json_answer_def header_ok_def header_text_def is_space_def)

section \<open>What is shown\<close>

text \<open>A JSON type with parameters is recognised, and content that is no JSON is shown as it is, with a note.\<close>

lemma json_shown:
  assumes "r_content r = None" "r_data r = JStr s" "js_trim s \<noteq> []" "r_headers r = JObj [(''Content-Type'', JStr ct)]"
    and "js_trim (takeWhile (\<lambda>c. c \<noteq> CHR '';'') ct) = ''application/json''"
  shows "showStatus b r = Inr (Json (show_json b (JStr (js_trim s))))"
proof -
  have "ct \<noteq> []" using assms(5) by (auto simp: js_trim_def)
  then have "content_type_of (r_headers r) = Inr (JStr ''application/json'')"
    using assms(4,5) by (simp add: content_type_of_def hd_split_char)
  moreover have "is_download (JStr ''application/json'') (r_headers r) = Inr False"
    using assms(4) by (simp add: is_download_def mentions_def get_prop_def)
  moreover have "content_of r = JStr (js_trim s)" using assms(1,2) by (simp add: content_of_def)
  ultimately show ?thesis using assms(3) by (simp add: showStatus_def Let_def type_is_def)
qed

text \<open>A response with content but without headers is not shown: the display throws.\<close>

lemma no_headers_throw:
  "truthy (content_of r) \<Longrightarrow> r_headers r = JUndef \<or> r_headers r = JNull \<Longrightarrow> showStatus b r = Inl null_error"
  by (auto simp: showStatus_def content_type_of_def is_download_def get_prop_def)

text \<open>The first exclamation mark of a curl command is replaced by an entity before the command is escaped, so that the page
  shows the entity itself; the command that a user copies asks for another url.\<close>

lemma curl_exclamation: "shown_curl ''curl http://h/a!b'' = ''curl http://h/a&#33;b''"
  by code_simp

end
