(* ===== verification/Page_View.thy ===== *)
theory Page_View
  imports Format_Xml Operation_Types
begin

text \<open>
  What the views of resources, operations and parameters compute before their templates are filled in (\<open>ResourceView\<close>,
  \<open>OperationView.render\<close> and \<open>ParameterView.render\<close> of \<open>swagger-ui.js\<close>). The templates and the elements of the page are not
  modelled. Security requirements map the names of schemes to lists of scopes.
\<close>

section \<open>Names of operations on the page\<close>

text \<open>\<open>used\<close> are the keys of \<open>methods\<close>; the counter starts at 0 for every operation.\<close>

function free_id :: "string list \<Rightarrow> nat \<Rightarrow> string \<Rightarrow> string" where
  "free_id used counter i = (if i \<in> set used then free_id used (counter + 1) (i @ ''_'' @ show_nat counter) else i)"
  by pat_completeness auto

definition longer :: "string list \<Rightarrow> string \<Rightarrow> nat" where
  "longer used i = card {u \<in> set used. length i \<le> length u}"

lemma longer_less: "i \<in> set used \<Longrightarrow> length i < length j \<Longrightarrow> longer used j < longer used i"
proof -
  assume i: "i \<in> set used" "length i < length j"
  then have "{u \<in> set used. length j \<le> length u} \<subseteq> {u \<in> set used. length i \<le> length u} - {i}" by auto
  then show ?thesis using i unfolding longer_def by (intro psubset_card_mono) auto
qed

termination free_id
  by (relation "measure (\<lambda>(used, counter, i). longer used i)") (simp_all add: longer_less)

declare free_id.simps [simp del]

fun number_operations :: "string list \<Rightarrow> string list \<Rightarrow> string list" where
  "number_operations used [] = []"
| "number_operations used (nickname # ns) =
     (let i = free_id used 0 nickname in i # number_operations (used @ [i]) ns)"

section \<open>Media types\<close>

definition contains :: "string list \<Rightarrow> string \<Rightarrow> nat" where
  "contains types t = length (filter (\<lambda>v. index_of t v > -1) types)"

definition isXML :: "string list \<Rightarrow> bool" where
  "isXML types \<longleftrightarrow> contains types ''xml'' \<noteq> 0"

definition isJSON :: "string list \<Rightarrow> bool" where
  "isJSON types \<longleftrightarrow> (if isXML types then contains types ''json'' \<noteq> 0 else True)"

text \<open>Whether the sample in XML is the one to be seen. \<open>showSnippet\<close> does nothing without a choice of types.\<close>

definition toggleSnippet :: "jsv \<Rightarrow> bool result" where
  "toggleSnippet typ = bindR (js_indexOf (js_or typ (JStr [])) ''xml'') (\<lambda>i. Inr (i > -1))"

definition showSnippet :: "jsv option \<Rightarrow> bool option result" where
  "showSnippet typ =
     (case typ of None \<Rightarrow> Inr None | Some v \<Rightarrow> bindR (js_indexOf v ''xml'') (\<lambda>i. Inr (Some (i > -1))))"

section \<open>Scopes of an operation\<close>

record page_auth =
  pa_name :: string
  pa_type :: string
  pa_scopes :: "string obj"

text \<open>A scheme that matches starts the list of scopes anew.\<close>

definition match_auth :: "string \<times> string list \<Rightarrow> page_auth \<Rightarrow> (string \<times> string) list option \<Rightarrow> (string \<times> string) list option" where
  "match_auth req a oauth =
     (if fst req = pa_name a \<and> pa_type a = ''oauth2'' then Some (filter (\<lambda>(k, v). k \<in> set (snd req)) (pa_scopes a)) else oauth)"

definition oauth_scopes :: "page_auth list \<Rightarrow> string list obj list \<Rightarrow> (string \<times> string) list option" where
  "oauth_scopes auths reqs = fold (\<lambda>req. fold (match_auth req) auths) (concat reqs) None"

section \<open>Responses and headers\<close>

record message =
  g_code :: string
  g_message :: jsv
  g_responseModel :: jsv
  g_headers :: jsv
  g_schema :: jsv

text \<open>\<open>/^.*#\/definitions\//\<close> goes up to the last occurrence; references have no line ends.\<close>

function behind_last :: "string \<Rightarrow> string \<Rightarrow> string" where
  "behind_last pat s =
     (if pat = [] then s else case cut_at pat s of None \<Rightarrow> s | Some (a, b) \<Rightarrow> behind_last pat b)"
  by pat_completeness auto
termination
  by (relation "measure (\<lambda>(pat, s). length s)") (auto dest: cut_at_Some)

declare behind_last.simps [simp del]

definition responseModel :: "jsv \<Rightarrow> jsv result" where
  "responseModel schema =
     (if truthy schema \<and> truthy (prop_of schema ''$ref'') then
        (case prop_of schema ''$ref'' of
           JStr r \<Rightarrow> Inr (JStr (behind_last ''#/definitions/'' r))
         | v \<Rightarrow> bindR (js_indexOf v ''#/definitions/'') (\<lambda>i. if i \<noteq> -1 then Inl (no_method ''schema.replace'') else Inr v))
      else Inr JNull)"

definition responseMessage :: "string \<times> jsv \<Rightarrow> message result" where
  "responseMessage cv =
     (case cv of (cd, value) \<Rightarrow>
        bindR (get_prop value ''schema'') (\<lambda>schema.
        bindR (responseModel schema) (\<lambda>m.
          Inr \<lparr>g_code = cd, g_message = prop_of value ''description'', g_responseModel = m,
               g_headers = prop_of value ''headers'', g_schema = schema\<rparr>)))"

definition response_messages :: "jsv obj \<Rightarrow> message list result" where
  "response_messages responses = mapR responseMessage responses"

definition header_type :: "jsv \<Rightarrow> jsv" where
  "header_type h =
     (case h of
        JObj o1 \<Rightarrow>
          if arg o1 ''type'' = JStr ''string'' then
            (if arg o1 ''format'' = JStr ''date-time'' then JObj (obj_set ''type'' (JStr ''dateTime'') o1)
             else if arg o1 ''format'' = JStr ''date'' then JObj (obj_set ''type'' (JStr ''date'') o1)
             else h)
          else h
      | _ \<Rightarrow> h)"

definition parseHeadersType :: "jsv \<Rightarrow> jsv" where
  "parseHeadersType hs =
     (case hs of JObj o1 \<Rightarrow> JObj (map (\<lambda>(k, h). (k, header_type h)) o1) | JArr xs \<Rightarrow> JArr (map header_type xs) | _ \<Rightarrow> hs)"

text \<open>The parts of a header beside its type and description. The joined text is dropped, the list is kept.\<close>

definition other_parts :: "jsv obj \<Rightarrow> jsv list" where
  "other_parts o1 =
     map (\<lambda>(k, v). JStr (k @ '': '' @ to_str v)) (filter (\<lambda>(k, v). to_lower k \<notin> {''type'', ''description''}) o1)"

definition other_header :: "jsv \<Rightarrow> jsv result" where
  "other_header h =
     (case h of
        JObj o1 \<Rightarrow> Inr (JObj (obj_set ''other'' (JArr (other_parts o1)) o1))
      | JUndef \<Rightarrow> Inl null_error
      | JNull \<Rightarrow> Inl null_error
      | _ \<Rightarrow> Inr h)"

definition parseResponseHeaders :: "jsv \<Rightarrow> jsv result" where
  "parseResponseHeaders data =
     (case data of
        JObj o1 \<Rightarrow> bindR (mapR (\<lambda>(k, h). bindR (other_header h) (\<lambda>h'. Inr (k, h'))) o1) (\<lambda>o2. Inr (JObj o2))
      | JArr xs \<Rightarrow> bindR (mapR other_header xs) (\<lambda>ys. Inr (JArr ys))
      | _ \<Rightarrow> Inr data)"

section \<open>Samples of the response of success\<close>

record signature_model =
  sampleJSON :: jsv
  sampleXML :: jsv
  sig_text :: jsv

definition stringify_sample :: "jsv \<Rightarrow> jsv" where
  "stringify_sample v = (if v = JUndef then JUndef else JStr (json_pretty 0 v))"

definition success_signature ::
  "(string \<Rightarrow> jsv result) \<Rightarrow> string \<Rightarrow> (jsv \<Rightarrow> jsv) \<Rightarrow> model obj \<Rightarrow> string list \<Rightarrow> success \<Rightarrow> signature_model result option" where
  "success_signature safeLoad now macro models types sc =
     (case s_value sc of
        Inr schema \<Rightarrow> Some (Inr \<lparr>sampleJSON = JUndef, sampleXML = JUndef, sig_text = getPrimitiveSignature schema\<rparr>)
      | Inl m \<Rightarrow>
          bindT (Some (if isJSON types then bindR (createJSONSample safeLoad now macro models m) (\<lambda>v. Inr (stringify_sample v))
                       else Inr (JBool False))) (\<lambda>json.
          bindT (Some (if isXML types then
                         bindR (createXMLSample False models (JStr (m_name m)) (m_definition m)) (\<lambda>x. Inr (JStr x))
                       else Inr (JBool False))) (\<lambda>xml.
          bindT (getModelSignature_page macro models (JStr (m_name m)) (m_definition m)) (\<lambda>sig.
            Some (Inr \<lparr>sampleJSON = json, sampleXML = xml, sig_text = JStr sig\<rparr>)))))"

section \<open>Parameters\<close>

text \<open>The type is never undefined here, so the code that would take it from a reference is not reached.\<close>

definition view_type :: "jsv obj \<Rightarrow> jsv" where
  "view_type param = js_or (arg param ''type'') (js_or (arg param ''dataType'') (JStr []))"

definition is_file :: "jsv \<Rightarrow> bool result" where
  "is_file typ =
     (if truthy typ then (case typ of JStr s \<Rightarrow> Inr (to_lower s = ''file'') | _ \<Rightarrow> Inl (no_method ''type.toLowerCase'')) else Inr False)"

text \<open>The parameters with their types, and what is consumed: a file makes it a multipart form where nothing is given.\<close>

definition type_parameter :: "jsv obj \<Rightarrow> jsv obj list \<times> jsv \<Rightarrow> (jsv obj list \<times> jsv) result" where
  "type_parameter param pc =
     (case pc of (ps, cs) \<Rightarrow>
        bindR (is_file (view_type param)) (\<lambda>file.
          Inr (ps @ [obj_set ''type'' (view_type param) param],
               if file \<and> \<not> truthy cs then JStr ''multipart/form-data'' else cs)))"

definition type_parameters :: "jsv obj list \<Rightarrow> jsv \<Rightarrow> (jsv obj list \<times> jsv) result" where
  "type_parameters params cs = foldR type_parameter params ([], cs)"

text \<open>\<open>ParameterView.render\<close>.\<close>

definition param_type :: "jsv obj \<Rightarrow> jsv result" where
  "param_type param =
     (let typ = js_or (arg param ''type'') (arg param ''dataType''); ref = prop_of (arg param ''schema'') ''$ref''
      in if typ = JUndef \<and> truthy ref then
           (case ref of
              JStr r \<Rightarrow> Inr (JStr (if starts_with ''#/definitions/'' r then drop (length ''#/definitions/'') r else r))
            | _ \<Rightarrow> bindR (js_indexOf ref ''#/definitions/'') (\<lambda>i.
                     if i = 0 then Inl (no_method ''ref.substring'') else Inr ref))
         else Inr typ)"

definition view_param :: "jsv obj \<Rightarrow> jsv obj result" where
  "view_param param =
     bindR (param_type param) (\<lambda>typ.
     bindR (if truthy typ then bindR (is_file typ) (\<lambda>b. Inr (JBool b)) else Inr typ) (\<lambda>file.
       let paramType = js_or (arg param ''in'') (arg param ''paramType'');
           d = (if arg param ''default'' = JUndef then arg param ''defaultValue'' else arg param ''default'');
           p = obj_set ''hasDefault'' (JBool (d \<noteq> JUndef)) (obj_set ''default'' d (obj_set ''isFile'' file
                 (obj_set ''isBody'' (JBool (paramType = JStr ''body'' \<or> arg param ''in'' = JStr ''body''))
                   (obj_set ''paramType'' paramType (obj_set ''type'' typ param)))))
       in Inr (if truthy (arg param ''allowableValues'') then obj_set ''isList'' (JBool True) p else p)))"

datatype param_template = param_list | param_readonly_required | param_readonly | param_required | param_plain

definition choose_template :: "bool \<Rightarrow> jsv obj \<Rightarrow> param_template" where
  "choose_template readOnly param =
     (if truthy (arg param ''isList'') then param_list
      else if readOnly then (if truthy (arg param ''required'') then param_readonly_required else param_readonly)
      else (if truthy (arg param ''required'') then param_required else param_plain))"

section \<open>The names are unique\<close>

lemma free_id_fresh: "free_id used counter i \<notin> set used"
  by (induction used counter i rule: free_id.induct) (subst free_id.simps, simp)

lemma free_id_prefix: "\<exists>t. free_id used counter i = i @ t"
proof (induction used counter i rule: free_id.induct)
  case (1 used counter i)
  then show ?case by (subst free_id.simps) force
qed

lemma free_id_unused: "i \<notin> set used \<Longrightarrow> free_id used counter i = i"
  by (simp add: free_id.simps)

lemma number_fresh: "distinct (number_operations used ns) \<and> set (number_operations used ns) \<inter> set used = {}"
proof (induction used ns rule: number_operations.induct)
  case (2 used n ns)
  then show ?case using free_id_fresh [of used 0 n] by (auto simp: Let_def)
qed simp

lemma number_prefix: "list_all2 (\<lambda>n i. \<exists>t. i = n @ t) ns (number_operations used ns)"
  by (induction used ns rule: number_operations.induct) (simp_all add: Let_def free_id_prefix)

lemma number_distinct: "distinct ns \<Longrightarrow> set ns \<inter> set used = {} \<Longrightarrow> number_operations used ns = ns"
  by (induction used ns rule: number_operations.induct) (auto simp: Let_def free_id_unused)

text \<open>On the page the operations of a group have different names: the search for a free name ends, every name starts
  with the nickname of its operation, and nicknames that are different already are not changed.\<close>

theorem nicknames_unique:
  "distinct (number_operations [] ns) \<and> list_all2 (\<lambda>n i. \<exists>t. i = n @ t) ns (number_operations [] ns)
     \<and> (distinct ns \<longrightarrow> number_operations [] ns = ns)"
  using number_fresh [of "[]" ns] number_prefix [of ns "[]"] number_distinct [of ns "[]"] by simp

theorem nicknames_unique_witness:
  "distinct (number_operations [] [''get'', ''get'', ''get_0'']) \<and> number_operations [] [''get'', ''put''] = [''get'', ''put'']"
  using nicknames_unique [of "[''get'', ''get'', ''get_0'']"] nicknames_unique [of "[''get'', ''put'']"] by simp

text \<open>Of two schemes that an operation requires, only the scopes of the last are listed.\<close>

lemma last_oauth_wins:
  "oauth_scopes [\<lparr>pa_name = ''a'', pa_type = ''oauth2'', pa_scopes = [(''read'', ''R'')]\<rparr>,
      \<lparr>pa_name = ''b'', pa_type = ''oauth2'', pa_scopes = [(''write'', ''W'')]\<rparr>]
     [[(''a'', [''read''])], [(''b'', [''write''])]] = Some [(''write'', ''W'')]"
  by code_simp

text \<open>\<open>other\<close> stays a list: the text with the separator is dropped. A second time it becomes a part of itself.\<close>

lemma other_twice:
  "bindR (parseResponseHeaders (JObj [(''h'', JObj [(''min'', JNum 1)])])) parseResponseHeaders
   = Inr (JObj [(''h'', JObj [(''min'', JNum 1), (''other'', JArr [JStr ''min: 1'', JStr ''other: min: 1''])])])"
  by code_simp

end
