(* ===== verification/Page_Auth.thy ===== *)
theory Page_Auth
  imports Auth Operation_Url Helpers
begin

text \<open>
  Authorizations on the page (\<open>SwaggerUi.utils\<close>, the authorization models, their collection and \<open>AuthView\<close> of
  \<open>swagger-ui.js\<close>): which schemes an operation needs, when a form is complete, and what is sent to log in. A Backbone model
  is the object of its attributes. Markup, events and the popup are not represented. \<open>_.merge\<close>, \<open>btoa\<close> of the browser and the
  settings of the page are arguments.
\<close>

section \<open>Security requirements\<close>

text \<open>\<open>Object.assign({}, v)\<close>.\<close>

definition assign :: "jsv \<Rightarrow> jsv obj" where
  "assign v = entries_of v"

definition parseOauth2Scopes :: "jsv \<Rightarrow> jsv" where
  "parseOauth2Scopes data = JArr (map (\<lambda>(k, v). JObj [(''scope'', JStr k), (''description'', v)]) (assign data))"

record parsed =
  singleSecurity :: "jsv obj"
  singleOauth2Security :: "jsv obj"
  all_scopes :: jsv

definition add_oauth2 :: "(jsv \<Rightarrow> jsv \<Rightarrow> jsv) \<Rightarrow> string \<Rightarrow> jsv obj \<Rightarrow> jsv \<Rightarrow> parsed \<Rightarrow> parsed" where
  "add_oauth2 merge key d scopes p =
     p\<lparr>singleOauth2Security := obj_set key (JObj (obj_set ''scopes'' scopes d)) (singleOauth2Security p),
       all_scopes := merge (all_scopes p) scopes\<rparr>"

text \<open>The body of the loop over one requirement. A scheme without a definition is skipped.\<close>

definition security_entry :: "(jsv \<Rightarrow> jsv \<Rightarrow> jsv) \<Rightarrow> jsv obj \<Rightarrow> string \<times> jsv \<Rightarrow> parsed \<Rightarrow> parsed result" where
  "security_entry merge auths kv p =
     (case kv of
        (key, JArr wanted) \<Rightarrow>
          (let d = arg auths key in
           Inr (if \<not> truthy d then p
                else if prop_of d ''type'' = JStr ''oauth2'' then
                  add_oauth2 merge key (assign d)
                    (parseOauth2Scopes (JObj (filter (\<lambda>(i, v). JStr i \<in> set wanted) (assign (prop_of d ''scopes''))))) p
                else p\<lparr>singleSecurity := obj_set key (JObj (assign d)) (singleSecurity p)\<rparr>))
      | (key, d) \<Rightarrow>
          bindR (get_prop d ''type'') (\<lambda>t.
            Inr (if t = JStr ''oauth2'' then add_oauth2 merge key (assign d) (parseOauth2Scopes (prop_of d ''scopes'')) p
                 else p\<lparr>singleSecurity := obj_set key d (singleSecurity p)\<rparr>)))"

record security_lists =
  l_auths :: "jsv obj list"
  l_oauth2 :: "jsv obj list"
  l_scopes :: jsv

definition security_item :: "(jsv \<Rightarrow> jsv \<Rightarrow> jsv) \<Rightarrow> jsv obj \<Rightarrow> jsv \<Rightarrow> security_lists \<Rightarrow> security_lists result" where
  "security_item merge auths item l =
     bindR (foldR (security_entry merge auths) (entries_of item)
              \<lparr>singleSecurity = [], singleOauth2Security = [], all_scopes = l_scopes l\<rparr>) (\<lambda>p.
       Inr \<lparr>l_auths = (if singleSecurity p \<noteq> [] then l_auths l @ [singleSecurity p] else l_auths l),
            l_oauth2 = (if singleOauth2Security p \<noteq> [] then l_oauth2 l @ [singleOauth2Security p] else l_oauth2 l),
            l_scopes = all_scopes p\<rparr>)"

definition parseSecurityDefinitions :: "(jsv \<Rightarrow> jsv \<Rightarrow> jsv) \<Rightarrow> jsv \<Rightarrow> jsv \<Rightarrow> security_lists option result" where
  "parseSecurityDefinitions merge security securityDefinitions =
     (case security of
        JArr items \<Rightarrow>
          bindR (foldR (security_item merge (assign securityDefinitions)) items \<lparr>l_auths = [], l_oauth2 = [], l_scopes = JArr []\<rparr>)
            (\<lambda>l. Inr (Some l))
      | _ \<Rightarrow> Inr None)"

section \<open>The models\<close>

datatype auth_kind = Oauth2Model | BasicAuthModel | ApiKeyAuthModel | OtherModel

record auth_model =
  kind :: auth_kind
  attributes :: "jsv obj"

definition set_valid :: "bool \<Rightarrow> auth_model \<Rightarrow> auth_model" where
  "set_valid b m = m\<lparr>attributes := obj_set ''valid'' (JBool b) (attributes m)\<rparr>"

abbreviation get_attr :: "auth_model \<Rightarrow> string \<Rightarrow> jsv" where
  "get_attr m k \<equiv> arg (attributes m) k"

text \<open>\<open>x in ['basic', 'request-body']\<close> asks for an index of the array.\<close>

definition in_two_element_array :: "jsv \<Rightarrow> bool" where
  "in_two_element_array v \<longleftrightarrow> to_str v \<in> {''0'', ''1'', ''length''}"

definition scope_checked :: "jsv \<Rightarrow> bool result" where
  "scope_checked o1 = bindR (get_prop o1 ''checked'') (\<lambda>c. Inr (c = JBool True))"

fun any_checked :: "jsv list \<Rightarrow> bool result" where
  "any_checked [] = Inr False"
| "any_checked (x # xs) = bindR (scope_checked x) (\<lambda>b. if b then Inr True else any_checked xs)"

text \<open>\<open>scopes\<close> that is not an array has no length.\<close>

definition scopes_valid :: "jsv \<Rightarrow> bool result" where
  "scopes_valid scp = (case scp of
      JArr xs \<Rightarrow> bindR (any_checked xs) (\<lambda>b. Inr (xs = [] \<or> b))
    | JUndef \<Rightarrow> Inl null_error
    | JNull \<Rightarrow> Inl null_error
    | JStr s \<Rightarrow> Inr (s = [])
    | _ \<Rightarrow> Inr False)"

definition validate_oauth2 :: "auth_model \<Rightarrow> (bool \<times> auth_model) result" where
  "validate_oauth2 m =
     (if truthy (get_attr m ''isPasswordFlow'') \<and> \<not> truthy (get_attr m ''username'') then Inr (False, m)
      else if in_two_element_array (get_attr m ''clientAuthenticationType'') \<and> \<not> truthy (get_attr m ''clientId'') then Inr (False, m)
      else bindR (scopes_valid (get_attr m ''scopes'')) (\<lambda>b. Inr (b, set_valid b m)))"

text \<open>A plain Backbone model has no \<open>validate\<close>.\<close>

fun validate :: "auth_model \<Rightarrow> (bool \<times> auth_model) result" where
  "validate m = (case kind m of
      ApiKeyAuthModel \<Rightarrow> (let b = truthy (get_attr m ''value'') in Inr (b, set_valid b m))
    | BasicAuthModel \<Rightarrow> (let b = truthy (get_attr m ''password'') \<and> truthy (get_attr m ''username'') in Inr (b, set_valid b m))
    | Oauth2Model \<Rightarrow> validate_oauth2 m
    | OtherModel \<Rightarrow> Inl (no_method ''model.validate''))"

text \<open>\<open>initialize\<close> of an OAuth2 model: scopes without a description are dropped.\<close>

definition described_scopes :: "jsv \<Rightarrow> jsv list result" where
  "described_scopes scopes =
     foldR (\<lambda>(i, scope) acc. bindR (get_prop scope ''description'') (\<lambda>d.
        Inr (case d of JStr s \<Rightarrow> acc @ [scope] | _ \<Rightarrow> acc))) (entries_of scopes) []"

definition oauth2_flow :: "jsv obj \<Rightarrow> jsv obj" where
  "oauth2_flow a =
     (let flow = arg a ''flow'' in
      if truthy flow then
        obj_set ''clientAuthentication'' (JBool (flow = JStr ''password'' \<or> flow = JStr ''application''))
          (obj_set ''requireClientAuthentication'' (JBool (flow = JStr ''application''))
            (obj_set ''isPasswordFlow'' (JBool (flow = JStr ''password'')) a))
      else a)"

definition init_oauth2 :: "jsv obj \<Rightarrow> jsv obj result" where
  "init_oauth2 a =
     (if truthy (arg a ''scopes'') then
        bindR (described_scopes (arg a ''scopes'')) (\<lambda>ss. Inr (oauth2_flow (obj_set ''scopes'' (JArr ss) a)))
      else Inr (oauth2_flow a))"

text \<open>The defaults of a Backbone model are the attributes it is not given.\<close>

definition with_attrs :: "jsv obj \<Rightarrow> jsv obj \<Rightarrow> jsv obj" where
  "with_attrs defaults a = fold (\<lambda>(k, v) b. if arg b k = JUndef then obj_set k v b else b) defaults a"

definition handleOne :: "jsv obj \<Rightarrow> auth_model result" where
  "handleOne a =
     (if arg a ''type'' = JStr ''oauth2'' then
        bindR (init_oauth2 (with_attrs [(''scopes'', JObj []), (''isPasswordFlow'', JBool False), (''clientAuthenticationType'', JStr ''none'')] a))
          (\<lambda>b. Inr \<lparr>kind = Oauth2Model, attributes = b\<rparr>)
      else if arg a ''type'' = JStr ''basic'' then
        Inr \<lparr>kind = BasicAuthModel, attributes = with_attrs [(''username'', JStr []), (''password'', JStr []), (''title'', JStr ''basic'')] a\<rparr>
      else if arg a ''type'' = JStr ''apiKey'' then
        Inr \<lparr>kind = ApiKeyAuthModel,
             attributes = with_attrs [(''in'', JStr []), (''name'', JStr []), (''title'', JStr []), (''value'', JStr [])] a\<rparr>
      else Inr \<lparr>kind = OtherModel, attributes = a\<rparr>)"

text \<open>\<open>auth.scopes[index].checked = val\<close> at the first scope of that name, then \<open>validate\<close>.\<close>

fun check_scope :: "string \<Rightarrow> jsv \<Rightarrow> jsv list \<Rightarrow> jsv list result" where
  "check_scope name val [] = Inl null_error"
| "check_scope name val (x # xs) =
     bindR (get_prop x ''scope'') (\<lambda>s.
       if s = JStr name then bindR (put_prop ''checked'' val x) (\<lambda>y. Inr (y # xs))
       else bindR (check_scope name val xs) (\<lambda>ys. Inr (x # ys)))"

definition setScopes :: "string \<Rightarrow> jsv \<Rightarrow> auth_model \<Rightarrow> auth_model result" where
  "setScopes name val m =
     bindR (check_scope name val (elements (get_attr m ''scopes''))) (\<lambda>ss.
     bindR (validate (m\<lparr>attributes := obj_set ''scopes'' (JArr ss) (attributes m)\<rparr>)) (\<lambda>(b, m'). Inr m'))"

section \<open>The collection\<close>

text \<open>\<open>authz\<close> are the authorizations in force, with the fields that are read here.\<close>

definition parse_auth :: "jsv obj \<Rightarrow> string \<times> jsv obj \<Rightarrow> jsv obj" where
  "parse_auth authz nd =
     (case nd of (name, d) \<Rightarrow>
        let a = arg authz name;
            isBasic = truthy a \<and> arg d ''type'' = JStr ''basic'' \<and> truthy (prop_of a ''username'') \<and> truthy (prop_of a ''password'');
            d1 = obj_set ''title'' (JStr name) d
        in if truthy a then
             obj_set ''valid'' (JBool True)
               (obj_set ''password'' (if isBasic then prop_of a ''password'' else JUndef)
                 (obj_set ''username'' (if isBasic then prop_of a ''username'' else JUndef)
                   (obj_set ''value'' (if isBasic then JUndef else prop_of a ''value'')
                     (obj_set ''isLogout'' (JBool True) d1))))
           else d1)"

definition AuthsCollection :: "jsv obj \<Rightarrow> (string \<times> jsv obj) list \<Rightarrow> auth_model list result" where
  "AuthsCollection authz data = mapR (\<lambda>nd. handleOne (parse_auth authz nd)) data"

fun collection_valid :: "auth_model list \<Rightarrow> (bool \<times> auth_model list) result" where
  "collection_valid [] = Inr (True, [])"
| "collection_valid (m # ms) =
     bindR (validate m) (\<lambda>(b, m'). bindR (collection_valid ms) (\<lambda>(bs, ms'). Inr (b \<and> bs, m' # ms')))"

definition logged_in :: "auth_model \<Rightarrow> bool" where
  "logged_in m \<longleftrightarrow> get_attr m ''isLogout'' = JBool True"

definition isAuthorized :: "auth_model list \<Rightarrow> bool" where
  "isAuthorized ms \<longleftrightarrow> length ms = length (filter logged_in ms)"

definition isPartiallyAuthorized :: "auth_model list \<Rightarrow> bool" where
  "isPartiallyAuthorized ms \<longleftrightarrow> length (filter logged_in ms) > 0"

section \<open>Logging in\<close>

text \<open>What the page knows: its settings, of which those not set are \<open>undefined\<close>, and the default redirect.\<close>

record oauth_page =
  redirectUrl :: string
  realm :: jsv
  clientId :: jsv
  scopeSeparator :: string
  additionalQueryStringParams :: "jsv obj"

text \<open>An unchecked scope stays in the list as \<open>undefined\<close>.\<close>

definition checked_scopes :: "jsv list \<Rightarrow> jsv list" where
  "checked_scopes scopes = map (\<lambda>s. if truthy (prop_of s ''checked'') then prop_of s ''scope'' else JUndef) scopes"

definition join_scopes :: "string \<Rightarrow> jsv list \<Rightarrow> string" where
  "join_scopes sep xs = js_join sep (map (\<lambda>x. if x = JUndef \<or> x = JNull then [] else to_str x) xs)"

definition getTokenName :: "jsv \<Rightarrow> jsv result" where
  "getTokenName dets =
     bindR (get_prop (prop_of dets ''vendorExtensions'') ''x-tokenName'') (\<lambda>t. Inr (js_or t (prop_of dets ''tokenName'')))"

definition uri :: "jsv \<Rightarrow> string" where
  "uri v = encodeURIComponent (to_str v)"

definition login_url :: "oauth_page \<Rightarrow> string \<Rightarrow> jsv list \<Rightarrow> jsv \<Rightarrow> string" where
  "login_url w start scopes state =
     start @ ''&redirect_uri='' @ encodeURIComponent (redirectUrl w) @ ''&realm='' @ uri (realm w) @ ''&client_id='' @ uri (clientId w)
     @ ''&scope='' @ encodeURIComponent (join_scopes (scopeSeparator w) scopes) @ ''&state='' @ uri state
     @ concat (map (\<lambda>(k, v). ''&'' @ k @ ''='' @ uri v) (additionalQueryStringParams w))"

text \<open>A window that is opened, or a request for a token.\<close>

record token_request =
  t_url :: jsv
  t_params :: "jsv obj"
  t_headers :: "jsv obj"

datatype login = OpenWindow string | AskToken token_request

definition accessTokenRequest ::
  "(string \<Rightarrow> string result) \<Rightarrow> jsv list \<Rightarrow> jsv \<Rightarrow> string \<Rightarrow> jsv obj \<Rightarrow> token_request result" where
  "accessTokenRequest b64 scopes oauth grantType params0 =
     (let params = obj_copy (filter (\<lambda>(k, v). v \<noteq> JUndef) params0)
                     [(''scope'', JStr (join_scopes '' '' scopes)), (''grant_type'', JStr grantType)];
          typ = prop_of oauth ''clientAuthenticationType'' in
      if typ = JStr ''basic'' then
        bindR (b64 (to_str (prop_of oauth ''clientId'') @ '':'' @ to_str (prop_of oauth ''clientSecret''))) (\<lambda>t.
          Inr \<lparr>t_url = prop_of oauth ''tokenUrl'', t_params = params, t_headers = [(''Authorization'', JStr (''Basic '' @ t))]\<rparr>)
      else Inr \<lparr>t_url = prop_of oauth ''tokenUrl'',
                t_params = (if typ = JStr ''request-body''
                            then obj_set ''client_secret'' (prop_of oauth ''clientSecret'') (obj_set ''client_id'' (prop_of oauth ''clientId'') params)
                            else params),
                t_headers = []\<rparr>)"

text \<open>The loop over the grant types of version 1.2: the last of \<open>implicit\<close> and \<open>accessCode\<close> counts.\<close>

definition grant_url :: "jsv \<Rightarrow> string result" where
  "grant_url grantTypes =
     foldR (\<lambda>(t, dets) u.
        if t = ''implicit'' then
          bindR (get_prop dets ''loginEndpoint'') (\<lambda>e. bindR (get_prop e ''url'') (\<lambda>x. bindR (getTokenName dets) (\<lambda>_.
            Inr (to_str x @ ''?response_type=token''))))
        else if t = ''accessCode'' then
          bindR (get_prop dets ''tokenRequestEndpoint'') (\<lambda>e. bindR (get_prop e ''url'') (\<lambda>x. bindR (getTokenName dets) (\<lambda>_.
            Inr (to_str x @ ''?response_type=code''))))
        else Inr u) (entries_of grantTypes) ''null''"

definition handleOauth2Login :: "(string \<Rightarrow> string result) \<Rightarrow> oauth_page \<Rightarrow> auth_model \<Rightarrow> login result" where
  "handleOauth2Login b64 w m =
     (let scopes = checked_scopes (elements (get_attr m ''scopes'')); flow = get_attr m ''flow'';
          oauth2 = (get_attr m ''type'' = JStr ''oauth2''); dets = JObj (attributes m) in
      if oauth2 \<and> (flow = JStr ''implicit'' \<or> flow = JStr ''accessCode'') then
        bindR (getTokenName dets) (\<lambda>_.
          Inr (OpenWindow (login_url w
            (to_str (get_attr m ''authorizationUrl'') @ ''?response_type='' @ (if flow = JStr ''implicit'' then ''token'' else ''code''))
            scopes (get_attr m ''title''))))
      else if oauth2 \<and> flow = JStr ''application'' then
        bindR (getTokenName dets) (\<lambda>_. bindR (accessTokenRequest b64 scopes dets ''client_credentials'' []) (\<lambda>r. Inr (AskToken r)))
      else if oauth2 \<and> flow = JStr ''password'' then
        bindR (getTokenName dets) (\<lambda>_.
        bindR (accessTokenRequest b64 scopes dets ''password''
                 [(''username'', get_attr m ''username''), (''password'', get_attr m ''password'')]) (\<lambda>r. Inr (AskToken r)))
      else if truthy (get_attr m ''grantTypes'') then
        bindR (grant_url (get_attr m ''grantTypes'')) (\<lambda>u. Inr (OpenWindow (login_url w u scopes JUndef)))
      else Inr (OpenWindow (login_url w ''null'' scopes JUndef)))"

text \<open>\<open>authorize\<close>: the authorizations of the client afterwards, and the logins that are started. \<open>logout\<close>.\<close>

definition authorize_one ::
  "(string \<Rightarrow> string result) \<Rightarrow> oauth_page \<Rightarrow> auth_model \<Rightarrow> auth obj \<times> login list \<Rightarrow> (auth obj \<times> login list) result" where
  "authorize_one b64 w m st =
     (let title = to_str (get_attr m ''title'') in
      if get_attr m ''type'' = JStr ''apiKey'' then
        Inr (add_authz title (ApiKeyAuthorization (to_str (get_attr m ''name'')) (to_str (get_attr m ''value'')) (to_str (get_attr m ''in''))) (fst st), snd st)
      else if get_attr m ''type'' = JStr ''basic'' then
        Inr (add_authz title (PasswordAuthorization (to_str (get_attr m ''username'')) (to_str (get_attr m ''password''))) (fst st), snd st)
      else if get_attr m ''type'' = JStr ''oauth2'' then
        bindR (handleOauth2Login b64 w m) (\<lambda>l. Inr (fst st, snd st @ [l]))
      else Inr st)"

definition authorize_all :: "(string \<Rightarrow> string result) \<Rightarrow> oauth_page \<Rightarrow> auth_model list \<Rightarrow> auth obj \<Rightarrow> (auth obj \<times> login list) result" where
  "authorize_all b64 w ms authz = foldR (authorize_one b64 w) ms (authz, [])"

definition authorizeClick ::
  "(string \<Rightarrow> string result) \<Rightarrow> oauth_page \<Rightarrow> auth_model list \<Rightarrow> auth obj \<Rightarrow> (auth_model list \<times> auth obj \<times> login list) result" where
  "authorizeClick b64 w ms authz =
     bindR (collection_valid ms) (\<lambda>(valid, ms').
       if valid then bindR (authorize_all b64 w ms' authz) (\<lambda>(a, ls). Inr (ms', a, ls)) else Inr (ms', authz, []))"

definition logoutClick :: "auth_model list \<Rightarrow> auth obj \<Rightarrow> auth obj" where
  "logoutClick ms authz = fold (\<lambda>m. remove_authz (to_str (get_attr m ''title''))) ms authz"

section \<open>The schemes of a requirement\<close>

definition oauth2_entry :: "jsv \<Rightarrow> jsv \<Rightarrow> jsv" where
  "oauth2_entry d wanted = JObj (obj_set ''scopes''
     (parseOauth2Scopes (JObj (filter (\<lambda>(i, v). JStr i \<in> set (elements wanted)) (assign (prop_of d ''scopes''))))) (assign d))"

lemma security_entry_array:
  "security_entry merge auths (k, JArr ws) p =
     Inr (if \<not> truthy (arg auths k) then p
          else if prop_of (arg auths k) ''type'' = JStr ''oauth2'' then
            p\<lparr>singleOauth2Security := obj_set k (oauth2_entry (arg auths k) (JArr ws)) (singleOauth2Security p),
              all_scopes := merge (all_scopes p) (prop_of (oauth2_entry (arg auths k) (JArr ws)) ''scopes'')\<rparr>
          else p\<lparr>singleSecurity := obj_set k (JObj (assign (arg auths k))) (singleSecurity p)\<rparr>)"
  by (simp add: security_entry_def add_oauth2_def oauth2_entry_def elements_def Let_def)

lemma requirement_loop:
  assumes "\<forall>(k, v) \<in> set o1. is_array v" "distinct (map fst o1)"
  shows "\<exists>p'. foldR (security_entry merge auths) o1 p = Inr p'
    \<and> (\<forall>k. arg (singleSecurity p') k =
        (if arg o1 k \<noteq> JUndef \<and> truthy (arg auths k) \<and> prop_of (arg auths k) ''type'' \<noteq> JStr ''oauth2''
         then JObj (assign (arg auths k)) else arg (singleSecurity p) k))
    \<and> (\<forall>k. arg (singleOauth2Security p') k =
        (if arg o1 k \<noteq> JUndef \<and> truthy (arg auths k) \<and> prop_of (arg auths k) ''type'' = JStr ''oauth2''
         then oauth2_entry (arg auths k) (arg o1 k) else arg (singleOauth2Security p) k))"
  using assms
proof (induction o1 arbitrary: p)
  case (Cons kv o1)
  obtain k v where kv: "kv = (k, v)" by (cases kv)
  then obtain ws where v: "v = JArr ws" using Cons.prems(1) by (auto simp: is_array_def split: jsv.splits)
  obtain p1 where p1: "security_entry merge auths kv p = Inr p1" using security_entry_array by (simp add: kv v)
  have k: "arg o1 k = JUndef"
    using Cons.prems(2) by (force simp: kv arg_def obj_get_def split: option.splits dest: map_of_SomeD)
  have "\<forall>(k, v) \<in> set o1. is_array v" "distinct (map fst o1)" using Cons.prems by auto
  from Cons.IH [OF this, of p1] obtain p' where p': "foldR (security_entry merge auths) o1 p1 = Inr p'"
    and s: "\<And>k. arg (singleSecurity p') k =
        (if arg o1 k \<noteq> JUndef \<and> truthy (arg auths k) \<and> prop_of (arg auths k) ''type'' \<noteq> JStr ''oauth2''
         then JObj (assign (arg auths k)) else arg (singleSecurity p1) k)"
    and t: "\<And>k. arg (singleOauth2Security p') k =
        (if arg o1 k \<noteq> JUndef \<and> truthy (arg auths k) \<and> prop_of (arg auths k) ''type'' = JStr ''oauth2''
         then oauth2_entry (arg auths k) (arg o1 k) else arg (singleOauth2Security p1) k)"
    by blast
  have "foldR (security_entry merge auths) (kv # o1) p = Inr p'" using p1 p' by simp
  moreover have "arg (singleSecurity p') c =
        (if arg (kv # o1) c \<noteq> JUndef \<and> truthy (arg auths c) \<and> prop_of (arg auths c) ''type'' \<noteq> JStr ''oauth2''
         then JObj (assign (arg auths c)) else arg (singleSecurity p) c)" for c
    using p1 k by (cases "c = k") (auto simp: s kv v security_entry_array split: if_splits)
  moreover have "arg (singleOauth2Security p') c =
        (if arg (kv # o1) c \<noteq> JUndef \<and> truthy (arg auths c) \<and> prop_of (arg auths c) ''type'' = JStr ''oauth2''
         then oauth2_entry (arg auths c) (arg (kv # o1) c) else arg (singleOauth2Security p) c)" for c
    using p1 k by (cases "c = k") (auto simp: t kv v security_entry_array split: if_splits)
  ultimately show ?case by blast
qed simp

text \<open>A security requirement that names schemes with their scopes is split by type: every scheme that is defined is
  offered once, an OAuth2 scheme with exactly those of its scopes that are required, any other as it is defined, and a scheme
  without a definition is not offered.\<close>

theorem requirement_schemes:
  assumes "\<forall>(k, v) \<in> set item. is_array v" "distinct (map fst item)"
  shows "\<exists>p. foldR (security_entry merge auths) (entries_of (JObj item))
        \<lparr>singleSecurity = [], singleOauth2Security = [], all_scopes = scopes\<rparr> = Inr p
    \<and> (\<forall>k. arg (singleSecurity p) k =
        (if arg item k \<noteq> JUndef \<and> truthy (arg auths k) \<and> prop_of (arg auths k) ''type'' \<noteq> JStr ''oauth2''
         then JObj (assign (arg auths k)) else JUndef))
    \<and> (\<forall>k. arg (singleOauth2Security p) k =
        (if arg item k \<noteq> JUndef \<and> truthy (arg auths k) \<and> prop_of (arg auths k) ''type'' = JStr ''oauth2''
         then oauth2_entry (arg auths k) (arg item k) else JUndef))"
proof -
  have "entries_of (JObj item) = item" by (simp add: entries_of_def)
  then show ?thesis
    using requirement_loop [OF assms, of merge auths "\<lparr>singleSecurity = [], singleOauth2Security = [], all_scopes = scopes\<rparr>"]
    by (simp only: parsed.select_convs arg_Nil)
qed

theorem requirement_schemes_witness:
  "\<exists>p. foldR (security_entry (\<lambda>a b. b) [(''key'', JObj [(''type'', JStr ''apiKey'')])])
        (entries_of (JObj [(''key'', JArr []), (''other'', JArr [])])) \<lparr>singleSecurity = [], singleOauth2Security = [], all_scopes = JArr []\<rparr> = Inr p
    \<and> arg (singleSecurity p) ''key'' = JObj [(''type'', JStr ''apiKey'')] \<and> arg (singleSecurity p) ''other'' = JUndef"
proof -
  let ?item = "[(''key'', JArr []), (''other'', JArr [])]"
  let ?auths = "[(''key'', JObj [(''type'', JStr ''apiKey'')])]"
  obtain p where p: "foldR (security_entry (\<lambda>a b. b) ?auths) (entries_of (JObj ?item))
        \<lparr>singleSecurity = [], singleOauth2Security = [], all_scopes = JArr []\<rparr> = Inr p"
    "\<And>k. arg (singleSecurity p) k = (if arg ?item k \<noteq> JUndef \<and> truthy (arg ?auths k) \<and> prop_of (arg ?auths k) ''type'' \<noteq> JStr ''oauth2''
         then JObj (assign (arg ?auths k)) else JUndef)"
    using requirement_schemes [of ?item "\<lambda>a b. b" ?auths "JArr []"] by (auto simp: is_array_def)
  have "arg (singleSecurity p) ''key'' = JObj [(''type'', JStr ''apiKey'')]" "arg (singleSecurity p) ''other'' = JUndef"
    by (simp_all add: p(2) assign_def entries_of_def)
  with p(1) show ?thesis by blast
qed

section \<open>Choosing scopes\<close>

lemma any_checked_iff: "any_checked xs = Inr b \<Longrightarrow> b = list_ex (\<lambda>s. prop_of s ''checked'' = JBool True) xs"
  by (induction xs) (auto simp: scope_checked_def bindR_Inr_iff get_prop_Inr_iff split: if_splits)

lemma check_scope_sets:
  "check_scope name val xs = Inr ys \<Longrightarrow> \<exists>s \<in> set ys. prop_of s ''scope'' = JStr name \<and> (prop_of s ''checked'' = val \<or> is_array s)"
proof (induction xs arbitrary: ys)
  case (Cons x xs)
  show ?case
  proof (cases "prop_of x ''scope'' = JStr name")
    case True
    then obtain o1 where "x = JObj o1" by (cases x) (auto simp: prop_of_def)
    then show ?thesis using Cons.prems True by (auto simp: put_prop_def get_prop_def)
  next
    case False
    then obtain zs where "check_scope name val xs = Inr zs" "ys = x # zs"
      using Cons.prems by (auto simp: bindR_Inr_iff get_prop_Inr_iff)
    then show ?thesis using Cons.IH by auto
  qed
qed simp

text \<open>ticking and unticking a scope of an OAuth2 form: the form is complete afterwards exactly when some scope is ticked, in
  particular after ticking one, and for the password flow only with a user name.\<close>

theorem scopes_decide:
  assumes "kind m = Oauth2Model" "\<not> truthy (get_attr m ''isPasswordFlow'') \<or> truthy (get_attr m ''username'')"
    and "\<not> in_two_element_array (get_attr m ''clientAuthenticationType'')" and "setScopes name (JBool b) m = Inr m'"
  shows "get_attr m' ''valid'' = JBool (list_ex (\<lambda>s. prop_of s ''checked'' = JBool True) (elements (get_attr m' ''scopes'')))
    \<and> (b \<longrightarrow> get_attr m' ''valid'' = JBool True)"
proof -
  from assms(4) obtain ss v where ss: "check_scope name (JBool b) (elements (get_attr m ''scopes'')) = Inr ss"
    and v: "any_checked ss = Inr v" and m': "m' = set_valid (ss = [] \<or> v) (m\<lparr>attributes := obj_set ''scopes'' (JArr ss) (attributes m)\<rparr>)"
    using assms(1-3) by (auto simp: setScopes_def validate_oauth2_def scopes_valid_def bindR_Inr_iff split: if_splits)
  obtain s where s: "s \<in> set ss" "prop_of s ''scope'' = JStr name" "prop_of s ''checked'' = JBool b \<or> is_array s"
    using check_scope_sets [OF ss] by blast
  then have "ss \<noteq> []" "prop_of s ''checked'' = JBool b" by (auto simp: is_array_def prop_of_def split: jsv.splits)
  moreover have "v = list_ex (\<lambda>s. prop_of s ''checked'' = JBool True) ss" using any_checked_iff [OF v] .
  ultimately show ?thesis using s(1) by (auto simp: m' set_valid_def elements_def list_ex_iff)
qed

theorem scopes_decide_witness:
  "\<exists>m'. setScopes ''read'' (JBool True) \<lparr>kind = Oauth2Model, attributes = [(''scopes'', JArr [JObj [(''scope'', JStr ''read'')]])]\<rparr> = Inr m'
     \<and> get_attr m' ''valid'' = JBool True"
proof -
  let ?m = "\<lparr>kind = Oauth2Model, attributes = [(''scopes'', JArr [JObj [(''scope'', JStr ''read'')]])]\<rparr>"
  have "\<not> in_two_element_array JUndef" by code_simp
  moreover have "\<exists>m'. setScopes ''read'' (JBool True) ?m = Inr m'"
    using \<open>\<not> in_two_element_array JUndef\<close>
    by (simp add: setScopes_def validate_oauth2_def scopes_valid_def scope_checked_def get_prop_def put_prop_def elements_def)
  then obtain m' where "setScopes ''read'' (JBool True) ?m = Inr m'" by blast
  ultimately show ?thesis using scopes_decide [of ?m "''read''" True m'] by auto
qed

section \<open>Logging in and out\<close>

text \<open>logging out removes the authorizations of all schemes of the form and no other.\<close>

theorem logout_forgets:
  "obj_get (logoutClick ms authz) k = (if k \<in> (\<lambda>m. to_str (get_attr m ''title'')) ` set ms then None else obj_get authz k)"
  unfolding logoutClick_def remove_authz_def by (induction ms arbitrary: authz) auto

lemma login_pairs:
  "login_url w (a @ ''?response_type='' @ t) scopes state = a @ ''?'' @ js_join ''&''
     ([''response_type='' @ t, ''redirect_uri='' @ encodeURIComponent (redirectUrl w), ''realm='' @ uri (realm w), ''client_id='' @ uri (clientId w),
       ''scope='' @ encodeURIComponent (join_scopes (scopeSeparator w) scopes), ''state='' @ uri state]
      @ map (\<lambda>(k, v). k @ ''='' @ uri v) (additionalQueryStringParams w))"
proof -
  have join: "js_join ''&'' (x # xs) = x @ concat (map (\<lambda>y. ''&'' @ y) xs)" for x :: string and xs
    by (induction xs arbitrary: x) auto
  show ?thesis by (simp add: login_url_def join o_def case_prod_unfold)
qed

text \<open>Names that need no encoding.\<close>

definition plain_name :: "string \<Rightarrow> bool" where
  "plain_name k \<longleftrightarrow> list_all uri_unreserved k"

lemma plain_name_encode: "plain_name k \<Longrightarrow> encodeURIComponent k = k"
  unfolding plain_name_def encodeURIComponent_def by (induction k) (auto simp: uri_char_def)

lemma plain_name_decode: "plain_name k \<Longrightarrow> uri_decode k = k"
  using uri_decode_encode [of k] plain_name_encode by simp

lemma plain_name_avoids: "plain_name k \<Longrightarrow> c \<in> set ''&=?#/,| {}$[]'' \<Longrightarrow> c \<notin> set k"
  using encodeURIComponent_avoids [of c k] plain_name_encode by simp

lemma parse_plain_query:
  assumes "ps \<noteq> []" "\<forall>(k, v) \<in> set ps. plain_name k"
  shows "parse_query (js_join ''&'' (map (\<lambda>(k, v). k @ ''='' @ encodeURIComponent v) ps)) = ps"
proof -
  have amp: "CHR ''&'' \<notin> set (k @ ''='' @ encodeURIComponent v)" if "(k, v) \<in> set ps" for k v
    using that assms(2) plain_name_avoids [of k "CHR ''&''"] encodeURIComponent_avoids [of "CHR ''&''" v] by auto
  have split: "split_char CHR ''&'' (js_join ''&'' (map (\<lambda>(k, v). k @ ''='' @ encodeURIComponent v) ps)) = map (\<lambda>(k, v). k @ ''='' @ encodeURIComponent v) ps"
    using assms(1) amp by (intro split_join_char) auto
  have part: "uri_decode (takeWhile (\<lambda>c. c \<noteq> CHR ''='') (k @ ''='' @ encodeURIComponent v)) = k
      \<and> uri_decode (tl (dropWhile (\<lambda>c. c \<noteq> CHR ''='') (k @ ''='' @ encodeURIComponent v))) = v" if "(k, v) \<in> set ps" for k v
  proof -
    have "CHR ''='' \<notin> set k" "uri_decode k = k" using that assms(2) plain_name_avoids plain_name_decode by auto
    then show ?thesis using uri_decode_encode by (simp add: takeWhile_sep dropWhile_sep)
  qed
  show ?thesis unfolding parse_query_def split map_map
    by (rule map_idI) (use part in auto)
qed


definition sample_page :: oauth_page where
  "sample_page = \<lparr>redirectUrl = ''http://h/o2c.html'', realm = JStr ''r'', clientId = JStr ''id'', scopeSeparator = '' '',
     additionalQueryStringParams = [(''nonce'', JNum 7)]\<rparr>"

definition sample_login :: auth_model where
  "sample_login = \<lparr>kind = Oauth2Model, attributes = [(''type'', JStr ''oauth2''), (''flow'', JStr ''implicit''),
     (''authorizationUrl'', JStr ''http://a/auth''), (''vendorExtensions'', JObj []), (''title'', JStr ''petstore''),
     (''scopes'', JArr [JObj [(''scope'', JStr ''read''), (''checked'', JBool True)]])]\<rparr>"


section \<open>Authorizing\<close>

definition title_of :: "auth_model \<Rightarrow> string" where
  "title_of m = to_str (get_attr m ''title'')"

text \<open>What a key or password form registers.\<close>

definition credential_of :: "auth_model \<Rightarrow> auth option" where
  "credential_of m =
     (if get_attr m ''type'' = JStr ''apiKey''
      then Some (ApiKeyAuthorization (to_str (get_attr m ''name'')) (to_str (get_attr m ''value'')) (to_str (get_attr m ''in'')))
      else if get_attr m ''type'' = JStr ''basic''
      then Some (PasswordAuthorization (to_str (get_attr m ''username'')) (to_str (get_attr m ''password'')))
      else None)"

lemma authorize_one_get:
  assumes "authorize_one b64 w m (a, ls) = Inr (a', ls')"
  shows "obj_get a' k = (if k = title_of m \<and> credential_of m \<noteq> None then credential_of m else obj_get a k)"
  using assms unfolding authorize_one_def Let_def
  by (auto simp: credential_of_def title_of_def add_authz_def bindR_Inr_iff split: if_splits)

lemma authorize_others:
  "foldR (authorize_one b64 w) ms (a, ls) = Inr (a', ls') \<Longrightarrow> k \<notin> title_of ` set ms \<Longrightarrow> obj_get a' k = obj_get a k"
proof (induction ms arbitrary: a ls)
  case (Cons n ms)
  obtain a1 ls1 where a1: "authorize_one b64 w n (a, ls) = Inr (a1, ls1)" "foldR (authorize_one b64 w) ms (a1, ls1) = Inr (a', ls')"
    using Cons.prems(1) by (auto simp: bindR_Inr_iff)
  then show ?case using Cons.IH [OF a1(2)] Cons.prems(2) authorize_one_get [OF a1(1), of k] by simp
qed simp

lemma authorize_registers:
  "foldR (authorize_one b64 w) ms (a, ls) = Inr (a', ls') \<Longrightarrow> distinct (map title_of ms) \<Longrightarrow> m \<in> set ms \<Longrightarrow> credential_of m \<noteq> None
     \<Longrightarrow> obj_get a' (title_of m) = credential_of m"
proof (induction ms arbitrary: a ls)
  case (Cons n ms)
  obtain a1 ls1 where a1: "authorize_one b64 w n (a, ls) = Inr (a1, ls1)" "foldR (authorize_one b64 w) ms (a1, ls1) = Inr (a', ls')"
    using Cons.prems(1) by (auto simp: bindR_Inr_iff)
  show ?case
  proof (cases "m \<in> set ms")
    case True
    then show ?thesis using Cons.IH [OF a1(2)] Cons.prems(2,4) by simp
  next
    case False
    then have "m = n" using Cons.prems(3) by simp
    then show ?thesis
      using authorize_others [OF a1(2), of "title_of m"] authorize_one_get [OF a1(1), of "title_of m"] Cons.prems(2,4) by simp
  qed
qed simp


definition key_form :: auth_model where
  "key_form = \<lparr>kind = ApiKeyAuthModel, attributes = [(''type'', JStr ''apiKey''), (''title'', JStr ''api_key''), (''name'', JStr ''key''),
     (''in'', JStr ''header''), (''value'', JStr ''secret''), (''valid'', JBool True)]\<rparr>"


section \<open>Defects\<close>

text \<open>A client without an id passes, although its type asks for one.\<close>

lemma client_id_not_required:
  "validate \<lparr>kind = Oauth2Model, attributes = [(''clientAuthenticationType'', JStr ''basic''), (''scopes'', JArr [])]\<rparr>
     = Inr (True, set_valid True \<lparr>kind = Oauth2Model, attributes = [(''clientAuthenticationType'', JStr ''basic''), (''scopes'', JArr [])]\<rparr>)"
  by (simp add: validate_oauth2_def in_two_element_array_def scopes_valid_def)

text \<open>Unticked scopes leave separators behind.\<close>

lemma unticked_scope_separator:
  "join_scopes '' '' (checked_scopes [JObj [(''scope'', JStr ''read'')], JObj [(''scope'', JStr ''write''), (''checked'', JBool True)]]) = '' write''"
  by (simp add: join_scopes_def checked_scopes_def)

text \<open>A scheme without a flow opens an address that starts with \<open>null\<close>.\<close>

lemma login_without_flow:
  "\<exists>u. handleOauth2Login b64 sample_page \<lparr>kind = Oauth2Model, attributes = [(''type'', JStr ''oauth2'')]\<rparr> = Inr (OpenWindow (''null&redirect_uri='' @ u))"
  by (simp add: handleOauth2Login_def login_url_def)

text \<open>A plain model cannot be validated.\<close>

lemma other_type_not_valid: "validate \<lparr>kind = OtherModel, attributes = a\<rparr> = Inl (no_method ''model.validate'')"
  by simp

end
