(* ===== verification/Page_Main.thy ===== *)
theory Page_Main
  imports Page_View Page_Auth Client
begin

text \<open>
  The page as a whole (\<open>SwaggerUi\<close>, \<open>MainView\<close>, \<open>HeaderView\<close>, \<open>StatusCodeView\<close> and the views of the login forms): its options, the
  url of the document, the order of what is shown, the identifiers of the resources, and which forms are there to log in. Elements
  and events of the browser are not represented; \<open>sanitizeHtml\<close>, \<open>localeCompare\<close> and the sorting of arrays are arguments.
\<close>

section \<open>Options\<close>

definition default_methods :: "string list" where
  "default_methods = [''get'', ''put'', ''post'', ''delete'', ''head'', ''options'', ''patch'']"

text \<open>\<open>page_redirect\<close> is \<open>window.oAuthRedirectUrl\<close>.\<close>

record page_state =
  dom_id :: jsv
  page_options :: "jsv obj"
  page_redirect :: jsv

definition default_option :: "string \<Rightarrow> jsv \<Rightarrow> jsv obj \<Rightarrow> jsv obj" where
  "default_option k v o1 = (if truthy (arg o1 k) then o1 else obj_set k v o1)"

definition page_initialize :: "jsv \<Rightarrow> jsv obj \<Rightarrow> page_state" where
  "page_initialize redirect o0 =
     (let o1 = (if arg o0 ''defaultModelRendering'' = JStr ''model'' then o0 else obj_set ''defaultModelRendering'' (JStr ''schema'') o0);
          o2 = default_option ''highlightSizeThreshold'' (JNum 100000) o1;
          dom = arg o2 ''dom_id'';
          o3 = (if truthy dom then obj_del ''dom_id'' o2 else o2);
          o4 = default_option ''supportedSubmitMethods'' (JArr (map JStr default_methods)) o3
      in \<lparr>dom_id = js_or dom (JStr ''swagger_ui''), page_options = o4,
          page_redirect = (case arg o4 ''oauth2RedirectUrl'' of JStr s \<Rightarrow> JStr s | _ \<Rightarrow> redirect)\<rparr>)"

section \<open>The url of the document\<close>

text \<open>A part that \<open>split\<close> does not give reads \<open>undefined\<close>.\<close>

definition part :: "string list \<Rightarrow> nat \<Rightarrow> string" where
  "part ps n = (if n < length ps then ps ! n else ''undefined'')"

definition before_char :: "char \<Rightarrow> string \<Rightarrow> int" where
  "before_char c base = (if index_of [c] base > -1 then min (int (length base)) (index_of [c] base) else int (length base))"

definition path_end :: "string \<Rightarrow> string" where
  "path_end base =
     (let base1 = substring base 0 (min (before_char CHR ''?'' base) (before_char CHR ''#'' base))
      in if ends_with ''/'' base1 then base1 else base1 @ ''/'')"

definition origin :: "string \<Rightarrow> string" where
  "origin base = (let parts = split_char CHR ''/'' base in part parts 0 @ ''//'' @ part parts 2)"

definition buildUrl :: "string \<Rightarrow> jsv \<Rightarrow> string result" where
  "buildUrl base u =
     bindR (js_indexOf u ''/'') (\<lambda>i. Inr ((if i = 0 then origin base else path_end base) @ to_str u))"

text \<open>The router: its options, the authorizations of the client that is in use, and the url in the header.\<close>

record router =
  r_options :: "jsv obj"
  r_authz :: "jsv option"
  header_url :: jsv

definition load_url :: "string \<Rightarrow> jsv \<Rightarrow> jsv result" where
  "load_url href u =
     (if truthy u then
        bindR (js_indexOf u ''http'') (\<lambda>i. if i \<noteq> 0 then bindR (buildUrl href u) (\<lambda>s. Inr (JStr s)) else Inr u)
      else Inr u)"

text \<open>\<open>new_authz\<close> are the authorizations of a new client with the given options.\<close>

definition load :: "(jsv obj \<Rightarrow> jsv) \<Rightarrow> string \<Rightarrow> router \<Rightarrow> router result" where
  "load new_authz href r =
     bindR (load_url href (arg (r_options r) ''url'')) (\<lambda>u.
       let o1 = (case r_authz r of None \<Rightarrow> r_options r | Some a \<Rightarrow> obj_set ''authorizations'' a (r_options r));
           o2 = obj_set ''url'' u o1
       in Inr \<lparr>r_options = o2, r_authz = Some (new_authz o2), header_url = u\<rparr>)"

definition updateSwaggerUi :: "(jsv obj \<Rightarrow> jsv) \<Rightarrow> string \<Rightarrow> jsv \<Rightarrow> router \<Rightarrow> router result" where
  "updateSwaggerUi new_authz href u r = load new_authz href (r\<lparr>r_options := obj_set ''url'' u (r_options r)\<rparr>)"

text \<open>\<open>HeaderView\<close>: the button and the return key ask for the url in the field.\<close>

definition showCustom :: "(jsv obj \<Rightarrow> jsv) \<Rightarrow> string \<Rightarrow> router \<Rightarrow> router result" where
  "showCustom new_authz href r = updateSwaggerUi new_authz href (header_url r) r"

definition showCustomOnKeyup :: "(jsv obj \<Rightarrow> jsv) \<Rightarrow> string \<Rightarrow> int \<Rightarrow> router \<Rightarrow> router result" where
  "showCustomOnKeyup new_authz href keyCode r = (if keyCode = 13 then showCustom new_authz href r else Inr r)"

section \<open>What is shown, and in which order\<close>

text \<open>A sorter is given by a name or as a function; a name that is not known sorts nothing.\<close>

datatype 'a sorter = NoSorter | NamedSorter string | OwnSorter "'a \<Rightarrow> 'a \<Rightarrow> int"

definition chosen_sorter :: "('a \<Rightarrow> 'a \<Rightarrow> int) obj \<Rightarrow> 'a sorter \<Rightarrow> ('a \<Rightarrow> 'a \<Rightarrow> int) option" where
  "chosen_sorter sorters s = (case s of NoSorter \<Rightarrow> None | NamedSorter n \<Rightarrow> obj_get sorters n | OwnSorter f \<Rightarrow> Some f)"

definition apisSorter :: "(string \<Rightarrow> string \<Rightarrow> int) \<Rightarrow> (api_entry \<Rightarrow> api_entry \<Rightarrow> int) obj" where
  "apisSorter localeCompare = [(''alpha'', \<lambda>a b. localeCompare (api_tag a) (api_tag b))]"

definition operationsSorters :: "(string \<Rightarrow> string \<Rightarrow> int) \<Rightarrow> op_obj list \<Rightarrow> (nat \<Rightarrow> nat \<Rightarrow> int) obj" where
  "operationsSorters localeCompare st =
     [(''alpha'', \<lambda>a b. localeCompare (o_path (st ! a)) (o_path (st ! b))),
      (''method'', \<lambda>a b. localeCompare (o_method (st ! a)) (o_method (st ! b)))]"

record sorting =
  locale_compare :: "string \<Rightarrow> string \<Rightarrow> int"
  sort_entries :: "(api_entry \<Rightarrow> api_entry \<Rightarrow> int) \<Rightarrow> api_entry list \<Rightarrow> api_entry list"
  sort_refs :: "(nat \<Rightarrow> nat \<Rightarrow> int) \<Rightarrow> nat list \<Rightarrow> nat list"

definition sort_groups :: "sorting \<Rightarrow> api_entry sorter \<Rightarrow> client \<Rightarrow> client" where
  "sort_groups env s cl =
     (case chosen_sorter (apisSorter (locale_compare env)) s of
        None \<Rightarrow> cl
      | Some f \<Rightarrow> cl\<lparr>apisArray := sort_entries env f (apisArray cl)\<rparr>)"

definition sort_operations :: "sorting \<Rightarrow> nat sorter \<Rightarrow> client \<Rightarrow> client" where
  "sort_operations env s cl =
     (case chosen_sorter (operationsSorters (locale_compare env) (store cl)) s of
        None \<Rightarrow> cl
      | Some f \<Rightarrow> cl\<lparr>apisArray := map (\<lambda>a. a\<lparr>operationsArray := sort_refs env f (operationsArray a)\<rparr>) (apisArray cl)\<rparr>)"

record auth_entry =
  ae_name :: string
  ae_type :: jsv
  ae_value :: jsv

definition main_auths :: "jsv \<Rightarrow> auth_entry list result" where
  "main_auths sd =
     mapR (\<lambda>(k, v). bindR (get_prop v ''type'') (\<lambda>t. Inr \<lparr>ae_name = k, ae_type = t, ae_value = v\<rparr>)) (entries_of sd)"

definition validator_url :: "jsv obj \<Rightarrow> string \<Rightarrow> jsv" where
  "validator_url opts u =
     (case obj_get opts ''validatorUrl'' of
        Some v \<Rightarrow> v
      | None \<Rightarrow>
          if index_of ''localhost'' u > 0 \<or> index_of ''127.0.0.1'' u > 0 then JNull else JStr ''//online.swagger.io/validator'')"

definition typed_definition :: "jsv \<Rightarrow> jsv result" where
  "typed_definition d = bindR (get_prop d ''type'') (\<lambda>t. if truthy t then Inr d else put_prop ''type'' (JStr ''object'') d)"

definition typed_definitions :: "jsv obj \<Rightarrow> jsv obj result" where
  "typed_definitions ds = mapR (\<lambda>(k, d). bindR (typed_definition d) (\<lambda>d'. Inr (k, d'))) ds"

record main_view =
  mv_client :: client
  mv_auths :: "auth_entry list"
  mv_validator :: jsv
  mv_definitions :: "jsv obj"

definition main_initialize ::
  "sorting \<Rightarrow> api_entry sorter \<Rightarrow> nat sorter \<Rightarrow> jsv obj \<Rightarrow> string \<Rightarrow> jsv obj \<Rightarrow> client \<Rightarrow> main_view result" where
  "main_initialize env s1 s2 opts u definitions cl =
     (let cl' = sort_operations env s2 (sort_groups env s1 cl)
      in bindR (main_auths (securityDefinitions cl')) (\<lambda>auths.
         bindR (typed_definitions definitions) (\<lambda>ds.
           Inr \<lparr>mv_client = cl', mv_auths = auths, mv_validator = validator_url opts u, mv_definitions = ds\<rparr>)))"

section \<open>Identifiers of the resources\<close>

text \<open>\<open>used\<close> are the keys of \<open>resources\<close>; the counter is shared by all resources.\<close>

function next_id :: "string list \<Rightarrow> nat \<Rightarrow> string \<Rightarrow> string \<times> nat" where
  "next_id used counter i =
     (if i \<in> set used then next_id used (counter + 1) (i @ ''_'' @ show_nat counter) else (i, counter))"
  by pat_completeness auto
termination
  by (relation "measure (\<lambda>(used, counter, i). longer used i)") (simp_all add: longer_less)

declare next_id.simps [simp del]

fun resource_keys :: "string list \<Rightarrow> nat \<Rightarrow> string list \<Rightarrow> string list" where
  "resource_keys used counter [] = []"
| "resource_keys used counter (name # ns) =
     (case next_id used counter name of (i, c) \<Rightarrow> i # resource_keys (used @ [i]) c ns)"

definition alnum :: "char \<Rightarrow> bool" where
  "alnum c \<longleftrightarrow> 48 \<le> code c \<and> code c \<le> 57 \<or> 65 \<le> code c \<and> code c \<le> 90 \<or> 97 \<le> code c \<and> code c \<le> 122"

definition element_id :: "(string \<Rightarrow> string) \<Rightarrow> string \<Rightarrow> string" where
  "element_id sanitizeHtml i = concat (map (\<lambda>c. if alnum c then [c] else show_nat (code c)) (sanitizeHtml i))"

definition resource_ids :: "(string \<Rightarrow> string) \<Rightarrow> string list \<Rightarrow> string list" where
  "resource_ids sanitizeHtml names = map (element_id sanitizeHtml) (resource_keys [] 0 names)"

section \<open>The forms to log in\<close>

text \<open>\<open>AuthsCollectionView.renderOneAuth\<close>: the views that are shown. Only one is for basic authentication.\<close>

definition view_of :: "bool \<Rightarrow> auth_model \<Rightarrow> auth_kind option" where
  "view_of has_basic m =
     (if get_attr m ''type'' = JStr ''apiKey'' then Some ApiKeyAuthModel
      else if get_attr m ''type'' = JStr ''basic'' \<and> \<not> has_basic then Some BasicAuthModel
      else if get_attr m ''type'' = JStr ''oauth2'' then Some Oauth2Model else None)"

fun auth_views :: "bool \<Rightarrow> auth_model list \<Rightarrow> (auth_kind \<times> auth_model) list" where
  "auth_views has_basic [] = []"
| "auth_views has_basic (m # ms) =
     (case view_of has_basic m of
        None \<Rightarrow> auth_views has_basic ms
      | Some k \<Rightarrow> (k, m) # auth_views (has_basic \<or> k = BasicAuthModel) ms)"

text \<open>\<open>highlightInvalid\<close>: the fields that are marked. The view of an API key validates its model.\<close>

definition highlight_view :: "auth_kind \<times> auth_model \<Rightarrow> (string list \<times> auth_model) result" where
  "highlight_view km =
     (case km of (k, m) \<Rightarrow>
        (case k of
           ApiKeyAuthModel \<Rightarrow> bindR (validate m) (\<lambda>(b, m'). Inr (if b then [] else [''input_apiKey_entry''], m'))
         | BasicAuthModel \<Rightarrow> Inr (if truthy (get_attr m ''username'') then [] else [''basic_auth__username''], m)
         | Oauth2Model \<Rightarrow> Inr ((if truthy (get_attr m ''username'') then [] else [''oauth-username''])
               @ (if truthy (get_attr m ''clientId'') then [] else [''oauth-client-id'']), m)
         | OtherModel \<Rightarrow> Inr ([], m)))"

definition highlightInvalid :: "auth_model list \<Rightarrow> string list result" where
  "highlightInvalid ms = bindR (mapR highlight_view (auth_views False ms)) (\<lambda>fs. Inr (concat (map fst fs)))"

text \<open>\<open>AuthButtonView\<close>: a view for every entry of \<open>auths\<close>, and whether someone is logged in.\<close>

definition renderAuths :: "jsv obj \<Rightarrow> (string \<times> jsv obj) list list \<Rightarrow> (auth_model list list \<times> bool) result" where
  "renderAuths authz auths =
     bindR (mapR (AuthsCollection authz) auths) (\<lambda>cs. Inr (cs, list_ex isPartiallyAuthorized cs))"

section \<open>Status codes\<close>

definition default_macro :: "jsv \<Rightarrow> jsv" where
  "default_macro p = prop_of p ''default''"

definition status_signature ::
  "(string \<Rightarrow> jsv result) \<Rightarrow> string \<Rightarrow> model obj \<Rightarrow> bool \<Rightarrow> message \<Rightarrow> signature_model result option" where
  "status_signature safeLoad now models is_xml g =
     (case obj_get models (to_str (g_responseModel g)) of
        None \<Rightarrow> Some (Inr \<lparr>sampleJSON = JUndef, sampleXML = JUndef, sig_text = getPrimitiveSignature (g_schema g)\<rparr>)
      | Some m \<Rightarrow>
          bindT (Some (bindR (createJSONSample safeLoad now default_macro models m) (\<lambda>v. Inr (stringify_sample v)))) (\<lambda>json.
          bindT (Some (if is_xml then bindR (createXMLSample False models (JStr []) (g_schema g)) (\<lambda>x. Inr (JStr x))
                       else Inr (JBool False))) (\<lambda>xml.
          bindT (getModelSignature_page default_macro models (g_responseModel g)
                   (JObj [(''name'', JStr (m_name m)), (''definition'', m_definition m)])) (\<lambda>sig.
            Some (Inr \<lparr>sampleJSON = json, sampleXML = xml, sig_text = JStr sig\<rparr>)))))"

section \<open>Loading settles\<close>

lemma before_char_http: "c \<notin> set ''http'' \<Longrightarrow> 4 \<le> before_char c (''http'' @ t)"
proof -
  assume c: "c \<notin> set ''http''"
  show ?thesis
  proof (cases "index_of [c] t < 0")
    case True
    then have "c \<notin> set (''http'' @ t)" using c by (simp add: index_of_char_neg_iff)
    then show ?thesis by (simp add: before_char_def index_of_char_absent)
  next
    case False
    then show ?thesis using c by (auto simp: before_char_def Let_def)
  qed
qed

lemma path_end_http: "\<exists>t'. path_end (''http'' @ t) = ''http'' @ t'"
proof -
  let ?b = "''http'' @ t"
  let ?n = "min (before_char CHR ''?'' ?b) (before_char CHR ''#'' ?b)"
  have "4 \<le> ?n" using before_char_http [of "CHR ''?''" t] before_char_http [of "CHR ''#''" t] by simp
  moreover have "4 \<le> int (length ?b)" by simp
  ultimately have "4 \<le> nat (min ?n (int (length ?b)))" by linarith
  then obtain m where m: "nat (min ?n (int (length ?b))) = 4 + m" using le_Suc_ex by blast
  have "substring ?b 0 ?n = take (4 + m) ?b" unfolding substring_def clamp_index_def m by (simp add: Let_def)
  also have "\<dots> = ''http'' @ take m t" by (simp add: eval_nat_numeral)
  finally show ?thesis by (simp add: path_end_def Let_def)
qed

lemma origin_http: "\<exists>t'. origin (''http'' @ t) = ''http'' @ t'"
proof -
  obtain w ws where "split_char CHR ''/'' t = w # ws" by (cases "split_char CHR ''/'' t") auto
  then show ?thesis by (simp add: origin_def part_def Let_def)
qed

lemma load_url_http:
  assumes "load_url href u = Inr v" "starts_with ''http'' href"
  shows "load_url href v = Inr v"
proof -
  obtain t where t: "href = ''http'' @ t" using assms(2) by (auto simp: starts_with_iff)
  consider (same) "v = u" | (built) s where "buildUrl href u = Inr s" "v = JStr s"
    using assms(1) by (auto simp: load_url_def bindR_Inr_iff split: if_splits)
  then show ?thesis
  proof cases
    case same
    then show ?thesis using assms(1) by simp
  next
    case built
    obtain t1 t2 where "path_end href = ''http'' @ t1" "origin href = ''http'' @ t2"
      using path_end_http [of t] origin_http [of t] t by blast
    then have "starts_with ''http'' s" using built(1) by (auto simp: buildUrl_def bindR_Inr_iff)
    then have "index_of ''http'' s = 0" by (simp only: index_of_zero_iff)
    then show ?thesis using built(2) by (simp add: load_url_def js_indexOf_def)
  qed
qed

text \<open>When the page was loaded from an http address, the url of the document is absolute after \<open>load\<close>: loading again, from the
  header or otherwise, asks for the same url.\<close>

theorem load_settles:
  assumes "load new_authz href r = Inr r1" and "starts_with ''http'' href"
  shows "header_url r1 = arg (r_options r1) ''url''
    \<and> (\<exists>r2. showCustom new_authz href r1 = Inr r2 \<and> header_url r2 = header_url r1 \<and> r_options r2 = obj_set ''authorizations'' (new_authz (r_options r1)) (r_options r1))"
proof -
  obtain u where u: "load_url href (arg (r_options r) ''url'') = Inr u" "header_url r1 = u" "arg (r_options r1) ''url'' = u"
      "r_authz r1 = Some (new_authz (r_options r1))"
    using assms(1) by (auto simp: load_def bindR_Inr_iff Let_def)
  have get: "obj_get (r_options r1) ''url'' = Some u" using assms(1) u(1) by (auto simp: load_def bindR_Inr_iff Let_def)
  then have same: "obj_set ''url'' u (r_options r1) = r_options r1" by simp
  have "obj_get (obj_set ''authorizations'' a (r_options r1)) ''url'' = Some u" for a using get by simp
  then have "obj_set ''url'' u (obj_set ''authorizations'' a (r_options r1)) = obj_set ''authorizations'' a (r_options r1)" for a by simp
  then show ?thesis
    using u load_url_http [OF u(1) assms(2)] same by (simp add: showCustom_def updateSwaggerUi_def load_def Let_def)
qed

theorem load_settles_witness:
  "header_url \<lparr>r_options = [(''url'', JStr ''http://h/a/s.json'')], r_authz = Some JNull, header_url = JStr ''http://h/a/s.json''\<rparr> = JStr ''http://h/a/s.json''
   \<and> (\<exists>r2. showCustom (\<lambda>_. JNull) ''http://h/a/?x'' \<lparr>r_options = [(''url'', JStr ''http://h/a/s.json'')], r_authz = Some JNull, header_url = JStr ''http://h/a/s.json''\<rparr> = Inr r2
     \<and> header_url r2 = JStr ''http://h/a/s.json'')"
proof -
  have "load (\<lambda>_. JNull) ''http://h/a/?x'' \<lparr>r_options = [(''url'', JStr ''s.json'')], r_authz = None, header_url = JUndef\<rparr>
      = Inr \<lparr>r_options = [(''url'', JStr ''http://h/a/s.json'')], r_authz = Some JNull, header_url = JStr ''http://h/a/s.json''\<rparr>" by code_simp
  moreover have "starts_with ''http'' ''http://h/a/?x''" by code_simp
  ultimately show ?thesis using load_settles [of "\<lambda>_. JNull" "''http://h/a/?x''"] by fastforce
qed

text \<open>A relative url is put behind the file of the page, not in its place; one without a scheme is put behind the origin; and one
  that begins with the letters \<open>http\<close> is not completed at all.\<close>

lemma buildUrl_flaws:
  "buildUrl ''http://h/docs/index.html'' (JStr ''s.json'') = Inr ''http://h/docs/index.html/s.json''"
  "buildUrl ''http://h/docs/'' (JStr ''//other/s.json'') = Inr ''http://h//other/s.json''"
  "load_url ''http://h/docs/'' (JStr ''http-api.json'') = Inr (JStr ''http-api.json'')"
  by code_simp+

text \<open>The options are complete, and initializing with them again changes nothing.\<close>

lemma default_option_get: "truthy v \<Longrightarrow> truthy (arg (default_option k v o1) k)"
  by (simp add: default_option_def)

lemma default_option_other: "k' \<noteq> k \<Longrightarrow> arg (default_option k v o1) k' = arg o1 k'"
  by (simp add: default_option_def)

lemma options_complete:
  "truthy (arg (page_options (page_initialize w o1)) ''defaultModelRendering'') \<and> truthy (arg (page_options (page_initialize w o1)) ''highlightSizeThreshold'')
   \<and> truthy (arg (page_options (page_initialize w o1)) ''supportedSubmitMethods'') \<and> \<not> truthy (arg (page_options (page_initialize w o1)) ''dom_id'')"
  by (simp add: page_initialize_def Let_def default_option_def)

section \<open>Sorting\<close>

definition permuting :: "(('a \<Rightarrow> 'a \<Rightarrow> int) \<Rightarrow> 'a list \<Rightarrow> 'a list) \<Rightarrow> bool" where
  "permuting srt \<longleftrightarrow> (\<forall>f xs. mset (srt f xs) = mset xs)"

lemma permuting_set: "permuting srt \<Longrightarrow> set (srt f xs) = set xs"
  unfolding permuting_def by (metis set_mset_mset)

lemma permuting_distinct: "permuting srt \<Longrightarrow> distinct (map g (srt f xs)) = distinct (map g xs)"
  unfolding permuting_def by (metis mset_eq_imp_distinct_iff mset_map)

lemma sort_groups_ok: "permuting (sort_entries env) \<Longrightarrow> client_ok (sort_groups env s cl) = client_ok cl"
  unfolding sort_groups_def
  by (cases "chosen_sorter (apisSorter (locale_compare env)) s")
    (simp, simp, rule client_ok_reorder, simp_all add: permuting_set permuting_distinct)

lemma sort_operations_ok: "permuting (sort_refs env) \<Longrightarrow> client_ok (sort_operations env s cl) = client_ok cl"
  by (auto simp: sort_operations_def client_ok_def known_refs_def list_all_iff permuting_set comp_def image_image split: option.splits)

lemma sort_groups_listed: "permuting (sort_entries env) \<Longrightarrow> listed (sort_groups env s cl) tag r = listed cl tag r"
  by (auto simp: sort_groups_def listed_def permuting_set split: option.splits)

lemma sort_operations_listed: "permuting (sort_refs env) \<Longrightarrow> listed (sort_operations env s cl) tag r = listed cl tag r"
  by (auto simp: sort_operations_def listed_def permuting_set split: option.splits)


text \<open>A stable sort, and a client with two operations under one tag.\<close>

fun insert_by :: "('a \<Rightarrow> 'a \<Rightarrow> int) \<Rightarrow> 'a \<Rightarrow> 'a list \<Rightarrow> 'a list" where
  "insert_by f x [] = [x]"
| "insert_by f x (y # ys) = (if f x y \<le> 0 then x # y # ys else y # insert_by f x ys)"

definition sort_by :: "('a \<Rightarrow> 'a \<Rightarrow> int) \<Rightarrow> 'a list \<Rightarrow> 'a list" where
  "sort_by f xs = foldr (insert_by f) xs []"

lemma mset_insert_by: "mset (insert_by f x ys) = add_mset x (mset ys)"
  by (induction ys) auto

lemma permuting_sort_by: "permuting sort_by"
proof -
  have "mset (foldr (insert_by f) xs []) = mset xs" for f :: "'a \<Rightarrow> 'a \<Rightarrow> int" and xs
    by (induction xs) (simp_all add: mset_insert_by)
  then show ?thesis by (simp add: permuting_def sort_by_def)
qed

definition by_length :: sorting where
  "by_length = \<lparr>locale_compare = (\<lambda>a b. int (length a) - int (length b)), sort_entries = sort_by, sort_refs = sort_by\<rparr>"

definition two_operations :: client where
  "two_operations = fresh_client\<lparr>
     store := [\<lparr>nickname = JStr ''a'', o_path = ''/pets'', o_method = ''get'', o_host = ''h'', o_basePath = [], o_scheme = [], summary = []\<rparr>,
       \<lparr>nickname = JStr ''b'', o_path = ''/'', o_method = ''get'', o_host = ''h'', o_basePath = [], o_scheme = [], summary = []\<rparr>],
     groups := [(''pet'', \<lparr>label = ''pet'', operations = [(''a'', 0), (''b'', 1)], g_description = JUndef, g_externalDocs = JUndef\<rparr>)],
     apis := [(''pet'', ''pet'')], apisArray := [\<lparr>api_tag = ''pet'', operationsArray = [0, 1]\<rparr>]\<rparr>"

lemma two_operations_ok: "client_ok two_operations"
proof -
  have "escape_tag reservedClientTags ''pet'' = ''pet''" by code_simp
  then show ?thesis
    by (auto simp: client_ok_def two_operations_def fresh_client_def known_refs_def obj_ok_def obj_keys_def)
qed


section \<open>Identifiers\<close>

lemma next_id_fresh: "fst (next_id used counter i) \<notin> set used"
  by (induction used counter i rule: next_id.induct) (subst next_id.simps, simp)

lemma next_id_prefix: "\<exists>t. fst (next_id used counter i) = i @ t"
proof (induction used counter i rule: next_id.induct)
  case (1 used counter i)
  then show ?case by (subst next_id.simps) force
qed

lemma resource_keys_fresh: "distinct (resource_keys used c ns) \<and> set (resource_keys used c ns) \<inter> set used = {}"
proof (induction used c ns rule: resource_keys.induct)
  case (2 used c n ns)
  then show ?case using next_id_fresh [of used c n] by (cases "next_id used c n") auto
qed simp

lemma resource_keys_prefix: "list_all2 (\<lambda>n i. \<exists>t. i = n @ t) ns (resource_keys used c ns)"
proof (induction used c ns rule: resource_keys.induct)
  case (2 used c n ns)
  then show ?case using next_id_prefix [of used c n] by (cases "next_id used c n") auto
qed simp

lemma resource_keys_same: "distinct ns \<Longrightarrow> set ns \<inter> set used = {} \<Longrightarrow> resource_keys used c ns = ns"
  by (induction used c ns rule: resource_keys.induct) (auto simp: next_id.simps)

lemma element_id_alnum: "alnum c \<Longrightarrow> sanitizeHtml [c] = [c] \<Longrightarrow> element_id sanitizeHtml [c] = [c]"
  by (simp add: element_id_def)

text \<open>The keys of the resources are different and begin with their names. The identifiers of the elements need not be: two names
  that differ only in how a character is written get the same one.\<close>

theorem resource_keys_distinct:
  "distinct (resource_keys [] 0 ns) \<and> list_all2 (\<lambda>n i. \<exists>t. i = n @ t) ns (resource_keys [] 0 ns) \<and> (distinct ns \<longrightarrow> resource_keys [] 0 ns = ns)"
  using resource_keys_fresh resource_keys_prefix resource_keys_same by auto

theorem resource_keys_distinct_witness: "resource_keys [] 0 [''pet'', ''store''] = [''pet'', ''store'']"
  using resource_keys_distinct [of "[''pet'', ''store'']"] by simp

lemma resource_ids_collide: "resource_ids id [''a b'', ''a32b''] = [''a32b'', ''a32b'']"
  by code_simp

section \<open>Forms that cannot be completed\<close>

lemma one_basic_view: "length (filter (\<lambda>km. fst km = BasicAuthModel) (auth_views h ms)) \<le> (if h then 0 else 1)"
proof (induction ms arbitrary: h)
  case (Cons m ms)
  show ?case
  proof (cases "view_of h m")
    case None
    then show ?thesis using Cons by simp
  next
    case (Some k)
    then have "k = BasicAuthModel \<longrightarrow> \<not> h" by (auto simp: view_of_def split: if_splits)
    then show ?thesis using Some Cons.IH [of "h \<or> k = BasicAuthModel"] by (auto split: if_splits)
  qed
qed simp

text \<open>Two schemes of basic authentication share a form: the second model cannot be filled in, so the collection stays
  invalid and nothing is marked. Neither is a missing password, while a client id is marked when none is asked for.\<close>

lemma second_basic_hidden:
  "bindR (AuthsCollection [] [(''b1'', [(''type'', JStr ''basic'')]), (''b2'', [(''type'', JStr ''basic'')])]) (\<lambda>ms.
     case ms of
       m # ms' \<Rightarrow>
         (let ms1 = m\<lparr>attributes := obj_set ''username'' (JStr ''u'') (obj_set ''password'' (JStr ''p'') (attributes m))\<rparr> # ms'
          in bindR (collection_valid ms1) (\<lambda>(b, _). bindR (highlightInvalid ms1) (\<lambda>fs. Inr (length (auth_views False ms1), b, fs))))
     | [] \<Rightarrow> Inr (0, True, [])) = Inr (1, False, [])"
  by code_simp

lemma missing_password_unmarked:
  "bindR (AuthsCollection [] [(''b'', [(''type'', JStr ''basic''), (''username'', JStr ''u'')])]) (\<lambda>ms.
     bindR (collection_valid ms) (\<lambda>(b, _). bindR (highlightInvalid ms) (\<lambda>fs. Inr (b, fs)))) = Inr (False, [])"
  by code_simp

lemma client_id_marked:
  "bindR (AuthsCollection [] [(''o'', [(''type'', JStr ''oauth2''), (''flow'', JStr ''implicit'')])]) (\<lambda>ms.
     bindR (collection_valid ms) (\<lambda>(b, _). bindR (highlightInvalid ms) (\<lambda>fs. Inr (b, fs)))) = Inr (True, [''oauth-username'', ''oauth-client-id''])"
  by code_simp

end
