(* ===== verification/Render_Param.thy ===== *)
theory Render_Param
  imports JS_Json
begin

text \<open>
  The control that the page shows for a parameter (the helper \<open>renderTextParam\<close> of the templates): the text of an \<open>input\<close> or a
  \<open>textarea\<close> element, put together from the properties of the parameter. The specification is a reader of such
  elements, as a browser reads them. What \<open>sanitizeHtml\<close>, a bundled package, makes of a text is a parameter.
\<close>

section \<open>Escaping\<close>

text \<open>\<open>Handlebars.Utils.escapeExpression\<close>.\<close>

definition escape_char :: "char \<Rightarrow> string" where
  "escape_char c =
     (if c = CHR ''&'' then ''&amp;'' else if c = CHR ''<'' then ''&lt;'' else if c = CHR ''>'' then ''&gt;''
      else if code c = 34 then ''&quot;'' else if code c = 39 then ''&#x27;'' else if code c = 96 then ''&#x60;''
      else if c = CHR ''='' then ''&#x3D;'' else [c])"

definition escapeExpression :: "jsv \<Rightarrow> string" where
  "escapeExpression v =
     (if v = JUndef \<or> v = JNull then [] else if \<not> truthy v then to_str v else concat (map escape_char (to_str v)))"

section \<open>The control\<close>

definition in_quotes :: "string \<Rightarrow> string" where
  "in_quotes v = [CHR 0x27] @ v @ [CHR 0x27]"

definition attr :: "string \<Rightarrow> string \<Rightarrow> string" where
  "attr k v = '' '' @ k @ ''='' @ in_quotes v"

definition is_data_extension :: "string \<Rightarrow> bool" where
  "is_data_extension k \<longleftrightarrow> starts_with ''x-data-'' (to_lower k)"

definition data_attrs :: "jsv obj \<Rightarrow> string" where
  "data_attrs param = concat (map (\<lambda>(k, v). attr (drop 2 k) (to_str v)) (filter (\<lambda>(k, v). is_data_extension k) param))"

definition text_param_type :: "jsv obj \<Rightarrow> jsv result" where
  "text_param_type param =
     (let t = arg param ''type'' in
      if truthy (arg param ''schema'') then Inr (js_or (js_or t (prop_of (arg param ''schema'') ''type'')) (JStr []))
      else Inr (js_or t (JStr [])))"

definition joined_lines :: "jsv list \<Rightarrow> string" where
  "joined_lines xs = js_join [CHR 0x0A] (map (\<lambda>x. if x = JUndef \<or> x = JNull then [] else to_str x) xs)"

definition textarea_html :: "bool \<Rightarrow> string \<Rightarrow> string \<Rightarrow> string \<Rightarrow> string \<Rightarrow> string" where
  "textarea_html required name idAtt exts defaultValue =
     ''<textarea'' @ attr ''class'' (''body-textarea'' @ (if required then '' required'' else [])) @ attr ''name'' name @ idAtt @ exts
     @ attr ''placeholder'' (''Provide multiple values in new lines'' @ (if required then '' (at least one required).'' else ''.''))
     @ ''>'' @ defaultValue @ ''</textarea>''"

definition input_html :: "bool \<Rightarrow> string \<Rightarrow> string \<Rightarrow> string \<Rightarrow> string \<Rightarrow> string \<Rightarrow> string" where
  "input_html required name idAtt exts kind defaultValue =
     ''<input'' @ attr ''class'' (''parameter'' @ (if required then '' required'' else [])) @ attr ''minlength'' (if required then ''1'' else ''0'')
     @ attr ''name'' name @ attr ''placeholder'' (if required then ''(required)'' else []) @ idAtt @ exts
     @ attr ''type'' kind @ attr ''value'' defaultValue @ ''/>''"

definition array_param :: "string \<Rightarrow> jsv obj \<Rightarrow> bool" where
  "array_param ptype param \<longleftrightarrow> to_lower ptype = ''array'' \<or> truthy (arg param ''allowMultiple'')"

definition default_text :: "(jsv \<Rightarrow> string) \<Rightarrow> bool \<Rightarrow> jsv obj \<Rightarrow> string" where
  "default_text sanitizeHtml isArray param =
     (let d = arg param ''default'';
          d1 = (case d of JArr xs \<Rightarrow> if isArray then JStr (joined_lines xs) else d | _ \<Rightarrow> d)
      in if truthy d1 then sanitizeHtml d1 else [])"

definition control_type :: "jsv obj \<Rightarrow> string" where
  "control_type param = (if arg param ''format'' = JStr ''password'' then ''password'' else ''text'')"

definition renderTextParam :: "(jsv \<Rightarrow> string) \<Rightarrow> jsv obj \<Rightarrow> string result" where
  "renderTextParam sanitizeHtml param =
     bindR (text_param_type param) (\<lambda>paramType.
       case paramType of
         JStr ptype \<Rightarrow>
           (let isArray = array_param ptype param;
                name = escapeExpression (arg param ''name'');
                valueId = escapeExpression (arg param ''valueId'');
                idAtt = (if valueId \<noteq> [] then attr ''id'' valueId else []);
                defaultValue = default_text sanitizeHtml isArray param;
                required = truthy (arg param ''required'')
            in Inr (if isArray then textarea_html required name idAtt (data_attrs param) defaultValue
                    else input_html required name idAtt (data_attrs param) (control_type param) defaultValue))
       | _ \<Rightarrow> Inl (no_method ''toLowerCase''))"

section \<open>Reading an element\<close>

text \<open>Character references, of which the escaped texts have these.\<close>

function unescape :: "string \<Rightarrow> string" where
  "unescape [] = []"
| "unescape (c # s) =
     (if starts_with ''&amp;'' (c # s) then CHR ''&'' # unescape (drop 4 s)
      else if starts_with ''&lt;'' (c # s) then CHR ''<'' # unescape (drop 3 s)
      else if starts_with ''&gt;'' (c # s) then CHR ''>'' # unescape (drop 3 s)
      else if starts_with ''&quot;'' (c # s) then CHR 0x22 # unescape (drop 5 s)
      else if starts_with ''&#x27;'' (c # s) then CHR 0x27 # unescape (drop 5 s)
      else if starts_with ''&#x60;'' (c # s) then CHR 0x60 # unescape (drop 5 s)
      else if starts_with ''&#x3D;'' (c # s) then CHR ''='' # unescape (drop 5 s)
      else c # unescape s)"
  by pat_completeness auto
termination
  by (relation "measure length") auto

text \<open>The attributes up to the end of a tag, with what follows the tag. Values are in single quotes.\<close>

definition in_name :: "char \<Rightarrow> bool" where
  "in_name c \<longleftrightarrow> c \<notin> set '' =/>''"

function read_attrs :: "string \<Rightarrow> ((string \<times> string) list \<times> string) option" where
  "read_attrs s =
     (let s1 = dropWhile (\<lambda>c. c = CHR '' '') s; name = takeWhile in_name s1; r = dropWhile in_name s1
      in if starts_with ''>'' s1 then Some ([], drop 1 s1)
         else if starts_with ''/>'' s1 then Some ([], drop 2 s1)
         else if name \<noteq> [] \<and> take 2 r = [CHR ''='', CHR 0x27] then
           (let v = takeWhile (\<lambda>c. c \<noteq> CHR 0x27) (drop 2 r); r2 = dropWhile (\<lambda>c. c \<noteq> CHR 0x27) (drop 2 r)
            in if r2 = [] then None
               else map_option (\<lambda>(as, e). ((name, unescape v) # as, e)) (read_attrs (tl r2)))
         else None)"
  by pat_completeness auto
termination
proof (relation "measure length", goal_cases)
  case (2 s s1 name r v r2)
  have "length r2 \<le> length r - 2" using 2 by (metis length_dropWhile_le length_drop)
  moreover have "length r \<le> length s1" unfolding 2(3) by (rule length_dropWhile_le)
  moreover have "length s1 \<le> length s" unfolding 2(1) by (rule length_dropWhile_le)
  moreover have "length (tl r2) < length r2" using 2 by (cases r2) simp_all
  ultimately have "length (tl r2) < length s" by linarith
  then show ?case by simp
qed simp

declare read_attrs.simps [simp del]

definition read_element :: "string \<Rightarrow> (string \<times> (string \<times> string) list \<times> string) option" where
  "read_element s =
     (if starts_with ''<textarea'' s then
        (case read_attrs (drop 9 s) of
           None \<Rightarrow> None
         | Some (as, e) \<Rightarrow> map_option (\<lambda>(a, b). (''textarea'', as, unescape a)) (cut_at ''</textarea>'' e))
      else if starts_with ''<input'' s then map_option (\<lambda>(as, e). (''input'', as, [])) (read_attrs (drop 6 s))
      else None)"

section \<open>The control is read as it was meant\<close>

lemma code_cases: "code c = 34 \<longleftrightarrow> c = CHR 0x22" "code c = 39 \<longleftrightarrow> c = CHR 0x27" "code c = 96 \<longleftrightarrow> c = CHR 0x60"
proof -
  have "code CHR 0x22 = 34" "code CHR 0x27 = 39" "code CHR 0x60 = 96" by simp_all
  then show "code c = 34 \<longleftrightarrow> c = CHR 0x22" "code c = 39 \<longleftrightarrow> c = CHR 0x27" "code c = 96 \<longleftrightarrow> c = CHR 0x60"
    using of_char_eq_iff [where 'a = nat] by metis+
qed

lemma unescape_escape_char: "unescape (escape_char c @ s) = c # unescape s"
  by (auto simp: escape_char_def code_cases starts_with_def)

lemma unescape_escape: "unescape (concat (map escape_char s)) = s"
  by (induction s) (simp_all add: unescape_escape_char del: unescape.simps(2))

lemma escape_char_safe: "CHR 0x27 \<notin> set (escape_char c)"
  by (auto simp: escape_char_def code_cases)

lemma escapeExpression_str: "unescape (escapeExpression (JStr s)) = s" "CHR 0x27 \<notin> set (escapeExpression (JStr s))"
  using escape_char_safe by (auto simp: escapeExpression_def unescape_escape)

text \<open>One attribute at a time.\<close>

definition plain_name :: "string \<Rightarrow> bool" where
  "plain_name k \<longleftrightarrow> k \<noteq> [] \<and> list_all in_name k"

lemma read_attr:
  assumes "plain_name k" "CHR 0x27 \<notin> set v"
  shows "read_attrs (attr k v @ s) = map_option (\<lambda>(as, e). ((k, unescape v) # as, e)) (read_attrs s)"
proof -
  obtain c k' where k: "k = c # k'" "in_name c" using assms(1) by (cases k) (auto simp: plain_name_def)
  then have c: "c \<noteq> CHR '' ''" "c \<noteq> CHR ''>''" "c \<noteq> CHR ''/''" by (auto simp: in_name_def)
  let ?r = "CHR ''='' # CHR 0x27 # v @ CHR 0x27 # s"
  have s1: "dropWhile (\<lambda>c. c = CHR '' '') (attr k v @ s) = k @ ?r" using k(1) c(1) by (simp add: attr_def in_quotes_def)
  have n: "takeWhile in_name (k @ ?r) = k" "dropWhile in_name (k @ ?r) = ?r"
    using assms(1) by (simp_all add: plain_name_def list_all_iff in_name_def)
  have v: "takeWhile (\<lambda>c. c \<noteq> CHR 0x27) (v @ CHR 0x27 # s) = v" "dropWhile (\<lambda>c. c \<noteq> CHR 0x27) (v @ CHR 0x27 # s) = CHR 0x27 # s"
    using assms(2) by (auto simp: takeWhile_append dropWhile_append)
  have no: "\<not> starts_with ''>'' (k @ ?r)" "\<not> starts_with ''/>'' (k @ ?r)" using k c by (simp_all add: starts_with_def)
  show ?thesis
    unfolding read_attrs.simps [of "attr k v @ s"] Let_def s1 n using no v assms(1) by (simp add: plain_name_def)
qed

lemma read_end: "read_attrs (CHR ''>'' # s) = Some ([], s)" "read_attrs (CHR ''/'' # CHR ''>'' # s) = Some ([], s)"
  by (subst read_attrs.simps, simp add: starts_with_def)+

text \<open>The element that is meant.\<close>

definition intended :: "bool \<Rightarrow> bool \<Rightarrow> string \<Rightarrow> string \<Rightarrow> string \<Rightarrow> string \<Rightarrow> string \<times> (string \<times> string) list \<times> string" where
  "intended isArray required name valueId kind dflt =
     (let ids = (if valueId = [] then [] else [(''id'', valueId)])
      in if isArray then
           (''textarea'', [(''class'', if required then ''body-textarea required'' else ''body-textarea''), (''name'', name)] @ ids
              @ [(''placeholder'', ''Provide multiple values in new lines'' @ (if required then '' (at least one required).'' else ''.''))], dflt)
         else
           (''input'', [(''class'', if required then ''parameter required'' else ''parameter''), (''minlength'', if required then ''1'' else ''0''),
              (''name'', name), (''placeholder'', if required then ''(required)'' else [])] @ ids @ [(''type'', kind), (''value'', dflt)], []))"

lemma unescape_plain: "CHR ''&'' \<notin> set s \<Longrightarrow> unescape s = s"
  by (induction s) (auto simp: starts_with_def)

lemma plain_names: "plain_name ''class''" "plain_name ''minlength''" "plain_name ''name''" "plain_name ''placeholder''" "plain_name ''id''"
  "plain_name ''type''" "plain_name ''value''"
  by (simp_all add: plain_name_def in_name_def)

lemma cut_at_tag: "CHR ''<'' \<notin> set d \<Longrightarrow> cut_at ''</textarea>'' (d @ ''</textarea>'') = Some (d, [])"
  by (induction d) (auto simp: starts_with_def)

lemma read_plain: "plain_name k \<Longrightarrow> CHR 0x27 \<notin> set v \<Longrightarrow> CHR ''&'' \<notin> set v \<Longrightarrow>
    read_attrs (attr k v @ s) = map_option (\<lambda>(as, e). ((k, v) # as, e)) (read_attrs s)"
  by (simp add: read_attr unescape_plain)

lemma read_ids: "read_attrs ((if escapeExpression (JStr v) \<noteq> [] then attr ''id'' (escapeExpression (JStr v)) else []) @ s) =
    map_option (\<lambda>(as, e). ((if v = [] then [] else [(''id'', v)]) @ as, e)) (read_attrs s)"
proof -
  have "escapeExpression (JStr v) = [] \<longleftrightarrow> v = []"
  proof
    assume "escapeExpression (JStr v) = []"
    then have "unescape (escapeExpression (JStr v)) = []" by simp
    then show "v = []" by (simp only: escapeExpression_str)
  qed (simp add: escapeExpression_def)
  then show ?thesis using escapeExpression_str [of v] by (auto simp: read_attr plain_names option.map_ident split_beta')
qed

text \<open>C32: Whatever its name is, the control of a parameter is an element with the intended attributes, from which the browser
  reads the name, the identifier and the default of the parameter, provided that the cleaned default has no single
  quote and no tag and that the parameter has no extensions for attributes.\<close>

theorem text_param_read:
  assumes html: "renderTextParam sanitizeHtml param = Inr html"
    and param: "arg param ''name'' = JStr name" "arg param ''valueId'' = JStr valueId" "list_all (\<lambda>(k, v). \<not> is_data_extension k) param"
    and ptype: "text_param_type param = Inr (JStr ptype)"
    and clean: "CHR 0x27 \<notin> set (default_text sanitizeHtml (array_param ptype param) param)"
      "CHR ''<'' \<notin> set (default_text sanitizeHtml (array_param ptype param) param)"
  shows "read_element html = Some (intended (array_param ptype param) (truthy (arg param ''required'')) name valueId (control_type param)
    (unescape (default_text sanitizeHtml (array_param ptype param) param)))"
proof -
  let ?d = "default_text sanitizeHtml (array_param ptype param) param"
  let ?ids = "if escapeExpression (JStr valueId) \<noteq> [] then attr ''id'' (escapeExpression (JStr valueId)) else []"
  have no_ext: "data_attrs param = []" using param(3) by (auto simp: data_attrs_def list_all_iff filter_empty_conv)
  have kind: "CHR 0x27 \<notin> set (control_type param)" "CHR ''&'' \<notin> set (control_type param)" by (simp_all add: control_type_def)
  have cut: "cut_at ''</textarea>'' (?d @ ''</textarea>'') = Some (?d, [])" using cut_at_tag clean(2) by blast
  note rules = read_plain read_attr read_ids read_end plain_names escapeExpression_str
  show ?thesis
  proof (cases "array_param ptype param")
    case True
    have h: "html = ''<textarea'' @ attr ''class'' (''body-textarea'' @ (if truthy (arg param ''required'') then '' required'' else []))
        @ attr ''name'' (escapeExpression (JStr name)) @ ?ids @ attr ''placeholder'' (''Provide multiple values in new lines''
          @ (if truthy (arg param ''required'') then '' (at least one required).'' else ''.'')) @ ''>'' @ ?d @ ''</textarea>''"
      using html True param(1,2) no_ext by (simp add: renderTextParam_def ptype textarea_html_def Let_def)
    have "read_attrs (drop 9 html) = Some (fst (snd (intended True (truthy (arg param ''required'')) name valueId (control_type param) (unescape ?d))), ?d @ ''</textarea>'')"
      unfolding h using kind clean by (simp add: rules intended_def Let_def)
    moreover have "starts_with ''<textarea'' html" by (simp add: h starts_with_def)
    ultimately show ?thesis using True cut by (simp add: read_element_def intended_def Let_def)
  next
    case False
    have h: "html = ''<input'' @ attr ''class'' (''parameter'' @ (if truthy (arg param ''required'') then '' required'' else []))
        @ attr ''minlength'' (if truthy (arg param ''required'') then ''1'' else ''0'') @ attr ''name'' (escapeExpression (JStr name))
        @ attr ''placeholder'' (if truthy (arg param ''required'') then ''(required)'' else []) @ ?ids
        @ attr ''type'' (control_type param) @ attr ''value'' ?d @ ''/>''"
      using html False param(1,2) no_ext by (simp add: renderTextParam_def ptype input_html_def Let_def)
    have "read_attrs (drop 6 html) = Some (fst (snd (intended False (truthy (arg param ''required'')) name valueId (control_type param) (unescape ?d))), [])"
      unfolding h using kind clean by (simp add: rules intended_def Let_def)
    moreover have "starts_with ''<input'' html" "\<not> starts_with ''<textarea'' html" by (simp_all add: h starts_with_def)
    ultimately show ?thesis using False by (simp add: read_element_def intended_def Let_def)
  qed
qed

theorem text_param_read_witness:
  "\<exists>html. renderTextParam to_str [(''name'', JStr [CHR ''a'', CHR 0x27, CHR ''b'']), (''valueId'', JStr []), (''type'', JStr ''string''), (''default'', JStr ''x'')] = Inr html
     \<and> read_element html = Some (''input'', [(''class'', ''parameter''), (''minlength'', ''0''), (''name'', [CHR ''a'', CHR 0x27, CHR ''b'']),
         (''placeholder'', []), (''type'', ''text''), (''value'', ''x'')], [])"
proof -
  let ?p = "[(''name'', JStr [CHR ''a'', CHR 0x27, CHR ''b'']), (''valueId'', JStr []), (''type'', JStr ''string''), (''default'', JStr ''x'')]"
  obtain html where html: "renderTextParam to_str ?p = Inr html"
    by (cases "renderTextParam to_str ?p") (auto simp: renderTextParam_def text_param_type_def Let_def)
  have "text_param_type ?p = Inr (JStr ''string'')" by code_simp
  moreover have "\<not> array_param ''string'' ?p" by code_simp
  moreover have "default_text to_str False ?p = ''x''" by code_simp
  moreover have "list_all (\<lambda>(k, v). \<not> is_data_extension k) ?p" by code_simp
  moreover have "unescape ''x'' = ''x''" by code_simp
  ultimately show ?thesis
    using text_param_read [OF html, of "[CHR ''a'', CHR 0x27, CHR ''b'']" "[]" "''string''"] html
    by (simp add: intended_def control_type_def)
qed

section \<open>Where it goes wrong\<close>

text \<open>A default is cleaned of tags but not of quotes, so it can end its attribute and begin others: the specification of a
  service can bring handlers into the page. So can the values of extensions, which are not escaped at all.\<close>

lemma default_breaks_out:
  "bindR (renderTextParam to_str [(''name'', JStr ''n''), (''type'', JStr ''string''),
      (''default'', JStr ([CHR 0x27] @ '' onfocus='' @ in_quotes ''f()'' @ '' x='' @ [CHR 0x27]))]) (\<lambda>html. Inr (read_element html))
   = Inr (Some (''input'', [(''class'', ''parameter''), (''minlength'', ''0''), (''name'', ''n''), (''placeholder'', []), (''type'', ''text''), (''value'', []),
       (''onfocus'', ''f()''), (''x'', [])], []))"
  by code_simp

lemma extension_breaks_out:
  "bindR (renderTextParam to_str [(''name'', JStr ''n''), (''type'', JStr ''string''),
      (''X-data-a'', JStr ([CHR 0x27] @ '' onfocus='' @ in_quotes ''f()'' @ '' x='' @ [CHR 0x27]))]) (\<lambda>html. Inr (map_option (\<lambda>(t, as, e). map fst as) (read_element html)))
   = Inr (Some [''class'', ''minlength'', ''name'', ''placeholder'', ''data-a'', ''onfocus'', ''x'', ''type'', ''value''])"
  by code_simp

end
