(* ===== verification/Superagent_Methods.thy ===== *)
theory Superagent_Methods
  imports Superagent
begin

text \<open>
  Ways to make a request of the bundled superagent that the client of module 5 does not use (module 158): basic authentication
  and the functions named after the methods of HTTP. That a callback is given starts the request.
\<close>

section \<open>Authentication\<close>

text \<open>\<open>options.type\<close>, which is \<open>basic\<close> without options. With \<open>auto\<close> the browser gets user and password when the request is opened.\<close>

definition sa_auth :: "string \<Rightarrow> string \<Rightarrow> jsv option \<Rightarrow> sa_request \<Rightarrow> (sa_request \<times> (string \<times> string) option) result" where
  "sa_auth user pass options r =
     (let typ = (case options of Some v \<Rightarrow> if truthy v then prop_of v ''type'' else JStr ''basic'' | None \<Rightarrow> JStr ''basic'')
      in if typ = JStr ''basic'' then
           bindR (btoa_string (user @ '':'' @ pass)) (\<lambda>str. Inr (set_header ''Authorization'' (JStr (''Basic '' @ str)) r, None))
         else if typ = JStr ''auto'' then Inr (r, Some (user, pass))
         else Inr (r, None))"

section \<open>The methods of HTTP\<close>

text \<open>The second argument is the data or the callback. The result tells whether the request was started.\<close>

datatype second = NoSecond | Callback | GivenData jsv

definition data_of :: "second \<Rightarrow> jsv" where
  "data_of d = (case d of GivenData v \<Rightarrow> v | _ \<Rightarrow> JUndef)"

definition given_fn :: "second \<Rightarrow> bool \<Rightarrow> bool" where
  "given_fn d fn \<longleftrightarrow> d = Callback \<or> fn"

definition send_data :: "second \<Rightarrow> sa_request \<Rightarrow> sa_request" where
  "send_data d r = (if truthy (data_of d) then sa_send (BodyValue (data_of d)) r else r)"

definition sa_get :: "string \<Rightarrow> second \<Rightarrow> bool \<Rightarrow> sa_request \<times> bool" where
  "sa_get u d fn =
     (let r = new_request ''GET'' u in (if truthy (data_of d) then add_query (data_of d) r else r, given_fn d fn))"

definition sa_head :: "string \<Rightarrow> second \<Rightarrow> bool \<Rightarrow> sa_request \<times> bool" where
  "sa_head u d fn = (send_data d (new_request ''HEAD'' u), given_fn d fn)"

definition sa_options :: "string \<Rightarrow> second \<Rightarrow> bool \<Rightarrow> sa_request \<times> bool" where
  "sa_options u d fn = (send_data d (new_request ''OPTIONS'' u), given_fn d fn)"

definition sa_del :: "string \<Rightarrow> bool \<Rightarrow> sa_request \<times> bool" where
  "sa_del u fn = (new_request ''DELETE'' u, fn)"

definition sa_patch :: "string \<Rightarrow> second \<Rightarrow> bool \<Rightarrow> sa_request \<times> bool" where
  "sa_patch u d fn = (send_data d (new_request ''PATCH'' u), given_fn d fn)"

definition sa_post :: "string \<Rightarrow> second \<Rightarrow> bool \<Rightarrow> sa_request \<times> bool" where
  "sa_post u d fn = (send_data d (new_request ''POST'' u), given_fn d fn)"

definition sa_put :: "string \<Rightarrow> second \<Rightarrow> bool \<Rightarrow> sa_request \<times> bool" where
  "sa_put u d fn = (send_data d (new_request ''PUT'' u), given_fn d fn)"

lemmas sa_methods = sa_head_def sa_options_def sa_patch_def sa_post_def sa_put_def

section \<open>What is sent\<close>

lemma new_request_simps [simp]: "header (new_request m u) = []" "header_lower (new_request m u) = []" "sa_method (new_request m u) = m"
  "sa_data (new_request m u) = BodyValue JUndef" "sa_formData (new_request m u) = None" "sa_query (new_request m u) = []"
  by (simp_all add: new_request_def)

lemma json_media_type: "to_lower ''Content-Type'' = ''content-type''" "named_type ''json'' = JStr ''application/json''"
  "split_char CHR '';'' ''application/json'' = [''application/json'']"
  by code_simp+

lemma send_object:
  assumes "m \<noteq> ''GET''" "m \<noteq> ''HEAD''"
  shows "wire_data (send_data (GivenData (JObj o1)) (new_request m u)) = TextPayload (JStr (json_text (JObj o1)))
    \<and> arg (wire_headers (send_data (GivenData (JObj o1)) (new_request m u))) ''Content-Type'' = JStr ''application/json''"
  using assms
  by (simp add: send_data_def data_of_def sa_send_def body_is_object_def is_object_def truthy_def set_type_def set_header_def json_media_type
      wire_data_def serializer_def json_stringify_def wire_value_def wire_headers_def)

text \<open>The object that is given as data to one of these functions reaches the server as JSON.\<close>

theorem method_data_sent:
  assumes "f \<in> {sa_options, sa_patch, sa_post, sa_put}"
  shows "wire_data (fst (f u (GivenData (JObj o1)) fn)) = TextPayload (JStr (json_text (JObj o1)))
    \<and> arg (wire_headers (fst (f u (GivenData (JObj o1)) fn))) ''Content-Type'' = JStr ''application/json''"
  using assms by (auto simp: sa_methods send_object)

theorem method_data_sent_witness:
  "wire_data (fst (sa_put ''/x'' (GivenData (JObj [(''a'', JNum 1)])) True)) = TextPayload (JStr (json_text (JObj [(''a'', JNum 1)])))"
  using method_data_sent [of sa_put "''/x''" "[(''a'', JNum 1)]" True] by simp

text \<open>Data for \<open>head\<close> go into the body, which a request of that method has not; \<open>get\<close> puts them into the query. A second argument
  that is zero or empty is not sent.\<close>

lemma head_data_lost:
  "sa_query (fst (sa_head ''/x'' (GivenData (JObj [(''a'', JNum 1)])) True)) = []"
  "sa_query (fst (sa_get ''/x'' (GivenData (JObj [(''a'', JNum 1)])) True)) = [''a=1'']"
  "wire_data (fst (sa_post ''/x'' (GivenData (JNum 0)) True)) = NoPayload"
  by code_simp+

text \<open>The server that decodes the header of basic authentication gets user and password, if the user has no colon.\<close>

definition to_bytes :: "string \<Rightarrow> 8 word list" where
  "to_bytes s = map (\<lambda>c. word_of_nat (code c)) s"

definition read_basic :: "jsv \<Rightarrow> (8 word list \<times> 8 word list) option" where
  "read_basic v = (case v of
      JStr s \<Rightarrow>
        if starts_with ''Basic '' s then
          (case b64ToByteArray (drop 6 s) of Inr bs \<Rightarrow> cut_at [58] bs | Inl _ \<Rightarrow> None)
        else None
    | _ \<Rightarrow> None)"

lemma cut_at_colon: "CHR '':'' \<notin> set user \<Longrightarrow> cut_at [58] (to_bytes (user @ '':'' @ pass)) = Some (to_bytes user, to_bytes pass)"
proof -
  assume user: "CHR '':'' \<notin> set user"
  have colon: "code CHR '':'' = (58 :: nat)" by simp
  have "(word_of_nat (code c) :: 8 word) \<noteq> 58" if "c \<in> set user" for c
  proof
    assume "(word_of_nat (code c) :: 8 word) = 58"
    then have "unat (word_of_nat (code c) :: 8 word) = 58" by simp
    moreover have "code c < (256 :: nat)" by (rule nat_of_char_less_256)
    ultimately have "code c = (58 :: nat)" by (simp add: unat_of_nat)
    then have "c = CHR '':''" using colon of_char_eq_iff [where 'a = nat] by metis
    then show False using user that by blast
  qed
  then have "58 \<notin> set (to_bytes user)" by (auto simp: to_bytes_def)
  then show ?thesis using cut_at_first [of 58 "to_bytes user" "to_bytes pass"] by (simp add: to_bytes_def)
qed

theorem basic_auth_read:
  assumes "length (user @ '':'' @ pass) < 2 ^ 31" and "CHR '':'' \<notin> set user"
  shows "\<exists>r'. sa_auth user pass None r = Inr (r', None) \<and> read_basic (get_header ''authorization'' r') = Some (to_bytes user, to_bytes pass)"
proof -
  have btoa: "btoa_string (user @ '':'' @ pass) = Inr (uint8ToBase64 (to_bytes (user @ '':'' @ pass)))"
    using btoa_string_text [OF assms(1)] by (simp add: to_bytes_def)
  have low: "to_lower ''Authorization'' = to_lower ''authorization''" by code_simp
  show ?thesis
    using btoa low cut_at_colon [OF assms(2), of pass]
    by (simp add: sa_auth_def Let_def get_header_def set_header_def read_basic_def base64_roundtrip_lemma)
qed

theorem basic_auth_read_witness:
  "\<exists>r'. sa_auth ''ann'' ''a:b'' None (new_request ''GET'' ''/'') = Inr (r', None)
     \<and> read_basic (get_header ''authorization'' r') = Some (to_bytes ''ann'', to_bytes ''a:b'')"
  by (rule basic_auth_read) simp_all

end
