(* ===== verification/Translator.thy ===== *)
theory Translator
  imports JS_Value
begin

text \<open>
  The translation of the labels of the page (\<open>lang/translator.js\<close>) and the language files whose texts are made of characters
  below 256: Catalan, English, Spanish, French, Italian and Portuguese. The texts of an element are its
  inner markup, its value and its title; one that is absent is the empty text.
\<close>

section \<open>Translating\<close>

record element =
  el_html :: string
  el_val :: string
  el_title :: string

definition tryTranslate :: "string obj \<Rightarrow> string \<Rightarrow> string" where
  "tryTranslate words word = (case obj_get words (js_trim word) of Some t \<Rightarrow> t | None \<Rightarrow> word)"

definition learn :: "string obj \<Rightarrow> string obj \<Rightarrow> string obj" where
  "learn wordsMap words = wordsMap"

definition translate :: "string obj \<Rightarrow> element list \<Rightarrow> element list" where
  "translate words els = map (\<lambda>e. \<lparr>el_html = tryTranslate words (el_html e), el_val = tryTranslate words (el_val e),
     el_title = tryTranslate words (el_title e)\<rparr>) els"

section \<open>Language files\<close>

definition catalan :: "string obj" where
  "catalan = [
    (''Warning: Deprecated'', ''Advert'' @ [CHR 0xE8] @ ''ncia: Obsolet''),
    (''Implementation Notes'', ''Notes d'' @ [CHR 0x27] @ ''implementaci'' @ [CHR 0xF3]),
    (''Response Class'', ''Classe de la Resposta''),
    (''Status'', ''Estatus''),
    (''Parameters'', ''Par'' @ [CHR 0xE0] @ ''metres''),
    (''Parameter'', ''Par'' @ [CHR 0xE0] @ ''metre''),
    (''Value'', ''Valor''),
    (''Description'', ''Descripci'' @ [CHR 0xF3]),
    (''Parameter Type'', ''Tipus del Par'' @ [CHR 0xE0] @ ''metre''),
    (''Data Type'', ''Tipus de la Dada''),
    (''Response Messages'', ''Missatges de la Resposta''),
    (''HTTP Status Code'', ''Codi d'' @ [CHR 0x27] @ ''Estatus HTTP''),
    (''Reason'', ''Ra'' @ [CHR 0xF3]),
    (''Response Model'', ''Model de la Resposta''),
    (''Request URL'', ''URL de la Sol'' @ [CHR 0xB7] @ ''licitud''),
    (''Response Body'', ''Cos de la Resposta''),
    (''Response Code'', ''Codi de la Resposta''),
    (''Response Headers'', ''Cap'' @ [CHR 0xE7] @ ''aleres de la Resposta''),
    (''Hide Response'', ''Amagar Resposta''),
    (''Try it out!'', ''Prova-ho!''),
    (''Show/Hide'', ''Mostrar/Amagar''),
    (''List Operations'', ''Llista Operacions''),
    (''Expand Operations'', ''Expandir Operacions''),
    (''Raw'', ''Cru''),
    (''can'' @ [CHR 0x27] @ ''t parse JSON.  Raw result'', ''no puc analitzar el JSON.  Resultat cru''),
    (''Example Value'', ''Valor d'' @ [CHR 0x27] @ ''Exemple''),
    (''Model Schema'', ''Esquema del Model''),
    (''Model'', ''Model''),
    (''apply'', ''aplicar''),
    (''Username'', ''Nom d'' @ [CHR 0x27] @ ''usuari''),
    (''Password'', ''Contrasenya''),
    (''Terms of service'', ''Termes del servei''),
    (''Created by'', ''Creat per''),
    (''See more at'', ''Veure m'' @ [CHR 0xE9] @ ''s en''),
    (''Contact the developer'', ''Contactar amb el desenvolupador''),
    (''api version'', ''versi'' @ [CHR 0xF3] @ '' de la api''),
    (''Response Content Type'', ''Tipus de Contingut de la Resposta''),
    (''fetching resource'', ''recollint recurs''),
    (''fetching resource list'', ''recollins llista de recursos''),
    (''Explore'', ''Explorant''),
    (''Show Swagger Petstore Example Apis'', ''Mostrar API d'' @ [CHR 0x27] @ ''Exemple Swagger Petstore''),
    (''Can'' @ [CHR 0x27] @ ''t read from server.  It may not have the appropriate access-control-origin settings.'', ''No es pot llegir del servidor. Potser no teniu la configuraci'' @ [CHR 0xF3] @ '' de control d'' @ [CHR 0x27] @ ''acc'' @ [CHR 0xE9] @ ''s apropiada.''),
    (''Please specify the protocol for'', ''Si us plau, especifiqueu el protocol per a''),
    (''Can'' @ [CHR 0x27] @ ''t read swagger JSON from'', ''No es pot llegir el JSON de swagger des de''),
    (''Finished Loading Resource Information. Rendering Swagger UI'', ''Finalitzada la c'' @ [CHR 0xE0] @ ''rrega del recurs informatiu. Renderitzant Swagger UI''),
    (''Unable to read api'', ''No es pot llegir l'' @ [CHR 0x27] @ ''api''),
    (''from path'', ''des de la ruta''),
    (''server returned'', ''el servidor ha retornat'')]"

definition english :: "string obj" where
  "english = [
    (''Warning: Deprecated'', ''Warning: Deprecated''),
    (''Implementation Notes'', ''Implementation Notes''),
    (''Response Class'', ''Response Class''),
    (''Status'', ''Status''),
    (''Parameters'', ''Parameters''),
    (''Parameter'', ''Parameter''),
    (''Value'', ''Value''),
    (''Description'', ''Description''),
    (''Parameter Type'', ''Parameter Type''),
    (''Data Type'', ''Data Type''),
    (''Response Messages'', ''Response Messages''),
    (''HTTP Status Code'', ''HTTP Status Code''),
    (''Reason'', ''Reason''),
    (''Response Model'', ''Response Model''),
    (''Request URL'', ''Request URL''),
    (''Response Body'', ''Response Body''),
    (''Response Code'', ''Response Code''),
    (''Response Headers'', ''Response Headers''),
    (''Hide Response'', ''Hide Response''),
    (''Headers'', ''Headers''),
    (''Try it out!'', ''Try it out!''),
    (''Show/Hide'', ''Show/Hide''),
    (''List Operations'', ''List Operations''),
    (''Expand Operations'', ''Expand Operations''),
    (''Raw'', ''Raw''),
    (''can'' @ [CHR 0x27] @ ''t parse JSON.  Raw result'', ''can'' @ [CHR 0x27] @ ''t parse JSON.  Raw result''),
    (''Example Value'', ''Example Value''),
    (''Model Schema'', ''Model Schema''),
    (''Model'', ''Model''),
    (''Click to set as parameter value'', ''Click to set as parameter value''),
    (''apply'', ''apply''),
    (''Username'', ''Username''),
    (''Password'', ''Password''),
    (''Terms of service'', ''Terms of service''),
    (''Created by'', ''Created by''),
    (''See more at'', ''See more at''),
    (''Contact the developer'', ''Contact the developer''),
    (''api version'', ''api version''),
    (''Response Content Type'', ''Response Content Type''),
    (''Parameter content type:'', ''Parameter content type:''),
    (''fetching resource'', ''fetching resource''),
    (''fetching resource list'', ''fetching resource list''),
    (''Explore'', ''Explore''),
    (''Show Swagger Petstore Example Apis'', ''Show Swagger Petstore Example Apis''),
    (''Can'' @ [CHR 0x27] @ ''t read from server.  It may not have the appropriate access-control-origin settings.'', ''Can'' @ [CHR 0x27] @ ''t read from server.  It may not have the appropriate access-control-origin settings.''),
    (''Please specify the protocol for'', ''Please specify the protocol for''),
    (''Can'' @ [CHR 0x27] @ ''t read swagger JSON from'', ''Can'' @ [CHR 0x27] @ ''t read swagger JSON from''),
    (''Finished Loading Resource Information. Rendering Swagger UI'', ''Finished Loading Resource Information. Rendering Swagger UI''),
    (''Unable to read api'', ''Unable to read api''),
    (''from path'', ''from path''),
    (''server returned'', ''server returned'')]"

definition spanish :: "string obj" where
  "spanish = [
    (''Warning: Deprecated'', ''Advertencia: Obsoleto''),
    (''Implementation Notes'', ''Notas de implementaci'' @ [CHR 0xF3] @ ''n''),
    (''Response Class'', ''Clase de la Respuesta''),
    (''Status'', ''Status''),
    (''Parameters'', ''Par'' @ [CHR 0xE1] @ ''metros''),
    (''Parameter'', ''Par'' @ [CHR 0xE1] @ ''metro''),
    (''Value'', ''Valor''),
    (''Description'', ''Descripci'' @ [CHR 0xF3] @ ''n''),
    (''Parameter Type'', ''Tipo del Par'' @ [CHR 0xE1] @ ''metro''),
    (''Data Type'', ''Tipo del Dato''),
    (''Response Messages'', ''Mensajes de la Respuesta''),
    (''HTTP Status Code'', ''C'' @ [CHR 0xF3] @ ''digo de Status HTTP''),
    (''Reason'', ''Raz'' @ [CHR 0xF3] @ ''n''),
    (''Response Model'', ''Modelo de la Respuesta''),
    (''Request URL'', ''URL de la Solicitud''),
    (''Response Body'', ''Cuerpo de la Respuesta''),
    (''Response Code'', ''C'' @ [CHR 0xF3] @ ''digo de la Respuesta''),
    (''Response Headers'', ''Encabezados de la Respuesta''),
    (''Hide Response'', ''Ocultar Respuesta''),
    (''Try it out!'', ''Pru'' @ [CHR 0xE9] @ ''balo!''),
    (''Show/Hide'', ''Mostrar/Ocultar''),
    (''List Operations'', ''Listar Operaciones''),
    (''Expand Operations'', ''Expandir Operaciones''),
    (''Raw'', ''Crudo''),
    (''can'' @ [CHR 0x27] @ ''t parse JSON.  Raw result'', ''no puede parsear el JSON.  Resultado crudo''),
    (''Example Value'', ''Valor de Ejemplo''),
    (''Model Schema'', ''Esquema del Modelo''),
    (''Model'', ''Modelo''),
    (''apply'', ''aplicar''),
    (''Username'', ''Nombre de usuario''),
    (''Password'', ''Contrase'' @ [CHR 0xF1] @ ''a''),
    (''Terms of service'', ''T'' @ [CHR 0xE9] @ ''rminos de Servicio''),
    (''Created by'', ''Creado por''),
    (''See more at'', ''Ver m'' @ [CHR 0xE1] @ ''s en''),
    (''Contact the developer'', ''Contactar al desarrollador''),
    (''api version'', ''versi'' @ [CHR 0xF3] @ ''n de la api''),
    (''Response Content Type'', ''Tipo de Contenido (Content Type) de la Respuesta''),
    (''fetching resource'', ''buscando recurso''),
    (''fetching resource list'', ''buscando lista del recurso''),
    (''Explore'', ''Explorar''),
    (''Show Swagger Petstore Example Apis'', ''Mostrar Api Ejemplo de Swagger Petstore''),
    (''Can'' @ [CHR 0x27] @ ''t read from server.  It may not have the appropriate access-control-origin settings.'', ''No se puede leer del servidor. Tal vez no tiene la configuraci'' @ [CHR 0xF3] @ ''n de control de acceso de origen (access-control-origin) apropiado.''),
    (''Please specify the protocol for'', ''Por favor, especificar el protocola para''),
    (''Can'' @ [CHR 0x27] @ ''t read swagger JSON from'', ''No se puede leer el JSON de swagger desde''),
    (''Finished Loading Resource Information. Rendering Swagger UI'', ''Finalizada la carga del recurso de Informaci'' @ [CHR 0xF3] @ ''n. Mostrando Swagger UI''),
    (''Unable to read api'', ''No se puede leer la api''),
    (''from path'', ''desde ruta''),
    (''server returned'', ''el servidor retorn'' @ [CHR 0xF3])]"

definition french :: "string obj" where
  "french = [
    (''Warning: Deprecated'', ''Avertissement : Obsol'' @ [CHR 0xE8] @ ''te''),
    (''Implementation Notes'', ''Notes d'' @ [CHR 0x27] @ ''impl'' @ [CHR 0xE9] @ ''mentation''),
    (''Response Class'', ''Classe de la r'' @ [CHR 0xE9] @ ''ponse''),
    (''Status'', ''Statut''),
    (''Parameters'', ''Param'' @ [CHR 0xE8] @ ''tres''),
    (''Parameter'', ''Param'' @ [CHR 0xE8] @ ''tre''),
    (''Value'', ''Valeur''),
    (''Description'', ''Description''),
    (''Parameter Type'', ''Type du param'' @ [CHR 0xE8] @ ''tre''),
    (''Data Type'', ''Type de donn'' @ [CHR 0xE9] @ ''es''),
    (''Response Messages'', ''Messages de la r'' @ [CHR 0xE9] @ ''ponse''),
    (''HTTP Status Code'', ''Code de statut HTTP''),
    (''Reason'', ''Raison''),
    (''Response Model'', ''Mod'' @ [CHR 0xE8] @ ''le de r'' @ [CHR 0xE9] @ ''ponse''),
    (''Request URL'', ''URL appel'' @ [CHR 0xE9] @ ''e''),
    (''Response Body'', ''Corps de la r'' @ [CHR 0xE9] @ ''ponse''),
    (''Response Code'', ''Code de la r'' @ [CHR 0xE9] @ ''ponse''),
    (''Response Headers'', ''En-t'' @ [CHR 0xEA] @ ''tes de la r'' @ [CHR 0xE9] @ ''ponse''),
    (''Hide Response'', ''Cacher la r'' @ [CHR 0xE9] @ ''ponse''),
    (''Headers'', ''En-t'' @ [CHR 0xEA] @ ''tes''),
    (''Try it out!'', ''Testez !''),
    (''Show/Hide'', ''Afficher/Masquer''),
    (''List Operations'', ''Liste des op'' @ [CHR 0xE9] @ ''rations''),
    (''Expand Operations'', ''D'' @ [CHR 0xE9] @ ''velopper les op'' @ [CHR 0xE9] @ ''rations''),
    (''Raw'', ''Brut''),
    (''can'' @ [CHR 0x27] @ ''t parse JSON.  Raw result'', ''impossible de d'' @ [CHR 0xE9] @ ''coder le JSON.  R'' @ [CHR 0xE9] @ ''sultat brut''),
    (''Example Value'', ''Exemple la valeur''),
    (''Model Schema'', ''D'' @ [CHR 0xE9] @ ''finition du mod'' @ [CHR 0xE8] @ ''le''),
    (''Model'', ''Mod'' @ [CHR 0xE8] @ ''le''),
    (''apply'', ''appliquer''),
    (''Username'', ''Nom d'' @ [CHR 0x27] @ ''utilisateur''),
    (''Password'', ''Mot de passe''),
    (''Terms of service'', ''Conditions de service''),
    (''Created by'', ''Cr'' @ [CHR 0xE9] @ [CHR 0xE9] @ '' par''),
    (''See more at'', ''Voir plus sur''),
    (''Contact the developer'', ''Contacter le d'' @ [CHR 0xE9] @ ''veloppeur''),
    (''api version'', ''version de l'' @ [CHR 0x27] @ ''api''),
    (''Response Content Type'', ''Content Type de la r'' @ [CHR 0xE9] @ ''ponse''),
    (''fetching resource'', ''r'' @ [CHR 0xE9] @ ''cup'' @ [CHR 0xE9] @ ''ration de la ressource''),
    (''fetching resource list'', ''r'' @ [CHR 0xE9] @ ''cup'' @ [CHR 0xE9] @ ''ration de la liste de ressources''),
    (''Explore'', ''Explorer''),
    (''Show Swagger Petstore Example Apis'', ''Montrer les Apis de l'' @ [CHR 0x27] @ ''exemple Petstore de Swagger''),
    (''Can'' @ [CHR 0x27] @ ''t read from server.  It may not have the appropriate access-control-origin settings.'', ''Impossible de lire '' @ [CHR 0xE0] @ '' partir du serveur. Il se peut que les r'' @ [CHR 0xE9] @ ''glages access-control-origin ne soient pas appropri'' @ [CHR 0xE9] @ ''s.''),
    (''Please specify the protocol for'', ''Veuillez sp'' @ [CHR 0xE9] @ ''cifier un protocole pour''),
    (''Can'' @ [CHR 0x27] @ ''t read swagger JSON from'', ''Impossible de lire le JSON swagger '' @ [CHR 0xE0] @ '' partir de''),
    (''Finished Loading Resource Information. Rendering Swagger UI'', ''Chargement des informations termin'' @ [CHR 0xE9] @ ''. Affichage de Swagger UI''),
    (''Unable to read api'', ''Impossible de lire l'' @ [CHR 0x27] @ ''api''),
    (''from path'', [CHR 0xE0] @ '' partir du chemin''),
    (''server returned'', ''r'' @ [CHR 0xE9] @ ''ponse du serveur'')]"

definition italian :: "string obj" where
  "italian = [
    (''Warning: Deprecated'', ''Attenzione: Deprecato''),
    (''Implementation Notes'', ''Note di implementazione''),
    (''Response Class'', ''Classe della risposta''),
    (''Status'', ''Stato''),
    (''Parameters'', ''Parametri''),
    (''Parameter'', ''Parametro''),
    (''Value'', ''Valore''),
    (''Description'', ''Descrizione''),
    (''Parameter Type'', ''Tipo di parametro''),
    (''Data Type'', ''Tipo di dato''),
    (''Response Messages'', ''Messaggi della risposta''),
    (''HTTP Status Code'', ''Codice stato HTTP''),
    (''Reason'', ''Motivo''),
    (''Response Model'', ''Modello di risposta''),
    (''Request URL'', ''URL della richiesta''),
    (''Response Body'', ''Corpo della risposta''),
    (''Response Code'', ''Oggetto della risposta''),
    (''Response Headers'', ''Intestazioni della risposta''),
    (''Hide Response'', ''Nascondi risposta''),
    (''Try it out!'', ''Provalo!''),
    (''Show/Hide'', ''Mostra/Nascondi''),
    (''List Operations'', ''Mostra operazioni''),
    (''Expand Operations'', ''Espandi operazioni''),
    (''Raw'', ''Grezzo (raw)''),
    (''can'' @ [CHR 0x27] @ ''t parse JSON.  Raw result'', ''non '' @ [CHR 0xE8] @ '' possibile parsare il JSON. Risultato grezzo (raw).''),
    (''Model Schema'', ''Schema del modello''),
    (''Model'', ''Modello''),
    (''apply'', ''applica''),
    (''Username'', ''Nome utente''),
    (''Password'', ''Password''),
    (''Terms of service'', ''Condizioni del servizio''),
    (''Created by'', ''Creato da''),
    (''See more at'', ''Informazioni aggiuntive:''),
    (''Contact the developer'', ''Contatta lo sviluppatore''),
    (''api version'', ''versione api''),
    (''Response Content Type'', ''Tipo di contenuto (content type) della risposta''),
    (''fetching resource'', ''recuperando la risorsa''),
    (''fetching resource list'', ''recuperando lista risorse''),
    (''Explore'', ''Esplora''),
    (''Show Swagger Petstore Example Apis'', ''Mostra le api di esempio di Swagger Petstore''),
    (''Can'' @ [CHR 0x27] @ ''t read from server.  It may not have the appropriate access-control-origin settings.'', ''Non '' @ [CHR 0xE8] @ '' possibile leggere dal server. Potrebbe non avere le impostazioni di controllo accesso origine (access-control-origin) appropriate.''),
    (''Please specify the protocol for'', ''Si prega di specificare il protocollo per''),
    (''Can'' @ [CHR 0x27] @ ''t read swagger JSON from'', ''Impossibile leggere JSON swagger da:''),
    (''Finished Loading Resource Information. Rendering Swagger UI'', ''Lettura informazioni risorse termianta. Swagger UI viene mostrata''),
    (''Unable to read api'', ''Impossibile leggere la api''),
    (''from path'', ''da cartella''),
    (''server returned'', ''il server ha restituito'')]"

definition portuguese :: "string obj" where
  "portuguese = [
    (''Warning: Deprecated'', ''Aviso: Depreciado''),
    (''Implementation Notes'', ''Notas de Implementa'' @ [CHR 0xE7] @ [CHR 0xE3] @ ''o''),
    (''Response Class'', ''Classe de resposta''),
    (''Status'', ''Status''),
    (''Parameters'', ''Par'' @ [CHR 0xE2] @ ''metros''),
    (''Parameter'', ''Par'' @ [CHR 0xE2] @ ''metro''),
    (''Value'', ''Valor''),
    (''Description'', ''Descri'' @ [CHR 0xE7] @ [CHR 0xE3] @ ''o''),
    (''Parameter Type'', ''Tipo de par'' @ [CHR 0xE2] @ ''metro''),
    (''Data Type'', ''Tipo de dados''),
    (''Response Messages'', ''Mensagens de resposta''),
    (''HTTP Status Code'', ''C'' @ [CHR 0xF3] @ ''digo de status HTTP''),
    (''Reason'', ''Raz'' @ [CHR 0xE3] @ ''o''),
    (''Response Model'', ''Modelo resposta''),
    (''Request URL'', ''URL requisi'' @ [CHR 0xE7] @ [CHR 0xE3] @ ''o''),
    (''Response Body'', ''Corpo da resposta''),
    (''Response Code'', ''C'' @ [CHR 0xF3] @ ''digo da resposta''),
    (''Response Headers'', ''Cabe'' @ [CHR 0xE7] @ ''alho da resposta''),
    (''Headers'', ''Cabe'' @ [CHR 0xE7] @ ''alhos''),
    (''Hide Response'', ''Esconder resposta''),
    (''Try it out!'', ''Tente agora!''),
    (''Show/Hide'', ''Mostrar/Esconder''),
    (''List Operations'', ''Listar opera'' @ [CHR 0xE7] @ [CHR 0xF5] @ ''es''),
    (''Expand Operations'', ''Expandir opera'' @ [CHR 0xE7] @ [CHR 0xF5] @ ''es''),
    (''Raw'', ''Cru''),
    (''can'' @ [CHR 0x27] @ ''t parse JSON.  Raw result'', ''Falha ao analisar JSON.  Resulto cru''),
    (''Model Schema'', ''Modelo esquema''),
    (''Model'', ''Modelo''),
    (''apply'', ''Aplicar''),
    (''Username'', ''Usu'' @ [CHR 0xE1] @ ''rio''),
    (''Password'', ''Senha''),
    (''Terms of service'', ''Termos do servi'' @ [CHR 0xE7] @ ''o''),
    (''Created by'', ''Criado por''),
    (''See more at'', ''Veja mais em''),
    (''Contact the developer'', ''Contate o desenvolvedor''),
    (''api version'', ''Vers'' @ [CHR 0xE3] @ ''o api''),
    (''Response Content Type'', ''Tipo de conte'' @ [CHR 0xFA] @ ''do da resposta''),
    (''fetching resource'', ''busca recurso''),
    (''fetching resource list'', ''buscando lista de recursos''),
    (''Explore'', ''Explorar''),
    (''Show Swagger Petstore Example Apis'', ''Show Swagger Petstore Example Apis''),
    (''Can'' @ [CHR 0x27] @ ''t read from server.  It may not have the appropriate access-control-origin settings.'', ''N'' @ [CHR 0xE3] @ ''o '' @ [CHR 0xE9] @ '' poss'' @ [CHR 0xED] @ ''vel ler do servidor. Pode n'' @ [CHR 0xE3] @ ''o ter as apropriadas configura'' @ [CHR 0xE7] @ [CHR 0xF5] @ ''es access-control-origin''),
    (''Please specify the protocol for'', ''Por favor especifique o protocolo''),
    (''Can'' @ [CHR 0x27] @ ''t read swagger JSON from'', ''N'' @ [CHR 0xE3] @ ''o '' @ [CHR 0xE9] @ '' poss'' @ [CHR 0xED] @ ''vel ler o JSON Swagger de''),
    (''Finished Loading Resource Information. Rendering Swagger UI'', ''Carregar informa'' @ [CHR 0xE7] @ [CHR 0xE3] @ ''o de recurso finalizada. Renderizando Swagger UI''),
    (''Unable to read api'', ''N'' @ [CHR 0xE3] @ ''o foi poss'' @ [CHR 0xED] @ ''vel ler api''),
    (''from path'', ''do caminho''),
    (''server returned'', ''servidor retornou'')]"

section \<open>What a language file must satisfy\<close>

text \<open>Every translation is left alone when it is translated again.\<close>

definition stable :: "string obj \<Rightarrow> bool" where
  "stable words = list_all (\<lambda>(k, t). tryTranslate words t = t) words"

lemma tryTranslate_again:
  assumes "stable words"
  shows "tryTranslate words (tryTranslate words w) = tryTranslate words w"
proof (cases "obj_get words (js_trim w)")
  case (Some t)
  then have "(js_trim w, t) \<in> set words" by (rule obj_get_in_set)
  then show ?thesis using assms Some by (auto simp: stable_def list_all_iff tryTranslate_def)
qed (simp add: tryTranslate_def)

text \<open>English texts are their own translations, so with English the page changes at most the blanks around a text.\<close>

lemma english_same: "list_all (\<lambda>(k, t). k = t) english"
  by code_simp

lemma english_keeps: "js_trim (tryTranslate english w) = js_trim w"
proof (cases "obj_get english (js_trim w)")
  case (Some t)
  then have "(js_trim w, t) \<in> set english" by (rule obj_get_in_set)
  then have "t = js_trim w" using english_same by (force simp: list_all_iff)
  then show ?thesis using Some by (simp add: tryTranslate_def js_trim_idem)
qed (simp add: tryTranslate_def)

end
