(* ===== verification/Spec2Isabelle.thy ===== *)
theory Spec2Isabelle
  imports Process_Queue Spec_Converter Resolver_Requests Resolver_Safety Uri Client_Fetch Emitter Form_View Response_View Page_View Page_Auth Page_Main Render_Param Superagent_Methods Translator
begin

text \<open>
  A verification development for the JavaScript of moonbox: the REST console that the grid module serves,
  \<open>src/grid/src/main/resources/swagger-ui-dist/swagger-ui.js\<close>. The file is a bundle of numbered modules. It reads
  a description of a REST service, turns it into a client with one function per operation, and sends the
  requests that the user of the page asks for.

  \<^bold>\<open>The parts and how they interact.\<close> A document is fetched; an old one (1.x) is converted (module 8,
  \<open>SwaggerSpecConverter\<close>); the references in it are resolved (module 6, \<open>Resolver\<close>); the client is built from the
  result (module 3, \<open>SwaggerClient.buildFromSpec\<close>), which files an operation object (module 10, \<open>Operation\<close>) under
  each of its tags. Executing an operation computes the url, headers and body from the arguments, lets the
  authorizations (module 2) change the request, and hands it to an http client (module 5), which drives jQuery or the
  bundled superagent (modules 158 to 162). Models of the document are shown as markup and as samples (modules 7 and 9).
  The views of the page collect the arguments from a form, show the response, and log in with the schemes that an
  operation requires. Below this lie the helpers (module 4), the task queue of the process shim (module 12), \<open>btoa\<close>
  (13) over \<open>buffer\<close> (14) over \<open>base64-js\<close> (15), and the cookie jar (18).

  \<^bold>\<open>The theories.\<close>
  \<^item> \<open>JS_Prelude\<close>: thrown errors as \<open>Inl\<close>, loops that may throw (\<open>foldR\<close>, \<open>mapR\<close>), the 32-bit integer operators.
  \<^item> \<open>JS_String\<close>, \<open>JS_Object\<close>, \<open>JS_Value\<close>, \<open>JS_Json\<close>: the string methods, objects as association lists in
    insertion order (locale \<open>property_store\<close> with its interpretation \<open>obj\<close>), JavaScript values, conversion to
    strings, \<open>encodeURIComponent\<close>, \<open>JSON.stringify\<close>, and searches for a free numbered name (locale
    \<open>numbered_names\<close>, interpreted for definitions in \<open>Resolver\<close> and for operation ids in \<open>Client\<close>).
  \<^item> \<open>Base64\<close> (module 15), \<open>Buffer_Int\<close>, \<open>Buffer_Text\<close>, \<open>Buffer_Ops\<close> (module 14): a buffer is its list of bytes; all
    functions but those on floating-point numbers. The integer accessors share the locale \<open>int_codec\<close>, the text
    encodings the locale \<open>text_codec\<close>. Shown: round trips of base64, of every lossless encoding, of UTF-8 text
    and of the integer accessors; the errors for values and offsets out of range; the frame of a write;
    copying inside one buffer; that \<open>compare\<close> is the lexicographic order.
  \<^item> \<open>Cookie_Jar\<close> (module 18): the invariant of the jar, lookup after insertion, print and parse.
  \<^item> \<open>Auth\<close> (modules 2 and 13): the authorizations as actions on a request that settle (locale \<open>settling_actions\<close>):
    applying them again changes nothing and they take nothing away.
  \<^item> \<open>Operation_Url\<close>, \<open>Operation_Request\<close> (module 10): \<open>urlify\<close>, missing parameters, content types, header and body
    parameters, \<open>execute\<close> up to the http client, \<open>asCurl\<close>. Shown: what a server decodes from the query string and
    from a form body are the arguments given; the path is filled in; a shell that reads the curl command gets
    the words intended.
  \<^item> \<open>Process_Queue\<close> (module 12): the queue as a state machine of timers and calls. The batches of \<open>drainQueue\<close> refine a
    first-in-first-out queue; draining ends if the tasks that tasks schedule shrink; no waiting task is left
    without a timer; a task that throws blocks the queue for good.
  \<^item> \<open>Spec_Converter\<close> (module 8): the conversion of models, operations, parameters, responses, security definitions;
    the resource listing with its pending answers, which finishes exactly once.
  \<^item> \<open>Resolver\<close> (module 6): urls of references, the search for references, names of inline models, composition with
    \<open>allOf\<close>.
  \<^item> \<open>Resolver_Requests\<close> (module 6, the second half of \<open>resolve\<close>): which references are looked up, and a state machine of
    timers, answers and errors with a lock per url and a cache. Shown: \<open>finish\<close> is called once and not too early, one
    request per url at a time, progress until nothing is left; and that an API key in the query breaks the lock.
  \<^item> \<open>JS_Store\<close>: objects and arrays in a store, operations that may throw, reading a value back, \<open>cloneDeep\<close>, and the rules
    for operations that keep a store well-formed (locale \<open>store_invariant\<close>, interpreted for plain stores and for the state of the
    resolver).
  \<^item> \<open>Resolver_Store\<close>, \<open>Resolver_Safety\<close> (module 6, the first half of \<open>resolve\<close>, \<open>processAllOf\<close>, \<open>finish\<close>): searching a document and
    replacing its references in place, in a store, since objects are shared; rounds until the callback. Shown: reading
    operations agree with those on values; a document that the callback gets early has all its references resolved;
    what \<open>finish\<close> leaves in place of a reference; the parameters of a path; the store stays well-formed.
  \<^item> \<open>Helpers\<close> (module 4) and \<open>Client\<close> (modules 3 and 11): vendor extensions; the built client, whose shared operation
    objects live in a store that groups refer to. Shown: the invariant of the built client, that every operation
    of the document is listed under its tags, the shape and uniqueness of ids, the order of the groups, and the
    setters (locale \<open>operation_setter\<close>).
  \<^item> \<open>Uri\<close> (\<open>parseUri\<close>): a matcher of regular expressions with backtracking, and the one that takes a url apart. Shown: scheme,
    host and port are found, and the address of a client whose document names none.
  \<^item> \<open>Schema_Sample\<close>, \<open>Xml_Sample\<close>, \<open>Format_Xml\<close> (modules 7 and 9, and \<open>SwaggerUi.partials.signature\<close>): sample values of schemas
    in JSON and XML, and the layout of XML. Shown: every schema has a sample although models may contain themselves,
    it fits the declared type, the XML is well-formed, and the layout changes only blanks.
  \<^item> \<open>Schema_Html\<close> (module 7 and its copy on the page, told apart by a flag): the markup of a model and of the models
    it refers to. Shown: the loop over the references ends, with its conditions, and an input on which it does not.
  \<^item> \<open>Operation_Types\<close> (module 10): types, inline models, signatures, the values of parameters, the response of success.
    Shown: an inline model is found under its name; the response of success; the values that may be chosen; that
    describing the parameters ends.
  \<^item> \<open>Http\<close> (module 5), \<open>Superagent\<close> (158 to 161), \<open>Emitter\<close> (162), \<open>Client_Fetch\<close> (\<open>initialize\<close> and \<open>build\<close> of module 3): the
    choice of a client, what goes over the wire, and what comes back. Shown: a JSON body reaches the server; headers
    are parsed to what was sent; the callback of a request is called at most once whatever the order of answer, timer
    and abort (a step relation with its invariant); success is told from failure by the status; a timeout of
    superagent is reported by \<open>build\<close>; \<open>emit\<close> implements its specification.
  \<^item> \<open>Superagent_Methods\<close> (158): basic authentication, which the server decodes, and the functions named after methods.
  \<^item> \<open>Form_View\<close>, \<open>Response_View\<close>, \<open>Page_View\<close> (\<open>OperationView\<close>, \<open>ParameterView\<close>, \<open>ResourceView\<close>): reading and submitting the form,
    the display of a response, what the views compute for their templates. Shown: a form that is submitted has all
    required arguments, so that \<open>execute\<close> does not refuse it; the two parsers of headers agree; names are unique.
  \<^item> \<open>Page_Auth\<close> (\<open>SwaggerUi.utils\<close>, the models of authorizations and \<open>AuthView\<close>): the schemes of a requirement, validation,
    login and logout. Shown: the schemes and scopes offered; what a click registers; the query of the login url.
  \<^item> \<open>Page_Main\<close> (\<open>SwaggerUi\<close>, \<open>HeaderView\<close>, \<open>MainView\<close>, \<open>StatusCodeView\<close>, the views of the login forms): options, the url of the
    document, the order and the identifiers of what is shown. Shown: sorting keeps the client consistent; loading twice asks
    for the same url; the keys of the resources differ; and where forms cannot be completed.
  \<^item> \<open>Render_Param\<close> (the template helper \<open>renderTextParam\<close>): the markup of the control of a parameter. Shown: a reader of
    elements finds the attributes that are meant, whatever the name of the parameter is; and how a default breaks out.
  \<^item> \<open>Translator\<close> (\<open>lang/translator.js\<close> and six language files): translating labels; English leaves them as they are.

  \<^bold>\<open>Correspondence.\<close> Definitions keep the names of the functions they model; a loop body or a branch that has a
  definition of its own is named after what it does. A thrown error is \<open>Inl\<close> with its kind and message. Objects
  passed by reference are returned updated, except in \<open>Client\<close> and \<open>Resolver_Store\<close> where sharing is visible. Numbers are integers:
  the code modelled computes with integral values within the exact range of doubles. Texts of the client are
  lists of characters below 256, texts of buffers are lists of 16-bit units.

  \<^bold>\<open>Bounds and partiality.\<close> The recursive operations on a store take the depth of the stack, since objects may contain themselves;
  running out of it is the \<open>RangeError\<close> of the engine, and for a value without a cycle a stack as deep as the value is
  enough (\<open>getRefs_h_refines\<close>). Other recursion follows the data or has a measure; \<open>drain_loop\<close>,
  \<open>choose_loop\<close> and \<open>visit_all\<close>, which need not end, are partial functions into \<open>option\<close>, and that they return is a theorem of its own
  with its conditions.

  \<^bold>\<open>Parameters.\<close> The browser and third-party code are arguments: \<open>Date.parse\<close> and \<open>toGMTString\<close> of cookies, the form
  data constructor and the interceptors of a request, the tasks of the queue, the answers of a listing, the
  location and protocol of the window, the YAML parser, \<open>JSON.parse\<close>, the time of day, the macros that set defaults, the
  order in which the engine sorts by an inconsistent comparison, the controls of a form, the urls of blobs, the cleaning of
  texts by \<open>sanitizeHtml\<close>, the comparison of texts and the sorting of arrays. No property assumes anything of them except where its statement says so.

  \<^bold>\<open>Not modelled.\<close> \<open>resolveAllOf\<close> on shared objects (it is modelled on values), references that are arrays, and resolving a document without a url; of superagent \<open>attach\<close>, \<open>then\<close> and the progress events; floating-point accessors
  and \<open>ieee754\<close> (16), for lack of a theory of doubles; the bundled packages js-yaml, lodash and q; the templates with their other helpers, the
  elements that the views fill in, and the views without computations of their own; language files with characters above 255
  and the scripts of the documentation. The order of integer-like keys and the prototype chain of objects are outside the model of
  objects.

  \<^bold>\<open>Defects met.\<close> Where the code does not do what it means to, a lemma shows it on a concrete input: for example
  \<open>int_write_borrow_bug\<close>, \<open>utf8_surrogate_bugs\<close>, \<open>indexOf_misses\<close>, \<open>cookie_domain_suffix\<close>, \<open>urlify_mask_flaws\<close>,
  \<open>asCurl_url_quote\<close>, \<open>oauth_single_scope_lost\<close>, \<open>host_without_slash\<close>, \<open>third_operation_overwrites\<close>,
  \<open>whole_file_skips_entries\<close>, \<open>choice_may_not_end\<close>, \<open>falsy_extension_lost\<close>, \<open>markup_need_not_end\<close>, \<open>tuple_items_lost\<close>,
  \<open>titled_reference\<close>, \<open>xml_not_escaped\<close>, \<open>page_misses_inline\<close>, \<open>page_sample_of_examples\<close>, \<open>array_field_indices\<close>,
  \<open>redirection_succeeds\<close>, \<open>client_id_not_required\<close>, \<open>login_without_flow\<close>, \<open>blank_choice_passes\<close>, \<open>no_headers_throw\<close>,
  \<open>curl_exclamation\<close>, \<open>last_oauth_wins\<close>, \<open>recursive_remote_models\<close>, \<open>same_name_replaced\<close>, \<open>self_composed_overflows\<close>, \<open>path_is_file\<close>,
  \<open>default_breaks_out\<close>, \<open>extension_breaks_out\<close>,
  \<open>buildUrl_flaws\<close>, \<open>resource_ids_collide\<close>, \<open>second_basic_hidden\<close>, \<open>head_data_lost\<close>.
\<close>

end
